(* ===== verification/Prelude.thy ===== *)
theory Prelude
  imports Main "HOL-Library.Word" "HOL-Library.Multiset"
begin

text \<open>
  Shared vocabulary of the development.

  \<^item> Outcomes: a C function that may stop the process (a failed assertion) or read outside an
    array returns a value of \<open>'a exec\<close>; \<open>Inl\<close> names the fault, \<open>Inr\<close> carries the result.
  \<^item> Texts: \<open>aroop_txt_t\<close> is the memory a text points to and its length, as the code reads
    and writes them directly; the operations of the Aroop library on it are in theory \<open>Aroop\<close>.
  \<^item> Decimal numerals, as \<open>printf("%d")\<close> writes them.
\<close>

unbundle bit_operations_syntax

section \<open>Outcomes\<close>

datatype fault = AssertFailed | OutOfBounds | NullDeref | Diverges

type_synonym 'a exec = "fault + 'a"

definition ebind :: "'a exec \<Rightarrow> ('a \<Rightarrow> 'b exec) \<Rightarrow> 'b exec" where
  "ebind m f = (case m of Inl e \<Rightarrow> Inl e | Inr x \<Rightarrow> f x)"

lemma ebind_simps [simp]: "ebind (Inl e) f = Inl e" "ebind (Inr x) f = f x"
  by (simp_all add: ebind_def)

lemma ebind_Inr_iff: "ebind m f = Inr y \<longleftrightarrow> (\<exists>x. m = Inr x \<and> f x = Inr y)"
  by (cases m) simp_all

lemma ebind_cong [fundef_cong]:
  "m = m' \<Longrightarrow> (\<And>x. m' = Inr x \<Longrightarrow> f x = g x) \<Longrightarrow> ebind m f = ebind m' g"
  by (cases m') simp_all

lemma ebind_InrE:
  assumes "ebind m f = Inr y"
  obtains x where "m = Inr x" and "f x = Inr y"
  using assms by (auto simp: ebind_Inr_iff)

section \<open>Bytes and texts\<close>

type_synonym byte = "8 word"
type_synonym bytes = "byte list"

definition lit :: "string \<Rightarrow> bytes" where
  "lit s = map of_char s"

lemma length_lit [simp]: "length (lit s) = length s"
  by (simp add: lit_def)

lemma lit_append [simp]: "lit (s @ t) = lit s @ lit t"
  by (simp add: lit_def)

lemma unat_of_char [simp]: "unat (of_char c :: byte) = of_char c"
proof -
  have "(of_char c :: byte) = of_nat (of_char c)"
    by (simp add: of_nat_of_char)
  moreover have "(of_char c :: nat) < 256"
    by (rule nat_of_char_less_256)
  ultimately show ?thesis
    by (simp add: unat_of_nat)
qed

lemma inj_of_char_byte: "inj (of_char :: char \<Rightarrow> byte)"
proof (rule injI)
  fix c d :: char
  assume "(of_char c :: byte) = of_char d"
  then have "unat (of_char c :: byte) = unat (of_char d :: byte)" by simp
  then have "(of_char c :: nat) = of_char d" by simp
  then show "c = d" by (simp add: of_char_eq_iff)
qed

lemma lit_Nil_iff [simp]: "lit s = [] \<longleftrightarrow> s = []"
  by (simp add: lit_def)

lemma lit_eq_iff [simp]: "lit s = lit t \<longleftrightarrow> s = t"
  unfolding lit_def by (simp add: inj_map_eq_map inj_of_char_byte)

lemma unat_byte: "n < 256 \<Longrightarrow> unat (of_nat n :: byte) = n"
  by (simp add: unat_of_nat)

lemma unat_u16: "n < 65536 \<Longrightarrow> unat (of_nat n :: 16 word) = n"
  by (simp add: unat_of_nat)

lemma sint_nonneg:
  assumes "0 \<le>s (v :: 32 word)"
  shows "sint v = uint v"
proof -
  have nb: "\<not> bit (uint v) 31"
    using assms by (simp add: word_sle_eq sint_uint signed_take_bit_nonnegative_iff)
  have "uint v = take_bit (Suc 31) (uint v)"
    using uint_lt2p [of v] by (simp add: take_bit_int_eq_self)
  also have "\<dots> = take_bit 31 (uint v)"
    using nb by (simp only: take_bit_Suc_from_most) simp
  finally show ?thesis
    using nb by (simp add: sint_uint signed_take_bit_eq_if_positive)
qed

text \<open>
  \<open>t_mem\<close> is the memory behind the pointer that \<open>aroop_txt_to_string\<close> returns, as long as the
  capacity; \<open>t_len\<close> is the field \<open>len\<close>, which the code also reads and writes directly.
\<close>

record aroop_txt_t =
  t_mem :: bytes
  t_len :: nat

definition t_cap :: "aroop_txt_t \<Rightarrow> nat" where
  "t_cap t = length (t_mem t)"

definition wf_txt :: "aroop_txt_t \<Rightarrow> bool" where
  "wf_txt t \<longleftrightarrow> t_len t \<le> t_cap t"

definition str :: "aroop_txt_t \<Rightarrow> bytes" where
  "str t = take (t_len t) (t_mem t)"

definition zero_txt :: aroop_txt_t where
  "zero_txt = \<lparr>t_mem = [], t_len = 0\<rparr>"

definition txt_of :: "bytes \<Rightarrow> aroop_txt_t" where
  "txt_of bs = \<lparr>t_mem = bs, t_len = length bs\<rparr>"

lemma length_str: "wf_txt t \<Longrightarrow> length (str t) = t_len t"
  by (simp add: wf_txt_def str_def t_cap_def)

lemma zero_txt_simps [simp]:
  "str zero_txt = []" "wf_txt zero_txt" "t_len zero_txt = 0"
  by (simp_all add: zero_txt_def str_def wf_txt_def)

lemma txt_of_simps [simp]:
  "str (txt_of bs) = bs" "wf_txt (txt_of bs)" "t_len (txt_of bs) = length bs"
  "t_cap (txt_of bs) = length bs"
  by (simp_all add: txt_of_def str_def wf_txt_def t_cap_def)

text \<open>Memory read through a \<open>char*\<close>: a fault outside the allocated bytes.\<close>

definition mem_read :: "bytes \<Rightarrow> nat \<Rightarrow> byte exec" where
  "mem_read m i = (if i < length m then Inr (m ! i) else Inl OutOfBounds)"

lemma mem_read_ok [simp]: "i < length m \<Longrightarrow> mem_read m i = Inr (m ! i)"
  by (simp add: mem_read_def)

lemma mem_read_Inr: "mem_read m i = Inr b \<longleftrightarrow> i < length m \<and> b = m ! i"
  by (auto simp: mem_read_def)

section \<open>Flags in a word\<close>

definition has :: "32 word \<Rightarrow> 32 word \<Rightarrow> bool" where
  "has s f \<longleftrightarrow> s AND f \<noteq> 0"

lemma has_or [simp]: "has (s OR f) g \<longleftrightarrow> has s g \<or> has f g"
  by (auto simp: has_def bit_eq_iff bit_simps)

lemma has_or_flag: "has s (f OR g) \<longleftrightarrow> has s f \<or> has s g"
  by (auto simp: has_def bit_eq_iff bit_simps)

lemma has_clear: "f AND g = 0 \<Longrightarrow> has (s AND NOT f) g \<longleftrightarrow> has s g"
  by (auto simp: has_def bit_eq_iff bit_simps)

lemma has_clear_same [simp]: "\<not> has (s AND NOT f) f"
  by (auto simp: has_def bit_eq_iff bit_simps)

lemma has_zero [simp]: "\<not> has 0 f"
  by (simp add: has_def)

section \<open>Decimal numerals, as printf writes and atoi reads them\<close>

fun dec_nat :: "nat \<Rightarrow> bytes" where
  "dec_nat n = (if n < 10 then [of_nat (48 + n)] else dec_nat (n div 10) @ [of_nat (48 + n mod 10)])"

declare dec_nat.simps [simp del]

definition dec_int :: "int \<Rightarrow> bytes" where
  "dec_int k = (if k < 0 then 45 # dec_nat (nat (- k)) else dec_nat (nat k))"

definition dec_val :: "bytes \<Rightarrow> nat" where
  "dec_val bs = foldl (\<lambda>a b. 10 * a + (unat b - 48)) 0 bs"

lemma digit_byte: "d < 10 \<Longrightarrow> unat (of_nat (48 + d) :: byte) = 48 + d"
  by (simp only: unat_of_nat) simp

lemma dec_val_append: "dec_val (bs @ [b]) = 10 * dec_val bs + (unat b - 48)"
  by (simp add: dec_val_def)

lemma dec_val_dec_nat [simp]: "dec_val (dec_nat n) = n"
proof (induction n rule: dec_nat.induct)
  case (1 n)
  show ?case
  proof (cases "n < 10")
    case True
    with digit_byte [of n] show ?thesis
      by (subst dec_nat.simps) (simp add: dec_val_def)
  next
    case False
    have "dec_val (dec_nat n) = 10 * dec_val (dec_nat (n div 10)) + n mod 10"
      using False digit_byte [of "n mod 10"] by (subst dec_nat.simps) (simp add: dec_val_append)
    also have "\<dots> = n" using False 1 by simp
    finally show ?thesis .
  qed
qed

lemma dec_nat_digits: "b \<in> set (dec_nat n) \<Longrightarrow> 48 \<le> unat b \<and> unat b < 58"
proof (induction n rule: dec_nat.induct)
  case (1 n)
  show ?case
  proof (cases "n < 10")
    case True
    with 1 digit_byte [of n] show ?thesis by (simp add: dec_nat.simps)
  next
    case False
    with "1.prems" have "b \<in> set (dec_nat (n div 10)) \<or> b = of_nat (48 + n mod 10)"
      by (auto simp: dec_nat.simps [of n])
    with 1 False digit_byte [of "n mod 10"] show ?thesis by auto
  qed
qed

lemma dec_nat_nonempty [simp]: "dec_nat n \<noteq> []"
  by (subst dec_nat.simps) simp

lemma dec_nat_inj [simp]: "dec_nat m = dec_nat n \<longleftrightarrow> m = n"
  by (metis dec_val_dec_nat)

lemma length_dec_nat: "n < 10 ^ k \<Longrightarrow> 0 < k \<Longrightarrow> length (dec_nat n) \<le> k"
proof (induction k arbitrary: n)
  case (Suc k)
  show ?case
  proof (cases "n < 10")
    case False
    then have "0 < k" using Suc.prems(1) by (cases k) auto
    moreover have "n div 10 < 10 ^ k" using Suc.prems(1) by (simp add: less_mult_imp_div_less)
    ultimately have "length (dec_nat (n div 10)) \<le> k" using Suc.IH by blast
    then show ?thesis using False by (subst dec_nat.simps) simp
  qed (subst dec_nat.simps, simp)
qed simp

lemma hd_dec_nat: "hd (dec_nat n) \<noteq> 45"
  using dec_nat_digits [OF hd_in_set [OF dec_nat_nonempty], of n] by auto

lemma dec_int_inj [simp]: "dec_int a = dec_int b \<longleftrightarrow> a = b"
proof
  assume eq: "dec_int a = dec_int b"
  consider "a < 0" "b < 0" | "a < 0" "0 \<le> b" | "0 \<le> a" "b < 0" | "0 \<le> a" "0 \<le> b"
    by linarith
  then show "a = b"
    using eq hd_dec_nat [of "nat a"] hd_dec_nat [of "nat b"]
    by cases (auto simp: dec_int_def dest: arg_cong [where f = hd])
qed simp

lemma dec_int_nonempty [simp]: "dec_int k \<noteq> []"
  by (simp add: dec_int_def)

end
