(* ===== verification/Aroop.thy ===== *)
theory Aroop
  imports Prelude "HOL-Library.AList"
begin

text \<open>
  The interface of the external Aroop library that the code is written against. Its texts
  (\<open>aroop_txt_*\<close>) and hash tables (\<open>opp_hash_table\<close>, \<open>opp_hash_otable\<close>) are not part of the
  repository: their operations are the fields of the parameters \<open>A :: aroop\<close> and
  \<open>T :: table_api\<close>, and what the code relies on is stated by \<open>aroop_ok\<close> and \<open>table_ok\<close>.
  The formatted output of \<open>aroop_txt_printf\<close> is given to it as the bytes its format expands to (\<open>aroop_txt_printf_d\<close>
  where the format is a single numeral). Behaviour the code cannot rely on (appending beyond the capacity, reading past the length)
  is left open. Pool allocation is taken to succeed. \<open>ref_aroop\<close> and \<open>ref_table\<close> satisfy the
  laws; witnesses use them.
\<close>

section \<open>Texts\<close>

record aroop =
  aroop_txt_concat :: "aroop_txt_t \<Rightarrow> aroop_txt_t \<Rightarrow> aroop_txt_t"
  aroop_txt_concat_char :: "aroop_txt_t \<Rightarrow> byte \<Rightarrow> aroop_txt_t"
  aroop_txt_concat_string :: "aroop_txt_t \<Rightarrow> bytes \<Rightarrow> aroop_txt_t"
  aroop_txt_set_length :: "aroop_txt_t \<Rightarrow> nat \<Rightarrow> aroop_txt_t"
  aroop_txt_set_char_at :: "aroop_txt_t \<Rightarrow> nat \<Rightarrow> byte \<Rightarrow> aroop_txt_t"
  aroop_txt_char_at :: "aroop_txt_t \<Rightarrow> nat \<Rightarrow> byte"
  aroop_txt_shift :: "aroop_txt_t \<Rightarrow> int \<Rightarrow> aroop_txt_t"
  aroop_txt_truncate :: "aroop_txt_t \<Rightarrow> nat \<Rightarrow> aroop_txt_t"
  aroop_txt_equals :: "aroop_txt_t \<Rightarrow> aroop_txt_t \<Rightarrow> bool"
  aroop_txt_copy_shallow :: "aroop_txt_t \<Rightarrow> aroop_txt_t"
  aroop_txt_copy_deep :: "aroop_txt_t \<Rightarrow> aroop_txt_t"
  aroop_txt_copy_on_demand :: "aroop_txt_t \<Rightarrow> aroop_txt_t"
  aroop_txt_static_string :: "bytes \<Rightarrow> aroop_txt_t"
  aroop_txt_buffer :: "nat \<Rightarrow> aroop_txt_t"
  aroop_txt_stackbuffer :: "nat \<Rightarrow> aroop_txt_t"
  aroop_txt_destroy :: "aroop_txt_t \<Rightarrow> aroop_txt_t"
  aroop_txt_zero_terminate :: "aroop_txt_t \<Rightarrow> aroop_txt_t"
  aroop_txt_printf_d :: "aroop_txt_t \<Rightarrow> int \<Rightarrow> aroop_txt_t"
  aroop_txt_printf :: "aroop_txt_t \<Rightarrow> bytes \<Rightarrow> aroop_txt_t"
  aroop_txt_to_int :: "aroop_txt_t \<Rightarrow> int"
  aroop_assert_aborts :: bool

text \<open>
  Whether a failed \<open>aroop_assert\<close> stops the process is a setting of the library's build.
\<close>

definition aroop_assert :: "aroop \<Rightarrow> bool \<Rightarrow> unit exec" where
  "aroop_assert A b = (if b \<or> \<not> aroop_assert_aborts A then Inr () else Inl AssertFailed)"

lemma aroop_assert_True [simp]: "aroop_assert A True = Inr ()"
  by (simp add: aroop_assert_def)

definition appends :: "aroop_txt_t \<Rightarrow> bytes \<Rightarrow> aroop_txt_t \<Rightarrow> bool" where
  "appends t bs t' \<longleftrightarrow> wf_txt t' \<and> str t' = str t @ bs \<and> t_cap t' = t_cap t"

definition append_laws :: "aroop \<Rightarrow> bool" where
  "append_laws A \<longleftrightarrow>
     (\<forall>t x. wf_txt t \<longrightarrow> wf_txt x \<longrightarrow> t_len t + t_len x \<le> t_cap t \<longrightarrow>
        appends t (str x) (aroop_txt_concat A t x)) \<and>
     (\<forall>t c. wf_txt t \<longrightarrow> t_len t < t_cap t \<longrightarrow> appends t [c] (aroop_txt_concat_char A t c)) \<and>
     (\<forall>t s. wf_txt t \<longrightarrow> t_len t + length s \<le> t_cap t \<longrightarrow>
        appends t s (aroop_txt_concat_string A t s)) \<and>
     (\<forall>t k. wf_txt t \<longrightarrow> t_len t = 0 \<longrightarrow> length (dec_int k) \<le> t_cap t \<longrightarrow>
        appends t (dec_int k) (aroop_txt_printf_d A t k)) \<and>
     (\<forall>t s. wf_txt t \<longrightarrow> t_len t = 0 \<longrightarrow> length s \<le> t_cap t \<longrightarrow>
        appends t s (aroop_txt_printf A t s))"

definition access_laws :: "aroop \<Rightarrow> bool" where
  "access_laws A \<longleftrightarrow>
     (\<forall>t n. n \<le> t_cap t \<longrightarrow> aroop_txt_set_length A t n = t\<lparr>t_len := n\<rparr>) \<and>
     (\<forall>t i c. wf_txt t \<longrightarrow> i < t_len t \<longrightarrow>
        aroop_txt_set_char_at A t i c = t\<lparr>t_mem := (t_mem t)[i := c]\<rparr>) \<and>
     (\<forall>t i. wf_txt t \<longrightarrow> i < t_len t \<longrightarrow> aroop_txt_char_at A t i = t_mem t ! i) \<and>
     (\<forall>t n. wf_txt t \<longrightarrow> n \<le> t_len t \<longrightarrow>
        aroop_txt_shift A t (int n) = \<lparr>t_mem = drop n (t_mem t), t_len = t_len t - n\<rparr>) \<and>
     (\<forall>t n. wf_txt t \<longrightarrow> n \<le> t_len t \<longrightarrow> aroop_txt_truncate A t n = t\<lparr>t_len := n\<rparr>) \<and>
     (\<forall>t x. wf_txt t \<longrightarrow> wf_txt x \<longrightarrow> (aroop_txt_equals A t x \<longleftrightarrow> str t = str x)) \<and>
     (\<forall>t (v :: 32 word). wf_txt t \<longrightarrow> str t = dec_int (sint v) \<longrightarrow> aroop_txt_to_int A t = sint v)"

definition create_laws :: "aroop \<Rightarrow> bool" where
  "create_laws A \<longleftrightarrow>
     (\<forall>t. aroop_txt_copy_shallow A t = t) \<and>
     (\<forall>t. wf_txt t \<longrightarrow> wf_txt (aroop_txt_copy_deep A t) \<and> str (aroop_txt_copy_deep A t) = str t) \<and>
     (\<forall>t. wf_txt t \<longrightarrow> wf_txt (aroop_txt_copy_on_demand A t) \<and> str (aroop_txt_copy_on_demand A t) = str t) \<and>
     (\<forall>s. wf_txt (aroop_txt_static_string A s) \<and> str (aroop_txt_static_string A s) = s) \<and>
     (\<forall>n. wf_txt (aroop_txt_buffer A n) \<and> t_len (aroop_txt_buffer A n) = 0 \<and>
        n \<le> t_cap (aroop_txt_buffer A n)) \<and>
     (\<forall>n. wf_txt (aroop_txt_stackbuffer A n) \<and> t_len (aroop_txt_stackbuffer A n) = 0 \<and>
        n < t_cap (aroop_txt_stackbuffer A n)) \<and>
     (\<forall>t. aroop_txt_destroy A t = zero_txt) \<and>
     (\<forall>t. wf_txt t \<longrightarrow> wf_txt (aroop_txt_zero_terminate A t) \<and>
        str (aroop_txt_zero_terminate A t) = str t)"

definition aroop_ok :: "aroop \<Rightarrow> bool" where
  "aroop_ok A \<longleftrightarrow> append_laws A \<and> access_laws A \<and> create_laws A"

named_theorems aroop_simps

lemma concat_appends:
  "aroop_ok A \<Longrightarrow> wf_txt t \<Longrightarrow> wf_txt x \<Longrightarrow> t_len t + t_len x \<le> t_cap t \<Longrightarrow>
     appends t (str x) (aroop_txt_concat A t x)"
  by (simp add: aroop_ok_def append_laws_def)

lemma concat_char_appends:
  "aroop_ok A \<Longrightarrow> wf_txt t \<Longrightarrow> t_len t < t_cap t \<Longrightarrow>
     appends t [c] (aroop_txt_concat_char A t c)"
  by (simp add: aroop_ok_def append_laws_def)

lemma concat_string_appends:
  "aroop_ok A \<Longrightarrow> wf_txt t \<Longrightarrow> t_len t + length s \<le> t_cap t \<Longrightarrow>
     appends t s (aroop_txt_concat_string A t s)"
  by (simp add: aroop_ok_def append_laws_def)

lemma printf_d_appends:
  "aroop_ok A \<Longrightarrow> wf_txt t \<Longrightarrow> t_len t = 0 \<Longrightarrow> length (dec_int k) \<le> t_cap t \<Longrightarrow>
     appends t (dec_int k) (aroop_txt_printf_d A t k)"
  by (simp add: aroop_ok_def append_laws_def)

lemma printf_appends:
  "aroop_ok A \<Longrightarrow> wf_txt t \<Longrightarrow> t_len t = 0 \<Longrightarrow> length s \<le> t_cap t \<Longrightarrow>
     appends t s (aroop_txt_printf A t s)"
  by (simp add: aroop_ok_def append_laws_def)

lemma set_length_law [aroop_simps]:
  "aroop_ok A \<Longrightarrow> n \<le> t_cap t \<Longrightarrow> aroop_txt_set_length A t n = t\<lparr>t_len := n\<rparr>"
  by (simp add: aroop_ok_def access_laws_def)

lemma set_char_at_law [aroop_simps]:
  "aroop_ok A \<Longrightarrow> wf_txt t \<Longrightarrow> i < t_len t \<Longrightarrow>
     aroop_txt_set_char_at A t i c = t\<lparr>t_mem := (t_mem t)[i := c]\<rparr>"
  by (simp add: aroop_ok_def access_laws_def)

lemma char_at_law [aroop_simps]:
  "aroop_ok A \<Longrightarrow> wf_txt t \<Longrightarrow> i < t_len t \<Longrightarrow> aroop_txt_char_at A t i = t_mem t ! i"
  by (simp add: aroop_ok_def access_laws_def)

lemma shift_law [aroop_simps]:
  "aroop_ok A \<Longrightarrow> wf_txt t \<Longrightarrow> n \<le> t_len t \<Longrightarrow>
     aroop_txt_shift A t (int n) = \<lparr>t_mem = drop n (t_mem t), t_len = t_len t - n\<rparr>"
  by (simp add: aroop_ok_def access_laws_def)

lemma truncate_law [aroop_simps]:
  "aroop_ok A \<Longrightarrow> wf_txt t \<Longrightarrow> n \<le> t_len t \<Longrightarrow> aroop_txt_truncate A t n = t\<lparr>t_len := n\<rparr>"
  by (simp add: aroop_ok_def access_laws_def)

lemma equals_law [aroop_simps]:
  "aroop_ok A \<Longrightarrow> wf_txt t \<Longrightarrow> wf_txt x \<Longrightarrow> aroop_txt_equals A t x \<longleftrightarrow> str t = str x"
  by (simp add: aroop_ok_def access_laws_def)

lemma to_int_law:
  "aroop_ok A \<Longrightarrow> wf_txt t \<Longrightarrow> str t = dec_int (sint (v :: 32 word)) \<Longrightarrow> aroop_txt_to_int A t = sint v"
  by (simp add: aroop_ok_def access_laws_def)

lemma copy_shallow_law [aroop_simps]: "aroop_ok A \<Longrightarrow> aroop_txt_copy_shallow A t = t"
  by (simp add: aroop_ok_def create_laws_def)

lemma copy_deep_laws [aroop_simps]:
  "aroop_ok A \<Longrightarrow> wf_txt t \<Longrightarrow> wf_txt (aroop_txt_copy_deep A t)"
  "aroop_ok A \<Longrightarrow> wf_txt t \<Longrightarrow> str (aroop_txt_copy_deep A t) = str t"
  by (simp_all add: aroop_ok_def create_laws_def)

lemma copy_on_demand_laws [aroop_simps]:
  "aroop_ok A \<Longrightarrow> wf_txt t \<Longrightarrow> wf_txt (aroop_txt_copy_on_demand A t)"
  "aroop_ok A \<Longrightarrow> wf_txt t \<Longrightarrow> str (aroop_txt_copy_on_demand A t) = str t"
  by (simp_all add: aroop_ok_def create_laws_def)

lemma static_laws [aroop_simps]:
  "aroop_ok A \<Longrightarrow> wf_txt (aroop_txt_static_string A s)"
  "aroop_ok A \<Longrightarrow> str (aroop_txt_static_string A s) = s"
  by (simp_all add: aroop_ok_def create_laws_def)

lemma buffer_laws [aroop_simps]:
  "aroop_ok A \<Longrightarrow> wf_txt (aroop_txt_buffer A n)"
  "aroop_ok A \<Longrightarrow> t_len (aroop_txt_buffer A n) = 0"
  "aroop_ok A \<Longrightarrow> wf_txt (aroop_txt_stackbuffer A n)"
  "aroop_ok A \<Longrightarrow> t_len (aroop_txt_stackbuffer A n) = 0"
  by (simp_all add: aroop_ok_def create_laws_def)

lemma buffer_cap:
  "aroop_ok A \<Longrightarrow> n \<le> t_cap (aroop_txt_buffer A n)"
  "aroop_ok A \<Longrightarrow> n < t_cap (aroop_txt_stackbuffer A n)"
  by (simp_all add: aroop_ok_def create_laws_def)

lemma destroy_law [aroop_simps]: "aroop_ok A \<Longrightarrow> aroop_txt_destroy A t = zero_txt"
  by (simp add: aroop_ok_def create_laws_def)

lemma zero_terminate_laws [aroop_simps]:
  "aroop_ok A \<Longrightarrow> wf_txt t \<Longrightarrow> wf_txt (aroop_txt_zero_terminate A t)"
  "aroop_ok A \<Longrightarrow> wf_txt t \<Longrightarrow> str (aroop_txt_zero_terminate A t) = str t"
  by (simp_all add: aroop_ok_def create_laws_def)

lemma appendsD:
  assumes "appends t bs t'"
  shows "wf_txt t'" and "str t' = str t @ bs" and "t_cap t' = t_cap t"
  using assms by (simp_all add: appends_def)

lemma appends_len: "wf_txt t \<Longrightarrow> appends t bs t' \<Longrightarrow> t_len t' = t_len t + length bs"
  by (metis appendsD(1,2) length_append length_str)

section \<open>Hash tables keyed by texts\<close>

record ('h, 'v) table_api =
  opp_hash_table_create :: "'h"
  opp_hash_table_get :: "'h \<Rightarrow> aroop_txt_t \<Rightarrow> 'v option"
  opp_hash_table_set :: "'h \<Rightarrow> aroop_txt_t \<Rightarrow> 'v option \<Rightarrow> 'h"
  opp_hash_table_traverse :: "'h \<Rightarrow> (aroop_txt_t \<times> 'v) list"

definition table_ok :: "('h, 'v) table_api \<Rightarrow> bool" where
  "table_ok T \<longleftrightarrow>
     (\<forall>k. opp_hash_table_get T (opp_hash_table_create T) k = None) \<and>
     (\<forall>h k v k'. opp_hash_table_get T (opp_hash_table_set T h k v) k' =
        (if str k = str k' then v else opp_hash_table_get T h k')) \<and>
     (\<forall>h k k'. str k = str k' \<longrightarrow> opp_hash_table_get T h k = opp_hash_table_get T h k') \<and>
     (\<forall>h bs v. (\<exists>k. (k, v) \<in> set (opp_hash_table_traverse T h) \<and> str k = bs) \<longleftrightarrow>
        opp_hash_table_get T h (txt_of bs) = Some v) \<and>
     (\<forall>h. distinct (map (\<lambda>p. str (fst p)) (opp_hash_table_traverse T h)))"

text \<open>The content of a table, as a map from key bytes.\<close>

definition table_map :: "('h, 'v) table_api \<Rightarrow> 'h \<Rightarrow> (bytes \<rightharpoonup> 'v)" where
  "table_map T h = (\<lambda>bs. opp_hash_table_get T h (txt_of bs))"

lemma table_map_create [simp]:
  "table_ok T \<Longrightarrow> table_map T (opp_hash_table_create T) = Map.empty"
  by (rule ext) (simp add: table_ok_def table_map_def)

lemma table_get_map: "table_ok T \<Longrightarrow> opp_hash_table_get T h k = table_map T h (str k)"
  unfolding table_ok_def table_map_def by (metis txt_of_simps(1))

lemma table_map_set [simp]:
  "table_ok T \<Longrightarrow> table_map T (opp_hash_table_set T h k v) = (table_map T h)(str k := v)"
  unfolding table_ok_def table_map_def by (rule ext) simp

lemma table_traverse_iff:
  "table_ok T \<Longrightarrow>
     (\<exists>k. (k, v) \<in> set (opp_hash_table_traverse T h) \<and> str k = bs) \<longleftrightarrow> table_map T h bs = Some v"
  unfolding table_ok_def table_map_def by blast

section \<open>Building texts\<close>

definition built :: "nat \<Rightarrow> aroop_txt_t \<Rightarrow> bytes \<Rightarrow> bool" where
  "built n t bs \<longleftrightarrow> wf_txt t \<and> str t = bs \<and> n \<le> t_cap t"

lemma built_len: "built n t bs \<Longrightarrow> t_len t = length bs"
  by (auto simp: built_def length_str)

lemma built_stackbuffer: "aroop_ok A \<Longrightarrow> built n (aroop_txt_stackbuffer A n) []"
  using buffer_cap(2) [of A n] by (simp add: built_def buffer_laws str_def)

lemma built_string: "aroop_ok A \<Longrightarrow> built n t bs \<Longrightarrow> length bs + length s \<le> n \<Longrightarrow> built n (aroop_txt_concat_string A t s) (bs @ s)"
  using concat_string_appends [of A t s] built_len [of n t bs] by (auto simp: built_def appends_def)

lemma built_concat:
  "aroop_ok A \<Longrightarrow> built n t bs \<Longrightarrow> wf_txt x \<Longrightarrow> length bs + t_len x \<le> n \<Longrightarrow> built n (aroop_txt_concat A t x) (bs @ str x)"
  using concat_appends [of A t x] built_len [of n t bs] by (auto simp: built_def appends_def)

lemma built_terminated: "aroop_ok A \<Longrightarrow> built n t bs \<Longrightarrow> wf_txt (aroop_txt_zero_terminate A t) \<and> str (aroop_txt_zero_terminate A t) = bs"
  by (simp add: built_def zero_terminate_laws)

lemma built_char: "aroop_ok A \<Longrightarrow> built n t bs \<Longrightarrow> length bs < n \<Longrightarrow> built n (aroop_txt_concat_char A t c) (bs @ [c])"
  using concat_char_appends [of A t c] built_len [of n t bs] by (auto simp: built_def appends_def)

section \<open>Instances satisfying the laws\<close>

definition ref_append :: "aroop_txt_t \<Rightarrow> bytes \<Rightarrow> aroop_txt_t" where
  "ref_append t bs =
     (if t_len t + length bs \<le> t_cap t
      then \<lparr>t_mem = str t @ bs @ drop (t_len t + length bs) (t_mem t), t_len = t_len t + length bs\<rparr>
      else t)"

fun ref_digits :: "bytes \<Rightarrow> int" where
  "ref_digits [] = 0"
| "ref_digits (b # bs) = (if b = 45 then - int (dec_val bs) else int (dec_val (b # bs)))"

definition ref_aroop :: aroop where
  "ref_aroop = \<lparr>
     aroop_txt_concat = (\<lambda>t x. ref_append t (str x)),
     aroop_txt_concat_char = (\<lambda>t c. ref_append t [c]),
     aroop_txt_concat_string = ref_append,
     aroop_txt_set_length = (\<lambda>t n. t\<lparr>t_len := n\<rparr>),
     aroop_txt_set_char_at = (\<lambda>t i c. t\<lparr>t_mem := (t_mem t)[i := c]\<rparr>),
     aroop_txt_char_at = (\<lambda>t i. if i < t_len t then t_mem t ! i else 0),
     aroop_txt_shift = (\<lambda>t n. if nat n \<le> t_len t
        then \<lparr>t_mem = drop (nat n) (t_mem t), t_len = t_len t - nat n\<rparr> else t),
     aroop_txt_truncate = (\<lambda>t n. t\<lparr>t_len := n\<rparr>),
     aroop_txt_equals = (\<lambda>t x. str t = str x),
     aroop_txt_copy_shallow = (\<lambda>t. t),
     aroop_txt_copy_deep = (\<lambda>t. txt_of (str t)),
     aroop_txt_copy_on_demand = (\<lambda>t. t),
     aroop_txt_static_string = txt_of,
     aroop_txt_buffer = (\<lambda>n. \<lparr>t_mem = replicate n 0, t_len = 0\<rparr>),
     aroop_txt_stackbuffer = (\<lambda>n. \<lparr>t_mem = replicate (Suc n) 0, t_len = 0\<rparr>),
     aroop_txt_destroy = (\<lambda>t. zero_txt),
     aroop_txt_zero_terminate = (\<lambda>t. t),
     aroop_txt_printf_d = (\<lambda>t k. ref_append t (dec_int k)),
     aroop_txt_printf = ref_append,
     aroop_txt_to_int = (\<lambda>t. ref_digits (str t)),
     aroop_assert_aborts = True\<rparr>"

lemma ref_append_appends:
  "wf_txt t \<Longrightarrow> t_len t + length bs \<le> t_cap t \<Longrightarrow> appends t bs (ref_append t bs)"
  by (simp add: ref_append_def appends_def wf_txt_def t_cap_def str_def)

lemma ref_digits_dec_int: "ref_digits (dec_int k) = k"
proof (cases "k < 0")
  case True
  then show ?thesis by (simp add: dec_int_def)
next
  case False
  obtain b bs where "dec_nat (nat k) = b # bs"
    using dec_nat_nonempty by (meson neq_Nil_conv)
  then show ?thesis
    using False hd_dec_nat [of "nat k"] dec_val_dec_nat [of "nat k"]
    by (simp add: dec_int_def)
qed

lemma ref_aroop_ok [simp]: "aroop_ok ref_aroop"
  unfolding aroop_ok_def append_laws_def access_laws_def create_laws_def
  by (auto simp: ref_aroop_def ref_append_appends length_str ref_digits_dec_int
      wf_txt_def t_cap_def str_def txt_of_def)

definition ref_table :: "((bytes \<times> 'v) list, 'v) table_api" where
  "ref_table = \<lparr>
     opp_hash_table_create = [],
     opp_hash_table_get = (\<lambda>h k. map_of h (str k)),
     opp_hash_table_set = (\<lambda>h k v.
        (case v of None \<Rightarrow> AList.delete (str k) h | Some x \<Rightarrow> AList.update (str k) x h)),
     opp_hash_table_traverse = (\<lambda>h. map (\<lambda>(k, v). (txt_of k, v)) (AList.clearjunk h))\<rparr>"

lemma aroop_ok_assert_setting [simp]: "aroop_ok (A\<lparr>aroop_assert_aborts := b\<rparr>) \<longleftrightarrow> aroop_ok A"
  by (simp add: aroop_ok_def append_laws_def access_laws_def create_laws_def)

lemma map_of_iff_clearjunk: "map_of h bs = Some v \<longleftrightarrow> (bs, v) \<in> set (AList.clearjunk h)"
  by (metis distinct_clearjunk map_of_clearjunk map_of_eq_Some_iff)

lemma ref_table_ok [simp]: "table_ok ref_table"
proof -
  have "distinct (map (\<lambda>p. str (fst p)) (opp_hash_table_traverse ref_table h))" for h :: "(bytes \<times> 'a) list"
    using distinct_clearjunk [of h]
    by (simp add: ref_table_def comp_def case_prod_unfold)
  moreover have "(\<exists>k. (k, v) \<in> set (opp_hash_table_traverse ref_table h) \<and> str k = bs) \<longleftrightarrow>
      opp_hash_table_get ref_table h (txt_of bs) = Some v" for h :: "(bytes \<times> 'a) list" and bs v
    by (force simp: ref_table_def map_of_iff_clearjunk)
  ultimately show ?thesis
    unfolding table_ok_def
    by (simp add: ref_table_def update_conv delete_conv split: option.splits)
qed

end
