(* ===== verification/MessageCoder.thy ===== *)
theory MessageCoder
  imports Aroop
begin

text \<open>
  The contract of a message coder, as \<open>base/inc/binary_coder.h\<close> states it: reset a buffer,
  append string fields while they fit, read a field back by its index. The two implementations
  of the repository (\<open>binary_coder_extended.c\<close> in theory \<open>BinaryCoder\<close>, \<open>binary_coder.c\<close> in
  theory \<open>LegacyCoder\<close>) interpret it, each with the message size up to which it keeps it.
\<close>

definition pack_all ::
    "(aroop_txt_t \<Rightarrow> aroop_txt_t \<Rightarrow> int \<times> aroop_txt_t) \<Rightarrow> aroop_txt_t \<Rightarrow> aroop_txt_t list \<Rightarrow> aroop_txt_t" where
  "pack_all pack b xs = foldl (\<lambda>b x. snd (pack b x)) b xs"

lemma pack_all_simps [simp]:
  "pack_all pack b [] = b" "pack_all pack b (xs @ [x]) = snd (pack (pack_all pack b xs) x)"
  by (simp_all add: pack_all_def)

locale message_coder =
  fixes ok :: bool
    and usable :: "aroop_txt_t \<Rightarrow> bool"
    and reset :: "aroop_txt_t \<Rightarrow> aroop_txt_t exec"
    and pack :: "aroop_txt_t \<Rightarrow> aroop_txt_t \<Rightarrow> int \<times> aroop_txt_t"
    and unpack :: "aroop_txt_t \<Rightarrow> nat \<Rightarrow> aroop_txt_t \<Rightarrow> (int \<times> aroop_txt_t) exec"
    and holds :: "aroop_txt_t \<Rightarrow> bytes list \<Rightarrow> bool"
    and size_of :: "bytes list \<Rightarrow> nat"
    and limit :: nat
  assumes reset_holds:
      "ok \<Longrightarrow> usable b \<Longrightarrow> \<exists>b'. reset b = Inr b' \<and> holds b' [] \<and> t_cap b' = t_cap b"
    and pack_holds:
      "ok \<Longrightarrow> holds b xs \<Longrightarrow> wf_txt x \<Longrightarrow> size_of (xs @ [str x]) \<le> limit \<Longrightarrow>
       size_of (xs @ [str x]) \<le> t_cap b \<Longrightarrow>
       \<exists>b'. pack b x = (0, b') \<and> holds b' (xs @ [str x]) \<and> t_cap b' = t_cap b"
    and unpack_holds:
      "ok \<Longrightarrow> holds b xs \<Longrightarrow> size_of xs \<le> limit \<Longrightarrow> i < length xs \<Longrightarrow>
       \<exists>y. unpack b i x = Inr (0, y) \<and> str y = xs ! i"
    and size_mono: "size_of xs \<le> size_of (xs @ ys)"
begin

lemma pack_all_holds:
  assumes "ok" and "holds b []" and "\<forall>x \<in> set xs. wf_txt x"
    and "size_of (map str xs) \<le> limit" and "size_of (map str xs) \<le> t_cap b"
  shows "holds (pack_all pack b xs) (map str xs) \<and> t_cap (pack_all pack b xs) = t_cap b"
  using assms
proof (induction xs rule: rev_induct)
  case Nil
  then show ?case by simp
next
  case (snoc x xs)
  have le: "size_of (map str xs) \<le> size_of (map str (xs @ [x]))"
    using size_mono [of "map str xs" "[str x]"] by simp
  with snoc have IH: "holds (pack_all pack b xs) (map str xs)" "t_cap (pack_all pack b xs) = t_cap b"
    by auto
  obtain b' where "pack (pack_all pack b xs) x = (0, b')" "holds b' (map str xs @ [str x])"
      "t_cap b' = t_cap b"
    using pack_holds [OF snoc.prems(1) IH(1), of x] snoc.prems IH(2) by auto
  then show ?case by simp
qed

lemma roundtrip:
  assumes "ok" and "usable b" and "\<forall>x \<in> set xs. wf_txt x"
    and "size_of (map str xs) \<le> limit" and "size_of (map str xs) \<le> t_cap b" and "i < length xs"
  shows "\<exists>b0 y. reset b = Inr b0 \<and> unpack (pack_all pack b0 xs) i x = Inr (0, y) \<and> str y = str (xs ! i)"
proof -
  obtain b0 where b0: "reset b = Inr b0" "holds b0 []" "t_cap b0 = t_cap b"
    using reset_holds [OF assms(1,2)] by blast
  then have "holds (pack_all pack b0 xs) (map str xs)"
    using pack_all_holds [OF assms(1) b0(2)] assms by simp
  then obtain y where "unpack (pack_all pack b0 xs) i x = Inr (0, y)" "str y = map str xs ! i"
    using unpack_holds [OF assms(1)] assms(4,6) by (metis length_map)
  with b0(1) assms(6) show ?thesis by auto
qed

end

end
