(* ===== verification/BinaryCoder.thy ===== *)
theory BinaryCoder
  imports MessageCoder
begin

text \<open>
  The message format of the inter-process pipeline, \<open>base/src/binary_coder_extended.c\<close> (the
  implementation the build uses): a two byte big-endian total length, then fields of a content
  type byte, a two byte big-endian payload length and the payload. A C \<open>int\<close> is a \<open>32 word\<close>
  read as signed, \<open>mychar_t\<close> is an \<open>8 word\<close>, \<open>uint16_t\<close> a \<open>16 word\<close>; positions wrap as in the
  code. The static buffer \<open>intbuf\<close> is rewritten before every use, so only its content appears.
  A field index (\<open>skip\<close>) is a \<open>nat\<close>: every caller passes a non-negative constant.
\<close>

section \<open>Code\<close>

definition NGINZ_BINARY_CONTENT_NULL :: byte where
  "NGINZ_BINARY_CONTENT_NULL = 0"

definition NGINZ_BINARY_CONTENT_STRING :: byte where
  "NGINZ_BINARY_CONTENT_STRING = 1"

definition NGINZ_BINARY_CONTENT_INTEGER :: byte where
  "NGINZ_BINARY_CONTENT_INTEGER = 2"

definition BINARY_CODER_HEADER_LEN :: nat where
  "BINARY_CODER_HEADER_LEN = 3"

definition NGINZ_MAX_BINARY_MSG_LEN :: nat where
  "NGINZ_MAX_BINARY_MSG_LEN = 1024"

definition binary_coder_reset :: "aroop \<Rightarrow> aroop_txt_t \<Rightarrow> aroop_txt_t exec" where
  "binary_coder_reset A buffer =
     (let b0 = aroop_txt_set_length A buffer 0;
          b1 = aroop_txt_concat_char A b0 0;
          b2 = aroop_txt_concat_char A b1 2
      in ebind (aroop_assert A (256 \<le> t_cap b2)) (\<lambda>_. Inr b2))"

definition binary_set_header :: "byte \<Rightarrow> 16 word \<Rightarrow> bytes" where
  "binary_set_header content_type len =
     [content_type, ucast (drop_bit 8 (len AND 0xFF00)), ucast (len AND 0x00FF)]"

definition binary_pack_string_helper ::
    "aroop \<Rightarrow> aroop_txt_t \<Rightarrow> aroop_txt_t \<Rightarrow> byte \<Rightarrow> int \<times> aroop_txt_t" where
  "binary_pack_string_helper A buffer x content_type =
     (let blen = (of_nat (t_len buffer) :: 16 word)
      in if t_len x + unat blen + BINARY_CODER_HEADER_LEN > t_cap buffer then (-1, buffer)
         else
           let len = (of_nat (t_len x) :: 16 word);
               hdr = binary_set_header content_type len;
               b1 = aroop_txt_concat_char A buffer (hdr ! 0);
               b2 = aroop_txt_concat_char A b1 (hdr ! 1);
               b3 = aroop_txt_concat_char A b2 (hdr ! 2);
               b4 = aroop_txt_concat A b3 x;
               blen' = (of_nat (t_len b4) :: 16 word);
               b5 = aroop_txt_set_char_at A b4 0 (ucast (drop_bit 8 (blen' AND 0xFF00)));
               b6 = aroop_txt_set_char_at A b5 1 (ucast (blen' AND 0x00FF))
           in (0, b6))"

text \<open>The bytes \<open>binary_pack_int\<close> writes into \<open>intbuf\<close>.\<close>

definition int_bytes :: "32 word \<Rightarrow> bytes" where
  "int_bytes intval =
     (if 0xFFFF \<le>s intval
      then [ucast (drop_bit 24 (intval AND 0xFF000000)), ucast (drop_bit 16 (intval AND 0x00FF0000))]
      else []) @
     [ucast (drop_bit 8 (intval AND 0xFF00)), ucast (intval AND 0x00FF)]"

definition binary_pack_int :: "aroop \<Rightarrow> aroop_txt_t \<Rightarrow> 32 word \<Rightarrow> int \<times> aroop_txt_t" where
  "binary_pack_int A buffer intval =
     binary_pack_string_helper A buffer (txt_of (int_bytes intval)) NGINZ_BINARY_CONTENT_INTEGER"

definition binary_pack_string :: "aroop \<Rightarrow> aroop_txt_t \<Rightarrow> aroop_txt_t \<Rightarrow> int \<times> aroop_txt_t" where
  "binary_pack_string A buffer x =
     binary_pack_string_helper A buffer x NGINZ_BINARY_CONTENT_STRING"

definition binary_coder_reset_for_pid ::
    "aroop \<Rightarrow> aroop_txt_t \<Rightarrow> 32 word \<Rightarrow> aroop_txt_t exec" where
  "binary_coder_reset_for_pid A buffer srcpid =
     ebind (aroop_assert A (-1 <s srcpid)) (\<lambda>_.
     ebind (binary_coder_reset A buffer) (\<lambda>b.
     Inr (snd (binary_pack_int A b srcpid))))"

definition binary_get_header :: "bytes \<Rightarrow> nat \<Rightarrow> (byte \<times> 16 word) exec" where
  "binary_get_header header offset =
     ebind (mem_read header offset) (\<lambda>content_type.
     ebind (mem_read header (offset + 1)) (\<lambda>hi.
     ebind (mem_read header (offset + 2)) (\<lambda>lo.
     Inr (content_type, push_bit 8 (ucast hi) OR (ucast lo AND 0xFF)))))"

text \<open>
  The \<open>do \<dots> while(pos < blen)\<close> loop of \<open>binary_unpack_string_helper\<close>; \<open>x\<close> is the output
  text, emptied before the loop.
\<close>

fun binary_unpack_loop ::
    "aroop \<Rightarrow> aroop_txt_t \<Rightarrow> 16 word \<Rightarrow> byte \<Rightarrow> nat \<Rightarrow> byte \<Rightarrow> aroop_txt_t \<Rightarrow> (int \<times> aroop_txt_t) exec"
where
  "binary_unpack_loop A buffer blen expected 0 pos x =
     ebind (binary_get_header (t_mem buffer) (unat pos)) (\<lambda>(content_type, nlen).
       if unat pos + unat nlen > unat blen then Inr (-1, x)
       else if content_type \<noteq> expected
         then ebind (aroop_assert A False) (\<lambda>_. Inr (-1, x))
       else
         let pos' = pos + of_nat BINARY_CODER_HEADER_LEN;
             x1 = aroop_txt_copy_shallow A buffer;
             x2 = aroop_txt_shift A x1 (int (unat pos'));
             x3 = aroop_txt_set_length A x2 (unat nlen)
         in Inr (0, x3))"
| "binary_unpack_loop A buffer blen expected (Suc skip) pos x =
     ebind (binary_get_header (t_mem buffer) (unat pos)) (\<lambda>(content_type, nlen).
       if unat pos + unat nlen > unat blen then Inr (-1, x)
       else
         let pos' = pos + ucast nlen + of_nat BINARY_CODER_HEADER_LEN
         in if unat pos' < unat blen
            then binary_unpack_loop A buffer blen expected skip pos' x
            else Inr (0, x))"

definition binary_unpack_string_helper ::
    "aroop \<Rightarrow> aroop_txt_t \<Rightarrow> nat \<Rightarrow> aroop_txt_t \<Rightarrow> byte \<Rightarrow> (int \<times> aroop_txt_t) exec" where
  "binary_unpack_string_helper A buffer skip x expected =
     (let blen = (of_nat (t_len buffer) :: 16 word)
      in if unat blen < BINARY_CODER_HEADER_LEN - 1 then Inl AssertFailed
         else
           let x0 = aroop_txt_destroy A x
           in if unat blen = BINARY_CODER_HEADER_LEN - 1 then Inr (0, x0)
              else
                let blen' = push_bit 8 (ucast (aroop_txt_char_at A buffer 0) :: 16 word)
                              OR ucast (aroop_txt_char_at A buffer 1)
                in if unat blen' > t_len buffer then Inl AssertFailed
                   else binary_unpack_loop A buffer blen' expected skip 2 x0)"

definition binary_unpack_string ::
    "aroop \<Rightarrow> aroop_txt_t \<Rightarrow> nat \<Rightarrow> aroop_txt_t \<Rightarrow> (int \<times> aroop_txt_t) exec" where
  "binary_unpack_string A buffer skip x =
     binary_unpack_string_helper A buffer skip x NGINZ_BINARY_CONTENT_STRING"

text \<open>The byte-wise reads of \<open>binary_unpack_int\<close> through the text's memory.\<close>

definition int_of_txt :: "aroop_txt_t \<Rightarrow> 32 word exec" where
  "int_of_txt x =
     ebind (if t_len x \<ge> 1 then ebind (mem_read (t_mem x) 0) (\<lambda>b. Inr (ucast b)) else Inr 0) (\<lambda>o1.
     ebind (if t_len x \<ge> 2
            then ebind (mem_read (t_mem x) 1) (\<lambda>b. Inr (push_bit 8 o1 OR (ucast b AND 0xFF)))
            else Inr o1) (\<lambda>o2.
     ebind (if t_len x \<ge> 3
            then ebind (mem_read (t_mem x) 2) (\<lambda>b. Inr (push_bit 8 o2 OR (ucast b AND 0xFF)))
            else Inr o2) (\<lambda>o3.
     if t_len x = 4
     then ebind (mem_read (t_mem x) 3) (\<lambda>b. Inr (push_bit 8 o3 OR (ucast b AND 0xFF)))
     else Inr o3)))"

definition binary_unpack_int ::
    "aroop \<Rightarrow> aroop_txt_t \<Rightarrow> nat \<Rightarrow> 32 word \<Rightarrow> (int \<times> 32 word) exec" where
  "binary_unpack_int A buffer skip intval =
     ebind (binary_unpack_string_helper A buffer skip zero_txt NGINZ_BINARY_CONTENT_INTEGER)
       (\<lambda>(ret, x). if ret \<noteq> 0 then Inr (-1, intval)
                    else ebind (int_of_txt x) (\<lambda>output. Inr (0, output)))"

definition binary_coder_fixup :: "aroop \<Rightarrow> aroop_txt_t \<Rightarrow> aroop_txt_t exec" where
  "binary_coder_fixup A buffer =
     (let blen = (ucast (of_nat (t_len buffer) :: byte) :: 16 word)
      in if unat blen < BINARY_CODER_HEADER_LEN - 1 then Inl AssertFailed
         else
           let blen' = push_bit 8 (ucast (aroop_txt_char_at A buffer 0) :: 16 word)
                         OR ucast (aroop_txt_char_at A buffer 1)
           in if unat blen' \<noteq> t_len buffer then Inr (aroop_txt_set_length A buffer (unat blen'))
              else Inr buffer)"

text \<open>
  The debugging dump: the texts it prints, until an empty field or the end. Each is copied into
  a 32 byte sandbox first. The loop ends because a field index past the end gives an empty text;
  \<open>fuel\<close> bounds the number of fields visited (running out is reported as a fault).
\<close>

fun binary_coder_debug_dump_loop ::
    "aroop \<Rightarrow> aroop_txt_t \<Rightarrow> nat \<Rightarrow> nat \<Rightarrow> aroop_txt_t list \<Rightarrow> (int \<times> aroop_txt_t list) exec" where
  "binary_coder_debug_dump_loop A buffer 0 skip out = Inl Diverges"
| "binary_coder_debug_dump_loop A buffer (Suc fuel) skip out =
     ebind (binary_unpack_string A buffer skip zero_txt) (\<lambda>(ret, x).
       if ret \<noteq> 0 then Inr (-1, out)
       else if t_len x = 0 then Inr (0, out)
       else
         let sandbox = aroop_txt_zero_terminate A
               (aroop_txt_concat A (aroop_txt_stackbuffer A 32) x)
         in binary_coder_debug_dump_loop A buffer fuel (Suc skip) (out @ [sandbox]))"

definition binary_coder_debug_dump ::
    "aroop \<Rightarrow> aroop_txt_t \<Rightarrow> (int \<times> aroop_txt_t list) exec" where
  "binary_coder_debug_dump A buffer = binary_coder_debug_dump_loop A buffer (Suc (t_len buffer)) 0 []"

definition binary_coder_test_helper :: "aroop \<Rightarrow> 32 word \<Rightarrow> bool exec" where
  "binary_coder_test_helper A expval =
     ebind (binary_coder_reset_for_pid A (aroop_txt_stackbuffer A 255) expval) (\<lambda>bin0.
     let bin1 = snd (binary_pack_int A bin0 expval);
         str0 = aroop_txt_static_string A (lit ''test'');
         bin2 = snd (binary_pack_string A bin1 str0)
     in ebind (binary_coder_debug_dump A bin2) (\<lambda>_.
        ebind (binary_unpack_int A bin2 0 0) (\<lambda>(_, intval).
        ebind (binary_unpack_int A bin2 1 0) (\<lambda>(_, intval2).
        ebind (binary_unpack_string A bin2 2 zero_txt) (\<lambda>(_, strval).
        let strval' = aroop_txt_zero_terminate A strval;
            str' = aroop_txt_zero_terminate A str0
        in Inr (\<not> (intval = expval \<and> intval2 = expval \<and> aroop_txt_equals A strval' str')))))))"

section \<open>Bytes of a length and of an integer\<close>

definition be16 :: "nat \<Rightarrow> bytes" where
  "be16 n = [of_nat (n div 256), of_nat n]"

lemma length_be16 [simp]: "length (be16 n) = 2"
  by (simp add: be16_def)

lemma hi_byte: "n < 65536 \<Longrightarrow> (ucast (drop_bit 8 ((of_nat n :: 16 word) AND 0xFF00)) :: byte) = of_nat (n div 256)"
proof -
  assume n: "n < 65536"
  have m: "(0xFF00 :: 16 word) = push_bit 8 (mask 8)"
    by (simp add: mask_eq_exp_minus_1 push_bit_eq_mult)
  have "(ucast (drop_bit 8 ((of_nat n :: 16 word) AND push_bit 8 (mask 8))) :: byte) = ucast (drop_bit 8 (of_nat n :: 16 word))"
    by (rule bit_word_eqI) (auto simp: bit_simps dest: bit_imp_le_length)
  also have "\<dots> = of_nat (unat (drop_bit 8 (of_nat n :: 16 word)))"
    by simp
  also have "unat (drop_bit 8 (of_nat n :: 16 word)) = n div 256"
    using n by (simp add: drop_bit_eq_div unat_div unat_of_nat)
  finally show ?thesis by (simp add: m)
qed

lemma lo_byte: "(ucast ((of_nat n :: 16 word) AND 0x00FF) :: byte) = of_nat n"
proof -
  have m: "(0xFF :: 16 word) = mask 8" by (simp add: mask_eq_exp_minus_1)
  have "(ucast ((of_nat n :: 16 word) AND mask 8) :: byte) = ucast (of_nat n :: 16 word)"
    by (rule bit_word_eqI) (auto simp: bit_simps dest: bit_imp_le_length)
  also have "\<dots> = of_nat n" 
    by (simp add: word_unat_eq_iff unat_of_nat unsigned_of_nat take_bit_eq_mod mod_mod_cancel)
  finally show ?thesis by (simp add: m)
qed

lemma be16_value:
  assumes "n < 65536"
  shows "push_bit 8 (ucast (of_nat (n div 256) :: byte)) OR ucast (of_nat n :: byte) = (of_nat n :: 16 word)"
proof -
  have "push_bit 8 (ucast (ucast (drop_bit 8 (w AND 0xFF00)) :: byte)) OR ucast (ucast (w AND 0xFF) :: byte) = w"
    for w :: "16 word"
  proof -
    have m: "(0xFF00 :: 16 word) = push_bit 8 (mask 8)" "(0xFF :: 16 word) = mask 8"
      by (simp_all add: mask_eq_exp_minus_1 push_bit_eq_mult)
    show ?thesis unfolding m by (rule bit_word_eqI) (auto simp: bit_simps)
  qed
  from this [of "of_nat n"] show ?thesis
    using assms by (simp only: hi_byte lo_byte)
qed

lemma byte_and_255 [simp]: "(ucast (b :: byte) :: 'a::len word) AND 0xFF = ucast b"
proof -
  have m: "(0xFF :: 'a word) = mask 8" by (simp add: mask_eq_exp_minus_1)
  show ?thesis unfolding m by (rule bit_word_eqI) (auto simp: bit_simps dest: bit_imp_le_length)
qed

lemma set_header_be16: "n < 65536 \<Longrightarrow> binary_set_header ct (of_nat n) = ct # be16 n"
  by (simp only: binary_set_header_def be16_def hi_byte lo_byte)

lemma get_header_be16:
  assumes "n < 65536"
  shows "binary_get_header (pre @ ct # be16 n @ suf) (length pre) = Inr (ct, of_nat n)"
  using be16_value [OF assms]
  by (simp add: binary_get_header_def be16_def nth_append)

lemma join_bytes:
  "push_bit 8 (drop_bit (k + 8) w) OR ucast (ucast (drop_bit k w) :: byte) = drop_bit k (w :: 32 word)"
proof (rule bit_word_eqI)
  fix n assume "n < LENGTH(32)"
  then show "bit (push_bit 8 (drop_bit (k + 8) w) OR ucast (ucast (drop_bit k w) :: byte)) n = bit (drop_bit k w) n"
    by (cases "n < 8") (auto simp: bit_simps add.commute add.left_commute)
qed

lemma int_byte_masks:
  fixes w :: "32 word"
  shows "(ucast (drop_bit 24 (w AND 0xFF000000)) :: byte) = ucast (drop_bit 24 w)"
    and "(ucast (drop_bit 16 (w AND 0x00FF0000)) :: byte) = ucast (drop_bit 16 w)"
    and "(ucast (drop_bit 8 (w AND 0xFF00)) :: byte) = ucast (drop_bit 8 w)"
    and "(ucast (w AND 0x00FF) :: byte) = ucast w"
proof -
  have m: "(0xFF000000 :: 32 word) = push_bit 24 (mask 8)" "(0x00FF0000 :: 32 word) = push_bit 16 (mask 8)"
    "(0xFF00 :: 32 word) = push_bit 8 (mask 8)" "(0xFF :: 32 word) = mask 8"
    by (simp_all add: mask_eq_exp_minus_1 push_bit_eq_mult)
  have *: "(ucast (drop_bit k (w AND push_bit k (mask 8))) :: byte) = ucast (drop_bit k w)" for k
    by (rule bit_word_eqI) (auto simp: bit_simps dest: bit_imp_le_length)
  show "(ucast (drop_bit 24 (w AND 0xFF000000)) :: byte) = ucast (drop_bit 24 w)"
    "(ucast (drop_bit 16 (w AND 0x00FF0000)) :: byte) = ucast (drop_bit 16 w)"
    "(ucast (drop_bit 8 (w AND 0xFF00)) :: byte) = ucast (drop_bit 8 w)"
    unfolding m by (rule *)+
  show "(ucast (w AND 0x00FF) :: byte) = ucast w"
    using * [of 0] by (simp add: m)
qed

lemma two_bytes: "push_bit 8 (ucast (ucast (drop_bit 8 w) :: byte)) OR ucast (ucast w :: byte) = (w :: 32 word) AND mask 16"
proof (rule bit_word_eqI)
  fix n assume "n < LENGTH(32)"
  then show "bit (push_bit 8 (ucast (ucast (drop_bit 8 w) :: byte)) OR ucast (ucast w :: byte) :: 32 word) n = bit (w AND mask 16) n"
    by (cases "n < 8"; cases "n < 16") (auto simp: bit_simps)
qed

lemma top_byte: "ucast (ucast (drop_bit 24 w) :: byte) = drop_bit 24 (w :: 32 word)"
  by (rule bit_word_eqI) (auto simp: bit_simps dest: bit_imp_le_length)

lemma int_of_txt_bytes:
  assumes "str x = int_bytes v" "wf_txt x"
  shows "int_of_txt x = Inr (if 0xFFFF \<le>s v then v else v AND 0xFFFF)"
proof -
  have len: "t_len x = length (int_bytes v)"
    using assms length_str by force
  obtain m where mem: "t_mem x = int_bytes v @ m"
    using assms(1) unfolding str_def by (metis append_take_drop_id)
  have m16: "(0xFFFF :: 32 word) = mask 16" by (simp add: mask_eq_exp_minus_1)
  have j: "push_bit 8 (drop_bit 24 v) OR ucast (ucast (drop_bit 16 v) :: byte) = drop_bit 16 v"
      "push_bit 8 (drop_bit 16 v) OR ucast (ucast (drop_bit 8 v) :: byte) = drop_bit 8 v"
      "push_bit 8 (drop_bit 8 v) OR ucast (ucast v :: byte) = v"
    using join_bytes [of 16 v] join_bytes [of 8 v] join_bytes [of 0 v] by simp_all
  show ?thesis
  proof (cases "0xFFFF \<le>s v")
    case True
    then show ?thesis
      by (simp add: int_of_txt_def len mem int_bytes_def int_byte_masks nth_append top_byte j
          del: push_bit_or)
  next
    case False
    then show ?thesis
      by (simp add: int_of_txt_def len mem int_bytes_def int_byte_masks nth_append two_bytes m16)
  qed
qed


section \<open>Messages as lists of typed fields\<close>

text \<open>
  \<open>enc_msg fs\<close> is the byte string of a message with the fields \<open>fs\<close>. A buffer \<open>holds_msg\<close> when
  it begins with the message (a received buffer has further bytes after it) and \<open>packed_msg\<close>
  when it consists of it and can be appended to.
\<close>

definition enc_field :: "byte \<times> bytes \<Rightarrow> bytes" where
  "enc_field f = fst f # be16 (length (snd f)) @ snd f"

definition enc_fields :: "(byte \<times> bytes) list \<Rightarrow> bytes" where
  "enc_fields fs = concat (map enc_field fs)"

definition msg_size :: "(byte \<times> bytes) list \<Rightarrow> nat" where
  "msg_size fs = 2 + length (enc_fields fs)"

definition enc_msg :: "(byte \<times> bytes) list \<Rightarrow> bytes" where
  "enc_msg fs = be16 (msg_size fs) @ enc_fields fs"

definition holds_msg :: "aroop_txt_t \<Rightarrow> (byte \<times> bytes) list \<Rightarrow> bool" where
  "holds_msg b fs \<longleftrightarrow> wf_txt b \<and> t_len b < 65536 \<and> (\<exists>rest. str b = enc_msg fs @ rest)"

definition packed_msg :: "aroop_txt_t \<Rightarrow> (byte \<times> bytes) list \<Rightarrow> bool" where
  "packed_msg b fs \<longleftrightarrow> wf_txt b \<and> str b = enc_msg fs \<and> 256 \<le> t_cap b \<and> msg_size fs < 65536"

lemma enc_fields_simps [simp]:
  "enc_fields [] = []" "enc_fields (f # fs) = enc_field f @ enc_fields fs"
  "enc_fields (fs @ gs) = enc_fields fs @ enc_fields gs"
  by (simp_all add: enc_fields_def)

lemma length_enc_field [simp]: "length (enc_field f) = 3 + length (snd f)"
  by (simp add: enc_field_def)

lemma length_enc_msg [simp]: "length (enc_msg fs) = msg_size fs"
  by (simp add: enc_msg_def msg_size_def)

lemma msg_size_simps [simp]:
  "msg_size [] = 2" "msg_size (f # fs) = 3 + length (snd f) + msg_size fs"
  "msg_size (fs @ gs) = msg_size fs + msg_size gs - 2"
  by (simp_all add: msg_size_def)

lemma msg_size_ge2: "2 \<le> msg_size fs"
  by (simp add: msg_size_def)

lemma msg_size_snoc: "msg_size (fs @ [f]) = msg_size fs + 3 + length (snd f)"
  by (simp add: msg_size_def)

lemma msg_size_take_mono: "i \<le> j \<Longrightarrow> msg_size (take i fs) \<le> msg_size (take j fs)"
proof -
  assume "i \<le> j"
  then have "take j fs = take i fs @ take (j - i) (drop i fs)"
    by (metis le_add_diff_inverse take_add)
  then show ?thesis by (simp add: msg_size_def)
qed

lemma msg_size_take_le: "msg_size (take i fs) \<le> msg_size fs"
proof -
  have "length (enc_fields (take i fs @ drop i fs)) = length (enc_fields (take i fs)) + length (enc_fields (drop i fs))"
    by (simp only: enc_fields_simps length_append)
  then show ?thesis by (simp add: msg_size_def)
qed

lemma msg_size_take_Suc:
  "i < length fs \<Longrightarrow> msg_size (take (Suc i) fs) = msg_size (take i fs) + 3 + length (snd (fs ! i))"
  by (simp add: take_Suc_conv_app_nth msg_size_snoc)

lemma packed_len: "packed_msg b fs \<Longrightarrow> t_len b = msg_size fs"
  unfolding packed_msg_def by (metis length_enc_msg length_str)

lemma packed_holds: "packed_msg b fs \<Longrightarrow> holds_msg b fs"
  using packed_len [of b fs] by (auto simp: packed_msg_def holds_msg_def)

lemma packed_cap: "packed_msg b fs \<Longrightarrow> msg_size fs \<le> t_cap b \<and> msg_size fs < 65536"
  using packed_len [of b fs] by (auto simp: packed_msg_def wf_txt_def)

lemma packed_small: "packed_msg b fs \<Longrightarrow> wf_txt b \<and> t_len b < 65536"
  using packed_len [of b fs] packed_cap [of b fs] by (simp add: packed_msg_def)

section \<open>Building a message\<close>

lemma reset_packed:
  assumes A: "aroop_ok A" and wf: "wf_txt b" and cap: "256 \<le> t_cap b"
  shows "\<exists>b'. binary_coder_reset A b = Inr b' \<and> packed_msg b' [] \<and> t_cap b' = t_cap b"
proof -
  let ?b0 = "b\<lparr>t_len := 0\<rparr>"
  have b0: "aroop_txt_set_length A b 0 = ?b0" "wf_txt ?b0" "str ?b0 = []" "t_cap ?b0 = t_cap b"
    using A by (simp_all add: set_length_law wf_txt_def str_def t_cap_def)
  let ?b1 = "aroop_txt_concat_char A ?b0 0"
  have b1: "appends ?b0 [0] ?b1"
    using cap b0 by (intro concat_char_appends [OF A]) simp_all
  let ?b2 = "aroop_txt_concat_char A ?b1 2"
  have b2: "appends ?b1 [2] ?b2"
    using cap b0 appendsD [OF b1] appends_len [OF b0(2) b1]
    by (intro concat_char_appends [OF A]) simp_all
  have "binary_coder_reset A b = Inr ?b2"
    using cap b0 appendsD [OF b1] appendsD [OF b2] by (simp add: binary_coder_reset_def)
  moreover have "packed_msg ?b2 [] \<and> t_cap ?b2 = t_cap b"
    using cap b0 appendsD [OF b1] appendsD [OF b2]
    by (simp add: packed_msg_def enc_msg_def be16_def)
  ultimately show ?thesis by blast
qed

lemma str_set_mem: "str (t\<lparr>t_mem := (t_mem t)[i := c]\<rparr>) = (str t)[i := c]"
  by (simp add: str_def take_update_swap)

lemma pack_helper_packed:
  assumes A: "aroop_ok A" and b: "packed_msg b fs" and x: "wf_txt x"
    and fits: "msg_size (fs @ [(ct, str x)]) \<le> t_cap b" "msg_size (fs @ [(ct, str x)]) < 65536"
  shows "\<exists>b'. binary_pack_string_helper A b x ct = (0, b') \<and> packed_msg b' (fs @ [(ct, str x)]) \<and>
    t_cap b' = t_cap b"
proof -
  let ?fs = "fs @ [(ct, str x)]"
  have lx: "length (str x) = t_len x" using x by (rule length_str)
  have cap: "256 \<le> t_cap b" and wf: "wf_txt b" and s: "str b = enc_msg fs"
    using b by (simp_all add: packed_msg_def)
  have lb: "t_len b = msg_size fs" using b by (rule packed_len)
  have size: "msg_size ?fs = t_len b + 3 + t_len x"
    by (simp add: msg_size_snoc lb lx del: msg_size_simps)
  have nfits: "t_len b + 3 + t_len x \<le> t_cap b" using fits size by simp
  let ?h = "binary_set_header ct (of_nat (t_len x))"
  have h: "?h = ct # be16 (t_len x)"
    using size fits(2) by (intro set_header_be16) simp
  let ?b1 = "aroop_txt_concat_char A b (?h ! 0)"
  let ?b2 = "aroop_txt_concat_char A ?b1 (?h ! 1)"
  let ?b3 = "aroop_txt_concat_char A ?b2 (?h ! 2)"
  let ?b4 = "aroop_txt_concat A ?b3 x"
  have b1: "appends b [?h ! 0] ?b1"
    using nfits wf by (intro concat_char_appends [OF A]) simp_all
  note b1s = appendsD [OF b1] appends_len [OF wf b1]
  have b2: "appends ?b1 [?h ! 1] ?b2"
    using nfits b1s by (intro concat_char_appends [OF A]) simp_all
  note b2s = appendsD [OF b2] appends_len [OF b1s(1) b2]
  have b3: "appends ?b2 [?h ! 2] ?b3"
    using nfits b1s b2s by (intro concat_char_appends [OF A]) simp_all
  note b3s = appendsD [OF b3] appends_len [OF b2s(1) b3]
  have b4: "appends ?b3 (str x) ?b4"
    using nfits b1s b2s b3s x by (intro concat_appends [OF A]) simp_all
  note b4s = appendsD [OF b4] appends_len [OF b3s(1) b4]
  have len4: "t_len ?b4 = msg_size ?fs" using b4s b3s b2s b1s lx size by simp
  have str4: "str ?b4 = be16 (msg_size fs) @ enc_fields ?fs"
    using b4s(2) b3s(2) b2s(2) b1s(2) s
    by (simp add: h enc_msg_def enc_field_def be16_def lx)
  let ?n = "msg_size ?fs"
  let ?b5 = "?b4\<lparr>t_mem := (t_mem ?b4)[0 := of_nat (?n div 256)]\<rparr>"
  let ?b6 = "?b5\<lparr>t_mem := (t_mem ?b5)[1 := of_nat ?n]\<rparr>"
  have n: "?n < 65536" "2 \<le> ?n" using fits cap msg_size_ge2 [of ?fs] by simp_all
  have b5: "aroop_txt_set_char_at A ?b4 0 (ucast (drop_bit 8 ((of_nat (t_len ?b4) :: 16 word) AND 0xFF00))) = ?b5"
    using n len4 b4s(1) hi_byte [OF n(1)] by (simp add: set_char_at_law [OF A] del: msg_size_simps)
  have wf5: "wf_txt ?b5" using b4s(1) by (simp add: wf_txt_def t_cap_def)
  have b6: "aroop_txt_set_char_at A ?b5 1 (ucast ((of_nat (t_len ?b4) :: 16 word) AND 0x00FF)) = ?b6"
    using n len4 wf5 lo_byte [of ?n] by (simp add: set_char_at_law [OF A] del: msg_size_simps)
  have "binary_pack_string_helper A b x ct = (0, ?b6)"
    unfolding binary_pack_string_helper_def Let_def b5 b6
    using nfits size fits(2) by (simp add: unat_of_nat BINARY_CODER_HEADER_LEN_def)
  moreover have "wf_txt ?b6" using wf5 by (simp add: wf_txt_def t_cap_def)
  moreover have "str ?b6 = enc_msg ?fs"
    by (simp only: str_set_mem str4 enc_msg_def be16_def) (simp del: msg_size_simps)
  moreover have "t_cap ?b6 = t_cap b"
    using b4s(3) b3s(3) b2s(3) b1s(3) by (simp add: t_cap_def)
  ultimately show ?thesis using cap fits(2) by (auto simp: packed_msg_def)
qed

lemma pack_helper_full:
  assumes "packed_msg b fs" and "wf_txt x" and "t_cap b < msg_size (fs @ [(ct, str x)])"
  shows "binary_pack_string_helper A b x ct = (-1, b)"
  using assms packed_len [OF assms(1)] packed_cap [OF assms(1)] length_str [OF assms(2)]
  by (simp add: binary_pack_string_helper_def msg_size_snoc unat_of_nat BINARY_CODER_HEADER_LEN_def
      del: msg_size_simps)

section \<open>Reading a message\<close>

lemma holds_mem:
  assumes "holds_msg b fs"
  obtains m where "t_mem b = enc_msg fs @ m"
  using assms unfolding holds_msg_def str_def by (metis append.assoc append_take_drop_id)

lemma holds_size: "holds_msg b fs \<Longrightarrow> msg_size fs \<le> t_len b \<and> msg_size fs < 65536"
  using length_str [of b] by (auto simp: holds_msg_def)

lemma enc_msg_split:
  assumes "i < length fs"
  shows "enc_msg fs = (be16 (msg_size fs) @ enc_fields (take i fs)) @
     fst (fs ! i) # be16 (length (snd (fs ! i))) @ snd (fs ! i) @ enc_fields (drop (Suc i) fs)"
proof -
  have "enc_fields fs = enc_fields (take i fs @ fs ! i # drop (Suc i) fs)"
    using assms by (simp only: id_take_nth_drop [symmetric])
  then show ?thesis by (simp add: enc_msg_def enc_field_def)
qed

lemma field_size:
  assumes "holds_msg b fs" and "i < length fs"
  shows "msg_size (take i fs) + 3 + length (snd (fs ! i)) \<le> msg_size fs"
    and "length (snd (fs ! i)) < 65536"
  using holds_size [OF assms(1)] msg_size_take_le [of "Suc i" fs] msg_size_take_Suc [OF assms(2)]
  by simp_all

lemma get_header_field:
  assumes b: "holds_msg b fs" and i: "i < length fs"
  shows "binary_get_header (t_mem b) (msg_size (take i fs)) =
    Inr (fst (fs ! i), of_nat (length (snd (fs ! i))))"
proof -
  obtain m where m: "t_mem b = enc_msg fs @ m" using b by (rule holds_mem)
  let ?pre = "be16 (msg_size fs) @ enc_fields (take i fs)"
  have "t_mem b = ?pre @ fst (fs ! i) # be16 (length (snd (fs ! i))) @
      (snd (fs ! i) @ enc_fields (drop (Suc i) fs) @ m)"
    by (simp add: m enc_msg_split [OF i])
  moreover have "length ?pre = msg_size (take i fs)" by (simp add: msg_size_def)
  ultimately show ?thesis
    using get_header_be16 [OF field_size(2) [OF b i], of ?pre] by metis
qed

text \<open>The text that reading field \<open>i\<close> yields: the payload, sharing the buffer's memory.\<close>

definition field_txt :: "aroop_txt_t \<Rightarrow> (byte \<times> bytes) list \<Rightarrow> nat \<Rightarrow> aroop_txt_t" where
  "field_txt b fs i = \<lparr>t_mem = drop (msg_size (take i fs) + 3) (t_mem b), t_len = length (snd (fs ! i))\<rparr>"

lemma field_txt_str:
  assumes b: "holds_msg b fs" and i: "i < length fs"
  shows "str (field_txt b fs i) = snd (fs ! i)" and "wf_txt (field_txt b fs i)"
    and "t_len (field_txt b fs i) = length (snd (fs ! i))"
proof -
  obtain m where m: "t_mem b = enc_msg fs @ m" using b by (rule holds_mem)
  let ?pre = "be16 (msg_size fs) @ enc_fields (take i fs) @ fst (fs ! i) # be16 (length (snd (fs ! i)))"
  have "t_mem b = ?pre @ snd (fs ! i) @ enc_fields (drop (Suc i) fs) @ m"
    by (simp add: m enc_msg_split [OF i])
  moreover have "length ?pre = msg_size (take i fs) + 3" by (simp add: msg_size_def)
  ultimately have d: "drop (msg_size (take i fs) + 3) (t_mem b) = snd (fs ! i) @ enc_fields (drop (Suc i) fs) @ m"
    by (metis append_eq_conv_conj)
  show "str (field_txt b fs i) = snd (fs ! i)" "wf_txt (field_txt b fs i)"
    "t_len (field_txt b fs i) = length (snd (fs ! i))"
    by (simp_all add: field_txt_def str_def wf_txt_def t_cap_def d)
qed

text \<open>
  Positions are \<open>8 word\<close>s: a field is found where it is only if it starts (and its payload
  starts) below offset 256.
\<close>

definition reachable_field :: "(byte \<times> bytes) list \<Rightarrow> nat \<Rightarrow> bool" where
  "reachable_field fs i \<longleftrightarrow> i < length fs \<and> msg_size (take i fs) + 3 < 256"

lemma unpack_loop_found:
  assumes A: "aroop_ok A" and b: "holds_msg b fs" and r: "reachable_field fs (j + skip)"
  shows "binary_unpack_loop A b (of_nat (msg_size fs)) expected skip (of_nat (msg_size (take j fs))) x =
    (if fst (fs ! (j + skip)) = expected then Inr (0, field_txt b fs (j + skip))
     else ebind (aroop_assert A False) (\<lambda>_. Inr (-1, x)))"
  using r
proof (induction skip arbitrary: j)
  case 0
  let ?p = "msg_size (take j fs)"
  have j: "j < length fs" and p: "?p + 3 < 256" using 0 by (simp_all add: reachable_field_def)
  note fsz = field_size [OF b j] holds_size [OF b]
  have up: "unat (of_nat ?p :: byte) = ?p" and up3: "unat (of_nat ?p + of_nat 3 :: byte) = ?p + 3"
    using p unat_byte [of "?p + 3"] by (simp_all add: unat_byte)
  have up3i: "uint (of_nat ?p + of_nat 3 :: byte) = int (?p + 3)"
    using arg_cong [OF up3, of int] unfolding of_nat_unat .
  have un: "unat (of_nat (length (snd (fs ! j))) :: 16 word) = length (snd (fs ! j))"
    and ub: "unat (of_nat (msg_size fs) :: 16 word) = msg_size fs"
    using fsz by (simp_all add: unat_of_nat)
  have sh: "aroop_txt_shift A (aroop_txt_copy_shallow A b) (int (?p + 3)) =
      \<lparr>t_mem = drop (?p + 3) (t_mem b), t_len = t_len b - (?p + 3)\<rparr>"
    unfolding copy_shallow_law [OF A]
    by (rule shift_law [OF A]) (use b fsz in \<open>simp_all add: holds_msg_def\<close>)
  have sl: "aroop_txt_set_length A \<lparr>t_mem = drop (?p + 3) (t_mem b), t_len = t_len b - (?p + 3)\<rparr>
      (length (snd (fs ! j))) = field_txt b fs j"
    using field_txt_str [OF b j] by (simp add: set_length_law [OF A] field_txt_def wf_txt_def t_cap_def)
  have le: "\<not> msg_size fs < ?p + length (snd (fs ! j))" using fsz by simp
  show ?case
    by (simp add: up up3i un ub get_header_field [OF b j] le BINARY_CODER_HEADER_LEN_def sh sl
        del: of_nat_add of_nat_numeral)
next
  case (Suc skip)
  let ?p = "msg_size (take j fs)" and ?q = "msg_size (take (Suc j) fs)"
  have js: "Suc (j + skip) < length fs" and q: "msg_size (take (Suc (j + skip)) fs) + 3 < 256"
    using Suc.prems by (simp_all add: reachable_field_def)
  then have j: "j < length fs" by simp
  note fsz = field_size [OF b j] holds_size [OF b]
  have q': "?q + 3 < 256" using q msg_size_take_mono [of "Suc j" "Suc (j + skip)" fs] by simp
  have qeq: "?q = ?p + 3 + length (snd (fs ! j))" by (rule msg_size_take_Suc [OF j])
  have up: "unat (of_nat ?p :: byte) = ?p" and uq: "unat (of_nat ?q :: byte) = ?q"
    using q' qeq by (intro unat_byte; simp)+
  have un: "unat (of_nat (length (snd (fs ! j))) :: 16 word) = length (snd (fs ! j))"
    and ub: "unat (of_nat (msg_size fs) :: 16 word) = msg_size fs"
    using fsz by (simp_all add: unat_of_nat)
  have uc: "(ucast (of_nat (length (snd (fs ! j))) :: 16 word) :: byte) = of_nat (length (snd (fs ! j)))"
    using q' qeq by (simp add: word_unat_eq_iff unat_of_nat unsigned_of_nat take_bit_eq_mod)
  have pos: "(of_nat ?p + of_nat (length (snd (fs ! j))) + of_nat 3 :: byte) = of_nat ?q"
    by (simp add: qeq)
  have lt: "?q < msg_size fs"
    using msg_size_take_le [of "Suc (Suc j)" fs] msg_size_take_Suc [of "Suc j" fs] js by simp
  have le: "\<not> msg_size fs < ?p + length (snd (fs ! j))" using fsz by simp
  have "binary_unpack_loop A b (of_nat (msg_size fs)) expected (Suc skip) (of_nat ?p) x =
      binary_unpack_loop A b (of_nat (msg_size fs)) expected skip (of_nat ?q) x"
    by (simp add: up un ub uc pos uq lt get_header_field [OF b j] le BINARY_CODER_HEADER_LEN_def
        del: of_nat_add of_nat_numeral)
  with Suc.IH [of "Suc j"] Suc.prems show ?case by simp
qed

lemma unpack_loop_past_end:
  assumes b: "holds_msg b fs" and size: "msg_size fs < 256" and j: "j < length fs" and skip: "length fs \<le> j + skip"
  shows "binary_unpack_loop A b (of_nat (msg_size fs)) expected skip (of_nat (msg_size (take j fs))) x = Inr (0, x)"
  using j skip
proof (induction skip arbitrary: j)
  case 0
  then show ?case by simp
next
  case (Suc skip)
  let ?p = "msg_size (take j fs)" and ?q = "msg_size (take (Suc j) fs)"
  have j: "j < length fs" by (rule Suc.prems)
  note fsz = field_size [OF b j] holds_size [OF b]
  have qeq: "?q = ?p + 3 + length (snd (fs ! j))" by (rule msg_size_take_Suc [OF j])
  have q': "?q < 256" using msg_size_take_le [of "Suc j" fs] size by simp
  have up: "unat (of_nat ?p :: byte) = ?p" and uq: "unat (of_nat ?q :: byte) = ?q"
    using q' qeq by (intro unat_byte; simp)+
  have un: "unat (of_nat (length (snd (fs ! j))) :: 16 word) = length (snd (fs ! j))"
    and ub: "unat (of_nat (msg_size fs) :: 16 word) = msg_size fs"
    using fsz by (simp_all add: unat_of_nat)
  have uc: "(ucast (of_nat (length (snd (fs ! j))) :: 16 word) :: byte) = of_nat (length (snd (fs ! j)))"
    using q' qeq by (simp add: word_unat_eq_iff unat_of_nat unsigned_of_nat take_bit_eq_mod)
  have pos: "(of_nat ?p + of_nat (length (snd (fs ! j))) + of_nat 3 :: byte) = of_nat ?q"
    by (simp add: qeq)
  have le: "\<not> msg_size fs < ?p + length (snd (fs ! j))" using fsz by simp
  have step: "binary_unpack_loop A b (of_nat (msg_size fs)) expected (Suc skip) (of_nat ?p) x =
      (if ?q < msg_size fs then binary_unpack_loop A b (of_nat (msg_size fs)) expected skip (of_nat ?q) x
       else Inr (0, x))"
    by (simp add: up un ub uc pos uq get_header_field [OF b j] le BINARY_CODER_HEADER_LEN_def
        del: of_nat_add of_nat_numeral)
  show ?case
  proof (cases "Suc j < length fs")
    case True
    with Suc.IH [of "Suc j"] Suc.prems step show ?thesis by simp
  next
    case False
    then have "take (Suc j) fs = fs" using j by simp
    with step show ?thesis by simp
  qed
qed

lemma unpack_helper_loop:
  assumes A: "aroop_ok A" and b: "holds_msg b fs" and ne: "fs \<noteq> []"
  shows "binary_unpack_string_helper A b skip x expected =
    binary_unpack_loop A b (of_nat (msg_size fs)) expected skip 2 zero_txt"
proof -
  have wf: "wf_txt b" and l: "t_len b < 65536" using b by (simp_all add: holds_msg_def)
  note sz = holds_size [OF b]
  have sz3: "3 \<le> msg_size fs" using ne by (cases fs) simp_all
  obtain m where m: "t_mem b = enc_msg fs @ m" using b by (rule holds_mem)
  have c: "aroop_txt_char_at A b 0 = of_nat (msg_size fs div 256)" "aroop_txt_char_at A b 1 = of_nat (msg_size fs)"
    using sz sz3 wf by (simp_all add: char_at_law [OF A] m enc_msg_def be16_def)
  have v: "push_bit 8 (ucast (of_nat (msg_size fs div 256) :: byte)) OR ucast (of_nat (msg_size fs) :: byte)
      = (of_nat (msg_size fs) :: 16 word)"
    using sz by (intro be16_value) simp
  have u: "unat (of_nat (t_len b) :: 16 word) = t_len b" "unat (of_nat (msg_size fs) :: 16 word) = msg_size fs"
    using l sz by (simp_all add: unat_of_nat)
  show ?thesis
    using sz sz3
    by (simp add: binary_unpack_string_helper_def BINARY_CODER_HEADER_LEN_def u c v destroy_law [OF A]
        del: One_nat_def)
qed

theorem unpack_helper_found:
  assumes A: "aroop_ok A" and b: "holds_msg b fs" and r: "reachable_field fs i"
  shows "binary_unpack_string_helper A b i x expected =
    (if fst (fs ! i) = expected then Inr (0, field_txt b fs i)
     else ebind (aroop_assert A False) (\<lambda>_. Inr (-1, zero_txt)))"
proof -
  have "fs \<noteq> []" using r by (auto simp: reachable_field_def)
  then show ?thesis
    using unpack_helper_loop [OF A b] unpack_loop_found [OF A b, of 0 i] r by simp
qed

lemma unpack_helper_past_end:
  assumes A: "aroop_ok A" and b: "holds_msg b fs" and size: "msg_size fs < 256" and i: "length fs \<le> i"
    and exact: "fs = [] \<longrightarrow> t_len b = 2"
  shows "binary_unpack_string_helper A b i x expected = Inr (0, zero_txt)"
proof (cases "fs = []")
  case True
  then show ?thesis using exact
    by (simp add: binary_unpack_string_helper_def BINARY_CODER_HEADER_LEN_def destroy_law [OF A])
next
  case False
  then show ?thesis
    using unpack_helper_loop [OF A b False] unpack_loop_past_end [OF b size, of 0 i] i by simp
qed

lemma unpack_string_found:
  assumes "aroop_ok A" "holds_msg b fs" "reachable_field fs i" "fst (fs ! i) = NGINZ_BINARY_CONTENT_STRING"
  shows "binary_unpack_string A b i x = Inr (0, field_txt b fs i)"
  using assms by (simp add: binary_unpack_string_def unpack_helper_found)

lemma unpack_int_found:
  assumes A: "aroop_ok A" and b: "holds_msg b fs" and r: "reachable_field fs i"
    and f: "fs ! i = (NGINZ_BINARY_CONTENT_INTEGER, int_bytes v)"
  shows "binary_unpack_int A b i x = Inr (0, if 0xFFFF \<le>s v then v else v AND 0xFFFF)"
proof -
  have "int_of_txt (field_txt b fs i) = Inr (if 0xFFFF \<le>s v then v else v AND 0xFFFF)"
    using r f field_txt_str [OF b, of i] by (intro int_of_txt_bytes) (simp_all add: reachable_field_def)
  then show ?thesis
    using f by (simp add: binary_unpack_int_def unpack_helper_found [OF A b r])
qed

lemma nonneg_int_value: "0 \<le>s v \<Longrightarrow> (if 0xFFFF \<le>s v then v else v AND 0xFFFF) = (v :: 32 word)"
proof -
  assume v: "0 \<le>s v"
  have m16: "(0xFFFF :: 32 word) = mask 16" by (simp add: mask_eq_exp_minus_1)
  show ?thesis
  proof (cases "0xFFFF \<le>s v")
    case False
    then have "sint v < 0xFFFF" "0 \<le> sint v" using v by (simp_all add: word_sle_eq)
    then have "uint v < 2 ^ 16" using sint_nonneg [OF v] by simp
    then have "take_bit 16 v = v"
      by (simp add: word_uint_eq_iff unsigned_take_bit_eq take_bit_int_eq_self_iff)
    with False show ?thesis by (simp add: m16 take_bit_eq_mask)
  qed simp
qed

lemma neg_int_short: "\<not> 0 \<le>s v \<Longrightarrow> \<not> 0xFFFF \<le>s (v :: 32 word)"
  by (simp add: word_sle_eq)

section \<open>Contract and end-to-end properties\<close>

definition string_fields :: "bytes list \<Rightarrow> (byte \<times> bytes) list" where
  "string_fields xs = map (Pair NGINZ_BINARY_CONTENT_STRING) xs"

lemma string_fields_nth: "i < length xs \<Longrightarrow> string_fields xs ! i = (NGINZ_BINARY_CONTENT_STRING, xs ! i)"
  by (simp add: string_fields_def)

interpretation ext: message_coder
  "aroop_ok A" "\<lambda>b. wf_txt b \<and> 256 \<le> t_cap b"
  "binary_coder_reset A" "binary_pack_string A" "binary_unpack_string A"
  "\<lambda>b xs. packed_msg b (string_fields xs)" "\<lambda>xs. msg_size (string_fields xs)" 255
  for A
proof
  fix b
  assume "aroop_ok A" "wf_txt b \<and> 256 \<le> t_cap b"
  then show "\<exists>b'. binary_coder_reset A b = Inr b' \<and> packed_msg b' (string_fields []) \<and> t_cap b' = t_cap b"
    using reset_packed by (simp add: string_fields_def)
next
  fix b xs x
  assume "aroop_ok A" "packed_msg b (string_fields xs)" "wf_txt x"
    "msg_size (string_fields (xs @ [str x])) \<le> 255" "msg_size (string_fields (xs @ [str x])) \<le> t_cap b"
  then show "\<exists>b'. binary_pack_string A b x = (0, b') \<and> packed_msg b' (string_fields (xs @ [str x])) \<and> t_cap b' = t_cap b"
    using pack_helper_packed [of A b "string_fields xs" x NGINZ_BINARY_CONTENT_STRING]
    by (simp add: string_fields_def binary_pack_string_def)
next
  fix b xs i x
  assume A: "aroop_ok A" and b: "packed_msg b (string_fields xs)" and sz: "msg_size (string_fields xs) \<le> 255"
    and i: "i < length xs"
  have li: "i < length (string_fields xs)" using i by (simp add: string_fields_def)
  have "reachable_field (string_fields xs) i"
    using field_size(1) [OF packed_holds [OF b] li] sz li by (simp add: reachable_field_def)
  then show "\<exists>y. binary_unpack_string A b i x = Inr (0, y) \<and> str y = xs ! i"
    using unpack_string_found [OF A packed_holds [OF b]] field_txt_str(1) [OF packed_holds [OF b] li] i
    by (simp add: string_fields_nth)
next
  fix xs ys
  show "msg_size (string_fields xs) \<le> msg_size (string_fields (xs @ ys))"
    using msg_size_ge2 [of "string_fields ys"] by (simp add: string_fields_def)
qed

text \<open>Typed values, as the callers pack them.\<close>

datatype wire = WStr aroop_txt_t | WInt "32 word"

fun pack_wire :: "aroop \<Rightarrow> aroop_txt_t \<Rightarrow> wire \<Rightarrow> int \<times> aroop_txt_t" where
  "pack_wire A b (WStr x) = binary_pack_string A b x"
| "pack_wire A b (WInt v) = binary_pack_int A b v"

definition pack_wires :: "aroop \<Rightarrow> aroop_txt_t \<Rightarrow> wire list \<Rightarrow> aroop_txt_t" where
  "pack_wires A b ws = foldl (\<lambda>b w. snd (pack_wire A b w)) b ws"

fun wire_field :: "wire \<Rightarrow> byte \<times> bytes" where
  "wire_field (WStr x) = (NGINZ_BINARY_CONTENT_STRING, str x)"
| "wire_field (WInt v) = (NGINZ_BINARY_CONTENT_INTEGER, int_bytes v)"

fun wf_wire :: "wire \<Rightarrow> bool" where
  "wf_wire (WStr x) = wf_txt x"
| "wf_wire (WInt v) = True"

lemma pack_wires_simps [simp]:
  "pack_wires A b [] = b" "pack_wires A b (w # ws) = pack_wires A (snd (pack_wire A b w)) ws"
  "pack_wires A b (ws @ [w]) = snd (pack_wire A (pack_wires A b ws) w)"
  by (simp_all add: pack_wires_def)

lemma pack_wire_packed:
  assumes "aroop_ok A" "packed_msg b fs" "wf_wire w" "msg_size (fs @ [wire_field w]) \<le> t_cap b"
    "msg_size (fs @ [wire_field w]) < 65536"
  shows "fst (pack_wire A b w) = 0 \<and> packed_msg (snd (pack_wire A b w)) (fs @ [wire_field w]) \<and>
    t_cap (snd (pack_wire A b w)) = t_cap b"
proof (cases w)
  case (WStr x)
  then show ?thesis
    using pack_helper_packed [OF assms(1,2), of x NGINZ_BINARY_CONTENT_STRING] assms(3-5)
    by (auto simp: binary_pack_string_def)
next
  case (WInt v)
  then show ?thesis
    using pack_helper_packed [OF assms(1,2), of "txt_of (int_bytes v)" NGINZ_BINARY_CONTENT_INTEGER] assms(4,5)
    by (auto simp: binary_pack_int_def)
qed

lemma pack_wires_packed:
  assumes A: "aroop_ok A" and b: "packed_msg b fs" and "\<forall>w \<in> set ws. wf_wire w"
    and "msg_size (fs @ map wire_field ws) \<le> t_cap b" "msg_size (fs @ map wire_field ws) < 65536"
  shows "packed_msg (pack_wires A b ws) (fs @ map wire_field ws) \<and> t_cap (pack_wires A b ws) = t_cap b"
  using b assms(3-5)
proof (induction ws arbitrary: b fs)
  case Nil
  then show ?case by simp
next
  case (Cons w ws)
  have "msg_size (fs @ [wire_field w]) \<le> msg_size (fs @ map wire_field (w # ws))"
    using msg_size_ge2 [of "map wire_field ws"] by simp
  then have *: "packed_msg (snd (pack_wire A b w)) (fs @ [wire_field w])"
    "t_cap (snd (pack_wire A b w)) = t_cap b"
    using pack_wire_packed [OF A Cons.prems(1), of w] Cons.prems(2-4) by auto
  have "msg_size ((fs @ [wire_field w]) @ map wire_field ws) \<le> t_cap (snd (pack_wire A b w))"
    using Cons.prems(3) *(2) by simp
  from Cons.IH [OF *(1) _ this] Cons.prems(2,4) *(2) show ?case by simp
qed

lemma length_int_bytes: "length (int_bytes v) = (if 0xFFFF \<le>s v then 4 else 2)"
  by (simp add: int_bytes_def)

lemma length_int_bytes_le: "length (int_bytes v) \<le> 4"
  by (simp add: length_int_bytes)

subsection \<open>Properties\<close>

text \<open>(C6) Typed round trip over the pipeline. Reset a buffer of at least 256 bytes, pack any list of
  strings and ints that fits, carry the bytes to a buffer of another process where arbitrary
  further bytes follow: every field that starts below offset 253 reads back. A string comes back
  as it was; an int does when it is not negative, and otherwise only its low 16 bits do.\<close>

theorem wire_roundtrip:
  assumes "aroop_ok A" and "wf_txt b" and "256 \<le> t_cap b" and "\<forall>w \<in> set ws. wf_wire w"
    and "msg_size (map wire_field ws) \<le> t_cap b" and "msg_size (map wire_field ws) < 65536"
    and "reachable_field (map wire_field ws) i"
  shows "\<exists>b0. binary_coder_reset A b = Inr b0 \<and>
    (\<forall>r rest. wf_txt r \<longrightarrow> t_len r < 65536 \<longrightarrow> str r = str (pack_wires A b0 ws) @ rest \<longrightarrow>
      (case ws ! i of
         WStr x \<Rightarrow> (\<exists>y. binary_unpack_string A r i out = Inr (0, y) \<and> str y = str x)
       | WInt v \<Rightarrow> binary_unpack_int A r i n = Inr (0, if 0 \<le>s v then v else v AND 0xFFFF)))"
proof -
  obtain b0 where b0: "binary_coder_reset A b = Inr b0" "packed_msg b0 []" "t_cap b0 = t_cap b"
    using reset_packed [OF assms(1-3)] by blast
  let ?fs = "map wire_field ws"
  have p: "packed_msg (pack_wires A b0 ws) ?fs"
    using pack_wires_packed [OF assms(1) b0(2), of ws] assms(4-6) b0(3) by simp
  have i: "i < length ws" using assms(7) by (simp add: reachable_field_def)
  have "case ws ! i of
         WStr x \<Rightarrow> (\<exists>y. binary_unpack_string A r i out = Inr (0, y) \<and> str y = str x)
       | WInt v \<Rightarrow> binary_unpack_int A r i n = Inr (0, if 0 \<le>s v then v else v AND 0xFFFF)"
    if r: "wf_txt r" "t_len r < 65536" "str r = str (pack_wires A b0 ws) @ rest" for r rest
  proof -
    have h: "holds_msg r ?fs" using r p by (simp add: holds_msg_def packed_msg_def)
    show ?thesis
    proof (cases "ws ! i")
      case (WStr x)
      then show ?thesis
        using unpack_string_found [OF assms(1) h assms(7)] field_txt_str(1) [OF h] i by simp
    next
      case (WInt v)
      then show ?thesis
        using unpack_int_found [OF assms(1) h assms(7), of v n] i nonneg_int_value [of v]
          neg_int_short [of v] by auto
    qed
  qed
  with b0(1) show ?thesis by blast
qed

lemma wire_roundtrip_witness:
  "\<exists>b0. binary_coder_reset ref_aroop (aroop_txt_stackbuffer ref_aroop 255) = Inr b0 \<and>
     binary_unpack_int ref_aroop (pack_wires ref_aroop b0 [WInt 70000, WStr (txt_of (lit ''ok''))]) 0 0 = Inr (0, 70000)"
proof -
  let ?b = "aroop_txt_stackbuffer ref_aroop 255" and ?ws = "[WInt 70000, WStr (txt_of (lit ''ok''))]"
  have b: "wf_txt ?b" "256 \<le> t_cap ?b" by (simp_all add: ref_aroop_def wf_txt_def t_cap_def)
  have s: "length (int_bytes 70000) = 4" by code_simp
  have z: "(0 :: 32 word) \<le>s 70000" by code_simp
  have m: "msg_size (map wire_field ?ws) \<le> t_cap ?b" "msg_size (map wire_field ?ws) < 65536"
    "reachable_field (map wire_field ?ws) 0"
    using b(2) by (simp_all add: s reachable_field_def)
  obtain b0 where r: "binary_coder_reset ref_aroop ?b = Inr b0" and
    q: "\<forall>r rest. wf_txt r \<longrightarrow> t_len r < 65536 \<longrightarrow> str r = str (pack_wires ref_aroop b0 ?ws) @ rest \<longrightarrow>
      binary_unpack_int ref_aroop r 0 0 = Inr (0, 70000)"
    using wire_roundtrip [OF ref_aroop_ok b _ m, where out = zero_txt and n = 0] z by auto
  have p0: "packed_msg b0 []" "t_cap b0 = t_cap ?b"
    using reset_packed [OF ref_aroop_ok b] r by auto
  have "packed_msg (pack_wires ref_aroop b0 ?ws) (map wire_field ?ws)"
    using pack_wires_packed [OF ref_aroop_ok p0(1), of ?ws] m p0(2) by simp
  then have "wf_txt (pack_wires ref_aroop b0 ?ws)" "t_len (pack_wires ref_aroop b0 ?ws) < 65536"
    using packed_small by blast+
  with q r show ?thesis by (metis append_Nil2)
qed

text \<open>A field that does not fit is refused: the pack call returns -1 and the message is left as it
  was, so no later reader sees a cut field.\<close>

theorem pack_full_unchanged:
  assumes "aroop_ok A" and "packed_msg b fs" and "wf_wire w"
    and "t_cap b < msg_size (fs @ [wire_field w])"
  shows "pack_wire A b w = (-1, b)"
  using assms pack_helper_full [OF assms(2)]
  by (cases w) (simp_all add: binary_pack_string_def binary_pack_int_def del: msg_size_simps)

lemma pack_full_unchanged_witness:
  "pack_wire ref_aroop (txt_of (enc_msg [(1, replicate 300 0)])) (WInt 5) =
     (-1, txt_of (enc_msg [(1, replicate 300 0)]))"
  by (rule pack_full_unchanged [of ref_aroop _ "[(1, replicate 300 0)]"])
    (simp_all add: packed_msg_def int_bytes_def)

lemma byte_less: "unat (b :: byte) < 256"
  using unsigned_less [of b] by simp

lemma ucast_to_byte: "(ucast (of_nat k :: 16 word) :: byte) = of_nat k"
  by (simp add: word_unat_eq_iff unat_of_nat unsigned_ucast_eq take_bit_eq_mod mod_mod_cancel)

text \<open>The reader on the fields that start below 256: it arrives at the next one, wherever that is, modulo 256.\<close>

lemma unpack_loop_skips:
  assumes b: "holds_msg b fs" and k: "k \<le> i" "i < length fs" and low: "\<forall>j < i. msg_size (take j fs) < 256" and q: "k < i \<Longrightarrow> 256 \<le> msg_size fs"
  shows "binary_unpack_loop A b (of_nat (msg_size fs)) expected (i - k) (of_nat (msg_size (take k fs))) x =
    binary_unpack_loop A b (of_nat (msg_size fs)) expected 0 (of_nat (msg_size (take i fs))) x"
  using k q
proof (induction "i - k" arbitrary: k)
  case (Suc n)
  let ?p = "msg_size (take k fs)" and ?q = "msg_size (take (Suc k) fs)"
  have ki: "k < i" "k < length fs" using Suc.hyps(2) Suc.prems(2) by simp_all
  note fsz = field_size [OF b ki(2)] holds_size [OF b]
  have up: "unat (of_nat ?p :: byte) = ?p" using low ki(1) by (simp add: unat_byte)
  have un: "unat (of_nat (length (snd (fs ! k))) :: 16 word) = length (snd (fs ! k))"
    and ub: "unat (of_nat (msg_size fs) :: 16 word) = msg_size fs"
    using fsz by (simp_all add: unat_of_nat)
  have q: "of_nat ?p + ucast (of_nat (length (snd (fs ! k))) :: 16 word) + of_nat 3 = (of_nat ?q :: byte)"
    by (simp add: ucast_to_byte msg_size_take_Suc [OF ki(2)])
  have "unat (of_nat ?q :: byte) < 256" by (rule byte_less)
  then have lt: "unat (of_nat ?q :: byte) < msg_size fs" using Suc.prems(3) ki(1) by linarith
  have "i - k = Suc (i - Suc k)" using ki(1) by simp
  moreover have "i - Suc k = n" using Suc.hyps(2) by simp
  ultimately show ?case
    using Suc.hyps(1) [of "Suc k"] Suc.prems ki fsz lt q
    by (simp add: up un ub get_header_field [OF b ki(2)] BINARY_CODER_HEADER_LEN_def)
qed simp

lemma header_at:
  assumes "q + 2 < length m"
  shows "binary_get_header (m @ rest) q = Inr (m ! q, of_nat (256 * unat (m ! (q + 1)) + unat (m ! (q + 2))))"
proof -
  let ?n = "256 * unat (m ! (q + 1)) + unat (m ! (q + 2))"
  have b: "unat (m ! (q + 1)) < 256" "unat (m ! (q + 2)) < 256" by (rule byte_less)+
  then have n: "?n < 65536" "?n div 256 = unat (m ! (q + 1))" "?n mod 256 = unat (m ! (q + 2))" by simp_all
  have "(of_nat ?n :: byte) = m ! (q + 2)" using n(3) by (simp only: word_unat_eq_iff unat_of_nat) simp
  then have n2: "be16 ?n = [m ! (q + 1), m ! (q + 2)]" by (simp only: be16_def n(2)) simp
  have eq: "drop q m = m ! q # m ! (q + 1) # m ! (q + 2) # drop (q + 3) m"
    using assms by (simp add: Cons_nth_drop_Suc [symmetric] numeral_3_eq_3)
  have "m = take q m @ drop q m" by simp
  then have "m @ rest = take q m @ m ! q # be16 ?n @ drop (q + 3) m @ rest" unfolding eq n2 by (metis append.assoc append_Cons append_Nil)
  moreover have "length (take q m) = q" using assms by simp
  ultimately show ?thesis using get_header_be16 [OF n(1), of "take q m" "m ! q" "drop (q + 3) m @ rest"] by (simp only:)
qed

text \<open>(C37) The position of the reader, \<open>pos\<close> in \<open>binary_unpack_string_helper\<close>, is a \<open>uint8_t\<close>, so that the first field of a
  message whose payload starts at byte 256 or later is read from the wrong place: the reader looks for its header at its
  start modulo 256, inside or at the front of an earlier field, and for its payload three bytes further, modulo 256 again. What
  it finds there decides what happens: a length that goes past the message gives -1, another type the failed assertion, and
  otherwise it reports success with bytes of the earlier fields.\<close>

theorem unpack_wraps_past_255:
  assumes "aroop_ok A" and "holds_msg b fs" and "i < length fs"
    and "256 \<le> msg_size (take i fs) + 3" and "\<forall>j < i. msg_size (take j fs) < 256"
  shows "let q = msg_size (take i fs) mod 256; p = (q + 3) mod 256; m = enc_msg fs; n = 256 * unat (m ! (q + 1)) + unat (m ! (q + 2)) in
    (msg_size fs < q + n \<longrightarrow> binary_unpack_string A b i x = Inr (-1, zero_txt)) \<and>
    (q + n \<le> msg_size fs \<longrightarrow> m ! q \<noteq> NGINZ_BINARY_CONTENT_STRING \<longrightarrow>
       binary_unpack_string A b i x = ebind (aroop_assert A False) (\<lambda>_. Inr (-1, zero_txt))) \<and>
    (q + n \<le> msg_size fs \<longrightarrow> m ! q = NGINZ_BINARY_CONTENT_STRING \<longrightarrow> p + n \<le> t_len b \<longrightarrow>
       (\<exists>y. binary_unpack_string A b i x = Inr (0, y) \<and> str y = take n (drop p (str b))))"
proof -
  note A = assms(1) and b = assms(2)
  define q where "q = msg_size (take i fs) mod 256"
  define p where "p = (q + 3) mod 256"
  define n where "n = 256 * unat (enc_msg fs ! (q + 1)) + unat (enc_msg fs ! (q + 2))"
  note fsz = field_size [OF b assms(3)] holds_size [OF b]
  have big: "256 \<le> msg_size fs" using fsz assms(4) by linarith
  have "q < 256" "q \<le> msg_size (take i fs)" by (simp_all add: q_def)
  then have q: "q < 256" "q + 2 < length (enc_msg fs)"
    using fsz assms(4) by (cases "msg_size (take i fs) < 256"; simp add: q_def)+
  obtain m where m: "t_mem b = enc_msg fs @ m" using b by (rule holds_mem)
  have hd: "binary_get_header (t_mem b) q = Inr (enc_msg fs ! q, of_nat n)" unfolding m n_def by (rule header_at [OF q(2)])
  have n: "n < 65536" unfolding n_def using byte_less [of "enc_msg fs ! (q + 1)"] byte_less [of "enc_msg fs ! (q + 2)"] by simp
  have u: "unat (of_nat (msg_size (take i fs)) :: byte) = q" "unat (of_nat n :: 16 word) = n" "unat (of_nat (msg_size fs) :: 16 word) = msg_size fs"
    using n fsz by (simp_all add: unat_of_nat q_def)
  have p3: "unat (of_nat (msg_size (take i fs)) + of_nat 3 :: byte) = p"
    by (simp only: of_nat_add [symmetric] unat_of_nat) (simp add: p_def q_def mod_add_left_eq)
  have "fs \<noteq> []" using assms(3) by auto
  then have "binary_unpack_string A b i x = binary_unpack_loop A b (of_nat (msg_size fs)) NGINZ_BINARY_CONTENT_STRING i 2 zero_txt"
    by (simp add: binary_unpack_string_def unpack_helper_loop [OF A b])
  also have "\<dots> = binary_unpack_loop A b (of_nat (msg_size fs)) NGINZ_BINARY_CONTENT_STRING 0 (of_nat (msg_size (take i fs))) zero_txt"
    using unpack_loop_skips [OF b le0 assms(3,5), of A NGINZ_BINARY_CONTENT_STRING zero_txt] big by simp
  finally have r: "binary_unpack_string A b i x = (if msg_size fs < q + n then Inr (-1, zero_txt)
      else if enc_msg fs ! q \<noteq> NGINZ_BINARY_CONTENT_STRING then ebind (aroop_assert A False) (\<lambda>_. Inr (-1, zero_txt))
      else Inr (0, aroop_txt_set_length A (aroop_txt_shift A b (int p)) n))"
    by (simp only: binary_unpack_loop.simps(1) u hd ebind_simps prod.case Let_def p3 BINARY_CODER_HEADER_LEN_def copy_shallow_law [OF A])
  have wf: "wf_txt b" using b by (simp add: holds_msg_def)
  have "str (aroop_txt_set_length A (aroop_txt_shift A b (int p)) n) = take n (drop p (str b))" if "p + n \<le> t_len b"
  proof -
    have "aroop_txt_shift A b (int p) = \<lparr>t_mem = drop p (t_mem b), t_len = t_len b - p\<rparr>" using shift_law [OF A wf, of p] that by simp
    moreover have "n \<le> t_cap \<lparr>t_mem = drop p (t_mem b), t_len = t_len b - p\<rparr>" using that wf by (simp add: t_cap_def wf_txt_def)
    ultimately show ?thesis using that wf by (simp add: set_length_law [OF A] str_def drop_take take_take min_def)
  qed
  then show ?thesis unfolding Let_def q_def [symmetric] p_def [symmetric] n_def [symmetric] r by auto
qed

text \<open>A string that starts at byte 300 is read from byte 44, which is in the middle of the one before: whoever chose that text
  has chosen what is read.\<close>

lemma unpack_wraps_past_255_witness:
  "\<exists>y. binary_unpack_string ref_aroop (txt_of (enc_msg [(1, replicate 39 0 @ [1, 0, 4] @ lit ''fake'' @ replicate 249 0), (1, lit ''true'')])) 1 zero_txt =
     Inr (0, y) \<and> str y = lit ''fake''"
proof -
  define fs where "fs = [(1 :: byte, replicate 39 0 @ [1, 0, 4] @ lit ''fake'' @ replicate 249 0), (1, lit ''true'')]"
  have l: "msg_size (take 1 fs) = 300" "msg_size (take 0 fs) = 2" "msg_size fs = 307" by (simp_all add: fs_def msg_size_def enc_field_def lit_def)
  have e: "enc_msg fs = (be16 307 @ 1 # be16 295 @ replicate 39 0) @ [1, 0, 4] @ lit ''fake'' @ replicate 249 0 @ 1 # be16 4 @ lit ''true''"
    unfolding enc_msg_def l(3) by (simp add: fs_def enc_field_def lit_def be16_def)
  have d: "drop 44 (enc_msg fs) = [1, 0, 4] @ lit ''fake'' @ replicate 249 0 @ 1 # be16 4 @ lit ''true''" unfolding e by simp
  have at: "enc_msg fs ! (44 + k) = (drop 44 (enc_msg fs)) ! k" for k by (rule nth_drop [symmetric]) (simp add: l(3))
  have n: "enc_msg fs ! 44 = 1" "enc_msg fs ! (44 + 1) = 0" "enc_msg fs ! (44 + 2) = 4"
    using at [of 0] at [of 1] at [of 2] unfolding d by simp_all
  have "take 4 (drop 47 (enc_msg fs)) = take 4 (drop 3 (drop 44 (enc_msg fs)))" by (simp add: drop_drop)
  then have t: "take 4 (drop 47 (enc_msg fs)) = lit ''fake''" unfolding d by (simp add: lit_def)
  have h: "holds_msg (txt_of (enc_msg fs)) fs" using l(3) by (simp add: holds_msg_def)
  have i: "1 < length fs" "256 \<le> msg_size (take 1 fs) + 3" "\<forall>j < 1. msg_size (take j fs) < 256" using l by (simp_all add: fs_def)
  have "\<exists>y. binary_unpack_string ref_aroop (txt_of (enc_msg fs)) 1 zero_txt = Inr (0, y) \<and> str y = lit ''fake''"
    using unpack_wraps_past_255 [OF ref_aroop_ok h i, of zero_txt] n t l
    by (simp add: Let_def NGINZ_BINARY_CONTENT_STRING_def)
  then show ?thesis unfolding fs_def .
qed

lemma fixup_result:
  assumes "aroop_ok A" and "holds_msg b fs"
  shows "binary_coder_fixup A b =
    (if t_len b mod 256 < 2 then Inl AssertFailed else Inr (b\<lparr>t_len := msg_size fs\<rparr>)) \<and>
    str (b\<lparr>t_len := msg_size fs\<rparr>) = enc_msg fs"
proof -
  note A = assms(1) and b = assms(2)
  obtain m where m: "t_mem b = enc_msg fs @ m" using b by (rule holds_mem)
  have wf: "wf_txt b" using b by (simp add: holds_msg_def)
  note sz = holds_size [OF b] msg_size_ge2 [of fs]
  have c: "aroop_txt_char_at A b 0 = of_nat (msg_size fs div 256)" "aroop_txt_char_at A b 1 = of_nat (msg_size fs)"
    using sz wf by (simp_all add: char_at_law [OF A] m enc_msg_def be16_def)
  have v: "push_bit 8 (ucast (of_nat (msg_size fs div 256) :: byte)) OR ucast (of_nat (msg_size fs) :: byte)
      = (of_nat (msg_size fs) :: 16 word)"
    using sz by (intro be16_value) simp
  have u: "unat (of_nat (msg_size fs) :: 16 word) = msg_size fs" using sz by (intro unat_u16) simp
  have n: "unat (ucast (of_nat (t_len b) :: byte) :: 16 word) = t_len b mod 256"
    by (simp add: unat_of_nat unsigned_ucast_eq take_bit_eq_mod)
  have cap: "msg_size fs \<le> t_cap b" using sz wf by (simp add: wf_txt_def)
  have "binary_coder_fixup A b =
      (if t_len b mod 256 < 2 then Inl AssertFailed else Inr (b\<lparr>t_len := msg_size fs\<rparr>))"
    unfolding binary_coder_fixup_def Let_def n c v u BINARY_CODER_HEADER_LEN_def
    using set_length_law [OF A cap] by simp
  then show ?thesis by (simp add: str_def m)
qed

text \<open>\<open>binary_coder_fixup\<close> cuts a received buffer back to the message it holds, so the result can
  be read and appended to as a packed message, unless the buffer's length is 0 or 1 modulo 256:
  the length is first narrowed to 8 bits and the assertion on it then stops the process.\<close>

theorem fixup_trims:
  assumes "aroop_ok A" and "holds_msg b fs"
  shows "binary_coder_fixup A b =
    (if t_len b mod 256 < 2 then Inl AssertFailed else Inr (b\<lparr>t_len := msg_size fs\<rparr>)) \<and>
    str (b\<lparr>t_len := msg_size fs\<rparr>) = enc_msg fs"
  using fixup_result [OF assms] .

lemma fixup_trims_witness:
  "binary_coder_fixup ref_aroop (txt_of (enc_msg [(1, [9])] @ [0, 0])) =
     Inr ((txt_of (enc_msg [(1, [9])] @ [0, 0]))\<lparr>t_len := 6\<rparr>)"
  using fixup_trims [of ref_aroop "txt_of (enc_msg [(1, [9])] @ [0, 0])" "[(1, [9])]"]
  by (simp add: holds_msg_def)

text \<open>What the self test and the unit test of the coder read back from the message they pack.\<close>

lemma test_message_read_back:
  assumes A: "aroop_ok A" and "0 \<le>s v" and "packed_msg b0 []" and "256 \<le> t_cap b0"
  defines "t \<equiv> aroop_txt_static_string A (lit ''test'')"
  defines "m \<equiv> pack_wires A b0 [WInt v, WInt v, WStr t]"
  shows "binary_unpack_int A m 0 0 = Inr (0, v)" and "binary_unpack_int A m 1 0 = Inr (0, v)"
    and "\<exists>s. binary_unpack_string A m 2 zero_txt = Inr (0, s) \<and>
      aroop_txt_equals A (aroop_txt_zero_terminate A s) (aroop_txt_zero_terminate A t)"
    and "binary_coder_debug_dump A m = ebind (aroop_assert A False) (\<lambda>_. Inr (-1, []))"
proof -
  have t: "wf_txt t" "str t = lit ''test''" using static_laws [OF A] by (simp_all add: t_def)
  let ?ws = "[WInt v, WInt v, WStr t]"
  let ?fs = "map wire_field ?ws"
  have sz: "msg_size ?fs \<le> 30" using length_int_bytes_le [of v] by (simp add: t(2))
  have "packed_msg m ?fs"
    using pack_wires_packed [OF A assms(3), of ?ws] sz assms(4) t(1) by (simp add: m_def)
  then have h: "holds_msg m ?fs" by (rule packed_holds)
  have r: "reachable_field ?fs i" if "i < 3" for i
    using field_size(1) [OF h, of i] that sz by (simp add: reachable_field_def)
  show "binary_unpack_int A m 0 0 = Inr (0, v)" "binary_unpack_int A m 1 0 = Inr (0, v)"
    using unpack_int_found [OF A h r, of 0 v] unpack_int_found [OF A h r, of 1 v] nonneg_int_value [OF assms(2)]
    by simp_all
  have "aroop_txt_equals A (aroop_txt_zero_terminate A (field_txt m ?fs 2)) (aroop_txt_zero_terminate A t)"
    using field_txt_str(1,2) [OF h, of 2] t
    by (simp add: equals_law [OF A] zero_terminate_laws [OF A])
  then show "\<exists>s. binary_unpack_string A m 2 zero_txt = Inr (0, s) \<and>
      aroop_txt_equals A (aroop_txt_zero_terminate A s) (aroop_txt_zero_terminate A t)"
    using unpack_string_found [OF A h r, of 2] by simp
  show "binary_coder_debug_dump A m = ebind (aroop_assert A False) (\<lambda>_. Inr (-1, []))"
    using unpack_helper_found [OF A h r, of 0 zero_txt NGINZ_BINARY_CONTENT_STRING]
    by (cases "aroop_assert_aborts A")
      (simp_all add: binary_coder_debug_dump_def binary_unpack_string_def aroop_assert_def
        NGINZ_BINARY_CONTENT_STRING_def NGINZ_BINARY_CONTENT_INTEGER_def)
qed

text \<open>The built-in self test packs its argument twice and the string \<open>test\<close>, dumps the message and
  reads everything back. For every non-negative argument it reports success, unless failed
  assertions stop the process: the dump reads every field as a string, and the first field is an
  int.\<close>

theorem self_test_result:
  assumes "aroop_ok A" and "0 \<le>s v"
  shows "binary_coder_test_helper A v = (if aroop_assert_aborts A then Inl AssertFailed else Inr False)"
proof -
  let ?b = "aroop_txt_stackbuffer A 255"
  have b: "wf_txt ?b" "256 \<le> t_cap ?b" using buffer_laws(3) [OF assms(1)] buffer_cap(2) [OF assms(1), of 255] by simp_all
  obtain b0 where b0: "binary_coder_reset A ?b = Inr b0" "packed_msg b0 []" "t_cap b0 = t_cap ?b"
    using reset_packed [OF assms(1) b] by blast
  have pid: "-1 <s v" using assms(2) by (simp add: word_sless_alt word_sle_eq)
  have c: "256 \<le> t_cap b0" using b0(3) b(2) by simp
  show ?thesis
    using test_message_read_back [OF assms b0(2) c] pid
    by (auto simp: binary_coder_test_helper_def binary_coder_reset_for_pid_def b0(1) aroop_assert_def
        Let_def pack_wires_def)
qed

lemma self_test_result_witness:
  "binary_coder_test_helper ref_aroop 32 = Inl AssertFailed \<and>
   binary_coder_test_helper (ref_aroop\<lparr>aroop_assert_aborts := False\<rparr>) 32 = Inr False"
proof -
  have "(0 :: 32 word) \<le>s 32" by code_simp
  then show ?thesis
    using self_test_result [of ref_aroop 32] self_test_result [of "ref_aroop\<lparr>aroop_assert_aborts := False\<rparr>" 32]
    by (simp add: ref_aroop_def [THEN arg_cong [where f = aroop_assert_aborts], simplified])
qed

end
