(* ===== verification/LegacyCoder.thy ===== *)
theory LegacyCoder
  imports BinaryCoder
begin

text \<open>
  The older message format, \<open>base/src/binary_coder.c\<close>: a one byte total length, then fields of
  a one byte length and a payload, without type tags. \<open>mychar_t\<close> is a signed \<open>char\<close> here, an
  \<open>8 word\<close> read with \<open>sint\<close>. It keeps the coder contract for messages of up to 127 bytes.
\<close>

section \<open>Code\<close>

definition legacy_coder_reset :: "aroop \<Rightarrow> aroop_txt_t \<Rightarrow> aroop_txt_t exec" where
  "legacy_coder_reset A buffer =
     (let b0 = aroop_txt_set_length A buffer 0;
          b1 = aroop_txt_concat_char A b0 1
      in ebind (aroop_assert A (256 \<le> t_cap b1)) (\<lambda>_. Inr b1))"

definition legacy_pack_string :: "aroop \<Rightarrow> aroop_txt_t \<Rightarrow> aroop_txt_t \<Rightarrow> int \<times> aroop_txt_t" where
  "legacy_pack_string A buffer x =
     (let blen = (of_nat (t_len buffer) :: byte)
      in if int (t_len x) + sint blen + 1 > int (t_cap buffer) then (-1, buffer)
         else
           let b1 = aroop_txt_concat_char A buffer (of_nat (t_len x));
               b2 = aroop_txt_concat A b1 x;
               blen' = (of_nat (t_len b2) :: byte)
           in (0, aroop_txt_set_char_at A b2 0 blen'))"

definition legacy_pack_int :: "aroop \<Rightarrow> aroop_txt_t \<Rightarrow> 32 word \<Rightarrow> int \<times> aroop_txt_t" where
  "legacy_pack_int A buffer intval = legacy_pack_string A buffer (txt_of (int_bytes intval))"

text \<open>A signed \<open>char\<close> passed where the library expects an index or a length.\<close>

definition char_arg :: "byte \<Rightarrow> nat" where
  "char_arg c = unat (scast c :: 32 word)"

fun legacy_unpack_loop ::
    "aroop \<Rightarrow> aroop_txt_t \<Rightarrow> byte \<Rightarrow> nat \<Rightarrow> byte \<Rightarrow> aroop_txt_t \<Rightarrow> int \<times> aroop_txt_t" where
  "legacy_unpack_loop A buffer blen 0 pos x =
     (let nlen = aroop_txt_char_at A buffer (char_arg pos)
      in if sint pos + sint nlen > sint blen then (-1, x)
         else
           let x1 = aroop_txt_copy_shallow A buffer;
               x2 = aroop_txt_shift A x1 (sint (pos + 1));
               x3 = aroop_txt_set_length A x2 (char_arg nlen)
           in (0, x3))"
| "legacy_unpack_loop A buffer blen (Suc skip) pos x =
     (let nlen = aroop_txt_char_at A buffer (char_arg pos)
      in if sint pos + sint nlen > sint blen then (-1, x)
         else
           let pos' = pos + nlen + 1
           in if sint pos' < sint blen then legacy_unpack_loop A buffer blen skip pos' x
              else (0, x))"

definition legacy_unpack_string ::
    "aroop \<Rightarrow> aroop_txt_t \<Rightarrow> nat \<Rightarrow> aroop_txt_t \<Rightarrow> (int \<times> aroop_txt_t) exec" where
  "legacy_unpack_string A buffer skip x =
     (let blen = (of_nat (t_len buffer) :: byte)
      in if blen = 1 then Inr (0, x)
         else
           let blen' = aroop_txt_char_at A buffer 0
           in if sint blen' > int (t_len buffer) then Inr (-1, x)
              else Inr (legacy_unpack_loop A buffer blen' skip 1 x))"

definition legacy_unpack_int ::
    "aroop \<Rightarrow> aroop_txt_t \<Rightarrow> nat \<Rightarrow> 32 word \<Rightarrow> (int \<times> 32 word) exec" where
  "legacy_unpack_int A buffer skip intval =
     ebind (legacy_unpack_string A buffer skip zero_txt)
       (\<lambda>(ret, x). if ret \<noteq> 0 then Inr (-1, intval)
                    else ebind (int_of_txt x) (\<lambda>output. Inr (0, output)))"

definition legacy_coder_fixup :: "aroop \<Rightarrow> aroop_txt_t \<Rightarrow> aroop_txt_t" where
  "legacy_coder_fixup A buffer =
     (let blen = (of_nat (t_len buffer) :: byte)
      in if blen = 1 then buffer
         else
           let blen' = aroop_txt_char_at A buffer 0
           in if sint blen' \<noteq> int (t_len buffer) then aroop_txt_set_length A buffer (char_arg blen')
              else buffer)"

section \<open>Messages\<close>

definition legacy_fields :: "bytes list \<Rightarrow> bytes" where
  "legacy_fields xs = concat (map (\<lambda>x. of_nat (length x) # x) xs)"

definition legacy_size :: "bytes list \<Rightarrow> nat" where
  "legacy_size xs = 1 + length (legacy_fields xs)"

definition legacy_msg :: "bytes list \<Rightarrow> bytes" where
  "legacy_msg xs = of_nat (legacy_size xs) # legacy_fields xs"

definition legacy_packed :: "aroop_txt_t \<Rightarrow> bytes list \<Rightarrow> bool" where
  "legacy_packed b xs \<longleftrightarrow> wf_txt b \<and> str b = legacy_msg xs \<and> 256 \<le> t_cap b"

lemma legacy_fields_simps [simp]:
  "legacy_fields [] = []" "legacy_fields (x # xs) = of_nat (length x) # x @ legacy_fields xs"
  "legacy_fields (xs @ ys) = legacy_fields xs @ legacy_fields ys"
  by (simp_all add: legacy_fields_def)

lemma legacy_size_snoc: "legacy_size (xs @ [x]) = legacy_size xs + 1 + length x"
  by (simp add: legacy_size_def)

lemma legacy_size_take_le: "legacy_size (take i xs) \<le> legacy_size xs"
proof -
  have "legacy_fields xs = legacy_fields (take i xs) @ legacy_fields (drop i xs)"
    by (metis append_take_drop_id legacy_fields_simps(3))
  then show ?thesis by (simp add: legacy_size_def)
qed

lemma legacy_size_take_Suc:
  "i < length xs \<Longrightarrow> legacy_size (take (Suc i) xs) = legacy_size (take i xs) + 1 + length (xs ! i)"
  by (simp add: take_Suc_conv_app_nth legacy_size_snoc)

lemma legacy_len: "legacy_packed b xs \<Longrightarrow> t_len b = legacy_size xs"
  unfolding legacy_packed_def
  by (metis legacy_msg_def legacy_size_def length_Cons length_str plus_1_eq_Suc)

lemma sint_byte: "n < 128 \<Longrightarrow> sint (of_nat n :: byte) = int n"
proof -
  assume n: "n < 128"
  have "signed_take_bit 7 (int n) = int n"
    using n by (intro signed_take_bit_int_eq_self) simp_all
  moreover have "int n mod 256 = int n" using n by simp
  ultimately show ?thesis
    by (simp add: sint_uint unsigned_of_nat take_bit_eq_mod zmod_int)
qed

lemma char_arg_byte: "n < 128 \<Longrightarrow> char_arg (of_nat n) = n"
proof -
  assume n: "n < 128"
  have "(scast (of_nat n :: byte) :: 32 word) = of_int (sint (of_nat n :: byte))"
    by simp
  also have "\<dots> = of_nat n" using sint_byte [OF n] by simp
  finally show ?thesis using n by (simp add: char_arg_def unat_of_nat)
qed

lemma legacy_msg_split:
  assumes "i < length xs"
  shows "legacy_msg xs = (of_nat (legacy_size xs) # legacy_fields (take i xs)) @
    of_nat (length (xs ! i)) # xs ! i @ legacy_fields (drop (Suc i) xs)"
proof -
  have "legacy_fields xs = legacy_fields (take i xs @ xs ! i # drop (Suc i) xs)"
    using assms by (simp only: id_take_nth_drop [symmetric])
  then show ?thesis by (simp add: legacy_msg_def)
qed

lemma legacy_mem:
  assumes "legacy_packed b xs" "i < length xs"
  shows "t_mem b ! legacy_size (take i xs) = of_nat (length (xs ! i))"
    and "take (length (xs ! i)) (drop (Suc (legacy_size (take i xs))) (t_mem b)) = xs ! i"
proof -
  obtain m where m: "t_mem b = legacy_msg xs @ m"
    using assms(1) unfolding legacy_packed_def str_def by (metis append_take_drop_id)
  let ?pre = "of_nat (legacy_size xs) # legacy_fields (take i xs)"
  have e: "t_mem b = ?pre @ of_nat (length (xs ! i)) # xs ! i @ legacy_fields (drop (Suc i) xs) @ m"
    by (simp add: m legacy_msg_split [OF assms(2)])
  have l: "length ?pre = legacy_size (take i xs)" by (simp add: legacy_size_def)
  show "t_mem b ! legacy_size (take i xs) = of_nat (length (xs ! i))"
    unfolding e l [symmetric] by (rule nth_append_length)
  have "drop (Suc (length ?pre)) (t_mem b) = xs ! i @ legacy_fields (drop (Suc i) xs) @ m"
    unfolding e by simp
  then show "take (length (xs ! i)) (drop (Suc (legacy_size (take i xs))) (t_mem b)) = xs ! i"
    unfolding l by simp
qed

section \<open>The coder contract\<close>

lemma legacy_reset_packed:
  assumes "aroop_ok A" "wf_txt b" "256 \<le> t_cap b"
  shows "\<exists>b'. legacy_coder_reset A b = Inr b' \<and> legacy_packed b' [] \<and> t_cap b' = t_cap b"
proof -
  have e: "aroop_txt_set_length A b 0 = b\<lparr>t_len := 0\<rparr>"
    using set_length_law [OF assms(1), of 0 b] by simp
  have w: "wf_txt (b\<lparr>t_len := 0\<rparr>)" "t_cap (b\<lparr>t_len := 0\<rparr>) = t_cap b" "str (b\<lparr>t_len := 0\<rparr>) = []"
    by (simp_all add: wf_txt_def t_cap_def str_def)
  have "appends (b\<lparr>t_len := 0\<rparr>) [1] (aroop_txt_concat_char A (b\<lparr>t_len := 0\<rparr>) 1)"
    using concat_char_appends [OF assms(1) w(1)] w(2) assms(3) by simp
  then show ?thesis
    using assms(3) w
    by (auto simp: legacy_coder_reset_def e legacy_packed_def legacy_msg_def legacy_size_def appends_def)
qed

lemma legacy_pack_packed:
  assumes A: "aroop_ok A" and b: "legacy_packed b xs" and x: "wf_txt x"
    and fit: "legacy_size (xs @ [str x]) \<le> 127" "legacy_size (xs @ [str x]) \<le> t_cap b"
  shows "\<exists>b'. legacy_pack_string A b x = (0, b') \<and> legacy_packed b' (xs @ [str x]) \<and> t_cap b' = t_cap b"
proof -
  let ?n = "legacy_size xs" and ?l = "t_len x"
  let ?b1 = "aroop_txt_concat_char A b (of_nat ?l)"
  let ?b2 = "aroop_txt_concat A ?b1 x"
  let ?b3 = "aroop_txt_set_char_at A ?b2 0 (of_nat (t_len ?b2))"
  have l: "length (str x) = ?l" using x by (rule length_str)
  have wb: "wf_txt b" "str b = legacy_msg xs" "256 \<le> t_cap b" and len: "t_len b = ?n"
    using b legacy_len [OF b] by (simp_all add: legacy_packed_def)
  have sz: "legacy_size (xs @ [str x]) = ?n + 1 + ?l" by (simp add: legacy_size_snoc l)
  have ap1: "appends b [of_nat ?l] ?b1"
    using concat_char_appends [OF A wb(1)] fit len wb(3) sz by simp
  note a1 = appendsD [OF ap1]
  have l1: "t_len ?b1 = ?n + 1" using appends_len [OF wb(1) ap1] len by simp
  have ap2: "appends ?b1 (str x) ?b2"
    using concat_appends [OF A a1(1) x] l1 fit(2) sz a1(3) by simp
  note a2 = appendsD [OF ap2]
  have l2: "t_len ?b2 = ?n + 1 + ?l" using appends_len [OF a1(1) ap2] l1 l by simp
  have b3: "?b3 = ?b2\<lparr>t_mem := (t_mem ?b2)[0 := of_nat (t_len ?b2)]\<rparr>"
    using set_char_at_law [OF A a2(1)] l2 by simp
  have s2: "str ?b2 = of_nat ?n # legacy_fields xs @ of_nat ?l # str x"
    using a1(2) a2(2) wb(2) by (simp add: legacy_msg_def)
  have "str ?b3 = (str ?b2)[0 := of_nat (t_len ?b2)]"
    using b3 by (simp add: str_def take_update_swap)
  then have "str ?b3 = legacy_msg (xs @ [str x])"
    by (simp add: s2 l2 legacy_msg_def sz l)
  moreover have "wf_txt ?b3" "t_cap ?b3 = t_cap b"
    using b3 a2 a1(3) by (simp_all add: wf_txt_def t_cap_def)
  moreover have "legacy_pack_string A b x = (0, ?b3)"
    using fit sz len wb(3) sint_byte [of ?n] by (simp add: legacy_pack_string_def Let_def)
  ultimately show ?thesis using wb(3) by (simp add: legacy_packed_def)
qed

lemma legacy_loop_found:
  assumes A: "aroop_ok A" and b: "legacy_packed b xs" and sz: "legacy_size xs \<le> 127"
    and "i + k < length xs"
  shows "legacy_unpack_loop A b (of_nat (legacy_size xs)) k (of_nat (legacy_size (take i xs))) x =
    (0, \<lparr>t_mem = drop (Suc (legacy_size (take (i + k) xs))) (t_mem b), t_len = length (xs ! (i + k))\<rparr>)"
  using assms(4)
proof (induction k arbitrary: i)
  case 0
  let ?p = "legacy_size (take i xs)" and ?l = "length (xs ! i)"
  have i: "i < length xs" using 0 by simp
  have p: "?p + 1 + ?l \<le> legacy_size xs"
    using legacy_size_take_le [of "Suc i" xs] legacy_size_take_Suc [OF i] by simp
  have wf: "wf_txt b" "t_len b = legacy_size xs"
    using b legacy_len [OF b] by (simp_all add: legacy_packed_def)
  have c: "aroop_txt_char_at A b ?p = of_nat ?l"
    using char_at_law [OF A wf(1)] p wf(2) legacy_mem(1) [OF b i] by simp
  have s: "sint (of_nat ?p + 1 :: byte) = int (Suc ?p)"
    using sint_byte [of "Suc ?p"] p sz by (simp add: add.commute)
  have h: "aroop_txt_shift A b (int (Suc ?p)) = \<lparr>t_mem = drop (Suc ?p) (t_mem b), t_len = t_len b - Suc ?p\<rparr>"
    by (rule shift_law [OF A wf(1)]) (use p wf(2) in simp)
  have cap: "?l \<le> t_cap \<lparr>t_mem = drop (Suc ?p) (t_mem b), t_len = t_len b - Suc ?p\<rparr>"
    using p wf by (simp add: t_cap_def wf_txt_def)
  show ?case
    using p sz char_arg_byte [of ?p] char_arg_byte [of ?l] sint_byte [of ?p] sint_byte [of ?l]
      sint_byte [of "legacy_size xs"] c s h set_length_law [OF A cap]
    by (simp add: copy_shallow_law [OF A] Let_def)
next
  case (Suc k)
  let ?p = "legacy_size (take i xs)" and ?l = "length (xs ! i)"
  have i: "i < length xs" "Suc i < length xs" using Suc.prems by simp_all
  have p: "legacy_size (take (Suc i) xs) = ?p + 1 + ?l"
    using legacy_size_take_Suc [OF i(1)] .
  have q: "legacy_size (take (Suc i) xs) < legacy_size xs"
    using legacy_size_take_le [of "Suc (Suc i)" xs] legacy_size_take_Suc [OF i(2)] by simp
  have wf: "wf_txt b" "t_len b = legacy_size xs"
    using b legacy_len [OF b] by (simp_all add: legacy_packed_def)
  have c: "aroop_txt_char_at A b ?p = of_nat ?l"
    using char_at_law [OF A wf(1)] p q wf(2) legacy_mem(1) [OF b i(1)] by simp
  have n: "of_nat ?p + of_nat ?l + 1 = (of_nat (legacy_size (take (Suc i) xs)) :: byte)"
    by (simp add: p)
  show ?case
    using p q sz char_arg_byte [of ?p] sint_byte [of ?p] sint_byte [of ?l] c n
      sint_byte [of "legacy_size xs"] sint_byte [of "legacy_size (take (Suc i) xs)"]
      Suc.IH [of "Suc i"] Suc.prems
    by (simp add: Let_def ac_simps)
qed

lemma legacy_unpack_wf:
  assumes A: "aroop_ok A" and b: "legacy_packed b xs" and sz: "legacy_size xs \<le> 127"
    and i: "i < length xs"
  shows "\<exists>y. legacy_unpack_string A b i x = Inr (0, y) \<and> str y = xs ! i \<and> wf_txt y"
proof -
  let ?y = "\<lparr>t_mem = drop (Suc (legacy_size (take i xs))) (t_mem b), t_len = length (xs ! i)\<rparr>"
  have wf: "wf_txt b" "str b = legacy_msg xs" "t_len b = legacy_size xs"
    using b legacy_len [OF b] by (simp_all add: legacy_packed_def)
  have g: "1 < legacy_size xs"
    using legacy_size_take_Suc [OF i] legacy_size_take_le [of "Suc i" xs]
    by (simp only: legacy_size_def)
  have "t_mem b ! 0 = str b ! 0" using g wf(3) by (simp add: str_def)
  then have c: "aroop_txt_char_at A b 0 = of_nat (legacy_size xs)"
    using char_at_law [OF A wf(1)] wf(2,3) g by (simp add: legacy_msg_def)
  have one: "(of_nat (legacy_size xs) :: byte) \<noteq> 1"
    using g sz sint_byte [of "legacy_size xs"] by auto
  have t0: "legacy_size (take 0 xs) = 1" by (simp add: legacy_size_def)
  have "legacy_unpack_loop A b (of_nat (legacy_size xs)) i 1 x = (0, ?y)"
    using legacy_loop_found [OF A b sz, of 0 i x] i t0 by simp
  then have "legacy_unpack_string A b i x = Inr (0, ?y)"
    using one c g sz sint_byte [of "legacy_size xs"] wf(3)
    by (simp add: legacy_unpack_string_def Let_def)
  moreover have "str ?y = xs ! i" using legacy_mem(2) [OF b i] by (simp add: str_def)
  moreover have "wf_txt ?y" using arg_cong [OF legacy_mem(2) [OF b i], of length] by (simp add: wf_txt_def t_cap_def)
  ultimately show ?thesis by blast
qed


lemma legacy_unpack_found:
  assumes "aroop_ok A" and "legacy_packed b xs" and "legacy_size xs \<le> 127" and "i < length xs"
  shows "\<exists>y. legacy_unpack_string A b i x = Inr (0, y) \<and> str y = xs ! i"
  using legacy_unpack_wf [OF assms, of x] by blast

interpretation leg: message_coder "aroop_ok A" "\<lambda>b. wf_txt b \<and> 256 \<le> t_cap b"
  "legacy_coder_reset A" "legacy_pack_string A" "legacy_unpack_string A" legacy_packed legacy_size 127
  for A
proof unfold_locales
  show "legacy_size xs \<le> legacy_size (xs @ ys)" for xs ys by (simp add: legacy_size_def)
qed (simp_all add: legacy_reset_packed legacy_pack_packed legacy_unpack_found)

section \<open>Properties\<close>

text \<open>The older format reads back what was packed, for any list of strings whose message takes at
  most 127 bytes, the largest length a signed length byte holds: the reset and every pack call
  succeed, and every field comes back as it was.\<close>

theorem legacy_roundtrip:
  assumes "aroop_ok A" and "wf_txt b" and "256 \<le> t_cap b" and "\<forall>x \<in> set xs. wf_txt x"
    and "legacy_size (map str xs) \<le> 127" and "i < length xs"
  shows "\<exists>b0 y. legacy_coder_reset A b = Inr b0 \<and>
    legacy_unpack_string A (pack_all (legacy_pack_string A) b0 xs) i x = Inr (0, y) \<and> str y = str (xs ! i)"
  using assms by (intro leg.roundtrip) simp_all

lemma legacy_roundtrip_witness:
  "\<exists>b0 y. legacy_coder_reset ref_aroop (aroop_txt_stackbuffer ref_aroop 255) = Inr b0 \<and>
     legacy_unpack_string ref_aroop
       (pack_all (legacy_pack_string ref_aroop) b0 [txt_of (lit ''join''), txt_of (lit ''room'')]) 1 zero_txt
       = Inr (0, y) \<and> str y = lit ''room''"
proof -
  let ?b = "aroop_txt_stackbuffer ref_aroop 255"
  have "wf_txt ?b" "256 \<le> t_cap ?b" by (simp_all add: ref_aroop_def wf_txt_def t_cap_def)
  then show ?thesis
    using legacy_roundtrip [of ref_aroop ?b "[txt_of (lit ''join''), txt_of (lit ''room'')]" 1 zero_txt]
    by (simp add: legacy_size_def)
qed

text \<open>A message of the older format that grows to 128 bytes is lost: its length byte reads as a
  negative number, so the first field, which the pack call accepted, cannot be read any more.\<close>

theorem legacy_long_message_lost:
  assumes "aroop_ok A" and "legacy_packed b [p]" and "length p = 126" and "skip = 0"
  shows "legacy_unpack_string A b skip x = Inr (-1, x)"
proof -
  have wf: "wf_txt b" "str b = legacy_msg [p]" "t_len b = 128"
    using assms legacy_len [OF assms(2)] by (simp_all add: legacy_packed_def legacy_size_def)
  have "t_mem b ! 0 = str b ! 0" using wf(3) by (simp add: str_def)
  then have c: "aroop_txt_char_at A b 0 = 128"
    using char_at_law [OF assms(1) wf(1), of 0] wf assms(3) by (simp add: legacy_msg_def legacy_size_def)
  have one: "aroop_txt_char_at A b (char_arg 1) = 126"
  proof -
    have "t_mem b ! 1 = str b ! 1" using wf(3) by (simp add: str_def)
    then have "t_mem b ! 1 = 126" using wf(2) assms(3) by (simp add: legacy_msg_def)
    then show ?thesis
      using char_at_law [OF assms(1) wf(1), of 1] wf(3) char_arg_byte [of 1] by simp
  qed
  have s: "sint (128 :: byte) = -128" "sint (126 :: byte) = 126" "sint (1 :: byte) = 1"
    by code_simp+
  show ?thesis
    by (simp add: legacy_unpack_string_def wf(3) c one s assms(4))
qed

lemma legacy_long_message_lost_witness:
  "legacy_unpack_string ref_aroop (txt_of (legacy_msg [replicate 126 7]) \<lparr>t_mem := legacy_msg [replicate 126 7] @ replicate 200 0\<rparr>) 0 zero_txt
     = Inr (-1, zero_txt)"
  by (rule legacy_long_message_lost [of ref_aroop _ "replicate 126 7"])
    (simp_all add: legacy_packed_def wf_txt_def t_cap_def txt_of_def str_def legacy_msg_def)

end
