(* ===== verification/Scanner.thy ===== *)
theory Scanner
  imports Aroop
begin

text \<open>
  The text scanner, \<open>base/src/scanner.c\<close>: \<open>scanner_trim\<close> and \<open>scanner_next_token\<close>. The loop
  variables \<open>i\<close> and \<open>len\<close> are \<open>nat\<close> (a text is shorter than 2^31), \<open>token_start\<close> and \<open>trim_at\<close>
  are options whose \<open>None\<close> is the code's -1. \<open>isspace\<close> is the one of the C locale.
\<close>

section \<open>Code\<close>

definition isspace :: "byte \<Rightarrow> bool" where
  "isspace c \<longleftrightarrow> c = 32 \<or> (9 \<le> c \<and> c \<le> 13)"

fun scanner_trim_loop :: "aroop \<Rightarrow> aroop_txt_t \<Rightarrow> nat \<Rightarrow> nat \<times> aroop_txt_t" where
  "scanner_trim_loop A trimmed 0 = (0, aroop_txt_set_length A trimmed 0)"
| "scanner_trim_loop A trimmed (Suc len) =
     (if \<not> isspace (aroop_txt_char_at A trimmed len)
      then (len + 1, aroop_txt_set_length A trimmed (len + 1))
      else scanner_trim_loop A trimmed len)"

definition scanner_trim :: "aroop \<Rightarrow> aroop_txt_t \<Rightarrow> nat \<times> aroop_txt_t" where
  "scanner_trim A src =
     (let trimmed = aroop_txt_copy_shallow A src
      in scanner_trim_loop A trimmed (t_len trimmed))"

definition is_separator :: "byte \<Rightarrow> bool" where
  "is_separator x \<longleftrightarrow> x = 32 \<or> x = 13 \<or> x = 10"

text \<open>The scanning loop from index \<open>i\<close>, with the bytes that are left as the fuel \<open>len - i\<close>.\<close>

fun scanner_loop :: "aroop \<Rightarrow> aroop_txt_t \<Rightarrow> nat \<Rightarrow> nat \<Rightarrow> nat option \<Rightarrow> nat \<times> nat option \<times> nat option" where
  "scanner_loop A src i 0 token_start = (i, token_start, None)"
| "scanner_loop A src i (Suc left) token_start =
     (if is_separator (aroop_txt_char_at A src i)
      then (case token_start of
              None \<Rightarrow> scanner_loop A src (i + 1) left None
            | Some s \<Rightarrow> (i, Some s, Some i))
      else scanner_loop A src (i + 1) left
             (case token_start of None \<Rightarrow> Some i | Some s \<Rightarrow> Some s))"

definition scanner_next_token :: "aroop \<Rightarrow> aroop_txt_t \<Rightarrow> aroop_txt_t \<Rightarrow> aroop_txt_t \<times> aroop_txt_t" where
  "scanner_next_token A src next =
     (case scanner_loop A src 0 (t_len src) None of
        (i, token_start, trim_at) \<Rightarrow>
          (let next' = (case token_start of
                 Some s \<Rightarrow>
                   (let n1 = aroop_txt_copy_shallow A src;
                        n2 = (case trim_at of Some t \<Rightarrow> aroop_txt_truncate A n1 t | None \<Rightarrow> n1)
                    in aroop_txt_shift A n2 (int s))
               | None \<Rightarrow> aroop_txt_truncate A next 0)
           in (aroop_txt_shift A src (int i), next')))"

section \<open>Specification\<close>

definition first_token :: "bytes \<Rightarrow> bytes" where
  "first_token bs = takeWhile (\<lambda>b. \<not> is_separator b) (dropWhile is_separator bs)"

definition after_token :: "bytes \<Rightarrow> bytes" where
  "after_token bs = dropWhile (\<lambda>b. \<not> is_separator b) (dropWhile is_separator bs)"

text \<open>The results of \<open>n\<close> successive calls on a text.\<close>

fun scan_tokens :: "aroop \<Rightarrow> nat \<Rightarrow> aroop_txt_t \<Rightarrow> aroop_txt_t \<Rightarrow> bytes list" where
  "scan_tokens A 0 src next = []"
| "scan_tokens A (Suc n) src next =
     (case scanner_next_token A src next of
        (src', next') \<Rightarrow> str next' # scan_tokens A n src' next')"

section \<open>Lemmas\<close>

lemma nth_drop_hd: "i < length bs \<Longrightarrow> drop i bs = bs ! i # drop (Suc i) bs"
  by (simp add: Cons_nth_drop_Suc)

lemma str_nth: "i < t_len t \<Longrightarrow> t_mem t ! i = str t ! i"
  by (simp add: str_def)

lemma char_at_str: "aroop_ok A \<Longrightarrow> wf_txt t \<Longrightarrow> i < t_len t \<Longrightarrow> aroop_txt_char_at A t i = str t ! i"
  by (simp add: char_at_law str_nth)

lemma scanner_loop_in_token:
  assumes "aroop_ok A" and "wf_txt t" and "i + n = t_len t"
  shows "scanner_loop A t i n (Some s) =
    (let k = length (takeWhile (\<lambda>b. \<not> is_separator b) (drop i (str t)))
     in (i + k, Some s, if k < n then Some (i + k) else None))"
  using assms(3)
proof (induction n arbitrary: i)
  case 0
  then show ?case by (simp add: length_str [OF assms(2)])
next
  case (Suc n)
  then have i: "i < t_len t" "i < length (str t)" by (simp_all add: length_str [OF assms(2)])
  show ?case
    using Suc.IH [of "Suc i"] Suc.prems
    by (simp add: char_at_str [OF assms(1,2) i(1)] nth_drop_hd [OF i(2)] Let_def)
qed

lemma scanner_loop_before:
  assumes "aroop_ok A" and "wf_txt t" and "i + n = t_len t"
  shows "scanner_loop A t i n None =
    (let j = i + length (takeWhile is_separator (drop i (str t)));
         k = j + length (takeWhile (\<lambda>b. \<not> is_separator b) (drop j (str t)))
     in if j = t_len t then (j, None, None)
        else (k, Some j, if k < t_len t then Some k else None))"
  using assms(3)
proof (induction n arbitrary: i)
  case 0
  then show ?case by (simp add: length_str [OF assms(2)])
next
  case (Suc n)
  then have i: "i < t_len t" "i < length (str t)" by (simp_all add: length_str [OF assms(2)])
  show ?case
  proof (cases "is_separator (str t ! i)")
    case True
    then show ?thesis
      using Suc.IH [of "Suc i"] Suc.prems
      by (simp add: char_at_str [OF assms(1,2) i(1)] nth_drop_hd [OF i(2)] Let_def)
  next
    case False
    then show ?thesis
      using scanner_loop_in_token [OF assms(1,2), of "Suc i" n i] Suc.prems
      by (auto simp: char_at_str [OF assms(1,2) i(1)] nth_drop_hd [OF i(2)] Let_def)
  qed
qed

lemma dropWhile_drop: "dropWhile P xs = drop (length (takeWhile P xs)) xs"
  by (rule dropWhile_eq_drop)

lemma next_token_props:
  assumes "aroop_ok A" and "wf_txt src" and "wf_txt next" and "scanner_next_token A src next = (src', next')"
  shows "wf_txt src'" and "str src' = after_token (str src)"
    and "wf_txt next'" and "str next' = first_token (str src)"
proof -
  let ?b = "str src" and ?n = "t_len src"
  let ?j = "length (takeWhile is_separator ?b)"
  let ?k = "?j + length (takeWhile (\<lambda>b. \<not> is_separator b) (drop ?j ?b))"
  have l: "length ?b = ?n" using assms(2) by (rule length_str)
  have j: "?j \<le> ?n" using length_takeWhile_le [of is_separator ?b] l by simp
  have k: "?k \<le> ?n"
    using length_takeWhile_le [of "\<lambda>b. \<not> is_separator b" "drop ?j ?b"] l j by simp
  note run = scanner_loop_before [OF assms(1,2), of 0 ?n, simplified]
  have sh: "wf_txt (aroop_txt_shift A src (int m)) \<and> str (aroop_txt_shift A src (int m)) = drop m ?b"
    if "m \<le> ?n" for m
    using that assms(2) shift_law [OF assms(1,2) that]
    by (simp add: wf_txt_def t_cap_def str_def drop_take)
  have "wf_txt src' \<and> str src' = after_token ?b \<and> wf_txt next' \<and> str next' = first_token ?b"
  proof (cases "?j = ?n")
    case True
    have t: "wf_txt (aroop_txt_truncate A next 0)" "str (aroop_txt_truncate A next 0) = []"
      using truncate_law [OF assms(1,3), of 0] by (simp_all add: wf_txt_def str_def)
    have e: "drop ?n ?b = []" using l by simp
    have "src' = aroop_txt_shift A src (int ?n)" "next' = aroop_txt_truncate A next 0"
      using assms(4) run True by (simp_all add: scanner_next_token_def Let_def)
    then show ?thesis
      using sh [of ?n] t True e by (simp add: after_token_def first_token_def dropWhile_drop)
  next
    case False
    let ?t = "if ?k < ?n then aroop_txt_truncate A src ?k else src"
    have t: "wf_txt ?t" "str ?t = take ?k ?b" "t_len ?t = ?k"
      using truncate_law [OF assms(1,2) k] k assms(2) l
      by (auto simp: wf_txt_def t_cap_def str_def)
    have n: "next' = aroop_txt_shift A ?t (int ?j)" and s: "src' = aroop_txt_shift A src (int ?k)"
      using assms(4) run False
      by (auto simp: scanner_next_token_def Let_def copy_shallow_law [OF assms(1)] split: if_splits)
    have "?j \<le> t_len ?t" using t(3) by simp
    then have "wf_txt next' \<and> str next' = drop ?j (str ?t)"
      using shift_law [OF assms(1) t(1)] t(1) n by (simp add: wf_txt_def t_cap_def str_def drop_take)
    moreover have "drop ?j (take ?k ?b) = first_token ?b"
      by (simp add: first_token_def dropWhile_drop drop_take takeWhile_eq_take [symmetric])
    moreover have "drop ?k ?b = after_token ?b"
      by (simp add: after_token_def dropWhile_drop add.commute)
    ultimately show ?thesis using sh [OF k] s t(2) by simp
  qed
  then show "wf_txt src'" "str src' = after_token (str src)"
    "wf_txt next'" "str next' = first_token (str src)" by blast+
qed

lemma trim_loop_spec:
  assumes "aroop_ok A" and "wf_txt t" and "n \<le> t_len t"
  shows "\<exists>t'. scanner_trim_loop A t n = (t_len t', t') \<and> wf_txt t' \<and>
    str t' = rev (dropWhile isspace (rev (take n (str t))))"
  using assms(3)
proof (induction n)
  case 0
  then show ?case
    using set_length_law [OF assms(1), of 0 t] by (simp add: wf_txt_def str_def)
next
  case (Suc n)
  then have n: "n < t_len t" "n < length (str t)" by (simp_all add: length_str [OF assms(2)])
  have c: "Suc n \<le> t_cap t" using Suc.prems assms(2) by (simp add: wf_txt_def)
  show ?case
    using Suc.IH n set_length_law [OF assms(1) c] c
    by (auto simp: char_at_str [OF assms(1,2) n(1)] take_Suc_conv_app_nth wf_txt_def t_cap_def str_def)
qed

lemma first_token_word:
  assumes "w \<noteq> []" and "\<forall>b \<in> set w. \<not> is_separator b" and "is_separator s"
  shows "first_token (w @ s # bs) = w" and "after_token (w @ s # bs) = s # bs"
    and "first_token (s # bs) = first_token bs" and "after_token (s # bs) = after_token bs"
    and "first_token w = w" and "after_token w = []"
proof -
  have d: "dropWhile is_separator (w @ s # bs) = w @ s # bs" "dropWhile is_separator w = w"
    using assms(1,2) by (cases w; simp)+
  show "first_token (w @ s # bs) = w" "after_token (w @ s # bs) = s # bs"
    "first_token (s # bs) = first_token bs" "after_token (s # bs) = after_token bs"
    "first_token w = w" "after_token w = []"
    using assms d by (simp_all add: first_token_def after_token_def takeWhile_append2
        dropWhile_append2 takeWhile_eq_all_conv [THEN iffD2])
qed

definition word_ok :: "bytes \<Rightarrow> bool" where
  "word_ok bs \<longleftrightarrow> bs \<noteq> [] \<and> (\<forall>b \<in> set bs. \<not> is_separator b)"

lemma token_of:
  assumes "aroop_ok A" and "wf_txt src" and "wf_txt next" and "word_ok w" and "is_separator s"
    and "str src = w @ s # bs \<or> str src = s' # w @ s # bs \<and> is_separator s'" and "scanner_next_token A src next = (src', next')"
  shows "wf_txt src' \<and> str src' = s # bs \<and> wf_txt next' \<and> str next' = w \<and> t_len next' \<noteq> 0"
proof -
  have w: "w \<noteq> []" "\<forall>b \<in> set w. \<not> is_separator b" using assms(4) by (simp_all add: word_ok_def)
  note P = next_token_props [OF assms(1-3,7)]
  have "first_token (str src) = w \<and> after_token (str src) = s # bs"
    using assms(6)
  proof
    assume "str src = w @ s # bs"
    then show ?thesis using first_token_word(1,2) [OF w assms(5)] by simp
  next
    assume "str src = s' # w @ s # bs \<and> is_separator s'"
    then show ?thesis using first_token_word(1,2) [OF w assms(5)] first_token_word(3,4) [OF w, of s'] by simp
  qed
  then have e: "str next' = w" "str src' = s # bs" using P by simp_all
  then have "t_len next' \<noteq> 0" using length_str [OF P(3)] w(1) by (metis length_0_conv)
  then show ?thesis using P(1,3) e by simp
qed

declare scan_tokens.simps(2) [simp del]

lemma scan_tokens_unfold:
  assumes "aroop_ok A" and "wf_txt src" and "wf_txt next"
  shows "\<exists>src' next'. scan_tokens A (Suc n) src next = first_token (str src) # scan_tokens A n src' next' \<and>
    wf_txt src' \<and> wf_txt next' \<and> str src' = after_token (str src)"
  using next_token_props [OF assms]
  by (cases "scanner_next_token A src next") (auto simp: scan_tokens.simps(2))

lemma scan_tokens_empty:
  assumes "aroop_ok A" and "wf_txt src" "wf_txt next" and "str src = []"
  shows "scan_tokens A n src next = replicate n []"
  using assms(2-)
proof (induction n arbitrary: src "next")
  case (Suc n)
  then show ?case
    using scan_tokens_unfold [OF assms(1) Suc.prems(1,2), of n]
    by (auto simp: first_token_def after_token_def)
qed simp

text \<open>The words of a text, cut at every single separator (blank, CR or LF) with the empty pieces left out.\<close>

fun pieces :: "bytes \<Rightarrow> bytes list" where
  "pieces [] = [[]]"
| "pieces (b # bs) = (if b \<in> {32, 13, 10} then [] # pieces bs else (case pieces bs of [] \<Rightarrow> [[b]] | p # ps \<Rightarrow> (b # p) # ps))"

definition words_of :: "bytes \<Rightarrow> bytes list" where
  "words_of bs = filter (\<lambda>w. w \<noteq> []) (pieces bs)"

lemma pieces_split:
  "pieces bs = takeWhile (\<lambda>b. \<not> is_separator b) bs # tl (pieces bs)"
  "filter (\<lambda>w. w \<noteq> []) (tl (pieces bs)) = words_of (dropWhile (\<lambda>b. \<not> is_separator b) bs)"
proof (induction bs)
  case (Cons b bs)
  {
    case 1
    show ?case using Cons(1) by (cases "pieces bs") (auto simp: is_separator_def)
  next
    case 2
    show ?case using Cons by (cases "pieces bs") (auto simp: words_of_def is_separator_def)
  }
qed (simp_all add: words_of_def)

lemma words_of_unfold:
  "words_of bs = (if first_token bs = [] then [] else first_token bs # words_of (after_token bs))"
proof (induction bs)
  case Nil
  show ?case by (simp add: words_of_def first_token_def)
next
  case (Cons b bs)
  show ?case
  proof (cases "is_separator b")
    case True
    then have "words_of (b # bs) = words_of bs" by (auto simp: words_of_def is_separator_def)
    then show ?thesis using Cons True by (simp add: first_token_def after_token_def)
  next
    case False
    then have "pieces (b # bs) = (b # takeWhile (\<lambda>b. \<not> is_separator b) bs) # tl (pieces bs)"
      by (subst pieces.simps(2), subst pieces_split(1)) (simp add: is_separator_def)
    then have "words_of (b # bs) = (b # takeWhile (\<lambda>b. \<not> is_separator b) bs) # words_of (dropWhile (\<lambda>b. \<not> is_separator b) bs)"
      using pieces_split(2) [of bs] by (simp add: words_of_def del: pieces.simps)
    then show ?thesis using False by (simp add: first_token_def after_token_def)
  qed
qed

section \<open>Properties\<close>

text \<open>(C34) Scanning recovers the words of any text: successive calls of \<open>scanner_next_token\<close> return the maximal runs of
  bytes that are not blank, CR or LF, in order, and then empty tokens for ever. Runs of several separators, separators at
  the ends and a last word that no separator follows are covered.\<close>

theorem scan_words:
  assumes "aroop_ok A" and "wf_txt src" and "wf_txt next"
  shows "scan_tokens A (length (words_of (str src)) + n) src next = words_of (str src) @ replicate n []"
  using assms(2-)
proof (induction "words_of (str src)" arbitrary: src "next")
  case Nil
  then have f: "first_token (str src) = []" using words_of_unfold [of "str src"] by (auto split: if_splits)
  then have a: "after_token (str src) = []"
    using hd_dropWhile [of is_separator "str src"]
    by (cases "dropWhile is_separator (str src)") (simp_all add: first_token_def after_token_def del: dropWhile_eq_Nil_conv)
  show ?case
  proof (cases n)
    case (Suc m)
    obtain x y where u: "scan_tokens A (Suc m) src next = first_token (str src) # scan_tokens A m x y" "wf_txt x" "wf_txt y"
      "str x = after_token (str src)"
      using scan_tokens_unfold [OF assms(1) Nil(2,3)] by blast
    have "scan_tokens A m x y = replicate m []" using scan_tokens_empty [OF assms(1) u(2,3)] u(4) a by simp
    then show ?thesis using u(1) f Suc Nil(1) [symmetric] by simp
  qed (simp add: Nil(1) [symmetric])
next
  case (Cons w ws)
  then have w: "first_token (str src) = w" "words_of (after_token (str src)) = ws"
    using words_of_unfold [of "str src"] by (auto split: if_splits)
  obtain a b where u: "scan_tokens A (Suc (length ws + n)) src next = first_token (str src) # scan_tokens A (length ws + n) a b"
    "wf_txt a" "wf_txt b" "str a = after_token (str src)"
    using scan_tokens_unfold [OF assms(1) Cons(3,4)] by blast
  have "scan_tokens A (length ws + n) a b = ws @ replicate n []"
    using Cons(1) [of a b] u(2-4) w(2) by simp
  then show ?case using u(1) w(1) Cons(2) [symmetric] by simp
qed

lemma scan_words_witness:
  "scan_tokens ref_aroop (3 + 1) (txt_of (lit ''  /join  room'' @ [13, 10] @ lit ''bob'')) zero_txt = [lit ''/join'', lit ''room'', lit ''bob'', []]"
proof -
  let ?s = "lit ''  /join  room'' @ [13, 10] @ lit ''bob''"
  have w: "words_of ?s = [lit ''/join'', lit ''room'', lit ''bob'']" by code_simp
  have "scan_tokens ref_aroop (length (words_of ?s) + 1) (txt_of ?s) zero_txt = words_of ?s @ replicate 1 []"
    using scan_words [of ref_aroop "txt_of ?s" zero_txt 1] by (simp only: ref_aroop_ok txt_of_simps zero_txt_simps simp_thms)
  then show ?thesis unfolding w by (simp add: numeral_eq_Suc)
qed

text \<open>One call of \<open>scanner_next_token\<close>, on any text: the token is the first maximal run of
  non-separators, empty when there is none, and the source keeps exactly what follows it,
  starting with the separator that ended the token.\<close>

theorem next_token_splits:
  assumes "aroop_ok A" and "wf_txt src" and "wf_txt next"
  shows "case scanner_next_token A src next of (src', next') \<Rightarrow>
    str next' = first_token (str src) \<and> str src' = after_token (str src) \<and>
    (\<exists>seps. (\<forall>b \<in> set seps. is_separator b) \<and> str src = seps @ str next' @ str src') \<and>
    (str src' = [] \<or> is_separator (hd (str src')))"
proof -
  obtain src' next' where r: "scanner_next_token A src next = (src', next')" by fastforce
  note p = next_token_props [OF assms r]
  have "str src = takeWhile is_separator (str src) @ first_token (str src) @ after_token (str src)"
    by (simp add: first_token_def after_token_def)
  moreover have "\<forall>b \<in> set (takeWhile is_separator (str src)). is_separator b"
    by (auto dest: set_takeWhileD)
  moreover have "after_token (str src) = [] \<or> is_separator (hd (after_token (str src)))"
    unfolding after_token_def using hd_dropWhile by blast
  ultimately show ?thesis using r p by auto
qed

lemma next_token_splits_witness:
  "str (snd (scanner_next_token ref_aroop (txt_of (lit ''  hi you'')) zero_txt)) = lit ''hi''"
  using next_token_splits [of ref_aroop "txt_of (lit ''  hi you'')" zero_txt]
  by (auto simp: first_token_def is_separator_def lit_def split: prod.splits)

text \<open>\<open>scanner_trim\<close> removes exactly the trailing white space and returns the length left.\<close>

theorem trim_removes_trailing:
  assumes "aroop_ok A" and "wf_txt src"
  shows "\<exists>t. scanner_trim A src = (length (str t), t) \<and>
    str t = rev (dropWhile isspace (rev (str src)))"
proof -
  have "take (t_len src) (str src) = str src" by (simp add: str_def)
  then obtain t where t: "scanner_trim_loop A src (t_len src) = (t_len t, t)" "wf_txt t"
      "str t = rev (dropWhile isspace (rev (str src)))"
    using trim_loop_spec [OF assms, of "t_len src"] by auto
  have "scanner_trim A src = (length (str t), t)"
    using t(1)
    unfolding length_str [OF t(2)] by (simp add: scanner_trim_def Let_def copy_shallow_law [OF assms(1)])
  with t(3) show ?thesis by blast
qed

lemma trim_removes_trailing_witness:
  "str (snd (scanner_trim ref_aroop (txt_of (lit ''quit '')))) = lit ''quit''"
  using trim_removes_trailing [of ref_aroop "txt_of (lit ''quit '')"]
  by (auto simp: lit_def isspace_def)

end
