(* ===== verification/FdRegistry.thy ===== *)
theory FdRegistry
  imports Prelude
begin

text \<open>
  The interface of \<open>base/inc/event_loop.h\<close>: a table of descriptors with an event mask, a
  callback and its data. Unregistering is lazy (the entry is only marked), \<open>compact\<close> drops the
  marked entries. \<open>live\<close> is what is registered. Both implementations (theories \<open>EventLoop\<close> and
  \<open>PartitionedLoop\<close>) interpret the locale.
\<close>

fun run_registers :: "('f \<Rightarrow> 'e \<Rightarrow> 's \<Rightarrow> 's exec) \<Rightarrow> ('f \<times> 'e) list \<Rightarrow> 's \<Rightarrow> 's exec" where
  "run_registers reg [] s = Inr s"
| "run_registers reg ((f, e) # xs) s = ebind (reg f e s) (run_registers reg xs)"

fun run_unregisters :: "('f \<Rightarrow> 's \<Rightarrow> 's exec) \<Rightarrow> 'f list \<Rightarrow> 's \<Rightarrow> 's exec" where
  "run_unregisters unreg [] s = Inr s"
| "run_unregisters unreg (f # xs) s = ebind (unreg f s) (run_unregisters unreg xs)"

lemma mset_map_lift: "mset ys = mset (map f xs) \<Longrightarrow> \<exists>zs. map f zs = ys \<and> mset zs = mset xs"
proof (induction ys arbitrary: xs)
  case (Cons y ys)
  then have "y \<in># mset (map f xs)" by (metis list.set_intros(1) set_mset_mset)
  then obtain x where x: "x \<in> set xs" "y = f x" by auto
  then have "mset (map f xs) = add_mset y (mset (map f (remove1 x xs)))"
    by (metis image_mset_add_mset insert_DiffM mset_map mset_remove1 set_mset_mset)
  then obtain zs where "map f zs = ys" "mset zs = mset (remove1 x xs)"
    using Cons.IH [of "remove1 x xs"] Cons.prems by auto
  then have "map f (x # zs) = y # ys \<and> mset (x # zs) = mset xs" using x by simp
  then show ?case by (rule exI)
qed simp

locale fd_registry =
  fixes inv :: "'s \<Rightarrow> bool"
    and room :: "'s \<Rightarrow> nat \<Rightarrow> bool"
    and valid :: "'f \<Rightarrow> 'e \<Rightarrow> bool"
    and register :: "'f \<Rightarrow> 'e \<Rightarrow> 's \<Rightarrow> 's exec"
    and unregister :: "'f \<Rightarrow> 's \<Rightarrow> 's exec"
    and compact :: "'s \<Rightarrow> 's"
    and live :: "'s \<Rightarrow> ('f \<times> 'e) multiset"
    and fd_count :: "'s \<Rightarrow> nat"
  assumes register_law: "inv s \<Longrightarrow> room s (Suc n) \<Longrightarrow> valid f e \<Longrightarrow>
      \<exists>s'. register f e s = Inr s' \<and> inv s' \<and> room s' n \<and> live s' = add_mset (f, e) (live s)"
    and unregister_absent: "inv s \<Longrightarrow> valid f e \<Longrightarrow> f \<notin># image_mset fst (live s) \<Longrightarrow>
      \<exists>s'. unregister f s = Inr s' \<and> inv s' \<and> live s' = live s"
    and unregister_present: "inv s \<Longrightarrow> valid f e' \<Longrightarrow> f \<in># image_mset fst (live s) \<Longrightarrow>
      \<exists>s' e. unregister f s = Inr s' \<and> inv s' \<and> live s = add_mset (f, e) (live s')"
    and compact_law: "inv s \<Longrightarrow> inv (compact s) \<and> live (compact s) = live s \<and>
      fd_count (compact s) = size (live s)"
begin

lemma registers_live:
  assumes "inv s" and "room s (length xs)" and "\<forall>(f, e) \<in> set xs. valid f e"
  shows "\<exists>s'. run_registers register xs s = Inr s' \<and> inv s' \<and> live s' = mset xs + live s"
  using assms
proof (induction xs arbitrary: s)
  case (Cons x xs)
  obtain f e where x: "x = (f, e)" by fastforce
  obtain s1 where "register f e s = Inr s1" "inv s1" "room s1 (length xs)"
      "live s1 = add_mset (f, e) (live s)"
    using register_law [of s "length xs" f e] Cons.prems x by auto
  then show ?case using Cons.IH [of s1] Cons.prems x by auto
qed simp

lemma unregisters_live:
  assumes "inv s" and "live s = mset xs + base" and "set (map fst xs) \<inter> set_mset (image_mset fst base) = {}"
    and "distinct (map fst xs)" and "\<forall>(f, e) \<in> set xs. valid f e"
  shows "\<exists>s'. run_unregisters unregister (map fst xs) s = Inr s' \<and> inv s' \<and> live s' = base"
  using assms
proof (induction xs arbitrary: s)
  case (Cons x xs)
  obtain f e where x: "x = (f, e)" by fastforce
  have v: "valid f e" and m: "f \<in># image_mset fst (live s)" using Cons.prems x by auto
  obtain s1 e1 where s1: "unregister f s = Inr s1" "inv s1" "live s = add_mset (f, e1) (live s1)"
    using unregister_present [OF Cons.prems(1) v m] by blast
  have "(f, e1) \<in># live s" using s1(3) by simp
  then have "e1 = e" using Cons.prems(2-4) x by force
  then have "live s1 = mset xs + base" using s1(3) Cons.prems(2) x by simp
  then show ?case using Cons.IH [of s1] Cons.prems s1 x by auto
qed simp

text \<open>Registering fresh descriptors, unregistering them again in any order and compacting leaves
  exactly what was registered before, with an exact count.\<close>

lemma register_unregister_neutral:
  assumes "inv s" and "room s (length xs)" and "\<forall>(f, e) \<in> set xs. valid f e"
    and "distinct (map fst xs)" and "set (map fst xs) \<inter> set_mset (image_mset fst (live s)) = {}"
    and "mset ys = mset (map fst xs)"
  shows "\<exists>s1 s2. run_registers register xs s = Inr s1 \<and> run_unregisters unregister ys s1 = Inr s2 \<and>
    live (compact s2) = live s \<and> fd_count (compact s2) = size (live s)"
proof -
  obtain s1 where s1: "run_registers register xs s = Inr s1" "inv s1" "live s1 = mset xs + live s"
    using registers_live [OF assms(1-3)] by blast
  obtain zs where zs: "map fst zs = ys" "mset zs = mset xs"
    using mset_map_lift [OF assms(6)] by blast
  then have p: "distinct (map fst zs)" "set zs = set xs"
    using assms(4) by (metis mset_eq_imp_distinct_iff mset_map) (metis zs(2) set_mset_mset)
  obtain s2 where "run_unregisters unregister ys s1 = Inr s2" "inv s2" "live s2 = live s"
    using unregisters_live [OF s1(2), of zs "live s"] s1(3) zs p assms(3,5) by auto
  then show ?thesis using s1(1) compact_law [of s2] by auto
qed

end

end
