(* ===== verification/EventLoop.thy ===== *)
theory EventLoop
  imports FdRegistry Aroop
begin

text \<open>
  The event loop, \<open>base/src/event_loop_poll.c\<close>. The three static variables \<open>internal_fds\<close>,
  \<open>internal_callback\<close> and \<open>internal_nfds\<close> are the fields of \<open>event_loop_data\<close>, arrays being
  functions from the index. \<open>poll\<close> is the operating system's: what it returns (its count and the
  \<open>revents\<close> it writes) is an argument of the step. A callback is a function pointer, run by the
  parameter \<open>H\<close> on the world and the event loop, which it may change. A \<open>short\<close> is a \<open>16 word\<close>.
\<close>

section \<open>Code\<close>

definition MAX_POLL_FD :: nat where
  "MAX_POLL_FD = 20000"

definition POLLIN :: "16 word" where "POLLIN = 1"
definition POLLPRI :: "16 word" where "POLLPRI = 2"
definition POLLHUP :: "16 word" where "POLLHUP = 16"

definition NGINZ_POLL_ALL_FLAGS :: "16 word" where
  "NGINZ_POLL_ALL_FLAGS = POLLIN OR POLLPRI OR POLLHUP"

record pollfd =
  fd :: int
  events :: "16 word"
  revents :: "16 word"

record ('c, 'd) event_callback =
  on_event :: "'c option"
  event_data :: 'd

record ('c, 'd) event_loop_data =
  fds :: "nat \<Rightarrow> pollfd"
  cbs :: "nat \<Rightarrow> ('c, 'd) event_callback"
  nfds :: nat

type_synonym ('c, 'd, 'w) handler =
  "'c \<Rightarrow> int \<Rightarrow> 16 word \<Rightarrow> 'd \<Rightarrow> 'w \<Rightarrow> ('c, 'd) event_loop_data \<Rightarrow> ('w \<times> ('c, 'd) event_loop_data) exec"

definition event_loop_fd_count :: "('c, 'd) event_loop_data \<Rightarrow> nat" where
  "event_loop_fd_count s = nfds s"

definition event_loop_register_fd ::
    "aroop \<Rightarrow> int \<Rightarrow> 'c option \<Rightarrow> 'd \<Rightarrow> 16 word \<Rightarrow> ('c, 'd) event_loop_data \<Rightarrow> ('c, 'd) event_loop_data exec" where
  "event_loop_register_fd A f cb d requested_events s =
     ebind (aroop_assert A (nfds s < MAX_POLL_FD)) (\<lambda>_.
     if nfds s < MAX_POLL_FD then
       Inr \<lparr>fds = (fds s)(nfds s := \<lparr>fd = f, events = requested_events, revents = 0\<rparr>),
            cbs = (cbs s)(nfds s := \<lparr>on_event = cb, event_data = d\<rparr>),
            nfds = nfds s + 1\<rparr>
     else Inl OutOfBounds)"

text \<open>The loop of \<open>event_loop_unregister_fd\<close> from index \<open>i\<close>, with \<open>left\<close> entries to visit.\<close>

fun unregister_loop :: "int \<Rightarrow> nat \<Rightarrow> nat \<Rightarrow> (nat \<Rightarrow> pollfd) \<Rightarrow> (nat \<Rightarrow> pollfd)" where
  "unregister_loop f i 0 t = t"
| "unregister_loop f i (Suc left) t =
     (if fd (t i) \<noteq> f then unregister_loop f (i + 1) left t
      else if events (t i) = 0 then unregister_loop f (i + 1) left t
      else t(i := (t i)\<lparr>events := 0\<rparr>))"

definition event_loop_unregister_fd :: "int \<Rightarrow> ('c, 'd) event_loop_data \<Rightarrow> ('c, 'd) event_loop_data" where
  "event_loop_unregister_fd f s = s\<lparr>fds := unregister_loop f 0 (nfds s) (fds s)\<rparr>"

text \<open>
  \<open>event_loop_batch_unregister\<close> with \<open>n = last + 1\<close>: \<open>trim_last\<close> is the inner loop that drops the
  last invalid entries, \<open>compact_loop\<close> the loop that fills the gaps from the end.
\<close>

fun trim_last :: "(nat \<Rightarrow> pollfd) \<Rightarrow> nat \<Rightarrow> nat" where
  "trim_last t 0 = 0"
| "trim_last t (Suc l) = (if events (t l) = 0 then trim_last t l else Suc l)"

lemma trim_last_le: "trim_last t n \<le> n"
  by (induction n) auto

function compact_loop ::
    "nat \<Rightarrow> nat \<Rightarrow> (nat \<Rightarrow> pollfd) \<Rightarrow> (nat \<Rightarrow> ('c, 'd) event_callback) \<Rightarrow>
     (nat \<Rightarrow> pollfd) \<times> (nat \<Rightarrow> ('c, 'd) event_callback) \<times> nat" where
  "compact_loop i n t c =
     (if Suc i < n then
        if events (t i) \<noteq> 0 then compact_loop (i + 1) n t c
        else
          let t' = t(i := t (n - 1));
              c' = c(i := c (n - 1));
              n' = trim_last t' (n - 1)
          in compact_loop (i + 1) n' t' c'
      else (t, c, n))"
  by pat_completeness auto
termination
proof (relation "measure (\<lambda>(i, n, _). n - i)", goal_cases)
  case (3 i n t c t' c' n')
  then show ?case using trim_last_le [of t' "n - 1"] by auto
qed auto

declare compact_loop.simps [simp del]

definition event_loop_batch_unregister :: "('c, 'd) event_loop_data \<Rightarrow> ('c, 'd) event_loop_data" where
  "event_loop_batch_unregister s =
     (case compact_loop 0 (trim_last (fds s) (nfds s)) (fds s) (cbs s) of
        (t, c, n) \<Rightarrow> \<lparr>fds = t, cbs = c, nfds = n\<rparr>)"

text \<open>
  The dispatch loop of \<open>event_loop_step_helper\<close>. \<open>cnt\<close> is a C \<open>int\<close> that is decremented at every
  call, so the loop ends although callbacks may register descriptors. A null callback faults.
\<close>

function dispatch_loop ::
    "('c, 'd, 'w) handler \<Rightarrow> nat \<Rightarrow> 32 word \<Rightarrow> 'w \<Rightarrow> ('c, 'd) event_loop_data \<Rightarrow>
     ('w \<times> ('c, 'd) event_loop_data) exec" where
  "dispatch_loop H i cnt w s =
     (if i < nfds s \<and> cnt \<noteq> 0 then
        if events (fds s i) = 0 \<or> revents (fds s i) = 0 then dispatch_loop H (i + 1) cnt w s
        else (case on_event (cbs s i) of
                None \<Rightarrow> Inl NullDeref
              | Some cb \<Rightarrow>
                  (case H cb (fd (fds s i)) (revents (fds s i)) (event_data (cbs s i)) w s of
                     Inl e \<Rightarrow> Inl e
                   | Inr (w', s') \<Rightarrow> dispatch_loop H (i + 1) (cnt - 1) w' s'))
      else Inr (w, s))"
  by pat_completeness auto
termination
proof (relation "measures [\<lambda>(H, i, cnt, w, s). unat cnt, \<lambda>(H, i, cnt, w, s). nfds s - i]", goal_cases)
  case (3 H i cnt w s x2 b w' s')
  then show ?case by (simp add: unat_minus_one unat_gt_0)
qed auto

declare dispatch_loop.simps [simp del]

definition event_loop_step_helper ::
    "('c, 'd, 'w) handler \<Rightarrow> 32 word \<Rightarrow> 'w \<Rightarrow> ('c, 'd) event_loop_data \<Rightarrow>
     ('w \<times> ('c, 'd) event_loop_data) exec" where
  "event_loop_step_helper H cnt w s =
     ebind (dispatch_loop H 0 cnt w s) (\<lambda>(w', s'). Inr (w', event_loop_batch_unregister s'))"

text \<open>\<open>poll\<close> writes \<open>revents\<close> of the first \<open>nfds\<close> entries.\<close>

definition poll_writes :: "(nat \<Rightarrow> 16 word) \<Rightarrow> ('c, 'd) event_loop_data \<Rightarrow> ('c, 'd) event_loop_data" where
  "poll_writes revs s = s\<lparr>fds := \<lambda>i. if i < nfds s then (fds s i)\<lparr>revents := revs i\<rparr> else fds s i\<rparr>"

definition event_loop_step ::
    "aroop \<Rightarrow> ('c, 'd, 'w) handler \<Rightarrow> 32 word \<times> (nat \<Rightarrow> 16 word) \<Rightarrow> 'w \<Rightarrow> ('c, 'd) event_loop_data \<Rightarrow>
     ('w \<times> ('c, 'd) event_loop_data) exec" where
  "event_loop_step A H polled w s =
     (if nfds s = 0 then Inr (w, s)
      else
        let (cnt, revs) = polled; s' = poll_writes revs s
        in if cnt = 0 then Inr (w, s')
           else ebind (aroop_assert A (cnt \<noteq> -1)) (\<lambda>_. event_loop_step_helper H cnt w s'))"

text \<open>The built-in self test: true means it failed.\<close>

definition event_loop_test_helper ::
    "aroop \<Rightarrow> 'd \<Rightarrow> nat \<Rightarrow> ('c, 'd) event_loop_data \<Rightarrow> (bool \<times> ('c, 'd) event_loop_data) exec" where
  "event_loop_test_helper A null cnt s =
     (let prev = event_loop_fd_count s;
          fakes = map (\<lambda>k. 5000 + int k) (rev [0..<cnt])
      in ebind (run_registers (\<lambda>f (cb, d, ev). event_loop_register_fd A f cb d ev)
                  (map (\<lambda>f. (f, None, null, POLLIN)) fakes) s) (\<lambda>s1.
         ebind (run_unregisters (\<lambda>f s. Inr (event_loop_unregister_fd f s)) fakes s1) (\<lambda>s2.
         let s3 = event_loop_batch_unregister s2
         in Inr (\<not> (prev = event_loop_fd_count s3), s3))))"

section \<open>What is registered\<close>

type_synonym ('c, 'd) entry = "int \<times> 'c option \<times> 'd \<times> 16 word"

definition entry_at ::
    "(nat \<Rightarrow> pollfd) \<Rightarrow> (nat \<Rightarrow> ('c, 'd) event_callback) \<Rightarrow> nat \<Rightarrow> ('c, 'd) entry multiset" where
  "entry_at t c i = (if events (t i) = 0 then {#}
     else {#(fd (t i), on_event (c i), event_data (c i), events (t i))#})"

definition live_upto ::
    "nat \<Rightarrow> (nat \<Rightarrow> pollfd) \<Rightarrow> (nat \<Rightarrow> ('c, 'd) event_callback) \<Rightarrow> ('c, 'd) entry multiset" where
  "live_upto n t c = (\<Sum>i<n. entry_at t c i)"

definition live_entries :: "('c, 'd) event_loop_data \<Rightarrow> ('c, 'd) entry multiset" where
  "live_entries s = live_upto (nfds s) (fds s) (cbs s)"

lemma live_upto_Suc [simp]: "live_upto (Suc n) t c = live_upto n t c + entry_at t c n"
  by (simp add: live_upto_def)

lemma live_upto_0 [simp]: "live_upto 0 t c = {#}"
  by (simp add: live_upto_def)

lemma live_upto_cong:
  "(\<And>i. i < n \<Longrightarrow> entry_at t c i = entry_at t' c' i) \<Longrightarrow> live_upto n t c = live_upto n t' c'"
  by (simp add: live_upto_def)

lemma live_upto_remove:
  "i < n \<Longrightarrow> live_upto n t c = entry_at t c i + (\<Sum>j \<in> {..<n} - {i}. entry_at t c j)"
  unfolding live_upto_def by (rule sum.remove) auto

lemma live_upto_update:
  assumes "i < n"
  shows "live_upto n (t(i := p)) (c(i := q)) + entry_at t c i =
    live_upto n t c + entry_at (\<lambda>_. p) (\<lambda>_. q) i"
proof -
  have "(\<Sum>j \<in> {..<n} - {i}. entry_at (t(i := p)) (c(i := q)) j) = (\<Sum>j \<in> {..<n} - {i}. entry_at t c j)"
    by (rule sum.cong) (auto simp: entry_at_def)
  then show ?thesis
    using live_upto_remove [OF assms, of t c] live_upto_remove [OF assms, of "t(i := p)" "c(i := q)"]
    by (simp add: entry_at_def)
qed

lemma live_trim: "live_upto (trim_last t n) t c = live_upto n t c"
  by (induction n) (auto simp: entry_at_def)

lemma trim_last_live: "trim_last t n \<noteq> 0 \<Longrightarrow> events (t (trim_last t n - 1)) \<noteq> 0"
  by (induction n) auto

lemma live_size: "\<forall>i<n. events (t i) \<noteq> 0 \<Longrightarrow> size (live_upto n t c) = n"
  by (induction n) (auto simp: entry_at_def)

lemma compact_loop_correct:
  assumes "compact_loop i n t c = (t', c', n')" and "n = 0 \<or> events (t (n - 1)) \<noteq> 0"
    and "\<forall>j<i. j < n \<longrightarrow> events (t j) \<noteq> 0"
  shows "live_upto n' t' c' = live_upto n t c \<and> (\<forall>j<n'. events (t' j) \<noteq> 0) \<and> n' \<le> n"
  using assms
proof (induction i n t c arbitrary: t' c' n' rule: compact_loop.induct)
  case (1 i n t c)
  consider (stop) "\<not> Suc i < n" | (live) "Suc i < n" "events (t i) \<noteq> 0" | (dead) "Suc i < n" "events (t i) = 0"
    by blast
  then show ?case
  proof cases
    case stop
    have "events (t j) \<noteq> 0" if "j < n" for j
    proof (cases "j < i")
      case False
      then have "j = n - 1" using stop that by simp
      then show ?thesis using 1(4) that by auto
    qed (use 1(5) that in blast)
    then show ?thesis using stop 1(3) by (simp add: compact_loop.simps)
  next
    case live
    then show ?thesis
      using 1(1) [OF live, of t' c' n'] 1(3-5) by (simp add: compact_loop.simps [of i] less_Suc_eq)
  next
    case dead
    let ?t = "t(i := t (n - 1))" and ?c = "c(i := c (n - 1))"
    let ?n = "trim_last ?t (n - 1)"
    have run: "compact_loop (i + 1) ?n ?t ?c = (t', c', n')"
      using 1(3) dead by (simp add: compact_loop.simps [of i] Let_def)
    have lv: "\<forall>j<i + 1. j < ?n \<longrightarrow> events (?t j) \<noteq> 0"
      using 1(4,5) dead trim_last_le [of ?t "n - 1"] by (auto simp: less_Suc_eq)
    have tl: "?n = 0 \<or> events (?t (?n - 1)) \<noteq> 0"
      using trim_last_live [of ?t "n - 1"] by blast
    have "\<not> events (t i) \<noteq> 0" using dead(2) by simp
    from 1(2) [OF dead(1) this refl refl refl run tl lv]
    have IH: "live_upto n' t' c' = live_upto ?n ?t ?c" "\<forall>j<n'. events (t' j) \<noteq> 0" "n' \<le> ?n"
      by blast+
    obtain l where n: "n = Suc l" and l: "i < l" using dead(1) by (cases n) auto
    have "live_upto l ?t ?c + entry_at t c i = live_upto l t c + entry_at (\<lambda>_. t l) (\<lambda>_. c l) i"
      using live_upto_update [OF l, of t "t l" c "c l"] n by simp
    then have "live_upto l ?t ?c = live_upto n t c"
      using dead(2) n by (simp add: entry_at_def)
    then show ?thesis
      using IH n live_trim [of ?t l ?c] trim_last_le [of ?t "n - 1"] by auto
  qed
qed

lemma batch_unregister_correct:
  "live_entries (event_loop_batch_unregister s) = live_entries s"
  "i < nfds (event_loop_batch_unregister s) \<Longrightarrow> events (fds (event_loop_batch_unregister s) i) \<noteq> 0"
  "nfds (event_loop_batch_unregister s) \<le> nfds s"
proof -
  obtain t c n where r: "compact_loop 0 (trim_last (fds s) (nfds s)) (fds s) (cbs s) = (t, c, n)"
    using prod_cases3 by blast
  have t: "trim_last (fds s) (nfds s) = 0 \<or> events (fds s (trim_last (fds s) (nfds s) - 1)) \<noteq> 0"
    using trim_last_live [of "fds s" "nfds s"] by blast
  have r': "live_upto n t c = live_upto (trim_last (fds s) (nfds s)) (fds s) (cbs s)"
    "\<forall>j<n. events (t j) \<noteq> 0" "n \<le> trim_last (fds s) (nfds s)"
    using compact_loop_correct [OF r t] by auto
  have e: "event_loop_batch_unregister s = \<lparr>fds = t, cbs = c, nfds = n\<rparr>"
    by (simp add: event_loop_batch_unregister_def r)
  show "live_entries (event_loop_batch_unregister s) = live_entries s"
    using r'(1) by (simp add: e live_entries_def live_trim)
  show "i < nfds (event_loop_batch_unregister s) \<Longrightarrow> events (fds (event_loop_batch_unregister s) i) \<noteq> 0"
    using r'(2) by (simp add: e)
  show "nfds (event_loop_batch_unregister s) \<le> nfds s"
    using r'(3) trim_last_le [of "fds s" "nfds s"] by (simp add: e)
qed

lemma batch_unregister_count:
  "nfds (event_loop_batch_unregister s) = size (live_entries s)"
proof -
  have "size (live_entries (event_loop_batch_unregister s)) = nfds (event_loop_batch_unregister s)"
    unfolding live_entries_def using batch_unregister_correct(2) by (intro live_size) blast
  then show ?thesis by (simp add: batch_unregister_correct(1))
qed

section \<open>The registry contract\<close>

lemma register_fd_Inr:
  "event_loop_register_fd A f cb d ev s = Inr s' \<longleftrightarrow> nfds s < MAX_POLL_FD \<and>
     s' = \<lparr>fds = (fds s)(nfds s := \<lparr>fd = f, events = ev, revents = 0\<rparr>),
           cbs = (cbs s)(nfds s := \<lparr>on_event = cb, event_data = d\<rparr>), nfds = nfds s + 1\<rparr>"
  by (auto simp: event_loop_register_fd_def aroop_assert_def)

lemma live_upto_beyond [simp]: "live_upto n (t(n := p)) (c(n := q)) = live_upto n t c"
  by (rule live_upto_cong) (simp add: entry_at_def)

lemma register_fd_live:
  assumes "nfds s < MAX_POLL_FD" and "ev \<noteq> 0"
  shows "\<exists>s'. event_loop_register_fd A f cb d ev s = Inr s' \<and> nfds s' = Suc (nfds s) \<and>
    live_entries s' = add_mset (f, cb, d, ev) (live_entries s)"
proof -
  let ?s = "\<lparr>fds = (fds s)(nfds s := \<lparr>fd = f, events = ev, revents = 0\<rparr>),
    cbs = (cbs s)(nfds s := \<lparr>on_event = cb, event_data = d\<rparr>), nfds = nfds s + 1\<rparr>"
  have "event_loop_register_fd A f cb d ev s = Inr ?s" using assms(1) by (simp add: register_fd_Inr)
  moreover have "live_entries ?s = add_mset (f, cb, d, ev) (live_entries s)"
    using assms(2) by (simp add: live_entries_def) (simp add: entry_at_def)
  moreover have "nfds ?s = Suc (nfds s)" by simp
  ultimately show ?thesis by blast
qed

lemma unregister_loop_result:
  "(unregister_loop f i n t = t \<and> (\<forall>k. i \<le> k \<and> k < i + n \<longrightarrow> fd (t k) \<noteq> f \<or> events (t k) = 0)) \<or>
   (\<exists>k. i \<le> k \<and> k < i + n \<and> fd (t k) = f \<and> events (t k) \<noteq> 0 \<and>
      (\<forall>j. i \<le> j \<and> j < k \<longrightarrow> fd (t j) \<noteq> f \<or> events (t j) = 0) \<and>
      unregister_loop f i n t = t(k := (t k)\<lparr>events := 0\<rparr>))"
proof (induction n arbitrary: i)
  case 0
  show ?case by (rule disjI1) auto
next
  case (Suc n)
  show ?case
  proof (cases "fd (t i) = f \<and> events (t i) \<noteq> 0")
    case True
    then show ?thesis by (intro disjI2 exI [of _ i]) auto
  next
    case False
    then have u: "unregister_loop f i (Suc n) t = unregister_loop f (Suc i) n t" by auto
    have le: "i \<le> j \<longleftrightarrow> j = i \<or> Suc i \<le> j" for j by auto
    from Suc.IH [of "Suc i"] show ?thesis
    proof (elim disjE exE conjE)
      assume a: "unregister_loop f (Suc i) n t = t"
        "\<forall>k. Suc i \<le> k \<and> k < Suc i + n \<longrightarrow> fd (t k) \<noteq> f \<or> events (t k) = 0"
      have "fd (t k) \<noteq> f \<or> events (t k) = 0" if "i \<le> k" "k < i + Suc n" for k
        using a(2) that False le [of k] by (metis add_Suc add_Suc_right)
      with a(1) show ?thesis unfolding u by blast
    next
      fix k
      assume a: "Suc i \<le> k" "k < Suc i + n" "fd (t k) = f" "events (t k) \<noteq> 0"
        "\<forall>j. Suc i \<le> j \<and> j < k \<longrightarrow> fd (t j) \<noteq> f \<or> events (t j) = 0"
        "unregister_loop f (Suc i) n t = t(k := (t k)\<lparr>events := 0\<rparr>)"
      have "fd (t j) \<noteq> f \<or> events (t j) = 0" if "i \<le> j" "j < k" for j
        using a(5) that False le [of j] by metis
      with a show ?thesis unfolding u by (intro disjI2 exI [of _ k]) simp
    qed
  qed
qed

lemma unregister_cases:
  obtains (absent) "event_loop_unregister_fd f s = s"
      "\<forall>k<nfds s. fd (fds s k) \<noteq> f \<or> events (fds s k) = 0"
  | (present) k where "k < nfds s" "fd (fds s k) = f" "events (fds s k) \<noteq> 0"
      "\<forall>j<k. fd (fds s j) \<noteq> f \<or> events (fds s j) = 0"
      "event_loop_unregister_fd f s = s\<lparr>fds := (fds s)(k := (fds s k)\<lparr>events := 0\<rparr>)\<rparr>"
proof -
  have l: "0 \<le> (k::nat)" for k by simp
  show thesis
    using unregister_loop_result [of f 0 "nfds s" "fds s"]
    unfolding add_0 event_loop_unregister_fd_def
    by (elim disjE exE conjE) (use l in \<open>fastforce intro: that simp: event_loop_unregister_fd_def\<close>)+
qed

lemma live_upto_kill:
  assumes "k < n"
  shows "live_upto n t c = live_upto n (t(k := (t k)\<lparr>events := 0\<rparr>)) c + entry_at t c k"
  using live_upto_update [OF assms, of t "(t k)\<lparr>events := 0\<rparr>" c "c k"]
  by (simp add: entry_at_def)

lemma mem_live_upto: "x \<in># live_upto n t c \<longleftrightarrow> (\<exists>k<n. x \<in># entry_at t c k)"
  by (induction n) (auto simp: less_Suc_eq)

lemma mem_live_fd:
  "f \<in> fst ` set_mset (live_entries s) \<longleftrightarrow> (\<exists>k<nfds s. fd (fds s k) = f \<and> events (fds s k) \<noteq> 0)"
  (is "?l = ?r")
proof
  show "?l \<Longrightarrow> ?r" by (auto simp: live_entries_def mem_live_upto entry_at_def split: if_splits)
next
  assume ?r
  then obtain k where k: "k < nfds s" "fd (fds s k) = f" "events (fds s k) \<noteq> 0" by blast
  let ?e = "(f, on_event (cbs s k), event_data (cbs s k), events (fds s k))"
  have "?e \<in># live_entries s"
    unfolding live_entries_def mem_live_upto using k by (intro exI [of _ k]) (simp add: entry_at_def)
  then have "fst ?e \<in> fst ` set_mset (live_entries s)" by (rule imageI)
  then show ?l by simp
qed

lemma unregister_absent_live:
  assumes "f \<notin> fst ` set_mset (live_entries s)"
  shows "event_loop_unregister_fd f s = s"
  using assms
  by (cases rule: unregister_cases [of f s]) (auto simp: mem_live_fd)

lemma unregister_present_live:
  assumes "f \<in> fst ` set_mset (live_entries s)"
  shows "\<exists>e. live_entries s = add_mset (f, e) (live_entries (event_loop_unregister_fd f s))"
proof (cases rule: unregister_cases [of f s])
  case absent
  then show ?thesis using assms by (auto simp: mem_live_fd)
next
  case (present k)
  then have "live_entries s = live_entries (event_loop_unregister_fd f s) + entry_at (fds s) (cbs s) k"
    using live_upto_kill [of k "nfds s" "fds s" "cbs s"]
    by (simp add: live_entries_def)
  then show ?thesis
    using present by (intro exI [of _ "(on_event (cbs s k), event_data (cbs s k), events (fds s k))"])
      (simp add: entry_at_def)
qed

lemma nfds_unregister [simp]: "nfds (event_loop_unregister_fd f s) = nfds s"
  by (simp add: event_loop_unregister_fd_def)

definition register_entry ::
    "aroop \<Rightarrow> int \<Rightarrow> 'c option \<times> 'd \<times> 16 word \<Rightarrow> ('c, 'd) event_loop_data \<Rightarrow> ('c, 'd) event_loop_data exec" where
  "register_entry A f = (\<lambda>(cb, d, ev). event_loop_register_fd A f cb d ev)"

interpretation poll: fd_registry "\<lambda>s. nfds s \<le> MAX_POLL_FD" "\<lambda>s n. nfds s + n \<le> MAX_POLL_FD"
  "\<lambda>f e. snd (snd e) \<noteq> 0" "register_entry A" "\<lambda>f s. Inr (event_loop_unregister_fd f s)"
  event_loop_batch_unregister live_entries event_loop_fd_count
  for A
proof (unfold_locales, goal_cases)
  case (1 s n f e)
  then show ?case
    using register_fd_live [of s "snd (snd e)" A f "fst e" "fst (snd e)"]
    by (cases e) (auto simp: register_entry_def)
next
  case (2 s f e)
  then show ?case by (simp add: unregister_absent_live)
next
  case (3 s f e')
  then show ?case using unregister_present_live [of f s] by auto
next
  case (4 s)
  then show ?case
    using batch_unregister_correct(1,3) [of s] batch_unregister_count [of s]
    by (simp add: event_loop_fd_count_def)
qed

section \<open>Dispatching\<close>

definition ready :: "('c, 'd) event_loop_data \<Rightarrow> nat \<Rightarrow> bool" where
  "ready s i \<longleftrightarrow> events (fds s i) \<noteq> 0 \<and> revents (fds s i) \<noteq> 0"

type_synonym ('c, 'd) call = "'c \<times> int \<times> 16 word \<times> 'd"

definition call_at :: "('c, 'd) event_loop_data \<Rightarrow> nat \<Rightarrow> ('c, 'd) call" where
  "call_at s i = (the (on_event (cbs s i)), fd (fds s i), revents (fds s i), event_data (cbs s i))"

text \<open>What a callback may do to the event loop, as scripts of operations; the world is the log
  of the calls made so far.\<close>

datatype ('c, 'd) loop_op = Register int "'c option" 'd "16 word" | Unregister int

fun run_op :: "aroop \<Rightarrow> ('c, 'd) loop_op \<Rightarrow> ('c, 'd) event_loop_data \<Rightarrow> ('c, 'd) event_loop_data exec" where
  "run_op A (Register f cb d ev) s = event_loop_register_fd A f cb d ev s"
| "run_op A (Unregister f) s = Inr (event_loop_unregister_fd f s)"

fun run_loop_ops :: "aroop \<Rightarrow> ('c, 'd) loop_op list \<Rightarrow> ('c, 'd) event_loop_data \<Rightarrow> ('c, 'd) event_loop_data exec" where
  "run_loop_ops A [] s = Inr s"
| "run_loop_ops A (x # xs) s = ebind (run_op A x s) (run_loop_ops A xs)"

definition scripted ::
    "aroop \<Rightarrow> (('c, 'd) call \<Rightarrow> ('c, 'd) loop_op list) \<Rightarrow> ('c, 'd, ('c, 'd) call list) handler" where
  "scripted A script cb f r d w s =
     ebind (run_loop_ops A (script (cb, f, r, d)) s) (\<lambda>s'. Inr (w @ [(cb, f, r, d)], s'))"

text \<open>Nothing registered under the descriptor \<open>x\<close> is ready.\<close>

definition quiet :: "int \<Rightarrow> ('c, 'd) event_loop_data \<Rightarrow> bool" where
  "quiet x s \<longleftrightarrow> (\<forall>j<nfds s. ready s j \<longrightarrow> fd (fds s j) \<noteq> x)"

text \<open>A ready entry is the first live one of its descriptor.\<close>

definition ready_first :: "('c, 'd) event_loop_data \<Rightarrow> bool" where
  "ready_first s \<longleftrightarrow> (\<forall>j<nfds s. ready s j \<longrightarrow>
     (\<forall>k<j. events (fds s k) \<noteq> 0 \<longrightarrow> fd (fds s k) \<noteq> fd (fds s j)))"

lemma ready_kill [simp]:
  "ready (s\<lparr>fds := (fds s)(k := (fds s k)\<lparr>events := 0\<rparr>)\<rparr>) j \<longleftrightarrow> ready s j \<and> j \<noteq> k"
  by (simp add: ready_def)

lemma fd_kill [simp]: "fd (if j = k then (t k)\<lparr>events := 0\<rparr> else t j) = fd (t j)"
  by simp

lemma event_kill [simp]: "events (if j = k then (t k)\<lparr>events := 0\<rparr> else t j) = (if j = k then 0 else events (t j))"
  by simp

lemma run_op_quiet:
  assumes "run_op A x s = Inr s'" and "quiet f s"
  shows "quiet f s'"
proof (cases x)
  case (Register g cb d ev)
  then show ?thesis using assms by (auto simp: register_fd_Inr quiet_def ready_def)
next
  case (Unregister g)
  then have s': "s' = event_loop_unregister_fd g s" using assms(1) by simp
  show ?thesis
    using assms(2) by (cases rule: unregister_cases [of g s]) (auto simp: s' quiet_def)
qed

lemma run_op_ready_first:
  assumes "run_op A x s = Inr s'" and "ready_first s"
  shows "ready_first s' \<and> (\<forall>f. x = Unregister f \<longrightarrow> quiet f s')"
proof (cases x)
  case (Register g cb d ev)
  then show ?thesis using assms by (auto simp: register_fd_Inr ready_first_def ready_def)
next
  case (Unregister g)
  then have s': "s' = event_loop_unregister_fd g s" using assms(1) by simp
  show ?thesis
  proof (cases rule: unregister_cases [of g s])
    case absent
    then show ?thesis using assms(2) Unregister s' by (auto simp: quiet_def ready_def)
  next
    case (present k)
    have "fd (fds s j) \<noteq> g" if "j < nfds s" "j \<noteq> k" "ready s j" for j
      using that assms(2) present(2-4) unfolding ready_first_def ready_def
      by (metis linorder_neqE_nat)
    then have "quiet g s'" using present(5) s' by (auto simp: quiet_def)
    moreover have "ready_first s'"
      using assms(2) present(5) s' by (auto simp: ready_first_def)
    ultimately show ?thesis using Unregister by simp
  qed
qed

lemma run_loop_ops_quiet: "run_loop_ops A xs s = Inr s' \<Longrightarrow> quiet f s \<Longrightarrow> quiet f s'"
  by (induction xs arbitrary: s) (auto simp: ebind_Inr_iff dest: run_op_quiet)

lemma run_loop_ops_ready_first:
  assumes "run_loop_ops A xs s = Inr s'" and "ready_first s"
  shows "ready_first s' \<and> (\<forall>f. Unregister f \<in> set xs \<longrightarrow> quiet f s')"
  using assms
proof (induction xs arbitrary: s)
  case (Cons x xs)
  obtain s1 where s1: "run_op A x s = Inr s1" "run_loop_ops A xs s1 = Inr s'"
    using Cons.prems by (auto simp: ebind_Inr_iff)
  note r = run_op_ready_first [OF s1(1) Cons.prems(2)]
  then show ?case using Cons.IH [OF s1(2)] run_loop_ops_quiet [OF s1(2)] by auto
qed simp

lemma dispatch_stop: "\<not> (i < nfds s \<and> cnt \<noteq> 0) \<Longrightarrow> dispatch_loop H i cnt w s = Inr (w, s)"
  by (subst dispatch_loop.simps) (rule if_not_P)

lemma dispatch_skip:
  "i < nfds s \<and> cnt \<noteq> 0 \<Longrightarrow> events (fds s i) = 0 \<or> revents (fds s i) = 0 \<Longrightarrow>
     dispatch_loop H i cnt w s = dispatch_loop H (i + 1) cnt w s"
  by (subst dispatch_loop.simps) simp

lemma dispatch_call:
  "i < nfds s \<and> cnt \<noteq> 0 \<Longrightarrow> \<not> (events (fds s i) = 0 \<or> revents (fds s i) = 0) \<Longrightarrow>
     dispatch_loop H i cnt w s =
       (case on_event (cbs s i) of
          None \<Rightarrow> Inl NullDeref
        | Some cb \<Rightarrow>
            (case H cb (fd (fds s i)) (revents (fds s i)) (event_data (cbs s i)) w s of
               Inl e \<Rightarrow> Inl e
             | Inr (w', s') \<Rightarrow> dispatch_loop H (i + 1) (cnt - 1) w' s'))"
  by (subst dispatch_loop.simps) simp

lemma dispatch_quiet:
  assumes "dispatch_loop H i cnt w s = Inr (w', s')" and "H = scripted A script" and "quiet x s"
  shows "\<exists>new. w' = w @ new \<and> x \<notin> (\<lambda>c. fst (snd c)) ` set new"
  using assms
proof (induction H i cnt w s arbitrary: w' s' rule: dispatch_loop.induct)
  case (1 H i cnt w s)
  note run0 = 1(3) and H = 1(4) and inv = 1(5)
  consider (stop) "\<not> (i < nfds s \<and> cnt \<noteq> 0)"
    | (skip) "i < nfds s \<and> cnt \<noteq> 0" "events (fds s i) = 0 \<or> revents (fds s i) = 0"
    | (call) "i < nfds s \<and> cnt \<noteq> 0" "\<not> (events (fds s i) = 0 \<or> revents (fds s i) = 0)" by blast
  then show ?case
  proof cases
    case stop
    then show ?thesis using run0 unfolding dispatch_stop [OF stop] by (intro exI [of _ "[]"]) auto
  next
    case skip
    have "dispatch_loop H (i + 1) cnt w s = Inr (w', s')"
      using run0 unfolding dispatch_skip [OF skip] .
    from 1(1) [OF skip this H inv] show ?thesis .
  next
    case call
    note run = run0 [unfolded dispatch_call [OF call]]
    obtain cb where cb: "on_event (cbs s i) = Some cb"
      using run by (cases "on_event (cbs s i)") simp_all
    let ?c = "(cb, fd (fds s i), revents (fds s i), event_data (cbs s i))"
    obtain s1 where s1: "run_loop_ops A (script ?c) s = Inr s1"
        "dispatch_loop H (i + 1) (cnt - 1) (w @ [?c]) s1 = Inr (w', s')"
      using run by (cases "run_loop_ops A (script ?c) s") (simp_all add: cb H scripted_def)
    have h: "H cb (fd (fds s i)) (revents (fds s i)) (event_data (cbs s i)) w s
        = Inr (w @ [?c], s1)"
      using s1(1) by (simp add: H scripted_def)
    obtain new where "w' = (w @ [?c]) @ new" "x \<notin> (\<lambda>c. fst (snd c)) ` set new"
      using 1(2) [OF call cb h refl s1(2) H run_loop_ops_quiet [OF s1(1) inv]] by blast
    moreover have "fd (fds s i) \<noteq> x" using call inv by (auto simp: quiet_def ready_def)
    ultimately show ?thesis by (intro exI [of _ "?c # new"]) auto
  qed
qed

lemma dispatch_unregistered:
  assumes "dispatch_loop H i cnt w s = Inr (w', s')" and "H = scripted A script" and "ready_first s"
  shows "\<exists>new. w' = w @ new \<and> (\<forall>pre c post x. new = pre @ c # post \<longrightarrow> Unregister x \<in> set (script c) \<longrightarrow>
    x \<notin> (\<lambda>c. fst (snd c)) ` set post)"
  using assms
proof (induction H i cnt w s arbitrary: w' s' rule: dispatch_loop.induct)
  case (1 H i cnt w s)
  note run0 = 1(3) and H = 1(4) and inv = 1(5)
  consider (stop) "\<not> (i < nfds s \<and> cnt \<noteq> 0)"
    | (skip) "i < nfds s \<and> cnt \<noteq> 0" "events (fds s i) = 0 \<or> revents (fds s i) = 0"
    | (call) "i < nfds s \<and> cnt \<noteq> 0" "\<not> (events (fds s i) = 0 \<or> revents (fds s i) = 0)" by blast
  then show ?case
  proof cases
    case stop
    then show ?thesis using run0 unfolding dispatch_stop [OF stop] by (intro exI [of _ "[]"]) auto
  next
    case skip
    have "dispatch_loop H (i + 1) cnt w s = Inr (w', s')"
      using run0 unfolding dispatch_skip [OF skip] .
    from 1(1) [OF skip this H inv] show ?thesis .
  next
    case call
    note run = run0 [unfolded dispatch_call [OF call]]
    obtain cb where cb: "on_event (cbs s i) = Some cb"
      using run by (cases "on_event (cbs s i)") simp_all
    let ?c = "(cb, fd (fds s i), revents (fds s i), event_data (cbs s i))"
    obtain s1 where s1: "run_loop_ops A (script ?c) s = Inr s1"
        "dispatch_loop H (i + 1) (cnt - 1) (w @ [?c]) s1 = Inr (w', s')"
      using run by (cases "run_loop_ops A (script ?c) s") (simp_all add: cb H scripted_def)
    have h: "H cb (fd (fds s i)) (revents (fds s i)) (event_data (cbs s i)) w s
        = Inr (w @ [?c], s1)"
      using s1(1) by (simp add: H scripted_def)
    note rf = run_loop_ops_ready_first [OF s1(1) inv]
    obtain new where new: "w' = (w @ [?c]) @ new"
      "\<forall>pre c post x. new = pre @ c # post \<longrightarrow> Unregister x \<in> set (script c) \<longrightarrow>
         x \<notin> (\<lambda>c. fst (snd c)) ` set post"
      using 1(2) [OF call cb h refl s1(2) H] rf by blast
    have "x \<notin> (\<lambda>c. fst (snd c)) ` set new" if "Unregister x \<in> set (script ?c)" for x
      using dispatch_quiet [OF s1(2) H] rf that new(1) by (metis same_append_eq)
    then have "x \<notin> (\<lambda>c. fst (snd c)) ` set post"
      if "?c # new = pre @ c # post" "Unregister x \<in> set (script c)" for pre c post x
    proof (cases pre)
      case Nil
      then show ?thesis using that \<open>\<And>x. Unregister x \<in> set (script ?c) \<Longrightarrow> x \<notin> (\<lambda>c. fst (snd c)) ` set new\<close>
        by simp
    next
      case (Cons p pre')
      then have "new = pre' @ c # post" using that(1) by simp
      then show ?thesis using new(2) that(2) by blast
    qed
    then show ?thesis using new(1) by (intro exI [of _ "?c # new"]) auto
  qed
qed

text \<open>A callback that only adds entries, as it is seen by the loop.\<close>

definition extends :: "('c, 'd) event_loop_data \<Rightarrow> ('c, 'd) event_loop_data \<Rightarrow> bool" where
  "extends s s' \<longleftrightarrow> nfds s \<le> nfds s' \<and> (\<forall>i<nfds s. fds s' i = fds s i \<and> cbs s' i = cbs s i) \<and>
     (\<forall>i. nfds s \<le> i \<and> i < nfds s' \<longrightarrow> revents (fds s' i) = 0)"

lemma extends_refl: "extends s s"
  by (auto simp: extends_def)

lemma extends_trans: "extends r s \<Longrightarrow> extends s t \<Longrightarrow> extends r t"
proof -
  assume 1: "extends r s" and 2: "extends s t"
  have "revents (fds t i) = 0" if "nfds r \<le> i" "i < nfds t" for i
    using 1 2 that by (cases "i < nfds s") (simp_all add: extends_def)
  then show ?thesis using 1 2 unfolding extends_def by (simp)
qed

lemma extends_live: "extends s s' \<Longrightarrow> live_entries s \<subseteq># live_entries s'"
proof -
  assume e: "extends s s'"
  have "live_upto (nfds s) (fds s) (cbs s) = live_upto (nfds s) (fds s') (cbs s')"
    using e by (intro live_upto_cong) (simp add: extends_def entry_at_def)
  also have "\<dots> \<subseteq># live_upto (nfds s') (fds s') (cbs s')"
  proof -
    have "live_upto m t c \<subseteq># live_upto (m + k) t c" for m k and t :: "nat \<Rightarrow> pollfd" and c :: "nat \<Rightarrow> ('a, 'b) event_callback"
      by (induction k) (auto intro: subset_mset.order_trans)
    then show ?thesis using e unfolding extends_def by (metis le_add_diff_inverse)
  qed
  finally show ?thesis by (simp add: live_entries_def)
qed

lemma dispatch_all:
  assumes H: "\<And>cb f r d w s. \<exists>s'. H cb f r d w s = Inr (w @ [(cb, f, r, d)], s') \<and> extends s s'"
    and "extends s0 s" and "\<forall>j<nfds s0. ready s0 j \<longrightarrow> on_event (cbs s0 j) \<noteq> None"
    and "cnt = of_nat (length (filter (ready s0) [i..<nfds s0]))" and "nfds s0 < 2 ^ 31"
  shows "\<exists>s'. dispatch_loop H i cnt w s = Inr (w @ map (call_at s0) (filter (ready s0) [i..<nfds s0]), s') \<and>
    extends s0 s'"
  using assms(1,2,4)
proof (induction H i cnt w s rule: dispatch_loop.induct)
  case (1 H i cnt w s)
  note G = 1(3) and ext = 1(4) and cnt = 1(5)
  let ?R = "\<lambda>i. filter (ready s0) [i..<nfds s0]"
  have len: "length (?R i) < 2 ^ 31"
    using length_filter_le [of "ready s0" "[i..<nfds s0]"] assms(5) by simp
  have z: "cnt = 0 \<longleftrightarrow> ?R i = []"
    unfolding cnt length_0_conv [symmetric] using len by (simp add: word_unat_eq_iff unat_of_nat)
  have same: "ready s i \<longleftrightarrow> i < nfds s0 \<and> ready s0 i" if "i < nfds s"
    using ext that by (cases "i < nfds s0") (auto simp: extends_def ready_def)
  have rest: "?R i = (if i < nfds s0 \<and> ready s0 i then i # ?R (Suc i) else ?R (Suc i))"
    by (cases "i < nfds s0") (simp_all add: upt_conv_Cons)
  consider (stop) "\<not> (i < nfds s \<and> cnt \<noteq> 0)"
    | (skip) "i < nfds s \<and> cnt \<noteq> 0" "\<not> ready s i"
    | (call) "i < nfds s \<and> cnt \<noteq> 0" "ready s i" by blast
  then show ?case
  proof cases
    case stop
    then have "?R i = []" using z ext by (auto simp: extends_def)
    then show ?thesis using stop ext by (simp add: dispatch_stop [OF stop])
  next
    case skip
    then have e: "?R i = ?R (Suc i)" using same rest by simp
    have nr: "events (fds s i) = 0 \<or> revents (fds s i) = 0" using skip by (simp add: ready_def)
    from 1(1) [OF skip(1) nr G ext] cnt e show ?thesis
      unfolding dispatch_skip [OF skip(1) nr] by simp
  next
    case call
    then have i: "i < nfds s0" "ready s0 i" using same by auto
    have eq: "fds s i = fds s0 i" "cbs s i = cbs s0 i" using ext i(1) by (simp_all add: extends_def)
    obtain cb where cb: "on_event (cbs s i) = Some cb" using assms(3) i eq by auto
    let ?c = "call_at s0 i"
    have c: "?c = (cb, fd (fds s i), revents (fds s i), event_data (cbs s i))"
      using cb eq by (simp add: call_at_def)
    obtain s1 where s1: "H cb (fd (fds s i)) (revents (fds s i)) (event_data (cbs s i)) w s = Inr (w @ [?c], s1)"
        "extends s s1"
      using G c by metis
    have nr: "\<not> (events (fds s i) = 0 \<or> revents (fds s i) = 0)" using call by (simp add: ready_def)
    have "cnt - 1 = of_nat (length (?R (i + 1)))" using cnt rest i by simp
    from 1(2) [OF call(1) nr cb s1(1) refl G extends_trans [OF ext s1(2)] this]
    show ?thesis using rest i unfolding dispatch_call [OF call(1) nr] by (simp add: cb s1(1))
  qed
qed

section \<open>Properties\<close>

lemma poll_writes_simps [simp]:
  "nfds (poll_writes revs s) = nfds s" "cbs (poll_writes revs s) = cbs s"
  "fd (fds (poll_writes revs s) i) = fd (fds s i)" "events (fds (poll_writes revs s) i) = events (fds s i)"
  "live_entries (poll_writes revs s) = live_entries s"
proof -
  show "nfds (poll_writes revs s) = nfds s" "cbs (poll_writes revs s) = cbs s"
    "fd (fds (poll_writes revs s) i) = fd (fds s i)" "events (fds (poll_writes revs s) i) = events (fds s i)" for i
    by (simp_all add: poll_writes_def)
  then show "live_entries (poll_writes revs s) = live_entries s"
    unfolding live_entries_def by (simp only:) (rule live_upto_cong, simp add: entry_at_def)
qed

lemma step_dispatch:
  assumes "event_loop_step A H (cnt, revs) w s = Inr (w', s')"
  shows "\<exists>s1. dispatch_loop H 0 cnt w (poll_writes revs s) = Inr (w', s1)"
proof (cases "nfds s = 0 \<or> cnt = 0")
  case True
  then have st: "\<not> (0 < nfds (poll_writes revs s) \<and> cnt \<noteq> 0)" by simp
  have "w' = w" using True assms by (auto simp: event_loop_step_def Let_def split: if_splits)
  then show ?thesis unfolding dispatch_stop [OF st] by blast
next
  case False
  then have "ebind (aroop_assert A (cnt \<noteq> -1)) (\<lambda>_. event_loop_step_helper H cnt w (poll_writes revs s)) = Inr (w', s')"
    using assms by (simp add: event_loop_step_def)
  then have "event_loop_step_helper H cnt w (poll_writes revs s) = Inr (w', s')"
    by (rule ebind_InrE)
  then show ?thesis
    unfolding event_loop_step_helper_def
    by (rule ebind_InrE) (auto split: prod.splits)
qed

text \<open>(C25) Compacting the table drops exactly the unregistered entries: what is registered stays, each
  entry with its own callback and data, as often as before, the table has no unregistered entry
  left, and its count is the number of registered entries.\<close>

theorem batch_unregister_compacts:
  "live_entries (event_loop_batch_unregister s) = live_entries s \<and>
   event_loop_fd_count (event_loop_batch_unregister s) = size (live_entries s) \<and>
   list_all (\<lambda>i. events (fds (event_loop_batch_unregister s) i) \<noteq> 0) [0..<nfds (event_loop_batch_unregister s)]"
  using batch_unregister_correct(1) [of s] batch_unregister_correct(2) [of _ s] batch_unregister_count [of s]
  by (simp add: event_loop_fd_count_def list_all_iff)

text \<open>(C23) One step of the loop calls back, in table order and exactly once each, the registered
  descriptors that \<open>poll\<close> reported ready, with their own callback, events and data, when the
  callbacks unregister nothing; what was registered stays registered and what the callbacks
  register is not called in the same step.\<close>

theorem step_calls_all_ready:
  assumes "\<And>cb f r d w s. \<exists>s'. H cb f r d w s = Inr (w @ [(cb, f, r, d)], s') \<and> extends s s'"
    and "ready_idx = filter (ready (poll_writes revs s)) [0..<nfds s]"
    and "list_all (\<lambda>i. on_event (cbs s i) \<noteq> None) ready_idx"
    and "nfds s \<le> MAX_POLL_FD"
  shows "\<exists>s'. event_loop_step A H (of_nat (length ready_idx), revs) w s =
      Inr (w @ map (call_at (poll_writes revs s)) ready_idx, s') \<and>
    live_entries s \<subseteq># live_entries s'"
proof (cases "ready_idx = []")
  case True
  then show ?thesis by (simp add: event_loop_step_def Let_def)
next
  case False
  let ?s = "poll_writes revs s"
  have le: "length ready_idx \<le> 20000"
    using length_filter_le [of "ready ?s" "[0..<nfds s]"] assms(2,4) by (simp add: MAX_POLL_FD_def)
  have u: "unat (of_nat (length ready_idx) :: 32 word) = length ready_idx"
    using le by (simp add: unat_of_nat)
  have ne: "(of_nat (length ready_idx) :: 32 word) \<noteq> 0" "(of_nat (length ready_idx) :: 32 word) \<noteq> -1"
  proof -
    show "(of_nat (length ready_idx) :: 32 word) \<noteq> 0" using u False by auto
    show "(of_nat (length ready_idx) :: 32 word) \<noteq> -1"
    proof
      assume "(of_nat (length ready_idx) :: 32 word) = -1"
      then have "unat (of_nat (length ready_idx) :: 32 word) = unat (-1 :: 32 word)" by (rule arg_cong)
      moreover have "uint (-1 :: 32 word) = 4294967295" by code_simp
      then have "unat (-1 :: 32 word) = nat 4294967295" by (simp only: unat_eq_nat_uint)
      ultimately show False unfolding u using le by linarith
    qed
  qed
  have pos: "nfds s \<noteq> 0" using False assms(2) by (cases "nfds s = 0") simp_all
  have h: "\<forall>j<nfds ?s. ready ?s j \<longrightarrow> on_event (cbs ?s j) \<noteq> None"
    using assms(2,3) by (simp add: list_all_iff)
  have c: "of_nat (length ready_idx) = of_nat (length (filter (ready ?s) [0..<nfds ?s]))"
    and b: "nfds ?s < 2 ^ 31"
    using assms(2,4) by (simp_all add: MAX_POLL_FD_def)
  obtain s' where s': "dispatch_loop H 0 (of_nat (length ready_idx)) w ?s =
      Inr (w @ map (call_at ?s) ready_idx, s')" "extends ?s s'"
    using dispatch_all [OF assms(1) extends_refl h c b, of w] by (auto simp: assms(2))
  then have "live_entries s \<subseteq># live_entries (event_loop_batch_unregister s')"
    using extends_live [of ?s s'] by (simp add: batch_unregister_correct)
  then show ?thesis
    using s' ne pos by (simp add: event_loop_step_def event_loop_step_helper_def)
qed

definition two_fds :: "(nat, unit) event_loop_data" where
  "two_fds = \<lparr>fds = (\<lambda>i. \<lparr>fd = 7 + int i, events = POLLIN, revents = 0\<rparr>),
     cbs = (\<lambda>i. \<lparr>on_event = Some i, event_data = ()\<rparr>), nfds = 2\<rparr>"

lemma step_calls_all_ready_witness:
  "\<exists>s'. event_loop_step ref_aroop (\<lambda>cb f r d w s. Inr (w @ [(cb, f, r, d)], s)) (1, \<lambda>i. if i = 1 then 1 else 0) [] two_fds =
     Inr ([(1, 8, 1, ())], s')"
  using step_calls_all_ready [of "\<lambda>cb f r d w s. Inr (w @ [(cb, f, r, d)], s)" "[1]" "\<lambda>i. if i = 1 then 1 else 0"
      two_fds ref_aroop "[]"]
  by (auto simp: two_fds_def extends_refl ready_def poll_writes_def call_at_def POLLIN_def MAX_POLL_FD_def
      numeral_2_eq_2)

text \<open>(C24) Unregistering takes effect at once: when a callback unregisters a descriptor, its own or
  another one, no later callback of the same step is called for it, whatever the callbacks
  register or unregister besides, provided no descriptor was registered twice.\<close>

theorem unregister_stops_callbacks:
  assumes "\<And>i j. i < nfds s \<Longrightarrow> j < nfds s \<Longrightarrow> events (fds s i) \<noteq> 0 \<Longrightarrow> events (fds s j) \<noteq> 0 \<Longrightarrow>
      fd (fds s i) = fd (fds s j) \<Longrightarrow> i = j"
    and "event_loop_step A (scripted A script) polled [] s = Inr (pre @ c # post, s')"
    and "Unregister x \<in> set (script c)"
  shows "x \<notin> (\<lambda>(cb, f, r, d). f) ` set post"
proof -
  obtain cnt revs where p: "polled = (cnt, revs)" by fastforce
  let ?s = "poll_writes revs s"
  have rf: "ready_first ?s"
    unfolding ready_first_def ready_def poll_writes_simps
    using assms(1) by (metis order_less_irrefl order_less_trans)
  obtain s1 where d: "dispatch_loop (scripted A script) 0 cnt [] ?s = Inr (pre @ c # post, s1)"
    using step_dispatch [OF assms(2) [unfolded p]] by blast
  obtain new where n: "pre @ c # post = [] @ new"
    "\<forall>pre c post x. new = pre @ c # post \<longrightarrow> Unregister x \<in> set (script c) \<longrightarrow>
      x \<notin> (\<lambda>c. fst (snd c)) ` set post"
    using dispatch_unregistered [OF d refl rf] by blast
  have "new = pre @ c # post" using n(1) by simp
  from n(2) [rule_format, OF this assms(3)] have "x \<notin> (\<lambda>c. fst (snd c)) ` set post" .
  then show ?thesis by (auto simp: image_iff)
qed

lemma unregister_stops_callbacks_witness:
  "\<exists>s'. event_loop_step ref_aroop (scripted ref_aroop (\<lambda>_. [Unregister 8])) (2, \<lambda>i. 1) [] two_fds =
     Inr ([(0, 7, 1, ())], s') \<and> 8 \<notin> (\<lambda>(cb, f, r, d). f) ` set ([] :: (nat, unit) call list)"
proof -
  let ?r = "event_loop_step ref_aroop (scripted ref_aroop (\<lambda>_. [Unregister 8])) (2, \<lambda>i. 1) [] two_fds"
  have "(case ?r of Inl _ \<Rightarrow> [] | Inr (l, _) \<Rightarrow> l) = [(0, 7, 1, ())]" by code_simp
  then obtain s' where r: "?r = Inr ([] @ (0, 7, 1, ()) # [], s')"
    by (auto split: sum.splits prod.splits)
  have "8 \<notin> (\<lambda>(cb, f, r, d). f) ` set ([] :: (nat, unit) call list)"
    by (rule unregister_stops_callbacks [OF _ r]) (auto simp: two_fds_def)
  with r show ?thesis by simp
qed

text \<open>The built-in self test registers \<open>cnt\<close> fake descriptors from 5000 up, unregisters them and
  compacts: when none of them was in use it leaves exactly what was registered, and it reports
  success exactly when the table had no unregistered entry pending before.\<close>

theorem self_test_neutral:
  assumes "nfds s + cnt \<le> MAX_POLL_FD"
    and "{5000..<5000 + int cnt} \<inter> fst ` set_mset (live_entries s) = {}"
  shows "\<exists>s'. event_loop_test_helper A null cnt s = Inr (nfds s \<noteq> size (live_entries s), s') \<and>
    live_entries s' = live_entries s"
proof -
  let ?fakes = "map (\<lambda>k. 5000 + int k) (rev [0..<cnt])"
  let ?xs = "map (\<lambda>f. (f, None, null, POLLIN)) ?fakes"
  have m: "map fst ?xs = ?fakes" by simp
  have d: "distinct ?fakes" by (simp add: distinct_map inj_on_def)
  have "set ?fakes \<subseteq> {5000..<5000 + int cnt}" by auto
  then have "set ?fakes \<inter> fst ` set_mset (live_entries s) = {}" using assms(2) by blast
  then have dis: "set (map fst ?xs) \<inter> set_mset (image_mset fst (live_entries s)) = {}"
    unfolding m by simp
  have "nfds s + length ?xs \<le> MAX_POLL_FD" "nfds s \<le> MAX_POLL_FD" using assms(1) by simp_all
  moreover have "\<forall>(f, e) \<in> set ?xs. snd (snd e) \<noteq> 0" by (auto simp: POLLIN_def)
  moreover have "distinct (map fst ?xs)" "mset ?fakes = mset (map fst ?xs)" unfolding m using d by simp_all
  ultimately obtain s1 s2 where r: "run_registers (register_entry A) ?xs s = Inr s1"
      "run_unregisters (\<lambda>f s. Inr (event_loop_unregister_fd f s)) ?fakes s1 = Inr s2"
      "live_entries (event_loop_batch_unregister s2) = live_entries s"
      "event_loop_fd_count (event_loop_batch_unregister s2) = size (live_entries s)"
    using poll.register_unregister_neutral [of s ?xs ?fakes A] dis by blast
  have e: "register_entry A = (\<lambda>f (cb, d, ev). event_loop_register_fd A f cb d ev)"
    by (rule ext)+ (simp add: register_entry_def)
  show ?thesis
    using r by (simp add: event_loop_test_helper_def e event_loop_fd_count_def [of s])
qed

lemma self_test_neutral_witness:
  "\<exists>s'. event_loop_test_helper ref_aroop () 1000 two_fds = Inr (False, s') \<and> live_entries s' = live_entries two_fds"
proof -
  have l: "live_entries two_fds = {#(7, Some 0, (), POLLIN), (8, Some 1, (), POLLIN)#}"
    by (simp add: two_fds_def live_entries_def numeral_2_eq_2 entry_at_def POLLIN_def)
  have n: "nfds two_fds = 2" by (simp add: two_fds_def)
  then show ?thesis
    using self_test_neutral [of two_fds 1000 ref_aroop "()"] by (simp add: l n MAX_POLL_FD_def)
qed

end
