(* ===== verification/PartitionedLoop.thy ===== *)
theory PartitionedLoop
  imports EventLoop
begin

text \<open>
  The partitioned event loop, \<open>base/src/event_loop_partitioned_openmp_poll.c\<close>: eight tables, a
  descriptor belonging to the table of its remainder, and a total count that is corrected at the
  end of a step. A partition has the state of the plain loop; its compaction is the same code.
\<close>

section \<open>Code\<close>

definition POLL_PARTITION :: nat where "POLL_PARTITION = 8"

definition MAX_POLL_FD_PER_PARTITION :: nat where
  "MAX_POLL_FD_PER_PARTITION = MAX_POLL_FD div POLL_PARTITION"

record ('c, 'd) part_state =
  edata :: "nat \<Rightarrow> ('c, 'd) event_loop_data"
  grand_nfds :: nat

type_synonym ('c, 'd, 'w) part_handler =
  "'c \<Rightarrow> int \<Rightarrow> 16 word \<Rightarrow> 'd \<Rightarrow> 'w \<Rightarrow> ('c, 'd) part_state \<Rightarrow> ('w \<times> ('c, 'd) part_state) exec"

definition part_fd_count :: "('c, 'd) part_state \<Rightarrow> nat" where
  "part_fd_count s = grand_nfds s"

text \<open>\<open>fd%POLL_PARTITION\<close>: negative, hence outside the array, for a negative non-multiple.\<close>

definition part_of :: "int \<Rightarrow> nat exec" where
  "part_of f = (if f < 0 \<and> f mod 8 \<noteq> 0 then Inl OutOfBounds else Inr (nat (f mod int POLL_PARTITION)))"

definition part_register_fd ::
    "aroop \<Rightarrow> int \<Rightarrow> 'c option \<Rightarrow> 'd \<Rightarrow> 16 word \<Rightarrow> ('c, 'd) part_state \<Rightarrow> ('c, 'd) part_state exec" where
  "part_register_fd A f cb d requested_events s =
     ebind (aroop_assert A (part_fd_count s < MAX_POLL_FD)) (\<lambda>_.
     ebind (part_of f) (\<lambda>part.
     let pt = edata s part; index = nfds pt
     in if index < MAX_POLL_FD_PER_PARTITION then
          let pt' = \<lparr>fds = (fds pt)(index := \<lparr>fd = f, events = requested_events, revents = 0\<rparr>),
                     cbs = (cbs pt)(index := \<lparr>on_event = cb, event_data = d\<rparr>),
                     nfds = nfds pt + 1\<rparr>
          in Inr \<lparr>edata = (edata s)(part := pt'), grand_nfds = grand_nfds s + 1\<rparr>
        else Inl OutOfBounds))"

definition part_unregister_fd :: "int \<Rightarrow> ('c, 'd) part_state \<Rightarrow> ('c, 'd) part_state exec" where
  "part_unregister_fd f s =
     ebind (part_of f) (\<lambda>part.
     let pt = edata s part
     in Inr (s\<lparr>edata := (edata s)(part := pt\<lparr>fds := unregister_loop f 0 (nfds pt) (fds pt)\<rparr>)\<rparr>))"

text \<open>The body of this function is the one of the plain event loop, on the partition's arrays.\<close>

definition part_batch_unregister :: "('c, 'd) event_loop_data \<Rightarrow> ('c, 'd) event_loop_data" where
  "part_batch_unregister pt =
     (case compact_loop 0 (trim_last (fds pt) (nfds pt)) (fds pt) (cbs pt) of
        (t, c, n) \<Rightarrow> \<lparr>fds = t, cbs = c, nfds = n\<rparr>)"

function part_step_helper ::
    "('c, 'd, 'w) part_handler \<Rightarrow> nat \<Rightarrow> nat \<Rightarrow> 32 word \<Rightarrow> 'w \<Rightarrow> ('c, 'd) part_state \<Rightarrow>
     ('w \<times> ('c, 'd) part_state) exec" where
  "part_step_helper H part i ecount w s =
     (let pt = edata s part
      in if i < nfds pt \<and> ecount \<noteq> 0 then
           if events (fds pt i) = 0 \<or> revents (fds pt i) = 0 then part_step_helper H part (i + 1) ecount w s
           else (case on_event (cbs pt i) of
                   None \<Rightarrow> Inl NullDeref
                 | Some cb \<Rightarrow>
                     (case H cb (fd (fds pt i)) (revents (fds pt i)) (event_data (cbs pt i)) w s of
                        Inl e \<Rightarrow> Inl e
                      | Inr (w', s') \<Rightarrow> part_step_helper H part (i + 1) (ecount - 1) w' s'))
         else Inr (w, s))"
  by pat_completeness auto
termination
proof (relation "measures [\<lambda>(H, part, i, c, w, s). unat c, \<lambda>(H, part, i, c, w, s). nfds (edata s part) - i]",
    goal_cases)
  case (3 H part i c w s pt x2 b w' s')
  then show ?case by (simp add: unat_minus_one unat_gt_0)
qed auto

declare part_step_helper.simps [simp del]

definition grand_total :: "(nat \<Rightarrow> ('c, 'd) event_loop_data) \<Rightarrow> nat" where
  "grand_total e = sum_list (map (\<lambda>part. nfds (e part)) [0..<POLL_PARTITION])"

text \<open>The loop over the partitions; the list holds what \<open>poll\<close> returns for each.\<close>

fun part_step_loop ::
    "aroop \<Rightarrow> ('c, 'd, 'w) part_handler \<Rightarrow> (nat \<times> 32 word \<times> (nat \<Rightarrow> 16 word)) list \<Rightarrow> 'w \<Rightarrow>
     ('c, 'd) part_state \<Rightarrow> ('w \<times> ('c, 'd) part_state) exec" where
  "part_step_loop A H [] w s = Inr (w, s)"
| "part_step_loop A H ((part, ecount, revs) # rest) w s =
     (if nfds (edata s part) = 0 then part_step_loop A H rest w s
      else
        let s1 = s\<lparr>edata := (edata s)(part := poll_writes revs (edata s part))\<rparr>
        in if ecount = 0 then part_step_loop A H rest w s1
           else ebind (aroop_assert A (ecount \<noteq> -1)) (\<lambda>_.
                ebind (part_step_helper H part 0 ecount w s1) (\<lambda>(w2, s2).
                let s3 = s2\<lparr>edata := (edata s2)(part := part_batch_unregister (edata s2 part))\<rparr>
                in part_step_loop A H rest w2 s3)))"

definition part_step ::
    "aroop \<Rightarrow> ('c, 'd, 'w) part_handler \<Rightarrow> (nat \<Rightarrow> 32 word \<times> (nat \<Rightarrow> 16 word)) \<Rightarrow> 'w \<Rightarrow>
     ('c, 'd) part_state \<Rightarrow> ('w \<times> ('c, 'd) part_state) exec" where
  "part_step A H polled w s =
     (if part_fd_count s = 0 then Inr (w, s)
      else ebind (part_step_loop A H (map (\<lambda>part. (part, polled part)) [0..<POLL_PARTITION]) w s)
             (\<lambda>(w', s'). Inr (w', s'\<lparr>grand_nfds := grand_total (edata s')\<rparr>)))"

definition part_test_exists_fd :: "int \<Rightarrow> ('c, 'd) part_state \<Rightarrow> bool exec" where
  "part_test_exists_fd f s =
     ebind (part_of f) (\<lambda>part.
     let pt = edata s part
     in Inr (list_ex (\<lambda>i. events (fds pt i) \<noteq> 0 \<and> fd (fds pt i) = f) [0..<nfds pt]))"

text \<open>\<open>event_loop_module_init\<close> empties the tables; what it registers elsewhere is not shown here.\<close>

definition part_module_init :: "('c, 'd) part_state \<Rightarrow> ('c, 'd) part_state" where
  "part_module_init s =
     \<lparr>edata = (\<lambda>i. if i < POLL_PARTITION then (edata s i)\<lparr>nfds := 0\<rparr> else edata s i), grand_nfds = 0\<rparr>"

text \<open>Compacting every partition and correcting the total, as the self test does.\<close>

definition part_compact :: "('c, 'd) part_state \<Rightarrow> ('c, 'd) part_state" where
  "part_compact s =
     (let e = (\<lambda>part. if part < POLL_PARTITION then part_batch_unregister (edata s part) else edata s part)
      in \<lparr>edata = e, grand_nfds = grand_total e\<rparr>)"

section \<open>The registry contract\<close>

definition part_live :: "('c, 'd) part_state \<Rightarrow> ('c, 'd) entry multiset" where
  "part_live s = (\<Sum>p<POLL_PARTITION. live_entries (edata s p))"

definition part_inv :: "('c, 'd) part_state \<Rightarrow> bool" where
  "part_inv s \<longleftrightarrow> (\<forall>p<POLL_PARTITION. \<forall>e \<in># live_entries (edata s p). fst e mod 8 = int p)"

definition part_room :: "('c, 'd) part_state \<Rightarrow> nat \<Rightarrow> bool" where
  "part_room s n \<longleftrightarrow> grand_nfds s + n \<le> MAX_POLL_FD \<and>
     (\<forall>p<POLL_PARTITION. nfds (edata s p) + n \<le> MAX_POLL_FD_PER_PARTITION)"

definition part_valid :: "int \<Rightarrow> 'c option \<times> 'd \<times> 16 word \<Rightarrow> bool" where
  "part_valid f e \<longleftrightarrow> 0 \<le> f \<and> snd (snd e) \<noteq> 0"

definition part_register_entry ::
    "aroop \<Rightarrow> int \<Rightarrow> 'c option \<times> 'd \<times> 16 word \<Rightarrow> ('c, 'd) part_state \<Rightarrow> ('c, 'd) part_state exec" where
  "part_register_entry A f = (\<lambda>(cb, d, ev). part_register_fd A f cb d ev)"

lemma part_register_entry_app: "part_register_entry A f (cb, d, ev) = part_register_fd A f cb d ev"
  by (simp add: part_register_entry_def)

lemma part_of_nonneg: "0 \<le> f \<Longrightarrow> part_of f = Inr (nat (f mod 8)) \<and> nat (f mod 8) < POLL_PARTITION"
  by (simp add: part_of_def POLL_PARTITION_def)

lemma part_batch_eq: "part_batch_unregister = event_loop_batch_unregister"
  by (rule ext) (simp add: part_batch_unregister_def event_loop_batch_unregister_def)

lemma part_live_remove:
  "p < POLL_PARTITION \<Longrightarrow>
     part_live s = live_entries (edata s p) + (\<Sum>q \<in> {..<POLL_PARTITION} - {p}. live_entries (edata s q))"
  unfolding part_live_def by (rule sum.remove) auto

lemma part_live_update:
  assumes "p < POLL_PARTITION"
  shows "part_live \<lparr>edata = (edata s)(p := d), grand_nfds = g\<rparr> + live_entries (edata s p) =
    part_live s + live_entries d"
  using part_live_remove [OF assms, of s] part_live_remove [OF assms, of "\<lparr>edata = (edata s)(p := d), grand_nfds = g\<rparr>"]
  by simp

lemma part_fd_home:
  assumes "part_inv s" and "0 \<le> f"
  shows "f \<in> fst ` set_mset (part_live s) \<longleftrightarrow> f \<in> fst ` set_mset (live_entries (edata s (nat (f mod 8))))"
proof -
  have *: "f mod 8 = int p \<longleftrightarrow> p = nat (f mod 8)" for p using assms(2) by auto
  have "nat (f mod 8) < POLL_PARTITION" by (simp add: POLL_PARTITION_def)
  then show ?thesis
    using assms(1) * unfolding part_inv_def part_live_def by (auto simp: set_mset_sum) force+
qed

lemma part_register_live:
  assumes "part_inv s" "part_room s (Suc n)" "0 \<le> f" "ev \<noteq> 0"
  shows "\<exists>s'. part_register_fd A f cb d ev s = Inr s' \<and> part_inv s' \<and> part_room s' n \<and>
    part_live s' = add_mset (f, cb, d, ev) (part_live s)"
proof -
  let ?p = "nat (f mod 8)"
  let ?pt = "edata s ?p"
  let ?d = "\<lparr>fds = (fds ?pt)(nfds ?pt := \<lparr>fd = f, events = ev, revents = 0\<rparr>),
    cbs = (cbs ?pt)(nfds ?pt := \<lparr>on_event = cb, event_data = d\<rparr>), nfds = nfds ?pt + 1\<rparr>"
  let ?s = "\<lparr>edata = (edata s)(?p := ?d), grand_nfds = grand_nfds s + 1\<rparr>"
  note p = part_of_nonneg [OF assms(3)]
  have l: "live_entries ?d = add_mset (f, cb, d, ev) (live_entries ?pt)"
    using assms(4) by (simp add: live_entries_def) (simp add: entry_at_def)
  have "Suc (grand_nfds s + n) \<le> MAX_POLL_FD" "Suc (nfds ?pt + n) \<le> MAX_POLL_FD_PER_PARTITION"
    using assms(2) p unfolding part_room_def by auto
  then have r: "part_register_fd A f cb d ev s = Inr ?s"
    using p by (simp add: part_register_fd_def part_fd_count_def Let_def)
  have "part_inv ?s" using assms(1,3) l by (auto simp: part_inv_def)
  moreover have "part_room ?s n" using assms(2) by (auto simp: part_room_def)
  moreover have "part_live ?s = add_mset (f, cb, d, ev) (part_live s)"
    using part_live_update [of ?p s ?d "grand_nfds s + 1"] p l by simp
  ultimately show ?thesis using r by blast
qed

lemma part_unregister_eq:
  assumes "0 \<le> f"
  shows "part_unregister_fd f s =
    Inr \<lparr>edata = (edata s)(nat (f mod 8) := event_loop_unregister_fd f (edata s (nat (f mod 8)))), grand_nfds = grand_nfds s\<rparr>"
  using part_of_nonneg [OF assms] by (simp add: part_unregister_fd_def event_loop_unregister_fd_def Let_def)

lemma part_compact_live:
  "part_live (part_compact s) = part_live s"
  "part_inv s \<Longrightarrow> part_inv (part_compact s)"
  "grand_nfds (part_compact s) = size (part_live s)"
proof -
  have e: "part < POLL_PARTITION \<Longrightarrow> live_entries (edata (part_compact s) part) = live_entries (edata s part)" for part
    by (simp add: part_compact_def Let_def part_batch_eq batch_unregister_correct)
  then show "part_live (part_compact s) = part_live s" by (simp add: part_live_def)
  show "part_inv s \<Longrightarrow> part_inv (part_compact s)" using e by (simp add: part_inv_def)
  have "grand_nfds (part_compact s) = (\<Sum>p<POLL_PARTITION. size (live_entries (edata s p)))"
    by (simp add: part_compact_def Let_def grand_total_def interv_sum_list_conv_sum_set_nat atLeast0LessThan
        part_batch_eq batch_unregister_count)
  then show "grand_nfds (part_compact s) = size (part_live s)" by (simp add: part_live_def size_multiset_sum)
qed


interpretation part: fd_registry part_inv part_room part_valid "part_register_entry A"
  part_unregister_fd part_compact part_live part_fd_count
  for A
proof (unfold_locales, goal_cases)
  case (1 s n f e)
  then show ?case
    using part_register_live [of s n f "snd (snd e)" A "fst e" "fst (snd e)"]
    by (cases e) (simp add: part_register_entry_def part_valid_def)
next
  case (2 s f e)
  then have f: "0 \<le> f" by (simp add: part_valid_def)
  let ?p = "nat (f mod 8)"
  have "event_loop_unregister_fd f (edata s ?p) = edata s ?p"
    using 2 part_fd_home [OF 2(1) f] by (intro unregister_absent_live) simp
  then show ?case using 2(1) by (cases s) (simp add: part_unregister_eq [OF f])
next
  case (3 s f e')
  then have f: "0 \<le> f" by (simp add: part_valid_def)
  let ?p = "nat (f mod 8)"
  let ?d = "event_loop_unregister_fd f (edata s ?p)"
  let ?s = "\<lparr>edata = (edata s)(?p := ?d), grand_nfds = grand_nfds s\<rparr>"
  obtain e where e: "live_entries (edata s ?p) = add_mset (f, e) (live_entries ?d)"
    using unregister_present_live 3(3) part_fd_home [OF 3(1) f] by force
  have "part_inv ?s" using 3(1) e by (auto simp: part_inv_def)
  moreover have "part_live s = add_mset (f, e) (part_live ?s)"
    using part_live_update [of ?p s ?d "grand_nfds s"] part_of_nonneg [OF f] e by simp
  ultimately show ?case by (cases e) (auto simp: part_unregister_eq [OF f])
next
  case (4 s)
  then show ?case using part_compact_live [of s] by (simp add: part_fd_count_def)
qed

section \<open>Properties\<close>

text \<open>The partitioned registry behaves as one registry: registering fresh descriptors, at most as
  many as every partition has room for, unregistering them in any order and compacting all
  partitions leaves exactly the registrations that were there, with an exact total count.\<close>

theorem partitions_neutral:
  assumes "part_inv s" and "part_room s (length xs)" and "\<forall>(f, e) \<in> set xs. part_valid f e"
    and "distinct (map fst xs)" and "set (map fst xs) \<inter> fst ` set_mset (part_live s) = {}"
    and "mset ys = mset (map fst xs)"
  shows "\<exists>s1 s2. run_registers (part_register_entry A) xs s = Inr s1 \<and>
    run_unregisters part_unregister_fd ys s1 = Inr s2 \<and>
    part_live (part_compact s2) = part_live s \<and> part_fd_count (part_compact s2) = size (part_live s)"
  using part.register_unregister_neutral [OF assms(1-4) _ assms(6), of A] assms(5) by simp

definition part_empty :: "(nat, unit) part_state" where
  "part_empty = \<lparr>edata = (\<lambda>_. two_fds\<lparr>nfds := 0\<rparr>), grand_nfds = 0\<rparr>"

lemma part_empty_simps:
  "part_live part_empty = {#}" "part_inv part_empty" "n \<le> 2500 \<Longrightarrow> part_room part_empty n"
  by (simp_all add: part_empty_def part_live_def part_inv_def part_room_def live_entries_def
      MAX_POLL_FD_def MAX_POLL_FD_PER_PARTITION_def POLL_PARTITION_def)

lemma partitions_neutral_witness:
  "\<exists>s1 s2. run_registers (part_register_entry ref_aroop) [(9, Some 0, (), POLLIN), (17, Some 1, (), POLLIN)] part_empty = Inr s1 \<and>
    run_unregisters part_unregister_fd [17, 9] s1 = Inr s2 \<and> part_live (part_compact s2) = {#}"
  using partitions_neutral [of part_empty "[(9, Some 0, (), POLLIN), (17, Some 1, (), POLLIN)]" "[17, 9]" ref_aroop]
  by (auto simp: part_empty_simps part_valid_def POLLIN_def)

lemma part_fill:
  assumes "run_registers (part_register_entry A) xs s = Inr s'" and "\<forall>(f, e) \<in> set xs. 0 \<le> f \<and> f mod 8 = int r"
  shows "nfds (edata s' r) = nfds (edata s r) + length xs \<and> grand_nfds s' = grand_nfds s + length xs"
  using assms
proof (induction xs arbitrary: s)
  case (Cons x xs)
  obtain f cb d ev where x: "x = (f, cb, d, ev)" by (cases x)
  obtain s1 where s1: "part_register_fd A f cb d ev s = Inr s1" "run_registers (part_register_entry A) xs s1 = Inr s'"
    using Cons.prems(1) unfolding x run_registers.simps part_register_entry_app by (rule ebind_InrE)
  have "part_of f = Inr r" using Cons.prems(2) part_of_nonneg [of f] by (simp add: x)
  then have "nfds (edata s1 r) = Suc (nfds (edata s r)) \<and> grand_nfds s1 = Suc (grand_nfds s)"
    using s1(1) by (auto simp: part_register_fd_def ebind_Inr_iff Let_def aroop_assert_def split: if_splits)
  then show ?case using Cons.IH [OF s1(2)] Cons.prems(2) by simp
qed simp

text \<open>The room check of the partitioned loop looks at the total only: once 2500 descriptors of one
  remainder are registered, one more of that remainder is written behind the end of its
  partition's array, although the table as a whole is far from full.\<close>

theorem partition_overflow:
  assumes "grand_nfds s0 = 0" and "nfds (edata s0 r) = 0" and "length xs = 2500"
    and "\<forall>(f, e) \<in> set xs. 0 \<le> f \<and> f mod 8 = int r" and "0 \<le> f" and "f mod 8 = int r"
    and "run_registers (part_register_entry A) xs s0 = Inr s"
  shows "part_register_fd A f cb d ev s = Inl OutOfBounds \<and> grand_nfds s + 17500 = MAX_POLL_FD"
proof -
  have "nfds (edata s r) = 2500 \<and> grand_nfds s = 2500"
    using part_fill [OF assms(7,4)] assms(1-3) by simp
  moreover have "part_of f = Inr r" using part_of_nonneg [OF assms(5)] assms(6) by simp
  ultimately show ?thesis
    by (simp add: part_register_fd_def part_fd_count_def MAX_POLL_FD_def MAX_POLL_FD_PER_PARTITION_def
        POLL_PARTITION_def)
qed

lemma partition_overflow_witness:
  "\<exists>s. run_registers (part_register_entry ref_aroop) (map (\<lambda>k. (8 * int k, Some 0, (), POLLIN)) [0..<2500]) part_empty = Inr s \<and>
     part_register_fd ref_aroop 20000 (Some 0) () POLLIN s = Inl OutOfBounds"
proof -
  let ?xs = "map (\<lambda>k. (8 * int k, Some (0 :: nat), (), POLLIN)) [0..<2500]"
  have v: "\<forall>(f, e) \<in> set ?xs. part_valid f e" "\<forall>(f, e) \<in> set ?xs. 0 \<le> f \<and> f mod 8 = int 0"
    and l: "length ?xs = 2500"
    by (auto simp: part_valid_def POLLIN_def)
  have "part_room part_empty (length ?xs)" unfolding l by (rule part_empty_simps) simp
  then obtain s where s: "run_registers (part_register_entry ref_aroop) ?xs part_empty = Inr s"
    using part.registers_live [OF part_empty_simps(2) _ v(1)] by blast
  have z: "grand_nfds part_empty = 0" "nfds (edata part_empty 0) = 0" by (simp_all add: part_empty_def)
  have "part_register_fd ref_aroop 20000 (Some 0) () POLLIN s = Inl OutOfBounds"
    using partition_overflow [OF z l v(2) _ _ s, of 20000] by simp
  with s show ?thesis by blast
qed

end
