(* ===== verification/Fiber.thy ===== *)
theory Fiber
  imports Aroop
begin

text \<open>
  Cooperative fibers, \<open>base/src/fiber.c\<close>: a static table of \<open>MAX_FIBERS\<close> slots, run in rotation. A
  fiber is a function pointer, run by the parameter \<open>R\<close> with its status on the world and the
  table, which it may change (it may register, unregister or quit); the result is its return
  value with both. \<open>fiber_module_run\<close> loops until a fiber quits, so it is a partial function.
\<close>

section \<open>Code\<close>

definition MAX_FIBERS :: nat where "MAX_FIBERS = 16"

datatype fiber_status =
  FIBER_STATUS_EMPTY | FIBER_STATUS_CREATED | FIBER_STATUS_ACTIVATED
| FIBER_STATUS_DEACTIVATED | FIBER_STATUS_DESTROYED

record 'c internal_fiber =
  status :: fiber_status
  fiber :: "'c option"
  filename :: string
  lineno :: nat

record 'c fiber_table =
  fibers :: "nat \<Rightarrow> 'c internal_fiber"
  internal_quit :: bool

type_synonym ('c, 'w) fiber_runner =
  "'c \<Rightarrow> fiber_status \<Rightarrow> 'w \<Rightarrow> 'c fiber_table \<Rightarrow> (int \<times> 'w \<times> 'c fiber_table) exec"

fun register_fiber_loop ::
    "aroop \<Rightarrow> 'c \<Rightarrow> string \<Rightarrow> nat \<Rightarrow> nat \<Rightarrow> nat \<Rightarrow> 'c fiber_table \<Rightarrow> (int \<times> 'c fiber_table) exec" where
  "register_fiber_loop A f file line i 0 s = ebind (aroop_assert A False) (\<lambda>_. Inr (-1, s))"
| "register_fiber_loop A f file line i (Suc left) s =
     (if status (fibers s i) \<noteq> FIBER_STATUS_EMPTY then register_fiber_loop A f file line (i + 1) left s
      else Inr (0, s\<lparr>fibers := (fibers s)(i :=
             \<lparr>status = FIBER_STATUS_CREATED, fiber = Some f, filename = file, lineno = line\<rparr>)\<rparr>))"

definition register_fiber_full ::
    "aroop \<Rightarrow> 'c \<Rightarrow> string \<Rightarrow> nat \<Rightarrow> 'c fiber_table \<Rightarrow> (int \<times> 'c fiber_table) exec" where
  "register_fiber_full A f file line s = register_fiber_loop A f file line 0 MAX_FIBERS s"

text \<open>\<open>f\<close> is the argument, which a caller may pass as null; a matching null slot is then called.\<close>

fun unregister_fiber_loop ::
    "('c, 'w) fiber_runner \<Rightarrow> 'c option \<Rightarrow> nat \<Rightarrow> nat \<Rightarrow> 'w \<Rightarrow> 'c fiber_table \<Rightarrow>
     (int \<times> 'w \<times> 'c fiber_table) exec" where
  "unregister_fiber_loop R f i 0 w s = Inr (-1, w, s)"
| "unregister_fiber_loop R f i (Suc left) w s =
     (if fiber (fibers s i) \<noteq> f then unregister_fiber_loop R f (i + 1) left w s
      else (case f of
              None \<Rightarrow> Inl NullDeref
            | Some g \<Rightarrow> ebind (R g FIBER_STATUS_DESTROYED w s) (\<lambda>(_, w', s').
                Inr (0, w', s'\<lparr>fibers := (fibers s')(i :=
                       (fibers s' i)\<lparr>status := FIBER_STATUS_EMPTY, fiber := None\<rparr>)\<rparr>))))"

definition unregister_fiber ::
    "('c, 'w) fiber_runner \<Rightarrow> 'c option \<Rightarrow> 'w \<Rightarrow> 'c fiber_table \<Rightarrow> (int \<times> 'w \<times> 'c fiber_table) exec" where
  "unregister_fiber R f w s = unregister_fiber_loop R f 0 MAX_FIBERS w s"

definition fiber_active_count :: "'c fiber_table \<Rightarrow> nat" where
  "fiber_active_count s =
     length (filter (\<lambda>i. status (fibers s i) = FIBER_STATUS_ACTIVATED) [0..<MAX_FIBERS])"

text \<open>\<open>fiber_status_command\<close>; the numeral is formatted into a text of its own here and appended.\<close>

definition fiber_status_command :: "aroop \<Rightarrow> 'c fiber_table \<Rightarrow> int \<times> aroop_txt_t" where
  "fiber_status_command A s =
     (let output = aroop_txt_buffer A 32
      in (0, aroop_txt_concat_string A (aroop_txt_printf_d A output (int (fiber_active_count s)))
               (lit '' fibers'' @ [10])))"

definition fiber_quit :: "'c fiber_table \<Rightarrow> int \<times> 'c fiber_table" where
  "fiber_quit s = (0, s\<lparr>internal_quit := True\<rparr>)"

text \<open>\<open>memset\<close> of the table to zero bytes.\<close>

definition fiber_module_init :: "'c fiber_table \<Rightarrow> 'c fiber_table" where
  "fiber_module_init s = s\<lparr>fibers := \<lambda>_.
     \<lparr>status = FIBER_STATUS_EMPTY, fiber = None, filename = '''', lineno = 0\<rparr>\<rparr>"

definition set_status :: "nat \<Rightarrow> fiber_status \<Rightarrow> 'c fiber_table \<Rightarrow> 'c fiber_table" where
  "set_status i st s = s\<lparr>fibers := (fibers s)(i := (fibers s i)\<lparr>status := st\<rparr>)\<rparr>"

text \<open>The body of the loop of \<open>fiber_module_step\<close> for slot \<open>i\<close>.\<close>

definition fiber_step_slot ::
    "('c, 'w) fiber_runner \<Rightarrow> nat \<Rightarrow> 'w \<Rightarrow> 'c fiber_table \<Rightarrow> ('w \<times> 'c fiber_table) exec" where
  "fiber_step_slot R i w s =
     (let st = status (fibers s i)
      in if st = FIBER_STATUS_EMPTY \<or> st = FIBER_STATUS_DEACTIVATED \<or> st = FIBER_STATUS_DESTROYED
         then Inr (w, s)
         else (case fiber (fibers s i) of
                 None \<Rightarrow> Inl NullDeref
               | Some f \<Rightarrow>
                   ebind (R f st w s) (\<lambda>(ret, w1, s1).
                   ebind (if ret = -1 then
                            ebind (unregister_fiber R (fiber (fibers s1 i)) w1 s1) (\<lambda>(_, w2, s2). Inr (w2, s2))
                          else if ret = -2 then Inr (w1, set_status i FIBER_STATUS_DEACTIVATED s1)
                          else Inr (w1, s1)) (\<lambda>(w2, s2).
                   Inr (w2, if status (fibers s2 i) = FIBER_STATUS_CREATED
                            then set_status i FIBER_STATUS_ACTIVATED s2 else s2)))))"

fun fiber_step_loop ::
    "('c, 'w) fiber_runner \<Rightarrow> nat list \<Rightarrow> 'w \<Rightarrow> 'c fiber_table \<Rightarrow> ('w \<times> 'c fiber_table) exec" where
  "fiber_step_loop R [] w s = Inr (w, s)"
| "fiber_step_loop R (i # is) w s = ebind (fiber_step_slot R i w s) (\<lambda>(w', s'). fiber_step_loop R is w' s')"

definition fiber_module_step ::
    "('c, 'w) fiber_runner \<Rightarrow> 'w \<Rightarrow> 'c fiber_table \<Rightarrow> ('w \<times> 'c fiber_table) exec" where
  "fiber_module_step R w s = fiber_step_loop R [0..<MAX_FIBERS] w s"

partial_function (option) fiber_module_run ::
    "('c, 'w) fiber_runner \<Rightarrow> 'w \<Rightarrow> 'c fiber_table \<Rightarrow> ('w \<times> 'c fiber_table) exec option" where
  "fiber_module_run R w s =
     (if internal_quit s then Some (Inr (w, s))
      else (case fiber_module_step R w s of
              Inl e \<Rightarrow> Some (Inl e)
            | Inr (w', s') \<Rightarrow> fiber_module_run R w' s'))"

section \<open>Registering and unregistering\<close>

definition free_slot :: "'c fiber_table \<Rightarrow> nat \<Rightarrow> bool" where
  "free_slot s i \<longleftrightarrow> status (fibers s i) = FIBER_STATUS_EMPTY"

lemma register_loop_first:
  assumes "free_slot s k" and "\<forall>j. i \<le> j \<and> j < k \<longrightarrow> \<not> free_slot s j" and "i \<le> k" and "k < i + n"
  shows "register_fiber_loop A f file line i n s =
    Inr (0, s\<lparr>fibers := (fibers s)(k :=
      \<lparr>status = FIBER_STATUS_CREATED, fiber = Some f, filename = file, lineno = line\<rparr>)\<rparr>)"
  using assms(2-)
proof (induction n arbitrary: i)
  case (Suc n)
  show ?case
  proof (cases "i = k")
    case True
    then show ?thesis using assms(1) by (simp add: free_slot_def fun_upd_def)
  next
    case False
    then show ?thesis using Suc.IH [of "Suc i"] Suc.prems by (simp add: free_slot_def)
  qed
qed simp

lemma register_loop_full:
  assumes "\<forall>j. i \<le> j \<and> j < i + n \<longrightarrow> \<not> free_slot s j"
  shows "register_fiber_loop A f file line i n s = ebind (aroop_assert A False) (\<lambda>_. Inr (-1, s))"
  using assms by (induction n arbitrary: i) (simp_all add: free_slot_def)

lemma register_find:
  "List.find (free_slot s) [0..<MAX_FIBERS] = Some k \<Longrightarrow> register_fiber_full A f file line s =
     Inr (0, s\<lparr>fibers := (fibers s)(k :=
       \<lparr>status = FIBER_STATUS_CREATED, fiber = Some f, filename = file, lineno = line\<rparr>)\<rparr>)"
  unfolding register_fiber_full_def by (rule register_loop_first) (auto simp: find_Some_iff)

lemma register_free:
  assumes "i < MAX_FIBERS" and "free_slot s i"
  shows "\<exists>k s'. free_slot s k \<and> register_fiber_full A f file line s = Inr (0, s') \<and>
    fibers s' = (fibers s)(k := \<lparr>status = FIBER_STATUS_CREATED, fiber = Some f, filename = file, lineno = line\<rparr>)"
proof (cases "List.find (free_slot s) [0..<MAX_FIBERS]")
  case None
  then show ?thesis using assms by (simp add: find_None_iff)
next
  case (Some k)
  then have "free_slot s k" by (auto simp: find_Some_iff)
  then show ?thesis using register_find [OF Some] by auto
qed

lemma unregister_loop_first:
  assumes "fiber (fibers s k) = Some f" and "\<forall>j. i \<le> j \<and> j < k \<longrightarrow> fiber (fibers s j) \<noteq> Some f"
    and "i \<le> k" and "k < i + n"
  shows "unregister_fiber_loop R (Some f) i n w s =
    ebind (R f FIBER_STATUS_DESTROYED w s) (\<lambda>(_, w', s').
      Inr (0, w', s'\<lparr>fibers := (fibers s')(k := (fibers s' k)\<lparr>status := FIBER_STATUS_EMPTY, fiber := None\<rparr>)\<rparr>))"
  using assms(2-)
proof (induction n arbitrary: i)
  case (Suc n)
  show ?case
  proof (cases "i = k")
    case True
    then show ?thesis using assms(1) by (simp add: fun_upd_def)
  next
    case False
    then show ?thesis using Suc.IH [of "Suc i"] Suc.prems by simp
  qed
qed simp

section \<open>One rotation\<close>

text \<open>Fibers that only return a value of their own, with the log of the calls as the world.\<close>

definition logging :: "('c \<Rightarrow> int) \<Rightarrow> ('c, ('c \<times> fiber_status) list) fiber_runner" where
  "logging ret f st w s = Inr (ret f, w @ [(f, st)], s)"

definition runnable :: "'c internal_fiber \<Rightarrow> bool" where
  "runnable p \<longleftrightarrow> status p = FIBER_STATUS_CREATED \<or> status p = FIBER_STATUS_ACTIVATED"

definition slot_calls :: "('c \<Rightarrow> int) \<Rightarrow> 'c internal_fiber \<Rightarrow> ('c \<times> fiber_status) list" where
  "slot_calls ret p =
     (if runnable p then (the (fiber p), status p) #
        (if ret (the (fiber p)) = -1 then [(the (fiber p), FIBER_STATUS_DESTROYED)] else [])
      else [])"

definition slot_after :: "('c \<Rightarrow> int) \<Rightarrow> 'c internal_fiber \<Rightarrow> 'c internal_fiber" where
  "slot_after ret p =
     (if \<not> runnable p then p
      else if ret (the (fiber p)) = -1 then p\<lparr>status := FIBER_STATUS_EMPTY, fiber := None\<rparr>
      else if ret (the (fiber p)) = -2 then p\<lparr>status := FIBER_STATUS_DEACTIVATED\<rparr>
      else p\<lparr>status := FIBER_STATUS_ACTIVATED\<rparr>)"

text \<open>Every runnable slot holds a fiber, and no fiber is in two slots.\<close>

definition fibers_ok :: "'c fiber_table \<Rightarrow> bool" where
  "fibers_ok s \<longleftrightarrow> (\<forall>i<MAX_FIBERS. runnable (fibers s i) \<longrightarrow> fiber (fibers s i) \<noteq> None) \<and>
     (\<forall>i<MAX_FIBERS. \<forall>j<MAX_FIBERS. fiber (fibers s i) = fiber (fibers s j) \<longrightarrow> fiber (fibers s i) \<noteq> None \<longrightarrow> i = j)"

definition update_slot :: "('c \<Rightarrow> int) \<Rightarrow> 'c fiber_table \<Rightarrow> nat \<Rightarrow> 'c fiber_table" where
  "update_slot ret s i = s\<lparr>fibers := (fibers s)(i := slot_after ret (fibers s i))\<rparr>"

lemma slot_after_fiber: "fiber (slot_after ret p) = fiber p \<or> fiber (slot_after ret p) = None"
  by (simp add: slot_after_def)

lemma slot_after_runnable: "runnable (slot_after ret p) \<Longrightarrow> runnable p \<and> fiber (slot_after ret p) = fiber p"
  by (auto simp: slot_after_def runnable_def split: if_splits)

lemma fibers_ok_update:
  assumes "fibers_ok s" and "fibers s' = (fibers s)(i := p)"
    and "fiber p = fiber (fibers s i) \<or> fiber p = None" and "runnable p \<Longrightarrow> runnable (fibers s i) \<and> fiber p = fiber (fibers s i)"
  shows "fibers_ok s'"
proof -
  have f: "fiber (fibers s' j) = fiber (fibers s j) \<or> fiber (fibers s' j) = None" for j
    using assms(2,3) by simp
  have r: "runnable (fibers s' j) \<Longrightarrow> runnable (fibers s j) \<and> fiber (fibers s' j) = fiber (fibers s j)" for j
    using assms(2,4) by (cases "j = i") simp_all
  have "fiber (fibers s' j) \<noteq> None" if "j < MAX_FIBERS" "runnable (fibers s' j)" for j
    using assms(1) r [OF that(2)] that(1) by (simp add: fibers_ok_def)
  moreover have "j = k" if "j < MAX_FIBERS" "k < MAX_FIBERS" "fiber (fibers s' j) = fiber (fibers s' k)"
      "fiber (fibers s' j) \<noteq> None" for j k
  proof -
    have "fiber (fibers s j) = fiber (fibers s k)" "fiber (fibers s j) \<noteq> None"
      using f [of j] f [of k] that(3,4) by auto
    then show ?thesis using assms(1) that(1,2) by (simp add: fibers_ok_def)
  qed
  ultimately show ?thesis unfolding fibers_ok_def by blast
qed

lemma update_slot_ok: "fibers_ok s \<Longrightarrow> fibers_ok (update_slot ret s i)"
  by (erule fibers_ok_update [where i = i and p = "slot_after ret (fibers s i)"])
    (use slot_after_fiber slot_after_runnable in \<open>simp_all add: update_slot_def\<close>)

lemma same_status: "status (fibers s i) = st \<Longrightarrow> s\<lparr>fibers := (fibers s)(i := (fibers s i)\<lparr>status := st\<rparr>)\<rparr> = s"
proof -
  assume "status (fibers s i) = st"
  then have "(fibers s i)\<lparr>status := st\<rparr> = fibers s i" by (cases "fibers s i") simp
  then have "(fibers s)(i := (fibers s i)\<lparr>status := st\<rparr>) = fibers s" by simp
  then show ?thesis by simp
qed

lemma not_runnable: "\<not> runnable p \<longleftrightarrow>
    status p = FIBER_STATUS_EMPTY \<or> status p = FIBER_STATUS_DEACTIVATED \<or> status p = FIBER_STATUS_DESTROYED"
  by (cases "status p") (simp_all add: runnable_def)

lemma step_slot_logging:
  assumes "fibers_ok s" and "i < MAX_FIBERS"
  shows "fiber_step_slot (logging ret) i w s = Inr (w @ slot_calls ret (fibers s i), update_slot ret s i)"
proof (cases "runnable (fibers s i)")
  case False
  then show ?thesis
    using not_runnable [of "fibers s i"]
    by (auto simp: fiber_step_slot_def slot_calls_def update_slot_def slot_after_def Let_def)
next
  case True
  then obtain f where f: "fiber (fibers s i) = Some f" using assms by (auto simp: fibers_ok_def)
  have nr: "\<not> (status (fibers s i) = FIBER_STATUS_EMPTY \<or> status (fibers s i) = FIBER_STATUS_DEACTIVATED \<or>
      status (fibers s i) = FIBER_STATUS_DESTROYED)"
    using True not_runnable by blast
  have first: "\<forall>j. 0 \<le> j \<and> j < i \<longrightarrow> fiber (fibers s j) \<noteq> Some f"
    using assms f unfolding fibers_ok_def by (metis option.distinct(1) order_less_irrefl order_less_trans)
  have un: "unregister_fiber (logging ret) (Some f) w' s = Inr (0, w' @ [(f, FIBER_STATUS_DESTROYED)],
      s\<lparr>fibers := (fibers s)(i := (fibers s i)\<lparr>status := FIBER_STATUS_EMPTY, fiber := None\<rparr>)\<rparr>)" for w'
    using unregister_loop_first [OF f first, of MAX_FIBERS "logging ret" w'] assms(2)
    by (simp add: unregister_fiber_def logging_def)
  show ?thesis
    using True nr f
    by (auto simp: fiber_step_slot_def Let_def un logging_def [of ret f] slot_calls_def update_slot_def slot_after_def
        set_status_def runnable_def same_status)
qed

lemma step_loop_logging:
  assumes "fibers_ok s" and "distinct is" and "\<forall>i \<in> set is. i < MAX_FIBERS"
  shows "\<exists>s'. fiber_step_loop (logging ret) is w s = Inr (w @ concat (map (\<lambda>i. slot_calls ret (fibers s i)) is), s') \<and>
    internal_quit s' = internal_quit s \<and>
    (\<forall>i. fibers s' i = (if i \<in> set is then slot_after ret (fibers s i) else fibers s i))"
  using assms
proof (induction "is" arbitrary: s w)
  case (Cons i "is")
  let ?s = "update_slot ret s i"
  have same: "fibers ?s j = fibers s j" if "j \<in> set is" for j
    using that Cons.prems(2) by (auto simp: update_slot_def)
  have db: "distinct is" "\<forall>i \<in> set is. i < MAX_FIBERS" using Cons.prems(2,3) by simp_all
  obtain s' where s': "fiber_step_loop (logging ret) is (w @ slot_calls ret (fibers s i)) ?s =
      Inr ((w @ slot_calls ret (fibers s i)) @ concat (map (\<lambda>i. slot_calls ret (fibers ?s i)) is), s')"
    "internal_quit s' = internal_quit ?s"
    "\<forall>j. fibers s' j = (if j \<in> set is then slot_after ret (fibers ?s j) else fibers ?s j)"
    using Cons.IH [OF update_slot_ok [OF Cons.prems(1), of ret i] db, of "w @ slot_calls ret (fibers s i)"]
    by blast
  have "concat (map (\<lambda>i. slot_calls ret (fibers ?s i)) is) = concat (map (\<lambda>i. slot_calls ret (fibers s i)) is)"
    using same by (metis (mono_tags, lifting) map_eq_conv)
  moreover have "fibers s' j = (if j \<in> set (i # is) then slot_after ret (fibers s j) else fibers s j)" for j
    using s'(3) same Cons.prems(2) by (auto simp: update_slot_def)
  moreover have "internal_quit s' = internal_quit s" using s'(2) by (simp add: update_slot_def)
  ultimately show ?case
    using s'(1) step_slot_logging [OF Cons.prems(1), of i ret w] Cons.prems(3) by auto
qed simp

section \<open>Properties\<close>

text \<open>One rotation runs, in slot order, every created or activated fiber exactly once with its
  status. A created fiber becomes activated; one that returns -2 is deactivated and not run again;
  one that returns -1 is called once more with the destroyed status and its slot is freed. No other
  slot changes.\<close>

theorem fiber_rotation:
  assumes "fibers_ok s"
  shows "\<exists>s'. fiber_module_step (logging ret) w s =
      Inr (w @ concat (map (\<lambda>i. slot_calls ret (fibers s i)) [0..<MAX_FIBERS]), s') \<and>
    internal_quit s' = internal_quit s \<and>
    fibers s' = (\<lambda>i. if i < MAX_FIBERS then slot_after ret (fibers s i) else fibers s i)"
proof -
  obtain s' where "fiber_step_loop (logging ret) [0..<MAX_FIBERS] w s =
      Inr (w @ concat (map (\<lambda>i. slot_calls ret (fibers s i)) [0..<MAX_FIBERS]), s')"
    "internal_quit s' = internal_quit s"
    "\<forall>i. fibers s' i = (if i \<in> set [0..<MAX_FIBERS] then slot_after ret (fibers s i) else fibers s i)"
    using step_loop_logging [OF assms, of "[0..<MAX_FIBERS]" ret w] by auto
  then show ?thesis
    unfolding fiber_module_step_def by (intro exI [of _ s']) (auto simp: fun_eq_iff)
qed

definition three_fibers :: "nat fiber_table" where
  "three_fibers = \<lparr>fibers = (\<lambda>i. \<lparr>status = (if i = 0 then FIBER_STATUS_CREATED
       else if i = 1 then FIBER_STATUS_DEACTIVATED else if i = 2 then FIBER_STATUS_ACTIVATED
       else FIBER_STATUS_EMPTY), fiber = (if i < 3 then Some i else None), filename = [], lineno = 0\<rparr>),
     internal_quit = False\<rparr>"

lemma fiber_rotation_witness:
  "\<exists>s'. fiber_module_step (logging (\<lambda>f. if f = 2 then -1 else 0)) [] three_fibers =
     Inr ([(0, FIBER_STATUS_CREATED), (2, FIBER_STATUS_ACTIVATED), (2, FIBER_STATUS_DESTROYED)], s') \<and>
     status (fibers s' 0) = FIBER_STATUS_ACTIVATED \<and> status (fibers s' 2) = FIBER_STATUS_EMPTY"
proof -
  have ok: "fibers_ok three_fibers"
    by (auto simp: fibers_ok_def three_fibers_def runnable_def split: if_splits)
  have u: "[0..<MAX_FIBERS] = [0, 1, 2] @ [3..<16]"
    by (simp add: MAX_FIBERS_def upt_conv_Cons)
  have z: "concat (map (\<lambda>i. slot_calls r (fibers three_fibers i)) [3..<16]) = []" for r
    by (simp add: three_fibers_def slot_calls_def runnable_def)
  show ?thesis
    using fiber_rotation [OF ok, of "\<lambda>f. if f = 2 then -1 else 0" "[]"]
    unfolding u map_append concat_append z
    by (auto simp: slot_calls_def slot_after_def runnable_def three_fibers_def MAX_FIBERS_def)
qed

text \<open>Registering a fiber takes the first free slot and leaves the other slots; when all sixteen
  are taken it fails: the assertion stops the process, or else -1 is returned and nothing
  changes.\<close>

theorem register_takes_first_free:
  "register_fiber_full A f file line s =
    (case List.find (free_slot s) [0..<MAX_FIBERS] of
       Some k \<Rightarrow> Inr (0, s\<lparr>fibers := (fibers s)(k :=
         \<lparr>status = FIBER_STATUS_CREATED, fiber = Some f, filename = file, lineno = line\<rparr>)\<rparr>)
     | None \<Rightarrow> if aroop_assert_aborts A then Inl AssertFailed else Inr (-1, s))"
proof (cases "List.find (free_slot s) [0..<MAX_FIBERS]")
  case None
  then have "\<forall>j. 0 \<le> j \<and> j < 0 + MAX_FIBERS \<longrightarrow> \<not> free_slot s j"
    by (auto simp: find_None_iff)
  from register_loop_full [OF this] None show ?thesis
    by (simp add: register_fiber_full_def aroop_assert_def)
next
  case (Some k)
  then show ?thesis by (simp add: register_find)
qed

section \<open>The main loop\<close>

fun rotations ::
    "('c, 'w) fiber_runner \<Rightarrow> nat \<Rightarrow> 'w \<Rightarrow> 'c fiber_table \<Rightarrow> ('w \<times> 'c fiber_table) exec" where
  "rotations R 0 w s = Inr (w, s)"
| "rotations R (Suc n) w s = ebind (fiber_module_step R w s) (\<lambda>(w', s'). rotations R n w' s')"

lemma rotations_Suc: "rotations R (Suc n) w s = ebind (rotations R n w s) (\<lambda>(w', s'). fiber_module_step R w' s')"
proof (induction n arbitrary: w s)
  case 0
  show ?case by (cases "fiber_module_step R w s") auto
next
  case (Suc n)
  show ?case
  proof (cases "fiber_module_step R w s")
    case (Inr p)
    then obtain w1 s1 where s1: "fiber_module_step R w s = Inr (w1, s1)" by (cases p) simp
    then have "rotations R (Suc (Suc n)) w s = rotations R (Suc n) w1 s1" by (subst rotations.simps(2)) simp
    then show ?thesis unfolding Suc.IH [of w1 s1] using s1 by simp
  qed simp
qed

lemma run_after_rotations:
  assumes "\<And>k. k < n \<Longrightarrow> \<exists>wk sk. rotations R k w s = Inr (wk, sk) \<and> \<not> internal_quit sk"
    and "rotations R n w s = Inr (w', s')" and "internal_quit s'"
  shows "fiber_module_run R w s = Some (Inr (w', s'))"
  using assms
proof (induction n arbitrary: w s)
  case 0
  then show ?case by (simp add: fiber_module_run.simps)
next
  case (Suc n)
  have q: "\<not> internal_quit s" using Suc.prems(1) [of 0] by simp
  obtain w1 s1 where s1: "fiber_module_step R w s = Inr (w1, s1)"
    using Suc.prems(2) by (auto simp: ebind_Inr_iff)
  have "fiber_module_run R w1 s1 = Some (Inr (w', s'))"
  proof (rule Suc.IH)
    show "\<exists>wk sk. rotations R k w1 s1 = Inr (wk, sk) \<and> \<not> internal_quit sk" if "k < n" for k
      using Suc.prems(1) [of "Suc k"] that s1 by simp
  qed (use Suc.prems s1 in simp_all)
  then show ?case using q s1 by (simp add: fiber_module_run.simps [of R w s])
qed

text \<open>A loop that returns has done so after some number of rotations.\<close>

lemma run_returns_after:
  assumes "fiber_module_run R w s = Some r"
  shows "\<exists>n. (\<exists>w' s'. rotations R n w s = Inr (w', s') \<and> internal_quit s') \<or> (\<exists>e. rotations R n w s = Inl e)"
proof (rule fiber_module_run.raw_induct [OF _ assms, where P = "\<lambda>R w s r. \<exists>n. (\<exists>w' s'. rotations R n w s = Inr (w', s') \<and> internal_quit s') \<or>
    (\<exists>e. rotations R n w s = Inl e)"])
  fix run R w s r
  assume IH: "\<And>R w s r. run R w s = Some r \<Longrightarrow>
      \<exists>n. (\<exists>w' s'. rotations R n w s = Inr (w', s') \<and> internal_quit s') \<or> (\<exists>e. rotations R n w s = Inl e)"
    and step: "(if internal_quit s then Some (Inr (w, s))
      else case fiber_module_step R w s of Inl e \<Rightarrow> Some (Inl e) | Inr (w', s') \<Rightarrow> run R w' s') = Some r"
  show "\<exists>n. (\<exists>w' s'. rotations R n w s = Inr (w', s') \<and> internal_quit s') \<or> (\<exists>e. rotations R n w s = Inl e)"
  proof (cases "internal_quit s")
    case True
    then show ?thesis by (intro exI [of _ 0]) simp
  next
    case False
    show ?thesis
    proof (cases "fiber_module_step R w s")
      case (Inl e)
      then show ?thesis by (intro exI [of _ "Suc 0"]) simp
    next
      case (Inr p)
      then obtain w1 s1 where s1: "fiber_module_step R w s = Inr (w1, s1)" by (cases p) simp
      then have "run R w1 s1 = Some r" using step False by simp
      from IH [OF this] obtain n where
        "(\<exists>w' s'. rotations R n w1 s1 = Inr (w', s') \<and> internal_quit s') \<or> (\<exists>e. rotations R n w1 s1 = Inl e)" by blast
      then show ?thesis using s1 by (intro exI [of _ "Suc n"]) simp
    qed
  qed
qed

text \<open>Fibers given by what they do: \<open>B f st w\<close> is the value that fiber \<open>f\<close> returns, the world it leaves, and whether it
  calls \<open>fiber_quit\<close> on the way. \<open>turn\<close> is one rotation of such fibers over the slots, without the machinery.\<close>

type_synonym ('c, 'w) bodies = "'c \<Rightarrow> fiber_status \<Rightarrow> 'w \<Rightarrow> int \<times> 'w \<times> bool"

definition quitting :: "('c, 'w) bodies \<Rightarrow> ('c, 'w) fiber_runner" where
  "quitting B f st w s = (case B f st w of (ret, w', q) \<Rightarrow> Inr (ret, w', if q then snd (fiber_quit s) else s))"

definition slot_turn :: "('c, 'w) bodies \<Rightarrow> 'c internal_fiber \<Rightarrow> 'w \<Rightarrow> 'w \<times> bool \<times> 'c internal_fiber" where
  "slot_turn B p w =
     (if \<not> runnable p then (w, False, p)
      else case B (the (fiber p)) (status p) w of (ret, w1, q1) \<Rightarrow>
        if ret = -1 then (case B (the (fiber p)) FIBER_STATUS_DESTROYED w1 of
             (_, w2, q2) \<Rightarrow> (w2, q1 \<or> q2, p\<lparr>status := FIBER_STATUS_EMPTY, fiber := None\<rparr>))
        else (w1, q1, p\<lparr>status := if ret = -2 then FIBER_STATUS_DEACTIVATED else FIBER_STATUS_ACTIVATED\<rparr>))"

fun turn :: "('c, 'w) bodies \<Rightarrow> nat list \<Rightarrow> 'w \<Rightarrow> (nat \<Rightarrow> 'c internal_fiber) \<Rightarrow> 'w \<times> bool \<times> (nat \<Rightarrow> 'c internal_fiber)" where
  "turn B [] w t = (w, False, t)"
| "turn B (i # is) w t =
     (case slot_turn B (t i) w of (w1, q1, p) \<Rightarrow> (case turn B is w1 (t(i := p)) of (w2, q2, t2) \<Rightarrow> (w2, q1 \<or> q2, t2)))"

fun turns :: "('c, 'w) bodies \<Rightarrow> nat \<Rightarrow> 'w \<Rightarrow> (nat \<Rightarrow> 'c internal_fiber) \<Rightarrow> 'w \<times> (nat \<Rightarrow> 'c internal_fiber)" where
  "turns B 0 w t = (w, t)"
| "turns B (Suc n) w t = (case turn B [0..<MAX_FIBERS] w t of (w1, _, t1) \<Rightarrow> turns B n w1 t1)"

text \<open>Some fiber calls \<open>fiber_quit\<close> in rotation \<open>n\<close>, counted from 0.\<close>

definition quits_in :: "('c, 'w) bodies \<Rightarrow> 'w \<Rightarrow> (nat \<Rightarrow> 'c internal_fiber) \<Rightarrow> nat \<Rightarrow> bool" where
  "quits_in B w t n \<longleftrightarrow> (case turns B n w t of (w1, t1) \<Rightarrow> fst (snd (turn B [0..<MAX_FIBERS] w1 t1)))"

lemma fiber_quit_simps:
  "fibers (snd (fiber_quit s)) = fibers s" "internal_quit (snd (fiber_quit s))"
  "snd (fiber_quit s) = s\<lparr>internal_quit := True\<rparr>"
  by (simp_all add: fiber_quit_def)

definition with_quit :: "bool \<Rightarrow> 'c fiber_table \<Rightarrow> 'c fiber_table" where
  "with_quit q s = s\<lparr>internal_quit := internal_quit s \<or> q\<rparr>"

lemma with_quit_simps [simp]:
  "fibers (with_quit q s) = fibers s" "internal_quit (with_quit q s) \<longleftrightarrow> internal_quit s \<or> q"
  "with_quit q' (with_quit q s) = with_quit (q \<or> q') s"
  by (simp_all add: with_quit_def)

lemma quit_with_quit [simp]: "(if q then s\<lparr>internal_quit := True\<rparr> else s) = with_quit q s"
  by (cases s) (simp add: with_quit_def)

lemma step_slot_quitting:
  assumes "fibers_ok s" and "i < MAX_FIBERS"
  shows "\<exists>p w' q. slot_turn B (fibers s i) w = (w', q, p) \<and>
    fiber_step_slot (quitting B) i w s = Inr (w', with_quit q (s\<lparr>fibers := (fibers s)(i := p)\<rparr>)) \<and>
    (fiber p = fiber (fibers s i) \<or> fiber p = None) \<and> (runnable p \<longrightarrow> runnable (fibers s i) \<and> fiber p = fiber (fibers s i))"
proof (cases "runnable (fibers s i)")
  case False
  then have "fiber_step_slot (quitting B) i w s = Inr (w, s)" "slot_turn B (fibers s i) w = (w, False, fibers s i)"
    using not_runnable [of "fibers s i"] by (auto simp: fiber_step_slot_def slot_turn_def Let_def)
  moreover have "with_quit False (s\<lparr>fibers := (fibers s)(i := fibers s i)\<rparr>) = s" by (cases s) (simp add: with_quit_def)
  ultimately show ?thesis by (intro exI [of _ "fibers s i"] exI [of _ w] exI [of _ False]) simp
next
  case True
  then obtain f where f: "fiber (fibers s i) = Some f" using assms by (auto simp: fibers_ok_def)
  have nr: "\<not> (status (fibers s i) = FIBER_STATUS_EMPTY \<or> status (fibers s i) = FIBER_STATUS_DEACTIVATED \<or>
      status (fibers s i) = FIBER_STATUS_DESTROYED)"
    using True not_runnable by blast
  have first: "\<forall>j. 0 \<le> j \<and> j < i \<longrightarrow> fiber (fibers s j) \<noteq> Some f"
    using assms f unfolding fibers_ok_def by (metis option.distinct(1) order_less_irrefl order_less_trans)
  obtain ret w1 q1 where b1: "B f (status (fibers s i)) w = (ret, w1, q1)" by (metis prod_cases3)
  obtain r2 w2 q2 where b2: "B f FIBER_STATUS_DESTROYED w1 = (r2, w2, q2)" by (metis prod_cases3)
  have un: "unregister_fiber (quitting B) (Some f) w1 (with_quit q1 s) = Inr (0, w2, with_quit (q1 \<or> q2)
      (s\<lparr>fibers := (fibers s)(i := (fibers s i)\<lparr>status := FIBER_STATUS_EMPTY, fiber := None\<rparr>)\<rparr>))"
    using unregister_loop_first [of "with_quit q1 s" i f 0 MAX_FIBERS "quitting B" w1] f first assms(2) b2
    by (simp add: unregister_fiber_def quitting_def fiber_quit_simps)
  have run: "quitting B f (status (fibers s i)) w s = Inr (ret, w1, with_quit q1 s)" using b1 by (simp add: quitting_def fiber_quit_simps)
  show ?thesis
  proof (cases "ret = -1")
    case True
    have "fiber_step_slot (quitting B) i w s = Inr (w2, with_quit (q1 \<or> q2)
        (s\<lparr>fibers := (fibers s)(i := (fibers s i)\<lparr>status := FIBER_STATUS_EMPTY, fiber := None\<rparr>)\<rparr>))"
      using nr f by (simp add: fiber_step_slot_def Let_def run True un)
    moreover have "slot_turn B (fibers s i) w = (w2, q1 \<or> q2, (fibers s i)\<lparr>status := FIBER_STATUS_EMPTY, fiber := None\<rparr>)"
      using \<open>runnable (fibers s i)\<close> f b1 b2 True by (simp add: slot_turn_def)
    ultimately show ?thesis by (simp add: runnable_def)
  next
    case False
    let ?st = "if ret = -2 then FIBER_STATUS_DEACTIVATED else FIBER_STATUS_ACTIVATED"
    have st: "slot_turn B (fibers s i) w = (w1, q1, (fibers s i)\<lparr>status := ?st\<rparr>)"
      using \<open>runnable (fibers s i)\<close> f b1 False by (simp add: slot_turn_def)
    have r: "status (fibers s i) = FIBER_STATUS_CREATED \<or> status (fibers s i) = FIBER_STATUS_ACTIVATED"
      using \<open>runnable (fibers s i)\<close> by (simp add: runnable_def)
    have "fiber_step_slot (quitting B) i w s = Inr (w1, with_quit q1 (s\<lparr>fibers := (fibers s)(i := (fibers s i)\<lparr>status := ?st\<rparr>)\<rparr>))"
    proof (cases "ret = -2")
      case True
      then show ?thesis using nr f by (simp add: fiber_step_slot_def Let_def run set_status_def with_quit_def)
    next
      case no: False
      show ?thesis
      proof (cases "status (fibers s i) = FIBER_STATUS_CREATED")
        case True
        then show ?thesis using f False no by (simp add: fiber_step_slot_def Let_def run [unfolded True] set_status_def)
      next
        case act: False
        then have a: "status (fibers s i) = FIBER_STATUS_ACTIVATED" using r by simp
        show ?thesis using f False no same_status [OF a] a by (simp add: fiber_step_slot_def Let_def run [unfolded a])
      qed
    qed
    with st show ?thesis using \<open>runnable (fibers s i)\<close> by simp
  qed
qed

lemma step_loop_quitting:
  assumes "fibers_ok s" and "\<forall>i \<in> set is. i < MAX_FIBERS"
  shows "\<exists>w' q t. turn B is w (fibers s) = (w', q, t) \<and>
    fiber_step_loop (quitting B) is w s = Inr (w', with_quit q (s\<lparr>fibers := t\<rparr>)) \<and> fibers_ok (s\<lparr>fibers := t\<rparr>)"
  using assms
proof (induction "is" arbitrary: s w)
  case (Cons i "is")
  have i: "i < MAX_FIBERS" using Cons.prems(2) by simp
  obtain p w1 q where p: "slot_turn B (fibers s i) w = (w1, q, p)"
    "fiber_step_slot (quitting B) i w s = Inr (w1, with_quit q (s\<lparr>fibers := (fibers s)(i := p)\<rparr>))"
    "fiber p = fiber (fibers s i) \<or> fiber p = None" "runnable p \<Longrightarrow> runnable (fibers s i) \<and> fiber p = fiber (fibers s i)"
    using step_slot_quitting [OF Cons.prems(1) i, of B w] by blast
  let ?s = "with_quit q (s\<lparr>fibers := (fibers s)(i := p)\<rparr>)"
  have ok: "fibers_ok ?s" by (rule fibers_ok_update [OF Cons.prems(1) _ p(3,4)]) simp
  have "\<forall>i \<in> set is. i < MAX_FIBERS" using Cons.prems(2) by simp
  from Cons.IH [OF ok this, of w1] obtain w' q' t where t: "turn B is w1 (fibers ?s) = (w', q', t)"
    "fiber_step_loop (quitting B) is w1 ?s = Inr (w', with_quit q' (?s\<lparr>fibers := t\<rparr>))" "fibers_ok (?s\<lparr>fibers := t\<rparr>)"
    by blast
  have e: "with_quit q' (?s\<lparr>fibers := t\<rparr>) = with_quit (q \<or> q') (s\<lparr>fibers := t\<rparr>)" by (simp add: with_quit_def)
  have "fibers_ok (s\<lparr>fibers := t\<rparr>)" using t(3) by (simp add: fibers_ok_def)
  then show ?case using p(1,2) t(1,2) unfolding e by simp
next
  case Nil
  have "with_quit False s = s" "s\<lparr>fibers := fibers s\<rparr> = s" by (cases s; simp add: with_quit_def)+
  with Nil show ?case by (intro exI [of _ w] exI [of _ False] exI [of _ "fibers s"]) simp
qed

lemma rotations_quitting:
  assumes "fibers_ok s" and "\<forall>k < n. \<not> quits_in B w (fibers s) k"
  shows "case turns B n w (fibers s) of (w', t) \<Rightarrow> rotations (quitting B) n w s = Inr (w', s\<lparr>fibers := t\<rparr>) \<and> fibers_ok (s\<lparr>fibers := t\<rparr>)"
  using assms
proof (induction n arbitrary: w s)
  case (Suc n)
  have "\<forall>i \<in> set [0..<MAX_FIBERS]. i < MAX_FIBERS" by simp
  then obtain w1 q t where t: "turn B [0..<MAX_FIBERS] w (fibers s) = (w1, q, t)"
    "fiber_module_step (quitting B) w s = Inr (w1, with_quit q (s\<lparr>fibers := t\<rparr>))" "fibers_ok (s\<lparr>fibers := t\<rparr>)"
    using step_loop_quitting [OF Suc.prems(1), of "[0..<MAX_FIBERS]" B w] unfolding fiber_module_step_def by blast
  have "\<not> q" using Suc.prems(2) [rule_format, of 0] t(1) by (simp add: quits_in_def)
  then have s: "with_quit q (s\<lparr>fibers := t\<rparr>) = s\<lparr>fibers := t\<rparr>" by (simp add: with_quit_def)
  have "\<not> quits_in B w1 (fibers (s\<lparr>fibers := t\<rparr>)) k" if "k < n" for k
    using Suc.prems(2) [rule_format, of "Suc k"] that t(1) by (simp add: quits_in_def)
  then show ?case using Suc.IH [OF t(3), of w1] t(1,2) unfolding s by (simp split: prod.splits)
qed (simp add: fibers_ok_def)

lemma turns_Suc: "turns B (Suc n) w t = (case turns B n w t of (w1, t1) \<Rightarrow> (case turn B [0..<MAX_FIBERS] w1 t1 of (w2, _, t2) \<Rightarrow> (w2, t2)))"
proof (induction n arbitrary: w t)
  case (Suc n)
  obtain w1 q1 t1 where t1: "turn B [0..<MAX_FIBERS] w t = (w1, q1, t1)" by (metis prod_cases3)
  then have "turns B (Suc (Suc n)) w t = turns B (Suc n) w1 t1" by (subst turns.simps(2)) simp
  then show ?case unfolding Suc.IH [of w1 t1] using t1 by simp
qed (simp split: prod.splits)

text \<open>(C35) The main loop ends exactly when a fiber calls \<open>fiber_quit\<close>. If some fiber calls it in a rotation, and none in an
  earlier one, the loop finishes that rotation, in which the fibers in the later slots still run, and returns with the world
  and the slots it has left; if no fiber ever calls it, the loop does not return. A fiber that returns -1 is called once
  more when it is unregistered and may call \<open>fiber_quit\<close> then.\<close>

theorem run_ends_after_quit:
  assumes "fibers_ok s" and "\<not> internal_quit s"
  shows "fiber_module_run (quitting B) w s =
    (if \<exists>n. quits_in B w (fibers s) n
     then case turns B (Suc (LEAST n. quits_in B w (fibers s) n)) w (fibers s) of
       (w', t) \<Rightarrow> Some (Inr (w', s\<lparr>fibers := t, internal_quit := True\<rparr>))
     else None)"
proof (cases "\<exists>n. quits_in B w (fibers s) n")
  case True
  define n where "n = (LEAST n. quits_in B w (fibers s) n)"
  have n: "quits_in B w (fibers s) n" unfolding n_def using True by (rule LeastI_ex)
  have less: "\<not> quits_in B w (fibers s) k" if "k < n" for k using that unfolding n_def by (rule not_less_Least)
  have all: "\<exists>wk sk. rotations (quitting B) k w s = Inr (wk, sk) \<and> \<not> internal_quit sk" if "k \<le> n" for k
    using rotations_quitting [OF assms(1), of k B w] less that assms(2) by (auto split: prod.splits)
  obtain w1 t1 where t1: "turns B n w (fibers s) = (w1, t1)" by fastforce
  then have r: "rotations (quitting B) n w s = Inr (w1, s\<lparr>fibers := t1\<rparr>)" and ok: "fibers_ok (s\<lparr>fibers := t1\<rparr>)"
    using rotations_quitting [OF assms(1), of n B w] less by auto
  have "\<forall>i \<in> set [0..<MAX_FIBERS]. i < MAX_FIBERS" by simp
  from step_loop_quitting [OF ok this, of B w1] obtain w2 q t2 where
    t2: "turn B [0..<MAX_FIBERS] w1 t1 = (w2, q, t2)" "fiber_module_step (quitting B) w1 (s\<lparr>fibers := t1\<rparr>) =
      Inr (w2, with_quit q (s\<lparr>fibers := t1\<rparr>\<lparr>fibers := t2\<rparr>))"
    unfolding fiber_module_step_def by auto
  have q using n t1 t2(1) by (simp add: quits_in_def)
  have "rotations (quitting B) (Suc n) w s = Inr (w2, s\<lparr>fibers := t2, internal_quit := True\<rparr>)"
    unfolding rotations_Suc r using t2(2) \<open>q\<close> by (simp add: with_quit_def)
  then have "fiber_module_run (quitting B) w s = Some (Inr (w2, s\<lparr>fibers := t2, internal_quit := True\<rparr>))"
    by (rule run_after_rotations [rotated]) (use all in simp_all)
  then show ?thesis using True t1 t2(1) by (simp only: n_def [symmetric] turns_Suc) simp
next
  case False
  have "fiber_module_run (quitting B) w s = None"
  proof (cases "fiber_module_run (quitting B) w s")
    case (Some r)
    from run_returns_after [OF this] obtain n where
      "(\<exists>w' s'. rotations (quitting B) n w s = Inr (w', s') \<and> internal_quit s') \<or> (\<exists>e. rotations (quitting B) n w s = Inl e)" by blast
    with rotations_quitting [OF assms(1), of n B w] False assms(2) show ?thesis by (auto split: prod.splits)
  qed
  then show ?thesis using False by simp
qed

definition one_fiber :: "fiber_status \<Rightarrow> bool \<Rightarrow> nat fiber_table" where
  "one_fiber st q = \<lparr>fibers = (\<lambda>i. if i = 0 then \<lparr>status = st, fiber = Some 7, filename = [], lineno = 0\<rparr>
       else \<lparr>status = FIBER_STATUS_EMPTY, fiber = None, filename = [], lineno = 0\<rparr>), internal_quit = q\<rparr>"

text \<open>A fiber that counts its calls and quits at the second one, and one that never quits.\<close>

lemma one_fiber_turn:
  assumes "B 7 st n = (0, Suc n, q)" and "st = FIBER_STATUS_CREATED \<or> st = FIBER_STATUS_ACTIVATED"
  shows "turn B [0..<MAX_FIBERS] n (fibers (one_fiber st b)) = (Suc n, q, fibers (one_fiber FIBER_STATUS_ACTIVATED b))"
proof -
  have u: "[0..<MAX_FIBERS] = 0 # [1..<16]" by (simp add: MAX_FIBERS_def upt_conv_Cons)
  have idle: "turn B is v (fibers (one_fiber t b)) = (v, False, fibers (one_fiber t b))" if "0 \<notin> set is" for "is" v t
    using that
  proof (induction "is")
    case (Cons i "is")
    then have "slot_turn B (fibers (one_fiber t b) i) v = (v, False, fibers (one_fiber t b) i)" by (simp add: slot_turn_def runnable_def one_fiber_def)
    then show ?case using Cons by simp
  qed simp
  have "slot_turn B (fibers (one_fiber st b) 0) n = (Suc n, q, fibers (one_fiber FIBER_STATUS_ACTIVATED b) 0)"
    using assms by (auto simp: slot_turn_def runnable_def one_fiber_def)
  moreover have "(fibers (one_fiber st b))(0 := fibers (one_fiber FIBER_STATUS_ACTIVATED b) 0) = fibers (one_fiber FIBER_STATUS_ACTIVATED b)"
    by (auto simp: one_fiber_def fun_eq_iff)
  ultimately show ?thesis unfolding u using idle [of "[1..<16]"] by simp
qed

lemma run_ends_after_quit_witness:
  "fiber_module_run (quitting (\<lambda>f st n. (0, Suc n, n = 1))) 0 (one_fiber FIBER_STATUS_CREATED False) =
     Some (Inr (2, one_fiber FIBER_STATUS_ACTIVATED True)) \<and>
   fiber_module_run (quitting (\<lambda>f st n. (0, Suc n, False))) 0 (one_fiber FIBER_STATUS_CREATED False) = None"
proof -
  let ?s = "one_fiber FIBER_STATUS_CREATED False" and ?B = "\<lambda>(f :: nat) (st :: fiber_status) n. (0 :: int, Suc n, n = 1)"
  let ?N = "\<lambda>(f :: nat) (st :: fiber_status) n. (0 :: int, Suc n, False)"
  have ok: "fibers_ok ?s" "\<not> internal_quit ?s" by (auto simp: fibers_ok_def one_fiber_def runnable_def)
  note t = one_fiber_turn [of ?B, OF refl, of FIBER_STATUS_CREATED 0 False] one_fiber_turn [of ?B, OF refl, of FIBER_STATUS_ACTIVATED 1 False]
  have q: "quits_in ?B 0 (fibers ?s) 1" "\<not> quits_in ?B 0 (fibers ?s) 0" using t by (simp_all add: quits_in_def)
  have "(LEAST n. quits_in ?B 0 (fibers ?s) n) = 1"
    by (rule Least_equality) (use q in \<open>auto simp: Suc_le_eq intro: gr0I\<close>)
  moreover have "turns ?B (Suc 1) 0 (fibers ?s) = (2, fibers (one_fiber FIBER_STATUS_ACTIVATED False))" using t by simp
  moreover have "\<exists>n. quits_in ?B 0 (fibers ?s) n" using q(1) by blast
  ultimately have 1: "fiber_module_run (quitting ?B) 0 ?s = Some (Inr (2, one_fiber FIBER_STATUS_ACTIVATED True))"
    using run_ends_after_quit [OF ok, of ?B 0] by (simp add: one_fiber_def)
  have "\<exists>k. turns ?N n m (fibers (one_fiber st False)) = (k, fibers (one_fiber (if n = 0 then st else FIBER_STATUS_ACTIVATED) False))"
    if "st = FIBER_STATUS_CREATED \<or> st = FIBER_STATUS_ACTIVATED" for n m st
    using that
  proof (induction n arbitrary: m st)
    case (Suc n)
    show ?case using Suc.IH [of FIBER_STATUS_ACTIVATED "Suc m"] one_fiber_turn [of ?N, OF refl Suc.prems, of m False] by simp
  qed simp
  then have nq: "\<not> quits_in ?N 0 (fibers ?s) n" for n
  proof -
    let ?st = "if n = 0 then FIBER_STATUS_CREATED else FIBER_STATUS_ACTIVATED"
    obtain k where k: "turns ?N n 0 (fibers ?s) = (k, fibers (one_fiber ?st False))"
      using \<open>\<And>st n m. st = FIBER_STATUS_CREATED \<or> st = FIBER_STATUS_ACTIVATED \<Longrightarrow>
        \<exists>k. turns ?N n m (fibers (one_fiber st False)) = (k, fibers (one_fiber (if n = 0 then st else FIBER_STATUS_ACTIVATED) False))\<close>
      by blast
    have "turn ?N [0..<MAX_FIBERS] k (fibers (one_fiber ?st False)) = (Suc k, False, fibers (one_fiber FIBER_STATUS_ACTIVATED False))"
      by (rule one_fiber_turn) simp_all
    then show ?thesis by (simp only: quits_in_def k prod.case) simp
  qed
  then have "fiber_module_run (quitting ?N) 0 ?s = None" using nq run_ends_after_quit [OF ok, of ?N 0] by simp
  with 1 show ?thesis by blast
qed

end
