(* ===== verification/LazyCall.thy ===== *)
theory LazyCall
  imports Fiber
begin

text \<open>
  Deferred calls, \<open>base/src/lazy_call.c\<close>: a stack of calls and a queue of objects to release, both
  emptied by the fiber \<open>lazy_call_step\<close>. The deferred function is run by the parameter \<open>R\<close>, which
  may defer further calls; releasing an object (\<open>OPPUNREF\<close>) is the parameter \<open>U\<close>.
\<close>

section \<open>Code\<close>

definition NGINZ_LAZY_STACK_SIZE :: nat where "NGINZ_LAZY_STACK_SIZE = 24"
definition NGINZ_LAZY_OBJECT_QUEUE_SIZE :: nat where "NGINZ_LAZY_OBJECT_QUEUE_SIZE = 1024"

record ('g, 'd, 'o) lazy_state =
  lazy_stack_count :: nat
  lazy_stack :: "nat \<Rightarrow> 'g option"
  lazy_stack_data :: "nat \<Rightarrow> 'd"
  lazy_cleanup_count :: nat
  lazy_cleanup_objects :: "nat \<Rightarrow> 'o"

definition lazy_call ::
    "aroop \<Rightarrow> 'g option \<Rightarrow> 'd \<Rightarrow> ('g, 'd, 'o) lazy_state \<Rightarrow> ('g, 'd, 'o) lazy_state exec" where
  "lazy_call A go_lazy d s =
     ebind (aroop_assert A (go_lazy \<noteq> None)) (\<lambda>_.
     ebind (aroop_assert A (lazy_stack_count s < NGINZ_LAZY_STACK_SIZE)) (\<lambda>_.
     if lazy_stack_count s < NGINZ_LAZY_STACK_SIZE then
       Inr (s\<lparr>lazy_stack := (lazy_stack s)(lazy_stack_count s := go_lazy),
              lazy_stack_data := (lazy_stack_data s)(lazy_stack_count s := d),
              lazy_stack_count := lazy_stack_count s + 1\<rparr>)
     else Inl OutOfBounds))"

definition lazy_cleanup ::
    "aroop \<Rightarrow> 'o option \<Rightarrow> ('g, 'd, 'o option) lazy_state \<Rightarrow> (int \<times> ('g, 'd, 'o option) lazy_state) exec" where
  "lazy_cleanup A obj_data s =
     ebind (aroop_assert A (obj_data \<noteq> None)) (\<lambda>_.
     ebind (aroop_assert A (lazy_cleanup_count s < NGINZ_LAZY_OBJECT_QUEUE_SIZE)) (\<lambda>_.
     if lazy_cleanup_count s = NGINZ_LAZY_OBJECT_QUEUE_SIZE then Inr (-1, s)
     else Inr (0, s\<lparr>lazy_cleanup_objects := (lazy_cleanup_objects s)(lazy_cleanup_count s := obj_data),
                    lazy_cleanup_count := lazy_cleanup_count s + 1\<rparr>)))"

type_synonym ('g, 'd, 'o, 'w) lazy_runner =
  "'g \<Rightarrow> 'd \<Rightarrow> 'w \<Rightarrow> ('g, 'd, 'o) lazy_state \<Rightarrow> ('w \<times> ('g, 'd, 'o) lazy_state) exec"

type_synonym ('g, 'd, 'o, 'w) unref_runner =
  "'o \<Rightarrow> 'w \<Rightarrow> ('g, 'd, 'o) lazy_state \<Rightarrow> ('w \<times> ('g, 'd, 'o) lazy_state) exec"

text \<open>The two \<open>while(i--)\<close> loops.\<close>

fun lazy_call_loop ::
    "('g, 'd, 'o, 'w) lazy_runner \<Rightarrow> nat \<Rightarrow> 'w \<Rightarrow> ('g, 'd, 'o) lazy_state \<Rightarrow>
     ('w \<times> ('g, 'd, 'o) lazy_state) exec" where
  "lazy_call_loop R 0 w s = Inr (w, s)"
| "lazy_call_loop R (Suc i) w s =
     (case lazy_stack s i of
        None \<Rightarrow> Inl NullDeref
      | Some g \<Rightarrow> ebind (R g (lazy_stack_data s i) w s) (\<lambda>(w', s'). lazy_call_loop R i w' s'))"

fun lazy_cleanup_loop ::
    "('g, 'd, 'o, 'w) unref_runner \<Rightarrow> nat \<Rightarrow> 'w \<Rightarrow> ('g, 'd, 'o) lazy_state \<Rightarrow>
     ('w \<times> ('g, 'd, 'o) lazy_state) exec" where
  "lazy_cleanup_loop U 0 w s = Inr (w, s)"
| "lazy_cleanup_loop U (Suc i) w s =
     ebind (U (lazy_cleanup_objects s i) w s) (\<lambda>(w', s'). lazy_cleanup_loop U i w' s')"

definition lazy_call_step ::
    "('g, 'd, 'o, 'w) lazy_runner \<Rightarrow> ('g, 'd, 'o, 'w) unref_runner \<Rightarrow> 'w \<Rightarrow> ('g, 'd, 'o) lazy_state \<Rightarrow>
     (int \<times> 'w \<times> ('g, 'd, 'o) lazy_state) exec" where
  "lazy_call_step R U w s =
     ebind (lazy_call_loop R (lazy_stack_count s) w s) (\<lambda>(w1, s1).
     let s2 = s1\<lparr>lazy_stack_count := 0\<rparr>
     in ebind (lazy_cleanup_loop U (lazy_cleanup_count s2) w1 s2) (\<lambda>(w3, s3).
        Inr (0, w3, s3\<lparr>lazy_cleanup_count := 0\<rparr>)))"

text \<open>Both register the fiber, here named by \<open>step\<close>.\<close>

definition lazy_call_module_init :: "aroop \<Rightarrow> 'c \<Rightarrow> 'c fiber_table \<Rightarrow> 'c fiber_table exec" where
  "lazy_call_module_init A step t =
     ebind (register_fiber_full A step ''lazy_call.c'' 48 t) (\<lambda>(_, t'). Inr t')"

definition lazy_call_module_deinit :: "aroop \<Rightarrow> 'c \<Rightarrow> 'c fiber_table \<Rightarrow> 'c fiber_table exec" where
  "lazy_call_module_deinit A step t =
     ebind (register_fiber_full A step ''lazy_call.c'' 53 t) (\<lambda>(_, t'). Inr t')"

section \<open>Lemmas\<close>

text \<open>The calls that are pending, the most recent last.\<close>

definition pending :: "('g, 'd, 'o) lazy_state \<Rightarrow> ('g option \<times> 'd) list" where
  "pending s = map (\<lambda>i. (lazy_stack s i, lazy_stack_data s i)) [0..<lazy_stack_count s]"

definition pending_objects :: "('g, 'd, 'o) lazy_state \<Rightarrow> 'o list" where
  "pending_objects s = map (lazy_cleanup_objects s) [0..<lazy_cleanup_count s]"

lemma lazy_call_pending:
  assumes "lazy_call A g d s = Inr s'"
  shows "pending s' = pending s @ [(g, d)]" and "pending_objects s' = pending_objects s"
    and "lazy_stack_count s < NGINZ_LAZY_STACK_SIZE"
proof -
  have s': "lazy_stack_count s < NGINZ_LAZY_STACK_SIZE"
    "s' = s\<lparr>lazy_stack := (lazy_stack s)(lazy_stack_count s := g),
            lazy_stack_data := (lazy_stack_data s)(lazy_stack_count s := d),
            lazy_stack_count := lazy_stack_count s + 1\<rparr>"
    using assms by (auto simp: lazy_call_def ebind_Inr_iff split: if_splits)
  have "map (\<lambda>i. (lazy_stack s' i, lazy_stack_data s' i)) [0..<lazy_stack_count s] = pending s"
    unfolding pending_def by (rule map_cong) (auto simp: s'(2))
  then show "pending s' = pending s @ [(g, d)]" by (simp add: pending_def s'(2))
  show "pending_objects s' = pending_objects s" by (simp add: pending_objects_def s'(2))
  show "lazy_stack_count s < NGINZ_LAZY_STACK_SIZE" by (rule s'(1))
qed

text \<open>A deferred function that logs its call and defers the calls \<open>nested\<close> gives for it.\<close>

fun lazy_calls :: "aroop \<Rightarrow> ('g \<times> 'd) list \<Rightarrow> ('g, 'd, 'o) lazy_state \<Rightarrow> ('g, 'd, 'o) lazy_state exec" where
  "lazy_calls A [] s = Inr s"
| "lazy_calls A ((g, d) # xs) s = ebind (lazy_call A (Some g) d s) (lazy_calls A xs)"

definition deferring ::
    "aroop \<Rightarrow> ('g \<times> 'd \<Rightarrow> ('g \<times> 'd) list) \<Rightarrow> ('g, 'd, 'o, ('g \<times> 'd) list \<times> 'o list) lazy_runner" where
  "deferring A nested g d w s =
     ebind (lazy_calls A (nested (g, d)) s) (\<lambda>s'. Inr ((fst w @ [(g, d)], snd w), s'))"

definition releasing :: "('g, 'd, 'o, ('g \<times> 'd) list \<times> 'o list) unref_runner" where
  "releasing x w s = Inr ((fst w, snd w @ [x]), s)"

lemma lazy_calls_pending:
  assumes "lazy_calls A xs s = Inr s'"
  shows "pending s' = pending s @ map (\<lambda>(g, d). (Some g, d)) xs \<and> pending_objects s' = pending_objects s"
  using assms
proof (induction xs arbitrary: s)
  case (Cons x xs)
  obtain g d where x: "x = (g, d)" by fastforce
  obtain s1 where "lazy_call A (Some g) d s = Inr s1" "lazy_calls A xs s1 = Inr s'"
    using Cons.prems unfolding x lazy_calls.simps by (rule ebind_InrE)
  then show ?case using Cons.IH [of s1] lazy_call_pending [of A "Some g" d s s1] x by simp
qed simp

lemma pending_take:
  "i < length (pending s) \<Longrightarrow> pending s ! i = (lazy_stack s i, lazy_stack_data s i)"
  by (simp add: pending_def)

lemma lazy_loop_lifo:
  assumes "lazy_call_loop (deferring A nested) i w s = Inr (w', s')"
    and "i \<le> length (pending s)" and "take i (pending s) = map (\<lambda>(g, d). (Some g, d)) cs"
  shows "w' = (fst w @ rev cs, snd w) \<and> pending_objects s' = pending_objects s"
  using assms
proof (induction i arbitrary: w s cs)
  case 0
  then show ?case by simp
next
  case (Suc i)
  have len: "length cs = Suc i" using Suc.prems(2,3) by (metis length_map length_take min.absorb2)
  then obtain ds c where cs: "cs = ds @ [c]" "length ds = i" by (metis length_Suc_conv_rev)
  obtain g d where c: "c = (g, d)" by fastforce
  have t: "take i (pending s) = map (\<lambda>(g, d). (Some g, d)) ds" "pending s ! i = (Some g, d)"
    using Suc.prems(2,3) cs c by (simp_all add: take_Suc_conv_app_nth)
  then have st: "lazy_stack s i = Some g" "lazy_stack_data s i = d"
    using pending_take [of i s] Suc.prems(2) by simp_all
  obtain s1 where s1: "lazy_calls A (nested (g, d)) s = Inr s1"
      "lazy_call_loop (deferring A nested) i (fst w @ [(g, d)], snd w) s1 = Inr (w', s')"
    using Suc.prems(1) by (auto simp: st deferring_def [of A nested g d w s] ebind_Inr_iff)
  note p = lazy_calls_pending [OF s1(1)]
  have "take i (pending s1) = map (\<lambda>(g, d). (Some g, d)) ds" "i \<le> length (pending s1)"
    using p t(1) Suc.prems(2) by simp_all
  from Suc.IH [OF s1(2) this(2,1)] p show ?case by (simp add: cs c)
qed

lemma cleanup_loop_lifo:
  assumes "i \<le> lazy_cleanup_count s"
  shows "lazy_cleanup_loop releasing i w s = Inr ((fst w, snd w @ rev (take i (pending_objects s))), s)"
  using assms
proof (induction i arbitrary: w)
  case (Suc i)
  then have "pending_objects s ! i = lazy_cleanup_objects s i" "i < length (pending_objects s)"
    by (simp_all add: pending_objects_def)
  then show ?case using Suc by (simp add: releasing_def take_Suc_conv_app_nth)
qed simp

section \<open>Properties\<close>

text \<open>Deferred calls run when the fiber steps, the last deferred first, each once; then the
  objects handed in for release are released. A call that is deferred by a deferred function during the
  step is never run: the step empties the stack at its end.\<close>

theorem lazy_step_lifo:
  assumes "lazy_call_step (deferring A nested) releasing ([], []) s = Inr (ret, w, s')"
    and "pending s = map (\<lambda>(g, d). (Some g, d)) cs"
  shows "w = (rev cs, rev (pending_objects s)) \<and> pending s' = [] \<and> pending_objects s' = []"
proof -
  obtain w1 s1 where l: "lazy_call_loop (deferring A nested) (lazy_stack_count s) ([], []) s = Inr (w1, s1)"
      "(let s2 = s1\<lparr>lazy_stack_count := 0\<rparr>
        in ebind (lazy_cleanup_loop releasing (lazy_cleanup_count s2) w1 s2) (\<lambda>(w3, s3).
           Inr (0, w3, s3\<lparr>lazy_cleanup_count := 0\<rparr>))) = Inr (ret, w, s')"
    using assms(1) by (auto simp: lazy_call_step_def ebind_Inr_iff)
  have n: "lazy_stack_count s = length (pending s)" by (simp add: pending_def)
  have w1: "w1 = (rev cs, [])" "pending_objects s1 = pending_objects s"
    using lazy_loop_lifo [OF l(1)] assms(2) by (simp_all add: n)
  let ?s = "s1\<lparr>lazy_stack_count := 0\<rparr>"
  have o: "pending_objects ?s = pending_objects s1" "length (pending_objects ?s) = lazy_cleanup_count ?s"
    by (simp_all add: pending_objects_def)
  have "lazy_cleanup_loop releasing (lazy_cleanup_count ?s) w1 ?s = Inr ((rev cs, rev (pending_objects s)), ?s)"
    using cleanup_loop_lifo [of "lazy_cleanup_count ?s" ?s w1] o w1 by simp
  then show ?thesis using l(2) by (auto simp: Let_def pending_def pending_objects_def)
qed

definition lazy_empty :: "(nat, nat, nat option) lazy_state" where
  "lazy_empty = \<lparr>lazy_stack_count = 0, lazy_stack = (\<lambda>_. None), lazy_stack_data = (\<lambda>_. 0),
     lazy_cleanup_count = 0, lazy_cleanup_objects = (\<lambda>_. None)\<rparr>"

lemma lazy_step_lifo_witness:
  "\<exists>s s' ret. lazy_calls ref_aroop [(1, 10), (2, 20)] lazy_empty = Inr s \<and>
     lazy_call_step (deferring ref_aroop (\<lambda>_. [(3, 30)])) releasing ([], []) s = Inr (ret, ([(2, 20), (1, 10)], []), s') \<and>
     pending s' = []"
proof -
  obtain s where s: "lazy_calls ref_aroop [(1, 10), (2, 20)] lazy_empty = Inr s"
    by (simp add: lazy_call_def lazy_empty_def NGINZ_LAZY_STACK_SIZE_def)
  have "\<not> (case ebind (lazy_calls ref_aroop [(1, 10), (2, 20)] lazy_empty)
      (lazy_call_step (deferring ref_aroop (\<lambda>_. [(3, 30)])) releasing ([], [])) of Inl _ \<Rightarrow> True | Inr _ \<Rightarrow> False)"
    by code_simp
  then obtain ret w s' where r: "lazy_call_step (deferring ref_aroop (\<lambda>_. [(3, 30)])) releasing ([], []) s = Inr (ret, w, s')"
    using s by (auto split: sum.splits)
  have p: "pending s = map (\<lambda>(g, d). (Some g, d)) [(1, 10), (2, 20)]" "pending_objects s = []"
    using lazy_calls_pending [OF s] by (simp_all add: pending_def pending_objects_def lazy_empty_def)
  show ?thesis using lazy_step_lifo [OF r p(1)] p(2) s r by auto
qed

text \<open>Shutting the module down registers its fiber a second time instead of removing it: after
  start and shutdown the fiber runs twice in every rotation.\<close>

theorem deinit_registers_again:
  assumes "i < MAX_FIBERS" and "j < MAX_FIBERS" and "i \<noteq> j" and "free_slot t i" and "free_slot t j"
  shows "\<exists>t1 t2 k l. lazy_call_module_init A step t = Inr t1 \<and> lazy_call_module_deinit A step t1 = Inr t2 \<and>
    k \<noteq> l \<and> fiber (fibers t2 k) = Some step \<and> runnable (fibers t2 k) \<and>
    fiber (fibers t2 l) = Some step \<and> runnable (fibers t2 l)"
proof -
  obtain k t1 where k: "free_slot t k" "register_fiber_full A step ''lazy_call.c'' 48 t = Inr (0, t1)"
      "fibers t1 = (fibers t)(k := \<lparr>status = FIBER_STATUS_CREATED, fiber = Some step, filename = ''lazy_call.c'', lineno = 48\<rparr>)"
    using register_free [of i t A step] assms by blast
  have "\<exists>l<MAX_FIBERS. free_slot t1 l" using assms k(3) by (metis free_slot_def fun_upd_other)
  then obtain l t2 where l: "free_slot t1 l" "register_fiber_full A step ''lazy_call.c'' 53 t1 = Inr (0, t2)"
      "fibers t2 = (fibers t1)(l := \<lparr>status = FIBER_STATUS_CREATED, fiber = Some step, filename = ''lazy_call.c'', lineno = 53\<rparr>)"
    using register_free [of _ t1 A step] by blast
  have "k \<noteq> l" using k(3) l(1) by (auto simp: free_slot_def)
  then show ?thesis
    using k l by (intro exI [of _ t1] exI [of _ t2] exI [of _ k] exI [of _ l])
      (simp add: lazy_call_module_init_def lazy_call_module_deinit_def runnable_def)
qed

lemma deinit_registers_again_witness:
  "\<exists>t1 t2 k l. lazy_call_module_init ref_aroop 5 three_fibers = Inr t1 \<and>
    lazy_call_module_deinit ref_aroop 5 t1 = Inr t2 \<and>
    k \<noteq> l \<and> fiber (fibers t2 k) = Some 5 \<and> runnable (fibers t2 k) \<and>
    fiber (fibers t2 l) = Some 5 \<and> runnable (fibers t2 l)"
  by (rule deinit_registers_again [of 3 4]) (simp_all add: three_fibers_def free_slot_def MAX_FIBERS_def)

end
