(* ===== verification/Plugin.thy ===== *)
theory Plugin
  imports Aroop
begin

text \<open>
  The plugin registry, \<open>base/src/plugin.c\<close>: plugins are heap objects chained through their
  \<open>next\<close> pointers, the head of each chain in a hash table under the plugin space. The heap of a
  container is the list of its objects, an address being an index into it; allocation appends.
  Callbacks and bridges are function pointers, run by the parameters \<open>R\<close> and \<open>B\<close>; they are taken
  not to plug into the container while a call runs. Return values are ORed as \<open>32 word\<close>s.
\<close>

section \<open>Code\<close>

datatype plugin_category = CALLBACK_PLUGIN | COMPOSITE_PLUGIN | BRIDGE_PLUGIN | INVALID_PLUGIN

record ('f, 'e) internal_plugin =
  category :: plugin_category
  plugin_space :: aroop_txt_t
  payload :: "'f option"
  plugin_desc_cb :: 'e
  plugin_filename :: string
  plugin_lineno :: nat
  next_plugin :: "nat option"

record ('f, 'e, 'h) composite_plugin =
  objects :: "('f, 'e) internal_plugin list"
  ptable :: 'h

text \<open>\<open>while(root->next != NULL) root = root->next\<close>; more steps than objects mean a cycle.\<close>

fun last_in_chain :: "('f, 'e) internal_plugin list \<Rightarrow> nat \<Rightarrow> nat \<Rightarrow> nat exec" where
  "last_in_chain hp 0 root = Inl Diverges"
| "last_in_chain hp (Suc fuel) root =
     (if root < length hp then
        (case next_plugin (hp ! root) of
           None \<Rightarrow> Inr root
         | Some n \<Rightarrow> last_in_chain hp fuel n)
      else Inl OutOfBounds)"

definition plugin_kind ::
    "aroop \<Rightarrow> 'f option \<Rightarrow> 'f option \<Rightarrow> 'f option \<Rightarrow> (plugin_category \<times> 'f option) exec" where
  "plugin_kind A callback bridge inner =
     (if callback \<noteq> None then Inr (CALLBACK_PLUGIN, callback)
      else if bridge \<noteq> None then Inr (BRIDGE_PLUGIN, bridge)
      else if inner \<noteq> None then Inr (COMPOSITE_PLUGIN, inner)
      else ebind (aroop_assert A False) (\<lambda>_. Inr (CALLBACK_PLUGIN, None)))"

definition composite_plug_helper ::
    "aroop \<Rightarrow> ('h, nat) table_api \<Rightarrow> ('f, 'e, 'h) composite_plugin \<Rightarrow> aroop_txt_t \<Rightarrow> 'f option \<Rightarrow> 'f option \<Rightarrow>
     'f option \<Rightarrow> 'e \<Rightarrow> string \<Rightarrow> nat \<Rightarrow> (int \<times> ('f, 'e, 'h) composite_plugin) exec" where
  "composite_plug_helper A T container space callback bridge inner d file line =
     ebind (plugin_kind A callback bridge inner) (\<lambda>(cat, p).
     let addr = length (objects container);
         key = aroop_txt_zero_terminate A (aroop_txt_copy_deep A space);
         plugin = \<lparr>category = cat, plugin_space = key, payload = p, plugin_desc_cb = d,
                   plugin_filename = file, plugin_lineno = line, next_plugin = None\<rparr>;
         hp = objects container @ [plugin]
     in case opp_hash_table_get T (ptable container) key of
          Some root \<Rightarrow>
            ebind (last_in_chain hp (length hp) root) (\<lambda>l.
            Inr (0, container\<lparr>objects := hp[l := (hp ! l)\<lparr>next_plugin := Some addr\<rparr>]\<rparr>))
        | None \<Rightarrow>
            Inr (0, container\<lparr>objects := hp, ptable := opp_hash_table_set T (ptable container) key (Some addr)\<rparr>))"

definition composite_plug_callback ::
    "aroop \<Rightarrow> ('h, nat) table_api \<Rightarrow> ('f, 'e, 'h) composite_plugin \<Rightarrow> aroop_txt_t \<Rightarrow> 'f option \<Rightarrow> 'e \<Rightarrow> string \<Rightarrow>
     nat \<Rightarrow> (int \<times> ('f, 'e, 'h) composite_plugin) exec" where
  "composite_plug_callback A T container space callback d file line =
     composite_plug_helper A T container space callback None None d file line"

definition composite_unplug_callback ::
    "('f, 'e, 'h) composite_plugin \<Rightarrow> int \<Rightarrow> 'f option \<Rightarrow> int \<times> ('f, 'e, 'h) composite_plugin" where
  "composite_unplug_callback container plugin_id callback = (0, container)"

definition composite_plug_bridge ::
    "aroop \<Rightarrow> ('h, nat) table_api \<Rightarrow> ('f, 'e, 'h) composite_plugin \<Rightarrow> aroop_txt_t \<Rightarrow> 'f option \<Rightarrow> 'e \<Rightarrow> string \<Rightarrow>
     nat \<Rightarrow> (int \<times> ('f, 'e, 'h) composite_plugin) exec" where
  "composite_plug_bridge A T container space bridge d file line =
     composite_plug_helper A T container space None bridge None d file line"

definition composite_unplug_bridge ::
    "('f, 'e, 'h) composite_plugin \<Rightarrow> int \<Rightarrow> 'f option \<Rightarrow> int \<times> ('f, 'e, 'h) composite_plugin" where
  "composite_unplug_bridge container plugin_id bridge = (0, container)"

definition composite_plug_inner_composite ::
    "aroop \<Rightarrow> ('h, nat) table_api \<Rightarrow> ('f, 'e, 'h) composite_plugin \<Rightarrow> aroop_txt_t \<Rightarrow> 'f option \<Rightarrow> 'e \<Rightarrow> string \<Rightarrow>
     nat \<Rightarrow> (int \<times> ('f, 'e, 'h) composite_plugin) exec" where
  "composite_plug_inner_composite A T container space inner d file line =
     composite_plug_helper A T container space None None inner d file line"

definition composite_unplug_inner_composite ::
    "('f, 'e, 'h) composite_plugin \<Rightarrow> int \<Rightarrow> 'f option \<Rightarrow> int \<times> ('f, 'e, 'h) composite_plugin" where
  "composite_unplug_inner_composite container plugin_id inner = (0, container)"

text \<open>The header's macro for inner composites expands to \<open>composite_plug_bridge\<close>.\<close>

definition cplug_inner ::
    "aroop \<Rightarrow> ('h, nat) table_api \<Rightarrow> ('f, 'e, 'h) composite_plugin \<Rightarrow> aroop_txt_t \<Rightarrow> 'f option \<Rightarrow> 'e \<Rightarrow> string \<Rightarrow>
     nat \<Rightarrow> (int \<times> ('f, 'e, 'h) composite_plugin) exec" where
  "cplug_inner A T container space inner d file line =
     composite_plug_bridge A T container space inner d file line"

type_synonym ('f, 'w) callback_runner =
  "'f \<Rightarrow> aroop_txt_t \<Rightarrow> aroop_txt_t \<Rightarrow> 'w \<Rightarrow> (32 word \<times> aroop_txt_t \<times> 'w) exec"

type_synonym ('f, 'd, 'w) bridge_runner = "'f \<Rightarrow> int \<Rightarrow> 'd \<Rightarrow> 'w \<Rightarrow> (32 word \<times> 'w) exec"

fun plugin_call_loop ::
    "aroop \<Rightarrow> ('f, 'w) callback_runner \<Rightarrow> ('f, 'e) internal_plugin list \<Rightarrow> nat \<Rightarrow> nat option \<Rightarrow> aroop_txt_t \<Rightarrow>
     aroop_txt_t \<Rightarrow> 32 word \<Rightarrow> 'w \<Rightarrow> (32 word \<times> aroop_txt_t \<times> 'w) exec" where
  "plugin_call_loop A R hp fuel None input output ret w = Inr (ret, output, w)"
| "plugin_call_loop A R hp 0 (Some a) input output ret w = Inl Diverges"
| "plugin_call_loop A R hp (Suc fuel) (Some a) input output ret w =
     (if a < length hp then
        ebind (aroop_assert A (category (hp ! a) = CALLBACK_PLUGIN)) (\<lambda>_.
        (case payload (hp ! a) of
           None \<Rightarrow> Inl NullDeref
         | Some f \<Rightarrow>
             ebind (R f input output w) (\<lambda>(r, output', w').
             plugin_call_loop A R hp fuel (next_plugin (hp ! a)) input output' (ret OR r) w')))
      else Inl OutOfBounds)"

definition composite_plugin_call ::
    "aroop \<Rightarrow> ('h, nat) table_api \<Rightarrow> ('f, 'w) callback_runner \<Rightarrow> ('f, 'e, 'h) composite_plugin \<Rightarrow> aroop_txt_t \<Rightarrow>
     aroop_txt_t \<Rightarrow> aroop_txt_t \<Rightarrow> 'w \<Rightarrow> (32 word \<times> aroop_txt_t \<times> 'w) exec" where
  "composite_plugin_call A T R container space input output w =
     plugin_call_loop A R (objects container) (length (objects container))
       (opp_hash_table_get T (ptable container) space) input output 0 w"

fun plugin_bridge_loop ::
    "aroop \<Rightarrow> ('f, 'd, 'w) bridge_runner \<Rightarrow> ('f, 'e) internal_plugin list \<Rightarrow> nat \<Rightarrow> nat option \<Rightarrow> int \<Rightarrow> 'd \<Rightarrow>
     32 word \<Rightarrow> 'w \<Rightarrow> (32 word \<times> 'w) exec" where
  "plugin_bridge_loop A B hp fuel None signature d ret w = Inr (ret, w)"
| "plugin_bridge_loop A B hp 0 (Some a) signature d ret w = Inl Diverges"
| "plugin_bridge_loop A B hp (Suc fuel) (Some a) signature d ret w =
     (if a < length hp then
        ebind (aroop_assert A (category (hp ! a) = BRIDGE_PLUGIN)) (\<lambda>_.
        (case payload (hp ! a) of
           None \<Rightarrow> Inl NullDeref
         | Some f \<Rightarrow>
             ebind (B f signature d w) (\<lambda>(r, w').
             plugin_bridge_loop A B hp fuel (next_plugin (hp ! a)) signature d (ret OR r) w')))
      else Inl OutOfBounds)"

definition composite_plugin_bridge_call ::
    "aroop \<Rightarrow> ('h, nat) table_api \<Rightarrow> ('f, 'd, 'w) bridge_runner \<Rightarrow> ('f, 'e, 'h) composite_plugin \<Rightarrow> aroop_txt_t \<Rightarrow>
     int \<Rightarrow> 'd \<Rightarrow> 'w \<Rightarrow> (32 word \<times> 'w) exec" where
  "composite_plugin_bridge_call A T B container space signature d w =
     plugin_bridge_loop A B (objects container) (length (objects container))
       (opp_hash_table_get T (ptable container) space) signature d 0 w"

type_synonym ('f, 'e, 'v) plugin_visitor = "('f, 'e) internal_plugin \<Rightarrow> 'v \<Rightarrow> 'v exec"

text \<open>The visitor receives the fields of the plugin; its state is the code's \<open>visitor_data\<close>.\<close>

fun visit_all_helper ::
    "('f, 'e, 'v) plugin_visitor \<Rightarrow> ('f, 'e) internal_plugin list \<Rightarrow> nat \<Rightarrow> nat \<Rightarrow> 'v \<Rightarrow> 'v exec" where
  "visit_all_helper V hp 0 a v = Inl Diverges"
| "visit_all_helper V hp (Suc fuel) a v =
     (if a < length hp then
        ebind (V (hp ! a) v) (\<lambda>v'.
        (case next_plugin (hp ! a) of
           None \<Rightarrow> Inr v'
         | Some n \<Rightarrow> visit_all_helper V hp fuel n v'))
      else Inl OutOfBounds)"

fun visit_chains ::
    "('f, 'e, 'v) plugin_visitor \<Rightarrow> ('f, 'e) internal_plugin list \<Rightarrow> nat list \<Rightarrow> 'v \<Rightarrow> 'v exec" where
  "visit_chains V hp [] v = Inr v"
| "visit_chains V hp (root # roots) v =
     ebind (visit_all_helper V hp (length hp) root v) (visit_chains V hp roots)"

definition composite_plugin_visit_all ::
    "('h, nat) table_api \<Rightarrow> ('f, 'e, 'v) plugin_visitor \<Rightarrow> ('f, 'e, 'h) composite_plugin \<Rightarrow> 'v \<Rightarrow> 'v exec" where
  "composite_plugin_visit_all T V container v =
     visit_chains V (objects container) (map snd (opp_hash_table_traverse T (ptable container))) v"

definition composite_plugin_create :: "('h, nat) table_api \<Rightarrow> ('f, 'e, 'h) composite_plugin" where
  "composite_plugin_create T = \<lparr>objects = [], ptable = opp_hash_table_create T\<rparr>"

definition plugin_desc ::
    "aroop \<Rightarrow> bytes \<Rightarrow> bytes \<Rightarrow> aroop_txt_t \<Rightarrow> bytes \<Rightarrow> bytes \<Rightarrow> aroop_txt_t" where
  "plugin_desc A plugin_name plugin_type space source_file d =
     (let o0 = aroop_txt_buffer A 128;
          o1 = aroop_txt_concat_string A o0 plugin_name;
          o2 = aroop_txt_concat_char A o1 9;
          o3 = aroop_txt_concat_string A o2 plugin_type;
          o4 = aroop_txt_concat_char A o3 9;
          o5 = aroop_txt_concat A o4 space;
          o6 = aroop_txt_concat_char A o5 9;
          o7 = aroop_txt_concat_string A o6 source_file;
          o8 = aroop_txt_concat_char A o7 10;
          o9 = aroop_txt_concat_char A o8 9;
          o10 = aroop_txt_concat_char A o9 9
      in aroop_txt_concat_string A o10 d)"

section \<open>Specification: a list of plugins per space\<close>

type_synonym ('f, 'e) registered = "plugin_category \<times> 'f option \<times> 'e"

definition reg_of :: "('f, 'e) internal_plugin \<Rightarrow> ('f, 'e) registered" where
  "reg_of p = (category p, payload p, plugin_desc_cb p)"

fun chain_addrs :: "('f, 'e) internal_plugin list \<Rightarrow> nat \<Rightarrow> nat option \<Rightarrow> nat list" where
  "chain_addrs hp fuel None = []"
| "chain_addrs hp 0 (Some a) = []"
| "chain_addrs hp (Suc fuel) (Some a) = a # chain_addrs hp fuel (next_plugin (hp ! a))"

definition addrs :: "('h, nat) table_api \<Rightarrow> ('f, 'e, 'h) composite_plugin \<Rightarrow> bytes \<Rightarrow> nat list" where
  "addrs T c k = chain_addrs (objects c) (length (objects c)) (table_map T (ptable c) k)"

definition plugins_at ::
    "('h, nat) table_api \<Rightarrow> ('f, 'e, 'h) composite_plugin \<Rightarrow> bytes \<Rightarrow> ('f, 'e) registered list" where
  "plugins_at T c k = map (\<lambda>a. reg_of (objects c ! a)) (addrs T c k)"

fun path :: "('f, 'e) internal_plugin list \<Rightarrow> nat option \<Rightarrow> nat list \<Rightarrow> bool" where
  "path hp p [] \<longleftrightarrow> p = None"
| "path hp p (a # as) \<longleftrightarrow> p = Some a \<and> a < length hp \<and> path hp (next_plugin (hp ! a)) as"

text \<open>Every chain is finite, visits an object once, and holds plugins of its own space only.\<close>

definition plugins_wf :: "('h, nat) table_api \<Rightarrow> ('f, 'e, 'h) composite_plugin \<Rightarrow> bool" where
  "plugins_wf T c \<longleftrightarrow> (\<forall>k. \<exists>as. path (objects c) (table_map T (ptable c) k) as \<and> distinct as \<and>
     (\<forall>a \<in> set as. wf_txt (plugin_space (objects c ! a)) \<and> str (plugin_space (objects c ! a)) = k))"

text \<open>Running the callbacks of a list: the first entry that is no callback stops the process.\<close>

fun run_callbacks ::
    "aroop \<Rightarrow> ('f, 'w) callback_runner \<Rightarrow> ('f, 'e) registered list \<Rightarrow> aroop_txt_t \<Rightarrow> aroop_txt_t \<Rightarrow> 32 word \<Rightarrow>
     'w \<Rightarrow> (32 word \<times> aroop_txt_t \<times> 'w) exec" where
  "run_callbacks A R [] input output ret w = Inr (ret, output, w)"
| "run_callbacks A R ((cat, p, d) # ps) input output ret w =
     ebind (aroop_assert A (cat = CALLBACK_PLUGIN)) (\<lambda>_.
     (case p of None \<Rightarrow> Inl NullDeref
      | Some f \<Rightarrow> ebind (R f input output w) (\<lambda>(r, output', w').
                  run_callbacks A R ps input output' (ret OR r) w')))"

fun run_bridges ::
    "aroop \<Rightarrow> ('f, 'd, 'w) bridge_runner \<Rightarrow> ('f, 'e) registered list \<Rightarrow> int \<Rightarrow> 'd \<Rightarrow> 32 word \<Rightarrow> 'w \<Rightarrow>
     (32 word \<times> 'w) exec" where
  "run_bridges A B [] signature d ret w = Inr (ret, w)"
| "run_bridges A B ((cat, p, e) # ps) signature d ret w =
     ebind (aroop_assert A (cat = BRIDGE_PLUGIN)) (\<lambda>_.
     (case p of None \<Rightarrow> Inl NullDeref
      | Some f \<Rightarrow> ebind (B f signature d w) (\<lambda>(r, w'). run_bridges A B ps signature d (ret OR r) w')))"

section \<open>Lemmas\<close>

lemma path_length: "path hp p as \<Longrightarrow> distinct as \<Longrightarrow> length as \<le> length hp"
proof -
  assume p: "path hp p as" and d: "distinct as"
  have "set as \<subseteq> {..<length hp}" using p by (induction as arbitrary: p) auto
  then have "card (set as) \<le> length hp" using card_mono [of "{..<length hp}"] by simp
  then show ?thesis using d distinct_card by metis
qed

lemma path_addrs: "path hp p as \<Longrightarrow> length as \<le> n \<Longrightarrow> chain_addrs hp n p = as"
proof (induction as arbitrary: p n)
  case (Cons a as)
  then show ?case by (cases n) auto
qed simp

lemma path_bound: "path hp p as \<Longrightarrow> a \<in> set as \<Longrightarrow> a < length hp"
  by (induction as arbitrary: p) auto

lemma path_append_heap: "path hp p as \<Longrightarrow> path (hp @ qs) p as"
  by (induction as arbitrary: p) (auto simp: nth_append)

lemma path_update: "path hp p as \<Longrightarrow> l \<notin> set as \<Longrightarrow> path (hp[l := q]) p as"
  by (induction as arbitrary: p) auto

lemma path_extend:
  assumes "path hp p (as @ [l])" and "n < length hp" and "next_plugin (hp ! n) = None" and "n \<notin> set (as @ [l])"
    and "l \<notin> set as"
  shows "path (hp[l := (hp ! l)\<lparr>next_plugin := Some n\<rparr>]) p (as @ [l, n])"
  using assms by (induction as arbitrary: p) auto

lemma last_in_chain_path:
  assumes "path hp (Some a) (as @ [l])" and "length as < n"
  shows "last_in_chain hp n a = Inr l"
  using assms
proof (induction as arbitrary: a n)
  case Nil
  then show ?case by (cases n) auto
next
  case (Cons b as)
  then obtain m where n: "n = Suc m" "length as < m" by (cases n) auto
  obtain c where "next_plugin (hp ! a) = Some c"
    using Cons.prems(1) by (cases as; cases "next_plugin (hp ! a)") auto
  then show ?case using Cons n by auto
qed

lemma wf_addrs:
  assumes "plugins_wf T c"
  shows "path (objects c) (table_map T (ptable c) k) (addrs T c k)" and "distinct (addrs T c k)"
    and "\<forall>a \<in> set (addrs T c k). str (plugin_space (objects c ! a)) = k"
    and "\<forall>a \<in> set (addrs T c k). wf_txt (plugin_space (objects c ! a))"
proof -
  obtain as where as: "path (objects c) (table_map T (ptable c) k) as" "distinct as"
    "\<forall>a \<in> set as. wf_txt (plugin_space (objects c ! a)) \<and> str (plugin_space (objects c ! a)) = k"
    using assms by (auto simp: plugins_wf_def)
  moreover have "addrs T c k = as"
    using path_addrs [OF as(1) path_length [OF as(1,2)]] by (simp add: addrs_def)
  ultimately show "path (objects c) (table_map T (ptable c) k) (addrs T c k)" "distinct (addrs T c k)"
    "\<forall>a \<in> set (addrs T c k). str (plugin_space (objects c ! a)) = k"
    "\<forall>a \<in> set (addrs T c k). wf_txt (plugin_space (objects c ! a))" by simp_all
qed

lemma wf_intro:
  assumes "\<And>k. path (objects c) (table_map T (ptable c) k) (P k)" and "\<And>k. distinct (P k)"
    and "\<And>k a. a \<in> set (P k) \<Longrightarrow> wf_txt (plugin_space (objects c ! a)) \<and> str (plugin_space (objects c ! a)) = k"
  shows "plugins_wf T c \<and> addrs T c = P"
proof
  show "plugins_wf T c" using assms unfolding plugins_wf_def by blast
  show "addrs T c = P"
    by (rule ext) (simp add: addrs_def path_addrs [OF assms(1) path_length [OF assms(1,2)]])
qed

lemma call_loop_path:
  assumes "path hp p as" and "length as \<le> n"
  shows "plugin_call_loop A R hp n p input out ret w =
    run_callbacks A R (map (\<lambda>a. reg_of (hp ! a)) as) input out ret w"
  using assms
proof (induction as arbitrary: p n out ret w)
  case (Cons a as)
  then obtain m where n: "n = Suc m" "length as \<le> m" by (cases n) auto
  have "plugin_call_loop A R hp m (next_plugin (hp ! a)) input out r v =
      run_callbacks A R (map (\<lambda>a. reg_of (hp ! a)) as) input out r v" for out r v
    using Cons n by auto
  then show ?case
    using Cons.prems n by (auto simp: reg_of_def intro!: ebind_cong split: option.split)
qed simp

lemma bridge_loop_path:
  assumes "path hp p as" and "length as \<le> n"
  shows "plugin_bridge_loop A B hp n p signature d ret w =
    run_bridges A B (map (\<lambda>a. reg_of (hp ! a)) as) signature d ret w"
  using assms
proof (induction as arbitrary: p n ret w)
  case (Cons a as)
  then obtain m where n: "n = Suc m" "length as \<le> m" by (cases n) auto
  have "plugin_bridge_loop A B hp m (next_plugin (hp ! a)) signature d r v =
      run_bridges A B (map (\<lambda>a. reg_of (hp ! a)) as) signature d r v" for r v
    using Cons n by auto
  then show ?case
    using Cons.prems n by (auto simp: reg_of_def intro!: ebind_cong split: option.split)
qed simp

text \<open>The two branches of \<open>composite_plug_helper\<close>: \<open>q\<close> is the new object.\<close>

lemma plug_new_space:
  assumes "table_ok T" "plugins_wf T c" "str key = k" "table_map T (ptable c) k = None" "next_plugin q = None"
    and c': "c' = c\<lparr>objects := objects c @ [q], ptable := opp_hash_table_set T (ptable c) key (Some (length (objects c)))\<rparr>"
  shows "path (objects c') (table_map T (ptable c') k') (((addrs T c)(k := addrs T c k @ [length (objects c)])) k')"
proof -
  have m: "table_map T (ptable c') = (table_map T (ptable c))(k := Some (length (objects c)))"
    using table_map_set [OF assms(1)] assms(3) by (simp add: c')
  have e: "addrs T c k = []" using assms(4) by (simp add: addrs_def)
  have obj: "objects c' = objects c @ [q]" by (simp add: c')
  show ?thesis
    using path_append_heap [OF wf_addrs(1) [OF assms(2)]] assms(5)
    unfolding m obj by (cases "k' = k") (simp_all add: e)
qed

lemma plug_same_space:
  assumes "plugins_wf T c" "table_map T (ptable c) k = Some root" "next_plugin q = None"
    and hp: "hp = objects c @ [q]"
  shows "\<exists>l < length (objects c). last_in_chain hp (length hp) root = Inr l \<and>
    (\<forall>k'. path (hp[l := (hp ! l)\<lparr>next_plugin := Some (length (objects c))\<rparr>]) (table_map T (ptable c) k')
       (((addrs T c)(k := addrs T c k @ [length (objects c)])) k'))"
proof -
  let ?n = "length (objects c)" and ?as = "addrs T c k"
  note as = wf_addrs [OF assms(1), of k]
  have "?as \<noteq> []" using as(1) assms(2) by (cases ?as) auto
  then obtain as' l where l: "?as = as' @ [l]" by (metis rev_exhaust)
  have fresh: "?n \<notin> set ?as" using path_bound [OF as(1)] by blast
  have ln: "l < ?n" using path_bound [OF as(1)] l by simp
  have pth: "path hp (Some root) (as' @ [l])" using path_append_heap [OF as(1)] l assms(2) by (simp add: hp)
  have "length as' < length hp" using path_length [OF as(1,2)] l by (simp add: hp)
  then have last: "last_in_chain hp (length hp) root = Inr l" by (intro last_in_chain_path [OF pth])
  let ?hp = "hp[l := (hp ! l)\<lparr>next_plugin := Some ?n\<rparr>]"
  have "path ?hp (Some root) (as' @ [l, ?n])"
    using path_extend [OF pth, of ?n] fresh l as(2) ln assms(3) by (simp add: hp)
  moreover have "path ?hp (table_map T (ptable c) k') (addrs T c k')" if "k' \<noteq> k" for k'
  proof -
    have "l \<notin> set (addrs T c k')" using that wf_addrs(3) [OF assms(1), of k'] as(3) l by auto
    then show ?thesis using path_update [OF path_append_heap [OF wf_addrs(1) [OF assms(1)]]] by (simp add: hp)
  qed
  ultimately show ?thesis using ln last assms(2) l by (intro exI [of _ l]) simp
qed

lemma plug_wf:
  assumes A: "aroop_ok A" and T: "table_ok T" and c: "plugins_wf T c" and k: "wf_txt space"
    and kind: "plugin_kind A callback bridge inner = Inr (cat, p)"
  shows "\<exists>c'. composite_plug_helper A T c space callback bridge inner d file line = Inr (0, c') \<and>
    plugins_wf T c' \<and> plugins_at T c' = (plugins_at T c)(str space := plugins_at T c (str space) @ [(cat, p, d)])"
proof -
  let ?key = "aroop_txt_zero_terminate A (aroop_txt_copy_deep A space)" and ?k = "str space"
  let ?n = "length (objects c)"
  let ?q = "\<lparr>category = cat, plugin_space = ?key, payload = p, plugin_desc_cb = d,
    plugin_filename = file, plugin_lineno = line, next_plugin = None\<rparr>"
  let ?P = "(addrs T c)(?k := addrs T c ?k @ [?n])"
  have key: "str ?key = ?k" "wf_txt ?key"
    using k copy_deep_laws [OF A k] zero_terminate_laws [OF A copy_deep_laws(1) [OF A k]] by simp_all
  note get = table_get_map [OF T, of "ptable c" ?key, unfolded key(1)]
  have "\<exists>c'. composite_plug_helper A T c space callback bridge inner d file line = Inr (0, c') \<and>
    (\<forall>k'. path (objects c') (table_map T (ptable c') k') (?P k')) \<and>
    (\<forall>a<?n. reg_of (objects c' ! a) = reg_of (objects c ! a) \<and> plugin_space (objects c' ! a) = plugin_space (objects c ! a)) \<and>
    objects c' ! ?n = ?q"
  proof (cases "table_map T (ptable c) ?k")
    case None
    then show ?thesis
      using plug_new_space [OF T c key(1) None, of ?q] get
      by (simp add: composite_plug_helper_def kind Let_def nth_append)
  next
    case (Some root)
    let ?hp = "objects c @ [?q]"
    obtain l where l: "l < ?n" "last_in_chain ?hp (length ?hp) root = Inr l"
      "\<forall>k'. path (?hp[l := (?hp ! l)\<lparr>next_plugin := Some ?n\<rparr>]) (table_map T (ptable c) k') (?P k')"
      using plug_same_space [OF c Some, of ?q ?hp] by auto
    let ?c = "c\<lparr>objects := ?hp[l := (?hp ! l)\<lparr>next_plugin := Some ?n\<rparr>]\<rparr>"
    have "composite_plug_helper A T c space callback bridge inner d file line = Inr (0, ?c)"
      using get Some l(2) by (simp add: composite_plug_helper_def kind Let_def)
    moreover have "reg_of (objects ?c ! a) = reg_of (objects c ! a) \<and>
        plugin_space (objects ?c ! a) = plugin_space (objects c ! a)" if "a < ?n" for a
      using that by (cases "a = l") (simp_all add: nth_append reg_of_def)
    moreover have "objects ?c ! ?n = ?q" using l(1) by simp
    ultimately show ?thesis using l(3) by (intro exI [of _ ?c]) simp
  qed
  then obtain c' where c': "composite_plug_helper A T c space callback bridge inner d file line = Inr (0, c')"
    "\<And>k'. path (objects c') (table_map T (ptable c') k') (?P k')"
    "\<And>a. a < ?n \<Longrightarrow> reg_of (objects c' ! a) = reg_of (objects c ! a)"
    "\<And>a. a < ?n \<Longrightarrow> plugin_space (objects c' ! a) = plugin_space (objects c ! a)" "objects c' ! ?n = ?q" by blast
  have b: "a < ?n" if "a \<in> set (addrs T c k')" for a k' using path_bound [OF wf_addrs(1) [OF c]] that .
  have "plugins_wf T c' \<and> addrs T c' = ?P"
  proof (rule wf_intro)
    show "path (objects c') (table_map T (ptable c') k') (?P k')" for k' by (rule c'(2))
    show "distinct (?P k')" for k' using wf_addrs(2) [OF c, of k'] b by auto
    show "wf_txt (plugin_space (objects c' ! a)) \<and> str (plugin_space (objects c' ! a)) = k'" if "a \<in> set (?P k')" for k' a
    proof (cases "a = ?n")
      case True
      then have "k' = ?k" using that b [of a k'] by (auto split: if_splits)
      then show ?thesis using True c'(5) key by simp
    next
      case False
      then have "a \<in> set (addrs T c k')" using that by (auto split: if_splits)
      then show ?thesis using c'(4) [OF b] wf_addrs(3,4) [OF c, of k'] by simp
    qed
  qed
  moreover from this have "plugins_at T c' = (plugins_at T c)(?k := plugins_at T c ?k @ [(cat, p, d)])"
    using c'(3,5) b by (intro ext) (auto simp: plugins_at_def reg_of_def)
  ultimately show ?thesis using c'(1) by blast
qed

lemma plugin_kind_cases:
  "plugin_kind A (Some f) b i = Inr (CALLBACK_PLUGIN, Some f)"
  "plugin_kind A None (Some f) i = Inr (BRIDGE_PLUGIN, Some f)"
  "plugin_kind A None None (Some f) = Inr (COMPOSITE_PLUGIN, Some f)"
  by (simp_all add: plugin_kind_def)

lemma create_wf:
  assumes "table_ok T" and c: "c = composite_plugin_create T"
  shows "plugins_wf T c \<and> plugins_at T c = (\<lambda>_. [])"
proof -
  have "plugins_wf T c \<and> addrs T c = (\<lambda>_. [])"
    by (rule wf_intro) (simp_all add: assms composite_plugin_create_def)
  then show ?thesis by (simp add: plugins_at_def fun_eq_iff)
qed

lemma call_runs:
  assumes "table_ok T" and "plugins_wf T c"
  shows "composite_plugin_call A T R c space input out w =
    run_callbacks A R (plugins_at T c (str space)) input out 0 w"
  using call_loop_path [OF wf_addrs(1) [OF assms(2)] path_length [OF wf_addrs(1,2) [OF assms(2)]]]
  by (simp add: composite_plugin_call_def plugins_at_def table_get_map [OF assms(1)])

lemma bridge_call_runs:
  assumes "table_ok T" and "plugins_wf T c"
  shows "composite_plugin_bridge_call A T B c space sg d w =
    run_bridges A B (plugins_at T c (str space)) sg d 0 w"
  using bridge_loop_path [OF wf_addrs(1) [OF assms(2)] path_length [OF wf_addrs(1,2) [OF assms(2)]]]
  by (simp add: composite_plugin_bridge_call_def plugins_at_def table_get_map [OF assms(1)])

section \<open>Registering a sequence of plugins\<close>

type_synonym ('f, 'e) plug_request = "plugin_category \<times> aroop_txt_t \<times> 'f \<times> 'e"

fun plug_one ::
    "aroop \<Rightarrow> ('h, nat) table_api \<Rightarrow> ('f, 'e) plug_request \<Rightarrow> ('f, 'e, 'h) composite_plugin \<Rightarrow>
     (int \<times> ('f, 'e, 'h) composite_plugin) exec" where
  "plug_one A T (CALLBACK_PLUGIN, space, f, d) c = composite_plug_callback A T c space (Some f) d ''file'' 0"
| "plug_one A T (BRIDGE_PLUGIN, space, f, d) c = composite_plug_bridge A T c space (Some f) d ''file'' 0"
| "plug_one A T (COMPOSITE_PLUGIN, space, f, d) c = composite_plug_inner_composite A T c space (Some f) d ''file'' 0"
| "plug_one A T (INVALID_PLUGIN, space, f, d) c = composite_plug_helper A T c space None None None d ''file'' 0"

fun plug_seq ::
    "aroop \<Rightarrow> ('h, nat) table_api \<Rightarrow> ('f, 'e) plug_request list \<Rightarrow> ('f, 'e, 'h) composite_plugin \<Rightarrow>
     ('f, 'e, 'h) composite_plugin exec" where
  "plug_seq A T [] c = Inr c"
| "plug_seq A T (r # rs) c = ebind (plug_one A T r c) (\<lambda>(_, c'). plug_seq A T rs c')"

definition requested :: "('f, 'e) plug_request list \<Rightarrow> bytes \<Rightarrow> ('f, 'e) registered list" where
  "requested rs k = map (\<lambda>(cat, space, f, d). (cat, Some f, d)) (filter (\<lambda>(cat, space, f, d). str space = k) rs)"

lemma plug_one_wf:
  assumes "aroop_ok A" "table_ok T" "plugins_wf T c" "wf_txt space" "cat \<noteq> INVALID_PLUGIN"
  shows "\<exists>c'. plug_one A T (cat, space, f, d) c = Inr (0, c') \<and> plugins_wf T c' \<and>
    plugins_at T c' = (plugins_at T c)(str space := plugins_at T c (str space) @ [(cat, Some f, d)])"
  using assms(5) plug_wf [OF assms(1-4) plugin_kind_cases(1)] plug_wf [OF assms(1-4) plugin_kind_cases(2)]
    plug_wf [OF assms(1-4) plugin_kind_cases(3)]
  by (cases cat) (simp_all add: composite_plug_callback_def composite_plug_bridge_def composite_plug_inner_composite_def)

lemma plug_seq_wf:
  assumes "aroop_ok A" "table_ok T" "plugins_wf T c"
    and "\<forall>(cat, space, f, d) \<in> set rs. wf_txt space \<and> cat \<noteq> INVALID_PLUGIN"
  shows "\<exists>c'. plug_seq A T rs c = Inr c' \<and> plugins_wf T c' \<and> (\<forall>k. plugins_at T c' k = plugins_at T c k @ requested rs k)"
  using assms(3,4)
proof (induction rs arbitrary: c)
  case (Cons r rs)
  obtain cat space f d where r: "r = (cat, space, f, d)" by (cases r)
  have kv: "wf_txt space" "cat \<noteq> INVALID_PLUGIN" using Cons.prems(2) r by simp_all
  obtain c1 where c1: "plug_one A T (cat, space, f, d) c = Inr (0, c1)" "plugins_wf T c1"
    "plugins_at T c1 = (plugins_at T c)(str space := plugins_at T c (str space) @ [(cat, Some f, d)])"
    using plug_one_wf [OF assms(1,2) Cons.prems(1) kv] by blast
  have v: "\<forall>(cat, space, f, d) \<in> set rs. wf_txt space \<and> cat \<noteq> INVALID_PLUGIN" using Cons.prems(2) by simp
  obtain c2 where "plug_seq A T rs c1 = Inr c2" "plugins_wf T c2"
    "\<forall>k. plugins_at T c2 k = plugins_at T c1 k @ requested rs k"
    using Cons.IH [OF c1(2) v] by blast
  moreover have "plugins_at T c1 k @ requested rs k = plugins_at T c k @ requested (r # rs) k" for k
    using c1(3) by (simp add: requested_def r)
  moreover have "plug_seq A T (r # rs) c = plug_seq A T rs c1" using c1(1) r by simp
  ultimately show ?case by (intro exI [of _ c2]) simp
qed (simp add: requested_def)

lemma plug_seq_fresh:
  assumes "aroop_ok A" "table_ok T"
    and "\<forall>(cat, space, f, d) \<in> set rs. wf_txt space \<and> cat \<noteq> INVALID_PLUGIN"
  shows "\<exists>c. plug_seq A T rs (composite_plugin_create T) = Inr c \<and> plugins_wf T c \<and> plugins_at T c = requested rs"
proof -
  obtain c where c: "plug_seq A T rs (composite_plugin_create T) = Inr c" "plugins_wf T c"
    "\<forall>k. plugins_at T c k = plugins_at T (composite_plugin_create T) k @ requested rs k"
    using plug_seq_wf [OF assms(1,2) conjunct1 [OF create_wf [OF assms(2) refl]] assms(3)] by blast
  have "plugins_at T c = requested rs"
    by (rule ext) (simp add: c(3) conjunct2 [OF create_wf [OF assms(2) refl]])
  with c(1,2) show ?thesis by blast
qed

section \<open>Properties\<close>

text \<open>The registry keeps every plugin: after any sequence of callbacks, bridges and inner
  composites is plugged into a fresh container, the plugins of each space are exactly those plugged there, in
  the order of plugging, and the heap chains stay finite, acyclic and disjoint.\<close>

theorem plugging_keeps_order:
  assumes "aroop_ok A" and "table_ok T"
    and "\<forall>(cat, space, f, d) \<in> set rs. wf_txt space \<and> cat \<noteq> INVALID_PLUGIN"
  shows "\<exists>c. plug_seq A T rs (composite_plugin_create T) = Inr c \<and> plugins_wf T c \<and>
    plugins_at T c = requested rs"
  by (rule plug_seq_fresh [OF assms])

lemma plugging_keeps_order_witness:
  "\<exists>c. plug_seq ref_aroop ref_table [(CALLBACK_PLUGIN, txt_of (lit ''a''), 1, ()), (CALLBACK_PLUGIN, txt_of (lit ''b''), 2, ()),
      (BRIDGE_PLUGIN, txt_of (lit ''a''), 3, ())] (composite_plugin_create ref_table) = Inr c \<and>
     plugins_at ref_table c (lit ''a'') = [(CALLBACK_PLUGIN, Some (1 :: nat), ()), (BRIDGE_PLUGIN, Some 3, ())]"
  using plugging_keeps_order [of ref_aroop ref_table "[(CALLBACK_PLUGIN, txt_of (lit ''a''), 1 :: nat, ()),
      (CALLBACK_PLUGIN, txt_of (lit ''b''), 2, ()), (BRIDGE_PLUGIN, txt_of (lit ''a''), 3, ())]"]
  by (auto simp: requested_def)

text \<open>(C26) Calling a space runs its plugins in the order of plugging, ORing their return values, with
  each call seeing the output text and the world the previous one left; a space that mixes
  callbacks with bridges or composites stops the process at the first such plugin when assertions
  do. The heap walk of the code computes exactly this.\<close>

theorem call_runs_in_order:
  assumes "aroop_ok A" and "table_ok T"
    and "\<forall>(cat, space, f, d) \<in> set rs. wf_txt space \<and> cat \<noteq> INVALID_PLUGIN"
  shows "\<exists>c. plug_seq A T rs (composite_plugin_create T) = Inr c \<and>
    (\<forall>space input out w. composite_plugin_call A T R c space input out w =
       run_callbacks A R (requested rs (str space)) input out 0 w) \<and>
    (\<forall>space sg x w. composite_plugin_bridge_call A T B c space sg x w =
       run_bridges A B (requested rs (str space)) sg x 0 w)"
proof -
  obtain c where c: "plug_seq A T rs (composite_plugin_create T) = Inr c" "plugins_wf T c"
    "plugins_at T c = requested rs"
    using plug_seq_fresh [OF assms] by blast
  then show ?thesis
    by (intro exI [of _ c]) (simp add: call_runs [OF assms(2) c(2)] bridge_call_runs [OF assms(2) c(2)])
qed

lemma call_runs_in_order_witness:
  "\<exists>c. plug_seq ref_aroop ref_table [(CALLBACK_PLUGIN, txt_of (lit ''a''), 1, ()), (CALLBACK_PLUGIN, txt_of (lit ''a''), 2, ())]
      (composite_plugin_create ref_table) = Inr c \<and>
     composite_plugin_call ref_aroop ref_table (\<lambda>f i out w. Inr (of_nat f, out, w @ [f])) c (txt_of (lit ''a'')) zero_txt zero_txt []
       = Inr (3, zero_txt, [1, 2])"
proof -
  have "(1 OR 2 :: 32 word) = 3" by code_simp
  then show ?thesis
    using call_runs_in_order [of ref_aroop ref_table "[(CALLBACK_PLUGIN, txt_of (lit ''a''), 1 :: nat, ()),
        (CALLBACK_PLUGIN, txt_of (lit ''a''), 2, ())]" "\<lambda>f i out w. Inr (of_nat f, out, w @ [f])"
        "\<lambda>f s (x :: unit) w. Inr (0, w)"]
    by (auto simp: requested_def)
qed

text \<open>A chain that holds both kinds cannot be called at all when failed assertions stop the
  process: whichever of the two calls is used, the plugin of the other kind is reached after the
  ones before it have run. \<open>fork/child/after\<close> is such a space once the control shell is started.\<close>

theorem mixed_space_stops:
  assumes "aroop_assert_aborts A" and "table_ok T" and "plugins_wf T c"
    and "plugins_at T c (str space) = map (\<lambda>f. (BRIDGE_PLUGIN, Some f, e)) bs @ (CALLBACK_PLUGIN, Some g, e') # ps"
    and "\<And>f w. \<exists>r w'. B f sg x w = Inr (r, w')"
  shows "composite_plugin_bridge_call A T B c space sg x w = Inl AssertFailed"
proof -
  have "run_bridges A B (map (\<lambda>f. (BRIDGE_PLUGIN, Some f, e)) bs @ (CALLBACK_PLUGIN, Some g, e') # ps) sg x ret w
      = Inl AssertFailed" for ret w
  proof (induction bs arbitrary: ret w)
    case Nil
    then show ?case using assms(1) by (simp add: aroop_assert_def)
  next
    case (Cons b bs)
    then show ?case using assms(5) [of b w] by auto
  qed
  then show ?thesis using bridge_call_runs [OF assms(2,3)] assms(4) by metis
qed

lemma mixed_space_stops_witness:
  "\<exists>c. plug_seq ref_aroop ref_table [(BRIDGE_PLUGIN, txt_of (lit ''fork/child/after''), 1, ()),
      (CALLBACK_PLUGIN, txt_of (lit ''fork/child/after''), 2, ())] (composite_plugin_create ref_table) = Inr c \<and>
     composite_plugin_bridge_call ref_aroop ref_table (\<lambda>(f :: nat) sg (x :: nat) (w :: unit). Inr (0, w)) c
       (txt_of (lit ''fork/child/after'')) 0x3234 0 () = Inl AssertFailed"
proof -
  let ?rs = "[(BRIDGE_PLUGIN, txt_of (lit ''fork/child/after''), 1 :: nat, ()),
    (CALLBACK_PLUGIN, txt_of (lit ''fork/child/after''), 2, ())]"
  obtain c where c: "plug_seq ref_aroop ref_table ?rs (composite_plugin_create ref_table) = Inr c" "plugins_wf ref_table c"
    "plugins_at ref_table c = requested ?rs"
    using plug_seq_fresh [OF ref_aroop_ok ref_table_ok, of ?rs] by auto
  have "composite_plugin_bridge_call ref_aroop ref_table (\<lambda>(f :: nat) sg (x :: nat) (w :: unit). Inr (0, w)) c
       (txt_of (lit ''fork/child/after'')) 0x3234 0 () = Inl AssertFailed"
    by (rule mixed_space_stops [OF _ _ c(2), of _ _ "()" "[1]" 2 "()" "[]"])
      (simp_all add: c(3) requested_def ref_aroop_def)
  with c(1) show ?thesis by blast
qed

end
