(* ===== verification/Pipeline.thy ===== *)
theory Pipeline
  imports BinaryCoder
begin

text \<open>
  The node table and the message passing of \<open>base/src/parallel/pipeline.c\<close>, and the round robin of
  \<open>apps/load_balancer/src/load_balancer_subsystem.c\<close> over it. A process identifier is a \<open>32 word\<close>;
  \<open>mynode\<close> is the index of the node it points to. What the code does to the outside (sending,
  closing, registering with the event loop, calling plugins) is recorded in order in \<open>effects\<close>;
  whether \<open>sendmsg\<close> fails is the parameter \<open>fails\<close>.
\<close>

section \<open>Code\<close>

definition NGINZ_NUMBER_OF_PROCESSORS :: nat where "NGINZ_NUMBER_OF_PROCESSORS = 5"
definition MAX_PROCESS_COUNT :: nat where "MAX_PROCESS_COUNT = NGINZ_NUMBER_OF_PROCESSORS + 1"

record nginz_node =
  nid :: "32 word"
  fd0 :: int
  fd1 :: int
  raw_fd0 :: int
  raw_fd1 :: int

datatype effect =
  SendMsg int bytes
| CloseFd int
| RegisterFd int
| UnregisterFd int
| PmCall aroop_txt_t aroop_txt_t
| RawSetup int

record pp_state =
  nodes :: "nat \<Rightarrow> nginz_node"
  mynode :: "nat option"
  recv_buffer :: aroop_txt_t
  effects :: "effect list"

definition effect :: "effect \<Rightarrow> pp_state \<Rightarrow> pp_state" where
  "effect e s = s\<lparr>effects := effects s @ [e]\<rparr>"

definition node_index :: "32 word \<Rightarrow> pp_state \<Rightarrow> nat option" where
  "node_index n s = List.find (\<lambda>i. nid (nodes s i) = n) [0..<MAX_PROCESS_COUNT]"

definition pp_get_raw_fd :: "32 word \<Rightarrow> pp_state \<Rightarrow> int" where
  "pp_get_raw_fd n s = (case node_index n s of Some i \<Rightarrow> raw_fd0 (nodes s i) | None \<Rightarrow> -1)"

definition pp_find_node :: "32 word \<Rightarrow> pp_state \<Rightarrow> nat option" where
  "pp_find_node n s = node_index n s"

definition pp_next_nid :: "pp_state \<Rightarrow> 32 word" where
  "pp_next_nid s =
     (let next_index = (case List.find (\<lambda>i. Some i = mynode s) [0..<MAX_PROCESS_COUNT] of
            Some i \<Rightarrow> int i + 1 | None \<Rightarrow> -1)
      in if next_index \<noteq> -1 \<and> next_index < int MAX_PROCESS_COUNT then nid (nodes s (nat next_index)) else -1)"

text \<open>The remainder of C keeps the sign, so -1 (not found) stays -1 and indexes before the array.\<close>

definition pp_next_worker_nid :: "32 word \<Rightarrow> pp_state \<Rightarrow> 32 word exec" where
  "pp_next_worker_nid n s =
     (let next_index = (case node_index n s of Some i \<Rightarrow> int i + 1 | None \<Rightarrow> -1);
          next_index' = (if next_index < 0 then next_index else next_index mod int MAX_PROCESS_COUNT);
          next_index'' = (if next_index' = 0 then next_index' + 1 else next_index')
      in if next_index'' < 0 then Inl OutOfBounds else Inr (nid (nodes s (nat next_index''))))"

definition pp_simple_sendmsg :: "(int \<Rightarrow> bool) \<Rightarrow> int \<Rightarrow> aroop_txt_t \<Rightarrow> pp_state \<Rightarrow> int \<times> pp_state" where
  "pp_simple_sendmsg fails through pkt s =
     (if fails through then (-1, s) else (0, effect (SendMsg through (str pkt)) s))"

fun pp_broadcast :: "(int \<Rightarrow> bool) \<Rightarrow> aroop_txt_t \<Rightarrow> nat list \<Rightarrow> pp_state \<Rightarrow> int \<times> pp_state" where
  "pp_broadcast fails pkt [] s = (0, s)"
| "pp_broadcast fails pkt (i # is) s =
     (if Some i \<noteq> mynode s then
        (case pp_simple_sendmsg fails (fd0 (nodes s i)) pkt s of
           (ret, s') \<Rightarrow> if ret \<noteq> 0 then (-1, s') else pp_broadcast fails pkt is s')
      else pp_broadcast fails pkt is s)"

definition pp_send :: "aroop \<Rightarrow> (int \<Rightarrow> bool) \<Rightarrow> 32 word \<Rightarrow> aroop_txt_t \<Rightarrow> pp_state \<Rightarrow> (int \<times> pp_state) exec" where
  "pp_send A fails dnid pkt s =
     (if dnid = 0 then Inr (pp_broadcast fails pkt [0..<MAX_PROCESS_COUNT] s)
      else
        let nd = pp_find_node dnid s
        in ebind (aroop_assert A (nd \<noteq> None)) (\<lambda>_.
           (case nd of
              None \<Rightarrow> Inl NullDeref
            | Some i \<Rightarrow> ebind (aroop_assert A (nid (nodes s i) = dnid)) (\<lambda>_.
                         Inr (pp_simple_sendmsg fails (fd0 (nodes s i)) pkt s)))))"

definition is_master :: "pp_state \<Rightarrow> bool" where
  "is_master s \<longleftrightarrow> mynode s = Some 0"

text \<open>
  \<open>recvmsg\<close> writes the datagram (\<open>None\<close>: it failed) at the start of the text's memory; the code
  then takes the length of the buffer it offered, not the length received.
\<close>

definition pp_simple_recvmsg_helper :: "aroop \<Rightarrow> int \<Rightarrow> bytes option \<Rightarrow> aroop_txt_t \<Rightarrow> int \<times> aroop_txt_t" where
  "pp_simple_recvmsg_helper A through datagram cmd =
     (if through = -1 then (-1, cmd)
      else (case datagram of
              None \<Rightarrow> (-1, aroop_txt_set_length A cmd 0)
            | Some d \<Rightarrow>
                (let d' = take (t_cap cmd) d;
                     cmd' = cmd\<lparr>t_mem := d' @ drop (length d') (t_mem cmd)\<rparr>
                 in if 0 < t_cap cmd then (0, aroop_txt_set_length A cmd' (t_cap cmd)) else (0, cmd'))))"

text \<open>\<open>on_bubbles\<close>, the reader of the pipe; \<open>ev\<close> is the event mask \<open>poll\<close> returned.\<close>

definition NGINZ_POLL_CLOSE_FLAGS :: "16 word" where "NGINZ_POLL_CLOSE_FLAGS = 16"

definition on_bubbles :: "aroop \<Rightarrow> int \<Rightarrow> 16 word \<Rightarrow> bytes option \<Rightarrow> pp_state \<Rightarrow> (int \<times> pp_state) exec" where
  "on_bubbles A f ev datagram s =
     ebind (aroop_assert A (case mynode s of None \<Rightarrow> False | Some i \<Rightarrow> f = fd1 (nodes s i))) (\<lambda>_.
     if ev AND NGINZ_POLL_CLOSE_FLAGS = NGINZ_POLL_CLOSE_FLAGS then Inr (0, effect (CloseFd f) (effect (UnregisterFd f) s))
     else
       let b0 = aroop_txt_set_length A (recv_buffer s) 1;
           (ret, b1) = pp_simple_recvmsg_helper A f datagram b0;
           s1 = s\<lparr>recv_buffer := b1\<rparr>
       in if ret \<noteq> 0 \<or> t_len b1 = 0 then Inr (0, effect (CloseFd f) s1)
          else ebind (binary_unpack_string A b1 1 zero_txt) (\<lambda>(_, x).
               if t_len x = 0 then Inr (0, s1)
               else Inr (0, effect (PmCall x b1) s1)))"

text \<open>The load balancer: a cursor over the workers.\<close>

definition load_balancer_setup :: "32 word \<Rightarrow> 32 word" where
  "load_balancer_setup getpid = getpid"

definition load_balancer_next :: "pp_state \<Rightarrow> 32 word \<Rightarrow> (32 word \<times> 32 word) exec" where
  "load_balancer_next s lb = ebind (pp_next_worker_nid lb s) (\<lambda>n. Inr (n, n))"

definition load_balancer_destroy :: "32 word \<Rightarrow> 32 word" where
  "load_balancer_destroy getpid = getpid"

section \<open>Lemmas\<close>

definition nids :: "pp_state \<Rightarrow> 32 word list" where
  "nids s = map (\<lambda>i. nid (nodes s i)) [0..<MAX_PROCESS_COUNT]"

lemma length_nids [simp]: "length (nids s) = 6"
  by (simp add: nids_def MAX_PROCESS_COUNT_def NGINZ_NUMBER_OF_PROCESSORS_def)

lemma nids_nth: "i < 6 \<Longrightarrow> nids s ! i = nid (nodes s i)"
  by (simp add: nids_def MAX_PROCESS_COUNT_def NGINZ_NUMBER_OF_PROCESSORS_def)

lemma node_index_nth:
  assumes "distinct (nids s)" and "i < 6"
  shows "node_index (nid (nodes s i)) s = Some i"
proof -
  have "\<forall>j<i. nid (nodes s j) \<noteq> nid (nodes s i)"
    using assms nids_nth nth_eq_iff_index_eq [of "nids s"] by (metis length_nids nat_neq_iff order_less_trans)
  then show ?thesis
    using assms(2) by (auto simp: node_index_def find_Some_iff MAX_PROCESS_COUNT_def NGINZ_NUMBER_OF_PROCESSORS_def)
qed

lemma node_index_None: "n \<notin> set (nids s) \<Longrightarrow> node_index n s = None"
  by (auto simp: node_index_def find_None_iff nids_def)

lemma node_index_Some: "node_index n s = Some i \<Longrightarrow> i < 6 \<and> nid (nodes s i) = n"
  by (auto simp: node_index_def find_Some_iff MAX_PROCESS_COUNT_def NGINZ_NUMBER_OF_PROCESSORS_def)

text \<open>The worker after node \<open>i\<close>, skipping the master.\<close>

definition next_worker :: "nat \<Rightarrow> nat" where
  "next_worker i = (if i = 5 then 1 else i + 1)"

lemma next_worker_nid:
  assumes "distinct (nids s)" and "i < 6"
  shows "pp_next_worker_nid (nid (nodes s i)) s = Inr (nid (nodes s (next_worker i)))"
proof -
  have "(int i + 1) mod 6 = (if i = 5 then 0 else int i + 1)" using assms(2) by (cases "i = 5") simp_all
  then show ?thesis
    by (simp add: pp_next_worker_nid_def node_index_nth [OF assms] next_worker_def MAX_PROCESS_COUNT_def
        NGINZ_NUMBER_OF_PROCESSORS_def nat_add_distrib)
qed

fun balance :: "pp_state \<Rightarrow> nat \<Rightarrow> 32 word \<Rightarrow> 32 word list exec" where
  "balance s 0 lb = Inr []"
| "balance s (Suc n) lb = ebind (load_balancer_next s lb) (\<lambda>(w, lb'). ebind (balance s n lb') (\<lambda>ws. Inr (w # ws)))"

lemma next_worker_cycle: "1 \<le> i \<Longrightarrow> i < 6 \<Longrightarrow> next_worker i = 1 + (i - 1 + 1) mod 5"
  by (auto simp: next_worker_def)

lemma balance_cycle:
  assumes "distinct (nids s)" and "i < 6"
  shows "balance s n (nid (nodes s i)) =
    Inr (map (\<lambda>k. nid (nodes s (1 + (i + k) mod 5))) [0..<n])"
  using assms(2)
proof (induction n arbitrary: i)
  case (Suc n)
  have nw: "next_worker i = 1 + i mod 5" "next_worker i < 6" using Suc.prems by (auto simp: next_worker_def)
  have "balance s n (nid (nodes s (next_worker i))) =
      Inr (map (\<lambda>k. nid (nodes s (1 + (next_worker i + k) mod 5))) [0..<n])"
    using Suc.IH [OF nw(2)] .
  moreover have "(next_worker i + k) mod 5 = (i + Suc k) mod 5" for k
    unfolding nw(1) by (metis add.assoc add.commute mod_add_left_eq plus_1_eq_Suc)
  moreover have "[0..<Suc n] = 0 # map Suc [0..<n]" by (simp add: map_Suc_upt upt_conv_Cons del: upt_Suc)
  ultimately show ?case
    by (simp add: load_balancer_next_def next_worker_nid [OF assms(1) Suc.prems] nw(1) comp_def del: upt_Suc)
qed simp

lemma broadcast_sends:
  assumes "\<And>i. i \<in> set is \<Longrightarrow> Some i \<noteq> mynode s \<Longrightarrow> \<not> fails (fd0 (nodes s i))"
  shows "pp_broadcast fails pkt is s = (0, s\<lparr>effects := effects s @
    map (\<lambda>i. SendMsg (fd0 (nodes s i)) (str pkt)) (filter (\<lambda>i. Some i \<noteq> mynode s) is)\<rparr>)"
  using assms
proof (induction "is" arbitrary: s)
  case (Cons i "is")
  show ?case
  proof (cases "Some i = mynode s")
    case True
    then show ?thesis using Cons by simp
  next
    case False
    let ?s = "effect (SendMsg (fd0 (nodes s i)) (str pkt)) s"
    have "pp_broadcast fails pkt is ?s = (0, ?s\<lparr>effects := effects ?s @
        map (\<lambda>i. SendMsg (fd0 (nodes ?s i)) (str pkt)) (filter (\<lambda>i. Some i \<noteq> mynode ?s) is)\<rparr>)"
      by (rule Cons.IH) (use Cons.prems in \<open>auto simp: effect_def\<close>)
    then show ?thesis using False Cons.prems [of i] by (simp add: pp_simple_sendmsg_def effect_def)
  qed
qed simp

section \<open>Properties\<close>

text \<open>The load balancer is fair: starting at any process of the table, successive calls give the
  five workers in turn, starting after that process, and never the master.\<close>

theorem load_balancer_round_robin:
  assumes "distinct (nids s)" and "i < MAX_PROCESS_COUNT"
  shows "balance s n (load_balancer_setup (nid (nodes s i))) =
    Inr (map (\<lambda>k. nid (nodes s (1 + (i + k) mod NGINZ_NUMBER_OF_PROCESSORS))) [0..<n])"
  using balance_cycle [OF assms(1), of i n] assms(2)
  by (simp add: load_balancer_setup_def MAX_PROCESS_COUNT_def NGINZ_NUMBER_OF_PROCESSORS_def)

definition six_nodes :: pp_state where
  "six_nodes = \<lparr>nodes = (\<lambda>i. \<lparr>nid = of_nat (100 + i), fd0 = 2 * int i, fd1 = 2 * int i + 1, raw_fd0 = 0, raw_fd1 = 0\<rparr>),
     mynode = Some 0, recv_buffer = zero_txt, effects = []\<rparr>"

lemma nids_six_nodes: "nids six_nodes = [100, 101, 102, 103, 104, 105]"
  by (simp add: nids_def six_nodes_def MAX_PROCESS_COUNT_def NGINZ_NUMBER_OF_PROCESSORS_def upt_rec)

lemma load_balancer_round_robin_witness:
  "balance six_nodes 7 (load_balancer_setup 100) = Inr [101, 102, 103, 104, 105, 101, 102]"
  using load_balancer_round_robin [of six_nodes 0 7]
  by (simp add: nids_six_nodes) (simp add: six_nodes_def MAX_PROCESS_COUNT_def NGINZ_NUMBER_OF_PROCESSORS_def upt_rec)

text \<open>The load balancer of a process that is not in the table reads before the start of the node
  array: the search leaves -1 and the remainder of C keeps it negative.\<close>

theorem load_balancer_unknown_nid:
  assumes "lb \<notin> set (nids s)"
  shows "load_balancer_next s lb = Inl OutOfBounds"
  by (simp add: load_balancer_next_def pp_next_worker_nid_def node_index_None [OF assms])

lemma load_balancer_unknown_nid_witness: "load_balancer_next six_nodes 7 = Inl OutOfBounds"
  by (rule load_balancer_unknown_nid) (simp add: nids_six_nodes)

text \<open>Sending to 0 broadcasts: when no send fails, every node but the sender's gets the message,
  once, in table order. Sending to a known process reaches exactly its node; an unknown one stops the
  process or dereferences null.\<close>

theorem send_targets:
  assumes "distinct (nids s)" and "\<And>f. \<not> fails f"
  shows "pp_send A fails dnid pkt s =
    (if dnid = 0 then Inr (0, s\<lparr>effects := effects s @
        map (\<lambda>i. SendMsg (fd0 (nodes s i)) (str pkt)) (filter (\<lambda>i. Some i \<noteq> mynode s) [0..<MAX_PROCESS_COUNT])\<rparr>)
     else case node_index dnid s of
            Some i \<Rightarrow> Inr (0, s\<lparr>effects := effects s @ [SendMsg (fd0 (nodes s i)) (str pkt)]\<rparr>)
          | None \<Rightarrow> Inl (if aroop_assert_aborts A then AssertFailed else NullDeref))"
  using broadcast_sends [of "[0..<MAX_PROCESS_COUNT]" s fails pkt] assms(2) node_index_Some [of dnid s]
  by (auto simp: pp_send_def pp_find_node_def pp_simple_sendmsg_def effect_def aroop_assert_def split: option.splits)

lemma send_targets_witness:
  "pp_send ref_aroop (\<lambda>_. False) 102 (txt_of [9]) six_nodes = Inr (0, six_nodes\<lparr>effects := [SendMsg 4 [9]]\<rparr>)"
proof -
  have "node_index 102 six_nodes = Some 2"
    using node_index_nth [of six_nodes 2] by (simp add: nids_six_nodes) (simp add: six_nodes_def)
  then show ?thesis
    using send_targets [of six_nodes "\<lambda>_. False" ref_aroop 102 "txt_of [9]"]
    by (simp add: nids_six_nodes) (simp add: six_nodes_def)
qed

end
