(* ===== verification/AsyncRequest.thy ===== *)
theory AsyncRequest
  imports Pipeline
begin

text \<open>
  Requests to the master and replies to the workers, \<open>base/src/parallel/async_request.c\<close>: one
  packet of the message coder, handed to \<open>pp_send\<close>. The null-terminated argument array is a list,
  \<open>worker_hook\<close> an option; \<open>getpid\<close> is the calling process, \<open>masterpid\<close> the static variable of that
  name.
\<close>

section \<open>Code\<close>

definition null_hook :: "aroop \<Rightarrow> aroop_txt_t" where
  "null_hook A = aroop_txt_static_string A (lit ''null'')"

text \<open>\<open>while(*args) { binary_pack_string(&bin, *args); args++; }\<close>\<close>

definition pack_args :: "aroop \<Rightarrow> aroop_txt_t \<Rightarrow> aroop_txt_t list \<Rightarrow> aroop_txt_t" where
  "pack_args A bin args = foldl (\<lambda>b x. snd (binary_pack_string A b x)) bin args"

definition async_pm_call_master ::
    "aroop \<Rightarrow> (int \<Rightarrow> bool) \<Rightarrow> 32 word \<Rightarrow> 32 word \<Rightarrow> 32 word \<Rightarrow> aroop_txt_t option \<Rightarrow> aroop_txt_t \<Rightarrow>
     aroop_txt_t list \<Rightarrow> pp_state \<Rightarrow> (int \<times> pp_state) exec" where
  "async_pm_call_master A fails getpid masterpid cb_token worker_hook master_hook args s =
     (let hook = (case worker_hook of None \<Rightarrow> null_hook A | Some h \<Rightarrow> h);
          bin0 = aroop_txt_stackbuffer A NGINZ_MAX_BINARY_MSG_LEN
      in ebind (binary_coder_reset A bin0) (\<lambda>bin1.
         let bin2 = snd (binary_pack_int A bin1 getpid);
             bin3 = snd (binary_pack_string A bin2 master_hook);
             bin4 = snd (binary_pack_int A bin3 cb_token);
             bin5 = snd (binary_pack_string A bin4 hook);
             bin6 = pack_args A bin5 args
         in ebind (pp_send A fails masterpid bin6 s) (\<lambda>(_, s'). Inr (0, s'))))"

definition async_pm_reply_worker ::
    "aroop \<Rightarrow> (int \<Rightarrow> bool) \<Rightarrow> 32 word \<Rightarrow> 32 word \<Rightarrow> 32 word \<Rightarrow> aroop_txt_t \<Rightarrow> 32 word \<Rightarrow>
     aroop_txt_t list \<Rightarrow> pp_state \<Rightarrow> (int \<times> pp_state) exec" where
  "async_pm_reply_worker A fails getpid destpid cb_token worker_hook success args s =
     ebind (aroop_assert A (t_len worker_hook \<noteq> 0)) (\<lambda>_.
     if aroop_txt_equals A worker_hook (null_hook A) then Inr (0, s)
     else
       let bin0 = aroop_txt_stackbuffer A NGINZ_MAX_BINARY_MSG_LEN
       in ebind (binary_coder_reset A bin0) (\<lambda>bin1.
          let bin2 = snd (binary_pack_int A bin1 getpid);
              bin3 = snd (binary_pack_string A bin2 worker_hook);
              bin4 = snd (binary_pack_int A bin3 cb_token);
              bin5 = snd (binary_pack_int A bin4 success);
              bin6 = pack_args A bin5 args
          in ebind (pp_send A fails destpid bin6 s) (\<lambda>(_, s'). Inr (0, s'))))"

section \<open>Lemmas\<close>

text \<open>The fields of the two packets.\<close>

definition request_wires :: "32 word \<Rightarrow> aroop_txt_t \<Rightarrow> 32 word \<Rightarrow> aroop_txt_t \<Rightarrow> aroop_txt_t list \<Rightarrow> wire list" where
  "request_wires pid master_hook token hook args =
     [WInt pid, WStr master_hook, WInt token, WStr hook] @ map WStr args"

definition reply_wires :: "32 word \<Rightarrow> aroop_txt_t \<Rightarrow> 32 word \<Rightarrow> 32 word \<Rightarrow> aroop_txt_t list \<Rightarrow> wire list" where
  "reply_wires pid hook token success args =
     [WInt pid, WStr hook, WInt token, WInt success] @ map WStr args"

lemma pack_args_wires: "pack_args A b args = pack_wires A b (map WStr args)"
  by (simp add: pack_args_def pack_wires_def foldl_map)

lemma pack_wires_append: "pack_wires A b (xs @ ys) = pack_wires A (pack_wires A b xs) ys"
  by (simp add: pack_wires_def)

lemma request_is_wires:
  "async_pm_call_master A fails pid mpid token worker_hook master_hook args s =
     ebind (binary_coder_reset A (aroop_txt_stackbuffer A NGINZ_MAX_BINARY_MSG_LEN)) (\<lambda>b.
     ebind (pp_send A fails mpid (pack_wires A b
         (request_wires pid master_hook token (case worker_hook of None \<Rightarrow> null_hook A | Some h \<Rightarrow> h) args)) s)
       (\<lambda>(_, s'). Inr (0, s')))"
  by (simp add: async_pm_call_master_def pack_args_wires request_wires_def pack_wires_append Let_def)

lemma reply_is_wires:
  assumes "t_len hook \<noteq> 0" and "\<not> aroop_txt_equals A hook (null_hook A)"
  shows "async_pm_reply_worker A fails pid dest token hook success args s =
     ebind (binary_coder_reset A (aroop_txt_stackbuffer A NGINZ_MAX_BINARY_MSG_LEN)) (\<lambda>b.
     ebind (pp_send A fails dest (pack_wires A b (reply_wires pid hook token success args)) s)
       (\<lambda>(_, s'). Inr (0, s')))"
  using assms
  by (simp add: async_pm_reply_worker_def pack_args_wires reply_wires_def pack_wires_append Let_def)

text \<open>Field \<open>i\<close> of the packet \<open>bs\<close> reads back as the wire \<open>ws ! i\<close>, whatever follows the packet.\<close>

definition reads_back :: "aroop \<Rightarrow> bytes \<Rightarrow> wire list \<Rightarrow> nat \<Rightarrow> bool" where
  "reads_back A bs ws i \<longleftrightarrow> (\<forall>r rest out n. wf_txt r \<longrightarrow> t_len r < 65536 \<longrightarrow> str r = bs @ rest \<longrightarrow>
     (case ws ! i of
        WStr x \<Rightarrow> (\<exists>y. binary_unpack_string A r i out = Inr (0, y) \<and> str y = str x \<and> wf_txt y)
      | WInt v \<Rightarrow> binary_unpack_int A r i n = Inr (0, if 0 \<le>s v then v else v AND 0xFFFF)))"

lemma packed_reads_back:
  assumes A: "aroop_ok A" and p: "packed_msg b (map wire_field ws)" and r: "reachable_field (map wire_field ws) i"
  shows "reads_back A (str b) ws i"
  unfolding reads_back_def
proof (intro allI impI)
  fix r rest out and n :: "32 word"
  assume r': "wf_txt r" "t_len r < 65536" "str r = str b @ rest"
  have i: "i < length ws" using r by (simp add: reachable_field_def)
  have h: "holds_msg r (map wire_field ws)" using r' p by (simp add: holds_msg_def packed_msg_def)
  show "case ws ! i of
        WStr x \<Rightarrow> (\<exists>y. binary_unpack_string A r i out = Inr (0, y) \<and> str y = str x \<and> wf_txt y)
      | WInt v \<Rightarrow> binary_unpack_int A r i n = Inr (0, if 0 \<le>s v then v else v AND 0xFFFF)"
  proof (cases "ws ! i")
    case (WStr x)
    then show ?thesis
      using unpack_string_found [OF A h r] field_txt_str(1,2) [OF h] i by simp
  next
    case (WInt v)
    then show ?thesis
      using unpack_int_found [OF A h r, of v n] i nonneg_int_value [of v] neg_int_short [of v] by auto
  qed
qed

lemma packet_packed:
  assumes A: "aroop_ok A" and "\<forall>w \<in> set ws. wf_wire w" and "msg_size (map wire_field ws) \<le> NGINZ_MAX_BINARY_MSG_LEN"
  shows "\<exists>b. binary_coder_reset A (aroop_txt_stackbuffer A NGINZ_MAX_BINARY_MSG_LEN) = Inr b \<and>
    packed_msg (pack_wires A b ws) (map wire_field ws)"
proof -
  let ?b = "aroop_txt_stackbuffer A NGINZ_MAX_BINARY_MSG_LEN"
  have c: "wf_txt ?b" "1024 < t_cap ?b"
    using buffer_laws(3) [OF A] buffer_cap(2) [OF A, of NGINZ_MAX_BINARY_MSG_LEN]
    by (simp_all add: NGINZ_MAX_BINARY_MSG_LEN_def)
  then obtain b where b: "binary_coder_reset A ?b = Inr b" "packed_msg b []" "t_cap b = t_cap ?b"
    using reset_packed [OF A c(1)] by auto
  then have "packed_msg (pack_wires A b ws) (map wire_field ws)"
    using pack_wires_packed [OF A b(2), of ws] assms(2,3) c by (simp add: NGINZ_MAX_BINARY_MSG_LEN_def)
  with b(1) show ?thesis by blast
qed

text \<open>The bytes of the packet that holds the wires \<open>ws\<close>.\<close>

definition request_packet :: "aroop \<Rightarrow> wire list \<Rightarrow> bytes" where
  "request_packet A ws =
     (case binary_coder_reset A (aroop_txt_stackbuffer A NGINZ_MAX_BINARY_MSG_LEN) of
        Inl _ \<Rightarrow> [] | Inr b \<Rightarrow> str (pack_wires A b ws))"

lemma request_packet_props:
  assumes "aroop_ok A" and "\<forall>w \<in> set ws. wf_wire w" and "msg_size (map wire_field ws) \<le> NGINZ_MAX_BINARY_MSG_LEN"
  shows "\<exists>b. binary_coder_reset A (aroop_txt_stackbuffer A NGINZ_MAX_BINARY_MSG_LEN) = Inr b \<and>
      str (pack_wires A b ws) = request_packet A ws"
    and "length (request_packet A ws) \<le> 1024"
    and "reachable_field (map wire_field ws) i \<Longrightarrow> reads_back A (request_packet A ws) ws i"
proof -
  obtain b where b: "binary_coder_reset A (aroop_txt_stackbuffer A NGINZ_MAX_BINARY_MSG_LEN) = Inr b"
      "packed_msg (pack_wires A b ws) (map wire_field ws)"
    using packet_packed [OF assms] by blast
  then have e: "str (pack_wires A b ws) = request_packet A ws" by (simp add: request_packet_def)
  show "\<exists>b. binary_coder_reset A (aroop_txt_stackbuffer A NGINZ_MAX_BINARY_MSG_LEN) = Inr b \<and>
      str (pack_wires A b ws) = request_packet A ws" using b(1) e by blast
  show "length (request_packet A ws) \<le> 1024"
    using packed_len [OF b(2)] packed_small [OF b(2)] length_str assms(3)
    by (simp add: e [symmetric] NGINZ_MAX_BINARY_MSG_LEN_def)
  show "reachable_field (map wire_field ws) i \<Longrightarrow> reads_back A (request_packet A ws) ws i"
    using packed_reads_back [OF assms(1) b(2)] e by simp
qed

lemma send_known:
  assumes "node_index dnid s = Some i" and "dnid \<noteq> 0" and "\<not> fails (fd0 (nodes s i))"
  shows "pp_send A fails dnid pkt s = Inr (0, s\<lparr>effects := effects s @ [SendMsg (fd0 (nodes s i)) (str pkt)]\<rparr>)"
  using assms node_index_Some [OF assms(1)]
  by (simp add: pp_send_def pp_find_node_def pp_simple_sendmsg_def effect_def)

section \<open>Reading a packet\<close>

text \<open>A process is told by \<open>poll\<close> that its pipe is readable and runs \<open>on_bubbles\<close>; the result is
  the plugin call that \<open>on_bubbles\<close> makes, if it makes one.\<close>

definition read_packet :: "aroop \<Rightarrow> bytes \<Rightarrow> pp_state \<Rightarrow> ((aroop_txt_t \<times> aroop_txt_t) option \<times> pp_state) exec" where
  "read_packet A bs s =
     (case mynode s of
        None \<Rightarrow> Inl NullDeref
      | Some i \<Rightarrow> ebind (on_bubbles A (fd1 (nodes s i)) 1 (Some bs) s) (\<lambda>(_, s1).
          Inr (case drop (length (effects s)) (effects s1) of [PmCall x b] \<Rightarrow> Some (x, b) | _ \<Rightarrow> None, s1)))"

definition reader_ok :: "pp_state \<Rightarrow> bool" where
  "reader_ok s \<longleftrightarrow> (case mynode s of None \<Rightarrow> False | Some k \<Rightarrow> fd1 (nodes s k) \<noteq> -1) \<and> wf_txt (recv_buffer s) \<and>
     1024 \<le> t_cap (recv_buffer s) \<and> t_cap (recv_buffer s) < 65536"

lemma read_packet_call:
  assumes A: "aroop_ok A" and s: "reader_ok s" and p: "length p \<le> 1024"
    and h: "reads_back A p ws 1" "ws ! 1 = WStr h" "str h \<noteq> []"
  shows "\<exists>x r rest. read_packet A p s = Inr (Some (x, r), s\<lparr>recv_buffer := r, effects := effects s @ [PmCall x r]\<rparr>) \<and>
    str x = str h \<and> wf_txt r \<and> t_len r < 65536 \<and> str r = p @ rest \<and> t_len r \<noteq> 0 \<and>
    reader_ok (s\<lparr>recv_buffer := r, effects := effects s @ [PmCall x r]\<rparr>)"
proof -
  let ?b = "recv_buffer s"
  obtain k where k: "mynode s = Some k" "fd1 (nodes s k) \<noteq> -1"
    using s by (auto simp: reader_ok_def split: option.splits)
  have cap: "1 \<le> t_cap ?b" "wf_txt ?b" "length p \<le> t_cap ?b" "t_cap ?b < 65536" "1024 \<le> t_cap ?b"
    using s p by (simp_all add: reader_ok_def)
  then have ne: "t_mem ?b \<noteq> []" by (auto simp: t_cap_def)
  have b0: "aroop_txt_set_length A ?b 1 = ?b\<lparr>t_len := 1\<rparr>" by (rule set_length_law [OF A cap(1)])
  let ?r = "\<lparr>t_mem = p @ drop (length p) (t_mem ?b), t_len = t_cap ?b\<rparr>"
  have rcap: "t_cap ?r = t_cap ?b" using cap(3) by (simp add: t_cap_def)
  have r: "wf_txt ?r" "t_len ?r < 65536" "str ?r = p @ drop (length p) (t_mem ?b)" "t_len ?r \<noteq> 0"
    using cap rcap by (auto simp: wf_txt_def str_def t_cap_def)
  have "aroop_txt_set_length A (?b\<lparr>t_len := 1, t_mem := p @ drop (length p) (t_mem ?b)\<rparr>) (t_cap ?b) = ?r"
    using set_length_law [OF A, of "t_cap ?b" "?b\<lparr>t_len := 1, t_mem := p @ drop (length p) (t_mem ?b)\<rparr>"] cap(3)
    by (simp add: t_cap_def)
  then have recv: "pp_simple_recvmsg_helper A (fd1 (nodes s k)) (Some p) (?b\<lparr>t_len := 1\<rparr>) = (0, ?r)"
    using k(2) cap(1,3) ne by (simp add: pp_simple_recvmsg_helper_def Let_def t_cap_def)
  have "\<exists>y. binary_unpack_string A ?r 1 zero_txt = Inr (0, y) \<and> str y = str h \<and> wf_txt y"
    using h(1,2) r(1-3) unfolding reads_back_def by fastforce
  then obtain x where x: "binary_unpack_string A ?r 1 zero_txt = Inr (0, x)" "str x = str h" "wf_txt x" by blast
  have xne: "t_len x \<noteq> 0" using length_str [OF x(3)] h(3) x(2) by (metis length_0_conv)
  have ev: "(1 :: 16 word) AND NGINZ_POLL_CLOSE_FLAGS \<noteq> NGINZ_POLL_CLOSE_FLAGS" by code_simp
  let ?s = "s\<lparr>recv_buffer := ?r, effects := effects s @ [PmCall x ?r]\<rparr>"
  have "on_bubbles A (fd1 (nodes s k)) 1 (Some p) s = Inr (0, ?s)"
    using k ev r(4) xne by (simp add: on_bubbles_def b0 recv x(1) Let_def effect_def del: One_nat_def)
  then have "read_packet A p s = Inr (Some (x, ?r), ?s)" by (simp add: read_packet_def k(1))
  moreover have "reader_ok ?s" using k cap rcap r(1) by (simp add: reader_ok_def)
  ultimately show ?thesis using x(2) r by blast
qed

section \<open>Properties\<close>

text \<open>(C14) A request reaches the master whole: one packet is sent, to the master's node, and its fields
  read back at the master, whatever bytes follow in its buffer, as the source process, the hook, the
  token (the low 16 bits of a negative one), the worker's hook and the arguments, in that order, for
  every field whose payload starts in the first 256 bytes.\<close>

theorem request_reads_back:
  assumes "aroop_ok A" and "node_index mpid s = Some m" and "mpid \<noteq> 0" and "\<not> fails (fd0 (nodes s m))"
    and "wf_txt master_hook" and "wf_txt hook" and "\<forall>x \<in> set args. wf_txt x"
    and "ws = request_wires pid master_hook token hook args"
    and "msg_size (map wire_field ws) \<le> NGINZ_MAX_BINARY_MSG_LEN"
  shows "\<exists>bs. async_pm_call_master A fails pid mpid token (Some hook) master_hook args s =
      Inr (0, s\<lparr>effects := effects s @ [SendMsg (fd0 (nodes s m)) bs]\<rparr>) \<and>
    (\<forall>i. reachable_field (map wire_field ws) i \<longrightarrow> reads_back A bs ws i)"
proof -
  have "\<forall>w \<in> set ws. wf_wire w" using assms(5-8) by (auto simp: request_wires_def)
  then obtain b where b: "binary_coder_reset A (aroop_txt_stackbuffer A NGINZ_MAX_BINARY_MSG_LEN) = Inr b"
      "packed_msg (pack_wires A b ws) (map wire_field ws)"
    using packet_packed [OF assms(1) _ assms(9)] by blast
  show ?thesis
    using packed_reads_back [OF assms(1) b(2)] send_known [of mpid s m fails A, OF assms(2-4)]
    by (intro exI [of _ "str (pack_wires A b ws)"]) (simp add: request_is_wires b(1) assms(8))
qed

lemma request_reads_back_witness:
  "\<exists>bs. async_pm_call_master ref_aroop (\<lambda>_. False) 102 100 7 (Some (txt_of (lit ''on/x''))) (txt_of (lit ''do/x'')) [txt_of (lit ''k'')]
      six_nodes = Inr (0, six_nodes\<lparr>effects := [SendMsg 0 bs]\<rparr>) \<and>
    reads_back ref_aroop bs (request_wires 102 (txt_of (lit ''do/x'')) 7 (txt_of (lit ''on/x'')) [txt_of (lit ''k'')]) 4"
proof -
  let ?ws = "request_wires 102 (txt_of (lit ''do/x'')) 7 (txt_of (lit ''on/x'')) [txt_of (lit ''k'')]"
  have n: "node_index 100 six_nodes = Some 0"
    using node_index_nth [of six_nodes 0] by (simp add: nids_six_nodes) (simp add: six_nodes_def)
  have l: "length (int_bytes 102) = 2" "length (int_bytes 7) = 2" by code_simp+
  have m: "msg_size (map wire_field ?ws) = 30"
    by (simp add: request_wires_def l)
  have r: "reachable_field (map wire_field ?ws) 4"
    by (simp add: reachable_field_def request_wires_def l)
  show ?thesis
    using request_reads_back [OF ref_aroop_ok n, of "\<lambda>_. False" "txt_of (lit ''do/x'')" "txt_of (lit ''on/x'')"
        "[txt_of (lit ''k'')]" ?ws 102 7] m r
    by (auto simp: NGINZ_MAX_BINARY_MSG_LEN_def six_nodes_def)
qed

text \<open>An argument that does not fit is dropped without a trace: the call still returns 0 and sends
  exactly the packet that the remaining arguments make, so the fields after it move to other
  indices.\<close>

theorem long_argument_dropped:
  assumes "aroop_ok A" and "wf_txt master_hook" and "wf_txt hook" and "\<forall>x \<in> set args. wf_txt x" and "wf_txt x"
    and "msg_size (map wire_field (request_wires pid master_hook token hook args)) \<le> NGINZ_MAX_BINARY_MSG_LEN"
    and "t_cap (aroop_txt_stackbuffer A NGINZ_MAX_BINARY_MSG_LEN) <
      msg_size (map wire_field (request_wires pid master_hook token hook (args @ [x])))"
  shows "async_pm_call_master A fails pid mpid token (Some hook) master_hook (args @ x # others) s =
    async_pm_call_master A fails pid mpid token (Some hook) master_hook (args @ others) s"
proof -
  let ?b0 = "aroop_txt_stackbuffer A NGINZ_MAX_BINARY_MSG_LEN"
  let ?ws = "request_wires pid master_hook token hook args"
  have c: "wf_txt ?b0" "256 \<le> t_cap ?b0" "1024 < t_cap ?b0"
    using buffer_laws(3) [OF assms(1)] buffer_cap(2) [OF assms(1), of NGINZ_MAX_BINARY_MSG_LEN]
    by (simp_all add: NGINZ_MAX_BINARY_MSG_LEN_def)
  obtain b where b: "binary_coder_reset A ?b0 = Inr b" "packed_msg b []" "t_cap b = t_cap ?b0"
    using reset_packed [OF assms(1) c(1,2)] by auto
  have p: "packed_msg (pack_wires A b ?ws) (map wire_field ?ws)" "t_cap (pack_wires A b ?ws) = t_cap b"
    using pack_wires_packed [OF assms(1) b(2), of ?ws] assms(2-4,6) b(3) c(3)
    by (auto simp: request_wires_def NGINZ_MAX_BINARY_MSG_LEN_def)
  have full: "t_cap (pack_wires A b ?ws) < t_len x + t_len (pack_wires A b ?ws) + 3"
    using assms(7) p(2) b(3) packed_len [OF p(1)] length_str [OF assms(5)]
    by (simp add: request_wires_def)
  have small: "unat (of_nat (t_len (pack_wires A b ?ws)) :: 16 word) = t_len (pack_wires A b ?ws)"
    using packed_len [OF p(1)] assms(6) by (simp add: unat_u16 NGINZ_MAX_BINARY_MSG_LEN_def)
  have "snd (binary_pack_string A (pack_wires A b ?ws) x) = pack_wires A b ?ws"
    using full by (simp add: binary_pack_string_def binary_pack_string_helper_def small BINARY_CODER_HEADER_LEN_def)
  then have "pack_wires A b (request_wires pid master_hook token hook (args @ x # others)) =
      pack_wires A b (request_wires pid master_hook token hook (args @ others))"
    by (simp add: request_wires_def pack_wires_def)
  then show ?thesis by (simp add: request_is_wires b(1))
qed

lemma long_argument_dropped_witness:
  "async_pm_call_master ref_aroop (\<lambda>_. False) 102 100 7 (Some (txt_of (lit ''on/x''))) (txt_of (lit ''do/x''))
      ([] @ txt_of (replicate 1020 7) # [txt_of (lit ''k'')]) six_nodes =
   async_pm_call_master ref_aroop (\<lambda>_. False) 102 100 7 (Some (txt_of (lit ''on/x''))) (txt_of (lit ''do/x''))
      ([] @ [txt_of (lit ''k'')]) six_nodes"
proof -
  have l: "length (int_bytes 102) = 2" "length (int_bytes 7) = 2" by code_simp+
  have "t_cap (aroop_txt_stackbuffer ref_aroop NGINZ_MAX_BINARY_MSG_LEN) = 1025"
    by (simp add: ref_aroop_def t_cap_def NGINZ_MAX_BINARY_MSG_LEN_def)
  then show ?thesis
    by (intro long_argument_dropped) (simp_all add: request_wires_def l NGINZ_MAX_BINARY_MSG_LEN_def)
qed

end
