(* ===== verification/ForkPipeline.thy ===== *)
theory ForkPipeline
  imports AsyncRequest
begin

text \<open>
  Forking the workers: the fork listeners and the start of \<open>base/src/parallel/pipeline.c\<close> and
  \<open>fork_processors\<close> of \<open>base/src/parallel/fork.c\<close>. \<open>fork\<close> gives a child the parent's state as it is;
  the result of \<open>fork_processors\<close> is the parent's state and the state of each child after its
  listener ran. The list given to it holds what each \<open>fork()\<close> returns to the parent.
\<close>

section \<open>Code\<close>

definition NGINZ_PIPELINE_SIGNATURE :: int where "NGINZ_PIPELINE_SIGNATURE = 0x3234"

definition mailbox_child_pid :: "aroop \<Rightarrow> aroop_txt_t" where
  "mailbox_child_pid A = aroop_txt_static_string A (lit ''mailbox/child/pid'')"

text \<open>The readers are registered and the raw pipeline is set up with the node's own descriptors.\<close>

definition register_readers :: "pp_state \<Rightarrow> pp_state exec" where
  "register_readers s =
     (case mynode s of
        None \<Rightarrow> Inl NullDeref
      | Some i \<Rightarrow> Inr (effect (RawSetup (raw_fd1 (nodes s i))) (effect (RegisterFd (fd1 (nodes s i))) s)))"

definition set_nid :: "nat \<Rightarrow> 32 word \<Rightarrow> pp_state \<Rightarrow> pp_state" where
  "set_nid i n s = s\<lparr>nodes := (nodes s)(i := (nodes s i)\<lparr>nid := n\<rparr>)\<rparr>"

definition pp_fork_child_after_callback :: "aroop \<Rightarrow> int \<Rightarrow> 32 word \<Rightarrow> pp_state \<Rightarrow> pp_state exec" where
  "pp_fork_child_after_callback A signature getpid s =
     ebind (aroop_assert A (signature = NGINZ_PIPELINE_SIGNATURE)) (\<lambda>_.
     let s1 = (case node_index 0 s of
                 Some i \<Rightarrow> set_nid i getpid (s\<lparr>mynode := Some i\<rparr>)
               | None \<Rightarrow> s\<lparr>mynode := None\<rparr>)
     in register_readers s1)"

fun announce_children ::
    "aroop \<Rightarrow> (int \<Rightarrow> bool) \<Rightarrow> 32 word \<Rightarrow> nat list \<Rightarrow> pp_state \<Rightarrow> pp_state exec" where
  "announce_children A fails getpid [] s = Inr s"
| "announce_children A fails getpid (i # is) s =
     ebind (async_pm_reply_worker A fails getpid 0 (nid (nodes s i)) (mailbox_child_pid A) (of_nat i) [] s)
       (\<lambda>(_, s'). announce_children A fails getpid is s')"

text \<open>The plain \<open>assert\<close> of C always stops the process.\<close>

definition pp_fork_parent_after_callback ::
    "aroop \<Rightarrow> (int \<Rightarrow> bool) \<Rightarrow> int \<Rightarrow> 32 word \<Rightarrow> 32 word \<Rightarrow> pp_state \<Rightarrow> pp_state exec" where
  "pp_fork_parent_after_callback A fails signature getpid child_pid s =
     ebind (aroop_assert A (signature = NGINZ_PIPELINE_SIGNATURE)) (\<lambda>_.
     let s1 = (case node_index 0 s of Some i \<Rightarrow> set_nid i child_pid s | None \<Rightarrow> s)
     in case mynode s1 of
          None \<Rightarrow> Inl NullDeref
        | Some m \<Rightarrow>
            if getpid \<noteq> nid (nodes s1 m) then Inl AssertFailed
            else if nid (nodes s1 (MAX_PROCESS_COUNT - 1)) \<noteq> 0
              then ebind (announce_children A fails getpid [1..<MAX_PROCESS_COUNT] s1) register_readers
            else Inr s1)"

fun fork_processors ::
    "aroop \<Rightarrow> (int \<Rightarrow> bool) \<Rightarrow> 32 word \<Rightarrow> 32 word option list \<Rightarrow> pp_state \<Rightarrow> (int \<times> pp_state \<times> pp_state list) exec" where
  "fork_processors A fails getpid [] s = Inr (0, s, [])"
| "fork_processors A fails getpid (None # pids) s = Inr (-1, s, [])"
| "fork_processors A fails getpid (Some pid # pids) s =
     ebind (pp_fork_child_after_callback A NGINZ_PIPELINE_SIGNATURE pid s) (\<lambda>child.
     ebind (pp_fork_parent_after_callback A fails NGINZ_PIPELINE_SIGNATURE getpid pid s) (\<lambda>s'.
     ebind (fork_processors A fails getpid pids s') (\<lambda>(_, s'', children). Inr (0, s'', child # children))))"

text \<open>The plugin behind \<open>mailbox/child/pid\<close>; the array is read at the received index.\<close>

definition pp_update_siblings_pid :: "aroop \<Rightarrow> aroop_txt_t \<Rightarrow> pp_state \<Rightarrow> pp_state exec" where
  "pp_update_siblings_pid A input s =
     ebind (aroop_assert A (t_len input \<noteq> 0)) (\<lambda>_.
     ebind (binary_unpack_int A input 2 0) (\<lambda>(_, n).
     ebind (binary_unpack_int A input 3 0) (\<lambda>(_, index).
     if mynode s = Some (unat index) then Inr s
     else if unat index < MAX_PROCESS_COUNT then Inr (set_nid (unat index) n s)
     else Inl OutOfBounds)))"

text \<open>\<open>pp_module_init\<close>: \<open>sockets\<close> are the descriptors of the two socket pairs of each node.\<close>

definition pp_module_init ::
    "aroop \<Rightarrow> 32 word \<Rightarrow> (nat \<Rightarrow> (int \<times> int \<times> int \<times> int) option) \<Rightarrow> pp_state \<Rightarrow> int \<times> pp_state" where
  "pp_module_init A getpid sockets s =
     (if list_all (\<lambda>i. sockets i \<noteq> None) [0..<MAX_PROCESS_COUNT] then
        (0, s\<lparr>nodes := (\<lambda>i. case sockets i of
                Some (a, b, c, d) \<Rightarrow> \<lparr>nid = (if mynode s = Some i then getpid else 0), fd0 = a, fd1 = b, raw_fd0 = c, raw_fd1 = d\<rparr>
              | None \<Rightarrow> nodes s i),
              recv_buffer := aroop_txt_buffer A NGINZ_MAX_BINARY_MSG_LEN\<rparr>)
      else (-1, s))"

section \<open>Delivery\<close>

text \<open>A process reads one packet and calls the plugin it names; here the one registered under
  \<open>mailbox/child/pid\<close>.\<close>

definition deliver :: "aroop \<Rightarrow> bytes \<Rightarrow> pp_state \<Rightarrow> pp_state exec" where
  "deliver A bs s =
     ebind (read_packet A bs s) (\<lambda>(call, s1).
       (case call of
          Some (x, b) \<Rightarrow> if str x = lit ''mailbox/child/pid'' then pp_update_siblings_pid A b s1 else Inr s1
        | None \<Rightarrow> Inr s1))"

fun deliver_all :: "aroop \<Rightarrow> bytes list \<Rightarrow> pp_state \<Rightarrow> pp_state exec" where
  "deliver_all A [] s = Inr s"
| "deliver_all A (b # bs) s = ebind (deliver A b s) (deliver_all A bs)"

text \<open>The packets that were written to a descriptor, in order.\<close>

fun inbox :: "int \<Rightarrow> effect list \<Rightarrow> bytes list" where
  "inbox f [] = []"
| "inbox f (SendMsg g bs # es) = (if g = f then bs # inbox f es else inbox f es)"
| "inbox f (_ # es) = inbox f es"

section \<open>The node tables while forking\<close>

lemma six: "MAX_PROCESS_COUNT = 6"
  by (simp add: MAX_PROCESS_COUNT_def NGINZ_NUMBER_OF_PROCESSORS_def)

lemma nids_set_nid: "i < 6 \<Longrightarrow> nids (set_nid i n s) = (nids s)[i := n]"
  by (rule nth_equalityI) (simp_all add: nids_nth nth_list_update set_nid_def)

lemma nids_cong: "nodes s = nodes t \<Longrightarrow> nids s = nids t"
  by (simp add: nids_def)

lemma node_index_first:
  assumes "nids s = xs @ n # ys" and "n \<notin> set xs"
  shows "node_index n s = Some (length xs)"
proof -
  have l: "length xs < 6" using arg_cong [OF assms(1), of length] by simp
  have "nid (nodes s (length xs)) = n" using nids_nth [OF l, of s] assms(1) by simp
  moreover have "nid (nodes s j) \<noteq> n" if "j < length xs" for j
    using nids_nth [of j s] assms that l by (metis nth_append nth_mem order_less_trans)
  ultimately show ?thesis using l by (auto simp: node_index_def find_Some_iff six)
qed

text \<open>A table in which the master and the workers of \<open>ps\<close> are known and the rest is empty.\<close>

definition knows :: "pp_state \<Rightarrow> 32 word list \<Rightarrow> bool" where
  "knows s ps \<longleftrightarrow> nids s = ps @ replicate (6 - length ps) 0 \<and> 0 \<notin> set ps \<and> length ps \<le> 6"

lemma knows_next:
  assumes "knows s ps" and "length ps < 6" and "p \<noteq> 0"
  shows "node_index 0 s = Some (length ps)" and "knows (set_nid (length ps) p s) (ps @ [p])"
proof -
  have r: "replicate (6 - length ps) 0 = 0 # replicate (6 - Suc (length ps)) (0 :: 32 word)"
    using assms(2) by (metis Suc_diff_Suc replicate_Suc)
  then have e: "nids s = ps @ 0 # replicate (6 - Suc (length ps)) 0" using assms(1) by (simp add: knows_def)
  show "node_index 0 s = Some (length ps)"
    using node_index_first [OF e] assms(1) by (simp add: knows_def)
  have "nids (set_nid (length ps) p s) = (ps @ 0 # replicate (6 - Suc (length ps)) 0)[length ps := p]"
    using nids_set_nid [OF assms(2)] e by simp
  then show "knows (set_nid (length ps) p s) (ps @ [p])"
    using assms by (simp add: knows_def)
qed

text \<open>The environment: fixed descriptors, distinct for writing, and an intact receive buffer.\<close>

definition same_fds :: "pp_state \<Rightarrow> pp_state \<Rightarrow> bool" where
  "same_fds s t \<longleftrightarrow> (\<forall>i. fd0 (nodes s i) = fd0 (nodes t i) \<and> fd1 (nodes s i) = fd1 (nodes t i)) \<and>
     recv_buffer s = recv_buffer t"

lemma child_after:
  assumes "knows s ps" and "length ps < 6" and "p \<noteq> 0"
  shows "\<exists>c. pp_fork_child_after_callback A NGINZ_PIPELINE_SIGNATURE p s = Inr c \<and>
    knows c (ps @ [p]) \<and> mynode c = Some (length ps) \<and> same_fds c s"
proof -
  note k = knows_next [OF assms]
  let ?s = "set_nid (length ps) p (s\<lparr>mynode := Some (length ps)\<rparr>)"
  have n: "nodes ?s = nodes (set_nid (length ps) p s)" "mynode ?s = Some (length ps)" "recv_buffer ?s = recv_buffer s"
    by (simp_all add: set_nid_def)
  show ?thesis
    using k nids_cong [OF n(1)] n
    by (simp add: pp_fork_child_after_callback_def register_readers_def effect_def knows_def same_fds_def nids_def)
       (simp add: set_nid_def)
qed

lemma parent_after_early:
  assumes "knows s ps" and "length ps < 5" and "p \<noteq> 0" and "mynode s = Some 0" and "ps \<noteq> []" and "hd ps = me"
  shows "pp_fork_parent_after_callback A fails NGINZ_PIPELINE_SIGNATURE me p s = Inr (set_nid (length ps) p s)"
proof -
  have "nid (nodes s 0) = me" using assms(1,5,6) nids_nth [of 0 s] by (cases ps) (auto simp: knows_def)
  moreover have "nid (nodes s 5) = 0"
    using assms(1,2) nids_nth [of 5 s] by (simp add: knows_def nth_append)
  moreover have "0 < length ps" using assms(5) by simp
  moreover have "length ps < 6" using assms(2) by simp
  ultimately show ?thesis
    using knows_next(1) [OF assms(1) _ assms(3)] assms(2,4)
    by (simp add: pp_fork_parent_after_callback_def six set_nid_def)
qed

section \<open>Announcing the children\<close>

text \<open>The packet that announces the process \<open>n\<close> at index \<open>i\<close>.\<close>

definition pid_wires :: "aroop \<Rightarrow> 32 word \<Rightarrow> 32 word \<Rightarrow> nat \<Rightarrow> wire list" where
  "pid_wires A me n i = reply_wires me (mailbox_child_pid A) n (of_nat i) []"

definition pid_packet :: "aroop \<Rightarrow> 32 word \<Rightarrow> 32 word \<Rightarrow> nat \<Rightarrow> bytes" where
  "pid_packet A me n i =
     (case binary_coder_reset A (aroop_txt_stackbuffer A NGINZ_MAX_BINARY_MSG_LEN) of
        Inl _ \<Rightarrow> [] | Inr b \<Rightarrow> str (pack_wires A b (pid_wires A me n i)))"

lemma mailbox_txt:
  assumes "aroop_ok A"
  shows "wf_txt (mailbox_child_pid A)" "str (mailbox_child_pid A) = lit ''mailbox/child/pid''"
    "t_len (mailbox_child_pid A) = 17" "\<not> aroop_txt_equals A (mailbox_child_pid A) (null_hook A)"
proof -
  show w: "wf_txt (mailbox_child_pid A)" "str (mailbox_child_pid A) = lit ''mailbox/child/pid''"
    by (simp_all add: mailbox_child_pid_def static_laws [OF assms])
  show "t_len (mailbox_child_pid A) = 17" using length_str [OF w(1)] by (simp add: w(2))
  show "\<not> aroop_txt_equals A (mailbox_child_pid A) (null_hook A)"
    using equals_law [OF assms w(1), of "null_hook A"] w(2) by (simp add: null_hook_def static_laws [OF assms])
qed

lemma pid_packet_props:
  assumes "aroop_ok A"
  shows "\<exists>b. binary_coder_reset A (aroop_txt_stackbuffer A NGINZ_MAX_BINARY_MSG_LEN) = Inr b \<and>
      str (pack_wires A b (pid_wires A me n i)) = pid_packet A me n i"
    and "length (pid_packet A me n i) \<le> 1024"
    and "j < 4 \<Longrightarrow> reads_back A (pid_packet A me n i) (pid_wires A me n i) j"
proof -
  let ?ws = "pid_wires A me n i"
  note m = mailbox_txt [OF assms]
  note l = length_int_bytes_le [of me] length_int_bytes_le [of n] length_int_bytes_le [of "of_nat i"]
  have w: "\<forall>w \<in> set ?ws. wf_wire w" using m by (simp add: pid_wires_def reply_wires_def)
  have sz: "msg_size (map wire_field ?ws) \<le> 1024"
    using l by (simp add: pid_wires_def reply_wires_def m(2))
  obtain b where b: "binary_coder_reset A (aroop_txt_stackbuffer A NGINZ_MAX_BINARY_MSG_LEN) = Inr b"
      "packed_msg (pack_wires A b ?ws) (map wire_field ?ws)"
    using packet_packed [OF assms w] sz by (auto simp: NGINZ_MAX_BINARY_MSG_LEN_def)
  have e: "str (pack_wires A b ?ws) = pid_packet A me n i" by (simp add: pid_packet_def b(1))
  show "\<exists>b. binary_coder_reset A (aroop_txt_stackbuffer A NGINZ_MAX_BINARY_MSG_LEN) = Inr b \<and>
      str (pack_wires A b ?ws) = pid_packet A me n i" using b(1) e by blast
  show "length (pid_packet A me n i) \<le> 1024"
    using packed_len [OF b(2)] packed_small [OF b(2)] length_str sz by (simp add: e [symmetric])
  have "msg_size (take 3 (map wire_field ?ws)) < 200"
    using l by (simp add: pid_wires_def reply_wires_def m(2) numeral_3_eq_3)
  then have "msg_size (take j (map wire_field ?ws)) + 3 < 256" if "j < 4"
    using that msg_size_take_mono [of j 3 "map wire_field ?ws"] by simp
  then show "j < 4 \<Longrightarrow> reads_back A (pid_packet A me n i) ?ws j"
    using packed_reads_back [OF assms b(2), of j] e
    by (simp add: reachable_field_def pid_wires_def reply_wires_def)
qed

definition announcements :: "aroop \<Rightarrow> 32 word \<Rightarrow> pp_state \<Rightarrow> nat list \<Rightarrow> effect list" where
  "announcements A me s is =
     concat (map (\<lambda>i. map (\<lambda>j. SendMsg (fd0 (nodes s j)) (pid_packet A me (nid (nodes s i)) i)) [1..<6]) is)"

lemma announcements_cong: "nodes s = nodes t \<Longrightarrow> announcements A me s is = announcements A me t is"
  by (simp add: announcements_def)

lemma announce_children_effects:
  assumes "aroop_ok A" and "mynode s = Some 0"
  shows "announce_children A (\<lambda>_. False) me is s = Inr (s\<lparr>effects := effects s @ announcements A me s is\<rparr>)"
  using assms(2)
proof (induction "is" arbitrary: s)
  case Nil
  then show ?case by (simp add: announcements_def)
next
  case (Cons i "is")
  let ?n = "nid (nodes s i)"
  obtain b where b: "binary_coder_reset A (aroop_txt_stackbuffer A NGINZ_MAX_BINARY_MSG_LEN) = Inr b"
      "str (pack_wires A b (pid_wires A me ?n i)) = pid_packet A me ?n i"
    using pid_packet_props(1) [OF assms(1)] by blast
  let ?s = "s\<lparr>effects := effects s @ map (\<lambda>j. SendMsg (fd0 (nodes s j)) (pid_packet A me ?n i)) [1..<6]\<rparr>"
  have f: "filter (\<lambda>j. Some j \<noteq> mynode s) [0..<MAX_PROCESS_COUNT] = [1..<6]"
    using Cons.prems by (simp add: six upt_rec)
  have "pp_broadcast (\<lambda>_. False) (pack_wires A b (pid_wires A me ?n i)) [0..<MAX_PROCESS_COUNT] s = (0, ?s)"
    using broadcast_sends [of "[0..<MAX_PROCESS_COUNT]" s "\<lambda>_. False" "pack_wires A b (pid_wires A me ?n i)"] f b(2)
    by simp
  then have "async_pm_reply_worker A (\<lambda>_. False) me 0 ?n (mailbox_child_pid A) (of_nat i) [] s = Inr (0, ?s)"
    using mailbox_txt [OF assms(1)] b(1) by (simp add: reply_is_wires pp_send_def pid_wires_def)
  moreover have "announcements A me ?s is = announcements A me s is" by (simp add: announcements_def)
  ultimately show ?case using Cons.IH [of ?s] Cons.prems by (simp add: announcements_def)
qed

lemma inbox_append: "inbox f (xs @ ys) = inbox f xs @ inbox f ys"
  by (induction f xs rule: inbox.induct) auto

lemma inbox_round:
  assumes "inj_on g {1..<6}" and "k \<in> {1..<6}"
  shows "inbox (g k) (map (\<lambda>j. SendMsg (g j) bs) [1..<6]) = [bs]"
proof -
  have eq: "inbox (g k) (map (\<lambda>j. SendMsg (g j) bs) js) = replicate (length (filter (\<lambda>j. g j = g k) js)) bs" for js
    by (induction js) auto
  have "g j = g k \<longleftrightarrow> j = k" if "j \<in> {1..<6}" for j using assms that by (auto dest: inj_onD)
  then have "filter (\<lambda>j. g j = g k) [1..<6] = filter (\<lambda>j. j = k) [1..<6]" by (intro filter_cong) auto
  also have "\<dots> = [k]" using assms(2) by (auto simp: upt_rec)
  finally show ?thesis by (simp add: eq)
qed

lemma inbox_announcements:
  assumes "inj_on (\<lambda>j. fd0 (nodes s j)) {1..<6}" and "k \<in> {1..<6}"
  shows "inbox (fd0 (nodes s k)) (announcements A me s is) = map (\<lambda>i. pid_packet A me (nid (nodes s i)) i) is"
proof (induction "is")
  case (Cons i "is")
  then show ?case
    using inbox_round [OF assms, of "pid_packet A me (nid (nodes s i)) i"]
    by (simp add: announcements_def inbox_append)
qed (simp add: announcements_def)

section \<open>Delivering the announcements\<close>

definition child_ok :: "nat \<Rightarrow> pp_state \<Rightarrow> bool" where
  "child_ok k s \<longleftrightarrow> mynode s = Some k \<and> reader_ok s"

lemma deliver_pid:
  assumes A: "aroop_ok A" and s: "child_ok k s" and n: "0 \<le>s n" and i: "i < 6"
  shows "\<exists>s'. deliver A (pid_packet A me n i) s = Inr s' \<and> child_ok k s' \<and>
    nids s' = (if i = k then nids s else (nids s)[i := n])"
proof -
  let ?p = "pid_packet A me n i"
  note P = pid_packet_props(2) [OF A, of me n i] pid_packet_props(3) [OF A, of _ me n i]
  have "pid_wires A me n i ! 1 = WStr (mailbox_child_pid A)" by (simp add: pid_wires_def reply_wires_def)
  then obtain x r rest where r: "read_packet A ?p s = Inr (Some (x, r), s\<lparr>recv_buffer := r, effects := effects s @ [PmCall x r]\<rparr>)"
      "str x = lit ''mailbox/child/pid''" "wf_txt r" "t_len r < 65536" "str r = ?p @ rest" "t_len r \<noteq> 0"
      "reader_ok (s\<lparr>recv_buffer := r, effects := effects s @ [PmCall x r]\<rparr>)"
    using read_packet_call [OF A _ P(1) P(2) [of 1], of s] s mailbox_txt(2) [OF A] by (auto simp: child_ok_def lit_def)
  let ?s = "s\<lparr>recv_buffer := r, effects := effects s @ [PmCall x r]\<rparr>"
  have tok: "binary_unpack_int A r 2 0 = Inr (0, n)"
    using P(2) [of 2] r(3-5) n unfolding reads_back_def by (fastforce simp: pid_wires_def reply_wires_def)
  have i0: "0 \<le>s (of_nat i :: 32 word)" "unat (of_nat i :: 32 word) = i"
  proof -
    have "i = 0 \<or> i = 1 \<or> i = 2 \<or> i = 3 \<or> i = 4 \<or> i = 5" using i by linarith
    then show "0 \<le>s (of_nat i :: 32 word)" "unat (of_nat i :: 32 word) = i"
      by (elim disjE; simp add: word_sle_eq)+
  qed
  have idx: "binary_unpack_int A r 3 0 = Inr (0, of_nat i)"
    using P(2) [of 3] r(3-5) i0(1) unfolding reads_back_def by (fastforce simp: pid_wires_def reply_wires_def)
  have my: "mynode s = Some k" using s by (simp add: child_ok_def)
  have "deliver A ?p s = (if k = i then Inr ?s else Inr (set_nid i n ?s))"
    using my i r(6) by (simp add: deliver_def r(1,2) pp_update_siblings_pid_def tok idx i0(2) six)
  moreover have "child_ok k ?s" using r(7) my by (simp add: child_ok_def)
  moreover from this have "child_ok k (set_nid i n ?s)" by (auto simp: child_ok_def reader_ok_def set_nid_def)
  moreover have "nids ?s = nids s" by (rule nids_cong) simp
  ultimately show ?thesis using nids_set_nid [OF i, of n ?s] by auto
qed

lemma deliver_pids:
  assumes "aroop_ok A" and "child_ok k s" and "\<And>i. i \<in> set is \<Longrightarrow> 0 \<le>s n i" and "\<And>i. i \<in> set is \<Longrightarrow> i < 6"
  shows "\<exists>s'. deliver_all A (map (\<lambda>i. pid_packet A me (n i) i) is) s = Inr s' \<and> child_ok k s' \<and>
    (\<forall>j<6. nids s' ! j = (if j \<in> set is \<and> j \<noteq> k then n j else nids s ! j))"
  using assms(2-)
proof (induction "is" arbitrary: s)
  case (Cons i "is")
  have ii: "0 \<le>s n i" "i < 6" using Cons.prems(2,3) by simp_all
  obtain s1 where s1: "deliver A (pid_packet A me (n i) i) s = Inr s1" "child_ok k s1"
      "nids s1 = (if i = k then nids s else (nids s)[i := n i])"
    using deliver_pid [OF assms(1) Cons.prems(1) ii] by blast
  obtain s2 where s2: "deliver_all A (map (\<lambda>i. pid_packet A me (n i) i) is) s1 = Inr s2" "child_ok k s2"
      "\<forall>j<6. nids s2 ! j = (if j \<in> set is \<and> j \<noteq> k then n j else nids s1 ! j)"
    using Cons.IH [OF s1(2)] Cons.prems(2,3) by auto
  have "nids s2 ! j = (if j \<in> set (i # is) \<and> j \<noteq> k then n j else nids s ! j)" if "j < 6" for j
    using s2(3) s1(3) that by (auto simp: nth_list_update)
  then show ?case using s1(1) s2(1,2) by auto
qed simp

text \<open>A worker that reads the announcements of the master knows every process.\<close>

lemma child_learns:
  assumes "aroop_ok A" and "length ps = 5" and "nids m = me # ps" and "\<And>p. p \<in> set ps \<Longrightarrow> 0 \<le>s p"
    and "inbox (fd0 (nodes m (Suc k))) es = map (\<lambda>i. pid_packet A me (nid (nodes m i)) i) [1..<6]" and "k < 5"
    and "child_ok (Suc k) c" and "nids c ! 0 = me" and "nids c ! Suc k = ps ! k"
  shows "\<exists>c'. deliver_all A (inbox (fd0 (nodes m (Suc k))) es) c = Inr c' \<and> nids c' = me # ps \<and> mynode c' = Some (Suc k)"
proof -
  let ?n = "\<lambda>i. nid (nodes m i)"
  have n: "?n i = (me # ps) ! i" if "i < 6" for i using nids_nth [OF that, of m] assms(3) by simp
  have nn: "0 \<le>s ?n i" "i < 6" if "i \<in> set [1..<6]" for i
    using that n [of i] assms(2,4) by (auto simp: nth_Cons')
  obtain c' where c: "deliver_all A (map (\<lambda>i. pid_packet A me (?n i) i) [1..<6]) c = Inr c'"
    "child_ok (Suc k) c'" "\<forall>j<6. nids c' ! j = (if j \<in> set [1..<6] \<and> j \<noteq> Suc k then ?n j else nids c ! j)"
    using deliver_pids [OF assms(1,7), of "[1..<6]" ?n me] nn by blast
  have "nids c' = me # ps"
    by (rule nth_equalityI) (use c(3) n assms(2,8,9) in \<open>auto simp: nth_Cons'\<close>)
  then show ?thesis using c assms(5) by (auto simp: child_ok_def)
qed

section \<open>Forking all workers\<close>

lemma parent_after_last:
  assumes "aroop_ok A" and "knows s ps" and "length ps = 5" and "p \<noteq> 0" and "mynode s = Some 0" and "hd ps = me"
  shows "\<exists>m. pp_fork_parent_after_callback A (\<lambda>_. False) NGINZ_PIPELINE_SIGNATURE me p s = Inr m \<and>
    knows m (ps @ [p]) \<and> mynode m = Some 0 \<and> same_fds m s \<and>
    (\<exists>es. effects m = effects s @ announcements A me m [1..<6] @ es \<and> (\<forall>f. inbox f es = []))"
proof -
  let ?s = "set_nid 5 p s"
  have k: "node_index 0 s = Some 5" "knows ?s (ps @ [p])"
    using knows_next [OF assms(2) _ assms(4)] assms(3) by simp_all
  have my: "mynode ?s = Some 0" using assms(5) by (simp add: set_nid_def)
  have n: "nid (nodes ?s 0) = me" "nid (nodes ?s 5) = p"
    using k(2) assms(3,6) nids_nth [of 0 ?s] nids_nth [of 5 ?s] hd_conv_nth [of ps]
    by (cases "ps = []"; auto simp: knows_def nth_append)+
  let ?t = "?s\<lparr>effects := effects ?s @ announcements A me ?s [1..<6]\<rparr>"
  let ?m = "effect (RawSetup (raw_fd1 (nodes ?t 0))) (effect (RegisterFd (fd1 (nodes ?t 0))) ?t)"
  have "announce_children A (\<lambda>_. False) me [1..<MAX_PROCESS_COUNT] ?s = Inr ?t"
    unfolding six by (rule announce_children_effects [OF assms(1) my])
  then have "pp_fork_parent_after_callback A (\<lambda>_. False) NGINZ_PIPELINE_SIGNATURE me p s = Inr ?m"
    using k(1) my n assms(4)
    by (simp add: pp_fork_parent_after_callback_def six register_readers_def Let_def)
  moreover have nd: "nodes ?m = nodes ?s" "mynode ?m = Some 0" "recv_buffer ?m = recv_buffer s"
    using my by (simp_all add: effect_def set_nid_def)
  moreover have "knows ?m (ps @ [p])" using k(2) nids_cong [OF nd(1)] by (simp add: knows_def)
  moreover have "same_fds ?m s" unfolding same_fds_def nd by (simp add: set_nid_def)
  moreover have "announcements A me ?m [1..<6] = announcements A me ?s [1..<6]"
    by (rule announcements_cong [OF nd(1)])
  moreover have "effects ?m = effects s @ announcements A me ?s [1..<6] @ [RegisterFd (fd1 (nodes ?t 0)), RawSetup (raw_fd1 (nodes ?t 0))]"
    by (simp add: effect_def set_nid_def)
  moreover have "\<forall>f. inbox f [RegisterFd (fd1 (nodes ?t 0)), RawSetup (raw_fd1 (nodes ?t 0))] = []" by simp
  ultimately show ?thesis by metis
qed

lemma fork_run:
  assumes "aroop_ok A" and "knows s (me # qs)" and "length qs + length ps = 5" and "ps \<noteq> []" and "0 \<notin> set ps"
    and "mynode s = Some 0"
  shows "\<exists>m cs. fork_processors A (\<lambda>_. False) me (map Some ps) s = Inr (0, m, cs) \<and>
    knows m (me # qs @ ps) \<and> same_fds m s \<and> length cs = length ps \<and>
    (\<exists>es. effects m = effects s @ announcements A me m [1..<6] @ es \<and> (\<forall>f. inbox f es = [])) \<and>
    (\<forall>j<length ps. knows (cs ! j) (me # qs @ take (Suc j) ps) \<and> mynode (cs ! j) = Some (Suc (length qs + j)) \<and>
       same_fds (cs ! j) s)"
  using assms(2-)
proof (induction ps arbitrary: qs s)
  case (Cons p ps)
  have p: "p \<noteq> 0" "length (me # qs) < 6" using Cons.prems(2,4) by auto
  obtain c where c: "pp_fork_child_after_callback A NGINZ_PIPELINE_SIGNATURE p s = Inr c"
      "knows c ((me # qs) @ [p])" "mynode c = Some (length (me # qs))" "same_fds c s"
    using child_after [OF Cons.prems(1) p(2,1)] by blast
  show ?case
  proof (cases "ps = []")
    case True
    then have l: "length (me # qs) = 5" using Cons.prems(2) by simp
    obtain m where "pp_fork_parent_after_callback A (\<lambda>_. False) NGINZ_PIPELINE_SIGNATURE me p s = Inr m"
      "knows m ((me # qs) @ [p])" "same_fds m s"
      "\<exists>es. effects m = effects s @ announcements A me m [1..<6] @ es \<and> (\<forall>f. inbox f es = [])"
      using parent_after_last [OF assms(1) Cons.prems(1) l p(1) Cons.prems(5)] by auto
    then show ?thesis using True c by (intro exI [of _ m] exI [of _ "[c]"]) simp
  next
    case False
    let ?s = "set_nid (length (me # qs)) p s"
    have l5: "length (me # qs) < 5" using False Cons.prems(2) by (cases ps) auto
    have pa: "pp_fork_parent_after_callback A (\<lambda>_. False) NGINZ_PIPELINE_SIGNATURE me p s = Inr ?s"
      by (rule parent_after_early [OF Cons.prems(1) l5 p(1) Cons.prems(5)]) simp_all
    have k: "knows ?s (me # qs @ [p])" using knows_next(2) [OF Cons.prems(1) p(2,1)] by simp
    have st: "mynode ?s = Some 0" "effects ?s = effects s" "same_fds t ?s \<longleftrightarrow> same_fds t s" for t
      using Cons.prems(5) by (auto simp: set_nid_def same_fds_def)
    obtain m cs where m: "fork_processors A (\<lambda>_. False) me (map Some ps) ?s = Inr (0, m, cs)"
      "knows m (me # (qs @ [p]) @ ps)" "same_fds m s" "length cs = length ps"
      "\<exists>es. effects m = effects s @ announcements A me m [1..<6] @ es \<and> (\<forall>f. inbox f es = [])"
      "\<forall>j<length ps. knows (cs ! j) (me # (qs @ [p]) @ take (Suc j) ps) \<and>
         mynode (cs ! j) = Some (Suc (length (qs @ [p]) + j)) \<and> same_fds (cs ! j) s"
      using Cons.IH [OF k _ False _ st(1)] Cons.prems(2,4) st(2,3) by auto
    have "knows ((c # cs) ! j) (me # qs @ take (Suc j) (p # ps)) \<and>
        mynode ((c # cs) ! j) = Some (Suc (length qs + j)) \<and> same_fds ((c # cs) ! j) s" if "j < length (p # ps)" for j
      using that c m(6) by (cases j) auto
    then show ?thesis
      using c(1) pa m by (intro exI [of _ m] exI [of _ "c # cs"]) simp
  qed
qed simp

text \<open>What \<open>pp_module_init\<close> leaves in the master.\<close>

lemma init_result:
  assumes "aroop_ok A" and "t_cap (aroop_txt_buffer A NGINZ_MAX_BINARY_MSG_LEN) < 65536"
    and "\<And>i. i < MAX_PROCESS_COUNT \<Longrightarrow> \<exists>a b c d. sockets i = Some (a, b, c, d) \<and> b \<noteq> -1" and "mynode s0 = Some 0"
  shows "\<exists>s. pp_module_init A me sockets s0 = (0, s) \<and> mynode s = Some 0 \<and> effects s = effects s0 \<and>
    nids s = me # replicate 5 0 \<and> (\<forall>i < 6. fd0 (nodes s i) = fst (the (sockets i)) \<and> fd1 (nodes s i) \<noteq> -1) \<and>
    wf_txt (recv_buffer s) \<and> 1024 \<le> t_cap (recv_buffer s) \<and> t_cap (recv_buffer s) < 65536"
proof -
  have la: "list_all (\<lambda>i. sockets i \<noteq> None) [0..<MAX_PROCESS_COUNT]" using assms(3) by (fastforce simp: list_all_iff)
  obtain s where s: "pp_module_init A me sockets s0 = (0, s)" using la by (simp add: pp_module_init_def)
  then have sd: "s = s0\<lparr>nodes := (\<lambda>i. case sockets i of
                Some (a, b, c, d) \<Rightarrow> \<lparr>nid = (if mynode s0 = Some i then me else 0), fd0 = a, fd1 = b, raw_fd0 = c, raw_fd1 = d\<rparr>
              | None \<Rightarrow> nodes s0 i), recv_buffer := aroop_txt_buffer A NGINZ_MAX_BINARY_MSG_LEN\<rparr>"
    using s la by (simp add: pp_module_init_def)
  have nd: "fd0 (nodes s i) = fst (the (sockets i))" "fd1 (nodes s i) \<noteq> -1" "nid (nodes s i) = (if i = 0 then me else 0)"
    if "i < 6" for i
    using assms(3) [of i] that by (auto simp: sd six assms(4))
  have b: "wf_txt (recv_buffer s)" "1024 \<le> t_cap (recv_buffer s)" "t_cap (recv_buffer s) < 65536"
    using buffer_laws(1) [OF assms(1)] buffer_cap(1) [OF assms(1), of NGINZ_MAX_BINARY_MSG_LEN] assms(2)
    by (simp_all add: sd NGINZ_MAX_BINARY_MSG_LEN_def)
  have "nids s = me # replicate 5 0"
    by (rule nth_equalityI) (auto simp: nids_nth nd nth_Cons')
  then show ?thesis using s nd(1,2) b assms(4) by (intro exI [of _ s]) (simp add: sd)
qed

section \<open>Properties\<close>

text \<open>(C1) Start-up makes every process know every other: after the master has initialised the pipeline
  and forked its five workers, and each worker has read the packets the master sent to it, the node
  tables of the master and of all workers hold the same process identifiers at the same places,
  and worker \<open>k\<close> knows itself as node \<open>k\<close>. The packets travel through the message coder, the
  receive buffer and the plugin \<open>mailbox/child/pid\<close>.\<close>

theorem node_tables_agree:
  assumes "aroop_ok A" and "t_cap (aroop_txt_buffer A NGINZ_MAX_BINARY_MSG_LEN) < 65536"
    and "\<And>i. i < MAX_PROCESS_COUNT \<Longrightarrow> \<exists>a b c d. sockets i = Some (a, b, c, d) \<and> b \<noteq> -1"
    and "inj_on (\<lambda>i. fst (the (sockets i))) {1..<6}"
    and "mynode s0 = Some 0" and "effects s0 = []"
    and "length ps = NGINZ_NUMBER_OF_PROCESSORS" and "0 \<notin> set (me # ps)" and "\<And>p. p \<in> set ps \<Longrightarrow> 0 \<le>s p"
  shows "\<exists>s m cs. pp_module_init A me sockets s0 = (0, s) \<and>
    fork_processors A (\<lambda>_. False) me (map Some ps) s = Inr (0, m, cs) \<and> nids m = me # ps \<and> length cs = 5 \<and>
    (\<forall>k<5. \<exists>c. deliver_all A (inbox (fd0 (nodes m (Suc k))) (effects m)) (cs ! k) = Inr c \<and>
       nids c = me # ps \<and> mynode c = Some (Suc k))"
proof -
  have ln: "length ps = 5" using assms(7) by (simp add: NGINZ_NUMBER_OF_PROCESSORS_def)
  obtain s where s: "pp_module_init A me sockets s0 = (0, s)" "mynode s = Some 0" "effects s = []" "nids s = me # replicate 5 0"
    "\<forall>i < 6. fd0 (nodes s i) = fst (the (sockets i)) \<and> fd1 (nodes s i) \<noteq> -1"
    and b: "wf_txt (recv_buffer s)" "1024 \<le> t_cap (recv_buffer s)" "t_cap (recv_buffer s) < 65536"
    using init_result [where A = A and sockets = sockets and ?s0.0 = s0 and me = me] assms(1-3,5,6) by auto
  have nd: "fd0 (nodes s i) = fst (the (sockets i))" "fd1 (nodes s i) \<noteq> -1" if "i < 6" for i using s(5) that by auto
  have kn: "knows s (me # [])" using s(4) assms(8) by (simp add: knows_def)
  have "ps \<noteq> []" "0 \<notin> set ps" "mynode s = Some 0" "effects s = []"
    using ln s(2,3) assms(8) by auto
  then obtain m cs es where m: "fork_processors A (\<lambda>_. False) me (map Some ps) s = Inr (0, m, cs)"
    "knows m (me # ps)" "same_fds m s" "length cs = 5"
    "effects m = announcements A me m [1..<6] @ es" "\<And>f. inbox f es = []"
    "\<And>j. j < 5 \<Longrightarrow> knows (cs ! j) (me # take (Suc j) ps) \<and> mynode (cs ! j) = Some (Suc j) \<and> same_fds (cs ! j) s"
    using fork_run [OF assms(1) kn, of ps] ln by auto
  have nm: "nids m = me # ps" using m(2) ln by (simp add: knows_def)
  have inj: "inj_on (\<lambda>j. fd0 (nodes m j)) {1..<6}"
  proof -
    have "inj_on (\<lambda>j. fd0 (nodes m j)) {1..<6} \<longleftrightarrow> inj_on (\<lambda>i. fst (the (sockets i))) {1..<6}"
      by (rule inj_on_cong) (use m(3) nd(1) in \<open>simp add: same_fds_def\<close>)
    then show ?thesis using assms(4) by simp
  qed
  have "\<exists>c. deliver_all A (inbox (fd0 (nodes m (Suc k))) (effects m)) (cs ! k) = Inr c \<and>
       nids c = me # ps \<and> mynode c = Some (Suc k)" if k: "k < 5" for k
  proof -
    have ib: "inbox (fd0 (nodes m (Suc k))) (effects m) = map (\<lambda>i. pid_packet A me (nid (nodes m i)) i) [1..<6]"
      using inbox_announcements [OF inj, of "Suc k" A me "[1..<6]"] k by (simp add: m(5,6) inbox_append)
    have ok: "child_ok (Suc k) (cs ! k)"
      using m(7) [OF k] b nd(2) [of "Suc k"] k by (auto simp: child_ok_def reader_ok_def same_fds_def)
    have "nids (cs ! k) ! 0 = me" "nids (cs ! k) ! Suc k = ps ! k" using m(7) [OF k] k ln by (auto simp: knows_def nth_append)
    then show ?thesis using child_learns [OF assms(1) ln nm assms(9) ib k ok] by blast
  qed
  then show ?thesis using s(1) m(1,4) nm by blast
qed

definition six_sockets :: "nat \<Rightarrow> (int \<times> int \<times> int \<times> int) option" where
  "six_sockets i = Some (2 * int i, 2 * int i + 1, 0, 0)"

lemma node_tables_agree_witness:
  "\<exists>s m cs. pp_module_init ref_aroop 100 six_sockets six_nodes = (0, s) \<and>
    fork_processors ref_aroop (\<lambda>_. False) 100 (map Some [101, 102, 103, 104, 105]) s = Inr (0, m, cs) \<and>
    nids m = 100 # [101, 102, 103, 104, 105] \<and> length cs = 5 \<and>
    (\<forall>k<5. \<exists>c. deliver_all ref_aroop (inbox (fd0 (nodes m (Suc k))) (effects m)) (cs ! k) = Inr c \<and>
       nids c = 100 # [101, 102, 103, 104, 105] \<and> mynode c = Some (Suc k))"
proof (rule node_tables_agree)
  show "t_cap (aroop_txt_buffer ref_aroop NGINZ_MAX_BINARY_MSG_LEN) < 65536"
    by (simp add: ref_aroop_def t_cap_def NGINZ_MAX_BINARY_MSG_LEN_def)
  show "\<exists>a b c d. six_sockets i = Some (a, b, c, d) \<and> b \<noteq> -1" for i
    by (auto simp: six_sockets_def)
  show "inj_on (\<lambda>i. fst (the (six_sockets i))) {1..<6}" by (simp add: inj_on_def six_sockets_def)
  show "0 \<le>s p" if "p \<in> set [101, 102, 103, 104, 105]" for p :: "32 word"
    using that by (auto simp: word_sle_eq)
qed (simp_all add: six_nodes_def NGINZ_NUMBER_OF_PROCESSORS_def)

end
