(* ===== verification/AsyncDb.thy ===== *)
theory AsyncDb
  imports AsyncRequest
begin

text \<open>
  The asynchronous database: the requests of the workers, \<open>db/src/async_db.c\<close>, and the store in the
  master, \<open>db/src/async_db_master.c\<close>. The store is an \<open>opp_hash_table\<close> of the external library
  (parameter \<open>T\<close>); a null pointer to a text is \<open>None\<close>. Requests and replies are packets of the
  message coder.
\<close>

section \<open>The client\<close>

definition compare_and_set_app :: "aroop \<Rightarrow> aroop_txt_t" where
  "compare_and_set_app A = aroop_txt_static_string A (lit ''asyncdb/cas/request'')"
definition set_if_null_app :: "aroop \<Rightarrow> aroop_txt_t" where
  "set_if_null_app A = aroop_txt_static_string A (lit ''asyncdb/sin/request'')"
definition unset_app :: "aroop \<Rightarrow> aroop_txt_t" where
  "unset_app A = aroop_txt_static_string A (lit ''asyncdb/unset/request'')"
definition get_app :: "aroop \<Rightarrow> aroop_txt_t" where
  "get_app A = aroop_txt_static_string A (lit ''asyncdb/get/request'')"

definition hook_or_null :: "aroop \<Rightarrow> aroop_txt_t option \<Rightarrow> aroop_txt_t" where
  "hook_or_null A cb_hook = (case cb_hook of None \<Rightarrow> null_hook A | Some h \<Rightarrow> h)"

definition async_db_compare_and_swap ::
    "aroop \<Rightarrow> (int \<Rightarrow> bool) \<Rightarrow> 32 word \<Rightarrow> 32 word \<Rightarrow> 32 word \<Rightarrow> aroop_txt_t option \<Rightarrow> aroop_txt_t \<Rightarrow>
     aroop_txt_t option \<Rightarrow> aroop_txt_t option \<Rightarrow> pp_state \<Rightarrow> (int \<times> pp_state) exec" where
  "async_db_compare_and_swap A fails getpid masterpid cb_token cb_hook key newval oldval s =
     ebind (aroop_assert A (t_len key \<noteq> 0)) (\<lambda>_.
     ebind (case oldval of
              None \<Rightarrow> Inr ()
            | Some _ \<Rightarrow> (case newval of None \<Rightarrow> Inl NullDeref | Some v \<Rightarrow> aroop_assert A (t_len v \<noteq> 0))) (\<lambda>_.
     let app = (if oldval \<noteq> None then compare_and_set_app A
                else if newval \<noteq> None then set_if_null_app A else unset_app A);
         args = key # (case newval of None \<Rightarrow> [] | Some n \<Rightarrow> n # (case oldval of None \<Rightarrow> [] | Some e \<Rightarrow> [e]))
     in ebind (async_pm_call_master A fails getpid masterpid cb_token (Some (hook_or_null A cb_hook)) app args s)
          (\<lambda>(_, s'). Inr (0, s'))))"

definition async_db_unset ::
    "aroop \<Rightarrow> (int \<Rightarrow> bool) \<Rightarrow> 32 word \<Rightarrow> 32 word \<Rightarrow> 32 word \<Rightarrow> aroop_txt_t option \<Rightarrow> aroop_txt_t \<Rightarrow>
     pp_state \<Rightarrow> (int \<times> pp_state) exec" where
  "async_db_unset A fails getpid masterpid cb_token cb_hook key s =
     async_db_compare_and_swap A fails getpid masterpid cb_token (Some (hook_or_null A cb_hook)) key None None s"

text \<open>\<open>aroop_txt_printf(&x, "%d", v)\<close> on a stack buffer of 32 bytes.\<close>

definition int_txt :: "aroop \<Rightarrow> 32 word \<Rightarrow> aroop_txt_t" where
  "int_txt A v = aroop_txt_printf_d A (aroop_txt_stackbuffer A 32) (sint v)"

definition async_db_set_if_null ::
    "aroop \<Rightarrow> (int \<Rightarrow> bool) \<Rightarrow> 32 word \<Rightarrow> 32 word \<Rightarrow> 32 word \<Rightarrow> aroop_txt_t option \<Rightarrow> aroop_txt_t \<Rightarrow>
     32 word \<Rightarrow> pp_state \<Rightarrow> (int \<times> pp_state) exec" where
  "async_db_set_if_null A fails getpid masterpid cb_token cb_hook key intval s =
     ebind (async_db_compare_and_swap A fails getpid masterpid cb_token (Some (hook_or_null A cb_hook)) key
              (Some (int_txt A intval)) None s)
       (\<lambda>(_, s'). Inr (0, s'))"

definition async_db_increment ::
    "aroop \<Rightarrow> (int \<Rightarrow> bool) \<Rightarrow> 32 word \<Rightarrow> 32 word \<Rightarrow> 32 word \<Rightarrow> aroop_txt_t option \<Rightarrow> aroop_txt_t \<Rightarrow>
     32 word \<Rightarrow> 32 word \<Rightarrow> pp_state \<Rightarrow> (int \<times> pp_state) exec" where
  "async_db_increment A fails getpid masterpid cb_token cb_hook key intval increment s =
     (if intval + increment = 0 then async_db_unset A fails getpid masterpid (-1) None key s
      else
        ebind (if intval = 0 then async_db_set_if_null A fails getpid masterpid (-1) None key increment s
               else Inr (0, s)) (\<lambda>(_, s1).
        let oldstr = int_txt A intval;
            newstr = int_txt A (intval + increment)
        in ebind (async_db_compare_and_swap A fails getpid masterpid cb_token (Some (hook_or_null A cb_hook)) key
                    (Some newstr) (Some oldstr) s1)
             (\<lambda>(_, s2). Inr (0, s2))))"

definition async_db_get ::
    "aroop \<Rightarrow> (int \<Rightarrow> bool) \<Rightarrow> 32 word \<Rightarrow> 32 word \<Rightarrow> 32 word \<Rightarrow> aroop_txt_t option \<Rightarrow> aroop_txt_t \<Rightarrow>
     pp_state \<Rightarrow> (int \<times> pp_state) exec" where
  "async_db_get A fails getpid masterpid cb_token cb_hook key s =
     ebind (aroop_assert A (t_len key \<noteq> 0)) (\<lambda>_.
     async_pm_call_master A fails getpid masterpid cb_token (Some (hook_or_null A cb_hook)) (get_app A) [key] s)"

section \<open>The master\<close>

record 'h db_master =
  global_db :: 'h
  db_pp :: pp_state

definition noasync_db_get ::
    "aroop \<Rightarrow> ('h, aroop_txt_t) table_api \<Rightarrow> aroop_txt_t \<Rightarrow> aroop_txt_t \<Rightarrow> 'h db_master \<Rightarrow> (int \<times> aroop_txt_t) exec" where
  "noasync_db_get A T key val m =
     ebind (aroop_assert A (is_master (db_pp m))) (\<lambda>_.
     Inr (0, case opp_hash_table_get T (global_db m) key of
               None \<Rightarrow> val | Some oldval \<Rightarrow> aroop_txt_copy_shallow A oldval))"

definition async_db_op_reply ::
    "aroop \<Rightarrow> (int \<Rightarrow> bool) \<Rightarrow> 32 word \<Rightarrow> 32 word \<Rightarrow> 32 word \<Rightarrow> aroop_txt_t \<Rightarrow> 32 word \<Rightarrow> aroop_txt_t \<Rightarrow>
     aroop_txt_t option \<Rightarrow> pp_state \<Rightarrow> (int \<times> pp_state) exec" where
  "async_db_op_reply A fails getpid destpid cb_token cb_hook success key newval s =
     (let args = key # (case newval of None \<Rightarrow> [] | Some n \<Rightarrow> [n])
      in if t_len cb_hook = 0 then async_pm_reply_worker A fails getpid destpid cb_token (null_hook A) success args s
         else async_pm_reply_worker A fails getpid destpid cb_token cb_hook success args s)"

definition async_db_op_helper ::
    "aroop \<Rightarrow> ('h, aroop_txt_t) table_api \<Rightarrow> aroop_txt_t \<Rightarrow> aroop_txt_t option \<Rightarrow> aroop_txt_t option \<Rightarrow> 'h \<Rightarrow> int \<times> 'h" where
  "async_db_op_helper A T key newval expval h =
     (if t_len key = 0 then (-1, h)
      else case newval of
        None \<Rightarrow> (0, opp_hash_table_set T h key None)
      | Some nv \<Rightarrow>
          (let oldval = opp_hash_table_get T h key
           in if \<not> ((oldval = None \<and> expval = None) \<or>
                    (case oldval of None \<Rightarrow> False | Some old \<Rightarrow>
                      (case expval of None \<Rightarrow> False | Some e \<Rightarrow> aroop_txt_equals A e old)))
              then (-1, h)
              else (0, opp_hash_table_set T h (aroop_txt_copy_deep A key) (Some (aroop_txt_copy_deep A nv)))))"

definition c_not :: "int \<Rightarrow> 32 word" where
  "c_not r = (if r = 0 then 1 else 0)"

definition async_db_CAS_hook ::
    "aroop \<Rightarrow> ('h, aroop_txt_t) table_api \<Rightarrow> (int \<Rightarrow> bool) \<Rightarrow> 32 word \<Rightarrow> aroop_txt_t \<Rightarrow> 'h db_master \<Rightarrow> (int \<times> 'h db_master) exec" where
  "async_db_CAS_hook A T fails getpid bin m =
     ebind (aroop_assert A (is_master (db_pp m))) (\<lambda>_.
     ebind (binary_unpack_int A bin 0 0) (\<lambda>(_, srcpid).
     ebind (binary_unpack_int A bin 2 0) (\<lambda>(_, cb_token).
     ebind (binary_unpack_string A bin 3 zero_txt) (\<lambda>(_, cb_hook).
     ebind (binary_unpack_string A bin 4 zero_txt) (\<lambda>(_, key).
     ebind (binary_unpack_string A bin 5 zero_txt) (\<lambda>(_, newval).
     ebind (binary_unpack_string A bin 6 zero_txt) (\<lambda>(_, expval).
     let (ret, h) = async_db_op_helper A T key (Some newval) (Some expval) (global_db m)
     in ebind (async_db_op_reply A fails getpid srcpid cb_token cb_hook (c_not ret) key (Some newval) (db_pp m))
          (\<lambda>(_, s). Inr (0, m\<lparr>global_db := h, db_pp := s\<rparr>)))))))))"

definition async_db_set_if_null_hook ::
    "aroop \<Rightarrow> ('h, aroop_txt_t) table_api \<Rightarrow> (int \<Rightarrow> bool) \<Rightarrow> 32 word \<Rightarrow> aroop_txt_t \<Rightarrow> 'h db_master \<Rightarrow> (int \<times> 'h db_master) exec" where
  "async_db_set_if_null_hook A T fails getpid bin m =
     ebind (aroop_assert A (is_master (db_pp m))) (\<lambda>_.
     ebind (binary_unpack_int A bin 0 0) (\<lambda>(_, srcpid).
     ebind (binary_unpack_int A bin 2 0) (\<lambda>(_, cb_token).
     ebind (binary_unpack_string A bin 3 zero_txt) (\<lambda>(_, cb_hook).
     ebind (binary_unpack_string A bin 4 zero_txt) (\<lambda>(_, key).
     ebind (binary_unpack_string A bin 5 zero_txt) (\<lambda>(_, newval).
     let (ret, h) = async_db_op_helper A T key (Some newval) None (global_db m)
     in ebind (async_db_op_reply A fails getpid srcpid cb_token cb_hook (c_not ret) key (Some newval) (db_pp m))
          (\<lambda>(_, s). Inr (0, m\<lparr>global_db := h, db_pp := s\<rparr>))))))))"

definition async_db_unset_hook ::
    "aroop \<Rightarrow> ('h, aroop_txt_t) table_api \<Rightarrow> (int \<Rightarrow> bool) \<Rightarrow> 32 word \<Rightarrow> aroop_txt_t \<Rightarrow> 'h db_master \<Rightarrow> (int \<times> 'h db_master) exec" where
  "async_db_unset_hook A T fails getpid bin m =
     ebind (aroop_assert A (is_master (db_pp m))) (\<lambda>_.
     ebind (binary_unpack_int A bin 0 0) (\<lambda>(_, srcpid).
     ebind (binary_unpack_int A bin 2 0) (\<lambda>(_, cb_token).
     ebind (binary_unpack_string A bin 3 zero_txt) (\<lambda>(_, cb_hook).
     ebind (binary_unpack_string A bin 4 zero_txt) (\<lambda>(_, key).
     let (ret, h) = async_db_op_helper A T key None None (global_db m)
     in ebind (async_db_op_reply A fails getpid srcpid cb_token cb_hook (c_not ret) key None (db_pp m))
          (\<lambda>(_, s). Inr (0, m\<lparr>global_db := h, db_pp := s\<rparr>)))))))"

definition async_db_get_hook ::
    "aroop \<Rightarrow> ('h, aroop_txt_t) table_api \<Rightarrow> (int \<Rightarrow> bool) \<Rightarrow> 32 word \<Rightarrow> aroop_txt_t \<Rightarrow> 'h db_master \<Rightarrow> (int \<times> 'h db_master) exec" where
  "async_db_get_hook A T fails getpid bin m =
     ebind (aroop_assert A (is_master (db_pp m))) (\<lambda>_.
     ebind (binary_unpack_int A bin 0 0) (\<lambda>(_, srcpid).
     ebind (binary_unpack_int A bin 2 0) (\<lambda>(_, cb_token).
     ebind (binary_unpack_string A bin 3 zero_txt) (\<lambda>(_, cb_hook).
     ebind (binary_unpack_string A bin 4 zero_txt) (\<lambda>(_, key).
     let oldval = opp_hash_table_get T (global_db m) key
     in ebind (async_db_op_reply A fails getpid srcpid cb_token cb_hook 1 key oldval (db_pp m))
          (\<lambda>(_, s). Inr (0, m\<lparr>db_pp := s\<rparr>)))))))"

definition async_db_dump_helper :: "aroop \<Rightarrow> aroop_txt_t \<Rightarrow> aroop_txt_t \<times> aroop_txt_t \<Rightarrow> aroop_txt_t" where
  "async_db_dump_helper A out kv =
     (let o1 = aroop_txt_concat_char A out 91;
          o2 = aroop_txt_concat A o1 (fst kv);
          o3 = aroop_txt_concat_char A o2 93;
          o4 = aroop_txt_concat_char A o3 62;
          o5 = aroop_txt_concat_char A o4 91;
          o6 = aroop_txt_concat A o5 (snd kv);
          o7 = aroop_txt_concat_char A o6 93
      in aroop_txt_concat_char A o7 10)"

definition async_db_dump_hook :: "aroop \<Rightarrow> ('h, aroop_txt_t) table_api \<Rightarrow> 'h db_master \<Rightarrow> int \<times> aroop_txt_t" where
  "async_db_dump_hook A T m =
     (0, foldl (async_db_dump_helper A) (aroop_txt_buffer A 2048) (opp_hash_table_traverse T (global_db m)))"

text \<open>The plugins that \<open>async_db_master_init\<close> plugs for requests, with their plugin spaces; the plugin
  \<open>shake/dbdump\<close> that it plugs too is \<open>async_db_dump_hook\<close> above.\<close>

datatype db_hook = CASHook | SetIfNullHook | UnsetHook | GetHook

definition db_plugs :: "(bytes \<times> db_hook) list" where
  "db_plugs = [(lit ''asyncdb/cas/request'', CASHook), (lit ''asyncdb/sin/request'', SetIfNullHook),
     (lit ''asyncdb/unset/request'', UnsetHook), (lit ''asyncdb/get/request'', GetHook)]"

definition async_db_master_init ::
    "aroop \<Rightarrow> ('h, aroop_txt_t) table_api \<Rightarrow> 'h db_master \<Rightarrow> ('h db_master \<times> (bytes \<times> db_hook) list) exec" where
  "async_db_master_init A T m =
     ebind (aroop_assert A (is_master (db_pp m))) (\<lambda>_.
     Inr (m\<lparr>global_db := opp_hash_table_create T\<rparr>, db_plugs))"

fun run_db_hook ::
    "aroop \<Rightarrow> ('h, aroop_txt_t) table_api \<Rightarrow> (int \<Rightarrow> bool) \<Rightarrow> 32 word \<Rightarrow> db_hook \<Rightarrow> aroop_txt_t \<Rightarrow> 'h db_master \<Rightarrow>
     (int \<times> 'h db_master) exec" where
  "run_db_hook A T fails getpid CASHook bin m = async_db_CAS_hook A T fails getpid bin m"
| "run_db_hook A T fails getpid SetIfNullHook bin m = async_db_set_if_null_hook A T fails getpid bin m"
| "run_db_hook A T fails getpid UnsetHook bin m = async_db_unset_hook A T fails getpid bin m"
| "run_db_hook A T fails getpid GetHook bin m = async_db_get_hook A T fails getpid bin m"

text \<open>The master reads one packet and runs the plugin it names, if it is one of \<open>plugs\<close>.\<close>

definition db_serve ::
    "aroop \<Rightarrow> ('h, aroop_txt_t) table_api \<Rightarrow> (int \<Rightarrow> bool) \<Rightarrow> 32 word \<Rightarrow> (bytes \<times> db_hook) list \<Rightarrow> bytes \<Rightarrow>
     'h db_master \<Rightarrow> 'h db_master exec" where
  "db_serve A T fails getpid plugs bs m =
     ebind (read_packet A bs (db_pp m)) (\<lambda>(call, s).
       (case call of
          None \<Rightarrow> Inr (m\<lparr>db_pp := s\<rparr>)
        | Some (x, b) \<Rightarrow>
            (case map_of plugs (str x) of
               None \<Rightarrow> Inr (m\<lparr>db_pp := s\<rparr>)
             | Some hook \<Rightarrow> ebind (run_db_hook A T fails getpid hook b (m\<lparr>db_pp := s\<rparr>)) (\<lambda>(_, m'). Inr m'))))"

fun db_serve_all ::
    "aroop \<Rightarrow> ('h, aroop_txt_t) table_api \<Rightarrow> (int \<Rightarrow> bool) \<Rightarrow> 32 word \<Rightarrow> (bytes \<times> db_hook) list \<Rightarrow> bytes list \<Rightarrow>
     'h db_master \<Rightarrow> 'h db_master exec" where
  "db_serve_all A T fails getpid plugs [] m = Inr m"
| "db_serve_all A T fails getpid plugs (b # bs) m =
     ebind (db_serve A T fails getpid plugs b m) (db_serve_all A T fails getpid plugs bs)"

section \<open>The store as a map\<close>

definition db_map :: "('h, aroop_txt_t) table_api \<Rightarrow> 'h \<Rightarrow> (bytes \<rightharpoonup> bytes)" where
  "db_map T h = (\<lambda>k. map_option str (table_map T h k))"

definition db_wf :: "('h, aroop_txt_t) table_api \<Rightarrow> 'h \<Rightarrow> bool" where
  "db_wf T h \<longleftrightarrow> (\<forall>k v. table_map T h k = Some v \<longrightarrow> wf_txt v)"

text \<open>Compare and swap on a map: without a new value the key is removed.\<close>

definition map_cas :: "bytes \<Rightarrow> bytes option \<Rightarrow> bytes option \<Rightarrow> (bytes \<rightharpoonup> bytes) \<Rightarrow> bool \<times> (bytes \<rightharpoonup> bytes)" where
  "map_cas k new expected f =
     (case new of
        None \<Rightarrow> (True, f(k := None))
      | Some n \<Rightarrow> if f k = expected then (True, f(k \<mapsto> n)) else (False, f))"

lemma db_map_set:
  "table_ok T \<Longrightarrow> db_map T (opp_hash_table_set T h k v) = (db_map T h)(str k := map_option str v)"
  by (rule ext) (simp add: db_map_def)

lemma db_map_get: "table_ok T \<Longrightarrow> map_option str (opp_hash_table_get T h k) = db_map T h (str k)"
  by (simp add: db_map_def table_get_map)

lemma op_helper_cas:
  assumes "aroop_ok A" and "table_ok T" and "db_wf T h" and "wf_txt key" and "str key \<noteq> []"
    and "\<forall>v. new = Some v \<longrightarrow> wf_txt v" and "\<forall>v. expected = Some v \<longrightarrow> wf_txt v"
  shows "async_db_op_helper A T key new expected h = (ret, h') \<Longrightarrow>
    map_cas (str key) (map_option str new) (map_option str expected) (db_map T h) = (ret = 0, db_map T h') \<and> db_wf T h'"
proof -
  assume r: "async_db_op_helper A T key new expected h = (ret, h')"
  have l: "t_len key \<noteq> 0" using length_str [OF assms(4)] assms(5) by (metis length_0_conv)
  have g: "db_map T h (str key) = map_option str (opp_hash_table_get T h key)" using assms(2) by (simp add: db_map_get)
  have w: "wf_txt old" if "opp_hash_table_get T h key = Some old" for old
    using assms(2,3) that by (auto simp: db_wf_def table_get_map)
  have e: "aroop_txt_equals A x old \<longleftrightarrow> str x = str old"
    if "expected = Some x" "opp_hash_table_get T h key = Some old" for x old
    using equals_law [OF assms(1)] assms(7) w that by auto
  show ?thesis
  proof (cases new)
    case None
    then show ?thesis
      using r l assms(2,3) by (auto simp: async_db_op_helper_def map_cas_def db_map_set db_wf_def split: if_splits)
  next
    case (Some v)
    have c: "wf_txt (aroop_txt_copy_deep A v)" "str (aroop_txt_copy_deep A v) = str v"
      "str (aroop_txt_copy_deep A key) = str key"
      using assms(1,4,6) Some by (simp_all add: copy_deep_laws)
    show ?thesis
    proof (cases "db_map T h (str key) = map_option str expected")
      case True
      then have "ret = 0" "h' = opp_hash_table_set T h (aroop_txt_copy_deep A key) (Some (aroop_txt_copy_deep A v))"
        using r l Some g e by (auto simp: async_db_op_helper_def Let_def split: option.splits if_splits)
      then show ?thesis using True Some c assms(2,3) by (auto simp: map_cas_def db_map_set db_wf_def)
    next
      case False
      then have "ret = -1" "h' = h"
        using r l Some g e by (auto simp: async_db_op_helper_def Let_def split: option.splits if_splits)
      then show ?thesis using False Some assms(3) by (auto simp: map_cas_def)
    qed
  qed
qed


section \<open>Requests\<close>

definition db_app :: "aroop \<Rightarrow> aroop_txt_t option \<Rightarrow> aroop_txt_t option \<Rightarrow> aroop_txt_t" where
  "db_app A new expected =
     (if expected \<noteq> None then compare_and_set_app A else if new \<noteq> None then set_if_null_app A else unset_app A)"

definition db_args :: "aroop_txt_t \<Rightarrow> aroop_txt_t option \<Rightarrow> aroop_txt_t option \<Rightarrow> aroop_txt_t list" where
  "db_args key new expected =
     key # (case new of None \<Rightarrow> [] | Some n \<Rightarrow> n # (case expected of None \<Rightarrow> [] | Some e \<Rightarrow> [e]))"

definition db_wires :: "aroop \<Rightarrow> 32 word \<Rightarrow> 32 word \<Rightarrow> aroop_txt_t \<Rightarrow> aroop_txt_t \<Rightarrow> aroop_txt_t option \<Rightarrow>
    aroop_txt_t option \<Rightarrow> wire list" where
  "db_wires A pid tok hook key new expected = request_wires pid (db_app A new expected) tok hook (db_args key new expected)"

text \<open>The arguments of a request that the code can carry whole.\<close>

definition db_request_ok :: "aroop_txt_t \<Rightarrow> aroop_txt_t \<Rightarrow> aroop_txt_t option \<Rightarrow> aroop_txt_t option \<Rightarrow> bool" where
  "db_request_ok hook key new expected \<longleftrightarrow>
     wf_txt hook \<and> wf_txt key \<and> str key \<noteq> [] \<and> (\<forall>v. new = Some v \<longrightarrow> wf_txt v) \<and>
     (\<forall>v. expected = Some v \<longrightarrow> wf_txt v) \<and>
     (expected \<noteq> None \<longrightarrow> (case new of None \<Rightarrow> False | Some v \<Rightarrow> str v \<noteq> [])) \<and>
     length (str hook) + length (str key) + (case new of None \<Rightarrow> 0 | Some v \<Rightarrow> length (str v)) +
       (case expected of None \<Rightarrow> 0 | Some v \<Rightarrow> length (str v)) \<le> 200"

lemma apps [simp]:
  assumes "aroop_ok A"
  shows "wf_txt (db_app A new expected)" "wf_txt (get_app A)"
    "length (str (db_app A new expected)) \<le> 21"
    "str (db_app A new expected) = (if expected \<noteq> None then lit ''asyncdb/cas/request''
       else if new \<noteq> None then lit ''asyncdb/sin/request'' else lit ''asyncdb/unset/request'')"
  using assms
  by (simp_all add: db_app_def compare_and_set_app_def set_if_null_app_def unset_app_def get_app_def static_laws)

lemma db_request:
  assumes A: "aroop_ok A" and r: "db_request_ok hook key new expected"
    and ws_def: "ws = db_wires A pid tok hook key new expected"
  shows "\<forall>w \<in> set ws. wf_wire w" and "msg_size (map wire_field ws) \<le> NGINZ_MAX_BINARY_MSG_LEN"
    and "i < length ws \<Longrightarrow> reachable_field (map wire_field ws) i"
proof -
  note l = length_int_bytes_le [of pid] length_int_bytes_le [of tok] apps(3) [OF A, of new expected]
  note d = ws_def db_wires_def request_wires_def db_args_def
  show "\<forall>w \<in> set ws. wf_wire w"
    using r A by (auto simp: d db_request_ok_def split: option.splits)
  have s: "msg_size (map wire_field ws) < 256"
    using r l by (auto simp: d db_request_ok_def simp del: apps(4) split: option.splits)
  then show "msg_size (map wire_field ws) \<le> NGINZ_MAX_BINARY_MSG_LEN" by (simp add: NGINZ_MAX_BINARY_MSG_LEN_def)
  assume i: "i < length ws"
  have "msg_size (take (Suc i) (map wire_field ws)) < 256" using s msg_size_take_le order_le_less_trans by blast
  then have "msg_size (take i (map wire_field ws)) + 3 < 256"
    using i by (simp add: msg_size_take_Suc)
  then show "reachable_field (map wire_field ws) i" using i by (simp add: reachable_field_def)
qed


lemma client_sends:
  assumes "aroop_ok A" and "db_request_ok hook key new expected" and "node_index mpid s = Some i" and "mpid \<noteq> 0"
    and "\<not> fails (fd0 (nodes s i))"
  shows "async_db_compare_and_swap A fails pid mpid tok (Some hook) key new expected s =
    Inr (0, s\<lparr>effects := effects s @
      [SendMsg (fd0 (nodes s i)) (request_packet A (db_wires A pid tok hook key new expected))]\<rparr>)"
proof -
  let ?ws = "db_wires A pid tok hook key new expected"
  note d = db_request [OF assms(1,2), of ?ws pid tok, OF refl]
  obtain b where b: "binary_coder_reset A (aroop_txt_stackbuffer A NGINZ_MAX_BINARY_MSG_LEN) = Inr b"
      "str (pack_wires A b ?ws) = request_packet A ?ws"
    using request_packet_props(1) [OF assms(1) d(1,2)] by blast
  have key: "t_len key \<noteq> 0"
    using assms(2) length_str [of key] unfolding db_request_ok_def by (metis length_0_conv)
  have e: "(case expected of None \<Rightarrow> Inr ()
            | Some _ \<Rightarrow> (case new of None \<Rightarrow> Inl NullDeref | Some v \<Rightarrow> aroop_assert A (t_len v \<noteq> 0))) = Inr ()"
  proof -
    have "t_len v \<noteq> 0" if "new = Some v" "expected \<noteq> None" for v
    proof -
      have "str v \<noteq> []" "wf_txt v" using assms(2) that by (auto simp: db_request_ok_def)
      then show ?thesis using length_str [of v] by (metis length_0_conv)
    qed
    then show ?thesis
      using assms(2) by (cases expected; cases new) (auto simp: db_request_ok_def)
  qed
  have "async_pm_call_master A fails pid mpid tok (Some hook) (db_app A new expected) (db_args key new expected) s =
    Inr (0, s\<lparr>effects := effects s @ [SendMsg (fd0 (nodes s i)) (request_packet A ?ws)]\<rparr>)"
    using b send_known [OF assms(3,4), of fails A "pack_wires A b ?ws"] assms(5)
    by (simp add: request_is_wires db_wires_def)
  then show ?thesis
    using key by (simp add: async_db_compare_and_swap_def e hook_or_null_def db_app_def db_args_def Let_def)
qed

section \<open>Serving a request\<close>

text \<open>An integer field as the reader gets it: a negative one loses its upper half.\<close>

definition as_read :: "32 word \<Rightarrow> 32 word" where
  "as_read v = (if 0 \<le>s v then v else v AND 0xFFFF)"

lemma reads_int:
  "reads_back A p ws i \<Longrightarrow> wf_txt r \<Longrightarrow> t_len r < 65536 \<Longrightarrow> str r = p @ rest \<Longrightarrow> ws ! i = WInt v \<Longrightarrow>
     binary_unpack_int A r i n = Inr (0, as_read v)"
  unfolding reads_back_def as_read_def by fastforce

lemma reads_str:
  "reads_back A p ws i \<Longrightarrow> wf_txt r \<Longrightarrow> t_len r < 65536 \<Longrightarrow> str r = p @ rest \<Longrightarrow> ws ! i = WStr x \<Longrightarrow>
     \<exists>y. binary_unpack_string A r i out = Inr (0, y) \<and> str y = str x \<and> wf_txt y"
  unfolding reads_back_def by fastforce

lemma ebind_pair:
  "ebind (ebind m (\<lambda>(a, s). Inr (i, f s))) (\<lambda>(b, y). Inr y) = ebind m (\<lambda>(a, s). Inr (f s))"
  by (cases m) auto

lemma same_str_cas:
  assumes "aroop_ok A" and "table_ok T" and "db_wf T h" and "wf_txt key'" and "str key' = str key" and "str key \<noteq> []"
    and "rel_option (\<lambda>y x. wf_txt y \<and> str y = str x) new' new"
    and "rel_option (\<lambda>y x. wf_txt y \<and> str y = str x) expected' expected"
  obtains ret h' where "async_db_op_helper A T key' new' expected' h = (ret, h')"
    and "c_not ret = (if fst (map_cas (str key) (map_option str new) (map_option str expected) (db_map T h)) then 1 else 0)"
    and "db_map T h' = snd (map_cas (str key) (map_option str new) (map_option str expected) (db_map T h))"
    and "db_wf T h'"
proof -
  obtain ret h' where r: "async_db_op_helper A T key' new' expected' h = (ret, h')" by fastforce
  have w: "\<forall>v. new' = Some v \<longrightarrow> wf_txt v" "\<forall>v. expected' = Some v \<longrightarrow> wf_txt v"
    using assms(7,8) by (auto simp: option_rel_Some1)
  have e: "map_option str new' = map_option str new" "map_option str expected' = map_option str expected"
    using assms(7,8) by (auto elim!: option.rel_cases)
  have ne: "str key' \<noteq> []" using assms(5,6) by simp
  have "map_cas (str key) (map_option str new) (map_option str expected) (db_map T h) = (ret = 0, db_map T h') \<and> db_wf T h'"
    using op_helper_cas [OF assms(1-4) ne w r] by (simp only: e assms(5))
  then show ?thesis by (intro that [OF r]) (simp_all add: c_not_def)
qed

lemma serve_request:
  assumes A: "aroop_ok A" and T: "table_ok T" and m: "db_wf T (global_db m)" "reader_ok (db_pp m)" "is_master (db_pp m)"
    and r: "db_request_ok hook key new expected"
  defines "c \<equiv> map_cas (str key) (map_option str new) (map_option str expected) (db_map T (global_db m))"
    and "s1 \<equiv> \<lambda>x r. (db_pp m)\<lparr>recv_buffer := r, effects := effects (db_pp m) @ [PmCall x r]\<rparr>"
  shows "\<exists>x r hook' key' new' h'. wf_txt hook' \<and> str hook' = str hook \<and> wf_txt key' \<and> str key' = str key \<and>
    rel_option (\<lambda>y x. wf_txt y \<and> str y = str x) new' new \<and> reader_ok (s1 x r) \<and>
    db_serve A T fails mpid db_plugs (request_packet A (db_wires A pid tok hook key new expected)) m =
      ebind (async_db_op_reply A fails mpid (as_read pid) (as_read tok) hook' (if fst c then 1 else 0) key' new' (s1 x r))
        (\<lambda>(_, s'). Inr (m\<lparr>global_db := h', db_pp := s'\<rparr>)) \<and>
    db_map T h' = snd c \<and> db_wf T h'"
proof -
  let ?ws = "db_wires A pid tok hook key new expected"
  let ?p = "request_packet A ?ws"
  note d = db_request [OF A r, of ?ws pid tok, OF refl]
  have rb: "reads_back A ?p ?ws i" if "i < length ?ws" for i
    using request_packet_props(3) [OF A d(1,2) d(3) [OF that]] .
  have ws: "?ws ! 0 = WInt pid" "?ws ! 1 = WStr (db_app A new expected)" "?ws ! 2 = WInt tok" "?ws ! 3 = WStr hook"
    "?ws ! 4 = WStr key" "5 \<le> length ?ws" "length ?ws = 4 + length (db_args key new expected)"
    by (simp_all add: db_wires_def request_wires_def db_args_def)
  have ne: "str (db_app A new expected) \<noteq> []" by (simp add: A lit_def)
  have i1: "1 < length ?ws" using ws(6) by simp
  obtain x b rest where b: "read_packet A ?p (db_pp m) = Inr (Some (x, b), s1 x b)"
      "str x = str (db_app A new expected)" "wf_txt b" "t_len b < 65536" "str b = ?p @ rest" "reader_ok (s1 x b)"
    using read_packet_call [OF A m(2) request_packet_props(2) [OF A d(1,2)] rb [OF i1] ws(2) ne] unfolding s1_def by blast
  have u0: "binary_unpack_int A b 0 0 = Inr (0, as_read pid)"
    by (rule reads_int [OF rb b(3-5) ws(1)]) (use ws(6) in linarith)
  have u2: "binary_unpack_int A b 2 0 = Inr (0, as_read tok)"
    by (rule reads_int [OF rb b(3-5) ws(3)]) (use ws(6) in linarith)
  have "3 < length ?ws" "4 < length ?ws" using ws(6) by linarith+
  then obtain hook' key' where u3: "binary_unpack_string A b 3 zero_txt = Inr (0, hook')" "str hook' = str hook" "wf_txt hook'"
      and u4: "binary_unpack_string A b 4 zero_txt = Inr (0, key')" "str key' = str key" "wf_txt key'"
    using reads_str [OF rb b(3-5) ws(4)] reads_str [OF rb b(3-5) ws(5)] by metis
  have key: "str key \<noteq> []" using r by (simp add: db_request_ok_def)
  have ms: "is_master (s1 x b)" using m(3) by (simp add: is_master_def s1_def)
  have u5: "\<exists>y. binary_unpack_string A b 5 zero_txt = Inr (0, y) \<and> str y = str v \<and> wf_txt y" if "new = Some v" for v
    by (rule reads_str [OF rb b(3-5)]) (use that in \<open>simp_all add: db_wires_def request_wires_def db_args_def\<close>)
  have u6: "\<exists>y. binary_unpack_string A b 6 zero_txt = Inr (0, y) \<and> str y = str e \<and> wf_txt y"
    if "new = Some v" "expected = Some e" for v e
    by (rule reads_str [OF rb b(3-5)]) (use that in \<open>simp_all add: db_wires_def request_wires_def db_args_def\<close>)
  note cas = same_str_cas [OF A T m(1) u4(3,2) key]
  consider (cas) v e where "new = Some v" "expected = Some e" | (sin) v where "new = Some v" "expected = None"
    | (unset) "new = None" "expected = None"
    using r by (cases new; cases expected) (auto simp: db_request_ok_def)
  then show ?thesis
  proof cases
    case cas
    have x: "str x = lit ''asyncdb/cas/request''" using b(2) cas A by simp
    obtain y z where y: "binary_unpack_string A b 5 zero_txt = Inr (0, y)" "str y = str v" "wf_txt y"
        and z: "binary_unpack_string A b 6 zero_txt = Inr (0, z)" "str z = str e" "wf_txt z"
      using u5 [OF cas(1)] u6 [OF cas] by blast
    obtain ret h' where h: "async_db_op_helper A T key' (Some y) (Some z) (global_db m) = (ret, h')"
        "c_not ret = (if fst c then 1 else 0)" "db_map T h' = snd c" "db_wf T h'"
      using same_str_cas [OF A T m(1) u4(3,2) key, of "Some y" new "Some z" expected] y z cas unfolding c_def by auto
    have "db_serve A T fails mpid db_plugs ?p m =
      ebind (async_db_op_reply A fails mpid (as_read pid) (as_read tok) hook' (if fst c then 1 else 0) key' (Some y) (s1 x b))
        (\<lambda>(_, s'). Inr (m\<lparr>global_db := h', db_pp := s'\<rparr>))"
      using ms x
      by (simp add: db_serve_def b(1) db_plugs_def async_db_CAS_hook_def u0 u2 u3(1) u4(1) y(1) z(1) h(1,2) ebind_pair)
    then show ?thesis using u3(2,3) u4(2,3) b(6) h(3,4) y(2,3) cas(1)
      by (intro exI [of _ x] exI [of _ b] exI [of _ hook'] exI [of _ key'] exI [of _ "Some y"] exI [of _ h']) simp
  next
    case sin
    have x: "str x = lit ''asyncdb/sin/request''" using b(2) sin A by simp
    obtain y where y: "binary_unpack_string A b 5 zero_txt = Inr (0, y)" "str y = str v" "wf_txt y"
      using u5 [OF sin(1)] by blast
    obtain ret h' where h: "async_db_op_helper A T key' (Some y) None (global_db m) = (ret, h')"
        "c_not ret = (if fst c then 1 else 0)" "db_map T h' = snd c" "db_wf T h'"
      using same_str_cas [OF A T m(1) u4(3,2) key, of "Some y" new None expected] y sin unfolding c_def by auto
    have "db_serve A T fails mpid db_plugs ?p m =
      ebind (async_db_op_reply A fails mpid (as_read pid) (as_read tok) hook' (if fst c then 1 else 0) key' (Some y) (s1 x b))
        (\<lambda>(_, s'). Inr (m\<lparr>global_db := h', db_pp := s'\<rparr>))"
      using ms x
      by (simp add: db_serve_def b(1) db_plugs_def async_db_set_if_null_hook_def u0 u2 u3(1) u4(1) y(1) h(1,2) ebind_pair)
    then show ?thesis using u3(2,3) u4(2,3) b(6) h(3,4) y(2,3) sin(1)
      by (intro exI [of _ x] exI [of _ b] exI [of _ hook'] exI [of _ key'] exI [of _ "Some y"] exI [of _ h']) simp
  next
    case unset
    have x: "str x = lit ''asyncdb/unset/request''" using b(2) unset A by simp
    obtain ret h' where h: "async_db_op_helper A T key' None None (global_db m) = (ret, h')"
        "c_not ret = (if fst c then 1 else 0)" "db_map T h' = snd c" "db_wf T h'"
      using same_str_cas [OF A T m(1) u4(3,2) key, of None new None expected] unset unfolding c_def by auto
    have "db_serve A T fails mpid db_plugs ?p m =
      ebind (async_db_op_reply A fails mpid (as_read pid) (as_read tok) hook' (if fst c then 1 else 0) key' None (s1 x b))
        (\<lambda>(_, s'). Inr (m\<lparr>global_db := h', db_pp := s'\<rparr>))"
      using ms x
      by (simp add: db_serve_def b(1) db_plugs_def async_db_unset_hook_def u0 u2 u3(1) u4(1) h(1,2) ebind_pair)
    then show ?thesis using u3(2,3) u4(2,3) b(6) h(3,4) unset(1)
      by (intro exI [of _ x] exI [of _ b] exI [of _ hook'] exI [of _ key'] exI [of _ "None"] exI [of _ h']) simp
  qed
qed


section \<open>Replies\<close>

lemma null_hook_txt:
  assumes "aroop_ok A"
  shows "wf_txt (null_hook A)" "str (null_hook A) = lit ''null''" "t_len (null_hook A) \<noteq> 0"
proof -
  show w: "wf_txt (null_hook A)" "str (null_hook A) = lit ''null''"
    using assms by (simp_all add: null_hook_def static_laws)
  show "t_len (null_hook A) \<noteq> 0" using length_str [OF w(1)] by (simp add: w(2))
qed

lemma reply_silent:
  assumes "aroop_ok A" and "wf_txt hook" and "str hook = [] \<or> str hook = lit ''null''"
  shows "async_db_op_reply A fails pid dest tok hook success key new s = Inr (0, s)"
proof -
  note n = null_hook_txt [OF assms(1)]
  have e: "aroop_txt_equals A x (null_hook A) \<longleftrightarrow> str x = lit ''null''" if "wf_txt x" for x
    using equals_law [OF assms(1) that n(1)] n(2) by simp
  show ?thesis
  proof (cases "t_len hook = 0")
    case True
    then show ?thesis using n e [OF n(1)] by (simp add: async_db_op_reply_def async_pm_reply_worker_def)
  next
    case False
    then have "str hook = lit ''null''" using assms(2,3) length_str by fastforce
    then show ?thesis using False e [OF assms(2)] by (simp add: async_db_op_reply_def async_pm_reply_worker_def)
  qed
qed

definition reply_args :: "aroop_txt_t \<Rightarrow> aroop_txt_t option \<Rightarrow> aroop_txt_t list" where
  "reply_args key new = key # (case new of None \<Rightarrow> [] | Some n \<Rightarrow> [n])"

lemma reply_sends:
  assumes A: "aroop_ok A" and h: "wf_txt hook" "str hook \<noteq> []" "str hook \<noteq> lit ''null''" and k: "wf_txt key"
    and n: "\<forall>v. new = Some v \<longrightarrow> wf_txt v"
    and l: "length (str hook) + length (str key) + (case new of None \<Rightarrow> 0 | Some v \<Rightarrow> length (str v)) \<le> 200"
    and d: "node_index dest s = Some w" "dest \<noteq> 0" "\<not> fails (fd0 (nodes s w))"
    and ws: "ws = reply_wires pid hook tok success (reply_args key new)"
  shows "async_db_op_reply A fails pid dest tok hook success key new s =
      Inr (0, s\<lparr>effects := effects s @ [SendMsg (fd0 (nodes s w)) (request_packet A ws)]\<rparr>)"
    and "i < length ws \<Longrightarrow> reads_back A (request_packet A ws) ws i"
proof -
  note b = length_int_bytes_le [of pid] length_int_bytes_le [of tok] length_int_bytes_le [of success]
  have wf: "\<forall>w \<in> set ws. wf_wire w"
    using h(1) k n by (auto simp: ws reply_wires_def reply_args_def split: option.splits)
  have sz: "msg_size (map wire_field ws) < 256"
    using l b by (auto simp: ws reply_wires_def reply_args_def split: option.splits)
  then have sz': "msg_size (map wire_field ws) \<le> NGINZ_MAX_BINARY_MSG_LEN" by (simp add: NGINZ_MAX_BINARY_MSG_LEN_def)
  obtain bb where bb: "binary_coder_reset A (aroop_txt_stackbuffer A NGINZ_MAX_BINARY_MSG_LEN) = Inr bb"
      "str (pack_wires A bb ws) = request_packet A ws"
    using request_packet_props(1) [OF A wf sz'] by blast
  have t: "t_len hook \<noteq> 0" using length_str [OF h(1)] h(2) by (metis length_0_conv)
  have e: "\<not> aroop_txt_equals A hook (null_hook A)"
    using equals_law [OF A h(1) null_hook_txt(1) [OF A]] null_hook_txt(2) [OF A] h(3) by simp
  have sn: "pp_send A fails dest (pack_wires A bb ws) s =
      Inr (0, s\<lparr>effects := effects s @ [SendMsg (fd0 (nodes s w)) (request_packet A ws)]\<rparr>)"
    using send_known [where fails = fails, OF d] bb(2) by simp
  have "async_db_op_reply A fails pid dest tok hook success key new s =
      async_pm_reply_worker A fails pid dest tok hook success (reply_args key new) s"
    using t by (simp add: async_db_op_reply_def reply_args_def)
  then show "async_db_op_reply A fails pid dest tok hook success key new s =
      Inr (0, s\<lparr>effects := effects s @ [SendMsg (fd0 (nodes s w)) (request_packet A ws)]\<rparr>)"
    using reply_is_wires [OF t e] bb(1) sn by (simp add: ws)
  assume i: "i < length ws"
  have "msg_size (take (Suc i) (map wire_field ws)) < 256" using sz msg_size_take_le order_le_less_trans by blast
  then have "reachable_field (map wire_field ws) i"
    using i by (simp add: msg_size_take_Suc reachable_field_def)
  then show "reads_back A (request_packet A ws) ws i" by (rule request_packet_props(3) [OF A wf sz'])
qed

lemma reads_back_same:
  assumes "reads_back A p ws i"
    and "case ws ! i of WStr x \<Rightarrow> \<exists>y. ws' ! i = WStr y \<and> str y = str x | WInt v \<Rightarrow> ws' ! i = WInt v"
  shows "reads_back A p ws' i"
  using assms unfolding reads_back_def by (cases "ws ! i") auto

lemma serve_silent:
  assumes A: "aroop_ok A" and T: "table_ok T" and m: "db_wf T (global_db m)" "reader_ok (db_pp m)" "is_master (db_pp m)"
    and r: "db_request_ok hook key new expected" and h: "str hook = [] \<or> str hook = lit ''null''"
  shows "\<exists>m'. db_serve A T fails mpid db_plugs (request_packet A (db_wires A pid tok hook key new expected)) m = Inr m' \<and>
    db_map T (global_db m') = snd (map_cas (str key) (map_option str new) (map_option str expected) (db_map T (global_db m))) \<and>
    db_wf T (global_db m') \<and> reader_ok (db_pp m') \<and> is_master (db_pp m')"
proof -
  obtain x b hook' key' new' h' where s: "wf_txt hook'" "str hook' = str hook"
      "reader_ok ((db_pp m)\<lparr>recv_buffer := b, effects := effects (db_pp m) @ [PmCall x b]\<rparr>)"
      "db_serve A T fails mpid db_plugs (request_packet A (db_wires A pid tok hook key new expected)) m =
        ebind (async_db_op_reply A fails mpid (as_read pid) (as_read tok) hook'
          (if fst (map_cas (str key) (map_option str new) (map_option str expected) (db_map T (global_db m))) then 1 else 0) key' new'
          ((db_pp m)\<lparr>recv_buffer := b, effects := effects (db_pp m) @ [PmCall x b]\<rparr>))
        (\<lambda>(_, s'). Inr (m\<lparr>global_db := h', db_pp := s'\<rparr>))"
      "db_map T h' = snd (map_cas (str key) (map_option str new) (map_option str expected) (db_map T (global_db m)))" "db_wf T h'"
    using serve_request [OF A T m r] by blast
  have rep: "async_db_op_reply A fails mpid (as_read pid) (as_read tok) hook' c key' new' t = Inr (0, t)" for c t
    by (rule reply_silent [OF A s(1)]) (use h s(2) in simp)
  have "is_master ((db_pp m)\<lparr>recv_buffer := b, effects := effects (db_pp m) @ [PmCall x b]\<rparr>)"
    using m(3) by (simp add: is_master_def)
  then show ?thesis using s(3,4,5,6) by (simp add: rep)
qed

section \<open>Properties\<close>

text \<open>(C3) A database request is a compare-and-swap on the master's map, from the worker's call to the
  answer: the call sends one packet; the master that reads it changes its map as \<open>map_cas\<close> says
  (set-if-null is the case without an expected value, unset the one without a new value) and sends
  exactly one answer to the worker, in which the token, whether the operation took place, the key and
  the new value read back.\<close>

theorem cas_served:
  assumes "aroop_ok A" and "table_ok T" and "db_wf T (global_db m)" and "reader_ok (db_pp m)" and "is_master (db_pp m)"
    and "db_request_ok hook key new expected" and "str hook \<noteq> []" and "str hook \<noteq> lit ''null''"
    and "node_index mpid s = Some i" and "mpid \<noteq> 0" and "\<not> fails (fd0 (nodes s i))"
    and "node_index pid (db_pp m) = Some w" and "0 <s pid" and "\<not> fails (fd0 (nodes (db_pp m) w))" and "0 \<le>s tok"
  shows "\<exists>bs m' call answer ok.
    async_db_compare_and_swap A fails pid mpid tok (Some hook) key new expected s =
      Inr (0, s\<lparr>effects := effects s @ [SendMsg (fd0 (nodes s i)) bs]\<rparr>) \<and>
    db_serve A T fails mpid db_plugs bs m = Inr m' \<and>
    map_cas (str key) (map_option str new) (map_option str expected) (db_map T (global_db m)) = (ok, db_map T (global_db m')) \<and>
    effects (db_pp m') = effects (db_pp m) @ [call, SendMsg (fd0 (nodes (db_pp m) w)) answer] \<and>
    (\<forall>j < 4 + length (reply_args key new).
       reads_back A answer (reply_wires mpid hook tok (if ok then 1 else 0) (reply_args key new)) j)"
proof -
  let ?c = "map_cas (str key) (map_option str new) (map_option str expected) (db_map T (global_db m))"
  let ?p = "request_packet A (db_wires A pid tok hook key new expected)"
  obtain x b hook' key' new' h' where s: "wf_txt hook'" "str hook' = str hook" "wf_txt key'" "str key' = str key"
      "rel_option (\<lambda>y x. wf_txt y \<and> str y = str x) new' new"
      "db_serve A T fails mpid db_plugs ?p m =
        ebind (async_db_op_reply A fails mpid (as_read pid) (as_read tok) hook' (if fst ?c then 1 else 0) key' new'
          ((db_pp m)\<lparr>recv_buffer := b, effects := effects (db_pp m) @ [PmCall x b]\<rparr>))
        (\<lambda>(_, s'). Inr (m\<lparr>global_db := h', db_pp := s'\<rparr>))"
      "db_map T h' = snd ?c"
    using serve_request [OF assms(1-6)] by blast
  let ?s = "(db_pp m)\<lparr>recv_buffer := b, effects := effects (db_pp m) @ [PmCall x b]\<rparr>"
  have p: "as_read pid = pid" "pid \<noteq> 0" "as_read tok = tok"
    using assms(13,15) by (auto simp: as_read_def signed.less_imp_le)
  have nx: "node_index pid ?s = Some w" "nodes ?s = nodes (db_pp m)"
    using assms(12) by (simp_all add: node_index_def)
  have nv: "\<forall>v. new' = Some v \<longrightarrow> wf_txt v" using s(5) by (auto simp: option_rel_Some1)
  have nl: "(case new' of None \<Rightarrow> 0 | Some v \<Rightarrow> length (str v)) = (case new of None \<Rightarrow> 0 | Some v \<Rightarrow> length (str v))"
    using s(5) by (auto elim!: option.rel_cases)
  have l: "length (str hook') + length (str key') + (case new' of None \<Rightarrow> 0 | Some v \<Rightarrow> length (str v)) \<le> 200"
    using assms(6) unfolding nl by (simp add: s(2,4) db_request_ok_def)
  let ?ws = "reply_wires mpid hook' tok (if fst ?c then 1 else 0) (reply_args key' new')"
  have hk: "str hook' \<noteq> []" "str hook' \<noteq> lit ''null''" using assms(7,8) s(2) by simp_all
  note rep = reply_sends [where fails = fails, OF assms(1) s(1) hk s(3) nv l nx(1) p(2) _ refl]
  have a: "async_db_op_reply A fails mpid pid tok hook' (if fst ?c then 1 else 0) key' new' ?s =
      Inr (0, ?s\<lparr>effects := effects ?s @ [SendMsg (fd0 (nodes ?s w)) (request_packet A ?ws)]\<rparr>)"
    by (rule rep(1)) (use assms(14) in \<open>simp add: nx(2)\<close>)
  let ?m = "m\<lparr>global_db := h', db_pp := ?s\<lparr>effects := effects ?s @ [SendMsg (fd0 (nodes ?s w)) (request_packet A ?ws)]\<rparr>\<rparr>"
  have sv: "db_serve A T fails mpid db_plugs ?p m = Inr ?m" using s(6) a by (simp add: p)
  have rd: "reads_back A (request_packet A ?ws) (reply_wires mpid hook tok (if fst ?c then 1 else 0) (reply_args key new)) j"
    if "j < 4 + length (reply_args key new)" for j
  proof -
    have e: "length ?ws = 4 + length (reply_args key new)"
      using s(5) by (auto simp: reply_wires_def reply_args_def elim!: option.rel_cases)
    have "reads_back A (request_packet A ?ws) ?ws j" by (rule rep(2)) (use assms(14) that e nx(2) in simp_all)
    moreover have "case ?ws ! j of
        WStr x \<Rightarrow> \<exists>y. reply_wires mpid hook tok (if fst ?c then 1 else 0) (reply_args key new) ! j = WStr y \<and> str y = str x
      | WInt v \<Rightarrow> reply_wires mpid hook tok (if fst ?c then 1 else 0) (reply_args key new) ! j = WInt v"
      using that s(2,4,5)
      by (auto simp: reply_wires_def reply_args_def nth_Cons' elim!: option.rel_cases)
    ultimately show ?thesis by (rule reads_back_same)
  qed
  show ?thesis
    using client_sends [where fails = fails, OF assms(1,6,9,10,11), of pid tok] sv rd s(7)
    by (intro exI [of _ ?p] exI [of _ ?m] exI [of _ "PmCall x b"] exI [of _ "request_packet A ?ws"] exI [of _ "fst ?c"])
       (simp add: prod_eq_iff)
qed


definition ready_nodes :: pp_state where
  "ready_nodes = six_nodes\<lparr>nodes := (\<lambda>i. (nodes six_nodes i)\<lparr>fd1 := int i + 50\<rparr>), mynode := Some 0,
     recv_buffer := aroop_txt_buffer ref_aroop 1024\<rparr>"

lemma ready_nodes [simp]:
  "reader_ok ready_nodes" "is_master ready_nodes" "effects ready_nodes = []" "fd0 (nodes ready_nodes i) = fd0 (nodes six_nodes i)"
  "node_index n ready_nodes = node_index n six_nodes"
  by (simp_all add: ready_nodes_def reader_ok_def is_master_def ref_aroop_def t_cap_def wf_txt_def node_index_def six_nodes_def)

lemma six_node_index: "node_index 100 six_nodes = Some 0" "node_index 102 six_nodes = Some 2"
  using node_index_nth [of six_nodes 0] node_index_nth [of six_nodes 2]
  by (simp_all add: nids_six_nodes) (simp_all add: six_nodes_def)

definition ready_master :: "(bytes \<times> aroop_txt_t) list db_master" where
  "ready_master = \<lparr>global_db = [(lit ''k'', txt_of (lit ''old''))], db_pp = ready_nodes\<rparr>"

lemma ready_master [simp]:
  "db_pp ready_master = ready_nodes" "db_wf ref_table (global_db ready_master)"
  "db_map ref_table (global_db ready_master) = [lit ''k'' \<mapsto> lit ''old'']"
  by (auto simp: ready_master_def db_wf_def db_map_def table_map_def ref_table_def split: if_splits)

lemma cas_served_witness:
  "\<exists>bs m' call answer ok.
    async_db_compare_and_swap ref_aroop (\<lambda>_. False) 102 100 7 (Some (txt_of (lit ''on/x''))) (txt_of (lit ''k''))
        (Some (txt_of (lit ''new''))) (Some (txt_of (lit ''old''))) six_nodes =
      Inr (0, six_nodes\<lparr>effects := effects six_nodes @ [SendMsg (fd0 (nodes six_nodes 0)) bs]\<rparr>) \<and>
    db_serve ref_aroop ref_table (\<lambda>_. False) 100 db_plugs bs ready_master = Inr m' \<and>
    map_cas (str (txt_of (lit ''k''))) (map_option str (Some (txt_of (lit ''new'')))) (map_option str (Some (txt_of (lit ''old''))))
      (db_map ref_table (global_db ready_master)) = (ok, db_map ref_table (global_db m')) \<and>
    effects (db_pp m') = effects (db_pp ready_master) @ [call, SendMsg (fd0 (nodes (db_pp ready_master) 2)) answer] \<and>
    (\<forall>j < 4 + length (reply_args (txt_of (lit ''k'')) (Some (txt_of (lit ''new'')))).
       reads_back ref_aroop answer (reply_wires 100 (txt_of (lit ''on/x'')) 7 (if ok then 1 else 0)
         (reply_args (txt_of (lit ''k'')) (Some (txt_of (lit ''new''))))) j)"
  by (rule cas_served) (simp_all add: db_request_ok_def six_node_index word_sless_alt word_sle_eq lit_def)

definition set_if_null_run ::
    "aroop \<Rightarrow> ('h, aroop_txt_t) table_api \<Rightarrow> aroop_txt_t \<Rightarrow> aroop_txt_t list \<Rightarrow> 'h \<Rightarrow> int list \<times> 'h" where
  "set_if_null_run A T key vs h =
     foldl (\<lambda>(rs, h). \<lambda>v. case async_db_op_helper A T key (Some v) None h of (r, h') \<Rightarrow> (rs @ [r], h')) ([], h) vs"

lemma set_if_null_taken:
  assumes "aroop_ok A" and "table_ok T" and "wf_txt key" and "str key \<noteq> []" and "\<forall>v \<in> set vs. wf_txt v"
    and "db_wf T h" and "db_map T h (str key) \<noteq> None"
  shows "\<exists>h'. foldl (\<lambda>(rs, h). \<lambda>v. case async_db_op_helper A T key (Some v) None h of (r, h') \<Rightarrow> (rs @ [r], h')) (rs, h) vs =
      (rs @ replicate (length vs) (-1), h') \<and> db_map T h' = db_map T h \<and> db_wf T h'"
  using assms(5-)
proof (induction vs arbitrary: rs h)
  case (Cons v vs)
  obtain r h1 where r: "async_db_op_helper A T key (Some v) None h = (r, h1)" by fastforce
  have "map_cas (str key) (Some (str v)) None (db_map T h) = (r = 0, db_map T h1) \<and> db_wf T h1"
    using op_helper_cas [OF assms(1,2) Cons.prems(2) assms(3,4) _ _ r] Cons.prems(1) by simp
  then have r1: "r \<noteq> 0" "db_map T h1 = db_map T h" "db_wf T h1"
    using Cons.prems(3) by (auto simp: map_cas_def split: if_splits)
  then have "r = -1" using r by (auto simp: async_db_op_helper_def Let_def split: if_splits option.splits)
  then show ?case
    using Cons.IH [of h1 "rs @ [-1]"] Cons.prems r1(2,3) by (auto simp: r)
qed simp

text \<open>Of the requests to set a key that is absent, in any number and in the order in which they reach
  the master, exactly the first succeeds, and its value stays. The login of the chat rests on it: a
  name is given to one connection only.\<close>

theorem set_if_null_first_wins:
  assumes "aroop_ok A" and "table_ok T" and "db_wf T h" and "wf_txt key" and "str key \<noteq> []"
    and "\<forall>v \<in> set (v # vs). wf_txt v" and "db_map T h (str key) = None"
  shows "\<exists>h'. set_if_null_run A T key (v # vs) h = (0 # replicate (length vs) (-1), h') \<and>
    db_map T h' = (db_map T h)(str key \<mapsto> str v)"
proof -
  obtain r h1 where r: "async_db_op_helper A T key (Some v) None h = (r, h1)" by fastforce
  have "map_cas (str key) (Some (str v)) None (db_map T h) = (r = 0, db_map T h1) \<and> db_wf T h1"
    using op_helper_cas [OF assms(1-5) _ _ r] assms(6) by simp
  then have r1: "r = 0" "db_map T h1 = (db_map T h)(str key \<mapsto> str v)" "db_wf T h1"
    using assms(7) by (auto simp: map_cas_def split: if_splits)
  then have "db_map T h1 (str key) \<noteq> None" by simp
  then show ?thesis
    using set_if_null_taken [OF assms(1,2,4,5) _ r1(3), of vs "[0]"] assms(6) r1 r
    by (auto simp: set_if_null_run_def)
qed

lemma empty_table: "db_wf ref_table []" "db_map ref_table [] = Map.empty"
  by (auto simp: db_wf_def db_map_def table_map_def ref_table_def)

lemma set_if_null_first_wins_witness:
  "\<exists>h'. set_if_null_run ref_aroop ref_table (txt_of (lit ''user/bob'')) [txt_of (lit ''bob''), txt_of (lit ''rob'')] [] =
      (0 # replicate (length [txt_of (lit ''rob'')]) (-1), h') \<and>
    db_map ref_table h' = (db_map ref_table [])(str (txt_of (lit ''user/bob'')) \<mapsto> str (txt_of (lit ''bob'')))"
  by (rule set_if_null_first_wins) (simp_all add: empty_table lit_def)


section \<open>Counting\<close>

lemma length_dec_sint: "length (dec_int (sint (v :: 32 word))) \<le> 11"
proof -
  have "- (2 ^ 31) \<le> sint v" "sint v < 2 ^ 31" using sint_ge [of v] sint_lt [of v] by simp_all
  then have "nat (- sint v) < 10 ^ 10" "nat (sint v) < 10 ^ 10" by auto
  then show ?thesis
    using length_dec_nat [of "nat (- sint v)" 10] length_dec_nat [of "nat (sint v)" 10] by (simp add: dec_int_def)
qed

lemma int_txt_props:
  assumes "aroop_ok A"
  shows "wf_txt (int_txt A v)" "str (int_txt A v) = dec_int (sint v)"
proof -
  have "appends (aroop_txt_stackbuffer A 32) (dec_int (sint v)) (int_txt A v)"
    unfolding int_txt_def using assms buffer_cap(2) [OF assms, of 32] length_dec_sint [of v]
    by (intro printf_d_appends) (simp_all add: buffer_laws)
  then show "wf_txt (int_txt A v)" "str (int_txt A v) = dec_int (sint v)"
    using buffer_laws(4) [OF assms, of 32] by (simp_all add: appends_def str_def)
qed

text \<open>The count \<open>n\<close> as the store keeps it: zero is the absent key.\<close>

definition stored_count :: "32 word \<Rightarrow> bytes option" where
  "stored_count n = (if n = 0 then None else Some (dec_int (sint n)))"

lemma increment_tracked:
  assumes "aroop_ok A" and "table_ok T" and "db_wf T (global_db m)" and "reader_ok (db_pp m)" and "is_master (db_pp m)"
    and "wf_txt key" and "str key \<noteq> []" and "length (str key) \<le> 170"
    and "node_index mpid s = Some i" and "mpid \<noteq> 0" and "\<not> fails (fd0 (nodes s i))"
    and "db_map T (global_db m) (str key) = stored_count n"
  shows "\<exists>bss m'. async_db_increment A fails pid mpid tok None key n d s =
      Inr (0, s\<lparr>effects := effects s @ map (SendMsg (fd0 (nodes s i))) bss\<rparr>) \<and>
    db_serve_all A T fails mpid db_plugs bss m = Inr m' \<and>
    db_map T (global_db m') = (db_map T (global_db m))(str key := stored_count (n + d))"
proof -
  note I = int_txt_props [OF assms(1)] length_dec_sint and N = null_hook_txt [OF assms(1)]
  have ok: "db_request_ok (null_hook A) key None None" "db_request_ok (null_hook A) key (Some (int_txt A v)) None"
    "db_request_ok (null_hook A) key (Some (int_txt A v)) (Some (int_txt A w))" for v w
    using assms(6-8) N I(3) [of v] I(3) [of w] by (simp_all add: db_request_ok_def I(1,2))
  note snd' = client_sends [where fails = fails and s = s, OF assms(1) _ assms(9-11)]
  have nh: "str (null_hook A) = [] \<or> str (null_hook A) = lit ''null''" using N by simp
  note serve = serve_silent [where fails = fails and mpid = mpid, OF assms(1,2) _ _ _ _ nh]
  let ?f = "db_map T (global_db m)"
  let ?p = "\<lambda>t new expected. request_packet A (db_wires A pid t (null_hook A) key new expected)"
  show ?thesis
  proof (cases "n + d = 0")
    case True
    obtain m' where m': "db_serve A T fails mpid db_plugs (?p (-1) None None) m = Inr m'"
        "db_map T (global_db m') = ?f(str key := None)"
      using serve [OF assms(3-5) ok(1), of pid "-1"] by (auto simp: map_cas_def)
    show ?thesis
      using True m' snd' [OF ok(1), of pid "-1"]
      by (intro exI [of _ "[?p (-1) None None]"] exI [of _ m'])
         (simp add: async_db_increment_def async_db_unset_def hook_or_null_def stored_count_def)
  next
    case False
    let ?o = "Some (int_txt A n)" and ?n = "Some (int_txt A (n + d))"
    show ?thesis
    proof (cases "n = 0")
      case True
      let ?d = "Some (int_txt A d)"
      let ?s = "s\<lparr>effects := effects s @ [SendMsg (fd0 (nodes s i)) (?p (-1) ?d None)]\<rparr>"
      obtain m1 where m1: "db_serve A T fails mpid db_plugs (?p (-1) ?d None) m = Inr m1"
          "db_map T (global_db m1) = ?f(str key \<mapsto> dec_int (sint d))" "db_wf T (global_db m1)" "reader_ok (db_pp m1)"
          "is_master (db_pp m1)"
        using serve [OF assms(3-5) ok(2), of pid "-1" d] assms(12) True
        by (auto simp: map_cas_def stored_count_def I)
      have ne: "dec_int (sint d) \<noteq> dec_int (sint n)" using False True signed_word_eqI [of d 0] by auto
      obtain m2 where m2: "db_serve A T fails mpid db_plugs (?p tok ?n ?o) m1 = Inr m2"
          "db_map T (global_db m2) = db_map T (global_db m1)"
        using serve [OF m1(3-5) ok(3), of pid tok "n + d" n] m1(2) ne by (auto simp: map_cas_def I)
      have c2: "async_db_compare_and_swap A fails pid mpid tok (Some (null_hook A)) key ?n ?o ?s =
          Inr (0, ?s\<lparr>effects := effects ?s @ [SendMsg (fd0 (nodes ?s i)) (?p tok ?n ?o)]\<rparr>)"
        by (rule client_sends [OF assms(1) ok(3)]) (use assms(9-11) in \<open>simp_all add: node_index_def\<close>)
      show ?thesis
        using False True m1(1,2) m2 snd' [OF ok(2), of pid "-1" d] c2
        by (intro exI [of _ "[?p (-1) ?d None, ?p tok ?n ?o]"] exI [of _ m2])
           (simp add: async_db_increment_def async_db_set_if_null_def hook_or_null_def stored_count_def Let_def)
    next
      case n0: False
      obtain m2 where m2: "db_serve A T fails mpid db_plugs (?p tok ?n ?o) m = Inr m2"
          "db_map T (global_db m2) = ?f(str key \<mapsto> dec_int (sint (n + d)))"
        using serve [OF assms(3-5) ok(3), of pid tok "n + d" n] assms(12) n0
        by (auto simp: map_cas_def I stored_count_def)
      show ?thesis
        using False n0 m2 snd' [OF ok(3), of pid tok "n + d" n]
        by (intro exI [of _ "[?p tok ?n ?o]"] exI [of _ m2])
           (simp add: async_db_increment_def hook_or_null_def stored_count_def Let_def)
    qed
  qed
qed

text \<open>The counter survives the protocol: if the store holds the count \<open>n\<close> under the key, the
  packets that one \<open>async_db_increment\<close> call of a worker sends, read by the master in order, leave the count
  \<open>n + d\<close> and no other key changed. From zero this takes two packets, of which the second always fails;
  to zero it is an unset.\<close>

theorem increment_tracks_count:
  assumes "aroop_ok A" and "table_ok T" and "db_wf T (global_db m)" and "reader_ok (db_pp m)" and "is_master (db_pp m)"
    and "wf_txt key" and "str key \<noteq> []" and "length (str key) \<le> 170"
    and "node_index mpid s = Some i" and "mpid \<noteq> 0" and "\<not> fails (fd0 (nodes s i))"
    and "db_map T (global_db m) (str key) = stored_count n"
  shows "\<exists>bss m'. async_db_increment A fails pid mpid tok None key n d s =
      Inr (0, s\<lparr>effects := effects s @ map (SendMsg (fd0 (nodes s i))) bss\<rparr>) \<and>
    db_serve_all A T fails mpid db_plugs bss m = Inr m' \<and>
    db_map T (global_db m') = (db_map T (global_db m))(str key := stored_count (n + d))"
  using assms by (rule increment_tracked)

lemma increment_tracks_count_witness:
  "\<exists>bss m'. async_db_increment ref_aroop (\<lambda>_. False) 102 100 (-1) None (txt_of (lit ''room/user/ONE'')) 0 1 six_nodes =
      Inr (0, six_nodes\<lparr>effects := effects six_nodes @ map (SendMsg (fd0 (nodes six_nodes 0))) bss\<rparr>) \<and>
    db_serve_all ref_aroop ref_table (\<lambda>_. False) 100 db_plugs bss ready_master = Inr m' \<and>
    db_map ref_table (global_db m') = (db_map ref_table (global_db ready_master))(str (txt_of (lit ''room/user/ONE'')) := stored_count (0 + 1))"
  by (rule increment_tracks_count) (simp_all add: six_node_index stored_count_def lit_def)

end
