(* ===== verification/Protostack.thy ===== *)
theory Protostack
  imports Prelude
begin

text \<open>
  The registry of protocol stacks, \<open>net/src/protostack.c\<close>: two parallel arrays of
  \<open>NGINZ_MAX_PROTO\<close> entries, a stack being a pointer that may be null. The type \<open>'s\<close> of the stacks is
  open: modules register the address of a static \<open>struct protostack\<close>.
\<close>

section \<open>Code\<close>

definition NGINZ_MAX_PROTO :: nat where "NGINZ_MAX_PROTO = 4"

record 's protostacks =
  port_for_stacks :: "nat \<Rightarrow> 32 word"
  stacks :: "nat \<Rightarrow> 's option"

definition protostack_get :: "32 word \<Rightarrow> 's protostacks \<Rightarrow> 's option" where
  "protostack_get port t =
     (case List.find (\<lambda>i. port_for_stacks t i = port) [0..<NGINZ_MAX_PROTO] of
        Some i \<Rightarrow> stacks t i | None \<Rightarrow> None)"

definition protostack_set :: "32 word \<Rightarrow> 's option \<Rightarrow> 's protostacks \<Rightarrow> int \<times> 's protostacks" where
  "protostack_set port st t =
     (if stacks t (NGINZ_MAX_PROTO - 1) \<noteq> None then (-1, t)
      else case List.find (\<lambda>i. stacks t i = None) [0..<NGINZ_MAX_PROTO] of
             Some i \<Rightarrow> (0, t\<lparr>port_for_stacks := (port_for_stacks t)(i := port), stacks := (stacks t)(i := st)\<rparr>)
           | None \<Rightarrow> (0, t))"

fun ports_loop :: "'s protostacks \<Rightarrow> nat list \<Rightarrow> (nat \<Rightarrow> 32 word) \<Rightarrow> (nat \<Rightarrow> 32 word)" where
  "ports_loop t [] tcp_ports = tcp_ports"
| "ports_loop t (i # is) tcp_ports =
     (if stacks t i \<noteq> None then ports_loop t is (tcp_ports(i := port_for_stacks t i)) else tcp_ports)"

definition protostack_get_ports_internal :: "(nat \<Rightarrow> 32 word) \<Rightarrow> 's protostacks \<Rightarrow> int \<times> (nat \<Rightarrow> 32 word)" where
  "protostack_get_ports_internal tcp_ports t = (0, ports_loop t [0..<NGINZ_MAX_PROTO] tcp_ports)"

definition protostack_init :: "'s protostacks" where
  "protostack_init = \<lparr>port_for_stacks = (\<lambda>_. 0), stacks = (\<lambda>_. None)\<rparr>"

section \<open>The registry as a list of registrations\<close>

definition holds_stacks :: "'s protostacks \<Rightarrow> (32 word \<times> 's) list \<Rightarrow> bool" where
  "holds_stacks t xs \<longleftrightarrow> length xs \<le> NGINZ_MAX_PROTO \<and>
     (\<forall>i < length xs. port_for_stacks t i = fst (xs ! i) \<and> stacks t i = Some (snd (xs ! i))) \<and>
     (\<forall>i < NGINZ_MAX_PROTO. length xs \<le> i \<longrightarrow> stacks t i = None)"

lemma init_holds: "holds_stacks protostack_init []"
  by (simp add: holds_stacks_def protostack_init_def)

lemma find_upt_first:
  assumes "i < n" and "P i" and "\<And>j. j < i \<Longrightarrow> \<not> P j"
  shows "List.find P [0..<n] = Some i"
  using assms by (auto simp: find_Some_iff)

lemma set_holds:
  assumes "holds_stacks t xs" and "length xs < NGINZ_MAX_PROTO"
  shows "\<exists>t'. protostack_set p (Some s) t = (0, t') \<and> holds_stacks t' (xs @ [(p, s)])"
proof -
  have "List.find (\<lambda>i. stacks t i = None) [0..<NGINZ_MAX_PROTO] = Some (length xs)"
    by (rule find_upt_first) (use assms in \<open>auto simp: holds_stacks_def\<close>)
  moreover have "stacks t (NGINZ_MAX_PROTO - 1) = None"
    using assms by (simp add: holds_stacks_def NGINZ_MAX_PROTO_def)
  ultimately show ?thesis
    using assms by (auto simp: protostack_set_def holds_stacks_def nth_append less_Suc_eq)
qed

lemma set_full:
  assumes "holds_stacks t xs" and "length xs = NGINZ_MAX_PROTO"
  shows "protostack_set p s t = (-1, t)"
  using assms by (simp add: holds_stacks_def protostack_set_def NGINZ_MAX_PROTO_def)

text \<open>Clearing a port writes the null stack into the first free slot.\<close>

lemma set_null_holds:
  assumes "holds_stacks t xs"
  shows "holds_stacks (snd (protostack_set p None t)) xs"
proof (cases "length xs < NGINZ_MAX_PROTO")
  case True
  have "List.find (\<lambda>i. stacks t i = None) [0..<NGINZ_MAX_PROTO] = Some (length xs)"
    by (rule find_upt_first) (use assms True in \<open>auto simp: holds_stacks_def\<close>)
  moreover have "stacks t (NGINZ_MAX_PROTO - 1) = None"
    using assms True by (simp add: holds_stacks_def NGINZ_MAX_PROTO_def)
  ultimately show ?thesis using assms by (simp add: protostack_set_def holds_stacks_def)
next
  case False
  then have "length xs = NGINZ_MAX_PROTO" using assms by (simp add: holds_stacks_def)
  then show ?thesis using set_full [OF assms] assms by simp
qed

lemma map_of_first:
  assumes "i < length xs" and "fst (xs ! i) = p" and "\<And>j. j < i \<Longrightarrow> fst (xs ! j) \<noteq> p"
  shows "map_of xs p = Some (snd (xs ! i))"
  using assms
proof (induction xs arbitrary: i)
  case (Cons a xs)
  show ?case
  proof (cases i)
    case 0
    then show ?thesis using Cons.prems(2) by (cases a) simp
  next
    case (Suc k)
    then have "fst a \<noteq> p" using Cons.prems(3) [of 0] by simp
    moreover have "map_of xs p = Some (snd (xs ! k))"
    proof (rule Cons.IH)
      show "fst (xs ! j) \<noteq> p" if "j < k" for j using Cons.prems(3) [of "Suc j"] Suc that by simp
    qed (use Cons.prems Suc in simp_all)
    ultimately show ?thesis using Suc by (cases a) simp
  qed
qed simp

lemma map_of_none_nth: "\<forall>i < length xs. fst (xs ! i) \<noteq> p \<Longrightarrow> map_of xs p = None"
  by (auto simp: map_of_eq_None_iff in_set_conv_nth) (metis fst_conv)

lemma get_holds:
  assumes "holds_stacks t xs"
  shows "protostack_get p t = map_of xs p"
proof (cases "List.find (\<lambda>i. port_for_stacks t i = p) [0..<NGINZ_MAX_PROTO]")
  case None
  then have "\<forall>i < length xs. fst (xs ! i) \<noteq> p"
    using assms by (auto simp: find_None_iff holds_stacks_def)
  then have "map_of xs p = None" by (rule map_of_none_nth)
  then show ?thesis using None by (simp add: protostack_get_def)
next
  case (Some i)
  then have i: "i < NGINZ_MAX_PROTO" "port_for_stacks t i = p" "\<And>j. j < i \<Longrightarrow> port_for_stacks t j \<noteq> p"
    by (auto simp: find_Some_iff)
  show ?thesis
  proof (cases "i < length xs")
    case True
    then have "map_of xs p = Some (snd (xs ! i))"
      using i assms by (intro map_of_first) (auto simp: holds_stacks_def)
    then show ?thesis using Some True assms by (simp add: protostack_get_def holds_stacks_def)
  next
    case False
    then have "\<forall>j < length xs. fst (xs ! j) \<noteq> p" using i(3) assms by (auto simp: holds_stacks_def)
    then have "map_of xs p = None" by (rule map_of_none_nth)
    then show ?thesis using Some False i(1) assms by (simp add: protostack_get_def holds_stacks_def)
  qed
qed

fun protostack_sets :: "(32 word \<times> 's option) list \<Rightarrow> 's protostacks \<Rightarrow> int list \<times> 's protostacks" where
  "protostack_sets [] t = ([], t)"
| "protostack_sets ((p, s) # xs) t =
     (case protostack_set p s t of (r, t') \<Rightarrow> case protostack_sets xs t' of (rs, t'') \<Rightarrow> (r # rs, t''))"

text \<open>The registrations that stay: the non-null ones, as long as there is room.\<close>

definition kept :: "(32 word \<times> 's option) list \<Rightarrow> (32 word \<times> 's) list" where
  "kept xs = take NGINZ_MAX_PROTO (List.map_filter (\<lambda>(p, s). map_option (Pair p) s) xs)"

lemma sets_hold:
  "holds_stacks t ys \<Longrightarrow>
     holds_stacks (snd (protostack_sets xs t))
       (take NGINZ_MAX_PROTO (ys @ List.map_filter (\<lambda>(p, s). map_option (Pair p) s) xs))"
proof (induction xs arbitrary: ys t)
  case Nil
  then show ?case by (simp add: holds_stacks_def map_filter_def)
next
  case (Cons x xs)
  obtain p s where x: "x = (p, s)" by fastforce
  show ?case
  proof (cases s)
    case None
    then have "holds_stacks (snd (protostack_set p s t)) ys" using set_null_holds [OF Cons.prems] by simp
    then show ?thesis
      using Cons.IH [of "snd (protostack_set p s t)" ys] None x by (simp add: map_filter_simps case_prod_beta)
  next
    case (Some v)
    show ?thesis
    proof (cases "length ys < NGINZ_MAX_PROTO")
      case True
      obtain t' where "protostack_set p (Some v) t = (0, t')" "holds_stacks t' (ys @ [(p, v)])"
        using set_holds [OF Cons.prems True] by blast
      then show ?thesis using Cons.IH [of t' "ys @ [(p, v)]"] Some x
        by (auto simp: map_filter_simps split: prod.splits)
    next
      case False
      then have l: "length ys = NGINZ_MAX_PROTO" using Cons.prems by (simp add: holds_stacks_def)
      then show ?thesis using set_full [OF Cons.prems l, of p s] Cons.IH [OF Cons.prems] x
        by (auto split: prod.splits)
    qed
  qed
qed

section \<open>Properties\<close>

text \<open>The registry is a map from ports to stacks: after any sequence of registrations, a lookup finds
  the first stack registered for the port among the first four, and nothing for other ports. Setting
  a port to null removes nothing.\<close>

theorem first_registration_found:
  "protostack_get p (snd (protostack_sets xs protostack_init)) = map_of (kept xs) p"
  using get_holds [OF sets_hold [OF init_holds, of xs], of p] by (simp add: kept_def)

lemma ports_loop_eq:
  "holds_stacks t xs \<Longrightarrow> ports_loop t [k..<NGINZ_MAX_PROTO] f i =
     (if k \<le> i \<and> i < length xs \<and> k \<le> length xs then fst (xs ! i) else f i)"
proof (induction "[k..<NGINZ_MAX_PROTO]" arbitrary: k f)
  case Nil
  then have "NGINZ_MAX_PROTO \<le> k" by (metis upt_eq_Nil_conv order.trans le0 linorder_le_less_linear neq0_conv)
  then show ?case using Nil by (auto simp: holds_stacks_def)
next
  case (Cons j js)
  have j: "j = k" "js = [Suc k..<NGINZ_MAX_PROTO]" "k < NGINZ_MAX_PROTO" "[k..<NGINZ_MAX_PROTO] = k # [Suc k..<NGINZ_MAX_PROTO]"
    using Cons.hyps(2) [symmetric] by (auto simp: upt_eq_Cons_conv)
  show ?case
  proof (cases "k < length xs")
    case True
    then have "stacks t k \<noteq> None" "port_for_stacks t k = fst (xs ! k)" using Cons.prems by (auto simp: holds_stacks_def)
    then show ?thesis
      using Cons.hyps(1) [of "Suc k" "f(k := fst (xs ! k))"] j True Cons.prems by auto
  next
    case False
    then have "stacks t k = None" using Cons.prems j(3) by (auto simp: holds_stacks_def)
    then show ?thesis using False by (auto simp: j(4))
  qed
qed

text \<open>The listener starts on the registered ports: the port array filled from a zeroed one is the list
  of kept ports in registration order, and zero after them.\<close>

theorem listened_ports:
  "snd (protostack_get_ports_internal (\<lambda>_. 0) (snd (protostack_sets xs protostack_init))) i =
     (if i < length (kept xs) then fst (kept xs ! i) else 0)"
  using ports_loop_eq [OF sets_hold [OF init_holds, of xs], of 0 "\<lambda>_. 0" i]
  by (simp add: protostack_get_ports_internal_def kept_def)

end
