(* ===== verification/RawPipeline.thy ===== *)
theory RawPipeline
  imports AsyncRequest Protostack EventLoop
begin

text \<open>
  Passing accepted sockets between processes, \<open>net/src/raw_pipeline.c\<close>: a descriptor travels as
  ancillary data of a packet of the message coder that names the port and carries a command. What the
  code sends and closes is recorded in order. The receiver calls \<open>on_connection_bubble\<close> of the
  registered stack, parameter \<open>run\<close>.
\<close>

section \<open>Code\<close>

datatype raw_effect =
  SendSocket int int bytes
| CloseSocket int

definition pp_raw_sendmsg_helper ::
    "(int \<Rightarrow> bool) \<Rightarrow> int \<Rightarrow> int \<Rightarrow> aroop_txt_t \<Rightarrow> raw_effect list \<Rightarrow> int \<times> raw_effect list" where
  "pp_raw_sendmsg_helper fails through target cmd w =
     (if through = -1 then (-1, w)
      else if fails through then (-1, w)
      else (0, w @ [SendSocket through target (str cmd), CloseSocket target]))"

definition pp_raw_send_socket ::
    "(int \<Rightarrow> bool) \<Rightarrow> 32 word \<Rightarrow> int \<Rightarrow> aroop_txt_t \<Rightarrow> pp_state \<Rightarrow> raw_effect list \<Rightarrow> int \<times> raw_effect list" where
  "pp_raw_send_socket fails destpid socket cmd s w =
     (let f = pp_get_raw_fd destpid s
      in if f = -1 then (-1, w) else pp_raw_sendmsg_helper fails f socket cmd w)"

text \<open>\<open>received\<close> is what \<open>recvmsg\<close> delivers: the descriptor of the control message, if there is one,
  and the datagram. The text is given a buffer of 128 bytes if it has none; as in the pipeline, its
  length becomes the size offered.\<close>

definition pp_recvmsg_helper ::
    "aroop \<Rightarrow> int \<Rightarrow> (int option \<times> bytes) option \<Rightarrow> int \<Rightarrow> aroop_txt_t \<Rightarrow> int \<times> int \<times> aroop_txt_t" where
  "pp_recvmsg_helper A through received target cmd =
     (if through = -1 then (-1, target, cmd)
      else
        let cmd1 = (if t_cap cmd < 128 then aroop_txt_buffer A 128 else cmd)
        in case received of
             None \<Rightarrow> (-1, target, cmd1)
           | Some (t, d) \<Rightarrow>
               (let d' = take (t_cap cmd1) d;
                    cmd2 = cmd1\<lparr>t_mem := d' @ drop (length d') (t_mem cmd1)\<rparr>;
                    cmd3 = (if 0 < t_cap cmd1 then aroop_txt_set_length A cmd2 (t_cap cmd1) else cmd2)
                in (0, case t of None \<Rightarrow> target | Some f \<Rightarrow> f, cmd3)))"

definition on_raw_recv_socket ::
    "aroop \<Rightarrow> 's protostacks \<Rightarrow> ('s \<Rightarrow> int \<Rightarrow> aroop_txt_t \<Rightarrow> 'w \<Rightarrow> 'w exec) \<Rightarrow> int \<Rightarrow> (int option \<times> bytes) option \<Rightarrow>
     'w \<Rightarrow> (int \<times> 'w) exec" where
  "on_raw_recv_socket A ps run f received w =
     (case pp_recvmsg_helper A f received (-1) zero_txt of
        (ret, acceptfd, cmd) \<Rightarrow>
          if ret \<noteq> 0 then Inr (0, w)
          else
            ebind (binary_coder_fixup A cmd) (\<lambda>cmd'.
            ebind (binary_unpack_int A cmd' 0 0) (\<lambda>(_, srcpid).
            ebind (binary_unpack_int A cmd' 1 0) (\<lambda>(_, port).
            ebind (aroop_assert A (protostack_get port ps \<noteq> None)) (\<lambda>_.
            case protostack_get port ps of
              None \<Rightarrow> Inl NullDeref
            | Some stack \<Rightarrow> ebind (run stack acceptfd cmd' w) (\<lambda>w'. Inr (0, w')))))))"

definition on_raw_socket_setup ::
    "aroop \<Rightarrow> 'c \<Rightarrow> 'd \<Rightarrow> int \<Rightarrow> int \<Rightarrow> ('c, 'd) event_loop_data \<Rightarrow> (int \<times> ('c, 'd) event_loop_data) exec" where
  "on_raw_socket_setup A on_recv null signature raw_fd el =
     (if signature \<noteq> 0x3234 then Inl AssertFailed
      else ebind (event_loop_register_fd A raw_fd (Some on_recv) null NGINZ_POLL_ALL_FLAGS el)
             (\<lambda>el'. Inr (0, el')))"

text \<open>The packet that \<open>default_transfer_parallel\<close> and the stacks' \<open>on_tcp_connection\<close> build in a stack
  buffer of \<open>n\<close> bytes.\<close>

definition connection_packet :: "aroop \<Rightarrow> nat \<Rightarrow> 32 word \<Rightarrow> 32 word \<Rightarrow> aroop_txt_t \<Rightarrow> aroop_txt_t exec" where
  "connection_packet A n srcpid port cmd =
     ebind (binary_coder_reset_for_pid A (aroop_txt_stackbuffer A n) srcpid) (\<lambda>bin.
     Inr (snd (binary_pack_string A (snd (binary_pack_int A bin port)) cmd)))"

section \<open>Lemmas\<close>

lemma connection_packet_packed:
  assumes A: "aroop_ok A" and n: "255 \<le> n" and p: "0 \<le>s srcpid" and c: "wf_txt cmd"
    and l: "msg_size (map wire_field [WInt srcpid, WInt port, WStr cmd]) \<le> 255"
  shows "\<exists>b. connection_packet A n srcpid port cmd = Inr b \<and> packed_msg b (map wire_field [WInt srcpid, WInt port, WStr cmd])"
proof -
  let ?b = "aroop_txt_stackbuffer A n" and ?ws = "[WInt srcpid, WInt port, WStr cmd]"
  have s: "wf_txt ?b" "256 \<le> t_cap ?b" using buffer_laws(3) [OF A] buffer_cap(2) [OF A, of n] n by simp_all
  obtain b where b: "binary_coder_reset A ?b = Inr b" "packed_msg b []" "t_cap b = t_cap ?b"
    using reset_packed [OF A s] by auto
  have "packed_msg (pack_wires A b ?ws) (map wire_field ?ws)"
    using pack_wires_packed [OF A b(2), of ?ws] c l s(2) b(3) by simp
  moreover have "-1 <s srcpid" using p by (simp add: word_sless_alt word_sle_eq)
  then have "connection_packet A n srcpid port cmd = Inr (pack_wires A b ?ws)"
    by (simp add: connection_packet_def binary_coder_reset_for_pid_def b(1))
  ultimately show ?thesis by blast
qed

lemma recv_holds:
  assumes A: "aroop_ok A" and p: "packed_msg b fs" and l: "msg_size fs \<le> 128" and t: "through \<noteq> -1"
    and c: "t_cap (aroop_txt_buffer A 128) < 65536"
  shows "\<exists>r. pp_recvmsg_helper A through (Some (Some f, str b)) (-1) zero_txt = (0, f, r) \<and> holds_msg r fs \<and>
    t_len r = t_cap (aroop_txt_buffer A 128)"
proof -
  let ?c = "aroop_txt_buffer A 128"
  have len: "length (str b) = msg_size fs" using packed_len [OF p] packed_small [OF p] length_str by metis
  have cap: "128 \<le> t_cap ?c" using buffer_cap(1) [OF A, of 128] .
  then have ne: "t_mem ?c \<noteq> []" by (auto simp: t_cap_def)
  let ?m = "str b @ drop (length (str b)) (t_mem ?c)"
  have lm: "length ?m = t_cap ?c" using len l cap by (simp add: t_cap_def)
  have "aroop_txt_set_length A (?c\<lparr>t_mem := ?m\<rparr>) (t_cap ?c) = \<lparr>t_mem = ?m, t_len = t_cap ?c\<rparr>"
    using set_length_law [OF A, of "t_cap ?c" "?c\<lparr>t_mem := ?m\<rparr>"] lm by (simp add: t_cap_def)
  moreover have "take (t_cap ?c) (str b) = str b" using len l cap by simp
  ultimately have "pp_recvmsg_helper A through (Some (Some f, str b)) (-1) zero_txt = (0, f, \<lparr>t_mem = ?m, t_len = t_cap ?c\<rparr>)"
    using t cap ne by (simp add: pp_recvmsg_helper_def zero_txt_def t_cap_def Let_def)
  moreover have "str \<lparr>t_mem = ?m, t_len = t_cap ?c\<rparr> = ?m"
    unfolding str_def [of "\<lparr>t_mem = ?m, t_len = t_cap ?c\<rparr>"] using lm by simp
  then have "holds_msg \<lparr>t_mem = ?m, t_len = t_cap ?c\<rparr> fs"
    using lm c p by (simp add: holds_msg_def packed_msg_def wf_txt_def t_cap_def)
  ultimately show ?thesis by simp
qed

section \<open>Properties\<close>

text \<open>(C15) An accepted connection reaches the right stack of the chosen process: the sender hands over the
  descriptor with a packet and closes its own copy, and the receiver that reads the packet calls the
  stack registered for the port in it, once, with the descriptor it received and a text whose field 2
  is the command. The command must be short: the receiver offers 128 bytes.\<close>

theorem connection_reaches_stack:
  assumes "aroop_ok A" and "t_cap (aroop_txt_buffer A 128) < 65536" and "2 \<le> t_cap (aroop_txt_buffer A 128) mod 256"
    and "255 \<le> n" and "0 \<le>s srcpid" and "0 \<le>s port" and "wf_txt cmd" and "length (str cmd) \<le> 100"
    and "pp_get_raw_fd dest s = rf" and "rf \<noteq> -1" and "\<not> fails rf" and "through \<noteq> -1"
    and "protostack_get port ps = Some stack"
  shows "\<exists>b c x. connection_packet A n srcpid port cmd = Inr b \<and>
    pp_raw_send_socket fails dest socket b s w = (0, w @ [SendSocket rf socket (str b), CloseSocket socket]) \<and>
    on_raw_recv_socket A ps run through (Some (Some f, str b)) v = ebind (run stack f c v) (\<lambda>v'. Inr (0, v')) \<and>
    binary_unpack_string A c 2 zero_txt = Inr (0, x) \<and> str x = str cmd"
proof -
  let ?ws = "[WInt srcpid, WInt port, WStr cmd]"
  note l = length_int_bytes_le [of srcpid] length_int_bytes_le [of port]
  have sz: "msg_size (map wire_field ?ws) \<le> 128" using l assms(8) by simp
  then have "msg_size (map wire_field ?ws) \<le> 255" by simp
  then obtain b where b: "connection_packet A n srcpid port cmd = Inr b" "packed_msg b (map wire_field ?ws)"
    using connection_packet_packed [OF assms(1,4,5,7)] by blast
  obtain r where r: "pp_recvmsg_helper A through (Some (Some f, str b)) (-1) zero_txt = (0, f, r)"
      "holds_msg r (map wire_field ?ws)" "t_len r = t_cap (aroop_txt_buffer A 128)"
    using recv_holds [OF assms(1) b(2) sz assms(12,2)] by blast
  define c where "c = r\<lparr>t_len := msg_size (map wire_field ?ws)\<rparr>"
  have fx: "binary_coder_fixup A r = Inr c" "str c = enc_msg (map wire_field ?ws)"
    using fixup_result [OF assms(1) r(2)] r(3) assms(3) unfolding c_def by (auto simp del: msg_size_simps split: if_splits)
  have rc: "reachable_field (map wire_field ?ws) i" if "i < 3" for i
  proof -
    have "msg_size (take (Suc i) (map wire_field ?ws)) \<le> 128" using sz msg_size_take_le order_trans by blast
    then have "msg_size (take i (map wire_field ?ws)) + 3 \<le> 128"
      using that msg_size_take_Suc [of i "map wire_field ?ws"] by (simp del: list.map(2) msg_size_simps)
    then show ?thesis using that by (simp add: reachable_field_def del: msg_size_simps)
  qed
  have rb: "reads_back A (str b) ?ws i" if "i < 3" for i by (rule packed_reads_back [OF assms(1) b(2) rc [OF that]])
  have wf: "wf_txt c" "t_len c < 65536" "str c = str b @ []"
    using r(2) holds_size [OF r(2)] b(2) fx(2) unfolding c_def
    by (auto simp: holds_msg_def packed_msg_def wf_txt_def t_cap_def simp del: msg_size_simps)
  have u0: "binary_unpack_int A c 0 0 = Inr (0, srcpid)"
    using rb [of 0] wf assms(5) unfolding reads_back_def by fastforce
  have u1: "binary_unpack_int A c 1 0 = Inr (0, port)"
    using rb [of 1] wf assms(6) unfolding reads_back_def by fastforce
  have "\<exists>x. binary_unpack_string A c 2 zero_txt = Inr (0, x) \<and> str x = str cmd \<and> wf_txt x"
    using rb [of 2] wf unfolding reads_back_def by fastforce
  then obtain x where x: "binary_unpack_string A c 2 zero_txt = Inr (0, x)" "str x = str cmd" by blast
  have "on_raw_recv_socket A ps run through (Some (Some f, str b)) v = ebind (run stack f c v) (\<lambda>v'. Inr (0, v'))"
    using assms(13) by (simp add: on_raw_recv_socket_def r(1) fx(1) u0 u1 del: One_nat_def)
  moreover have "pp_raw_send_socket fails dest socket b s w = (0, w @ [SendSocket rf socket (str b), CloseSocket socket])"
    using assms(9-11) by (simp add: pp_raw_send_socket_def pp_raw_sendmsg_helper_def)
  ultimately show ?thesis using b(1) x by blast
qed

lemma connection_reaches_stack_witness:
  "\<exists>b c x. connection_packet ref_aroop 1024 0 9399 (txt_of (lit ''chat/_welcome'')) = Inr b \<and>
    pp_raw_send_socket (\<lambda>_. False) 102 33 b six_nodes [] = (0, [] @ [SendSocket 0 33 (str b), CloseSocket 33]) \<and>
    on_raw_recv_socket ref_aroop (snd (protostack_set 9399 (Some ''chat'') protostack_init)) (\<lambda>st f c v. Inr (v @ [(st, f)]))
        5 (Some (Some 12, str b)) [] = ebind (Inr ([] @ [(''chat'', 12)])) (\<lambda>v'. Inr (0, v')) \<and>
    binary_unpack_string ref_aroop c 2 zero_txt = Inr (0, x) \<and> str x = str (txt_of (lit ''chat/_welcome''))"
proof (rule connection_reaches_stack)
  have "node_index 102 six_nodes = Some 2"
    using node_index_nth [of six_nodes 2] by (simp add: nids_six_nodes) (simp add: six_nodes_def)
  then show "pp_get_raw_fd 102 six_nodes = 0" by (simp add: pp_get_raw_fd_def six_nodes_def)
  show "protostack_get 9399 (snd (protostack_set 9399 (Some ''chat'') protostack_init)) = Some ''chat''"
    by code_simp
  show "t_cap (aroop_txt_buffer ref_aroop 128) < 65536" "2 \<le> t_cap (aroop_txt_buffer ref_aroop 128) mod 256"
    by (simp_all add: ref_aroop_def t_cap_def)
qed (simp_all add: word_sle_eq)

end
