(* ===== verification/TcpListener.thy ===== *)
theory TcpListener
  imports Protostack EventLoop
begin

text \<open>
  The listening sockets, \<open>net/src/tcp_listener.c\<close>, over the event loop and the registry of protocol
  stacks. The results of the system calls are the parameter \<open>Y\<close>; the callback \<open>on_connection\<close> is
  the pointer \<open>on_conn\<close>, and \<open>dat\<close> turns a stack pointer into the event loop's callback data.
\<close>

section \<open>Code\<close>

definition NGINZ_POLL_LISTEN_FLAGS :: "16 word" where
  "NGINZ_POLL_LISTEN_FLAGS = POLLIN OR POLLPRI OR POLLHUP"

record net_sys =
  sys_socket :: "nat \<Rightarrow> int"
  sys_bind :: "int \<Rightarrow> 32 word \<Rightarrow> bool"
  sys_listen :: "int \<Rightarrow> bool"

record ('c, 'd) listener =
  tcp_ports :: "nat \<Rightarrow> 32 word"
  tcp_sockets :: "nat \<Rightarrow> int"
  listen_loop :: "('c, 'd) event_loop_data"
  closed_fds :: "int list"

definition tcp_listener_static :: "('c, 'd) event_loop_data \<Rightarrow> ('c, 'd) listener" where
  "tcp_listener_static el = \<lparr>tcp_ports = (\<lambda>_. 0), tcp_sockets = (\<lambda>_. -1), listen_loop = el, closed_fds = []\<rparr>"

definition on_connection ::
    "aroop \<Rightarrow> ('s \<Rightarrow> int \<Rightarrow> 'w \<Rightarrow> 'w exec) \<Rightarrow> int \<Rightarrow> int \<Rightarrow> 's option \<Rightarrow> 'w \<Rightarrow> ('c, 'd) listener \<Rightarrow>
     (int \<times> 'w \<times> ('c, 'd) listener) exec" where
  "on_connection A on_tcp_connection client_fd f pstack w st =
     (if client_fd < 0 then
        Inr (-1, w, st\<lparr>listen_loop := event_loop_unregister_fd f (listen_loop st),
                      closed_fds := closed_fds st @ [f, client_fd]\<rparr>)
      else
        ebind (aroop_assert A (pstack \<noteq> None)) (\<lambda>_.
        case pstack of
          None \<Rightarrow> Inl NullDeref
        | Some s \<Rightarrow> ebind (on_tcp_connection s client_fd w) (\<lambda>w'. Inr (0, w', st))))"

fun stop_loop :: "nat list \<Rightarrow> ('c, 'd) listener \<Rightarrow> ('c, 'd) listener" where
  "stop_loop [] st = st"
| "stop_loop (i # is) st =
     (let f = tcp_sockets st i
      in if f = -1 then st
         else stop_loop is (st\<lparr>listen_loop := event_loop_unregister_fd f (listen_loop st),
                closed_fds := (if 0 < f then closed_fds st @ [f] else closed_fds st),
                tcp_sockets := (tcp_sockets st)(i := -1)\<rparr>))"

definition tcp_listener_stop :: "('c, 'd) listener \<Rightarrow> int \<times> ('c, 'd) listener" where
  "tcp_listener_stop st = (0, stop_loop [0..<NGINZ_MAX_PROTO] st)"

text \<open>A failing \<open>bind\<close> or \<open>listen\<close> closes the socket but leaves its number in the array.\<close>

fun start_loop ::
    "aroop \<Rightarrow> net_sys \<Rightarrow> 's protostacks \<Rightarrow> 'c \<Rightarrow> ('s option \<Rightarrow> 'd) \<Rightarrow> nat list \<Rightarrow> ('c, 'd) listener \<Rightarrow>
     ('c, 'd) listener exec" where
  "start_loop A Y ps on_conn dat [] st = Inr st"
| "start_loop A Y ps on_conn dat (i # is) st =
     (if tcp_ports st i = 0 then Inr st
      else
        ebind (aroop_assert A (tcp_sockets st i = -1)) (\<lambda>_.
        let f = sys_socket Y i;
            st1 = st\<lparr>tcp_sockets := (tcp_sockets st)(i := f)\<rparr>
        in if f < 0 then start_loop A Y ps on_conn dat is st1
           else if \<not> sys_bind Y f (tcp_ports st i) \<or> \<not> sys_listen Y f
             then start_loop A Y ps on_conn dat is (st1\<lparr>closed_fds := closed_fds st1 @ [f]\<rparr>)
           else
             let stack = protostack_get (tcp_ports st i) ps
             in ebind (aroop_assert A (stack \<noteq> None)) (\<lambda>_.
                ebind (event_loop_register_fd A f (Some on_conn) (dat stack) NGINZ_POLL_LISTEN_FLAGS (listen_loop st1)) (\<lambda>el.
                start_loop A Y ps on_conn dat is (st1\<lparr>listen_loop := el\<rparr>)))))"

definition tcp_listener_start ::
    "aroop \<Rightarrow> net_sys \<Rightarrow> 's protostacks \<Rightarrow> 'c \<Rightarrow> ('s option \<Rightarrow> 'd) \<Rightarrow> ('c, 'd) listener \<Rightarrow> (int \<times> ('c, 'd) listener) exec" where
  "tcp_listener_start A Y ps on_conn dat st =
     ebind (aroop_assert A (tcp_ports st 0 \<noteq> 0)) (\<lambda>_.
     ebind (start_loop A Y ps on_conn dat [0..<NGINZ_MAX_PROTO] st) (\<lambda>st'. Inr (0, st')))"

definition tcp_listener_init ::
    "aroop \<Rightarrow> net_sys \<Rightarrow> bool \<Rightarrow> 's protostacks \<Rightarrow> 'c \<Rightarrow> ('s option \<Rightarrow> 'd) \<Rightarrow> ('c, 'd) listener \<Rightarrow> (int \<times> ('c, 'd) listener) exec" where
  "tcp_listener_init A Y master ps on_conn dat st =
     (if \<not> master then Inr (0, st)
      else ebind (tcp_listener_start A Y ps on_conn dat
                    (st\<lparr>tcp_ports := snd (protostack_get_ports_internal (\<lambda>_. 0) ps)\<rparr>))
             (\<lambda>(_, st'). Inr (0, st')))"

section \<open>Lemmas\<close>

lemma listen_flags: "NGINZ_POLL_LISTEN_FLAGS \<noteq> 0"
  by code_simp

text \<open>The entry of port number \<open>i\<close> in the event loop.\<close>

definition listen_entry ::
    "net_sys \<Rightarrow> 's protostacks \<Rightarrow> 'c \<Rightarrow> ('s option \<Rightarrow> 'd) \<Rightarrow> (nat \<Rightarrow> 32 word) \<Rightarrow> nat \<Rightarrow> ('c, 'd) entry" where
  "listen_entry Y ps on_conn dat p i =
     (sys_socket Y i, Some on_conn, dat (protostack_get (p i) ps), NGINZ_POLL_LISTEN_FLAGS)"

text \<open>All system calls succeed for the first \<open>k\<close> ports, and these are all.\<close>

definition listen_ok :: "net_sys \<Rightarrow> 's protostacks \<Rightarrow> (nat \<Rightarrow> 32 word) \<Rightarrow> nat \<Rightarrow> bool" where
  "listen_ok Y ps p k \<longleftrightarrow> k \<le> NGINZ_MAX_PROTO \<and> (\<forall>i < k. p i \<noteq> 0 \<and> 0 < sys_socket Y i \<and>
     sys_bind Y (sys_socket Y i) (p i) \<and> sys_listen Y (sys_socket Y i) \<and> protostack_get (p i) ps \<noteq> None) \<and>
     (k < NGINZ_MAX_PROTO \<longrightarrow> p k = 0)"

lemma start_loop_ok:
  assumes "listen_ok Y ps (tcp_ports st) k" and "j \<le> k" and "\<forall>i. j \<le> i \<longrightarrow> tcp_sockets st i = -1"
    and "nfds (listen_loop st) + (k - j) \<le> MAX_POLL_FD"
  shows "\<exists>st'. start_loop A Y ps on_conn dat [j..<NGINZ_MAX_PROTO] st = Inr st' \<and>
    tcp_sockets st' = (\<lambda>i. if j \<le> i \<and> i < k then sys_socket Y i else tcp_sockets st i) \<and>
    live_entries (listen_loop st') = mset (map (listen_entry Y ps on_conn dat (tcp_ports st)) [j..<k]) + live_entries (listen_loop st) \<and>
    nfds (listen_loop st') \<le> MAX_POLL_FD \<and> closed_fds st' = closed_fds st"
  using assms
proof (induction "k - j" arbitrary: j st)
  case 0
  then have "j = k" by simp
  moreover have "start_loop A Y ps on_conn dat [k..<NGINZ_MAX_PROTO] st = Inr st"
    using 0(2) by (cases "k < NGINZ_MAX_PROTO") (simp_all add: upt_conv_Cons listen_ok_def)
  ultimately show ?case using 0(5) by auto
next
  case (Suc d)
  have j: "j < k" "j < NGINZ_MAX_PROTO" using Suc.hyps(2) Suc.prems(1) by (auto simp: listen_ok_def)
  let ?f = "sys_socket Y j" and ?stack = "protostack_get (tcp_ports st j) ps"
  have o: "tcp_ports st j \<noteq> 0" "0 < ?f" "sys_bind Y ?f (tcp_ports st j)" "sys_listen Y ?f" "\<exists>x. ?stack = Some x" "tcp_sockets st j = -1"
    using Suc.prems(1,3) j(1) by (auto simp: listen_ok_def)
  obtain el where el: "event_loop_register_fd A ?f (Some on_conn) (dat ?stack) NGINZ_POLL_LISTEN_FLAGS (listen_loop st) = Inr el"
      "nfds el + (k - Suc j) \<le> MAX_POLL_FD"
      "live_entries el = add_mset (listen_entry Y ps on_conn dat (tcp_ports st) j) (live_entries (listen_loop st))"
    using poll.register_law [where s = "listen_loop st" and n = "k - Suc j" and f = ?f and A = A
        and e = "(Some on_conn, dat ?stack, NGINZ_POLL_LISTEN_FLAGS)"]
      Suc.prems(4) j(1) listen_flags Suc_diff_Suc [OF j(1)] by (auto simp: register_entry_def listen_entry_def)
  let ?st = "st\<lparr>tcp_sockets := (tcp_sockets st)(j := ?f), listen_loop := el\<rparr>"
  have pr: "d = k - Suc j" "listen_ok Y ps (tcp_ports ?st) k" "Suc j \<le> k" "\<forall>i. Suc j \<le> i \<longrightarrow> tcp_sockets ?st i = -1"
    "nfds (listen_loop ?st) + (k - Suc j) \<le> MAX_POLL_FD"
    using Suc.hyps(2) Suc.prems(1,3) j(1) el(2) by simp_all
  obtain st' where st': "start_loop A Y ps on_conn dat [Suc j..<NGINZ_MAX_PROTO] ?st = Inr st'"
      "tcp_sockets st' = (\<lambda>i. if Suc j \<le> i \<and> i < k then sys_socket Y i else tcp_sockets ?st i)"
      "live_entries (listen_loop st') = mset (map (listen_entry Y ps on_conn dat (tcp_ports ?st)) [Suc j..<k]) + live_entries (listen_loop ?st)"
      "nfds (listen_loop st') \<le> MAX_POLL_FD" "closed_fds st' = closed_fds ?st"
    using Suc.hyps(1) [OF pr] by (elim exE conjE) (rule that)
  have "start_loop A Y ps on_conn dat [j..<NGINZ_MAX_PROTO] st = Inr st'"
    using o el(1) st'(1) by (auto simp: upt_conv_Cons [OF j(2)] Let_def)
  moreover have "tcp_sockets st' = (\<lambda>i. if j \<le> i \<and> i < k then sys_socket Y i else tcp_sockets st i)"
    using j(1) by (auto simp: st'(2) fun_eq_iff)
  moreover have "live_entries (listen_loop st') =
      mset (map (listen_entry Y ps on_conn dat (tcp_ports st)) [j..<k]) + live_entries (listen_loop st)"
    by (simp add: st'(3) el(3) upt_conv_Cons [OF j(1)])
  ultimately show ?case using st'(4,5) by simp
qed

lemma stop_loop_other: "i \<notin> set is \<Longrightarrow> tcp_sockets (stop_loop is s) i = tcp_sockets s i"
  by (induction "is" s rule: stop_loop.induct) (auto simp: Let_def)

lemma stop_loop_ok:
  assumes "j \<le> k" and "k \<le> NGINZ_MAX_PROTO" and "\<forall>i. j \<le> i \<longrightarrow> tcp_sockets st i = (if i < k then g i else -1)"
    and "\<forall>i < k. 0 < g i" and "nfds (listen_loop st) \<le> MAX_POLL_FD"
    and "live_entries (listen_loop st) = mset (map e [j..<k]) + base" and "\<forall>i < k. fst (e i) = g i"
    and "inj_on g {..<k}" and "g ` {..<k} \<inter> set_mset (image_mset fst base) = {}"
  shows "\<exists>st'. stop_loop [j..<NGINZ_MAX_PROTO] st = st' \<and> (\<forall>i. j \<le> i \<longrightarrow> tcp_sockets st' i = -1) \<and>
    live_entries (listen_loop st') = base \<and> closed_fds st' = closed_fds st @ map g [j..<k]"
  using assms
proof (induction "k - j" arbitrary: j st)
  case 0
  then have "j = k" by simp
  moreover have "stop_loop [k..<NGINZ_MAX_PROTO] st = st"
    using 0(4) \<open>j = k\<close> by (cases "k < NGINZ_MAX_PROTO") (simp_all add: upt_conv_Cons)
  ultimately show ?case using 0(4,7) by auto
next
  case (Suc d)
  have j: "j < k" "j < NGINZ_MAX_PROTO" using Suc.hyps(2) Suc.prems(2) by auto
  have f: "tcp_sockets st j = g j" "0 < g j" using Suc.prems(3,4) j(1) by auto
  have m: "live_entries (listen_loop st) = add_mset (e j) (mset (map e [Suc j..<k]) + base)"
    using Suc.prems(6) by (simp add: upt_conv_Cons [OF j(1)])
  have pr: "g j \<in># image_mset fst (live_entries (listen_loop st))" using m Suc.prems(7) j(1) by simp
  obtain x where x: "live_entries (listen_loop st) =
      add_mset (g j, x) (live_entries (event_loop_unregister_fd (g j) (listen_loop st)))"
    using poll.unregister_present [OF Suc.prems(5) _ pr, of "(None, undefined, 1)"] by auto
  have "(g j, x) \<in># add_mset (e j) (mset (map e [Suc j..<k]) + base)" using x m by (metis union_single_eq_member)
  moreover have "(g j, x) \<notin># base" using Suc.prems(9) j(1) by (force simp: image_iff)
  moreover have "fst (e i) \<noteq> g j" if "i \<in> set [Suc j..<k]" for i
    using Suc.prems(7) that j(1) inj_onD [OF Suc.prems(8), of i j] by auto
  ultimately have "(g j, x) = e j" by (auto, metis fst_conv)
  then have lv: "live_entries (event_loop_unregister_fd (g j) (listen_loop st)) = mset (map e [Suc j..<k]) + base"
    using x m by simp
  let ?st = "st\<lparr>listen_loop := event_loop_unregister_fd (g j) (listen_loop st), closed_fds := closed_fds st @ [g j],
     tcp_sockets := (tcp_sockets st)(j := -1)\<rparr>"
  have "stop_loop [j..<NGINZ_MAX_PROTO] st = stop_loop [Suc j..<NGINZ_MAX_PROTO] ?st"
    using f by (simp add: upt_conv_Cons [OF j(2)] Let_def)
  moreover obtain s1 where s1: "stop_loop [Suc j..<NGINZ_MAX_PROTO] ?st = s1" "\<forall>i. Suc j \<le> i \<longrightarrow> tcp_sockets s1 i = -1"
    "live_entries (listen_loop s1) = base" "closed_fds s1 = closed_fds ?st @ map g [Suc j..<k]"
    using Suc.hyps(1) [of "Suc j" ?st] Suc.hyps(2) Suc.prems lv j(1) by auto
  moreover have "tcp_sockets s1 j = -1"
    unfolding s1(1) [symmetric] by (simp add: stop_loop_other)
  then have "\<forall>i. j \<le> i \<longrightarrow> tcp_sockets s1 i = -1"
    using s1(2) by (metis Suc_leI le_neq_implies_less)
  ultimately show ?case by (simp add: upt_conv_Cons [OF j(1)])
qed

section \<open>Properties\<close>

text \<open>The listener comes and goes whole: when every system call succeeds, starting it registers exactly
  one entry per served port, with the stack of that port as data, and stopping it (in a forked
  child, or on quit) closes exactly these sockets and leaves the event loop's live entries as they
  were before the start.\<close>

theorem listener_starts_and_stops:
  assumes "listen_ok Y ps (tcp_ports st) k" and "0 < k" and "\<forall>i. tcp_sockets st i = -1"
    and "nfds (listen_loop st) + k \<le> MAX_POLL_FD" and "inj_on (sys_socket Y) {..<k}"
    and "sys_socket Y ` {..<k} \<inter> set_mset (image_mset fst (live_entries (listen_loop st))) = {}"
  shows "\<exists>st1 st2. tcp_listener_start A Y ps on_conn dat st = Inr (0, st1) \<and>
    live_entries (listen_loop st1) =
      mset (map (listen_entry Y ps on_conn dat (tcp_ports st)) [0..<k]) + live_entries (listen_loop st) \<and>
    tcp_listener_stop st1 = (0, st2) \<and> live_entries (listen_loop st2) = live_entries (listen_loop st) \<and>
    closed_fds st2 = closed_fds st @ map (sys_socket Y) [0..<k] \<and> (\<forall>i. tcp_sockets st2 i = -1)"
proof -
  obtain st1 where s1: "start_loop A Y ps on_conn dat [0..<NGINZ_MAX_PROTO] st = Inr st1"
      "tcp_sockets st1 = (\<lambda>i. if 0 \<le> i \<and> i < k then sys_socket Y i else tcp_sockets st i)"
      "live_entries (listen_loop st1) =
        mset (map (listen_entry Y ps on_conn dat (tcp_ports st)) [0..<k]) + live_entries (listen_loop st)"
      "nfds (listen_loop st1) \<le> MAX_POLL_FD" "closed_fds st1 = closed_fds st"
    using start_loop_ok [where A = A and on_conn = on_conn and dat = dat, OF assms(1), of 0] assms(3,4)
    by (simp del: mset_map mset_upt) blast
  have p0: "tcp_ports st 0 \<noteq> 0" using assms(1,2) by (simp add: listen_ok_def)
  have k: "k \<le> NGINZ_MAX_PROTO" "\<forall>i<k. 0 < sys_socket Y i" using assms(1) by (simp_all add: listen_ok_def)
  have t: "\<forall>i. 0 \<le> i \<longrightarrow> tcp_sockets st1 i = (if i < k then sys_socket Y i else - 1)" using assms(3) by (simp add: s1(2))
  have "\<forall>i<k. fst (listen_entry Y ps on_conn dat (tcp_ports st) i) = sys_socket Y i" by (simp add: listen_entry_def)
  from stop_loop_ok [OF _ k(1) t k(2) s1(4,3) this assms(5,6)]
  show ?thesis using s1(1,3,5) p0 by (auto simp: tcp_listener_start_def tcp_listener_stop_def)
qed

definition two_ports :: "(nat, nat option) listener" where
  "two_ports = (tcp_listener_static \<lparr>fds = (\<lambda>_. \<lparr>fd = 0, events = 0, revents = 0\<rparr>),
     cbs = (\<lambda>_. \<lparr>on_event = None, event_data = None\<rparr>), nfds = 0\<rparr>)\<lparr>tcp_ports := (\<lambda>_. 0)(0 := 9399, 1 := 80)\<rparr>"

definition two_stacks :: "nat protostacks" where
  "two_stacks = \<lparr>port_for_stacks = (\<lambda>_. 0)(0 := 9399, 1 := 80), stacks = (\<lambda>_. None)(0 := Some 1, 1 := Some 2)\<rparr>"

definition good_sys :: net_sys where
  "good_sys = \<lparr>sys_socket = (\<lambda>i. 7 + int i), sys_bind = (\<lambda>_ _. True), sys_listen = (\<lambda>_. True)\<rparr>"

lemma two_stacks_get: "protostack_get 9399 two_stacks = Some 1" "protostack_get 80 two_stacks = Some 2"
  by (simp_all add: protostack_get_def two_stacks_def NGINZ_MAX_PROTO_def upt_rec)

lemma listener_starts_and_stops_witness:
  "\<exists>st1 st2. tcp_listener_start ref_aroop good_sys two_stacks 3 id two_ports = Inr (0, st1) \<and>
    live_entries (listen_loop st1) =
      mset (map (listen_entry good_sys two_stacks 3 id (tcp_ports two_ports)) [0..<2]) + live_entries (listen_loop two_ports) \<and>
    tcp_listener_stop st1 = (0, st2) \<and> live_entries (listen_loop st2) = live_entries (listen_loop two_ports) \<and>
    closed_fds st2 = closed_fds two_ports @ map (sys_socket good_sys) [0..<2] \<and> (\<forall>i. tcp_sockets st2 i = -1)"
  by (rule listener_starts_and_stops)
     (auto simp: listen_ok_def two_stacks_get two_ports_def good_sys_def tcp_listener_static_def NGINZ_MAX_PROTO_def
        less_2_cases_iff inj_on_def live_entries_def MAX_POLL_FD_def)

text \<open>A port whose socket cannot be created hides the ports after it: stopping the listener then does
  nothing at all, whatever sockets the later ports opened, so a forked child keeps listening on
  them.\<close>

theorem failed_socket_hides_others:
  assumes "tcp_ports st 0 \<noteq> 0" and "tcp_sockets st 0 = -1" and "sys_socket Y 0 = -1"
    and "tcp_listener_start A Y ps on_conn dat st = Inr (r, st1)"
  shows "tcp_listener_stop st1 = (0, st1)"
proof -
  have keep: "start_loop A Y ps on_conn dat is s = Inr s' \<Longrightarrow> i \<notin> set is \<Longrightarrow> tcp_sockets s' i = tcp_sockets s i" for "is" s s' i
    by (induction A Y ps on_conn dat "is" s rule: start_loop.induct)
       (auto simp: Let_def ebind_Inr_iff split: if_splits)
  have u: "[0..<NGINZ_MAX_PROTO] = 0 # [1..<NGINZ_MAX_PROTO]" by (simp add: NGINZ_MAX_PROTO_def upt_conv_Cons)
  have "start_loop A Y ps on_conn dat [1..<NGINZ_MAX_PROTO] (st\<lparr>tcp_sockets := (tcp_sockets st)(0 := -1)\<rparr>) = Inr st1"
    using assms by (auto simp: tcp_listener_start_def u ebind_Inr_iff)
  then have "tcp_sockets st1 0 = -1" using keep [of "[1..<NGINZ_MAX_PROTO]" _ st1 0] by simp
  then show ?thesis by (simp add: tcp_listener_stop_def u)
qed

lemma failed_socket_hides_others_witness:
  "\<exists>st1. tcp_listener_start ref_aroop (good_sys\<lparr>sys_socket := (\<lambda>i. if i = 0 then -1 else 8)\<rparr>) two_stacks 3 id two_ports = Inr (0, st1) \<and>
    tcp_sockets st1 1 = 8 \<and> tcp_listener_stop st1 = (0, st1)"
proof -
  let ?Y = "good_sys\<lparr>sys_socket := (\<lambda>i. if i = 0 then -1 else 8)\<rparr>"
  have "\<exists>st1. tcp_listener_start ref_aroop ?Y two_stacks 3 id two_ports = Inr (0, st1) \<and> tcp_sockets st1 1 = 8"
    by (simp add: tcp_listener_start_def two_ports_def tcp_listener_static_def good_sys_def NGINZ_MAX_PROTO_def upt_rec
        two_stacks_get event_loop_register_fd_def MAX_POLL_FD_def Let_def)
  then obtain st1 where s: "tcp_listener_start ref_aroop ?Y two_stacks 3 id two_ports = Inr (0, st1)" "tcp_sockets st1 1 = 8"
    by blast
  have "tcp_listener_stop st1 = (0, st1)"
    by (rule failed_socket_hides_others [OF _ _ _ s(1)]) (simp_all add: two_ports_def tcp_listener_static_def)
  with s show ?thesis by blast
qed

text \<open>One failed \<open>accept\<close> ends the service of a port: the listening descriptor is unregistered and
  closed, whatever the reason of the failure, and no live entry for it remains.\<close>

theorem accept_failure_stops_listening:
  assumes "client < 0" and "nfds (listen_loop st) \<le> MAX_POLL_FD"
    and "live_entries (listen_loop st) = add_mset (f, e) base" and "f \<notin># image_mset fst base"
  shows "\<exists>st'. on_connection A run client f pstack w st = Inr (-1, w, st') \<and>
    live_entries (listen_loop st') = base \<and> f \<in> set (closed_fds st')"
proof -
  have "f \<in># image_mset fst (live_entries (listen_loop st))" using assms(3) by simp
  then obtain x where x: "live_entries (listen_loop st) = add_mset (f, x) (live_entries (event_loop_unregister_fd f (listen_loop st)))"
    using poll.unregister_present [OF assms(2), of "(None, undefined, 1)" f] by auto
  then have "(f, x) \<in># add_mset (f, e) base" using assms(3) by (metis union_single_eq_member)
  moreover have "(f, x) \<notin># base" using assms(4) by (force simp: image_iff)
  ultimately have "x = e" by auto
  then show ?thesis using x assms(1,3) by (simp add: on_connection_def)
qed

lemma accept_failure_stops_listening_witness:
  "\<exists>st'. on_connection ref_aroop (\<lambda>s f w. Inr w) (-1) 7 (Some (1 :: nat)) ()
      (tcp_listener_static \<lparr>fds = (\<lambda>_. \<lparr>fd = 7, events = 1, revents = 0\<rparr>), cbs = (\<lambda>_. \<lparr>on_event = Some (3 :: nat), event_data = ()\<rparr>), nfds = 1\<rparr>)
      = Inr (-1, (), st') \<and> live_entries (listen_loop st') = {#} \<and> 7 \<in> set (closed_fds st')"
  by (rule accept_failure_stops_listening [where e = "(Some 3, (), 1)"])
     (simp_all add: tcp_listener_static_def live_entries_def live_upto_def entry_at_def MAX_POLL_FD_def lessThan_Suc)

end
