(* ===== verification/StreamIO.thy ===== *)
theory StreamIO
  imports RawPipeline
begin

text \<open>
  Streams, \<open>net/src/streamio.c\<close> and \<open>net/inc/streamio.h\<close>: a descriptor, or a link to the next
  stream that takes over sending, closing and transferring. The methods of the next stream are virtual
  calls; together with the system calls and the event loop they are the environment \<open>V\<close> of a stream,
  acting on a world of type \<open>'w\<close>. Addresses of streams are \<open>nat\<close>. \<open>OPPREF\<close> and \<open>OPPUNREF\<close> count
  references in the external library's object pool; \<open>OPPUNREF(p)\<close> leaves the pointer \<open>p\<close> null.
\<close>

section \<open>Code\<close>

definition INVALID_FD :: int where "INVALID_FD = -1"

datatype strm_method = NullMethod | DefaultSend | DefaultSendNonblock | DefaultClose | DefaultTransfer | Overridden nat

record streamio =
  strm_token :: "32 word"
  strm_fd :: int
  on_recv :: strm_method
  send_method :: strm_method
  close_method :: strm_method
  transfer_method :: strm_method
  bubble_up :: "nat option"
  bubble_down :: "nat option"
  send_buffer :: aroop_txt_t
  strm_error :: int

definition is_valid_stream :: "streamio \<Rightarrow> bool" where
  "is_valid_stream x \<longleftrightarrow> strm_fd x \<noteq> INVALID_FD \<or> bubble_up x \<noteq> None"

text \<open>\<open>sys_send\<close> gives the result of \<open>send\<close> and \<open>errno\<close>.\<close>

record 'w stream_env =
  up_send :: "nat \<Rightarrow> aroop_txt_t \<Rightarrow> int \<Rightarrow> 'w \<Rightarrow> int \<times> 'w"
  up_close :: "nat \<Rightarrow> 'w \<Rightarrow> int \<times> 'w"
  up_transfer :: "nat \<Rightarrow> 32 word \<Rightarrow> 32 word \<Rightarrow> aroop_txt_t \<Rightarrow> 'w \<Rightarrow> (int \<times> 'w) exec"
  sys_send :: "int \<Rightarrow> bytes \<Rightarrow> int \<Rightarrow> 'w \<Rightarrow> int \<times> int \<times> 'w"
  sys_close :: "int \<Rightarrow> 'w \<Rightarrow> 'w"
  loop_unregister :: "int \<Rightarrow> 'w \<Rightarrow> 'w"
  raw_send_socket :: "32 word \<Rightarrow> int \<Rightarrow> aroop_txt_t \<Rightarrow> 'w \<Rightarrow> int \<times> 'w"

definition EAGAIN :: int where "EAGAIN = 11"
definition EWOULDBLOCK :: int where "EWOULDBLOCK = 11"

definition MSG_MORE :: int where "MSG_MORE = 0x8000"

definition default_streamio_send ::
    "'w stream_env \<Rightarrow> streamio \<Rightarrow> aroop_txt_t \<Rightarrow> int \<Rightarrow> 'w \<Rightarrow> int \<times> streamio \<times> 'w" where
  "default_streamio_send V strm content flag w =
     (case bubble_up strm of
        Some u \<Rightarrow> (case up_send V u content flag w of (r, w') \<Rightarrow> (r, strm, w'))
      | None \<Rightarrow>
          if strm_fd strm = INVALID_FD then (-1, strm, w)
          else (case sys_send V (strm_fd strm) (str content) flag w of (r, errno, w') \<Rightarrow> (r, strm, w')))"

definition default_streamio_send_nonblock ::
    "'w stream_env \<Rightarrow> streamio \<Rightarrow> aroop_txt_t \<Rightarrow> int \<Rightarrow> 'w \<Rightarrow> int \<times> streamio \<times> 'w" where
  "default_streamio_send_nonblock V strm content flag w =
     (case bubble_up strm of
        Some u \<Rightarrow> (case up_send V u content flag w of (r, w') \<Rightarrow> (r, strm, w'))
      | None \<Rightarrow>
          if strm_fd strm = INVALID_FD then (-1, strm, w)
          else
            (case sys_send V (strm_fd strm) (str content) flag w of (err, errno, w') \<Rightarrow>
               if err = -1 then
                 if errno = EWOULDBLOCK \<or> errno = EAGAIN then (-1, strm\<lparr>strm_error := errno\<rparr>, w')
                 else (err, strm\<lparr>strm_error := errno\<rparr>, w')
               else (err, strm, w')))"

definition default_streamio_close :: "'w stream_env \<Rightarrow> streamio \<Rightarrow> 'w \<Rightarrow> int \<times> streamio \<times> 'w" where
  "default_streamio_close V strm w =
     (case bubble_up strm of
        Some u \<Rightarrow> (case up_close V u w of (r, w') \<Rightarrow> (r, strm, w'))
      | None \<Rightarrow>
          let strm1 = strm\<lparr>bubble_up := None\<rparr>
          in if strm_fd strm1 \<noteq> INVALID_FD
             then (0, strm1\<lparr>strm_fd := INVALID_FD\<rparr>, sys_close V (strm_fd strm1) (loop_unregister V (strm_fd strm1) w))
             else (0, strm1, w))"

definition default_transfer_parallel ::
    "aroop \<Rightarrow> 'w stream_env \<Rightarrow> streamio \<Rightarrow> 32 word \<Rightarrow> 32 word \<Rightarrow> aroop_txt_t \<Rightarrow> 'w \<Rightarrow> (int \<times> 'w) exec" where
  "default_transfer_parallel A V strm destpid proto_port cmd w =
     (case bubble_up strm of
        Some u \<Rightarrow> up_transfer V u destpid proto_port cmd w
      | None \<Rightarrow>
          ebind (connection_packet A 255 destpid proto_port cmd) (\<lambda>bin.
          Inr (raw_send_socket V destpid (strm_fd strm) bin (loop_unregister V (strm_fd strm) w))))"

definition streamio_initialize :: "streamio \<Rightarrow> streamio" where
  "streamio_initialize strm =
     strm\<lparr>strm_fd := -1, on_recv := NullMethod, send_method := DefaultSendNonblock, close_method := DefaultClose,
       transfer_method := DefaultTransfer, bubble_up := None, bubble_down := None, send_buffer := zero_txt, strm_error := 0\<rparr>"

text \<open>The remaining operations follow pointers from one stream to another. Streams are embedded in the objects of
  several kinds; a kind tells how the stream at an address is read, written and closed (its virtual \<open>close\<close>).\<close>

record 'w stream_kind =
  kget :: "nat \<Rightarrow> 'w \<Rightarrow> streamio"
  kput :: "nat \<Rightarrow> streamio \<Rightarrow> 'w \<Rightarrow> 'w"
  kclose :: "nat \<Rightarrow> 'w \<Rightarrow> 'w"

definition streamio_finalize :: "aroop \<Rightarrow> 'w stream_kind \<Rightarrow> nat \<Rightarrow> 'w \<Rightarrow> int \<times> 'w" where
  "streamio_finalize A K i w =
     (let w1 = kclose K i w;
          x = kget K i w1
      in (0, kput K i (x\<lparr>strm_fd := -1, bubble_up := None, bubble_down := None,
               send_buffer := aroop_txt_destroy A (send_buffer x)\<rparr>) w1))"

definition streamio_chain :: "'w stream_kind \<Rightarrow> 'w stream_kind \<Rightarrow> nat \<Rightarrow> nat \<Rightarrow> 'w \<Rightarrow> int \<times> 'w" where
  "streamio_chain U D up down w =
     (let w1 = (if bubble_up (kget D down w) \<noteq> None then kclose D down w else w);
          w2 = kput D down ((kget D down w1)\<lparr>bubble_up := Some up\<rparr>) w1;
          w3 = (case bubble_down (kget U up w2) of
                  Some d \<Rightarrow> (let w' = kclose D d w2 in kput U up ((kget U up w')\<lparr>bubble_down := None\<rparr>) w')
                | None \<Rightarrow> w2)
      in (0, kput U up ((kget U up w3)\<lparr>bubble_down := Some down\<rparr>) w3))"

definition streamio_unchain :: "'w stream_kind \<Rightarrow> 'w stream_kind \<Rightarrow> nat \<Rightarrow> nat \<Rightarrow> 'w \<Rightarrow> int \<times> 'w" where
  "streamio_unchain U D up down w =
     (let w1 = kput D down ((kget D down w)\<lparr>bubble_up := None\<rparr>) w
      in if bubble_down (kget U up w1) = Some down
         then (0, kput U up ((kget U up w1)\<lparr>bubble_down := None\<rparr>) w1)
         else (0, w1))"

section \<open>Linking streams of two kinds\<close>

locale stream_kinds =
  fixes U D :: "'w stream_kind"
  assumes get_put [simp]: "kget U i (kput U i x w) = x" "kget D j (kput D j y w) = y"
    and get_other [simp]: "kget U i (kput D j y w) = kget U i w" "kget D j (kput U i x w) = kget D j w"
    and put_put [simp]: "kput U i x' (kput U i x w) = kput U i x' w" "kput D j y' (kput D j y w) = kput D j y' w"
    and put_get [simp]: "kput U i (kget U i w) w = w" "kput D j (kget D j w) w = w"
    and put_commute: "kput U i x (kput D j y w) = kput D j y (kput U i x w)"
begin

text \<open>A stream without an upper and one without a lower neighbour are linked in both directions, and nothing is closed.\<close>

lemma chain_free:
  assumes "bubble_up (kget D d w) = None" and "bubble_down (kget U u w) = None"
  shows "streamio_chain U D u d w =
    (0, kput D d ((kget D d w)\<lparr>bubble_up := Some u\<rparr>) (kput U u ((kget U u w)\<lparr>bubble_down := Some d\<rparr>) w))"
  using assms by (simp add: streamio_chain_def put_commute)

lemma unchain_linked:
  assumes "bubble_down (kget U u w) = Some d"
  shows "streamio_unchain U D u d w =
    (0, kput D d ((kget D d w)\<lparr>bubble_up := None\<rparr>) (kput U u ((kget U u w)\<lparr>bubble_down := None\<rparr>) w))"
  using assms by (simp add: streamio_unchain_def put_commute)

lemma unchain_links:
  "bubble_up (kget D d (snd (streamio_unchain U D u d w))) = None"
  "bubble_down (kget U u (snd (streamio_unchain U D u d w))) \<noteq> Some d"
  by (simp_all add: streamio_unchain_def Let_def)

lemma unchain_chain:
  assumes "bubble_up (kget D d w) = None" and "bubble_down (kget U u w) = None"
  shows "streamio_unchain U D u d (snd (streamio_chain U D u d w)) = (0, w)"
proof -
  have "(kget D d w)\<lparr>bubble_up := None\<rparr> = kget D d w" using assms(1) by (cases "kget D d w") simp
  moreover have "(kget U u w)\<lparr>bubble_down := None\<rparr> = kget U u w" using assms(2) by (cases "kget U u w") simp
  ultimately show ?thesis by (simp add: chain_free [OF assms] unchain_linked put_commute)
qed

end

section \<open>Chains of default streams\<close>

text \<open>A heap of default streams that records what is written and closed. Each link calls the same method of the next
  stream. \<open>fuel\<close> bounds the calls; a cyclic chain exhausts it (in C, the stack).\<close>

record stream_world =
  strms :: "nat \<Rightarrow> streamio"
  strm_log :: "(int \<times> bytes \<times> int) list"
  strm_closed :: "int list"

definition set_strm :: "nat \<Rightarrow> streamio \<Rightarrow> stream_world \<Rightarrow> stream_world" where
  "set_strm i x w = w\<lparr>strms := (strms w)(i := x)\<rparr>"

definition log_env :: "stream_world stream_env" where
  "log_env = \<lparr>up_send = (\<lambda>_ _ _ w. (-1, w)), up_close = (\<lambda>_ w. (-1, w)), up_transfer = (\<lambda>_ _ _ _ w. Inr (-1, w)),
     sys_send = (\<lambda>f bs fl w. (int (length bs), 0, w\<lparr>strm_log := strm_log w @ [(f, bs, fl)]\<rparr>)),
     sys_close = (\<lambda>f w. w\<lparr>strm_closed := strm_closed w @ [f]\<rparr>), loop_unregister = (\<lambda>_ w. w),
     raw_send_socket = (\<lambda>_ _ _ w. (-1, w))\<rparr>"

fun chain_send :: "nat \<Rightarrow> nat \<Rightarrow> aroop_txt_t \<Rightarrow> int \<Rightarrow> stream_world \<Rightarrow> int \<times> stream_world" where
  "chain_send 0 i content flag w = (-1, w)"
| "chain_send (Suc fuel) i content flag w =
     (case default_streamio_send_nonblock (log_env\<lparr>up_send := chain_send fuel\<rparr>) (strms w i) content flag w of
        (r, x, w') \<Rightarrow> (r, set_strm i x w'))"

fun chain_close :: "nat \<Rightarrow> nat \<Rightarrow> stream_world \<Rightarrow> int \<times> stream_world" where
  "chain_close 0 i w = (-1, w)"
| "chain_close (Suc fuel) i w =
     (case default_streamio_close (log_env\<lparr>up_close := chain_close fuel\<rparr>) (strms w i) w of
        (r, x, w') \<Rightarrow> (r, set_strm i x w'))"

text \<open>\<open>is\<close> is a chain from its first element up to its last, which owns a descriptor.\<close>

fun is_chain :: "(nat \<Rightarrow> streamio) \<Rightarrow> nat list \<Rightarrow> bool" where
  "is_chain h [] = False"
| "is_chain h [i] = (bubble_up (h i) = None \<and> strm_fd (h i) \<noteq> INVALID_FD)"
| "is_chain h (i # j # is) = (bubble_up (h i) = Some j \<and> is_chain h (j # is))"

lemma set_strm_same [simp]: "set_strm i (strms w i) w = w"
  by (simp add: set_strm_def)

lemma bubble_up_none: "bubble_up x = None \<Longrightarrow> x\<lparr>bubble_up := None\<rparr> = x"
  by (cases x) simp

lemma chain_send_top:
  "is_chain (strms w) (i # is) \<Longrightarrow> length is < fuel \<Longrightarrow>
     chain_send fuel i content flag w =
       (int (length (str content)), w\<lparr>strm_log := strm_log w @ [(strm_fd (strms w (last (i # is))), str content, flag)]\<rparr>)"
proof (induction "is" arbitrary: i fuel)
  case Nil
  then show ?case
    by (cases fuel) (auto simp: default_streamio_send_nonblock_def log_env_def set_strm_def INVALID_FD_def)
next
  case (Cons j "is")
  obtain n where n: "fuel = Suc n" using Cons.prems(2) by (cases fuel) auto
  have "chain_send n j content flag w =
      (int (length (str content)), w\<lparr>strm_log := strm_log w @ [(strm_fd (strms w (last (j # is))), str content, flag)]\<rparr>)"
    using Cons.IH [of j n] Cons.prems n by simp
  then show ?case
    using Cons.prems(1) n by (simp add: default_streamio_send_nonblock_def set_strm_def)
qed

lemma chain_close_top:
  "is_chain (strms w) (i # is) \<Longrightarrow> length is < fuel \<Longrightarrow> distinct (i # is) \<Longrightarrow>
     chain_close fuel i w =
       (0, (set_strm (last (i # is)) ((strms w (last (i # is)))\<lparr>strm_fd := INVALID_FD\<rparr>) w)
             \<lparr>strm_closed := strm_closed w @ [strm_fd (strms w (last (i # is)))]\<rparr>)"
proof (induction "is" arbitrary: i fuel)
  case Nil
  then show ?case
    by (cases fuel) (auto simp: default_streamio_close_def log_env_def set_strm_def bubble_up_none Let_def)
next
  case (Cons j "is")
  obtain n where n: "fuel = Suc n" using Cons.prems(2) by (cases fuel) auto
  let ?l = "last (j # is)"
  have l: "?l \<noteq> i" using Cons.prems(3) last_in_set [of "j # is"] by auto
  have "chain_close n j w = (0, (set_strm ?l ((strms w ?l)\<lparr>strm_fd := INVALID_FD\<rparr>) w)
      \<lparr>strm_closed := strm_closed w @ [strm_fd (strms w ?l)]\<rparr>)"
    using Cons.IH [of j n] Cons.prems n by simp
  then show ?case
    using Cons.prems(1) n l by (simp add: default_streamio_close_def set_strm_def fun_upd_twist)
qed

section \<open>Properties\<close>

text \<open>A chain of streams acts as its last stream: a send through the first link writes the content
  exactly once, to the last stream's descriptor, and a close closes exactly that descriptor and leaves
  every stream but the last as it is.\<close>

theorem chain_acts_as_top:
  assumes "is_chain (strms w) (i # is)" and "length is < fuel" and "distinct (i # is)"
  shows "chain_send fuel i content flag w =
      (int (length (str content)), w\<lparr>strm_log := strm_log w @ [(strm_fd (strms w (last (i # is))), str content, flag)]\<rparr>) \<and>
    (\<exists>w'. chain_close fuel i w = (0, w') \<and> strm_closed w' = strm_closed w @ [strm_fd (strms w (last (i # is)))] \<and>
      (\<forall>j. j \<noteq> last (i # is) \<longrightarrow> strms w' j = strms w j))"
  using chain_send_top [OF assms(1,2)] chain_close_top [OF assms] by (simp add: set_strm_def)

definition two_streams :: stream_world where
  "two_streams = \<lparr>strms = (\<lambda>i. \<lparr>strm_token = 0, strm_fd = (if i = 1 then 9 else -1), on_recv = NullMethod,
       send_method = DefaultSendNonblock, close_method = DefaultClose, transfer_method = DefaultTransfer,
       bubble_up = (if i = 0 then Some 1 else None), bubble_down = (if i = 1 then Some 0 else None),
       send_buffer = zero_txt, strm_error = 0\<rparr>), strm_log = [], strm_closed = []\<rparr>"

lemma chain_acts_as_top_witness:
  "chain_send 2 0 (txt_of [1, 2]) 0 two_streams =
      (int (length (str (txt_of [1, 2]))), two_streams\<lparr>strm_log := strm_log two_streams @ [(strm_fd (strms two_streams (last (0 # [1]))), str (txt_of [1, 2]), 0)]\<rparr>) \<and>
    (\<exists>w'. chain_close 2 0 two_streams = (0, w') \<and> strm_closed w' = strm_closed two_streams @ [strm_fd (strms two_streams (last (0 # [1])))] \<and>
      (\<forall>j. j \<noteq> last (0 # [1]) \<longrightarrow> strms w' j = strms two_streams j))"
  by (rule chain_acts_as_top) (simp_all add: two_streams_def INVALID_FD_def)

end
