(* ===== verification/ChatState.thy ===== *)
theory ChatState
  imports StreamIO AsyncDb LazyCall Scanner
begin

text \<open>
  The state of one process of the chat server and the operations the rest of the chat application
  shares: \<open>apps/chat/inc/chat.h\<close>, sending (\<open>chat_factory.c\<close>), the log-in keys (\<open>user.c\<close>) and the
  room keys (\<open>room.c\<close>). A connection is a number, the address of its object in the pool
  \<open>chat_factory\<close>; a room is its index in \<open>room_factory\<close>, from which nothing is removed. Reference
  counts belong to the external library: \<open>OPPREF\<close> and \<open>OPPUNREF\<close> of a connection have no effect on
  the state, and an object disappears by \<open>chat_reclaim\<close> (theory \<open>ChatLife\<close>).

  The environment \<open>E\<close> of a run holds the library, the system calls of a stream (acting on the outside
  world \<open>'w\<close>), which descriptors of the pipeline refuse a message, the process ids and the time. Of
  the library's pools it holds the search by hash, the place where a list puts a new element (any
  place: \<open>list_add_ok\<close>) and the address and token of a new object. For the commands that print, it holds the number
  of registered descriptors, what a call of a core plugin answers, what the library's profiler writes, and the directory
  that \<open>__FILE__\<close> names.
\<close>

section \<open>State\<close>

definition CHAT_SIGNATURE :: int where "CHAT_SIGNATURE = 0x54321"

definition CHAT_CONNECTED :: "32 word" where "CHAT_CONNECTED = 0"
definition CHAT_LOGGED_IN :: "32 word" where "CHAT_LOGGED_IN = 2"
definition CHAT_IN_ROOM :: "32 word" where "CHAT_IN_ROOM = 4"
definition CHAT_QUIT :: "32 word" where "CHAT_QUIT = 8"
definition CHAT_SOFT_QUIT :: "32 word" where "CHAT_SOFT_QUIT = 16"
definition CHAT_ZOMBIE :: "32 word" where "CHAT_ZOMBIE = 32"

definition NGINZ_CHAT_PORT :: "32 word" where "NGINZ_CHAT_PORT = 9399"
definition NGINZ_MAX_CHAT_USER_NAME_SIZE :: nat where "NGINZ_MAX_CHAT_USER_NAME_SIZE = 32"
definition NGINZ_MAX_CHAT_MSG_SIZE :: nat where "NGINZ_MAX_CHAT_MSG_SIZE = 255"
definition NGINZ_MAX_CHAT_ROOM_USER :: nat where "NGINZ_MAX_CHAT_ROOM_USER = 32"

datatype response_callback = OnLogin | Broadcast

record chat_connection =
  strm :: streamio
  cstate :: "32 word"
  chat_name :: aroop_txt_t
  request :: "aroop_txt_t option"
  on_response_callback :: "response_callback option"
  callback_data :: "nat option"
  quited_at :: int

record internal_room =
  room_name :: aroop_txt_t
  user_list :: "nat list"

datatype lazy_object = ZombieEntry nat | ChatRef nat

record 'w chat_world =
  conns :: "nat \<Rightarrow> chat_connection"
  chat_factory :: "nat list"
  room_factory :: "internal_room list"
  zombie_list :: "nat list"
  lazy_data :: "(unit, unit, lazy_object option) lazy_state"
  gear :: nat
  greet_on_login :: aroop_txt_t
  chat_module_is_quiting :: bool
  pipe :: pp_state
  outside :: 'w
  internal_chat_connection_count :: int
  start_time :: int

record 'w chat_env =
  lib :: aroop
  streams :: "'w stream_env"
  send_fails :: "int \<Rightarrow> bool"
  my_pid :: "32 word"
  master_pid :: "32 word"
  now :: int
  opp_search_room :: "aroop_txt_t \<Rightarrow> internal_room list \<Rightarrow> nat option"
  opp_list_add :: "nat \<Rightarrow> nat list \<Rightarrow> nat list"
  opp_alloc :: "nat list \<Rightarrow> nat \<times> 32 word"
  loop_register :: "int \<Rightarrow> nat \<Rightarrow> 'w \<Rightarrow> 'w"
  event_fd_count :: int
  core_call :: "aroop_txt_t \<Rightarrow> aroop_txt_t \<Rightarrow> aroop_txt_t exec"
  profiler_dump :: "aroop_txt_t list"
  source_dir :: bytes

text \<open>What the code relies on of the library's pools.\<close>

definition pools_ok :: "'w chat_env \<Rightarrow> bool" where
  "pools_ok E \<longleftrightarrow>
     (\<forall>c xs. mset (opp_list_add E c xs) = add_mset c (mset xs)) \<and>
     (\<forall>xs. fst (opp_alloc E xs) \<notin> set xs) \<and>
     (\<forall>n rs r. opp_search_room E n rs = Some r \<longrightarrow> r < length rs)"

definition upd_conn :: "nat \<Rightarrow> (chat_connection \<Rightarrow> chat_connection) \<Rightarrow> 'w chat_world \<Rightarrow> 'w chat_world" where
  "upd_conn c f w = w\<lparr>conns := (conns w)(c := f (conns w c))\<rparr>"

definition set_bits :: "32 word \<Rightarrow> chat_connection \<Rightarrow> chat_connection" where
  "set_bits b x = x\<lparr>cstate := cstate x OR b\<rparr>"

definition clear_bits :: "32 word \<Rightarrow> chat_connection \<Rightarrow> chat_connection" where
  "clear_bits b x = x\<lparr>cstate := cstate x AND NOT b\<rparr>"

definition is_valid_chat :: "nat \<Rightarrow> 'w chat_world \<Rightarrow> bool" where
  "is_valid_chat c w \<longleftrightarrow> is_valid_stream (strm (conns w c))"

text \<open>A call on the message pipeline of the process.\<close>

definition on_pipe :: "(pp_state \<Rightarrow> (int \<times> pp_state) exec) \<Rightarrow> 'w chat_world \<Rightarrow> 'w chat_world exec" where
  "on_pipe f w = ebind (f (pipe w)) (\<lambda>(_, s). Inr (w\<lparr>pipe := s\<rparr>))"

section \<open>Sending\<close>

definition default_chat_send :: "'w chat_env \<Rightarrow> nat \<Rightarrow> aroop_txt_t \<Rightarrow> int \<Rightarrow> 'w chat_world \<Rightarrow> int \<times> 'w chat_world" where
  "default_chat_send E c content flags w =
     (if has (cstate (conns w c)) (CHAT_QUIT OR CHAT_SOFT_QUIT OR CHAT_ZOMBIE) then (-1, w)
      else
        (case default_streamio_send_nonblock (streams E) (strm (conns w c)) content flags (outside w) of
           (ret, s, o') \<Rightarrow>
             let w1 = upd_conn c (strm_update (\<lambda>_. s)) (w\<lparr>outside := o'\<rparr>)
             in (ret, if strm_error s \<noteq> 0 then upd_conn c (set_bits CHAT_SOFT_QUIT) w1 else w1)))"

abbreviation send :: "'w chat_env \<Rightarrow> nat \<Rightarrow> aroop_txt_t \<Rightarrow> int \<Rightarrow> 'w chat_world \<Rightarrow> 'w chat_world" where
  "send E c content flags w \<equiv> snd (default_chat_send E c content flags w)"

section \<open>Users\<close>

definition USER_PREFIX :: bytes where "USER_PREFIX = lit ''user/''"

definition build_name_key :: "aroop \<Rightarrow> aroop_txt_t \<Rightarrow> aroop_txt_t \<Rightarrow> aroop_txt_t" where
  "build_name_key A nm output =
     aroop_txt_zero_terminate A (aroop_txt_concat A (aroop_txt_concat_string A output USER_PREFIX) nm)"

definition async_try_login ::
    "'w chat_env \<Rightarrow> aroop_txt_t \<Rightarrow> 32 word \<Rightarrow> aroop_txt_t \<Rightarrow> 'w chat_world \<Rightarrow> (int \<times> 'w chat_world) exec" where
  "async_try_login E nm token response_hook w =
     (if t_len nm = 0 then Inr (-1, w)
      else
        let A = lib E; name_key = build_name_key A nm (aroop_txt_stackbuffer A 128)
        in ebind (on_pipe (async_db_compare_and_swap A (send_fails E) (my_pid E) (master_pid E) token
                    (Some response_hook) name_key (Some nm) None) w) (\<lambda>w'. Inr (0, w')))"

definition logoff_user :: "'w chat_env \<Rightarrow> nat \<Rightarrow> 'w chat_world \<Rightarrow> (int \<times> 'w chat_world) exec" where
  "logoff_user E c w =
     (if t_len (chat_name (conns w c)) = 0 then Inr (-1, w)
      else
        let A = lib E; name_key = build_name_key A (chat_name (conns w c)) (aroop_txt_stackbuffer A 128)
        in ebind (on_pipe (async_db_unset A (send_fails E) (my_pid E) (master_pid E) (-1) None name_key) w)
             (\<lambda>w'. Inr (0, upd_conn c (clear_bits CHAT_LOGGED_IN) w')))"

section \<open>Room keys\<close>

definition ROOM_PID_KEY :: bytes where "ROOM_PID_KEY = lit ''room/pid/''"
definition ROOM_USER_KEY :: bytes where "ROOM_USER_KEY = lit ''room/user/''"

definition room_key :: "aroop \<Rightarrow> bytes \<Rightarrow> aroop_txt_t \<Rightarrow> aroop_txt_t" where
  "room_key A prefix my_room =
     aroop_txt_zero_terminate A
       (aroop_txt_concat A (aroop_txt_concat_string A (aroop_txt_stackbuffer A 128) prefix) my_room)"

definition chat_room_convert_room_from_room_pid_key :: "aroop \<Rightarrow> aroop_txt_t \<Rightarrow> int \<times> aroop_txt_t" where
  "chat_room_convert_room_from_room_pid_key A key =
     (0, aroop_txt_shift A (aroop_txt_concat A (aroop_txt_buffer A 64) key) (int (length ROOM_PID_KEY)))"

definition chat_room_set_user_count ::
    "'w chat_env \<Rightarrow> aroop_txt_t \<Rightarrow> 32 word \<Rightarrow> 32 word \<Rightarrow> 'w chat_world \<Rightarrow> (int \<times> 'w chat_world) exec" where
  "chat_room_set_user_count E my_room user_count increment w =
     (if t_len my_room = 0 then Inr (-1, w)
      else
        ebind (on_pipe (async_db_increment (lib E) (send_fails E) (my_pid E) (master_pid E) (-1) None
                 (room_key (lib E) ROOM_USER_KEY my_room) user_count increment) w) (\<lambda>w'. Inr (0, w')))"

definition chat_room_get_pid ::
    "'w chat_env \<Rightarrow> aroop_txt_t \<Rightarrow> 32 word \<Rightarrow> aroop_txt_t \<Rightarrow> 'w chat_world \<Rightarrow> (int \<times> 'w chat_world) exec" where
  "chat_room_get_pid E my_room token callback_hook w =
     (if t_len my_room = 0 then Inr (-1, w)
      else
        ebind (on_pipe (async_db_get (lib E) (send_fails E) (my_pid E) (master_pid E) token (Some callback_hook)
                 (room_key (lib E) ROOM_PID_KEY my_room)) w) (\<lambda>w'. Inr (0, w')))"

section \<open>State bits\<close>

named_theorems chat_bits

lemmas chat_flags = CHAT_CONNECTED_def CHAT_LOGGED_IN_def CHAT_IN_ROOM_def CHAT_QUIT_def CHAT_SOFT_QUIT_def
  CHAT_ZOMBIE_def

lemma flag_bits [simp]:
  "has CHAT_IN_ROOM CHAT_IN_ROOM" "\<not> has CHAT_LOGGED_IN CHAT_IN_ROOM" "\<not> has CHAT_QUIT CHAT_IN_ROOM"
  "\<not> has CHAT_SOFT_QUIT CHAT_IN_ROOM" "\<not> has CHAT_ZOMBIE CHAT_IN_ROOM" "has CHAT_ZOMBIE CHAT_ZOMBIE"
  "\<not> has CHAT_LOGGED_IN CHAT_ZOMBIE" "\<not> has CHAT_QUIT CHAT_ZOMBIE" "\<not> has CHAT_SOFT_QUIT CHAT_ZOMBIE"
  "\<not> has CHAT_IN_ROOM CHAT_ZOMBIE" "has CHAT_QUIT CHAT_QUIT" "\<not> has CHAT_ZOMBIE CHAT_QUIT"
  "\<not> has CHAT_ZOMBIE CHAT_SOFT_QUIT" "\<not> has CHAT_IN_ROOM CHAT_QUIT" "\<not> has CHAT_IN_ROOM CHAT_SOFT_QUIT"
  "\<not> has CHAT_LOGGED_IN CHAT_QUIT" "\<not> has CHAT_LOGGED_IN CHAT_SOFT_QUIT" "has CHAT_LOGGED_IN CHAT_LOGGED_IN"
  "has CHAT_SOFT_QUIT CHAT_SOFT_QUIT" "\<not> has CHAT_IN_ROOM CHAT_LOGGED_IN" "\<not> has CHAT_QUIT CHAT_LOGGED_IN"
  "\<not> has CHAT_SOFT_QUIT CHAT_LOGGED_IN" "\<not> has CHAT_ZOMBIE CHAT_LOGGED_IN" "\<not> has CHAT_QUIT CHAT_SOFT_QUIT"
  "\<not> has CHAT_SOFT_QUIT CHAT_QUIT"
  by (simp_all add: has_def chat_flags)

lemma clear_other [simp]:
  "has (s AND NOT CHAT_LOGGED_IN) CHAT_IN_ROOM \<longleftrightarrow> has s CHAT_IN_ROOM"
  "has (s AND NOT CHAT_LOGGED_IN) CHAT_ZOMBIE \<longleftrightarrow> has s CHAT_ZOMBIE"
  "has (s AND NOT CHAT_LOGGED_IN) CHAT_QUIT \<longleftrightarrow> has s CHAT_QUIT"
  "has (s AND NOT CHAT_LOGGED_IN) CHAT_SOFT_QUIT \<longleftrightarrow> has s CHAT_SOFT_QUIT"
  "has (s AND NOT CHAT_IN_ROOM) CHAT_LOGGED_IN \<longleftrightarrow> has s CHAT_LOGGED_IN"
  "has (s AND NOT CHAT_IN_ROOM) CHAT_ZOMBIE \<longleftrightarrow> has s CHAT_ZOMBIE"
  "has (s AND NOT CHAT_IN_ROOM) CHAT_QUIT \<longleftrightarrow> has s CHAT_QUIT"
  "has (s AND NOT CHAT_IN_ROOM) CHAT_SOFT_QUIT \<longleftrightarrow> has s CHAT_SOFT_QUIT"
  by (rule has_clear, simp add: chat_flags)+

section \<open>Sends and pipeline calls\<close>

text \<open>Calls on the pipeline only append to what the process has sent.\<close>

definition grows :: "pp_state \<Rightarrow> pp_state \<Rightarrow> bool" where
  "grows s s' \<longleftrightarrow> (\<exists>es. s' = s\<lparr>effects := effects s @ es\<rparr>)"

lemma grows_refl [simp]: "grows s s"
  by (auto simp: grows_def intro: exI [of _ "[]"])

lemma grows_trans: "grows a b \<Longrightarrow> grows b c \<Longrightarrow> grows a c"
  by (auto simp: grows_def)

lemma grows_nodes: "grows s s' \<Longrightarrow> nodes s' = nodes s \<and> mynode s' = mynode s \<and> node_index n s' = node_index n s"
  by (auto simp: grows_def node_index_def)

lemma send_grows: "pp_send A fails d pkt s = Inr (r, s') \<Longrightarrow> grows s s'"
proof -
  have one: "grows s (snd (pp_simple_sendmsg fails f pkt s))" for f s
    by (auto simp: pp_simple_sendmsg_def effect_def grows_def intro: exI [of _ "[]"])
  have "grows s (snd (pp_broadcast fails pkt is s))" for "is" s
  proof (induction "is" arbitrary: s)
    case (Cons i "is")
    then show ?case
      using one [of s "fd0 (nodes s i)"]
      by (cases "pp_simple_sendmsg fails (fd0 (nodes s i)) pkt s") (auto intro: grows_trans)
  qed simp
  moreover assume "pp_send A fails d pkt s = Inr (r, s')"
  ultimately show "grows s s'"
    using one by (auto simp: pp_send_def ebind_Inr_iff Let_def split: if_splits option.splits) (metis snd_conv)+
qed

lemma call_master_grows:
  "async_pm_call_master A fails pid mpid token hook master_hook args s = Inr (r, s') \<Longrightarrow> grows s s'"
  unfolding request_is_wires by (auto simp: ebind_Inr_iff dest: send_grows)

lemma cas_grows:
  "async_db_compare_and_swap A fails pid mpid token hook key new expected s = Inr (r, s') \<Longrightarrow> grows s s'"
  by (auto simp: async_db_compare_and_swap_def ebind_Inr_iff dest: call_master_grows)

lemma unset_grows: "async_db_unset A fails pid mpid token hook key s = Inr (r, s') \<Longrightarrow> grows s s'"
  unfolding async_db_unset_def by (rule cas_grows)

lemma get_grows: "async_db_get A fails pid mpid token hook key s = Inr (r, s') \<Longrightarrow> grows s s'"
  by (auto simp: async_db_get_def ebind_Inr_iff dest: call_master_grows)

lemma set_if_null_grows: "async_db_set_if_null A fails pid mpid token hook key v s = Inr (r, s') \<Longrightarrow> grows s s'"
  by (auto simp: async_db_set_if_null_def ebind_Inr_iff dest: cas_grows)

lemma increment_grows: "async_db_increment A fails pid mpid token hook key n d s = Inr (r, s') \<Longrightarrow> grows s s'"
proof (cases "n + d = 0")
  case True
  moreover assume "async_db_increment A fails pid mpid token hook key n d s = Inr (r, s')"
  ultimately show ?thesis using unset_grows by (auto simp: async_db_increment_def)
next
  case False
  assume "async_db_increment A fails pid mpid token hook key n d s = Inr (r, s')"
  then obtain r1 s1 r2 where 1: "(if n = 0 then async_db_set_if_null A fails pid mpid (-1) None key d s else Inr (0, s)) = Inr (r1, s1)"
    and 2: "async_db_compare_and_swap A fails pid mpid token (Some (hook_or_null A hook)) key
      (Some (int_txt A (n + d))) (Some (int_txt A n)) s1 = Inr (r2, s')"
    unfolding async_db_increment_def Let_def if_not_P [OF False] by (elim ebind_InrE) (auto elim!: ebind_InrE)
  have "grows s s1"
  proof (cases "n = 0")
    case True
    with 1 have "async_db_set_if_null A fails pid mpid (-1) None key d s = Inr (r1, s1)" by (simp only: if_True simp_thms)
    then show ?thesis by (rule set_if_null_grows)
  qed (use 1 in simp)
  then show ?thesis using cas_grows [OF 2] by (rule grows_trans)
qed

definition appending :: "(pp_state \<Rightarrow> (int \<times> pp_state) exec) \<Rightarrow> bool" where
  "appending f \<longleftrightarrow> (\<forall>s r s'. f s = Inr (r, s') \<longrightarrow> grows s s')"

lemma appending_calls [simp]:
  "appending (async_pm_call_master A fails pid mpid token hook1 master_hook args)"
  "appending (async_db_compare_and_swap A fails pid mpid token hook key new expected)"
  "appending (async_db_unset A fails pid mpid token hook key)"
  "appending (async_db_get A fails pid mpid token hook key)"
  "appending (async_db_set_if_null A fails pid mpid token hook key n)"
  "appending (async_db_increment A fails pid mpid token hook key n d)"
  unfolding appending_def
  by (intro allI impI, erule call_master_grows cas_grows unset_grows get_grows set_if_null_grows increment_grows)+

lemma call_master_total:
  assumes "aroop_ok A" and "node_index mpid s = Some i" and "mpid \<noteq> 0"
  shows "\<exists>s'. async_pm_call_master A fails pid mpid token hook master_hook args s = Inr (0, s') \<and> grows s s'"
proof -
  have "256 \<le> t_cap (aroop_txt_stackbuffer A NGINZ_MAX_BINARY_MSG_LEN)"
    using buffer_cap(2) [OF assms(1), of NGINZ_MAX_BINARY_MSG_LEN] by (simp add: NGINZ_MAX_BINARY_MSG_LEN_def)
  then obtain b where b: "binary_coder_reset A (aroop_txt_stackbuffer A NGINZ_MAX_BINARY_MSG_LEN) = Inr b"
    using reset_packed [OF assms(1) buffer_laws(3) [OF assms(1)]] by blast
  have "\<exists>r s'. pp_send A fails mpid pkt s = Inr (r, s') \<and> grows s s'" for pkt
    using assms(2,3) node_index_Some [OF assms(2)]
    by (auto simp: pp_send_def pp_find_node_def pp_simple_sendmsg_def effect_def grows_def intro: exI [of _ "[]"])
  then show ?thesis
    unfolding request_is_wires by (simp add: b ebind_pair) (metis (no_types, lifting) ebind_simps(2) case_prod_conv)
qed

lemma cas_total:
  assumes "aroop_ok A" and "node_index mpid s = Some i" and "mpid \<noteq> 0" and "t_len key \<noteq> 0"
    and "expected \<noteq> None \<Longrightarrow> (case new of None \<Rightarrow> False | Some v \<Rightarrow> t_len v \<noteq> 0)"
  shows "\<exists>s'. async_db_compare_and_swap A fails pid mpid token hook key new expected s = Inr (0, s') \<and> grows s s'"
proof -
  have "(case expected of None \<Rightarrow> Inr () | Some _ \<Rightarrow>
      (case new of None \<Rightarrow> Inl NullDeref | Some v \<Rightarrow> aroop_assert A (t_len v \<noteq> 0))) = Inr ()"
    using assms(5) by (cases expected; cases new) simp_all
  then show ?thesis
    using assms(4) call_master_total [OF assms(1-3), of fails pid token "Some (hook_or_null A hook)"]
    by (simp add: async_db_compare_and_swap_def) (metis (no_types, lifting) ebind_simps(2) case_prod_conv)
qed

lemma unset_total:
  assumes "aroop_ok A" and "node_index mpid s = Some i" and "mpid \<noteq> 0" and "t_len key \<noteq> 0"
  shows "\<exists>s'. async_db_unset A fails pid mpid token hook key s = Inr (0, s') \<and> grows s s'"
  unfolding async_db_unset_def by (rule cas_total [OF assms]) simp

lemma get_total:
  assumes "aroop_ok A" and "node_index mpid s = Some i" and "mpid \<noteq> 0" and "t_len key \<noteq> 0"
  shows "\<exists>s'. async_db_get A fails pid mpid token hook key s = Inr (0, s') \<and> grows s s'"
  using call_master_total [OF assms(1-3)] assms(4) by (simp add: async_db_get_def)

lemma int_txt_len: "aroop_ok A \<Longrightarrow> t_len (int_txt A v) \<noteq> 0"
  using int_txt_props [of A v] length_str [of "int_txt A v"] dec_int_nonempty [of "sint v"]
  by (metis length_0_conv)

lemma increment_total:
  assumes "aroop_ok A" and "node_index mpid s = Some i" and "mpid \<noteq> 0" and "t_len key \<noteq> 0"
  shows "\<exists>s'. async_db_increment A fails pid mpid token hook key n d s = Inr (0, s') \<and> grows s s'"
proof (cases "n + d = 0")
  case True
  then show ?thesis using unset_total [OF assms] by (simp add: async_db_increment_def)
next
  case False
  obtain s1 where 1: "(if n = 0 then async_db_set_if_null A fails pid mpid (-1) None key d s else Inr (0, s)) = Inr (0, s1)"
      "grows s s1"
  proof (cases "n = 0")
    case True
    obtain s1 where "async_db_compare_and_swap A fails pid mpid (-1) (Some (hook_or_null A None)) key
        (Some (int_txt A d)) None s = Inr (0, s1)" "grows s s1"
      using cas_total [OF assms, of None] by blast
    then show ?thesis using True by (intro that [of s1]) (simp_all add: async_db_set_if_null_def)
  next
    case False
    then show ?thesis by (intro that [of s]) simp_all
  qed
  have n1: "node_index mpid s1 = Some i" using grows_nodes [OF 1(2)] assms(2) by simp
  obtain s2 where 2: "async_db_compare_and_swap A fails pid mpid token (Some (hook_or_null A hook)) key
      (Some (int_txt A (n + d))) (Some (int_txt A n)) s1 = Inr (0, s2)" "grows s1 s2"
    using cas_total [OF assms(1) n1 assms(3,4), of "Some (int_txt A n)" "Some (int_txt A (n + d))" fails pid token
        "Some (hook_or_null A hook)"] int_txt_len [OF assms(1)] that
    by (simp add: int_txt_len [OF assms(1)]) blast
  show ?thesis
    using False 1(1) 2(1) grows_trans [OF 1(2) 2(2)] by (simp add: async_db_increment_def Let_def)
qed

lemma prefixed_txt:
  assumes "aroop_ok A" and "wf_txt x" and "length prefix + t_len x \<le> 128"
  defines "r \<equiv> aroop_txt_zero_terminate A (aroop_txt_concat A (aroop_txt_concat_string A (aroop_txt_stackbuffer A 128) prefix) x)"
  shows "wf_txt r" and "str r = prefix @ str x" and "t_len r = length prefix + t_len x"
proof -
  let ?b = "aroop_txt_stackbuffer A 128"
  have b: "wf_txt ?b" "t_len ?b = 0" "128 < t_cap ?b" "str ?b = []"
    using buffer_laws(3,4) [OF assms(1)] buffer_cap(2) [OF assms(1), of 128] by (simp_all add: str_def)
  have 1: "appends ?b prefix (aroop_txt_concat_string A ?b prefix)"
    using b assms(3) by (intro concat_string_appends [OF assms(1)]) simp_all
  have l: "t_len (aroop_txt_concat_string A ?b prefix) = length prefix"
    using appends_len [OF b(1) 1] b(2) by simp
  have 2: "appends (aroop_txt_concat_string A ?b prefix) (str x) (aroop_txt_concat A (aroop_txt_concat_string A ?b prefix) x)"
    using appendsD [OF 1] l b(3) assms(2,3) by (intro concat_appends [OF assms(1)]) simp_all
  show "wf_txt r" "str r = prefix @ str x"
    using appendsD [OF 1] appendsD [OF 2] b(4) zero_terminate_laws [OF assms(1)] by (simp_all add: r_def)
  then show "t_len r = length prefix + t_len x"
    using length_str [of r] length_str [OF assms(2)] by simp
qed

lemma room_key_props:
  assumes "aroop_ok A" and "wf_txt x" and "length prefix + t_len x \<le> 128"
  shows "wf_txt (room_key A prefix x)" and "str (room_key A prefix x) = prefix @ str x"
    and "t_len (room_key A prefix x) = length prefix + t_len x"
  unfolding room_key_def by (rule prefixed_txt [OF assms])+

lemma name_key_props:
  assumes "aroop_ok A" and "wf_txt x" and "t_len x \<le> 120"
  defines "k \<equiv> build_name_key A x (aroop_txt_stackbuffer A 128)"
  shows "wf_txt k" and "str k = USER_PREFIX @ str x" and "t_len k = 5 + t_len x"
  using prefixed_txt [OF assms(1,2), of USER_PREFIX] assms(3) by (simp_all add: k_def build_name_key_def USER_PREFIX_def)

section \<open>Frame of a send\<close>

text \<open>What a sequence of sends and pipeline calls leaves as it is: everything but the error of a stream,
  the soft-quit bit it sets, the outside world and what the process has sent.\<close>

definition conn_quiet :: "chat_connection \<Rightarrow> chat_connection \<Rightarrow> bool" where
  "conn_quiet x y \<longleftrightarrow> (strm y)\<lparr>strm_error := 0\<rparr> = (strm x)\<lparr>strm_error := 0\<rparr> \<and> (cstate y = cstate x \<or> cstate y = cstate x OR CHAT_SOFT_QUIT) \<and>
     chat_name y = chat_name x \<and> request y = request x \<and> on_response_callback y = on_response_callback x \<and>
     callback_data y = callback_data x \<and> quited_at y = quited_at x"

definition quiet :: "'w chat_world \<Rightarrow> 'w chat_world \<Rightarrow> bool" where
  "quiet w w' \<longleftrightarrow> (\<forall>c. conn_quiet (conns w c) (conns w' c)) \<and> grows (pipe w) (pipe w') \<and>
     chat_factory w' = chat_factory w \<and> room_factory w' = room_factory w \<and> zombie_list w' = zombie_list w \<and>
     lazy_data w' = lazy_data w \<and> gear w' = gear w \<and> greet_on_login w' = greet_on_login w \<and>
     chat_module_is_quiting w' = chat_module_is_quiting w"

lemma conn_quiet_refl [simp]: "conn_quiet x x"
  by (simp add: conn_quiet_def)

lemma conn_quiet_trans: "conn_quiet x y \<Longrightarrow> conn_quiet y z \<Longrightarrow> conn_quiet x z"
  unfolding conn_quiet_def by (elim conjE, intro conjI) (simp_all, auto simp: or.assoc)

lemma quiet_refl [simp]: "quiet w w"
  by (simp add: quiet_def)

lemma quiet_trans: "quiet a b \<Longrightarrow> quiet b c \<Longrightarrow> quiet a c"
  unfolding quiet_def by (elim conjE) (auto intro: conn_quiet_trans grows_trans)

lemma quiet_conn:
  assumes "quiet w w'"
  shows "chat_name (conns w' c) = chat_name (conns w c)" "request (conns w' c) = request (conns w c)"
    "on_response_callback (conns w' c) = on_response_callback (conns w c)"
    "callback_data (conns w' c) = callback_data (conns w c)" "quited_at (conns w' c) = quited_at (conns w c)"
    "strm_fd (strm (conns w' c)) = strm_fd (strm (conns w c))"
    "bubble_up (strm (conns w' c)) = bubble_up (strm (conns w c))"
    "strm_token (strm (conns w' c)) = strm_token (strm (conns w c))"
proof -
  have q: "conn_quiet (conns w c) (conns w' c)" using assms by (simp add: quiet_def)
  then have s: "(strm (conns w' c))\<lparr>strm_error := 0\<rparr> = (strm (conns w c))\<lparr>strm_error := 0\<rparr>"
    by (simp add: conn_quiet_def)
  show "strm_fd (strm (conns w' c)) = strm_fd (strm (conns w c))"
    using arg_cong [OF s, of strm_fd] by simp
  show "bubble_up (strm (conns w' c)) = bubble_up (strm (conns w c))"
    using arg_cong [OF s, of bubble_up] by simp
  show "strm_token (strm (conns w' c)) = strm_token (strm (conns w c))"
    using arg_cong [OF s, of strm_token] by simp
qed (use assms in \<open>simp_all add: quiet_def conn_quiet_def\<close>)

lemma quiet_bits:
  assumes "quiet w w'"
  shows "f AND CHAT_SOFT_QUIT = 0 \<Longrightarrow> has (cstate (conns w' c)) f \<longleftrightarrow> has (cstate (conns w c)) f"
    and "has (cstate (conns w c)) f \<Longrightarrow> has (cstate (conns w' c)) f"
proof -
  have "cstate (conns w' c) = cstate (conns w c) \<or> cstate (conns w' c) = cstate (conns w c) OR CHAT_SOFT_QUIT"
    using assms by (simp add: quiet_def conn_quiet_def)
  then show "f AND CHAT_SOFT_QUIT = 0 \<Longrightarrow> has (cstate (conns w' c)) f \<longleftrightarrow> has (cstate (conns w c)) f"
    "has (cstate (conns w c)) f \<Longrightarrow> has (cstate (conns w' c)) f"
    by (auto simp: has_def [of CHAT_SOFT_QUIT] and.commute)
qed

lemma quiet_world:
  assumes "quiet w w'"
  shows "chat_factory w' = chat_factory w" "room_factory w' = room_factory w" "zombie_list w' = zombie_list w"
    "lazy_data w' = lazy_data w" "gear w' = gear w" "greet_on_login w' = greet_on_login w"
    "chat_module_is_quiting w' = chat_module_is_quiting w" "grows (pipe w) (pipe w')"
  using assms by (auto simp: quiet_def)

lemma upd_conn_apply [simp]: "conns (upd_conn c f w) d = (if d = c then f (conns w c) else conns w d)"
  by (simp add: upd_conn_def)

lemma upd_conn_world [simp]:
  "chat_factory (upd_conn c f w) = chat_factory w" "room_factory (upd_conn c f w) = room_factory w"
  "zombie_list (upd_conn c f w) = zombie_list w" "lazy_data (upd_conn c f w) = lazy_data w"
  "gear (upd_conn c f w) = gear w" "greet_on_login (upd_conn c f w) = greet_on_login w"
  "chat_module_is_quiting (upd_conn c f w) = chat_module_is_quiting w" "pipe (upd_conn c f w) = pipe w"
  "outside (upd_conn c f w) = outside w"
  by (simp_all add: upd_conn_def)

lemma set_bits_simps [simp]:
  "strm (set_bits b x) = strm x" "cstate (set_bits b x) = cstate x OR b" "chat_name (set_bits b x) = chat_name x"
  "request (set_bits b x) = request x" "on_response_callback (set_bits b x) = on_response_callback x"
  "callback_data (set_bits b x) = callback_data x" "quited_at (set_bits b x) = quited_at x"
  "strm (clear_bits b x) = strm x" "cstate (clear_bits b x) = cstate x AND NOT b" "chat_name (clear_bits b x) = chat_name x"
  "request (clear_bits b x) = request x" "on_response_callback (clear_bits b x) = on_response_callback x"
  "callback_data (clear_bits b x) = callback_data x" "quited_at (clear_bits b x) = quited_at x"
  by (simp_all add: set_bits_def clear_bits_def)

lemma nonblock_stream:
  assumes "default_streamio_send_nonblock V s content flag o1 = (r, s', o2)"
  shows "s'\<lparr>strm_error := 0\<rparr> = s\<lparr>strm_error := 0\<rparr>"
  using assms by (auto simp: default_streamio_send_nonblock_def split: option.splits if_splits prod.splits)

lemma send_quiet [simp]: "quiet w (send E c content flags w)"
proof -
  obtain r s' o2 where s: "default_streamio_send_nonblock (streams E) (strm (conns w c)) content flags (outside w) = (r, s', o2)"
    by (cases "default_streamio_send_nonblock (streams E) (strm (conns w c)) content flags (outside w)") auto
  show ?thesis
    using nonblock_stream [OF s] by (simp add: default_chat_send_def quiet_def s Let_def conn_quiet_def)
qed

lemma on_pipe_quiet:
  assumes "on_pipe f w = Inr w'" and "appending f"
  shows "quiet w w'" and "conns w' = conns w" and "outside w' = outside w"
  using assms by (auto simp: on_pipe_def quiet_def ebind_Inr_iff appending_def)

lemma set_user_count_quiet:
  assumes "chat_room_set_user_count E nm n d w = Inr (r, w')"
  shows "quiet w w'" and "conns w' = conns w" and "outside w' = outside w"
  using assms by (auto dest: on_pipe_quiet simp: chat_room_set_user_count_def ebind_Inr_iff split: if_splits)

lemma get_pid_quiet:
  assumes "chat_room_get_pid E nm token hook w = Inr (r, w')"
  shows "quiet w w'" and "conns w' = conns w" and "outside w' = outside w"
  using assms by (auto dest: on_pipe_quiet simp: chat_room_get_pid_def ebind_Inr_iff split: if_splits)

lemma try_login_quiet:
  assumes "async_try_login E nm token hook w = Inr (r, w')"
  shows "quiet w w'" and "conns w' = conns w" and "outside w' = outside w"
  using assms by (auto dest: on_pipe_quiet simp: async_try_login_def ebind_Inr_iff Let_def split: if_splits)

lemma logoff_result:
  assumes "logoff_user E c w = Inr (r, w')"
  shows "\<exists>w1. quiet w w1 \<and> conns w1 = conns w \<and> outside w1 = outside w \<and>
    w' = (if t_len (chat_name (conns w c)) = 0 then w1 else upd_conn c (clear_bits CHAT_LOGGED_IN) w1)"
proof (cases "t_len (chat_name (conns w c)) = 0")
  case True
  then show ?thesis using assms by (auto simp: logoff_user_def)
next
  case False
  then obtain w1 where "on_pipe (async_db_unset (lib E) (send_fails E) (my_pid E) (master_pid E) (-1) None
        (build_name_key (lib E) (chat_name (conns w c)) (aroop_txt_stackbuffer (lib E) 128))) w = Inr w1"
      "w' = upd_conn c (clear_bits CHAT_LOGGED_IN) w1"
    using assms by (auto simp: logoff_user_def Let_def ebind_Inr_iff)
  then show ?thesis using False on_pipe_quiet [OF _ appending_calls(3)] by metis
qed

text \<open>The process can reach the master, and the library is as the code expects it.\<close>

definition ready :: "'w chat_env \<Rightarrow> 'w chat_world \<Rightarrow> bool" where
  "ready E w \<longleftrightarrow> aroop_ok (lib E) \<and> pools_ok E \<and> master_pid E \<noteq> 0 \<and> node_index (master_pid E) (pipe w) \<noteq> None"

lemma ready_quiet: "ready E w \<Longrightarrow> grows (pipe w) (pipe w') \<Longrightarrow> ready E w'"
  by (simp add: ready_def grows_nodes)

definition good_name :: "aroop_txt_t \<Rightarrow> bool" where
  "good_name x \<longleftrightarrow> wf_txt x \<and> 0 < t_len x \<and> t_len x \<le> 100"

lemma set_user_count_total:
  assumes "ready E w" and "good_name nm"
  shows "\<exists>w'. chat_room_set_user_count E nm n d w = Inr (0, w')"
proof -
  obtain i where i: "node_index (master_pid E) (pipe w) = Some i" using assms(1) by (auto simp: ready_def)
  have A: "aroop_ok (lib E)" "master_pid E \<noteq> 0" using assms(1) by (simp_all add: ready_def)
  have "t_len (room_key (lib E) ROOM_USER_KEY nm) \<noteq> 0"
    using room_key_props(3) [OF A(1), of nm ROOM_USER_KEY] assms(2) by (simp add: good_name_def ROOM_USER_KEY_def)
  from increment_total [OF A(1) i A(2) this]
  obtain s where "async_db_increment (lib E) (send_fails E) (my_pid E) (master_pid E) (-1) None
      (room_key (lib E) ROOM_USER_KEY nm) n d (pipe w) = Inr (0, s)" by blast
  then show ?thesis using assms(2) by (simp add: chat_room_set_user_count_def good_name_def on_pipe_def)
qed

lemma logoff_total:
  assumes "ready E w" and "wf_txt (chat_name (conns w c))" and "t_len (chat_name (conns w c)) \<le> 100"
  shows "\<exists>r w'. logoff_user E c w = Inr (r, w')"
proof -
  obtain i where i: "node_index (master_pid E) (pipe w) = Some i" using assms(1) by (auto simp: ready_def)
  let ?k = "build_name_key (lib E) (chat_name (conns w c)) (aroop_txt_stackbuffer (lib E) 128)"
  have A: "aroop_ok (lib E)" "master_pid E \<noteq> 0" using assms(1) by (simp_all add: ready_def)
  have "t_len ?k \<noteq> 0" using name_key_props(3) [OF A(1) assms(2)] assms(3) by simp
  from unset_total [OF A(1) i A(2) this]
  obtain s where "async_db_unset (lib E) (send_fails E) (my_pid E) (master_pid E) (-1) None ?k (pipe w) = Inr (0, s)" by blast
  then show ?thesis by (simp add: logoff_user_def on_pipe_def Let_def)
qed

end
