(* ===== verification/ChatRooms.thy ===== *)
theory ChatRooms
  imports ChatState
begin

text \<open>
  Chat rooms, \<open>apps/chat/src/broadcast.c\<close>: messages to the members of a room, joining, leaving and
  adding rooms. The \<open>goto\<close>-like \<open>do ... while(0)\<close> of the code is the nesting of the branches; the
  pointer \<open>callback_data\<close> to a room is the index of the room. A send changes no list, so a loop over
  \<open>user_list\<close> that sends runs over the list as it was when the loop began.
\<close>

section \<open>Code\<close>

definition the_room :: "nat \<Rightarrow> 'w chat_world \<Rightarrow> internal_room" where
  "the_room r w = room_factory w ! r"

definition upd_users :: "nat \<Rightarrow> (nat list \<Rightarrow> nat list) \<Rightarrow> 'w chat_world \<Rightarrow> 'w chat_world" where
  "upd_users r f w =
     w\<lparr>room_factory := (room_factory w)[r := (the_room r w)\<lparr>user_list := f (user_list (the_room r w))\<rparr>]\<rparr>"

fun private_loop ::
    "'w chat_env \<Rightarrow> aroop_txt_t \<Rightarrow> aroop_txt_t \<Rightarrow> nat list \<Rightarrow> 'w chat_world \<Rightarrow> 'w chat_world" where
  "private_loop E to msg [] w = w"
| "private_loop E to msg (other # us) w =
     (if \<not> aroop_txt_equals (lib E) to (chat_name (conns w other)) then private_loop E to msg us w
      else send E other msg 0 w)"

definition broadcast_private_message ::
    "'w chat_env \<Rightarrow> nat \<Rightarrow> aroop_txt_t \<Rightarrow> aroop_txt_t \<Rightarrow> 'w chat_world \<Rightarrow> int \<times> 'w chat_world" where
  "broadcast_private_message E chat to msg w =
     (case callback_data (conns w chat) of
        None \<Rightarrow> (0, w)
      | Some rm \<Rightarrow> (0, private_loop E to msg (user_list (the_room rm w)) w))"

fun broadcast_loop ::
    "'w chat_env \<Rightarrow> nat option \<Rightarrow> aroop_txt_t \<Rightarrow> nat list \<Rightarrow> 'w chat_world \<Rightarrow> 'w chat_world" where
  "broadcast_loop E chat msg [] w = w"
| "broadcast_loop E chat msg (other # us) w =
     (if chat = Some other then broadcast_loop E chat msg us w
      else broadcast_loop E chat msg us (send E other msg 0 w))"

definition broadcast_callback_helper ::
    "'w chat_env \<Rightarrow> nat option \<Rightarrow> nat \<Rightarrow> aroop_txt_t \<Rightarrow> 'w chat_world \<Rightarrow> int \<times> 'w chat_world" where
  "broadcast_callback_helper E chat rm msg w = (0, broadcast_loop E chat msg (user_list (the_room rm w)) w)"

definition broadcast_text :: "aroop \<Rightarrow> aroop_txt_t \<Rightarrow> aroop_txt_t \<Rightarrow> aroop_txt_t" where
  "broadcast_text A nm msg =
     (let resp = aroop_txt_stackbuffer A (NGINZ_MAX_CHAT_USER_NAME_SIZE + NGINZ_MAX_CHAT_MSG_SIZE)
      in aroop_txt_concat A (aroop_txt_concat_char A (aroop_txt_concat A resp nm) 58) msg)"

definition broadcast_callback :: "'w chat_env \<Rightarrow> nat \<Rightarrow> aroop_txt_t \<Rightarrow> 'w chat_world \<Rightarrow> int \<times> 'w chat_world" where
  "broadcast_callback E chat msg w =
     (case callback_data (conns w chat) of
        None \<Rightarrow> (-1, w)
      | Some rm \<Rightarrow> broadcast_callback_helper E (Some chat) rm (broadcast_text (lib E) (chat_name (conns w chat)) msg) w)"

fun greet_loop :: "'w chat_env \<Rightarrow> nat \<Rightarrow> aroop_txt_t \<Rightarrow> nat list \<Rightarrow> 'w chat_world \<Rightarrow> aroop_txt_t \<times> 'w chat_world" where
  "greet_loop E chat resp [] w = (resp, w)"
| "greet_loop E chat resp (other # us) w =
     (let A = lib E;
          r1 = aroop_txt_concat_char A (aroop_txt_set_length A resp 0) 9;
          r2 = aroop_txt_concat_char A (aroop_txt_concat_char A r1 42) 32;
          r3 = aroop_txt_concat A r2 (chat_name (conns w other));
          r4 = (if chat = other then aroop_txt_concat_string A r3 (lit ''(** this is you)'') else r3);
          r5 = aroop_txt_concat_char A r4 10
      in greet_loop E chat r5 us (send E chat r5 MSG_MORE w))"

definition broadcast_room_greet :: "'w chat_env \<Rightarrow> nat \<Rightarrow> nat \<Rightarrow> 'w chat_world \<Rightarrow> int \<times> 'w chat_world" where
  "broadcast_room_greet E chat rm w =
     (let A = lib E;
          r1 = aroop_txt_concat_string A (aroop_txt_stackbuffer A 1024) (lit ''Entering room:'');
          r2 = aroop_txt_concat_char A (aroop_txt_concat A r1 (room_name (the_room rm w))) 10;
          w1 = send E chat r2 MSG_MORE w;
          (r3, w2) = greet_loop E chat r2 (user_list (the_room rm w1)) w1;
          r4 = aroop_txt_concat_string A (aroop_txt_set_length A r3 0) (lit ''end of list'' @ [10]);
          w3 = send E chat r4 0 w2;
          r5 = aroop_txt_concat_string A (aroop_txt_set_length A r4 0) (9 # lit ''* user joined chat:'');
          r6 = aroop_txt_concat_char A (aroop_txt_concat A r5 (chat_name (conns w3 chat))) 10
      in (0, snd (broadcast_callback_helper E (Some chat) rm r6 w3)))"

definition broadcast_room_bye :: "'w chat_env \<Rightarrow> nat \<Rightarrow> nat \<Rightarrow> 'w chat_world \<Rightarrow> int \<times> 'w chat_world" where
  "broadcast_room_bye E chat rm w =
     (let A = lib E;
          r1 = aroop_txt_concat_string A (aroop_txt_stackbuffer A 1024) (9 # lit ''* user has left chat:'');
          r2 = aroop_txt_concat_char A (aroop_txt_concat A r1 (chat_name (conns w chat))) 10
      in (0, snd (broadcast_callback_helper E None rm r2 w)))"

definition broadcast_room_send_join_failed :: "'w chat_env \<Rightarrow> nat \<Rightarrow> 'w chat_world \<Rightarrow> int \<times> 'w chat_world" where
  "broadcast_room_send_join_failed E chat w =
     (0, send E chat (aroop_txt_static_string (lib E) (lit ''Sorry, room is full'' @ [10])) 0 w)"

definition broadcast_room_leave :: "'w chat_env \<Rightarrow> nat \<Rightarrow> 'w chat_world \<Rightarrow> (int \<times> 'w chat_world) exec" where
  "broadcast_room_leave E chat w =
     (case callback_data (conns w chat) of
        None \<Rightarrow> Inr (0, w)
      | Some rm \<Rightarrow>
          ebind (aroop_assert (lib E) (has (cstate (conns w chat)) CHAT_IN_ROOM)) (\<lambda>_.
          let w1 = snd (broadcast_room_bye E chat rm w);
              w2 = upd_users rm (remove1 chat) w1;
              w3 = upd_conn chat (\<lambda>x. clear_bits CHAT_IN_ROOM (x\<lparr>callback_data := None, on_response_callback := None\<rparr>)) w2
          in ebind (chat_room_set_user_count E (room_name (the_room rm w3))
                     (of_nat (length (user_list (the_room rm w3))) + 1) (-1) w3) (\<lambda>(_, w4). Inr (0, w4))))"

definition enter_room :: "'w chat_env \<Rightarrow> nat \<Rightarrow> nat \<Rightarrow> 'w chat_world \<Rightarrow> 'w chat_world" where
  "enter_room E chat rm w =
     upd_conn chat (\<lambda>x. set_bits CHAT_IN_ROOM (x\<lparr>callback_data := Some rm, on_response_callback := Some Broadcast\<rparr>))
       (upd_users rm (opp_list_add E chat) w)"

definition broadcast_room_join :: "'w chat_env \<Rightarrow> nat \<Rightarrow> aroop_txt_t \<Rightarrow> 'w chat_world \<Rightarrow> (int \<times> 'w chat_world) exec" where
  "broadcast_room_join E chat nm w =
     (if \<not> has (cstate (conns w chat)) CHAT_LOGGED_IN then Inr (-1, w)
      else
        (case opp_search_room E nm (room_factory w) of
           None \<Rightarrow> Inr (-1, w)
         | Some rm \<Rightarrow>
             if NGINZ_MAX_CHAT_ROOM_USER \<le> length (user_list (the_room rm w))
             then Inr (-1, snd (broadcast_room_send_join_failed E chat w))
             else
               ebind (if callback_data (conns w chat) = Some rm
                      then ebind (aroop_assert (lib E) (has (cstate (conns w chat)) CHAT_IN_ROOM)) (\<lambda>_. Inr w)
                      else
                        ebind (if callback_data (conns w chat) \<noteq> None
                               then ebind (aroop_assert (lib E) (has (cstate (conns w chat)) CHAT_IN_ROOM)) (\<lambda>_.
                                    ebind (broadcast_room_leave E chat w) (\<lambda>(_, w1). Inr w1))
                               else Inr w) (\<lambda>w1.
                        ebind (aroop_assert (lib E) (callback_data (conns w1 chat) = None)) (\<lambda>_.
                        Inr (enter_room E chat rm w1)))) (\<lambda>w2.
               case callback_data (conns w2 chat) of
                 None \<Rightarrow> ebind (aroop_assert (lib E) False) (\<lambda>_. Inl NullDeref)
               | Some rm' \<Rightarrow>
                   (let w3 = snd (broadcast_room_greet E chat rm' w2);
                        oldcount = of_nat (length (user_list (the_room rm' w3))) - 1
                    in ebind (chat_room_set_user_count E (room_name (the_room rm' w3)) oldcount 1 w3)
                         (\<lambda>(_, w4). Inr (0, w4))))))"

definition broadcast_add_room :: "'w chat_env \<Rightarrow> aroop_txt_t \<Rightarrow> 'w chat_world \<Rightarrow> int \<times> 'w chat_world" where
  "broadcast_add_room E nm w =
     (if list_ex (\<lambda>rm. aroop_txt_equals (lib E) nm (room_name rm)) (room_factory w) then (0, w)
      else (0, w\<lparr>room_factory := room_factory w @ [\<lparr>room_name = aroop_txt_copy_deep (lib E) nm, user_list = []\<rparr>]\<rparr>))"

section \<open>Sends are quiet\<close>

lemma private_loop_quiet [simp]: "quiet w (private_loop E to msg us w)"
  by (induction us arbitrary: w) auto

lemma broadcast_loop_quiet [simp]: "quiet w (broadcast_loop E chat msg us w)"
  by (induction us arbitrary: w) (auto intro: quiet_trans [OF send_quiet])

lemma greet_loop_quiet [simp]: "quiet w (snd (greet_loop E chat resp us w))"
  by (induction us arbitrary: w resp) (auto simp: Let_def intro: quiet_trans [OF send_quiet])

lemma helper_quiet [simp]: "quiet w (snd (broadcast_callback_helper E chat rm msg w))"
  by (simp add: broadcast_callback_helper_def)

lemma broadcasts_quiet [simp]:
  "quiet w (snd (broadcast_private_message E chat to msg w))"
  "quiet w (snd (broadcast_callback E chat msg w))"
  "quiet w (snd (broadcast_room_bye E chat rm w))"
  "quiet w (snd (broadcast_room_send_join_failed E chat w))"
  by (simp_all add: broadcast_private_message_def broadcast_callback_def broadcast_room_bye_def Let_def
      broadcast_room_send_join_failed_def split: option.splits)

lemma greet_quiet [simp]: "quiet w (snd (broadcast_room_greet E chat rm w))"
  unfolding broadcast_room_greet_def Let_def case_prod_beta snd_conv
  by (rule quiet_trans [OF _ helper_quiet], rule quiet_trans [OF _ send_quiet],
      rule quiet_trans [OF _ greet_loop_quiet], rule send_quiet)

section \<open>The membership invariant\<close>

text \<open>Every connection is in at most one room, the one its \<open>callback_data\<close> names, exactly once in that
  room's list; no room holds more than the limit, nor an object that is not alive.\<close>

definition rooms_ok :: "'w chat_world \<Rightarrow> bool" where
  "rooms_ok w \<longleftrightarrow>
     (\<forall>c r. callback_data (conns w c) = Some r \<longleftrightarrow> r < length (room_factory w) \<and> c \<in> set (user_list (the_room r w))) \<and>
     (\<forall>c. has (cstate (conns w c)) CHAT_IN_ROOM \<longleftrightarrow> callback_data (conns w c) \<noteq> None) \<and>
     (\<forall>c. on_response_callback (conns w c) = Some Broadcast \<longrightarrow> callback_data (conns w c) \<noteq> None) \<and>
     (\<forall>r < length (room_factory w). distinct (user_list (the_room r w)) \<and>
        length (user_list (the_room r w)) \<le> NGINZ_MAX_CHAT_ROOM_USER \<and>
        set (user_list (the_room r w)) \<subseteq> set (chat_factory w))"

definition members :: "'w chat_world \<Rightarrow> (nat \<rightharpoonup> nat)" where
  "members w = (\<lambda>c. callback_data (conns w c))"

lemma rooms_okD:
  assumes "rooms_ok w"
  shows "callback_data (conns w c) = Some r \<longleftrightarrow> r < length (room_factory w) \<and> c \<in> set (user_list (the_room r w))"
    and "has (cstate (conns w c)) CHAT_IN_ROOM \<longleftrightarrow> callback_data (conns w c) \<noteq> None"
    and "r < length (room_factory w) \<Longrightarrow> distinct (user_list (the_room r w))"
    and "r < length (room_factory w) \<Longrightarrow> length (user_list (the_room r w)) \<le> NGINZ_MAX_CHAT_ROOM_USER"
    and "r < length (room_factory w) \<Longrightarrow> set (user_list (the_room r w)) \<subseteq> set (chat_factory w)"
    and "on_response_callback (conns w c) = Some Broadcast \<Longrightarrow> callback_data (conns w c) \<noteq> None"
  using assms unfolding rooms_ok_def by blast+

lemma rooms_ok_cong:
  assumes "rooms_ok w" and "room_factory w' = room_factory w" and "chat_factory w' = chat_factory w"
    and "\<And>c. callback_data (conns w' c) = callback_data (conns w c)"
    and "\<And>c. has (cstate (conns w' c)) CHAT_IN_ROOM \<longleftrightarrow> has (cstate (conns w c)) CHAT_IN_ROOM"
    and "\<And>c. on_response_callback (conns w' c) = Some Broadcast \<Longrightarrow> on_response_callback (conns w c) = Some Broadcast"
  shows "rooms_ok w'"
proof -
  have "on_response_callback (conns w' c) = Some Broadcast \<longrightarrow> callback_data (conns w' c) \<noteq> None" for c
    using rooms_okD(6) [OF assms(1)] assms(4,6) by auto
  then show ?thesis using assms(1) unfolding rooms_ok_def the_room_def assms(2-5) by blast
qed

lemma flag_soft [simp]: "CHAT_IN_ROOM AND CHAT_SOFT_QUIT = 0" "CHAT_LOGGED_IN AND CHAT_SOFT_QUIT = 0"
  "CHAT_QUIT AND CHAT_SOFT_QUIT = 0" "CHAT_ZOMBIE AND CHAT_SOFT_QUIT = 0"
  by (simp_all add: chat_flags)

lemma rooms_ok_quiet: "quiet w w' \<Longrightarrow> rooms_ok w \<Longrightarrow> rooms_ok w'"
  by (rule rooms_ok_cong) (simp_all add: quiet_conn quiet_world quiet_bits)

lemma members_quiet: "quiet w w' \<Longrightarrow> members w' = members w"
  by (simp add: members_def quiet_conn)

lemma upd_users_world [simp]:
  "conns (upd_users r f w) = conns w" "chat_factory (upd_users r f w) = chat_factory w"
  "zombie_list (upd_users r f w) = zombie_list w" "lazy_data (upd_users r f w) = lazy_data w"
  "gear (upd_users r f w) = gear w" "greet_on_login (upd_users r f w) = greet_on_login w"
  "chat_module_is_quiting (upd_users r f w) = chat_module_is_quiting w" "pipe (upd_users r f w) = pipe w"
  "outside (upd_users r f w) = outside w" "length (room_factory (upd_users r f w)) = length (room_factory w)"
  by (simp_all add: upd_users_def)

lemma the_room_upd [simp]:
  "r < length (room_factory w) \<Longrightarrow> the_room q (upd_users r f w) =
     (if q = r then (the_room r w)\<lparr>user_list := f (user_list (the_room r w))\<rparr> else the_room q w)"
  by (simp add: the_room_def upd_users_def)

lemma the_room_conn [simp]: "the_room r (upd_conn c f w) = the_room r w"
  by (simp add: the_room_def)

lemma members_upd [simp]:
  "members (upd_conn c f w) = (members w)(c := callback_data (f (conns w c)))" "members (upd_users r g w) = members w"
  by (auto simp: members_def)

lemma leave_step:
  assumes "rooms_ok w" and "callback_data (conns w c) = Some r"
  shows "rooms_ok (upd_conn c (\<lambda>x. clear_bits CHAT_IN_ROOM (x\<lparr>callback_data := None, on_response_callback := None\<rparr>))
    (upd_users r (remove1 c) w))" (is "rooms_ok ?w")
proof -
  note I = rooms_okD [OF assms(1)]
  have r: "r < length (room_factory w)" "c \<in> set (user_list (the_room r w))" using I(1) assms(2) by auto
  have other: "c \<notin> set (user_list (the_room q w))" if "q < length (room_factory w)" "q \<noteq> r" for q
    using I(1) [of c q] assms(2) that by auto
  have "callback_data (conns ?w d) = Some q \<longleftrightarrow> q < length (room_factory ?w) \<and> d \<in> set (user_list (the_room q ?w))" for d q
    using I(1) [of d q] I(3) [OF r(1)] other [of q] r by (cases "d = c"; cases "q = r") auto
  moreover have "on_response_callback (conns ?w d) = Some Broadcast \<longrightarrow> callback_data (conns ?w d) \<noteq> None" for d
    using I(6) [of d] by auto
  moreover have "distinct (user_list (the_room q ?w)) \<and> length (user_list (the_room q ?w)) \<le> NGINZ_MAX_CHAT_ROOM_USER \<and>
      set (user_list (the_room q ?w)) \<subseteq> set (chat_factory ?w)" if "q < length (room_factory ?w)" for q
    using that I(3-5) [of q] r(1) by (auto simp: length_remove1 dest: notin_set_remove1)
  moreover have "has (cstate (conns ?w d)) CHAT_IN_ROOM \<longleftrightarrow> callback_data (conns ?w d) \<noteq> None" for d
    using I(2) [of d] by simp
  ultimately show ?thesis unfolding rooms_ok_def by blast
qed

lemma enter_step:
  assumes "rooms_ok w" and "pools_ok E" and "callback_data (conns w c) = None" and "r < length (room_factory w)"
    and "length (user_list (the_room r w)) < NGINZ_MAX_CHAT_ROOM_USER" and "c \<in> set (chat_factory w)"
  shows "rooms_ok (enter_room E c r w)" (is "rooms_ok ?w")
proof -
  note I = rooms_okD [OF assms(1)]
  have m: "mset (opp_list_add E c xs) = add_mset c (mset xs)" for xs using assms(2) by (simp add: pools_ok_def)
  have s: "set (opp_list_add E c xs) = insert c (set xs)" "length (opp_list_add E c xs) = Suc (length xs)" for xs
    using arg_cong [OF m [of xs], of set_mset] arg_cong [OF m [of xs], of size] by simp_all
  have none: "c \<notin> set (user_list (the_room q w))" if "q < length (room_factory w)" for q
    using I(1) [of c q] assms(3) that by auto
  have d: "distinct (opp_list_add E c (user_list (the_room r w)))"
    using I(3) [OF assms(4)] none [OF assms(4)] m [of "user_list (the_room r w)"]
    by (metis distinct.simps(2) mset.simps(2) mset_eq_imp_distinct_iff)
  have "callback_data (conns ?w e) = Some q \<longleftrightarrow> q < length (room_factory ?w) \<and> e \<in> set (user_list (the_room q ?w))" for e q
    using I(1) [of e q] none [of q] assms(4) by (cases "e = c"; cases "q = r") (auto simp: enter_room_def s)
  moreover have "on_response_callback (conns ?w e) = Some Broadcast \<longrightarrow> callback_data (conns ?w e) \<noteq> None" for e
    using I(6) [of e] by (auto simp: enter_room_def)
  moreover have "distinct (user_list (the_room q ?w)) \<and> length (user_list (the_room q ?w)) \<le> NGINZ_MAX_CHAT_ROOM_USER \<and>
      set (user_list (the_room q ?w)) \<subseteq> set (chat_factory ?w)" if "q < length (room_factory ?w)" for q
    using that I(3-5) [of q] assms(4-6) d by (auto simp: enter_room_def s)
  moreover have "has (cstate (conns ?w e)) CHAT_IN_ROOM \<longleftrightarrow> callback_data (conns ?w e) \<noteq> None" for e
    using I(2) [of e] by (simp add: enter_room_def)
  ultimately show ?thesis unfolding rooms_ok_def by blast
qed

text \<open>What leaving and joining a room leave as it is.\<close>

definition conn_calm :: "chat_connection \<Rightarrow> chat_connection \<Rightarrow> bool" where
  "conn_calm x y \<longleftrightarrow> (strm y)\<lparr>strm_error := 0\<rparr> = (strm x)\<lparr>strm_error := 0\<rparr> \<and>
     chat_name y = chat_name x \<and> request y = request x \<and> quited_at y = quited_at x \<and>
     (\<forall>f \<in> {CHAT_LOGGED_IN, CHAT_QUIT, CHAT_ZOMBIE}. has (cstate y) f \<longleftrightarrow> has (cstate x) f) \<and>
     (has (cstate x) CHAT_SOFT_QUIT \<longrightarrow> has (cstate y) CHAT_SOFT_QUIT)"

definition calm :: "'w chat_world \<Rightarrow> 'w chat_world \<Rightarrow> bool" where
  "calm w w' \<longleftrightarrow> (\<forall>c. conn_calm (conns w c) (conns w' c)) \<and> grows (pipe w) (pipe w') \<and>
     chat_factory w' = chat_factory w \<and> map room_name (room_factory w') = map room_name (room_factory w) \<and>
     zombie_list w' = zombie_list w \<and> lazy_data w' = lazy_data w \<and> gear w' = gear w \<and>
     greet_on_login w' = greet_on_login w \<and> chat_module_is_quiting w' = chat_module_is_quiting w"

lemma quiet_calm: "quiet w w' \<Longrightarrow> calm w w'"
  unfolding calm_def conn_calm_def
  by (intro conjI allI ballI) (auto simp: quiet_conn quiet_world quiet_bits intro: quiet_bits(2), simp add: quiet_def conn_quiet_def)

lemma calm_trans: "calm a b \<Longrightarrow> calm b c \<Longrightarrow> calm a c"
  unfolding calm_def conn_calm_def by (elim conjE) (auto intro: grows_trans)

lemma calm_world:
  assumes "calm w w'"
  shows "chat_factory w' = chat_factory w" "zombie_list w' = zombie_list w" "lazy_data w' = lazy_data w"
    "gear w' = gear w" "greet_on_login w' = greet_on_login w" "chat_module_is_quiting w' = chat_module_is_quiting w"
    "grows (pipe w) (pipe w')" "map room_name (room_factory w') = map room_name (room_factory w)"
    "length (room_factory w') = length (room_factory w)"
  using assms by (auto simp: calm_def dest: map_eq_imp_length_eq)

lemma calm_conn:
  assumes "calm w w'"
  shows "chat_name (conns w' c) = chat_name (conns w c)" "request (conns w' c) = request (conns w c)"
    "quited_at (conns w' c) = quited_at (conns w c)"
    "has (cstate (conns w' c)) CHAT_LOGGED_IN \<longleftrightarrow> has (cstate (conns w c)) CHAT_LOGGED_IN"
    "has (cstate (conns w' c)) CHAT_QUIT \<longleftrightarrow> has (cstate (conns w c)) CHAT_QUIT"
    "has (cstate (conns w' c)) CHAT_ZOMBIE \<longleftrightarrow> has (cstate (conns w c)) CHAT_ZOMBIE"
    "has (cstate (conns w c)) CHAT_SOFT_QUIT \<Longrightarrow> has (cstate (conns w' c)) CHAT_SOFT_QUIT"
    "strm_fd (strm (conns w' c)) = strm_fd (strm (conns w c))"
    "bubble_up (strm (conns w' c)) = bubble_up (strm (conns w c))"
    "strm_token (strm (conns w' c)) = strm_token (strm (conns w c))"
proof -
  have q: "conn_calm (conns w c) (conns w' c)" using assms by (simp add: calm_def)
  then have s: "(strm (conns w' c))\<lparr>strm_error := 0\<rparr> = (strm (conns w c))\<lparr>strm_error := 0\<rparr>"
    by (simp add: conn_calm_def)
  show "strm_fd (strm (conns w' c)) = strm_fd (strm (conns w c))"
    using arg_cong [OF s, of strm_fd] by simp
  show "bubble_up (strm (conns w' c)) = bubble_up (strm (conns w c))"
    using arg_cong [OF s, of bubble_up] by simp
  show "strm_token (strm (conns w' c)) = strm_token (strm (conns w c))"
    using arg_cong [OF s, of strm_token] by simp
qed (use assms in \<open>simp_all add: calm_def conn_calm_def\<close>)

section \<open>Leaving and joining\<close>

lemma calm_leave_step:
  "r < length (room_factory w) \<Longrightarrow> calm w (upd_conn c (\<lambda>x. clear_bits CHAT_IN_ROOM (x\<lparr>callback_data := None, on_response_callback := None\<rparr>))
    (upd_users r f w))"
  by (simp add: calm_def conn_calm_def) (simp add: upd_users_def the_room_def map_update list_update_same_conv)

lemma calm_enter_step: "r < length (room_factory w) \<Longrightarrow> calm w (enter_room E c r w)"
  by (simp add: calm_def conn_calm_def enter_room_def) (simp add: upd_users_def the_room_def map_update list_update_same_conv)

lemma leave_result:
  assumes "rooms_ok w" and "broadcast_room_leave E c w = Inr (r, w')"
  shows "rooms_ok w' \<and> calm w w' \<and> members w' = (members w)(c := None) \<and> r = 0"
proof (cases "callback_data (conns w c)")
  case None
  moreover have "(members w)(c := None) = members w" using None by (auto simp: members_def)
  ultimately show ?thesis using assms by (simp add: broadcast_room_leave_def quiet_calm)
next
  case (Some rm)
  let ?w1 = "snd (broadcast_room_bye E c rm w)"
  let ?w3 = "upd_conn c (\<lambda>x. clear_bits CHAT_IN_ROOM (x\<lparr>callback_data := None, on_response_callback := None\<rparr>))
    (upd_users rm (remove1 c) ?w1)"
  have q: "quiet w ?w1" by simp
  have ok: "rooms_ok ?w1" "callback_data (conns ?w1 c) = Some rm"
    using rooms_ok_quiet [OF q assms(1)] quiet_conn(4) [OF q] Some by simp_all
  have rm: "rm < length (room_factory ?w1)" using rooms_okD(1) [OF ok(1)] ok(2) by blast
  have m: "members ?w3 = (members w)(c := None)" using members_quiet [OF q] by simp
  obtain r1 where "chat_room_set_user_count E (room_name (the_room rm ?w3))
        (of_nat (length (user_list (the_room rm ?w3))) + 1) (-1) ?w3 = Inr (r1, w')" "r = 0"
    using assms(2) Some by (auto simp: broadcast_room_leave_def Let_def ebind_Inr_iff)
  then have u: "quiet ?w3 w'" "r = 0" using set_user_count_quiet(1) by blast+
  have "calm w w'"
    by (rule calm_trans [OF quiet_calm [OF q] calm_trans [OF calm_leave_step [OF rm] quiet_calm [OF u(1)]]])
  then show ?thesis
    using rooms_ok_quiet [OF u(1) leave_step [OF ok]] members_quiet [OF u(1)] m u(2) by simp
qed

lemma leave_total:
  assumes "rooms_ok w" and "ready E w" and "\<forall>rm \<in> set (room_factory w). good_name (room_name rm)"
  shows "\<exists>w'. broadcast_room_leave E c w = Inr (0, w')"
proof (cases "callback_data (conns w c)")
  case None
  then show ?thesis by (simp add: broadcast_room_leave_def)
next
  case (Some rm)
  let ?w1 = "snd (broadcast_room_bye E c rm w)"
  let ?w3 = "upd_conn c (\<lambda>x. clear_bits CHAT_IN_ROOM (x\<lparr>callback_data := None, on_response_callback := None\<rparr>))
    (upd_users rm (remove1 c) ?w1)"
  have q: "quiet w ?w1" by simp
  have rm: "rm < length (room_factory w)" using rooms_okD(1) [OF assms(1)] Some by blast
  then have n: "room_name (the_room rm ?w3) = room_name (the_room rm w)"
    using quiet_world(2) [OF q] by (simp add: the_room_def upd_users_def)
  have g: "good_name (room_name (the_room rm w))" using assms(3) rm by (simp add: the_room_def)
  have "ready E ?w3" using ready_quiet [OF assms(2)] quiet_world(8) [OF q] by simp
  from set_user_count_total [OF this g, of "of_nat (length (user_list (the_room rm ?w3))) + 1" "-1"] show ?thesis
    using Some rooms_okD(2) [OF assms(1), of c] n by (auto simp: broadcast_room_leave_def Let_def)
qed

lemma user_count:
  assumes "rooms_ok w" and "r < length (room_factory w)"
  shows "length (user_list (the_room r w)) = card {d. members w d = Some r}"
proof -
  have "{d. members w d = Some r} = set (user_list (the_room r w))"
    using rooms_okD(1) [OF assms(1)] assms(2) by (auto simp: members_def)
  then show ?thesis using rooms_okD(3) [OF assms] by (simp add: distinct_card)
qed

text \<open>Whether a join is let in: logged in, the room exists here and is not full.\<close>

definition admitted :: "'w chat_env \<Rightarrow> nat \<Rightarrow> aroop_txt_t \<Rightarrow> 'w chat_world \<Rightarrow> nat option" where
  "admitted E c nm w =
     (if has (cstate (conns w c)) CHAT_LOGGED_IN then
        (case opp_search_room E nm (room_factory w) of
           None \<Rightarrow> None
         | Some r \<Rightarrow> if card {d. members w d = Some r} < NGINZ_MAX_CHAT_ROOM_USER then Some r else None)
      else None)"

lemma admitted_Some:
  assumes "rooms_ok w" and "pools_ok E" and "admitted E c nm w = Some r"
  shows "has (cstate (conns w c)) CHAT_LOGGED_IN" "opp_search_room E nm (room_factory w) = Some r" "r < length (room_factory w)"
    "length (user_list (the_room r w)) < NGINZ_MAX_CHAT_ROOM_USER"
proof -
  have a: "has (cstate (conns w c)) CHAT_LOGGED_IN" "opp_search_room E nm (room_factory w) = Some r"
    "card {d. members w d = Some r} < NGINZ_MAX_CHAT_ROOM_USER"
    using assms(3) by (auto simp: admitted_def split: if_splits option.splits)
  moreover have "r < length (room_factory w)" using assms(2) a(2) by (auto simp: pools_ok_def)
  ultimately show "has (cstate (conns w c)) CHAT_LOGGED_IN" "opp_search_room E nm (room_factory w) = Some r"
    "r < length (room_factory w)" "length (user_list (the_room r w)) < NGINZ_MAX_CHAT_ROOM_USER"
    using user_count [OF assms(1)] by simp_all
qed

lemma join_refused:
  assumes "rooms_ok w" and "pools_ok E" and "admitted E c nm w = None"
  shows "\<exists>w'. broadcast_room_join E c nm w = Inr (-1, w') \<and> quiet w w'"
proof -
  have "NGINZ_MAX_CHAT_ROOM_USER \<le> length (user_list (the_room r w))"
    if "has (cstate (conns w c)) CHAT_LOGGED_IN" "opp_search_room E nm (room_factory w) = Some r" for r
  proof -
    have "r < length (room_factory w)" using assms(2) that(2) by (auto simp: pools_ok_def)
    then show ?thesis using assms(3) that user_count [OF assms(1)] by (auto simp: admitted_def split: if_splits)
  qed
  then show ?thesis by (auto simp: broadcast_room_join_def split: option.splits)
qed

text \<open>The connection in the room, before it is greeted.\<close>

definition moved :: "'w chat_env \<Rightarrow> nat \<Rightarrow> nat \<Rightarrow> 'w chat_world \<Rightarrow> 'w chat_world exec" where
  "moved E c r w =
     (if callback_data (conns w c) = Some r then Inr w
      else if callback_data (conns w c) = None then Inr (enter_room E c r w)
      else ebind (broadcast_room_leave E c w) (\<lambda>(_, w1). Inr (enter_room E c r w1)))"

lemma moved_result:
  assumes "rooms_ok w" and "pools_ok E" and "c \<in> set (chat_factory w)" and "r < length (room_factory w)"
    and "length (user_list (the_room r w)) < NGINZ_MAX_CHAT_ROOM_USER" and "moved E c r w = Inr w'"
  shows "rooms_ok w' \<and> calm w w' \<and> members w' = (members w)(c \<mapsto> r)"
proof -
  consider "callback_data (conns w c) = Some r" | "callback_data (conns w c) = None"
    | "callback_data (conns w c) \<noteq> None" "callback_data (conns w c) \<noteq> Some r" by blast
  then show ?thesis
  proof cases
    case 1
    moreover have "(members w)(c \<mapsto> r) = members w" using 1 by (auto simp: members_def)
    ultimately show ?thesis using assms by (simp add: moved_def quiet_calm)
  next
    case 2
    then show ?thesis
      using assms enter_step [OF assms(1,2) 2 assms(4,5,3)] calm_enter_step [OF assms(4)]
      by (auto simp: moved_def enter_room_def)
  next
    case 3
    then obtain r1 w1 where w1: "broadcast_room_leave E c w = Inr (r1, w1)" "w' = enter_room E c r w1"
      using assms(6) by (auto simp: moved_def ebind_Inr_iff)
    have L: "rooms_ok w1" "calm w w1" "members w1 = (members w)(c := None)"
      using leave_result [OF assms(1) w1(1)] by simp_all
    have r: "r < length (room_factory w1)" using assms(4) calm_world(9) [OF L(2)] by simp
    have "{d. members w1 d = Some r} = {d. members w d = Some r}" using L(3) 3 by (auto simp: members_def split: if_splits)
    then have "length (user_list (the_room r w1)) < NGINZ_MAX_CHAT_ROOM_USER"
      using assms(5) user_count [OF assms(1,4)] user_count [OF L(1) r] by simp
    moreover have "callback_data (conns w1 c) = None" using fun_cong [OF L(3), of c] by (simp add: members_def)
    ultimately show ?thesis
      using enter_step [OF L(1) assms(2) _ r] assms(3) calm_world(1) [OF L(2)] calm_trans [OF L(2) calm_enter_step [OF r]] w1(2) L(3)
      by (simp add: enter_room_def)
  qed
qed

lemma enter_room_member [simp]: "callback_data (conns (enter_room E c r w) c) = Some r"
  by (simp add: enter_room_def)

lemma join_admitted:
  assumes "rooms_ok w" and "pools_ok E" and "c \<in> set (chat_factory w)" and "admitted E c nm w = Some r"
  shows "broadcast_room_join E c nm w = ebind (moved E c r w) (\<lambda>w2.
      let w3 = snd (broadcast_room_greet E c r w2)
      in ebind (chat_room_set_user_count E (room_name (the_room r w3)) (of_nat (length (user_list (the_room r w3))) - 1) 1 w3)
           (\<lambda>(_, w4). Inr (0, w4)))"
proof -
  note a = admitted_Some [OF assms(1,2,4)]
  have in_room: "has (cstate (conns w c)) CHAT_IN_ROOM" if "callback_data (conns w c) \<noteq> None"
    using rooms_okD(2) [OF assms(1)] that by blast
  consider "callback_data (conns w c) = Some r" | "callback_data (conns w c) = None"
    | q where "callback_data (conns w c) = Some q" "q \<noteq> r" by blast
  then show ?thesis
  proof cases
    case 1
    then show ?thesis using a in_room by (simp add: broadcast_room_join_def moved_def)
  next
    case 2
    then show ?thesis using a by (simp add: broadcast_room_join_def moved_def)
  next
    case 3
    show ?thesis
    proof (cases "broadcast_room_leave E c w")
      case (Inl e)
      then show ?thesis using 3 a in_room by (simp add: broadcast_room_join_def moved_def)
    next
      case (Inr x)
      then obtain r1 w1 where x: "broadcast_room_leave E c w = Inr (r1, w1)" by (cases x) auto
      have "members w1 c = None" using leave_result [OF assms(1) x] by simp
      then show ?thesis
        using 3 a in_room x by (simp add: broadcast_room_join_def moved_def members_def)
    qed
  qed
qed

lemma join_result:
  assumes "rooms_ok w" and "pools_ok E" and "c \<in> set (chat_factory w)" and "broadcast_room_join E c nm w = Inr (r, w')"
  shows "rooms_ok w' \<and> calm w w' \<and>
    members w' = (case admitted E c nm w of None \<Rightarrow> members w | Some q \<Rightarrow> (members w)(c \<mapsto> q))"
proof (cases "admitted E c nm w")
  case None
  then have "quiet w w'" using join_refused [OF assms(1,2) None] assms(4) by auto
  then show ?thesis using None assms(1) by (simp add: rooms_ok_quiet quiet_calm members_quiet)
next
  case (Some q)
  note a = admitted_Some [OF assms(1,2) Some]
  obtain w2 where w2: "moved E c q w = Inr w2"
    and u: "(let w3 = snd (broadcast_room_greet E c q w2)
      in ebind (chat_room_set_user_count E (room_name (the_room q w3)) (of_nat (length (user_list (the_room q w3))) - 1) 1 w3)
           (\<lambda>(_, w4). Inr (0, w4))) = Inr (r, w')"
    using assms(4) unfolding join_admitted [OF assms(1-3) Some] by (elim ebind_InrE) (rule that)
  have M: "rooms_ok w2" "calm w w2" "members w2 = (members w)(c \<mapsto> q)"
    using moved_result [OF assms(1-3) a(3,4) w2] by simp_all
  have "quiet (snd (broadcast_room_greet E c q w2)) w'"
    using u by (auto simp: Let_def ebind_Inr_iff dest: set_user_count_quiet(1))
  then have "quiet w2 w'" using quiet_trans greet_quiet by blast
  then show ?thesis
    using M Some calm_trans [OF M(2)] by (simp add: rooms_ok_quiet quiet_calm members_quiet)
qed

lemma join_total:
  assumes "rooms_ok w" and "ready E w" and "\<forall>rm \<in> set (room_factory w). good_name (room_name rm)"
    and "c \<in> set (chat_factory w)"
  shows "\<exists>w'. broadcast_room_join E c nm w = Inr (if admitted E c nm w = None then -1 else 0, w')"
proof -
  have p: "pools_ok E" using assms(2) by (simp add: ready_def)
  show ?thesis
  proof (cases "admitted E c nm w")
    case None
    then show ?thesis using join_refused [OF assms(1) p None] by auto
  next
    case (Some r)
    note a = admitted_Some [OF assms(1) p Some]
    obtain w1 where "broadcast_room_leave E c w = Inr (0, w1)" using leave_total [OF assms(1-3), of c] by blast
    then have "\<exists>w2. moved E c r w = Inr w2" by (simp add: moved_def)
    then obtain w2 where w2: "moved E c r w = Inr w2" by blast
    have M: "calm w w2" using moved_result [OF assms(1) p assms(4) a(3,4) w2] by simp
    let ?w3 = "snd (broadcast_room_greet E c r w2)"
    have q: "quiet w2 ?w3" by simp
    have "map room_name (room_factory ?w3) = map room_name (room_factory w)"
      using quiet_world(2) [OF q] calm_world(8) [OF M] by simp
    moreover have "r < length (room_factory ?w3)" using quiet_world(2) [OF q] calm_world(9) [OF M] a(3) by simp
    ultimately have "room_name (the_room r ?w3) = room_name (the_room r w)"
      using a(3) by (metis nth_map the_room_def)
    then have g: "good_name (room_name (the_room r ?w3))" using assms(3) a(3) by (simp add: the_room_def)
    have "ready E ?w3" using ready_quiet [OF assms(2)] calm_world(7) [OF M] quiet_world(8) [OF q] grows_trans by blast
    from set_user_count_total [OF this g, of "of_nat (length (user_list (the_room r ?w3))) - 1" 1] show ?thesis
      unfolding join_admitted [OF assms(1) p assms(4) Some] using w2 Some by (auto simp: Let_def)
  qed
qed

section \<open>Delivery of a message\<close>

datatype target = ToFd int | ToUp nat

text \<open>An environment whose sends succeed and are recorded: to a descriptor, or to the stream above.\<close>

definition recording :: "(target \<times> bytes \<times> int) list chat_env \<Rightarrow> bool" where
  "recording E \<longleftrightarrow>
     (\<forall>f bs fl o1. sys_send (streams E) f bs fl o1 = (int (length bs), 0, o1 @ [(ToFd f, bs, fl)])) \<and>
     (\<forall>u t fl o1. up_send (streams E) u t fl o1 = (0, o1 @ [(ToUp u, str t, fl)]))"

definition receives :: "'w chat_world \<Rightarrow> nat \<Rightarrow> bool" where
  "receives w c \<longleftrightarrow> \<not> has (cstate (conns w c)) (CHAT_QUIT OR CHAT_SOFT_QUIT OR CHAT_ZOMBIE) \<and> is_valid_chat c w"

definition target_of :: "'w chat_world \<Rightarrow> nat \<Rightarrow> target" where
  "target_of w c = (case bubble_up (strm (conns w c)) of None \<Rightarrow> ToFd (strm_fd (strm (conns w c))) | Some u \<Rightarrow> ToUp u)"

lemma send_recorded:
  assumes "recording E"
  shows "outside (send E c t fl w) = outside w @ (if receives w c then [(target_of w c, str t, fl)] else [])"
  using assms
  by (auto simp: default_chat_send_def default_streamio_send_nonblock_def recording_def receives_def target_of_def
      is_valid_chat_def is_valid_stream_def Let_def split: option.splits)

lemma send_other: "d \<noteq> c \<Longrightarrow> conns (send E c t fl w) d = conns w d"
  by (auto simp: default_chat_send_def Let_def split: prod.splits)

lemma receives_cong: "conns w' c = conns w c \<Longrightarrow> receives w' c = receives w c \<and> target_of w' c = target_of w c"
  by (cases "bubble_up (strm (conns w c))") (simp_all add: receives_def target_of_def is_valid_chat_def)

lemma loop_recorded:
  assumes "recording E" and "distinct us"
  shows "outside (broadcast_loop E skip t us w) =
    outside w @ map (\<lambda>d. (target_of w d, str t, 0)) (filter (\<lambda>d. skip \<noteq> Some d \<and> receives w d) us)"
  using assms(2)
proof (induction us arbitrary: w)
  case (Cons u us)
  let ?w = "send E u t 0 w"
  have "receives ?w d = receives w d \<and> target_of ?w d = target_of w d" if "d \<in> set us" for d
    using Cons.prems that send_other [of d u E t 0 w] by (intro receives_cong) auto
  then have "map (\<lambda>d. (target_of ?w d, str t, 0)) (filter (\<lambda>d. skip \<noteq> Some d \<and> receives ?w d) us) =
      map (\<lambda>d. (target_of w d, str t, 0)) (filter (\<lambda>d. skip \<noteq> Some d \<and> receives w d) us)"
    by (intro map_cong filter_cong) auto
  then show ?case
    using Cons.IH [of w] Cons.IH [of ?w] Cons.prems send_recorded [OF assms(1), of u t 0 w] by auto
qed simp

lemma broadcast_text_str:
  assumes "aroop_ok A" and "wf_txt nm" and "wf_txt msg" and "t_len nm \<le> 32" and "t_len msg < 255"
  shows "str (broadcast_text A nm msg) = str nm @ 58 # str msg"
proof -
  let ?b = "aroop_txt_stackbuffer A 287"
  have b: "wf_txt ?b" "t_len ?b = 0" "287 < t_cap ?b" "str ?b = []"
    using buffer_laws(3,4) [OF assms(1)] buffer_cap(2) [OF assms(1), of 287] by (simp_all add: str_def)
  have 1: "appends ?b (str nm) (aroop_txt_concat A ?b nm)"
    using b assms(2,4) by (intro concat_appends [OF assms(1)]) simp_all
  have l1: "t_len (aroop_txt_concat A ?b nm) = t_len nm" using appends_len [OF b(1) 1] b(2) length_str [OF assms(2)] by simp
  have 2: "appends (aroop_txt_concat A ?b nm) [58] (aroop_txt_concat_char A (aroop_txt_concat A ?b nm) 58)"
    using l1 b(3) assms(4) appendsD [OF 1] by (intro concat_char_appends [OF assms(1)]) simp_all
  have l2: "t_len (aroop_txt_concat_char A (aroop_txt_concat A ?b nm) 58) = t_len nm + 1"
    using appends_len [OF appendsD(1) [OF 1] 2] l1 by simp
  have "appends (aroop_txt_concat_char A (aroop_txt_concat A ?b nm) 58) (str msg)
      (aroop_txt_concat A (aroop_txt_concat_char A (aroop_txt_concat A ?b nm) 58) msg)"
    using l2 b(3) assms(3-5) appendsD [OF 1] appendsD [OF 2] by (intro concat_appends [OF assms(1)]) simp_all
  then show ?thesis
    using appendsD(2) [OF 1] appendsD(2) [OF 2] b(4)
    by (simp add: appends_def broadcast_text_def Let_def NGINZ_MAX_CHAT_USER_NAME_SIZE_def NGINZ_MAX_CHAT_MSG_SIZE_def)
qed

section \<open>A sample process\<close>

definition sample_streams :: "(target \<times> bytes \<times> int) list stream_env" where
  "sample_streams = \<lparr>up_send = (\<lambda>u t fl w. (0, w @ [(ToUp u, str t, fl)])), up_close = (\<lambda>_ w. (0, w)),
     up_transfer = (\<lambda>_ _ _ _ w. Inr (0, w)), sys_send = (\<lambda>f bs fl w. (int (length bs), 0, w @ [(ToFd f, bs, fl)])),
     sys_close = (\<lambda>_ w. w), loop_unregister = (\<lambda>_ w. w), raw_send_socket = (\<lambda>_ _ _ w. (0, w))\<rparr>"

definition sample_env :: "(target \<times> bytes \<times> int) list chat_env" where
  "sample_env = \<lparr>lib = ref_aroop, streams = sample_streams, send_fails = (\<lambda>_. False), my_pid = 102, master_pid = 100,
     now = 1000, opp_search_room = (\<lambda>n rs. List.find (\<lambda>i. str (room_name (rs ! i)) = str n) [0..<length rs]),
     opp_list_add = (\<lambda>c xs. xs @ [c]), opp_alloc = (\<lambda>xs. (Suc (sum_list xs), of_nat (length xs))),
     loop_register = (\<lambda>_ _ w. w), event_fd_count = 4, core_call = (\<lambda>_ _. Inr (txt_of (lit ''3 fibers'' @ [10]))),
     profiler_dump = [txt_of (lit ''pool 1''), zero_txt], source_dir = lit ''src/''\<rparr>"

definition sample_conn :: "nat \<Rightarrow> chat_connection" where
  "sample_conn c = \<lparr>strm = (streamio_initialize (strms two_streams 0))\<lparr>strm_fd := 20 + int c, strm_token := of_nat c\<rparr>,
     cstate = (if c = 0 then CHAT_CONNECTED else if c \<le> 2 then CHAT_LOGGED_IN OR CHAT_IN_ROOM else CHAT_LOGGED_IN),
     chat_name = txt_of (lit ''u'' @ [48 + of_nat c]), request = None,
     on_response_callback = (if c = 1 \<or> c = 2 then Some Broadcast else None),
     callback_data = (if c = 1 \<or> c = 2 then Some 0 else None), quited_at = 0\<rparr>"

definition sample_world :: "(target \<times> bytes \<times> int) list chat_world" where
  "sample_world = \<lparr>conns = sample_conn, chat_factory = [0, 1, 2, 3],
     room_factory = [\<lparr>room_name = txt_of (lit ''ONE''), user_list = [1, 2]\<rparr>, \<lparr>room_name = txt_of (lit ''TWO''), user_list = []\<rparr>],
     zombie_list = [], lazy_data = \<lparr>lazy_stack_count = 0, lazy_stack = (\<lambda>_. None), lazy_stack_data = (\<lambda>_. ()),
       lazy_cleanup_count = 0, lazy_cleanup_objects = (\<lambda>_. None)\<rparr>, gear = 0,
     greet_on_login = zero_txt, chat_module_is_quiting = False, pipe = six_nodes, outside = [],
     internal_chat_connection_count = 6, start_time = 0\<rparr>"

lemma sample_ready [simp]: "ready sample_env sample_world" "pools_ok sample_env" "recording sample_env"
proof -
  have "Suc (sum_list xs) \<notin> set xs" for xs :: "nat list"
    using member_le_sum_list [of "Suc (sum_list xs)" xs] by auto
  then show p: "pools_ok sample_env" by (auto simp: pools_ok_def sample_env_def find_Some_iff)
  show "ready sample_env sample_world"
    using p by (simp add: ready_def) (simp add: sample_env_def sample_world_def six_node_index)
  show "recording sample_env" by (simp add: recording_def sample_env_def sample_streams_def)
qed

lemma sample_rooms [simp]: "rooms_ok sample_world"
  "\<forall>rm \<in> set (room_factory sample_world). good_name (room_name rm)"
proof -
  have m: "callback_data (conns sample_world c) = Some r \<longleftrightarrow>
      r < length (room_factory sample_world) \<and> c \<in> set (user_list (the_room r sample_world))" for c r
    by (auto simp: sample_world_def sample_conn_def the_room_def less_Suc_eq nth_Cons split: nat.splits)
  have b: "has (cstate (conns sample_world c)) CHAT_IN_ROOM \<longleftrightarrow> callback_data (conns sample_world c) \<noteq> None" for c
    by (auto simp: sample_world_def sample_conn_def CHAT_CONNECTED_def)
  have o: "on_response_callback (conns sample_world c) = Some Broadcast \<longrightarrow> callback_data (conns sample_world c) \<noteq> None" for c
    by (simp add: sample_world_def sample_conn_def)
  have l: "distinct (user_list (the_room r sample_world)) \<and>
      length (user_list (the_room r sample_world)) \<le> NGINZ_MAX_CHAT_ROOM_USER \<and>
      set (user_list (the_room r sample_world)) \<subseteq> set (chat_factory sample_world)" if "r < length (room_factory sample_world)" for r
    using that by (auto simp: sample_world_def the_room_def NGINZ_MAX_CHAT_ROOM_USER_def less_Suc_eq)
  show "rooms_ok sample_world"
    unfolding rooms_ok_def using m b o l by blast
qed (simp add: sample_world_def good_name_def)

section \<open>Properties\<close>

text \<open>(C16) The rooms of a process are a partial map from connections to rooms. Leaving removes the
  connection from the map, joining puts it into the admitting room (and out of its old one) and is refused exactly
  when the user is not logged in, the room is not here or it has its 32 members; both never fail an
  assertion, and the lists of the rooms keep agreeing with the pointers of the connections.\<close>

theorem rooms_are_a_map:
  assumes "rooms_ok w" and "ready E w" and "\<forall>rm \<in> set (room_factory w). good_name (room_name rm)"
    and "c \<in> set (chat_factory w)"
  shows "(\<exists>w'. broadcast_room_leave E c w = Inr (0, w') \<and> rooms_ok w' \<and> members w' = (members w)(c := None)) \<and>
    (\<exists>r w'. broadcast_room_join E c nm w = Inr (r, w') \<and> rooms_ok w' \<and>
       (case admitted E c nm w of
          None \<Rightarrow> r = -1 \<and> members w' = members w
        | Some q \<Rightarrow> r = 0 \<and> members w' = (members w)(c \<mapsto> q)))"
proof
  obtain w' where "broadcast_room_leave E c w = Inr (0, w')" using leave_total [OF assms(1-3)] by blast
  then show "\<exists>w'. broadcast_room_leave E c w = Inr (0, w') \<and> rooms_ok w' \<and> members w' = (members w)(c := None)"
    using leave_result [OF assms(1)] by blast
next
  have p: "pools_ok E" using assms(2) by (simp add: ready_def)
  obtain w' where j: "broadcast_room_join E c nm w = Inr (if admitted E c nm w = None then -1 else 0, w')"
    using join_total [OF assms] by blast
  show "\<exists>r w'. broadcast_room_join E c nm w = Inr (r, w') \<and> rooms_ok w' \<and>
       (case admitted E c nm w of
          None \<Rightarrow> r = -1 \<and> members w' = members w
        | Some q \<Rightarrow> r = 0 \<and> members w' = (members w)(c \<mapsto> q))"
    using j join_result [OF assms(1) p assms(4) j]
    by (intro exI [of _ "if admitted E c nm w = None then -1 else 0"] exI [of _ w']) (simp split: option.splits)
qed

lemma rooms_are_a_map_witness:
  "\<exists>r w'. broadcast_room_join sample_env 3 (txt_of (lit ''ONE'')) sample_world = Inr (r, w') \<and> rooms_ok w' \<and>
       (case admitted sample_env 3 (txt_of (lit ''ONE'')) sample_world of
          None \<Rightarrow> r = -1 \<and> members w' = members sample_world
        | Some q \<Rightarrow> r = 0 \<and> members w' = (members sample_world)(3 \<mapsto> q))"
  using rooms_are_a_map [OF sample_rooms(1) sample_ready(1) sample_rooms(2), of 3 "txt_of (lit ''ONE'')"]
  by (simp add: sample_world_def)

text \<open>(C17) A message of a member of a room reaches every other member whose connection is open exactly once, in
  the order of the list, as the name, a colon and the message, and it reaches nobody else.\<close>

theorem broadcast_reaches_members:
  assumes "rooms_ok w" and "recording E" and "aroop_ok (lib E)" and "members w c = Some r"
    and "wf_txt (chat_name (conns w c))" and "t_len (chat_name (conns w c)) \<le> 32" and "wf_txt msg" and "t_len msg < 255"
  shows "\<exists>ds w'. broadcast_callback E c msg w = (0, w') \<and>
    outside w' = outside w @ map (\<lambda>d. (target_of w d, str (chat_name (conns w c)) @ 58 # str msg, 0)) ds \<and>
    distinct ds \<and> set ds = {d. members w d = Some r \<and> d \<noteq> c \<and> receives w d} \<and> members w' = members w"
proof -
  have cb: "callback_data (conns w c) = Some r" using assms(4) by (simp add: members_def)
  then have r: "r < length (room_factory w)" using rooms_okD(1) [OF assms(1)] by blast
  let ?us = "user_list (the_room r w)"
  let ?ds = "filter (\<lambda>d. Some c \<noteq> Some d \<and> receives w d) ?us"
  have d: "distinct ?us" using rooms_okD(3) [OF assms(1) r] .
  have s: "set ?us = {d. members w d = Some r}" using rooms_okD(1) [OF assms(1)] r by (auto simp: members_def)
  show ?thesis
    using loop_recorded [OF assms(2) d, of "Some c"] broadcast_text_str [OF assms(3,5,7,6,8)] cb d s
      members_quiet [OF broadcast_loop_quiet]
    by (intro exI [of _ ?ds]) (auto simp: broadcast_callback_def broadcast_callback_helper_def)
qed

lemma broadcast_reaches_members_witness:
  "\<exists>ds w'. broadcast_callback sample_env 1 (txt_of (lit ''hi'')) sample_world = (0, w') \<and>
    outside w' = outside sample_world @ map (\<lambda>d. (target_of sample_world d, str (chat_name (conns sample_world 1)) @ 58 # str (txt_of (lit ''hi'')), 0)) ds \<and>
    distinct ds \<and> set ds = {d. members sample_world d = Some 0 \<and> d \<noteq> 1 \<and> receives sample_world d} \<and> members w' = members sample_world"
  by (rule broadcast_reaches_members [OF sample_rooms(1) sample_ready(3)])
     (simp_all add: sample_env_def, simp_all add: sample_world_def sample_conn_def members_def)

end
