(* ===== verification/ChatLife.thy ===== *)
theory ChatLife
  imports ChatRooms
begin

text \<open>
  The life of a connection object: \<open>apps/chat/src/chat_factory.c\<close> (creation, lookup by token, closing,
  the dump of all connections, destruction) and \<open>apps/chat/src/chat_zombie.c\<close> (closed connections
  waiting to be freed). \<open>streamio_initialize\<close> is the one of \<open>StreamIO\<close>; the methods the chat application
  installs are \<open>Overridden\<close> 0 (close), 1 (send) and 2 (receive). \<open>opp_get\<close> of a token that no object
  has is a null pointer, which \<open>chat_get\<close> reads.
\<close>

section \<open>Closing\<close>

definition default_chat_close :: "'w chat_env \<Rightarrow> nat \<Rightarrow> 'w chat_world \<Rightarrow> (int \<times> 'w chat_world) exec" where
  "default_chat_close E c w =
     (let w1 = (if quited_at (conns w c) = 0 then upd_conn c (quited_at_update (\<lambda>_. now E)) w else w);
          w2 = (if \<not> has (cstate (conns w1 c)) (CHAT_SOFT_QUIT OR CHAT_QUIT) then upd_conn c (set_bits CHAT_QUIT) w1 else w1)
      in ebind (if has (cstate (conns w2 c)) CHAT_IN_ROOM
                then ebind (broadcast_room_leave E c w2) (\<lambda>(_, w'). Inr w') else Inr w2) (\<lambda>w3.
         ebind (if has (cstate (conns w3 c)) CHAT_LOGGED_IN
                then ebind (logoff_user E c w3) (\<lambda>(_, w'). Inr w') else Inr w3) (\<lambda>w4.
         case bubble_up (strm (conns w4 c)) of
           Some u \<Rightarrow> (case up_close (streams E) u (outside w4) of (r, o') \<Rightarrow> Inr (r, w4\<lparr>outside := o'\<rparr>))
         | None \<Rightarrow>
             if strm_fd (strm (conns w4 c)) \<noteq> INVALID_FD then
               (let f = strm_fd (strm (conns w4 c));
                    o1 = loop_unregister (streams E) f (outside w4);
                    o2 = (if \<not> has (cstate (conns w4 c)) CHAT_SOFT_QUIT then sys_close (streams E) f o1 else o1)
                in Inr (0, upd_conn c (strm_update (strm_fd_update (\<lambda>_. INVALID_FD))) (w4\<lparr>outside := o2\<rparr>)))
             else Inr (0, w4))))"

section \<open>The factory\<close>

definition chat_initialize :: "32 word \<Rightarrow> chat_connection \<Rightarrow> chat_connection" where
  "chat_initialize token x =
     x\<lparr>chat_name := zero_txt, on_response_callback := None, callback_data := None, cstate := CHAT_CONNECTED,
       request := None,
       strm := (streamio_initialize (strm x))\<lparr>strm_token := token, close_method := Overridden 0, send_method := Overridden 1,
                 on_recv := Overridden 2\<rparr>,
       quited_at := 0\<rparr>"

definition chat_alloc :: "'w chat_env \<Rightarrow> int \<Rightarrow> 'w chat_world \<Rightarrow> nat \<times> 'w chat_world" where
  "chat_alloc E f w =
     (case opp_alloc E (chat_factory w) of
        (c, token) \<Rightarrow>
          (c, upd_conn c (\<lambda>x. strm_update (strm_fd_update (\<lambda>_. f)) (chat_initialize token x))
                (w\<lparr>chat_factory := opp_list_add E c (chat_factory w)\<rparr>)))"

text \<open>\<open>uptime.c\<close> puts its counter in front of the constructor that \<open>chat_api_get()->on_create\<close> names.\<close>

definition uptime_count_chat_create :: "'w chat_env \<Rightarrow> int \<Rightarrow> 'w chat_world \<Rightarrow> nat \<times> 'w chat_world" where
  "uptime_count_chat_create E f w =
     chat_alloc E f (w\<lparr>internal_chat_connection_count := internal_chat_connection_count w + 1\<rparr>)"

definition chat_get :: "32 word \<Rightarrow> 'w chat_world \<Rightarrow> nat option exec" where
  "chat_get token w =
     (case List.find (\<lambda>c. strm_token (strm (conns w c)) = token) (chat_factory w) of
        None \<Rightarrow> Inl NullDeref
      | Some c \<Rightarrow>
          if has (cstate (conns w c)) (CHAT_QUIT OR CHAT_SOFT_QUIT OR CHAT_ZOMBIE) then Inr None else Inr (Some c))"

fun softquit_loop :: "'w chat_env \<Rightarrow> nat list \<Rightarrow> 'w chat_world \<Rightarrow> 'w chat_world exec" where
  "softquit_loop E [] w = Inr w"
| "softquit_loop E (chat # cs) w =
     ebind (broadcast_room_leave E chat w) (\<lambda>(_, w1).
     ebind (default_chat_close E chat w1) (\<lambda>(_, w2). softquit_loop E cs w2))"

definition chat_factory_on_softquit :: "'w chat_env \<Rightarrow> 'w chat_world \<Rightarrow> (int \<times> 'w chat_world) exec" where
  "chat_factory_on_softquit E w = ebind (softquit_loop E (chat_factory w) w) (\<lambda>w'. Inr (0, w'))"

definition chat_state_show :: "aroop \<Rightarrow> chat_connection \<Rightarrow> aroop_txt_t \<Rightarrow> aroop_txt_t" where
  "chat_state_show A chat output =
     aroop_txt_concat_char A
       (aroop_txt_concat_string A (aroop_txt_concat_char A output 91)
         (if has (cstate chat) CHAT_ZOMBIE then lit ''CHAT_ZOMBIE''
          else if has (cstate chat) CHAT_QUIT then lit ''CHAT_QUIT''
          else if has (cstate chat) CHAT_SOFT_QUIT then lit ''CHAT_SOFT_QUIT''
          else if has (cstate chat) CHAT_IN_ROOM then lit ''CHAT_IN_ROOM''
          else if has (cstate chat) CHAT_LOGGED_IN then lit ''CHAT_LOGGED_IN''
          else lit ''CHAT_CONNECTED'')) 93"

definition show_one :: "aroop \<Rightarrow> chat_connection \<Rightarrow> aroop_txt_t \<Rightarrow> aroop_txt_t" where
  "show_one A other output =
     (let o1 = aroop_txt_concat_char A output 9;
          o2 = aroop_txt_concat_char A (aroop_txt_concat A o1 (chat_name other)) 9;
          o3 = aroop_txt_concat_char A (chat_state_show A other o2) 9;
          o4 = (if bubble_up (strm other) \<noteq> None then aroop_txt_concat_string A o3 (lit ''chained'') else o3);
          o5 = aroop_txt_concat_char A o4 9;
          o6 = (if strm_fd (strm other) = INVALID_FD then aroop_txt_concat_string A o5 (lit ''invalid fd'') else o5)
      in aroop_txt_concat_char A (aroop_txt_concat_char A o6 9) 10)"

definition chat_factory_show :: "'w chat_env \<Rightarrow> int \<Rightarrow> nat \<Rightarrow> 'w chat_world \<Rightarrow> (int \<times> 'w chat_world) exec" where
  "chat_factory_show E signature c w =
     ebind (aroop_assert (lib E) (signature = CHAT_SIGNATURE)) (\<lambda>_.
     if \<not> is_valid_chat c w then Inr (0, w)
     else
       let output = foldl (\<lambda>t other. show_one (lib E) (conns w other) t) (aroop_txt_stackbuffer (lib E) 1024) (chat_factory w)
       in Inr (0, send E c output 0 w))"

fun close_loop :: "'w chat_env \<Rightarrow> nat list \<Rightarrow> 'w chat_world \<Rightarrow> 'w chat_world exec" where
  "close_loop E [] w = Inr w"
| "close_loop E (chat # cs) w = ebind (default_chat_close E chat w) (\<lambda>(_, w1). close_loop E cs w1)"

definition chat_factory_module_deinit :: "'w chat_env \<Rightarrow> 'w chat_world \<Rightarrow> (int \<times> 'w chat_world) exec" where
  "chat_factory_module_deinit E w =
     ebind (close_loop E (chat_factory w) w) (\<lambda>w'. Inr (0, w'\<lparr>chat_factory := []\<rparr>))"

text \<open>When the last reference of an object is dropped, the library runs its finalizer and reuses it.\<close>

definition chat_finalize :: "'w chat_env \<Rightarrow> nat \<Rightarrow> 'w chat_world \<Rightarrow> 'w chat_world exec" where
  "chat_finalize E c w =
     ebind (default_chat_close E c w) (\<lambda>(_, w1).
     Inr (upd_conn c (\<lambda>x. x\<lparr>strm := (strm x)\<lparr>strm_fd := -1, bubble_up := None, bubble_down := None,
                                send_buffer := aroop_txt_destroy (lib E) (send_buffer (strm x))\<rparr>,
                            chat_name := aroop_txt_destroy (lib E) (chat_name x)\<rparr>) w1))"

definition chat_reclaim :: "'w chat_env \<Rightarrow> nat \<Rightarrow> 'w chat_world \<Rightarrow> 'w chat_world exec" where
  "chat_reclaim E c w =
     ebind (chat_finalize E c w) (\<lambda>w1. Inr (w1\<lparr>chat_factory := remove1 c (chat_factory w1)\<rparr>))"

section \<open>Zombies\<close>

definition chat_zombie_add :: "'w chat_env \<Rightarrow> nat \<Rightarrow> 'w chat_world \<Rightarrow> (int \<times> 'w chat_world) exec" where
  "chat_zombie_add E c w =
     (if has (cstate (conns w c)) CHAT_ZOMBIE then Inr (-1, w)
      else
        ebind (aroop_assert (lib E) (quited_at (conns w c) \<noteq> 0)) (\<lambda>_.
        Inr (0, (upd_conn c (set_bits CHAT_ZOMBIE) w)\<lparr>zombie_list := opp_list_add E c (zombie_list w)\<rparr>)))"

definition chat_zombie_on_softquit :: "'w chat_world \<Rightarrow> int \<times> 'w chat_world" where
  "chat_zombie_on_softquit w = (0, foldl (\<lambda>w pt. w\<lparr>zombie_list := remove1 pt (zombie_list w)\<rparr>) w (zombie_list w))"

fun sweep_loop :: "'w chat_env \<Rightarrow> nat list \<Rightarrow> 'w chat_world \<Rightarrow> 'w chat_world exec" where
  "sweep_loop E [] w = Inr w"
| "sweep_loop E (pt # pts) w =
     (let chat = conns w pt
      in if quited_at chat = 0 \<or> now E - quited_at chat > 120 then sweep_loop E pts w
         else ebind (lazy_cleanup (lib E) (Some (ZombieEntry pt)) (lazy_data w)) (\<lambda>(_, l).
              sweep_loop E pts (w\<lparr>lazy_data := l\<rparr>)))"

definition chat_lazy_cleanup_fiber :: "'w chat_env \<Rightarrow> 'w chat_world \<Rightarrow> (int \<times> 'w chat_world) exec" where
  "chat_lazy_cleanup_fiber E w =
     (if gear w < 10 then Inr (0, w\<lparr>gear := gear w + 1\<rparr>)
      else
        let w1 = w\<lparr>gear := 0\<rparr>
        in if zombie_list w1 = [] then Inr (0, w1)
           else ebind (sweep_loop E (zombie_list w1) w1) (\<lambda>w2. Inr (0, w2)))"

text \<open>Dropping what \<open>lazy_cleanup\<close> queued: a list entry leaves the list, a connection loses a reference.\<close>

definition chat_unref :: "(unit, unit, lazy_object option, 'w chat_world) unref_runner" where
  "chat_unref x w s =
     (case x of
        None \<Rightarrow> Inl NullDeref
      | Some (ZombieEntry c) \<Rightarrow> Inr (w\<lparr>zombie_list := remove1 c (zombie_list w)\<rparr>, s)
      | Some (ChatRef c) \<Rightarrow> Inr (w, s))"

definition chat_lazy_step :: "'w chat_world \<Rightarrow> 'w chat_world exec" where
  "chat_lazy_step w =
     ebind (lazy_call_step (\<lambda>_ _ w s. Inr (w, s)) chat_unref w (lazy_data w)) (\<lambda>(_, w', s). Inr (w'\<lparr>lazy_data := s\<rparr>))"

section \<open>What an operation on one connection leaves as it is\<close>

definition touches :: "nat \<Rightarrow> 'w chat_world \<Rightarrow> 'w chat_world \<Rightarrow> bool" where
  "touches c w w' \<longleftrightarrow> (\<forall>d. d \<noteq> c \<longrightarrow> conn_calm (conns w d) (conns w' d)) \<and> grows (pipe w) (pipe w') \<and>
     chat_factory w' = chat_factory w \<and> map room_name (room_factory w') = map room_name (room_factory w) \<and>
     gear w' = gear w \<and> chat_module_is_quiting w' = chat_module_is_quiting w"

lemma conn_calm_refl [simp]: "conn_calm x x"
  by (simp add: conn_calm_def)

lemma touches_refl [simp]: "touches c w w"
  by (simp add: touches_def)

lemma conn_calm_trans: "conn_calm x y \<Longrightarrow> conn_calm y z \<Longrightarrow> conn_calm x z"
  by (simp add: conn_calm_def)

lemma touches_trans: "touches c u v \<Longrightarrow> touches c v w \<Longrightarrow> touches c u w"
  unfolding touches_def by (elim conjE, intro conjI allI impI) (blast intro: conn_calm_trans grows_trans | simp)+

lemma calm_touches: "calm w w' \<Longrightarrow> touches c w w'"
  by (simp add: calm_def touches_def)

lemma upd_touches [simp]: "touches c w (upd_conn c f w)"
  by (simp add: touches_def)

lemma outside_touches [simp]: "touches c w (w'\<lparr>outside := o'\<rparr>) \<longleftrightarrow> touches c w w'"
  "touches c w (w'\<lparr>zombie_list := z\<rparr>) \<longleftrightarrow> touches c w w'" "touches c w (w'\<lparr>lazy_data := l\<rparr>) \<longleftrightarrow> touches c w w'"
  "touches c w (w'\<lparr>greet_on_login := g\<rparr>) \<longleftrightarrow> touches c w w'"
  by (simp_all add: touches_def)

lemma rooms_ok_upd:
  assumes "rooms_ok w" and "callback_data (f (conns w c)) = callback_data (conns w c)"
    and "has (cstate (f (conns w c))) CHAT_IN_ROOM \<longleftrightarrow> has (cstate (conns w c)) CHAT_IN_ROOM"
    and "on_response_callback (f (conns w c)) = Some Broadcast \<Longrightarrow> on_response_callback (conns w c) = Some Broadcast"
  shows "rooms_ok (upd_conn c f w)"
  by (rule rooms_ok_cong [OF assms(1)]) (use assms(2-4) in \<open>auto split: if_splits\<close>)

lemma touches_upd [intro]: "touches c u v \<Longrightarrow> touches c u (upd_conn c f v)"
  using touches_trans [OF _ upd_touches] .

lemma rooms_ok_marks [intro]:
  "rooms_ok w \<Longrightarrow> rooms_ok (upd_conn c (set_bits CHAT_QUIT) w)" "rooms_ok w \<Longrightarrow> rooms_ok (upd_conn c (set_bits CHAT_SOFT_QUIT) w)"
  "rooms_ok w \<Longrightarrow> rooms_ok (upd_conn c (set_bits CHAT_ZOMBIE) w)" "rooms_ok w \<Longrightarrow> rooms_ok (upd_conn c (set_bits CHAT_LOGGED_IN) w)"
  "rooms_ok w \<Longrightarrow> rooms_ok (upd_conn c (quited_at_update g) w)" "rooms_ok w \<Longrightarrow> rooms_ok (upd_conn c (strm_update h) w)"
  "rooms_ok w \<Longrightarrow> rooms_ok (upd_conn c (request_update k) w)" "rooms_ok w \<Longrightarrow> rooms_ok (upd_conn c (chat_name_update l) w)"
  "rooms_ok w \<Longrightarrow> rooms_ok (upd_conn c (clear_bits CHAT_LOGGED_IN) w)"
  "rooms_ok w \<Longrightarrow> rooms_ok (upd_conn c (on_response_callback_update (\<lambda>_. None)) w)"
  "rooms_ok w \<Longrightarrow> rooms_ok (upd_conn c (on_response_callback_update (\<lambda>_. Some OnLogin)) w)"
  by (erule rooms_ok_upd; simp)+

lemma rooms_ok_frame [simp]:
  "rooms_ok (w\<lparr>outside := o'\<rparr>) \<longleftrightarrow> rooms_ok w" "rooms_ok (w\<lparr>zombie_list := z\<rparr>) \<longleftrightarrow> rooms_ok w"
  "rooms_ok (w\<lparr>lazy_data := l\<rparr>) \<longleftrightarrow> rooms_ok w" "rooms_ok (w\<lparr>greet_on_login := g\<rparr>) \<longleftrightarrow> rooms_ok w"
  "rooms_ok (w\<lparr>gear := n\<rparr>) \<longleftrightarrow> rooms_ok w" "rooms_ok (w\<lparr>chat_module_is_quiting := b\<rparr>) \<longleftrightarrow> rooms_ok w"
  "rooms_ok (w\<lparr>pipe := p\<rparr>) \<longleftrightarrow> rooms_ok w" "rooms_ok (w\<lparr>internal_chat_connection_count := k\<rparr>) \<longleftrightarrow> rooms_ok w"
  "rooms_ok (w\<lparr>start_time := k\<rparr>) \<longleftrightarrow> rooms_ok w"
  by (simp_all add: rooms_ok_def the_room_def)

lemma members_frame [simp]:
  "members (w\<lparr>outside := o'\<rparr>) = members w" "members (w\<lparr>zombie_list := z\<rparr>) = members w"
  "members (w\<lparr>lazy_data := l\<rparr>) = members w" "members (w\<lparr>greet_on_login := g\<rparr>) = members w"
  "members (w\<lparr>gear := n\<rparr>) = members w" "members (w\<lparr>pipe := p\<rparr>) = members w"
  "members (w\<lparr>chat_module_is_quiting := b\<rparr>) = members w" "members (w\<lparr>chat_factory := cs\<rparr>) = members w"
  "members (w\<lparr>internal_chat_connection_count := k\<rparr>) = members w" "members (w\<lparr>start_time := k\<rparr>) = members w"
  by (simp_all add: members_def)

section \<open>Closing leaves the rooms consistent\<close>

text \<open>The steps of \<open>default_chat_close\<close> before the stream itself is closed.\<close>

definition marked :: "'w chat_env \<Rightarrow> nat \<Rightarrow> 'w chat_world \<Rightarrow> 'w chat_world" where
  "marked E c w =
     (let w1 = (if quited_at (conns w c) = 0 then upd_conn c (quited_at_update (\<lambda>_. now E)) w else w)
      in if \<not> has (cstate (conns w1 c)) (CHAT_SOFT_QUIT OR CHAT_QUIT) then upd_conn c (set_bits CHAT_QUIT) w1 else w1)"

definition left_room :: "'w chat_env \<Rightarrow> nat \<Rightarrow> 'w chat_world \<Rightarrow> 'w chat_world exec" where
  "left_room E c w =
     (if has (cstate (conns w c)) CHAT_IN_ROOM then ebind (broadcast_room_leave E c w) (\<lambda>(_, w'). Inr w') else Inr w)"

definition logged_off :: "'w chat_env \<Rightarrow> nat \<Rightarrow> 'w chat_world \<Rightarrow> 'w chat_world exec" where
  "logged_off E c w =
     (if has (cstate (conns w c)) CHAT_LOGGED_IN then ebind (logoff_user E c w) (\<lambda>(_, w'). Inr w') else Inr w)"

definition stream_closed :: "'w chat_env \<Rightarrow> nat \<Rightarrow> 'w chat_world \<Rightarrow> int \<times> 'w chat_world" where
  "stream_closed E c w =
     (case bubble_up (strm (conns w c)) of
        Some u \<Rightarrow> (case up_close (streams E) u (outside w) of (r, o') \<Rightarrow> (r, w\<lparr>outside := o'\<rparr>))
      | None \<Rightarrow>
          if strm_fd (strm (conns w c)) \<noteq> INVALID_FD then
            (let f = strm_fd (strm (conns w c));
                 o1 = loop_unregister (streams E) f (outside w);
                 o2 = (if \<not> has (cstate (conns w c)) CHAT_SOFT_QUIT then sys_close (streams E) f o1 else o1)
             in (0, upd_conn c (strm_update (strm_fd_update (\<lambda>_. INVALID_FD))) (w\<lparr>outside := o2\<rparr>)))
          else (0, w))"

lemma close_steps:
  "default_chat_close E c w = ebind (left_room E c (marked E c w)) (\<lambda>w3. ebind (logged_off E c w3) (\<lambda>w4. Inr (stream_closed E c w4)))"
  unfolding default_chat_close_def marked_def left_room_def logged_off_def stream_closed_def Let_def
  by (intro arg_cong2 [where f = ebind] ext refl) (simp split: option.splits prod.splits)

lemma marked_props:
  "rooms_ok w \<Longrightarrow> rooms_ok (marked E c w)" "members (marked E c w) = members w" "touches c w (marked E c w)"
  "has (cstate (conns (marked E c w) c)) CHAT_QUIT \<or> has (cstate (conns (marked E c w) c)) CHAT_SOFT_QUIT"
  "quited_at (conns (marked E c w) c) = (if quited_at (conns w c) = 0 then now E else quited_at (conns w c))"
  "chat_name (conns (marked E c w) c) = chat_name (conns w c)" "bubble_up (strm (conns (marked E c w) c)) = bubble_up (strm (conns w c))"
  "has (cstate (conns (marked E c w) c)) CHAT_ZOMBIE \<longleftrightarrow> has (cstate (conns w c)) CHAT_ZOMBIE"
  "zombie_list (marked E c w) = zombie_list w" "lazy_data (marked E c w) = lazy_data w" "greet_on_login (marked E c w) = greet_on_login w"
  by (auto simp: marked_def Let_def has_or_flag members_def)

lemma left_room_props:
  assumes "rooms_ok w" and "left_room E c w = Inr w'"
  shows "rooms_ok w' \<and> members w' = (members w)(c := None) \<and> calm w w'"
proof (cases "has (cstate (conns w c)) CHAT_IN_ROOM")
  case True
  then show ?thesis
    using assms leave_result [OF assms(1)] by (auto simp: left_room_def ebind_Inr_iff)
next
  case False
  then have "members w c = None" using rooms_okD(2) [OF assms(1)] by (simp add: members_def)
  then have "(members w)(c := None) = members w" by auto
  then show ?thesis using False assms by (simp add: left_room_def quiet_calm)
qed

lemma logged_off_props:
  assumes "rooms_ok w" and "logged_off E c w = Inr w'"
  shows "rooms_ok w'" "members w' = members w" "touches c w w'"
    "\<exists>b. \<forall>f. has (cstate (conns w' c)) f \<longleftrightarrow> has (if b then cstate (conns w c) AND NOT CHAT_LOGGED_IN else cstate (conns w c)) f"
    "has (cstate (conns w' c)) CHAT_LOGGED_IN \<Longrightarrow> t_len (chat_name (conns w c)) = 0"
    "strm (conns w' c) = strm (conns w c)" "chat_name (conns w' c) = chat_name (conns w c)"
    "quited_at (conns w' c) = quited_at (conns w c)"
    "zombie_list w' = zombie_list w" "lazy_data w' = lazy_data w" "greet_on_login w' = greet_on_login w"
proof -
  have "\<exists>w1. quiet w w1 \<and> conns w1 = conns w \<and> (w' = w1 \<and> (has (cstate (conns w c)) CHAT_LOGGED_IN \<longrightarrow> t_len (chat_name (conns w c)) = 0)
      \<or> w' = upd_conn c (clear_bits CHAT_LOGGED_IN) w1)"
  proof (cases "has (cstate (conns w c)) CHAT_LOGGED_IN")
    case True
    then obtain r where "logoff_user E c w = Inr (r, w')" using assms(2) by (auto simp: logged_off_def ebind_Inr_iff)
    from logoff_result [OF this] show ?thesis by (auto split: if_splits)
  next
    case False
    then have "w' = w" using assms(2) by (simp add: logged_off_def)
    then show ?thesis using False by (intro exI [of _ w]) simp
  qed
  then obtain w1 where q: "quiet w w1" "conns w1 = conns w" and w1: "(w' = w1 \<and> (has (cstate (conns w c)) CHAT_LOGGED_IN \<longrightarrow> t_len (chat_name (conns w c)) = 0)
      \<or> w' = upd_conn c (clear_bits CHAT_LOGGED_IN) w1)" by blast
  note ok = rooms_ok_quiet [OF q(1) assms(1)]
  show "rooms_ok w'" using w1 ok by auto
  show "members w' = members w" using w1 q members_quiet [OF q(1)] by (auto simp: members_def)
  show "touches c w w'" using w1 calm_touches [OF quiet_calm [OF q(1)]] by auto
  show "\<exists>b. \<forall>f. has (cstate (conns w' c)) f \<longleftrightarrow> has (if b then cstate (conns w c) AND NOT CHAT_LOGGED_IN else cstate (conns w c)) f"
    using w1 q(2) by (elim disjE) (auto intro: exI [of _ False] exI [of _ True])
  show "has (cstate (conns w' c)) CHAT_LOGGED_IN \<Longrightarrow> t_len (chat_name (conns w c)) = 0" using w1 q(2) by auto
  show "strm (conns w' c) = strm (conns w c)" "chat_name (conns w' c) = chat_name (conns w c)"
    "quited_at (conns w' c) = quited_at (conns w c)" using w1 q(2) by auto
  show "zombie_list w' = zombie_list w" "lazy_data w' = lazy_data w" "greet_on_login w' = greet_on_login w"
    using w1 quiet_world [OF q(1)] by auto
qed

lemma stream_closed_props:
  assumes "stream_closed E c w = (r, w')"
  shows "rooms_ok w \<Longrightarrow> rooms_ok w'" "members w' = members w" "touches c w w'"
    "cstate (conns w' c) = cstate (conns w c)" "quited_at (conns w' c) = quited_at (conns w c)"
    "chat_name (conns w' c) = chat_name (conns w c)" "bubble_up (strm (conns w' c)) = bubble_up (strm (conns w c))"
    "bubble_up (strm (conns w c)) = None \<Longrightarrow> strm_fd (strm (conns w' c)) = INVALID_FD"
    "zombie_list w' = zombie_list w" "lazy_data w' = lazy_data w" "greet_on_login w' = greet_on_login w"
  using assms
  by (auto simp: stream_closed_def Let_def members_def split: option.splits prod.splits if_splits)

lemma close_result:
  assumes "rooms_ok w" and "default_chat_close E c w = Inr (r, w')"
  shows "rooms_ok w' \<and> members w' = (members w)(c := None) \<and> touches c w w' \<and>
    (has (cstate (conns w' c)) CHAT_QUIT \<or> has (cstate (conns w' c)) CHAT_SOFT_QUIT) \<and>
    quited_at (conns w' c) = (if quited_at (conns w c) = 0 then now E else quited_at (conns w c)) \<and>
    (has (cstate (conns w' c)) CHAT_LOGGED_IN \<longrightarrow> t_len (chat_name (conns w c)) = 0) \<and>
    chat_name (conns w' c) = chat_name (conns w c) \<and>
    (has (cstate (conns w' c)) CHAT_ZOMBIE \<longleftrightarrow> has (cstate (conns w c)) CHAT_ZOMBIE) \<and>
    bubble_up (strm (conns w' c)) = bubble_up (strm (conns w c)) \<and>
    (bubble_up (strm (conns w c)) = None \<longrightarrow> strm_fd (strm (conns w' c)) = INVALID_FD) \<and>
    zombie_list w' = zombie_list w \<and> lazy_data w' = lazy_data w \<and> greet_on_login w' = greet_on_login w"
proof -
  let ?m = "marked E c w"
  obtain w3 w4 where s: "left_room E c ?m = Inr w3" "logged_off E c w3 = Inr w4" "stream_closed E c w4 = (r, w')"
    using assms(2) unfolding close_steps by (auto elim!: ebind_InrE)
  note M = marked_props(1) [OF assms(1), where E = E and c = c] marked_props(2-) [where E = E and c = c and w = w]
  have L: "rooms_ok w3" "members w3 = (members w)(c := None)" "calm ?m w3"
    using left_room_props [OF M(1) s(1)] M(2) by simp_all
  note C = calm_conn [OF L(3), of c] and W = calm_world [OF L(3)]
  note O = logged_off_props [OF L(1) s(2)]
  note S = stream_closed_props [OF s(3)]
  obtain b where b: "\<And>f. has (cstate (conns w4 c)) f \<longleftrightarrow> has (if b then cstate (conns w3 c) AND NOT CHAT_LOGGED_IN else cstate (conns w3 c)) f"
    using O(4) by blast
  have quit: "has (cstate (conns w' c)) CHAT_QUIT \<or> has (cstate (conns w' c)) CHAT_SOFT_QUIT"
    using M(4) C(5,7) S(4) b by (cases b) auto
  have zombie: "has (cstate (conns w' c)) CHAT_ZOMBIE \<longleftrightarrow> has (cstate (conns w c)) CHAT_ZOMBIE"
    using M(8) C(6) S(4) b by (cases b) auto
  have t: "touches c w w'"
    using touches_trans [OF touches_trans [OF M(3) calm_touches [OF L(3)]] touches_trans [OF O(3) S(3)]] .
  show ?thesis
    using quit zombie t S(1) [OF O(1)] S(2,4-11) O(2,5-11) L(2) C(1,3,9) W(2,3,5) M(5-7,9-11) by simp
qed

lemma close_total:
  assumes "rooms_ok w" and "ready E w" and "\<forall>rm \<in> set (room_factory w). good_name (room_name rm)"
    and "wf_txt (chat_name (conns w c))" and "t_len (chat_name (conns w c)) \<le> 100"
  shows "\<exists>r w'. default_chat_close E c w = Inr (r, w')"
proof -
  let ?m = "marked E c w"
  note M = marked_props(1) [OF assms(1), where E = E and c = c] marked_props(2-) [where E = E and c = c and w = w]
  have "pipe ?m = pipe w" "room_factory ?m = room_factory w" by (auto simp: marked_def Let_def)
  then have "ready E ?m" "\<forall>rm \<in> set (room_factory ?m). good_name (room_name rm)" using assms(2,3) by (simp_all add: ready_def)
  then have l: "\<exists>w'. broadcast_room_leave E c ?m = Inr (0, w')" by (rule leave_total [OF M(1)])
  then have "\<exists>w3. left_room E c ?m = Inr w3" by (auto simp: left_room_def)
  then obtain w3 where w3: "left_room E c ?m = Inr w3" by blast
  have L: "calm ?m w3" using left_room_props [OF M(1) w3] by simp
  have "ready E w3" using ready_quiet [OF \<open>ready E ?m\<close> calm_world(7) [OF L]] .
  then have "\<exists>r w'. logoff_user E c w3 = Inr (r, w')"
    by (rule logoff_total) (use assms(4,5) calm_conn(1) [OF L] M(6) in simp_all)
  then have "\<exists>w4. logged_off E c w3 = Inr w4" by (auto simp: logged_off_def)
  then obtain w4 where "logged_off E c w3 = Inr w4" by blast
  with w3 show ?thesis unfolding close_steps by (cases "stream_closed E c w4") auto
qed

lemma close_again:
  assumes "rooms_ok w" and "members w c = None" and "quited_at (conns w c) \<noteq> 0"
    and "has (cstate (conns w c)) CHAT_QUIT \<or> has (cstate (conns w c)) CHAT_SOFT_QUIT"
    and "has (cstate (conns w c)) CHAT_LOGGED_IN \<Longrightarrow> t_len (chat_name (conns w c)) = 0"
    and "bubble_up (strm (conns w c)) = None" and "strm_fd (strm (conns w c)) = INVALID_FD"
  shows "default_chat_close E c w = Inr (0, w)"
proof -
  have "\<not> has (cstate (conns w c)) CHAT_IN_ROOM"
    using rooms_okD(2) [OF assms(1), of c] assms(2) by (simp add: members_def)
  then show ?thesis
    using assms(3-7)
    by (auto simp: close_steps marked_def left_room_def logged_off_def stream_closed_def logoff_user_def has_or_flag)
qed

section \<open>The sweep of the zombies\<close>

definition swept :: "'w chat_env \<Rightarrow> 'w chat_world \<Rightarrow> nat \<Rightarrow> bool" where
  "swept E w c \<longleftrightarrow> quited_at (conns w c) \<noteq> 0 \<and> now E - quited_at (conns w c) \<le> 120"

lemma sweep_loop_result:
  assumes "lazy_cleanup_count (lazy_data w) + length pts \<le> NGINZ_LAZY_OBJECT_QUEUE_SIZE"
  shows "\<exists>l. sweep_loop E pts w = Inr (w\<lparr>lazy_data := l\<rparr>) \<and> lazy_stack_count l = lazy_stack_count (lazy_data w) \<and>
    pending_objects l = pending_objects (lazy_data w) @ map (\<lambda>c. Some (ZombieEntry c)) (filter (swept E w) pts)"
  using assms
proof (induction pts arbitrary: w)
  case Nil
  then show ?case by (intro exI [of _ "lazy_data w"]) simp
next
  case (Cons pt pts)
  show ?case
  proof (cases "swept E w pt")
    case False
    then have "sweep_loop E (pt # pts) w = sweep_loop E pts w" by (auto simp: swept_def Let_def)
    moreover have "filter (swept E w) (pt # pts) = filter (swept E w) pts" using False by simp
    ultimately show ?thesis using Cons.IH [of w] Cons.prems by simp
  next
    case True
    let ?l = "(lazy_data w)\<lparr>lazy_cleanup_objects := (lazy_cleanup_objects (lazy_data w))
          (lazy_cleanup_count (lazy_data w) := Some (ZombieEntry pt)), lazy_cleanup_count := lazy_cleanup_count (lazy_data w) + 1\<rparr>"
    let ?w = "w\<lparr>lazy_data := ?l\<rparr>"
    have c: "lazy_cleanup (lib E) (Some (ZombieEntry pt)) (lazy_data w) = Inr (0, ?l)"
      using Cons.prems by (simp add: lazy_cleanup_def)
    have 1: "sweep_loop E (pt # pts) w = sweep_loop E pts ?w" using True by (simp add: swept_def Let_def c)
    have 2: "pending_objects ?l = pending_objects (lazy_data w) @ [Some (ZombieEntry pt)]"
      by (simp add: pending_objects_def)
    have 3: "swept E ?w = swept E w" by (simp add: swept_def fun_eq_iff)
    obtain l where l: "sweep_loop E pts ?w = Inr (?w\<lparr>lazy_data := l\<rparr>)" "lazy_stack_count l = lazy_stack_count ?l"
        "pending_objects l = pending_objects ?l @ map (\<lambda>c. Some (ZombieEntry c)) (filter (swept E w) pts)"
      using Cons.IH [of ?w] Cons.prems 3 by auto
    show ?thesis using 1 2 l True by (intro exI [of _ l]) simp
  qed
qed

lemma unref_loop_result:
  assumes "map (lazy_cleanup_objects s) [0..<length zs] = map (\<lambda>c. Some (ZombieEntry c)) zs"
  shows "lazy_cleanup_loop chat_unref (length zs) w s = Inr (w\<lparr>zombie_list := foldr remove1 zs (zombie_list w)\<rparr>, s)"
  using assms
proof (induction zs arbitrary: w rule: rev_induct)
  case (snoc z zs)
  then show ?case by (simp add: chat_unref_def)
qed simp

lemma foldr_remove1: "distinct xs \<Longrightarrow> foldr remove1 zs xs = filter (\<lambda>x. x \<notin> set zs) xs"
proof (induction zs)
  case (Cons z zs)
  then have "foldr remove1 (z # zs) xs = filter (\<lambda>x. z \<noteq> x) (filter (\<lambda>x. x \<notin> set zs) xs)"
    by (simp add: distinct_remove1_removeAll removeAll_filter_not_eq)
  then show ?case by (simp add: conj_commute cong: filter_cong) (metis (mono_tags, lifting) filter_cong)
qed simp

section \<open>Properties\<close>

text \<open>(C18) Closing a connection is total, final and idempotent: no assertion fails; afterwards the connection
  is in no room (every other connection where it was), marked as quitted with the time of its first close, takes no
  more messages, is logged off if it had a name, and owns no descriptor; closing it again changes nothing.\<close>

theorem close_is_final:
  assumes "rooms_ok w" and "ready E w" and "\<forall>rm \<in> set (room_factory w). good_name (room_name rm)"
    and "wf_txt (chat_name (conns w c))" and "t_len (chat_name (conns w c)) \<le> 100" and "now E \<noteq> 0"
  shows "\<exists>r w'. default_chat_close E c w = Inr (r, w') \<and> rooms_ok w' \<and> members w' = (members w)(c := None) \<and>
    quited_at (conns w' c) \<noteq> 0 \<and> default_chat_send E c t fl w' = (-1, w') \<and>
    (t_len (chat_name (conns w c)) \<noteq> 0 \<longrightarrow> \<not> has (cstate (conns w' c)) CHAT_LOGGED_IN) \<and>
    (bubble_up (strm (conns w c)) = None \<longrightarrow>
      strm_fd (strm (conns w' c)) = INVALID_FD \<and> default_chat_close E c w' = Inr (0, w'))"
proof -
  obtain r w' where w': "default_chat_close E c w = Inr (r, w')" using close_total [OF assms(1-5)] by blast
  note R = close_result [OF assms(1) w']
  have q: "quited_at (conns w' c) \<noteq> 0" using R assms(6) by simp
  have s: "default_chat_send E c t fl w' = (-1, w')" using R by (auto simp: default_chat_send_def has_or_flag)
  have "default_chat_close E c w' = Inr (0, w')" if "bubble_up (strm (conns w c)) = None"
    by (rule close_again) (use R q that in auto)
  with w' R q s show ?thesis by (intro exI [of _ r] exI [of _ w']) auto
qed

lemma close_is_final_witness:
  "\<exists>r w'. default_chat_close sample_env 1 sample_world = Inr (r, w') \<and> rooms_ok w' \<and> members w' = (members sample_world)(1 := None) \<and>
    quited_at (conns w' 1) \<noteq> 0 \<and> default_chat_send sample_env 1 zero_txt 0 w' = (-1, w') \<and>
    (t_len (chat_name (conns sample_world 1)) \<noteq> 0 \<longrightarrow> \<not> has (cstate (conns w' 1)) CHAT_LOGGED_IN) \<and>
    (bubble_up (strm (conns sample_world 1)) = None \<longrightarrow>
      strm_fd (strm (conns w' 1)) = INVALID_FD \<and> default_chat_close sample_env 1 w' = Inr (0, w'))"
  by (rule close_is_final [OF sample_rooms(1) sample_ready(1) sample_rooms(2)])
     (simp_all add: sample_world_def sample_conn_def sample_env_def)

text \<open>The sweep of the zombies frees the wrong ones. On every eleventh call the fiber queues for release
  exactly the connections that were closed at most 120 seconds ago, and the next step of the lazy calls removes them:
  the ones that have been dead for more than 120 seconds stay for ever.\<close>

theorem sweep_keeps_the_old:
  assumes "gear w = 10" and "distinct (zombie_list w)" and "length (zombie_list w) \<le> NGINZ_LAZY_OBJECT_QUEUE_SIZE"
    and "lazy_stack_count (lazy_data w) = 0" and "lazy_cleanup_count (lazy_data w) = 0"
    and "\<forall>c \<in> set (zombie_list w). quited_at (conns w c) \<noteq> 0"
  shows "\<exists>w1 w2. chat_lazy_cleanup_fiber E w = Inr (0, w1) \<and> chat_lazy_step w1 = Inr w2 \<and> gear w2 = 0 \<and>
    zombie_list w2 = filter (\<lambda>c. now E - quited_at (conns w c) > 120) (zombie_list w)"
proof -
  let ?w = "w\<lparr>gear := 0\<rparr>" and ?zs = "filter (swept E w) (zombie_list w)"
  have sw: "swept E ?w = swept E w" by (simp add: swept_def fun_eq_iff)
  have p0: "pending_objects (lazy_data ?w) = []" using assms(5) by (simp add: pending_objects_def)
  obtain l where l: "sweep_loop E (zombie_list w) ?w = Inr (?w\<lparr>lazy_data := l\<rparr>)" "lazy_stack_count l = 0"
      "pending_objects l = map (\<lambda>c. Some (ZombieEntry c)) ?zs"
    using sweep_loop_result [of ?w "zombie_list w" E] assms(3-5) p0 sw by auto
  have n: "lazy_cleanup_count l = length ?zs"
    using arg_cong [OF l(3), of length] by (simp add: pending_objects_def)
  have f: "chat_lazy_cleanup_fiber E w = Inr (0, ?w\<lparr>lazy_data := l\<rparr>)"
  proof (cases "zombie_list w = []")
    case True
    then have "?w\<lparr>lazy_data := l\<rparr> = ?w" using l(1) by simp
    then show ?thesis using True assms(1) by (simp add: chat_lazy_cleanup_fiber_def)
  next
    case False
    then show ?thesis using l(1) assms(1) by (simp add: chat_lazy_cleanup_fiber_def)
  qed
  let ?w1 = "?w\<lparr>lazy_data := l\<rparr>" and ?l0 = "l\<lparr>lazy_stack_count := 0\<rparr>"
  have "map (lazy_cleanup_objects ?l0) [0..<length ?zs] = map (\<lambda>c. Some (ZombieEntry c)) ?zs"
    using l(3) n by (simp add: pending_objects_def)
  from unref_loop_result [OF this, of ?w1]
  have u: "lazy_cleanup_loop chat_unref (length ?zs) ?w1 ?l0 = Inr (?w1\<lparr>zombie_list := foldr remove1 ?zs (zombie_list w)\<rparr>, ?l0)"
    by simp
  have "foldr remove1 ?zs (zombie_list w) = filter (\<lambda>c. now E - quited_at (conns w c) > 120) (zombie_list w)"
    unfolding foldr_remove1 [OF assms(2)] using assms(6) by (intro filter_cong) (auto simp: swept_def)
  then show ?thesis
    using f u l(2) n by (simp add: chat_lazy_step_def lazy_call_step_def Let_def)
qed

definition dead_world :: "(target \<times> bytes \<times> int) list chat_world" where
  "dead_world = sample_world\<lparr>gear := 10, zombie_list := [3, 4],
     conns := (\<lambda>c. (sample_conn c)\<lparr>quited_at := (if c = 3 then 990 else 100)\<rparr>)\<rparr>"

lemma sweep_keeps_the_old_witness:
  "\<exists>w1 w2. chat_lazy_cleanup_fiber sample_env dead_world = Inr (0, w1) \<and> chat_lazy_step w1 = Inr w2 \<and> gear w2 = 0 \<and>
     zombie_list w2 = filter (\<lambda>c. now sample_env - quited_at (conns dead_world c) > 120) (zombie_list dead_world)"
  by (rule sweep_keeps_the_old) (simp_all add: NGINZ_LAZY_OBJECT_QUEUE_SIZE_def dead_world_def sample_world_def)

end
