(* ===== verification/PluginManager.thy ===== *)
theory PluginManager
  imports Plugin
begin

text \<open>
  The plugins of a process, \<open>base/src/plugin_manager.c\<close>, and the commands of the control shell that visit
  them, \<open>base/src/shake/help.c\<close> and \<open>base/src/shake/test.c\<close>. The global pointer \<open>coreplug\<close> is an optional container;
  \<open>D\<close> runs the describing function of a plugin on its space. The functions that the modules plug into this container
  are the constructors of \<open>core_plug\<close>, named as in the code.
\<close>

section \<open>Code\<close>

datatype core_plug =
  Plugin_command | Help_command | Test_command | Enumerate_command | Ping_command
| Shake_soft_quitall_command | Shake_quitall_command | Shake_stop_on_fork
| Fiber_status_command | Binary_coder_test | Event_loop_test
| Pp_fork_child_after | Pp_fork_parent_after | Pp_update_siblings_pid
| On_raw_socket_setup | Tcp_listener_stop
| Async_db_CAS_hook | Async_db_set_if_null_hook | Async_db_unset_hook | Async_db_get_hook | Async_db_dump_hook
| Chat_factory_on_softquit | Chat_zombie_on_softquit | Chat_accept_on_softquit
| On_asyncchat_login_hook | On_asyncchat_room_pid | On_asyncchat_rooms
| On_async_room_call_master | Default_room_fork_parent_after | Default_room_fork_child_after | Chat_plugin_command
| Http_factory_on_softquit | Http_factory_hookup | Http_accept_hookup | Http_parser_hookup | Http_plugin_command
| Web_session_factory_on_softquit | Web_session_api_plug

definition pm_call ::
    "aroop \<Rightarrow> ('h, nat) table_api \<Rightarrow> ('f, 'w) callback_runner \<Rightarrow> ('f, 'e, 'h) composite_plugin option \<Rightarrow> aroop_txt_t \<Rightarrow>
     aroop_txt_t \<Rightarrow> aroop_txt_t \<Rightarrow> 'w \<Rightarrow> (32 word \<times> aroop_txt_t \<times> 'w) exec" where
  "pm_call A T R coreplug space input output w =
     ebind (aroop_assert A (coreplug \<noteq> None)) (\<lambda>_.
     case coreplug of None \<Rightarrow> Inl NullDeref | Some c \<Rightarrow> composite_plugin_call A T R c space input output w)"

definition pm_bridge_call ::
    "aroop \<Rightarrow> ('h, nat) table_api \<Rightarrow> ('f, 'd, 'w) bridge_runner \<Rightarrow> ('f, 'e, 'h) composite_plugin option \<Rightarrow> aroop_txt_t \<Rightarrow>
     int \<Rightarrow> 'd \<Rightarrow> 'w \<Rightarrow> (32 word \<times> 'w) exec" where
  "pm_bridge_call A T B coreplug space signature d w =
     ebind (aroop_assert A (coreplug \<noteq> None)) (\<lambda>_.
     case coreplug of None \<Rightarrow> Inl NullDeref | Some c \<Rightarrow> composite_plugin_bridge_call A T B c space signature d w)"

type_synonym 'e desc_runner = "'e \<Rightarrow> aroop_txt_t \<Rightarrow> aroop_txt_t"

definition plugin_command_helper :: "aroop \<Rightarrow> 'e desc_runner \<Rightarrow> ('f, 'e, aroop_txt_t) plugin_visitor" where
  "plugin_command_helper A D p output = Inr (aroop_txt_concat A output (D (plugin_desc_cb p) (plugin_space p)))"

definition plugin_command ::
    "aroop \<Rightarrow> ('h, nat) table_api \<Rightarrow> 'e desc_runner \<Rightarrow> ('f, 'e, 'h) composite_plugin \<Rightarrow> aroop_txt_t exec" where
  "plugin_command A T D c = composite_plugin_visit_all T (plugin_command_helper A D) c (aroop_txt_buffer A 1024)"

definition plugin_command_desc :: "aroop \<Rightarrow> bytes \<Rightarrow> aroop_txt_t \<Rightarrow> aroop_txt_t" where
  "plugin_command_desc A source_file space =
     plugin_desc A (lit ''plugin'') (lit ''shake'') space source_file (lit ''It dumps the avilable plugins'' @ [10])"

text \<open>A module plugs its functions one after the other; the file and line the macros add are not used by the code.\<close>

definition callback_at :: "aroop \<Rightarrow> string \<Rightarrow> 'f \<Rightarrow> ('f, 'f) plug_request" where
  "callback_at A space f = (CALLBACK_PLUGIN, aroop_txt_static_string A (lit space), f, f)"

definition bridge_at :: "aroop \<Rightarrow> string \<Rightarrow> 'f \<Rightarrow> ('f, 'f) plug_request" where
  "bridge_at A space f = (BRIDGE_PLUGIN, aroop_txt_static_string A (lit space), f, f)"

definition pm_init ::
    "aroop \<Rightarrow> ('h, nat) table_api \<Rightarrow> (core_plug, core_plug, 'h) composite_plugin option \<Rightarrow>
     (core_plug, core_plug, 'h) composite_plugin exec" where
  "pm_init A T coreplug =
     ebind (aroop_assert A (coreplug = None)) (\<lambda>_.
     plug_seq A T [callback_at A ''shake/plugin'' Plugin_command] (composite_plugin_create T))"

definition help_command_helper :: "aroop \<Rightarrow> 'e desc_runner \<Rightarrow> ('f, 'e, aroop_txt_t) plugin_visitor" where
  "help_command_helper A D p output =
     (let prefix = aroop_txt_set_length A (aroop_txt_copy_on_demand A (plugin_space p)) 6
      in if aroop_txt_equals A prefix (aroop_txt_static_string A (lit ''shake/''))
         then Inr (aroop_txt_concat A output (D (plugin_desc_cb p) (plugin_space p)))
         else Inr output)"

definition help_command ::
    "aroop \<Rightarrow> ('h, nat) table_api \<Rightarrow> 'e desc_runner \<Rightarrow> ('f, 'e, 'h) composite_plugin \<Rightarrow> aroop_txt_t exec" where
  "help_command A T D c = composite_plugin_visit_all T (help_command_helper A D) c (aroop_txt_buffer A 1024)"

definition help_command_desc :: "aroop \<Rightarrow> bytes \<Rightarrow> aroop_txt_t \<Rightarrow> aroop_txt_t" where
  "help_command_desc A source_file space =
     plugin_desc A (lit ''help'') (lit ''shake'') space source_file (lit ''It displays the command usage.'' @ [10])"

text \<open>The union of a plugin holds one pointer, so the tester runs the payload whatever its category.\<close>

definition test_command_tester ::
    "aroop \<Rightarrow> ('f, 'w) callback_runner \<Rightarrow> ('f, 'e, aroop_txt_t \<times> 'w) plugin_visitor" where
  "test_command_tester A R p = (\<lambda>(output, w).
     ebind (aroop_assert A (category p \<noteq> INVALID_PLUGIN)) (\<lambda>_.
     ebind (aroop_assert A (t_len (plugin_space p) \<noteq> 0)) (\<lambda>_.
     let prefix = aroop_txt_set_length A (aroop_txt_copy_on_demand A (plugin_space p)) 5
     in if \<not> aroop_txt_equals A prefix (aroop_txt_static_string A (lit ''test/'')) then Inr (output, w)
        else case payload p of
               None \<Rightarrow> Inl NullDeref
             | Some f \<Rightarrow> ebind (R f zero_txt zero_txt w) (\<lambda>(_, xdesc, w'). Inr (aroop_txt_concat A output xdesc, w')))))"

definition test_command ::
    "aroop \<Rightarrow> ('h, nat) table_api \<Rightarrow> ('f, 'w) callback_runner \<Rightarrow> ('f, 'e, 'h) composite_plugin \<Rightarrow> 'w \<Rightarrow>
     (aroop_txt_t \<times> 'w) exec" where
  "test_command A T R c w =
     ebind (composite_plugin_visit_all T (test_command_tester A R) c (aroop_txt_buffer A 512, w)) (\<lambda>(output, w').
     Inr (aroop_txt_concat_string A output ([10] @ lit ''Tests Complete'' @ [10]), w'))"

definition test_command_desc :: "aroop \<Rightarrow> bytes \<Rightarrow> aroop_txt_t \<Rightarrow> aroop_txt_t" where
  "test_command_desc A source_file space =
     plugin_desc A (lit ''test'') (lit ''shake'') space source_file (lit ''It tests all the test cases.'' @ [10])"

text \<open>\<open>enumerate.c\<close>: a counter that every call shows and that all callers share.\<close>

definition enumerate_command :: "aroop \<Rightarrow> int \<Rightarrow> int \<times> aroop_txt_t" where
  "enumerate_command A accumulator =
     (let a = accumulator + 1
      in (a, aroop_txt_printf A (aroop_txt_buffer A 32) (lit ''-> ['' @ dec_int a @ lit '']'' @ [10])))"

section \<open>Visiting\<close>

lemma plug_seq_append: "plug_seq A T (rs @ qs) c = ebind (plug_seq A T rs c) (plug_seq A T qs)"
proof (induction rs arbitrary: c)
  case (Cons r rs)
  then show ?case by (cases "plug_one A T r c") auto
qed simp

fun visit_list :: "('p \<Rightarrow> 'v \<Rightarrow> 'v exec) \<Rightarrow> 'p list \<Rightarrow> 'v \<Rightarrow> 'v exec" where
  "visit_list V [] v = Inr v"
| "visit_list V (p # ps) v = ebind (V p v) (visit_list V ps)"

lemma visit_list_append: "visit_list V (ps @ qs) v = ebind (visit_list V ps v) (visit_list V qs)"
proof (induction ps arbitrary: v)
  case (Cons p ps)
  then show ?case by (cases "V p v") simp_all
qed simp

text \<open>The plugins in the order of a visit.\<close>

definition visited :: "('h, nat) table_api \<Rightarrow> ('f, 'e, 'h) composite_plugin \<Rightarrow> ('f, 'e) internal_plugin list" where
  "visited T c = concat (map (\<lambda>(k, _). map ((!) (objects c)) (addrs T c (str k))) (opp_hash_table_traverse T (ptable c)))"

lemma visit_chain:
  assumes "path hp (Some a) as" and "length as \<le> n"
  shows "visit_all_helper V hp n a v = visit_list V (map ((!) hp) as) v"
  using assms
proof (induction as arbitrary: a n v)
  case (Cons b as)
  obtain m where n: "n = Suc m" "length as \<le> m" using Cons.prems(2) by (cases n) auto
  show ?case
  proof (cases "next_plugin (hp ! a)")
    case None
    then have "as = []" using Cons.prems(1) by (cases as) auto
    then show ?thesis using Cons.prems n None by (cases "V (hp ! a) v") auto
  next
    case (Some c)
    then have "visit_all_helper V hp m c = visit_list V (map ((!) hp) as)"
      using Cons.IH [of c m] Cons.prems(1) n(2) by (auto simp: fun_eq_iff)
    then show ?thesis using Cons.prems n Some by simp
  qed
qed simp

lemma visit_chains_list:
  assumes "plugins_wf T c" and "\<forall>(k, a) \<in> set kas. table_map T (ptable c) (str k) = Some a"
  shows "visit_chains V (objects c) (map snd kas) v =
    visit_list V (concat (map (\<lambda>(k, _). map ((!) (objects c)) (addrs T c (str k))) kas)) v"
  using assms(2)
proof (induction kas arbitrary: v)
  case (Cons ka kas)
  obtain k a where ka: "ka = (k, a)" by (cases ka)
  note w = wf_addrs(1,2) [OF assms(1), of "str k"]
  have "visit_all_helper V (objects c) (length (objects c)) a v = visit_list V (map ((!) (objects c)) (addrs T c (str k))) v" for v
    using visit_chain [of "objects c" a] w path_length [OF w] Cons.prems ka by simp
  then show ?case
    using Cons ka by (simp add: visit_list_append cong: ebind_cong)
qed simp

lemma visit_all_list:
  assumes "table_ok T" and "plugins_wf T c"
  shows "composite_plugin_visit_all T V c v = visit_list V (visited T c) v"
proof -
  have "\<forall>(k, a) \<in> set (opp_hash_table_traverse T (ptable c)). table_map T (ptable c) (str k) = Some a"
    using table_traverse_iff [OF assms(1), of _ "ptable c"] by blast
  then show ?thesis
    using visit_chains_list [OF assms(2)] by (simp add: composite_plugin_visit_all_def visited_def)
qed

text \<open>A list cut into the parts of its classes, in any order of the classes.\<close>

lemma mset_parts:
  assumes "distinct ks" and "f ` set xs \<subseteq> set ks"
  shows "mset (concat (map (\<lambda>k. filter (\<lambda>x. f x = k) xs) ks)) = mset xs"
  using assms(2)
proof (induction xs)
  case Nil
  then show ?case by (induction ks) auto
next
  case (Cons x xs)
  have "mset (concat (map (\<lambda>k. filter (\<lambda>y. f y = k) (x # xs)) ks)) =
      mset (concat (map (\<lambda>k. filter (\<lambda>y. f y = k) xs) ks)) + (if f x \<in> set ks then {#x#} else {#})"
    using assms(1) by (induction ks) auto
  then show ?case using Cons by simp
qed

definition request_of :: "('f, 'e) internal_plugin \<Rightarrow> bytes \<times> ('f, 'e) registered" where
  "request_of p = (str (plugin_space p), reg_of p)"

definition as_registered :: "('f, 'e) plug_request \<Rightarrow> bytes \<times> ('f, 'e) registered" where
  "as_registered = (\<lambda>(cat, space, f, d). (str space, cat, Some f, d))"

lemma requested_registered:
  "map (Pair k) (requested rs k) = filter (\<lambda>x. fst x = k) (map as_registered rs)"
  by (induction rs) (auto simp: requested_def as_registered_def)

lemma visited_all:
  assumes T: "table_ok T" and c: "plugins_wf T c" and rs: "plugins_at T c = requested rs"
  shows "mset (map request_of (visited T c)) = mset (map as_registered rs)"
proof -
  let ?tr = "opp_hash_table_traverse T (ptable c)"
  let ?ks = "map (\<lambda>p. str (fst p)) ?tr"
  have part: "map request_of (map ((!) (objects c)) (addrs T c k)) = filter (\<lambda>x. fst x = k) (map as_registered rs)" for k
  proof -
    have "map request_of (map ((!) (objects c)) (addrs T c k)) = map (Pair k) (plugins_at T c k)"
      using wf_addrs(3) [OF c, of k] by (simp add: request_of_def plugins_at_def comp_def)
    then show ?thesis by (simp add: rs requested_registered)
  qed
  have "map request_of (visited T c) = concat (map (\<lambda>k. filter (\<lambda>x. fst x = k) (map as_registered rs)) ?ks)"
    by (simp add: visited_def map_concat comp_def case_prod_unfold part [unfolded comp_def map_map])
  moreover have "distinct ?ks" using T by (simp add: table_ok_def)
  moreover have "fst ` set (map as_registered rs) \<subseteq> set ?ks"
  proof
    fix k assume "k \<in> fst ` set (map as_registered rs)"
    then have "filter (\<lambda>x. fst x = k) (map as_registered rs) \<noteq> []" by (auto simp: filter_empty_conv)
    then have "addrs T c k \<noteq> []" using part [of k] by auto
    then obtain a where "table_map T (ptable c) k = Some a"
      by (cases "table_map T (ptable c) k") (simp_all add: addrs_def)
    then obtain t where "(t, a) \<in> set ?tr" "str t = k" using table_traverse_iff [OF T, of a "ptable c" k] by blast
    then show "k \<in> set ?ks" by force
  qed
  ultimately show ?thesis by (simp only: mset_parts)
qed

lemma visited_wf: "plugins_wf T c \<Longrightarrow> p \<in> set (visited T c) \<Longrightarrow> wf_txt (plugin_space p)"
  using wf_addrs(4) [of T c] by (fastforce simp: visited_def)

section \<open>Commands that describe plugins\<close>

text \<open>The describing functions print \<open>about d\<close> of the name of the space, for the plugins of \<open>rs\<close>.\<close>

definition describes :: "('f, 'e) plug_request list \<Rightarrow> 'e desc_runner \<Rightarrow> ('e \<Rightarrow> bytes \<Rightarrow> bytes) \<Rightarrow> bool" where
  "describes rs D about \<longleftrightarrow> (\<forall>(cat, space, f, d) \<in> set rs. \<forall>sp. wf_txt sp \<longrightarrow> str sp = str space \<longrightarrow>
     wf_txt (D d sp) \<and> str (D d sp) = about d (str sp))"

lemma describesD:
  assumes "describes rs D about" and "request_of p \<in> set (map as_registered rs)" and "wf_txt (plugin_space p)"
  shows "wf_txt (D (plugin_desc_cb p) (plugin_space p)) \<and> str (D (plugin_desc_cb p) (plugin_space p)) = about (plugin_desc_cb p) (str (plugin_space p))"
proof -
  obtain cat space f where "(cat, space, f, plugin_desc_cb p) \<in> set rs" "str (plugin_space p) = str space"
    using assms(2) by (auto simp: request_of_def as_registered_def reg_of_def)
  then show ?thesis using assms(1,3) unfolding describes_def by fastforce
qed

definition listing :: "('e \<Rightarrow> bytes \<Rightarrow> bytes) \<Rightarrow> (bytes \<Rightarrow> bool) \<Rightarrow> (bytes \<times> ('f, 'e) registered) list \<Rightarrow> bytes list" where
  "listing about Q ps = map (\<lambda>(k, _, _, d). about d k) (filter (\<lambda>p. Q (fst p)) ps)"

lemma listing_mset: "mset ps = mset qs \<Longrightarrow> mset (listing about Q ps) = mset (listing about Q qs)"
  by (simp add: listing_def)

lemma length_concat_mset: "mset xs = mset ys \<Longrightarrow> length (concat xs) = length (concat ys)"
  unfolding length_concat by (metis mset_map sum_mset_sum_list)

lemma describe_loop:
  assumes "aroop_ok A" and "describes rs D about"
    and "\<And>p out. p \<in> set ps \<Longrightarrow> wf_txt (plugin_space p) \<and> request_of p \<in> set (map as_registered rs) \<and>
      V p out = Inr (if Q (str (plugin_space p)) then aroop_txt_concat A out (D (plugin_desc_cb p) (plugin_space p)) else out)"
    and "built n out bs" and "length bs + length (concat (listing about Q (map request_of ps))) \<le> n"
  shows "\<exists>out'. visit_list V ps out = Inr out' \<and> built n out' (bs @ concat (listing about Q (map request_of ps)))"
  using assms(3-5)
proof (induction ps arbitrary: out bs)
  case Nil
  then show ?case by (simp add: listing_def)
next
  case (Cons p ps)
  let ?d = "D (plugin_desc_cb p) (plugin_space p)" and ?a = "about (plugin_desc_cb p) (str (plugin_space p))"
  have p: "wf_txt (plugin_space p)" "request_of p \<in> set (map as_registered rs)"
    "\<And>out. V p out = Inr (if Q (str (plugin_space p)) then aroop_txt_concat A out ?d else out)"
    using Cons.prems(1) [of p] by simp_all
  have d: "wf_txt ?d" "str ?d = ?a" using describesD [OF assms(2) p(2,1)] by simp_all
  let ?b = "if Q (str (plugin_space p)) then ?a else []"
  have l: "concat (listing about Q (map request_of (p # ps))) = ?b @ concat (listing about Q (map request_of ps))"
    by (simp add: listing_def request_of_def reg_of_def)
  obtain out1 where out1: "V p out = Inr out1" "built n out1 (bs @ ?b)"
  proof (cases "Q (str (plugin_space p))")
    case True
    then have "built n (aroop_txt_concat A out ?d) (bs @ str ?d)"
      using built_concat [OF assms(1) Cons.prems(2) d(1)] Cons.prems(3) length_str [OF d(1)] l d(2) by simp
    then show ?thesis using that p(3) True d(2) by simp
  next
    case False
    then show ?thesis using that p(3) Cons.prems(2) by simp
  qed
  have "\<exists>out'. visit_list V ps out1 = Inr out' \<and> built n out' ((bs @ ?b) @ concat (listing about Q (map request_of ps)))"
    by (rule Cons.IH) (use Cons.prems(1,3) out1(2) l in auto)
  then show ?case using out1(1) l by auto
qed

text \<open>A visit over a container filled by requests describes each of them that \<open>Q\<close> admits once.\<close>

lemma describe_all:
  assumes "aroop_ok A" "table_ok T" and "describes rs D about"
    and V: "\<And>p out. wf_txt (plugin_space p) \<Longrightarrow> str (plugin_space p) \<in> fst ` set (map as_registered rs) \<Longrightarrow>
      V p out = Inr (if Q (str (plugin_space p)) then aroop_txt_concat A out (D (plugin_desc_cb p) (plugin_space p)) else out)"
    and out: "built n out []" and n: "length (concat (listing about Q (map as_registered rs))) \<le> n"
    and c: "plugins_wf T c" "plugins_at T c = requested rs"
  shows "\<exists>lines out'. mset lines = mset (listing about Q (map as_registered rs)) \<and>
    composite_plugin_visit_all T V c out = Inr out' \<and> built n out' (concat lines)"
proof -
  note all = visited_all [OF assms(2) c]
  let ?ls = "listing about Q (map request_of (visited T c))"
  have ls: "mset ?ls = mset (listing about Q (map as_registered rs))" by (rule listing_mset [OF all])
  have mem: "request_of p \<in> set (map as_registered rs)" "str (plugin_space p) \<in> fst ` set (map as_registered rs)"
    if "p \<in> set (visited T c)" for p
  proof -
    have "request_of p \<in> set (map request_of (visited T c))" using that by simp
    then show "request_of p \<in> set (map as_registered rs)" using mset_eq_setD [OF all] by simp
    then have "fst (request_of p) \<in> fst ` set (map as_registered rs)" by (rule imageI)
    then show "str (plugin_space p) \<in> fst ` set (map as_registered rs)" by (simp add: request_of_def)
  qed
  have "\<exists>out'. visit_list V (visited T c) out = Inr out' \<and> built n out' ([] @ concat ?ls)"
    by (rule describe_loop [OF assms(1,3)])
      (use visited_wf [OF c(1)] V mem out n length_concat_mset [OF ls] in auto)
  then obtain out' where "visit_list V (visited T c) out = Inr out'" "built n out' (concat ?ls)" by auto
  then have "composite_plugin_visit_all T V c out = Inr out' \<and> built n out' (concat ?ls)"
    by (simp add: visit_all_list [OF assms(2) c(1)])
  with ls show ?thesis by blast
qed

lemma built_buffer: "aroop_ok A \<Longrightarrow> built n (aroop_txt_buffer A n) []"
  using buffer_cap(1) [of A n] by (simp add: built_def buffer_laws str_def)

lemma plugin_desc_str:
  assumes A: "aroop_ok A" and sp: "wf_txt space"
    and "length nm + length ty + t_len space + length file_name + length d + 6 \<le> 128"
  shows "wf_txt (plugin_desc A nm ty space file_name d) \<and>
    str (plugin_desc A nm ty space file_name d) = nm @ [9] @ ty @ [9] @ str space @ [9] @ file_name @ [10] @ [9] @ [9] @ d"
proof -
  have l: "length (str space) = t_len space" by (rule length_str [OF sp])
  have "built 128 (plugin_desc A nm ty space file_name d)
      ((((((((((([] @ nm) @ [9]) @ ty) @ [9]) @ str space) @ [9]) @ file_name) @ [10]) @ [9]) @ [9]) @ d)"
    unfolding plugin_desc_def Let_def
    by (intro built_string [OF A] built_char [OF A] built_concat [OF A _ sp] built_buffer [OF A]) (use assms(3) l in simp_all)
  then show ?thesis by (simp add: built_def)
qed

lemma prefix_equals:
  assumes "aroop_ok A" and "wf_txt sp" and "n \<le> t_len sp"
  shows "aroop_txt_equals A (aroop_txt_set_length A (aroop_txt_copy_on_demand A sp) n) (aroop_txt_static_string A s) \<longleftrightarrow>
    take n (str sp) = s"
proof -
  let ?t = "aroop_txt_copy_on_demand A sp"
  have t: "wf_txt ?t" "str ?t = str sp" "t_len ?t = t_len sp"
    using copy_on_demand_laws [OF assms(1,2)] length_str [of ?t] length_str [OF assms(2)] by simp_all
  then have "aroop_txt_set_length A ?t n = ?t\<lparr>t_len := n\<rparr>" "wf_txt (?t\<lparr>t_len := n\<rparr>)"
    using set_length_law [OF assms(1), of n ?t] assms(3) by (simp_all add: wf_txt_def t_cap_def)
  moreover have "str (?t\<lparr>t_len := n\<rparr>) = take n (str ?t)" using t(3) assms(3) by (simp add: str_def min_def)
  ultimately have "aroop_txt_set_length A ?t n = ?t\<lparr>t_len := n\<rparr>" "wf_txt (?t\<lparr>t_len := n\<rparr>)" "str (?t\<lparr>t_len := n\<rparr>) = take n (str sp)"
    using t(2) by simp_all
  then show ?thesis by (simp add: equals_law [OF assms(1)] static_laws [OF assms(1)])
qed

section \<open>Properties\<close>

text \<open>The help of the control shell lists exactly the commands of the shell: whatever was plugged into the process,
  the answer to \<open>help\<close> is the descriptions of the plugins whose space starts with \<open>shake/\<close>, each once, when they fit its
  buffer of 1024 bytes.\<close>

theorem help_lists_shell_commands:
  assumes "aroop_ok A" and "table_ok T"
    and "\<forall>(cat, space, f, d) \<in> set rs. wf_txt space \<and> 6 \<le> t_len space \<and> cat \<noteq> INVALID_PLUGIN"
    and "describes rs D about"
    and "length (concat (listing about (\<lambda>k. take 6 k = lit ''shake/'') (map as_registered rs))) \<le> 1024"
  shows "\<exists>c lines out. plug_seq A T rs (composite_plugin_create T) = Inr c \<and>
    mset lines = mset (listing about (\<lambda>k. take 6 k = lit ''shake/'') (map as_registered rs)) \<and>
    help_command A T D c = Inr out \<and> str out = concat lines"
proof -
  have "\<forall>(cat, space, f, d) \<in> set rs. wf_txt space \<and> cat \<noteq> INVALID_PLUGIN" using assms(3) by auto
  then obtain c where c: "plug_seq A T rs (composite_plugin_create T) = Inr c" "plugins_wf T c" "plugins_at T c = requested rs"
    using plug_seq_fresh [OF assms(1,2)] by blast
  have "\<exists>lines out. mset lines = mset (listing about (\<lambda>k. take 6 k = lit ''shake/'') (map as_registered rs)) \<and>
    help_command A T D c = Inr out \<and> built 1024 out (concat lines)"
    unfolding help_command_def
  proof (rule describe_all [OF assms(1,2,4) _ built_buffer [OF assms(1)] assms(5) c(2,3)])
    fix p :: "('b, 'c) internal_plugin" and out
    assume p: "wf_txt (plugin_space p)" "str (plugin_space p) \<in> fst ` set (map as_registered rs)"
    have "6 \<le> t_len (plugin_space p)"
      using p assms(3) length_str [OF p(1)] by (auto simp: as_registered_def dest!: bspec) (metis length_str)
    then show "help_command_helper A D p out = Inr (if take 6 (str (plugin_space p)) = lit ''shake/''
        then aroop_txt_concat A out (D (plugin_desc_cb p) (plugin_space p)) else out)"
      using prefix_equals [OF assms(1) p(1)] by (simp add: help_command_helper_def Let_def)
  qed
  with c(1) show ?thesis by (auto simp: built_def)
qed

lemma help_lists_shell_commands_witness:
  "\<exists>c lines out. plug_seq ref_aroop ref_table [(CALLBACK_PLUGIN, txt_of (lit ''shake/fiber''), 1 :: nat, 7),
      (CALLBACK_PLUGIN, txt_of (lit ''test/coder''), 2, 8), (CALLBACK_PLUGIN, txt_of (lit ''shake/help''), 3, 9)]
      (composite_plugin_create ref_table) = Inr c \<and>
    mset lines = {#7 # lit ''shake/fiber'', 9 # lit ''shake/help''#} \<and>
    help_command ref_aroop ref_table (\<lambda>d sp. txt_of (d # str sp)) c = Inr out \<and> str out = concat lines"
  using help_lists_shell_commands [of ref_aroop ref_table "[(CALLBACK_PLUGIN, txt_of (lit ''shake/fiber''), 1 :: nat, 7),
      (CALLBACK_PLUGIN, txt_of (lit ''test/coder''), 2, 8), (CALLBACK_PLUGIN, txt_of (lit ''shake/help''), 3, 9)]"
      "\<lambda>d sp. txt_of (d # str sp)" "\<lambda>d k. d # k"]
  by (simp add: describes_def listing_def as_registered_def lit_def)

end
