(* ===== verification/ChatCommands.thy ===== *)
theory ChatCommands
  imports ChatLife PluginManager "HOL-Library.Signed_Division"
begin

text \<open>
  The commands of the chat server, one bridge plugin each: \<open>welcome.c\<close>, \<open>join.c\<close>, \<open>hiddenjoin.c\<close>,
  \<open>private_message.c\<close>, \<open>leave.c\<close>, \<open>quit.c\<close>, \<open>version.c\<close>, \<open>room.c\<close>, \<open>uptime.c\<close>, \<open>profiler.c\<close> and the help of
  \<open>chat_plugin_manager.c\<close> under \<open>apps/chat/src\<close>, with the hooks that the master's replies run. A text handed on by pointer is passed as a value;
  \<open>chat->request\<close> is the option of the text it points to, and \<open>aroop_txt_is_empty_magical\<close> holds of the
  null pointer too. Copies made by \<open>embeded_rebuild_copy_on_demand\<close> and \<open>stackbuffer_from_txt\<close> hold the
  same bytes as \<open>copy_deep\<close>, and formatted output is what \<open>printf\<close> writes, appended.
\<close>

section \<open>Welcome and log-in\<close>

definition set_greeting :: "'w chat_env \<Rightarrow> bytes list \<Rightarrow> 'w chat_world \<Rightarrow> 'w chat_world" where
  "set_greeting E parts w =
     w\<lparr>greet_on_login := foldl (aroop_txt_concat_string (lib E)) (aroop_txt_set_length (lib E) (greet_on_login w) 0) parts\<rparr>"

definition send_greeting :: "'w chat_env \<Rightarrow> nat \<Rightarrow> 'w chat_world \<Rightarrow> 'w chat_world" where
  "send_greeting E c w = (if t_len (greet_on_login w) \<noteq> 0 then send E c (greet_on_login w) 0 w else w)"

definition welcome_text :: "aroop \<Rightarrow> aroop_txt_t \<Rightarrow> aroop_txt_t \<Rightarrow> aroop_txt_t" where
  "welcome_text A greet nm =
     (let g1 = aroop_txt_concat_string A (aroop_txt_set_length A greet 0) (lit ''Welcome '');
          g2 = aroop_txt_concat A g1 nm
      in aroop_txt_concat_char A (aroop_txt_concat_char A g2 33) 10)"

definition login_succeeded :: "'w chat_env \<Rightarrow> nat \<Rightarrow> aroop_txt_t \<Rightarrow> 'w chat_world \<Rightarrow> 'w chat_world" where
  "login_succeeded E c nm w =
     (let w1 = upd_conn c (chat_name_update (\<lambda>_. aroop_txt_copy_deep (lib E) nm)) w;
          w2 = w1\<lparr>greet_on_login := welcome_text (lib E) (greet_on_login w1) nm\<rparr>
      in upd_conn c (set_bits CHAT_LOGGED_IN) (upd_conn c (on_response_callback_update (\<lambda>_. None)) w2))"

definition on_asyncchat_login_hook :: "'w chat_env \<Rightarrow> aroop_txt_t \<Rightarrow> 'w chat_world \<Rightarrow> (int \<times> 'w chat_world) exec" where
  "on_asyncchat_login_hook E bin w =
     (let A = lib E in
      ebind (aroop_assert A (t_len bin \<noteq> 0)) (\<lambda>_.
      ebind (binary_unpack_int A bin 2 0) (\<lambda>(_, cb_token).
      ebind (binary_unpack_int A bin 3 0) (\<lambda>(_, success).
      ebind (binary_unpack_string A bin 5 zero_txt) (\<lambda>(_, nm).
      if t_len nm = 0 then Inr (0, w)
      else ebind (chat_get cb_token w) (\<lambda>found.
        case found of
          None \<Rightarrow> Inr (0, w)
        | Some c \<Rightarrow>
            let w1 = (if success \<noteq> 0 then login_succeeded E c nm w
                      else set_greeting E [lit ''Sorry, name taken.'' @ [10]] w)
            in Inr (0, send_greeting E c w1)))))))"

definition login_hook :: "aroop \<Rightarrow> aroop_txt_t" where
  "login_hook A = aroop_txt_static_string A (lit ''on/asyncchat/login'')"

definition on_asyncchat_login :: "'w chat_env \<Rightarrow> nat \<Rightarrow> aroop_txt_t \<Rightarrow> 'w chat_world \<Rightarrow> (int \<times> 'w chat_world) exec" where
  "on_asyncchat_login E c answer w =
     (let A = lib E in
      if t_len answer = 0 then Inr (0, w)
      else
        ebind (aroop_assert A (cstate (conns w c) = CHAT_CONNECTED)) (\<lambda>_.
        case scanner_next_token A (aroop_txt_copy_shallow A answer) zero_txt of (input, nm) \<Rightarrow>
          ebind (if t_len nm = 0 then Inr (set_greeting E [lit ''Invalid name:(, try again'' @ [10]] w)
                 else if NGINZ_MAX_CHAT_USER_NAME_SIZE \<le> t_len nm
                 then Inr (set_greeting E [lit ''The name is too big'' @ [10]] w)
                 else ebind (async_try_login E nm (strm_token (strm (conns w c))) (login_hook A) w) (\<lambda>(_, w'). Inr w'))
            (\<lambda>w1. Inr (0, send_greeting E c w1))))"

definition chat_welcome_plug :: "'w chat_env \<Rightarrow> int \<Rightarrow> nat \<Rightarrow> 'w chat_world \<Rightarrow> (int \<times> 'w chat_world) exec" where
  "chat_welcome_plug E signature c w =
     ebind (aroop_assert (lib E) (signature = CHAT_SIGNATURE)) (\<lambda>_.
     if \<not> is_valid_chat c w then Inr (0, w)
     else
       ebind (aroop_assert (lib E) (cstate (conns w c) = CHAT_CONNECTED)) (\<lambda>_.
       Inr (0, send E c (aroop_txt_static_string (lib E)
                  (lit ''Welcome to NginZ chat server'' @ [10] @ lit ''Login name?'' @ [10])) 0
                (upd_conn c (on_response_callback_update (\<lambda>_. Some OnLogin)) w))))"

section \<open>Joining a room\<close>

definition join_command :: "aroop \<Rightarrow> aroop_txt_t \<Rightarrow> aroop_txt_t \<Rightarrow> aroop_txt_t" where
  "join_command A room nm =
     (let c1 = aroop_txt_concat_string A (aroop_txt_stackbuffer A 128) (lit ''chat/_hiddenjoin '');
          c2 = aroop_txt_concat_string A (aroop_txt_concat A c1 room) (lit '' '');
          c3 = aroop_txt_concat_string A (aroop_txt_concat A c2 nm) [10]
      in aroop_txt_zero_terminate A c3)"

definition chat_join_transfer :: "'w chat_env \<Rightarrow> nat \<Rightarrow> aroop_txt_t \<Rightarrow> int \<Rightarrow> 'w chat_world \<Rightarrow> (int \<times> 'w chat_world) exec" where
  "chat_join_transfer E c room pid w =
     ebind (broadcast_room_leave E c w) (\<lambda>(_, w1).
     let w2 = w1\<lparr>outside := loop_unregister (streams E) (strm_fd (strm (conns w1 c))) (outside w1)\<rparr>;
         cmd = join_command (lib E) room (chat_name (conns w2 c))
     in ebind (default_transfer_parallel (lib E) (streams E) (strm (conns w2 c)) (word_of_int pid) NGINZ_CHAT_PORT cmd (outside w2))
          (\<lambda>(_, o3).
        let w3 = upd_conn c (set_bits CHAT_SOFT_QUIT) (w2\<lparr>outside := o3\<rparr>)
        in ebind (lazy_cleanup (lib E) (Some (ChatRef c)) (lazy_data w3)) (\<lambda>(_, l). Inr (0, w3\<lparr>lazy_data := l\<rparr>))))"

definition chat_join_helper :: "'w chat_env \<Rightarrow> nat \<Rightarrow> aroop_txt_t \<Rightarrow> int \<Rightarrow> 'w chat_world \<Rightarrow> (int \<times> 'w chat_world) exec" where
  "chat_join_helper E c room pid w =
     (if pid \<noteq> sint (my_pid E) then ebind (chat_join_transfer E c room pid w) (\<lambda>(_, w'). Inr (0, w'))
      else ebind (broadcast_room_join E c room w) (\<lambda>(_, w'). Inr (0, w')))"

definition chat_join_get_room :: "aroop \<Rightarrow> aroop_txt_t \<Rightarrow> aroop_txt_t \<Rightarrow> int \<times> aroop_txt_t" where
  "chat_join_get_room A req room =
     (let sandbox = aroop_txt_concat A (aroop_txt_stackbuffer A (t_len req)) req
      in (case scanner_next_token A sandbox zero_txt of (_, token) \<Rightarrow>
            if t_len token = 0 then (-1, room)
            else (0, aroop_txt_zero_terminate A (aroop_txt_copy_deep A token))))"

definition room_unavailable :: bytes where "room_unavailable = lit ''The room is not avilable'' @ [10]"

definition on_asyncchat_room_pid :: "'w chat_env \<Rightarrow> aroop_txt_t \<Rightarrow> 'w chat_world \<Rightarrow> (int \<times> 'w chat_world) exec" where
  "on_asyncchat_room_pid E bin w =
     (let A = lib E in
      ebind (aroop_assert A (t_len bin \<noteq> 0)) (\<lambda>_.
      ebind (binary_unpack_int A bin 2 0) (\<lambda>(_, cb_token).
      ebind (binary_unpack_string A bin 4 zero_txt) (\<lambda>(_, key).
      let room = snd (chat_room_convert_room_from_room_pid_key A key)
      in ebind (binary_unpack_string A bin 5 zero_txt) (\<lambda>(_, pidstr).
      let pidstrdup = aroop_txt_zero_terminate A (aroop_txt_concat A (aroop_txt_stackbuffer A 32) pidstr)
      in ebind (chat_get cb_token w) (\<lambda>found.
         case found of
           None \<Rightarrow> Inr (0, w)
         | Some c \<Rightarrow>
             let pid = aroop_txt_to_int A pidstrdup
             in if pid \<le> 0 \<or> t_len room = 0 then Inr (0, send E c (aroop_txt_static_string A room_unavailable) 0 w)
                else
                  let info = aroop_txt_concat_string A (aroop_txt_stackbuffer A 64) (lit ''Trying ...('' @ dec_int pid @ lit '')'' @ [10])
                  in ebind (chat_join_helper E c room pid (send E c info MSG_MORE w)) (\<lambda>(_, w'). Inr (0, w'))))))))"

definition chat_join_plug :: "'w chat_env \<Rightarrow> int \<Rightarrow> nat \<Rightarrow> 'w chat_world \<Rightarrow> (int \<times> 'w chat_world) exec" where
  "chat_join_plug E signature c w =
     (let A = lib E in
      ebind (aroop_assert A (signature = CHAT_SIGNATURE)) (\<lambda>_.
      if \<not> is_valid_chat c w then Inr (0, w)
      else if t_len (chat_name (conns w c)) = 0
      then Inr (0, send E c (aroop_txt_static_string A (lit ''Please login first'' @ [10])) 0 w)
      else
        ebind (case request (conns w c) of
                 None \<Rightarrow> Inr (-1, w)
               | Some req \<Rightarrow>
                   if t_len req = 0 then Inr (-1, w)
                   else (case chat_join_get_room A req zero_txt of (ret, room) \<Rightarrow>
                     if ret \<noteq> 0 then Inr (-1, w)
                     else chat_room_get_pid E room (strm_token (strm (conns w c)))
                            (aroop_txt_static_string A (lit ''on/asyncchat/room/pid'')) w)) (\<lambda>(ret, w1).
        if ret = -1 then Inr (0, send E c (aroop_txt_static_string A room_unavailable) 0 w1)
        else Inr (0, send E c (aroop_txt_concat_string A (aroop_txt_stackbuffer A 64) (lit ''Trying ...'' @ [10])) MSG_MORE w1))))"

text \<open>The command that another process sends along with the socket.\<close>

definition chat_hiddenjoin_get_room_and_name ::
    "aroop \<Rightarrow> aroop_txt_t \<Rightarrow> aroop_txt_t \<Rightarrow> aroop_txt_t \<Rightarrow> int \<times> aroop_txt_t \<times> aroop_txt_t" where
  "chat_hiddenjoin_get_room_and_name A req room nm =
     (case scanner_next_token A (aroop_txt_copy_deep A req) zero_txt of (s1, t1) \<Rightarrow>
      if t_len t1 = 0 then (-1, room, nm)
      else (case scanner_next_token A s1 t1 of (s2, t2) \<Rightarrow>
        if t_len t2 = 0 then (-1, room, nm)
        else
          let room' = aroop_txt_zero_terminate A (aroop_txt_copy_deep A t2)
          in (case scanner_next_token A s2 t2 of (s3, t3) \<Rightarrow>
            if t_len t3 = 0 then (-1, room', nm)
            else (0, room', aroop_txt_zero_terminate A (aroop_txt_copy_deep A t3)))))"

definition chat_hiddenjoin_plug :: "'w chat_env \<Rightarrow> int \<Rightarrow> nat \<Rightarrow> 'w chat_world \<Rightarrow> (int \<times> 'w chat_world) exec" where
  "chat_hiddenjoin_plug E signature c w =
     (let A = lib E in
      ebind (aroop_assert A (signature = CHAT_SIGNATURE)) (\<lambda>_.
      if \<not> is_valid_chat c w then Inr (0, w)
      else
        let w1 = upd_conn c (set_bits CHAT_LOGGED_IN) w
        in (case request (conns w1 c) of
              None \<Rightarrow> Inr (0, w1)
            | Some req \<Rightarrow>
                if t_len req = 0 then Inr (0, w1)
                else (case chat_hiddenjoin_get_room_and_name A req zero_txt zero_txt of (ret, room, nm) \<Rightarrow>
                  if ret \<noteq> 0 then Inr (0, w1)
                  else
                    let w2 = upd_conn c (chat_name_update (\<lambda>_. aroop_txt_copy_deep A nm)) w1
                    in ebind (broadcast_room_join E c room w2) (\<lambda>(_, w3). Inr (0, w3))))))"

section \<open>Other commands\<close>

definition chat_private_message_plug :: "'w chat_env \<Rightarrow> int \<Rightarrow> nat \<Rightarrow> 'w chat_world \<Rightarrow> (int \<times> 'w chat_world) exec" where
  "chat_private_message_plug E signature c w =
     (let A = lib E in
      ebind (aroop_assert A (signature = CHAT_SIGNATURE)) (\<lambda>_.
      if \<not> is_valid_chat c w then Inr (0, w)
      else if \<not> has (cstate (conns w c)) CHAT_IN_ROOM then Inr (0, w)
      else
        (case request (conns w c) of
           None \<Rightarrow> Inl NullDeref
         | Some req \<Rightarrow>
             (case scanner_next_token A (aroop_txt_copy_deep A req) zero_txt of (sandbox, other) \<Rightarrow>
                if t_len other = 0 \<or> t_len sandbox = 0 then Inr (0, w)
                else
                  let b = aroop_txt_stackbuffer A (32 + NGINZ_MAX_CHAT_USER_NAME_SIZE + NGINZ_MAX_CHAT_MSG_SIZE);
                      pm = aroop_txt_concat A (aroop_txt_concat_char A (aroop_txt_concat A b (chat_name (conns w c))) 126) sandbox
                  in Inr (0, snd (broadcast_private_message E c other pm w))))))"

definition chat_leave_plug :: "'w chat_env \<Rightarrow> int \<Rightarrow> nat \<Rightarrow> 'w chat_world \<Rightarrow> (int \<times> 'w chat_world) exec" where
  "chat_leave_plug E signature c w =
     (if \<not> is_valid_chat c w then Inr (0, w)
      else
        ebind (broadcast_room_leave E c w) (\<lambda>(_, w1).
        ebind (aroop_assert (lib E) (\<not> has (cstate (conns w1 c)) CHAT_IN_ROOM)) (\<lambda>_. Inr (0, w1))))"

definition chat_quit_plug :: "'w chat_env \<Rightarrow> int \<Rightarrow> nat \<Rightarrow> 'w chat_world \<Rightarrow> (int \<times> 'w chat_world) exec" where
  "chat_quit_plug E signature c w =
     ebind (aroop_assert (lib E) (signature = CHAT_SIGNATURE)) (\<lambda>_.
     if \<not> is_valid_chat c w then Inr (0, w)
     else
       ebind (broadcast_room_leave E c w) (\<lambda>(_, w1).
       ebind (logoff_user E c (upd_conn c (set_bits CHAT_QUIT) w1)) (\<lambda>(_, w2).
       Inr (-1, send E c (aroop_txt_static_string (lib E) (lit ''BYE'' @ [10])) 0 w2))))"

text \<open>\<open>GIT_COMMIT_VERSION\<close> where the build does not define it.\<close>

definition GIT_COMMIT_VERSION :: bytes where "GIT_COMMIT_VERSION = lit ''unknown''"

definition chat_version_plug :: "'w chat_env \<Rightarrow> int \<Rightarrow> nat \<Rightarrow> 'w chat_world \<Rightarrow> (int \<times> 'w chat_world) exec" where
  "chat_version_plug E signature c w =
     ebind (aroop_assert (lib E) (signature = CHAT_SIGNATURE)) (\<lambda>_.
     if \<not> is_valid_chat c w then Inr (0, w)
     else Inr (0, send E c (aroop_txt_static_string (lib E) (lit ''['' @ GIT_COMMIT_VERSION @ lit '']'' @ [10])) 0 w))"

definition on_async_reply :: "aroop \<Rightarrow> aroop_txt_t" where
  "on_async_reply A = aroop_txt_static_string A (lit ''on/async/room/reply'')"
definition on_async_request :: "aroop \<Rightarrow> aroop_txt_t" where
  "on_async_request A = aroop_txt_static_string A (lit ''on/async/room/call'')"

definition chat_room_lookup_plug :: "'w chat_env \<Rightarrow> int \<Rightarrow> nat \<Rightarrow> 'w chat_world \<Rightarrow> (int \<times> 'w chat_world) exec" where
  "chat_room_lookup_plug E signature c w =
     (let A = lib E in
      ebind (aroop_assert A (signature = CHAT_SIGNATURE)) (\<lambda>_.
      if \<not> is_valid_chat c w then Inr (0, w)
      else ebind (on_pipe (async_pm_call_master A (send_fails E) (my_pid E) (master_pid E) (strm_token (strm (conns w c)))
                   (Some (on_async_reply A)) (on_async_request A) []) w) (\<lambda>w'. Inr (0, w'))))"

definition on_asyncchat_rooms :: "'w chat_env \<Rightarrow> aroop_txt_t \<Rightarrow> 'w chat_world \<Rightarrow> (int \<times> 'w chat_world) exec" where
  "on_asyncchat_rooms E bin w =
     (let A = lib E in
      ebind (aroop_assert A (t_len bin \<noteq> 0)) (\<lambda>_.
      ebind (binary_unpack_int A bin 2 0) (\<lambda>(_, cb_token).
      ebind (binary_unpack_string A bin 4 zero_txt) (\<lambda>(_, info).
      ebind (chat_get cb_token w) (\<lambda>found.
      case found of
        None \<Rightarrow> Inr (0, w)
      | Some c \<Rightarrow>
          let info' = (if t_len info = 0 then aroop_txt_static_string A (lit ''There is no room'' @ [10]) else info)
          in Inr (0, send E c info' 0 w))))))"

section \<open>Uptime and profiler\<close>

text \<open>The format \<open>%2d\<close>.\<close>

definition dec_pad2 :: "int \<Rightarrow> bytes" where
  "dec_pad2 k = (if length (dec_int k) < 2 then 32 # dec_int k else dec_int k)"

text \<open>The elapsed time is a whole number of seconds; the conversions to \<open>int\<close> cut towards zero.\<close>

definition uptime_fields :: "int \<Rightarrow> int \<times> int \<times> int" where
  "uptime_fields diff =
     (let hour = diff sdiv 3600;
          minute = (diff - hour * 3600) sdiv 60;
          second = diff - hour * 3600 - minute * 60
      in (hour, minute, second))"

definition uptime_line :: "int \<Rightarrow> int \<Rightarrow> int \<Rightarrow> int \<Rightarrow> bytes" where
  "uptime_line diff users served pid =
     (let (hour, minute, second) = uptime_fields diff
      in dec_pad2 hour @ lit '':'' @ dec_pad2 minute @ lit '':'' @ dec_pad2 second @ lit '', '' @ dec_int users @ lit '' users, total '' @
         dec_int served @ lit '' users served, pid '' @ dec_int pid @ lit '', '')"

definition chat_uptime_get_fibers :: "'w chat_env \<Rightarrow> aroop_txt_t \<Rightarrow> aroop_txt_t exec" where
  "chat_uptime_get_fibers E output =
     ebind (core_call E (aroop_txt_static_string (lib E) (lit ''shake/fiber'')) zero_txt) (\<lambda>resp.
     Inr (aroop_txt_concat_char (lib E) (aroop_txt_concat (lib E) output resp) 10))"

definition chat_uptime_plug :: "'w chat_env \<Rightarrow> int \<Rightarrow> nat \<Rightarrow> 'w chat_world \<Rightarrow> (int \<times> 'w chat_world) exec" where
  "chat_uptime_plug E signature c w =
     (let A = lib E in
      ebind (aroop_assert A (signature = CHAT_SIGNATURE)) (\<lambda>_.
      if \<not> is_valid_chat c w then Inr (0, w)
      else
        let uptime = aroop_txt_printf A (aroop_txt_stackbuffer A 256)
              (uptime_line (now E - start_time w) (event_fd_count E) (internal_chat_connection_count w) (sint (my_pid E)))
        in ebind (chat_uptime_get_fibers E uptime) (\<lambda>uptime'. Inr (0, send E c uptime' 0 w))))"

definition chat_profiler_plug_write_cb :: "aroop \<Rightarrow> aroop_txt_t \<Rightarrow> aroop_txt_t \<Rightarrow> aroop_txt_t" where
  "chat_profiler_plug_write_cb A buffer content = (if t_len content = 0 then buffer else aroop_txt_concat A buffer content)"

definition chat_profiler_plug :: "'w chat_env \<Rightarrow> int \<Rightarrow> nat \<Rightarrow> 'w chat_world \<Rightarrow> (int \<times> 'w chat_world) exec" where
  "chat_profiler_plug E signature c w =
     (let A = lib E in
      ebind (aroop_assert A (signature = CHAT_SIGNATURE)) (\<lambda>_.
      if \<not> is_valid_chat c w then Inr (0, w)
      else
        let output = foldl (chat_profiler_plug_write_cb A) (aroop_txt_stackbuffer A (1024 * 16)) (profiler_dump E)
        in Inr (0, send E c (aroop_txt_concat_char A output 10) 0 w)))"

section \<open>The plugins of the chat server\<close>

datatype chat_plug = Show | Welcome | Rooms | Join | HiddenJoin | Leave | Quit | PrivateMessage | Version
  | Uptime | Profiler | Help

text \<open>The describing functions of the plugins: name, file and text.\<close>

fun chat_plug_about :: "chat_plug \<Rightarrow> string \<times> string \<times> string" where
  "chat_plug_about Show = (''show'', ''chat_factory.c'', ''It shows the chat objects.'')"
| "chat_plug_about Welcome = (''welcome'', ''welcome.c'', ''It greets the new connection.'')"
| "chat_plug_about Rooms = (''room'', ''room.c'', ''It respons to room command.'')"
| "chat_plug_about Join = (''join'', ''join.c'', ''It respons to join command.'')"
| "chat_plug_about HiddenJoin =
     (''_hiddenjoin'', ''hiddenjoin.c'', ''It responds to _hiddenjoin command for interprocess communication.'')"
| "chat_plug_about Leave = (''leave'', ''leave.c'', ''It disconnects user from the room.'')"
| "chat_plug_about Quit = (''quit'', ''quit.c'', ''It quits the chat connection.'')"
| "chat_plug_about PrivateMessage = (''pm'', ''private_message.c'', ''/pm username your private message.'')"
| "chat_plug_about Version = (''version'', ''version.c'', ''It shows the version and build date.'')"
| "chat_plug_about Uptime = (''uptime'', ''uptime.c'', ''It shows the process uptime and load.'')"
| "chat_plug_about Profiler = (''profiler'', ''profiler.c'', ''It shows the memory usage of the server.'')"
| "chat_plug_about Help = (''help'', ''chat_plugin_manager.c'', ''It shows available commands.'')"

definition chat_plug_desc :: "'w chat_env \<Rightarrow> chat_plug desc_runner" where
  "chat_plug_desc E p space =
     (case chat_plug_about p of (nm, file_name, about) \<Rightarrow>
        plugin_desc (lib E) (lit nm) (lit ''chat'') space (source_dir E @ lit file_name) (lit about @ [10]))"

definition chat_help_plug_helper :: "aroop \<Rightarrow> 'e desc_runner \<Rightarrow> ('f, 'e, aroop_txt_t) plugin_visitor" where
  "chat_help_plug_helper A D p output =
     (let prefix = aroop_txt_set_length A (aroop_txt_copy_shallow A (plugin_space p)) 5
      in if \<not> aroop_txt_equals A prefix (aroop_txt_static_string A (lit ''chat/'')) then Inr output
         else if aroop_txt_char_at A prefix 5 = 95 then Inr output
         else Inr (aroop_txt_concat A output (D (plugin_desc_cb p) (plugin_space p))))"

definition chat_help_plug ::
    "('h, nat) table_api \<Rightarrow> (chat_plug, chat_plug, 'h) composite_plugin \<Rightarrow> 'w chat_env \<Rightarrow> int \<Rightarrow> nat \<Rightarrow> 'w chat_world \<Rightarrow>
     (int \<times> 'w chat_world) exec" where
  "chat_help_plug T P E signature c w =
     (let A = lib E in
      ebind (aroop_assert A (signature = CHAT_SIGNATURE)) (\<lambda>_.
      if \<not> is_valid_chat c w then Inr (0, w)
      else
        ebind (composite_plugin_visit_all T (chat_help_plug_helper A (chat_plug_desc E)) P (aroop_txt_stackbuffer A 1024)) (\<lambda>output.
        Inr (0, send E c output 0 w))))"

fun run_chat_plug ::
    "('h, nat) table_api \<Rightarrow> (chat_plug, chat_plug, 'h) composite_plugin \<Rightarrow> 'w chat_env \<Rightarrow> chat_plug \<Rightarrow> int \<Rightarrow> nat \<Rightarrow>
     'w chat_world \<Rightarrow> (int \<times> 'w chat_world) exec" where
  "run_chat_plug T P E Show = chat_factory_show E"
| "run_chat_plug T P E Welcome = chat_welcome_plug E"
| "run_chat_plug T P E Rooms = chat_room_lookup_plug E"
| "run_chat_plug T P E Join = chat_join_plug E"
| "run_chat_plug T P E HiddenJoin = chat_hiddenjoin_plug E"
| "run_chat_plug T P E Leave = chat_leave_plug E"
| "run_chat_plug T P E Quit = chat_quit_plug E"
| "run_chat_plug T P E PrivateMessage = chat_private_message_plug E"
| "run_chat_plug T P E Version = chat_version_plug E"
| "run_chat_plug T P E Uptime = chat_uptime_plug E"
| "run_chat_plug T P E Profiler = chat_profiler_plug E"
| "run_chat_plug T P E Help = chat_help_plug T P E"

definition chat_runner ::
    "('h, nat) table_api \<Rightarrow> (chat_plug, chat_plug, 'h) composite_plugin \<Rightarrow> 'w chat_env \<Rightarrow>
     (chat_plug, nat, 'w chat_world) bridge_runner" where
  "chat_runner T P E p signature c w = ebind (run_chat_plug T P E p signature c w) (\<lambda>(r, w'). Inr (word_of_int r, w'))"

section \<open>Every command keeps the rooms consistent\<close>

text \<open>The zombies are live objects, each in the list once and marked as such.\<close>

definition zombies_ok :: "'w chat_world \<Rightarrow> bool" where
  "zombies_ok w \<longleftrightarrow> distinct (zombie_list w) \<and>
     (\<forall>c \<in> set (zombie_list w). c \<in> set (chat_factory w) \<and> has (cstate (conns w c)) CHAT_ZOMBIE)"

text \<open>\<open>keeps c w w'\<close>: from \<open>w\<close> to \<open>w'\<close> the rooms and the zombies stay consistent and only \<open>c\<close> has changed
  in more than the error of its stream and its room.\<close>

definition keeps :: "nat \<Rightarrow> 'w chat_world \<Rightarrow> 'w chat_world \<Rightarrow> bool" where
  "keeps c w w' \<longleftrightarrow> touches c w w' \<and> (rooms_ok w \<longrightarrow> rooms_ok w') \<and>
     (c \<in> set (chat_factory w) \<longrightarrow> zombies_ok w \<longrightarrow> zombies_ok w')"

lemma keeps_refl [simp]: "keeps c w w"
  by (simp add: keeps_def)

lemma keeps_factory: "keeps c w w' \<Longrightarrow> chat_factory w' = chat_factory w"
  by (simp add: keeps_def touches_def)

lemma keeps_trans: "keeps c u v \<Longrightarrow> keeps c v w \<Longrightarrow> keeps c u w"
  using keeps_factory [of c u v] by (auto simp: keeps_def intro: touches_trans)

lemma zombies_ok_cong:
  assumes "zombies_ok w" and "zombie_list w' = zombie_list w" and "set (chat_factory w) \<subseteq> set (chat_factory w')"
    and "\<And>c. c \<in> set (zombie_list w) \<Longrightarrow> has (cstate (conns w c)) CHAT_ZOMBIE \<Longrightarrow> has (cstate (conns w' c)) CHAT_ZOMBIE"
  shows "zombies_ok w'"
  using assms unfolding zombies_ok_def by auto

lemma calm_zombies: "calm w w' \<Longrightarrow> zombies_ok w \<Longrightarrow> zombies_ok w'"
  by (rule zombies_ok_cong) (simp_all add: calm_world calm_conn)

lemma quiet_keeps: "quiet w w' \<Longrightarrow> keeps c w w'"
  by (simp add: keeps_def calm_touches quiet_calm rooms_ok_quiet calm_zombies [OF quiet_calm])

lemma send_keeps [simp]: "keeps c w (send E d t fl w)"
  by (rule quiet_keeps) simp

lemma upd_keeps [simp]:
  "keeps c w (upd_conn c (set_bits CHAT_QUIT) w)" "keeps c w (upd_conn c (set_bits CHAT_SOFT_QUIT) w)"
  "keeps c w (upd_conn c (set_bits CHAT_ZOMBIE) w)" "keeps c w (upd_conn c (set_bits CHAT_LOGGED_IN) w)"
  "keeps c w (upd_conn c (clear_bits CHAT_LOGGED_IN) w)"
  "keeps c w (upd_conn c (request_update k) w)" "keeps c w (upd_conn c (chat_name_update l) w)"
  "keeps c w (upd_conn c (on_response_callback_update (\<lambda>_. None)) w)"
  "keeps c w (upd_conn c (on_response_callback_update (\<lambda>_. Some OnLogin)) w)"
  by (auto simp: keeps_def zombies_ok_def)

lemma world_keeps [simp]:
  "keeps c w (w'\<lparr>outside := o'\<rparr>) \<longleftrightarrow> keeps c w w'" "keeps c w (w'\<lparr>greet_on_login := g\<rparr>) \<longleftrightarrow> keeps c w w'"
  "keeps c w (w'\<lparr>lazy_data := l\<rparr>) \<longleftrightarrow> keeps c w w'"
  by (simp_all add: keeps_def zombies_ok_def)

lemma greeting_keeps [simp]: "keeps c w (set_greeting E ps w)" "keeps c w (send_greeting E d w)"
  by (simp_all add: set_greeting_def send_greeting_def)

lemma leave_keeps: "rooms_ok w \<Longrightarrow> broadcast_room_leave E c w = Inr (r, w') \<Longrightarrow> keeps c w w'"
  using leave_result [of w E c r w'] calm_zombies [of w w'] by (simp add: keeps_def calm_touches)

lemma join_keeps:
  "rooms_ok w \<Longrightarrow> pools_ok E \<Longrightarrow> c \<in> set (chat_factory w) \<Longrightarrow> broadcast_room_join E c nm w = Inr (r, w') \<Longrightarrow> keeps c w w'"
  using join_result [of w E c nm r w'] calm_zombies [of w w'] by (simp add: keeps_def calm_touches)

lemma close_keeps:
  assumes "rooms_ok w" and "default_chat_close E c w = Inr (r, w')"
  shows "keeps c w w'"
proof -
  note R = close_result [OF assms]
  have "has (cstate (conns w' d)) CHAT_ZOMBIE \<longleftrightarrow> has (cstate (conns w d)) CHAT_ZOMBIE" for d
    using R by (cases "d = c") (auto simp: touches_def conn_calm_def)
  then show ?thesis
    using R zombies_ok_cong [of w w'] by (simp add: keeps_def touches_def)
qed

lemma logoff_keeps:
  assumes "logoff_user E c w = Inr (r, w')"
  shows "keeps c w w'"
proof -
  obtain w1 where "quiet w w1" "w' = w1 \<or> w' = upd_conn c (clear_bits CHAT_LOGGED_IN) w1"
    using logoff_result [OF assms] by (auto split: if_splits)
  then show ?thesis using quiet_keeps keeps_trans upd_keeps(5) by metis
qed

lemma zombie_keeps:
  assumes "pools_ok E" and "chat_zombie_add E c w = Inr (r, w')"
  shows "keeps c w w'"
proof -
  have "mset (opp_list_add E c xs) = add_mset c (mset xs)" for xs using assms(1) by (simp add: pools_ok_def)
  then have s: "set (opp_list_add E c xs) = insert c (set xs)" "distinct (opp_list_add E c xs) \<longleftrightarrow> distinct (c # xs)" for xs
    by (metis set_mset_add_mset_insert set_mset_mset, metis mset.simps(2) mset_eq_imp_distinct_iff)
  show ?thesis
    using assms(2) by (auto simp: chat_zombie_add_def ebind_Inr_iff keeps_def zombies_ok_def s split: if_splits)
qed

definition step_keeps :: "'w chat_env \<Rightarrow> (nat \<Rightarrow> 'w chat_world \<Rightarrow> (int \<times> 'w chat_world) exec) \<Rightarrow> bool" where
  "step_keeps E f \<longleftrightarrow> (\<forall>c w r w'. rooms_ok w \<longrightarrow> c \<in> set (chat_factory w) \<longrightarrow> f c w = Inr (r, w') \<longrightarrow> keeps c w w')"

lemma step_keepsI:
  "(\<And>c w r w'. rooms_ok w \<Longrightarrow> c \<in> set (chat_factory w) \<Longrightarrow> f c w = Inr (r, w') \<Longrightarrow> keeps c w w') \<Longrightarrow> step_keeps E f"
  by (simp add: step_keeps_def)

lemma simple_plugs_keep:
  "step_keeps E (chat_factory_show E s)" "step_keeps E (chat_version_plug E s)" "step_keeps E (chat_private_message_plug E s)"
  "step_keeps E (chat_leave_plug E s)"
  "step_keeps E (chat_uptime_plug E s)" "step_keeps E (chat_profiler_plug E s)" "step_keeps E (chat_help_plug T P E s)"
  by (auto simp: step_keeps_def chat_factory_show_def chat_version_plug_def chat_private_message_plug_def chat_leave_plug_def
      chat_uptime_plug_def chat_profiler_plug_def chat_help_plug_def Let_def ebind_Inr_iff quiet_keeps split: if_splits option.splits prod.splits dest: leave_keeps)

lemma welcome_keeps: "step_keeps E (chat_welcome_plug E s)"
  by (auto simp: step_keeps_def chat_welcome_plug_def ebind_Inr_iff split: if_splits intro: keeps_trans [OF _ send_keeps])

lemma rooms_keeps: "step_keeps E (chat_room_lookup_plug E s)"
  by (auto simp: step_keeps_def chat_room_lookup_plug_def Let_def ebind_Inr_iff split: if_splits
      dest!: on_pipe_quiet(1) intro: quiet_keeps)

lemma quit_keeps: "step_keeps E (chat_quit_plug E s)"
proof (rule step_keepsI)
  fix c w r w'
  assume a: "rooms_ok w" "chat_quit_plug E s c w = Inr (r, w')"
  show "keeps c w w'"
  proof (cases "is_valid_chat c w")
    case True
    with a(2) obtain r1 w1 r2 w2 where l: "broadcast_room_leave E c w = Inr (r1, w1)"
      "logoff_user E c (upd_conn c (set_bits CHAT_QUIT) w1) = Inr (r2, w2)"
      "w' = send E c (aroop_txt_static_string (lib E) (lit ''BYE'' @ [10])) 0 w2"
      by (auto simp: chat_quit_plug_def ebind_Inr_iff)
    have "keeps c w w2"
      by (rule keeps_trans [OF leave_keeps [OF a(1) l(1)] keeps_trans [OF upd_keeps(1) logoff_keeps [OF l(2)]]])
    then show ?thesis unfolding l(3) by (rule keeps_trans [OF _ send_keeps])
  qed (use a(2) in \<open>auto simp: chat_quit_plug_def ebind_Inr_iff\<close>)
qed

lemma join_plug_keeps: "step_keeps E (chat_join_plug E s)"
proof (rule step_keepsI)
  fix c w r w'
  assume "chat_join_plug E s c w = Inr (r, w')"
  then show "keeps c w w'"
    by (auto simp: chat_join_plug_def Let_def ebind_Inr_iff split: if_splits option.splits prod.splits
        dest!: get_pid_quiet(1) intro!: keeps_trans [OF quiet_keeps send_keeps])
qed

lemma hiddenjoin_keeps: "pools_ok E \<Longrightarrow> step_keeps E (chat_hiddenjoin_plug E s)"
proof (rule step_keepsI)
  fix c w r w'
  assume p: "pools_ok E" and a: "rooms_ok w" "c \<in> set (chat_factory w)" "chat_hiddenjoin_plug E s c w = Inr (r, w')"
  let ?w1 = "upd_conn c (set_bits CHAT_LOGGED_IN) w"
  have k: "keeps c w (upd_conn c (chat_name_update g) ?w1)" for g by (rule keeps_trans [OF upd_keeps(4) upd_keeps(7)])
  from a(3) consider "w' = w" | "w' = ?w1"
    | room g r3 where "broadcast_room_join E c room (upd_conn c (chat_name_update g) ?w1) = Inr (r3, w')"
    by (auto simp: chat_hiddenjoin_plug_def Let_def ebind_Inr_iff split: if_splits option.splits prod.splits)
  then show "keeps c w w'"
  proof cases
    case 3
    then have "keeps c (upd_conn c (chat_name_update g) ?w1) w'"
      using k [of g] a(1,2) by (intro join_keeps [OF _ p]) (auto simp: keeps_def)
    then show ?thesis by (rule keeps_trans [OF k])
  qed simp_all
qed

lemma plug_keeps: "pools_ok E \<Longrightarrow> step_keeps E (run_chat_plug T P E p s)"
  using simple_plugs_keep welcome_keeps rooms_keeps quit_keeps join_plug_keeps hiddenjoin_keeps by (cases p) simp_all

section \<open>Every hook keeps the rooms consistent\<close>

text \<open>The hooks change at most one live connection.\<close>

definition one_kept :: "'w chat_world \<Rightarrow> 'w chat_world \<Rightarrow> bool" where
  "one_kept w w' \<longleftrightarrow> w' = w \<or> (\<exists>c \<in> set (chat_factory w). keeps c w w')"

lemma chat_get_Some:
  assumes "chat_get token w = Inr (Some c)"
  shows "c \<in> set (chat_factory w)" "strm_token (strm (conns w c)) = token"
    "\<not> has (cstate (conns w c)) (CHAT_QUIT OR CHAT_SOFT_QUIT OR CHAT_ZOMBIE)"
  using assms by (auto simp: chat_get_def find_Some_iff split: option.splits if_splits)

lemma login_keeps:
  assumes "on_asyncchat_login E c answer w = Inr (r, w')"
  shows "keeps c w w'"
proof -
  consider "w' = w" | ps where "w' = send_greeting E c (set_greeting E ps w)"
    | w1 nm r1 where "async_try_login E nm (strm_token (strm (conns w c))) (login_hook (lib E)) w = Inr (r1, w1)" "w' = send_greeting E c w1"
    using assms
    by (auto simp: on_asyncchat_login_def Let_def ebind_Inr_iff split: if_splits prod.splits)
  then show ?thesis
  proof cases
    case 3
    then show ?thesis using keeps_trans [OF quiet_keeps greeting_keeps(2)] try_login_quiet(1) by blast
  next
    case 2
    then show ?thesis using keeps_trans [OF greeting_keeps(1) greeting_keeps(2)] by simp
  qed simp
qed

lemma one_keptI: "chat_get token w = Inr (Some c) \<Longrightarrow> keeps c w w' \<Longrightarrow> one_kept w w'"
  using chat_get_Some(1) by (auto simp: one_kept_def)

lemma login_hook_keeps:
  assumes "on_asyncchat_login_hook E bin w = Inr (r, w')"
  shows "one_kept w w'"
proof -
  let ?no = "\<lambda>c. send_greeting E c (set_greeting E [lit ''Sorry, name taken.'' @ [10]] w)"
  have "w' = w \<or> (\<exists>token c nm. chat_get token w = Inr (Some c) \<and>
      (w' = send_greeting E c (login_succeeded E c nm w) \<or> w' = ?no c))"
    using assms unfolding on_asyncchat_login_hook_def Let_def
    by (elim ebind_InrE, auto split: if_splits prod.splits option.splits elim!: ebind_InrE, blast+)
  then show ?thesis
  proof (elim disjE exE conjE)
    fix token c nm
    assume c: "chat_get token w = Inr (Some c)" "w' = send_greeting E c (login_succeeded E c nm w)"
    have "keeps c w (login_succeeded E c nm w)"
      unfolding login_succeeded_def Let_def by (rule keeps_trans [OF _ upd_keeps(4)], rule keeps_trans [OF _ upd_keeps(8)]) simp
    then show ?thesis unfolding c(2) by (intro one_keptI [OF c(1)] keeps_trans [OF _ greeting_keeps(2)])
  next
    fix token c
    assume c: "chat_get token w = Inr (Some c)" "w' = ?no c"
    show ?thesis unfolding c(2) by (rule one_keptI [OF c(1) keeps_trans [OF greeting_keeps(1) greeting_keeps(2)]])
  qed (simp add: one_kept_def)
qed

lemma transfer_keeps:
  assumes "rooms_ok w" and "chat_join_transfer E c room pid w = Inr (r, w')"
  shows "keeps c w w'"
proof -
  obtain r1 w1 o2 o3 l where 1: "broadcast_room_leave E c w = Inr (r1, w1)"
    "w' = (upd_conn c (set_bits CHAT_SOFT_QUIT) (w1\<lparr>outside := o2, outside := o3\<rparr>))\<lparr>lazy_data := l\<rparr>"
    using assms(2) by (auto simp: chat_join_transfer_def Let_def ebind_Inr_iff)
  have k: "keeps c w (w1\<lparr>outside := o2, outside := o3\<rparr>)" using leave_keeps [OF assms(1) 1(1)] by simp
  show ?thesis unfolding 1(2) world_keeps using keeps_trans [OF k upd_keeps(2)] .
qed

lemma join_helper_keeps:
  assumes "rooms_ok w" and "pools_ok E" and "c \<in> set (chat_factory w)" and "chat_join_helper E c room pid w = Inr (r, w')"
  shows "keeps c w w'"
  using assms
  by (auto simp: chat_join_helper_def ebind_Inr_iff split: if_splits intro: join_keeps transfer_keeps)

lemma room_pid_keeps:
  assumes "rooms_ok w" and "pools_ok E" and "on_asyncchat_room_pid E bin w = Inr (r, w')"
  shows "one_kept w w'"
proof -
  consider "w' = w" | token c t where "chat_get token w = Inr (Some c)" "w' = send E c t 0 w"
    | token c t room pid r1 where "chat_get token w = Inr (Some c)" "chat_join_helper E c room pid (send E c t MSG_MORE w) = Inr (r1, w')"
    using assms(3)
    by (auto simp: on_asyncchat_room_pid_def Let_def ebind_Inr_iff split: if_splits option.splits)
  then show ?thesis
  proof cases
    case 2
    show ?thesis unfolding 2(2) by (rule one_keptI [OF 2(1) send_keeps])
  next
    case 3
    let ?w1 = "send E c t MSG_MORE w"
    have "rooms_ok ?w1" "c \<in> set (chat_factory ?w1)"
      using rooms_ok_quiet [OF send_quiet assms(1)] chat_get_Some(1) [OF 3(1)] quiet_world(1) [OF send_quiet [of w E c t MSG_MORE]]
      by simp_all
    from join_helper_keeps [OF this(1) assms(2) this(2) 3(2)] have "keeps c w w'" by (rule keeps_trans [OF send_keeps])
    then show ?thesis by (rule one_keptI [OF 3(1)])
  qed (simp add: one_kept_def)
qed

lemma rooms_hook_keeps:
  assumes "on_asyncchat_rooms E bin w = Inr (r, w')"
  shows "one_kept w w'"
proof -
  consider "w' = w" | token c t where "chat_get token w = Inr (Some c)" "w' = send E c t 0 w"
    using assms by (auto simp: on_asyncchat_rooms_def Let_def ebind_Inr_iff split: option.splits)
  then show ?thesis
  proof cases
    case 2
    show ?thesis unfolding 2(2) by (rule one_keptI [OF 2(1) send_keeps])
  qed (simp add: one_kept_def)
qed

section \<open>The hidden join command\<close>

lemma join_command_text:
  assumes "aroop_ok A" and "wf_txt room" and "wf_txt nm" and "t_len room + t_len nm \<le> 100"
  shows "wf_txt (join_command A room nm)" "str (join_command A room nm) = lit ''chat/_hiddenjoin'' @ 32 # str room @ 32 # str nm @ [10]"
proof -
  have l: "length (str room) = t_len room" "length (str nm) = t_len nm" using assms(2,3) by (simp_all add: length_str)
  have s: "lit ''chat/_hiddenjoin '' = lit ''chat/_hiddenjoin'' @ [32]" "lit '' '' = [32]" by (simp_all add: lit_def)
  note B = built_string [OF assms(1)] built_concat [OF assms(1)]
  have "built 128 (aroop_txt_concat_string A (aroop_txt_stackbuffer A 128) (lit ''chat/_hiddenjoin '')) ([] @ lit ''chat/_hiddenjoin '')"
    by (rule B(1) [OF built_stackbuffer [OF assms(1)]]) simp
  note B(2) [OF this assms(2)]
  note B(1) [OF this, of "lit '' ''"]
  note B(2) [OF this assms(3)]
  note b = B(1) [OF this, of "[10]"]
  have "built 128 (aroop_txt_concat_string A (aroop_txt_concat A (aroop_txt_concat_string A
          (aroop_txt_concat A (aroop_txt_concat_string A (aroop_txt_stackbuffer A 128) (lit ''chat/_hiddenjoin '')) room) (lit '' '')) nm) [10])
        (((([] @ lit ''chat/_hiddenjoin '') @ str room) @ lit '' '') @ str nm @ [10])"
    using b assms(4) l by simp
  then show "wf_txt (join_command A room nm)" "str (join_command A room nm) = lit ''chat/_hiddenjoin'' @ 32 # str room @ 32 # str nm @ [10]"
    using built_terminated [OF assms(1)] by (simp_all add: join_command_def Let_def s)
qed

lemma hidden_join_parsed:
  assumes A: "aroop_ok A" and "wf_txt req" and "word_ok cmd" and "word_ok room" and "word_ok nm"
    and s: "str req = cmd @ 32 # room @ 32 # nm @ [10]"
  shows "\<exists>r n. chat_hiddenjoin_get_room_and_name A req zero_txt zero_txt = (0, r, n) \<and>
    wf_txt r \<and> str r = room \<and> wf_txt n \<and> str n = nm"
proof -
  have sep: "is_separator 32" "is_separator 10" by (simp_all add: is_separator_def)
  let ?req = "aroop_txt_copy_deep A req"
  have req: "wf_txt ?req" "str ?req = cmd @ 32 # room @ 32 # nm @ [10]" using copy_deep_laws [OF A assms(2)] s by simp_all
  obtain s1 t1 where 1: "scanner_next_token A ?req zero_txt = (s1, t1)" by fastforce
  have p1: "wf_txt s1 \<and> str s1 = 32 # room @ 32 # nm @ [10] \<and> wf_txt t1 \<and> str t1 = cmd \<and> t_len t1 \<noteq> 0"
    by (rule token_of [OF A req(1) _ assms(3) sep(1) _ 1]) (use req(2) in simp_all)
  obtain s2 t2 where 2: "scanner_next_token A s1 t1 = (s2, t2)" by fastforce
  have p2: "wf_txt s2 \<and> str s2 = 32 # nm @ [10] \<and> wf_txt t2 \<and> str t2 = room \<and> t_len t2 \<noteq> 0"
    by (rule token_of [OF A _ _ assms(4) sep(1) _ 2]) (use p1 sep in simp_all)
  obtain s3 t3 where 3: "scanner_next_token A s2 t2 = (s3, t3)" by fastforce
  have p3: "wf_txt s3 \<and> str s3 = [10] \<and> wf_txt t3 \<and> str t3 = nm \<and> t_len t3 \<noteq> 0"
    by (rule token_of [OF A _ _ assms(5) sep(2) _ 3]) (use p2 sep in simp_all)
  show ?thesis
    using p1 p2 p3 copy_deep_laws [OF A] zero_terminate_laws [OF A]
    by (simp add: chat_hiddenjoin_get_room_and_name_def 1 2 3 Let_def)
qed

section \<open>Properties\<close>

text \<open>(C22) Moving a user to the process of another room, round trip: the command that \<open>chat_join_transfer\<close>
  writes is read back by the receiving process as the same room and the same name.\<close>

theorem hidden_join_roundtrip:
  assumes "aroop_ok A" and "wf_txt room" and "wf_txt nm" and "word_ok (str room)" and "word_ok (str nm)"
    and "t_len room + t_len nm \<le> 100"
  shows "\<exists>r n. chat_hiddenjoin_get_room_and_name A (join_command A room nm) zero_txt zero_txt = (0, r, n) \<and>
    str r = str room \<and> str n = str nm"
proof -
  have "word_ok (lit ''chat/_hiddenjoin'')" by (simp add: word_ok_def lit_def is_separator_def)
  from hidden_join_parsed [OF assms(1) join_command_text(1) [OF assms(1-3,6)] this assms(4,5) join_command_text(2) [OF assms(1-3,6)]]
  show ?thesis by blast
qed

lemma hidden_join_roundtrip_witness:
  "\<exists>r n. chat_hiddenjoin_get_room_and_name ref_aroop (join_command ref_aroop (txt_of (lit ''ONE'')) (txt_of (lit ''bob''))) zero_txt zero_txt =
      (0, r, n) \<and> str r = str (txt_of (lit ''ONE'')) \<and> str n = str (txt_of (lit ''bob''))"
  by (rule hidden_join_roundtrip) (simp_all add: word_ok_def lit_def is_separator_def)

text \<open>A user who offers an acceptable name is sent, before any answer of the master, the text of the
  last log-in of the process, whoever it was for: \<open>greet_on_login\<close> is shared and not cleared.\<close>

theorem login_repeats_old_greeting:
  assumes "recording E" and "ready E w" and "receives w c" and "cstate (conns w c) = CHAT_CONNECTED"
    and "wf_txt answer" and "0 < length (first_token (str answer))" and "length (first_token (str answer)) < 32"
    and "t_len (greet_on_login w) \<noteq> 0"
  shows "\<exists>w'. on_asyncchat_login E c answer w = Inr (0, w') \<and> greet_on_login w' = greet_on_login w \<and>
    outside w' = outside w @ [(target_of w c, str (greet_on_login w), 0)]"
proof -
  have A: "aroop_ok (lib E)" "master_pid E \<noteq> 0" using assms(2) by (simp_all add: ready_def)
  obtain i where i: "node_index (master_pid E) (pipe w) = Some i" using assms(2) by (auto simp: ready_def)
  obtain input nm where n: "scanner_next_token (lib E) answer zero_txt = (input, nm)" by fastforce
  note P = next_token_props [OF A(1) assms(5) _ n]
  have nm: "wf_txt nm" "t_len nm = length (first_token (str answer))" using P(3,4) length_str [of nm] by simp_all
  have a: "t_len answer \<noteq> 0"
  proof
    assume "t_len answer = 0"
    then have "str answer = []" by (simp add: str_def)
    then show False using assms(6) by (simp add: first_token_def)
  qed
  let ?k = "build_name_key (lib E) nm (aroop_txt_stackbuffer (lib E) 128)"
  have "t_len ?k \<noteq> 0" using name_key_props(3) [OF A(1) nm(1)] nm(2) assms(7) by simp
  then obtain s where "async_db_compare_and_swap (lib E) (send_fails E) (my_pid E) (master_pid E) (strm_token (strm (conns w c)))
      (Some (login_hook (lib E))) ?k (Some nm) None (pipe w) = Inr (0, s)"
    using cas_total [OF A(1) i A(2), of ?k None] by blast
  then obtain w1 where w1: "async_try_login E nm (strm_token (strm (conns w c))) (login_hook (lib E)) w = Inr (0, w1)"
    using nm(2) assms(6) by (auto simp: async_try_login_def on_pipe_def Let_def)
  note q = try_login_quiet [OF w1]
  have g: "greet_on_login w1 = greet_on_login w" using quiet_world(6) [OF q(1)] .
  have r: "receives w1 c" "target_of w1 c = target_of w c" using receives_cong [of w1 c w] q(2) assms(3) by simp_all
  have "on_asyncchat_login E c answer w = Inr (0, send_greeting E c w1)"
    using a assms(4,6,7) nm(2) w1
    by (simp add: on_asyncchat_login_def copy_shallow_law [OF A(1)] n NGINZ_MAX_CHAT_USER_NAME_SIZE_def)
  then show ?thesis
    using assms(8) g send_recorded [OF assms(1), of c "greet_on_login w" 0 w1] r q(3) quiet_world(6) [OF send_quiet [of w1 E c "greet_on_login w" 0]]
    by (intro exI [of _ "send_greeting E c w1"]) (simp add: send_greeting_def)
qed

lemma login_repeats_old_greeting_witness:
  "\<exists>w'. on_asyncchat_login sample_env 0 (txt_of (lit ''bob'')) (sample_world\<lparr>greet_on_login := txt_of (lit ''Welcome eve!'')\<rparr>) = Inr (0, w') \<and>
     outside w' = [(ToFd 20, lit ''Welcome eve!'', 0)]"
proof -
  let ?w = "sample_world\<lparr>greet_on_login := txt_of (lit ''Welcome eve!'')\<rparr>"
  have r: "ready sample_env ?w" using sample_ready(1) by (simp add: ready_def)
  have f: "first_token (lit ''bob'') = lit ''bob''"
    using first_token_word(5) [of "lit ''bob''" 32] by (simp add: lit_def is_separator_def)
  have c: "receives ?w 0" "target_of ?w 0 = ToFd 20" "cstate (conns ?w 0) = CHAT_CONNECTED" "outside ?w = []"
    by (simp_all add: receives_def target_of_def sample_world_def sample_conn_def CHAT_CONNECTED_def is_valid_chat_def
        is_valid_stream_def streamio_initialize_def INVALID_FD_def)
  show ?thesis
    using login_repeats_old_greeting [OF sample_ready(3) r c(1,3), of "txt_of (lit ''bob'')"] f c(2,4) by auto
qed

text \<open>A user who quits is never told BYE: the state is set to quitted first, so that the send is
  refused and nothing goes out after the messages of leaving the room.\<close>

theorem quit_is_silent:
  assumes "rooms_ok w" and "ready E w" and "\<forall>rm \<in> set (room_factory w). good_name (room_name rm)"
    and "is_valid_chat c w" and "wf_txt (chat_name (conns w c))" and "t_len (chat_name (conns w c)) \<le> 100"
  shows "\<exists>w1 w'. broadcast_room_leave E c w = Inr (0, w1) \<and> chat_quit_plug E CHAT_SIGNATURE c w = Inr (-1, w') \<and>
    outside w' = outside w1 \<and> members w' = (members w)(c := None) \<and> has (cstate (conns w' c)) CHAT_QUIT"
proof -
  obtain w1 where w1: "broadcast_room_leave E c w = Inr (0, w1)" using leave_total [OF assms(1-3)] by blast
  have L: "rooms_ok w1" "calm w w1" "members w1 = (members w)(c := None)" using leave_result [OF assms(1) w1] by simp_all
  let ?w = "upd_conn c (set_bits CHAT_QUIT) w1"
  have "ready E w1" using ready_quiet [OF assms(2) calm_world(7) [OF L(2)]] .
  then have "ready E ?w" by (simp add: ready_def)
  moreover have "chat_name (conns ?w c) = chat_name (conns w c)" using calm_conn(1) [OF L(2)] by simp
  ultimately obtain r w2 where w2: "logoff_user E c ?w = Inr (r, w2)" using logoff_total [of E ?w c] assms(5,6) by auto
  obtain w3 where w3: "quiet ?w w3" "conns w3 = conns ?w" "outside w3 = outside ?w"
    "w2 = w3 \<or> w2 = upd_conn c (clear_bits CHAT_LOGGED_IN) w3"
    using logoff_result [OF w2] by (auto split: if_splits)
  have q: "has (cstate (conns w2 c)) CHAT_QUIT" "outside w2 = outside w1" "members w2 = members w1"
    using w3 members_quiet [OF w3(1)] by (auto simp: members_def)
  then have "send E c t 0 w2 = w2" for t by (simp add: default_chat_send_def has_or_flag)
  then show ?thesis
    using w1 w2 q L(3) assms(4) by (simp add: chat_quit_plug_def)
qed

lemma quit_is_silent_witness:
  "\<exists>w1 w'. broadcast_room_leave sample_env 1 sample_world = Inr (0, w1) \<and> chat_quit_plug sample_env CHAT_SIGNATURE 1 sample_world = Inr (-1, w') \<and>
    outside w' = outside w1 \<and> members w' = (members sample_world)(1 := None) \<and> has (cstate (conns w' 1)) CHAT_QUIT"
  by (rule quit_is_silent [OF sample_rooms(1) sample_ready(1) sample_rooms(2)])
     (simp_all add: sample_world_def sample_conn_def is_valid_chat_def is_valid_stream_def INVALID_FD_def)

end
