(* ===== verification/ChatServer.thy ===== *)
theory ChatServer
  imports ChatCommands
begin

text \<open>
  The chat server as it meets its clients: \<open>apps/chat/src/chat_command.c\<close> (a line that starts with a
  slash) and \<open>apps/chat/src/chat_accept.c\<close> (data, new connections from the listener and from other
  processes). The plugins of the server are in the container \<open>P\<close> of theory \<open>Plugin\<close>, run by
  \<open>chat_runner\<close>. \<open>recv\<close> gives \<open>None\<close> for an error, and otherwise the bytes it wrote into \<open>recv_buffer\<close>,
  none when the client has closed; \<open>OPPUNREF\<close> of the connection that the event loop owned is left out.
\<close>

section \<open>Commands\<close>

definition chat_bridge_call ::
    "('h, nat) table_api \<Rightarrow> (chat_plug, chat_plug, 'h) composite_plugin \<Rightarrow> 'w chat_env \<Rightarrow> aroop_txt_t \<Rightarrow> nat \<Rightarrow> 'w chat_world \<Rightarrow>
     (32 word \<times> 'w chat_world) exec" where
  "chat_bridge_call T P E space c w = composite_plugin_bridge_call (lib E) T (chat_runner T P E) P space CHAT_SIGNATURE c w"

definition command_hook ::
    "('h, nat) table_api \<Rightarrow> (chat_plug, chat_plug, 'h) composite_plugin \<Rightarrow> 'w chat_env \<Rightarrow> nat \<Rightarrow> aroop_txt_t \<Rightarrow> 'w chat_world \<Rightarrow>
     (int \<times> 'w chat_world) exec" where
  "command_hook T P E c given_request w =
     (let A = lib E;
          req1 = aroop_txt_shift A (aroop_txt_copy_shallow A given_request) 1
      in if aroop_txt_char_at A req1 0 = 95 then Inr (0, w)
         else
           ebind (aroop_assert A (request (conns w c) = None)) (\<lambda>_.
           case scanner_next_token A req1 zero_txt of (req2, ctoken) \<Rightarrow>
             if t_len ctoken = 0 then Inr (-1, w)
             else
               let req3 = aroop_txt_shift A req2 1;
                   w1 = upd_conn c (request_update (\<lambda>_. Some req3)) w;
                   space = aroop_txt_concat A (aroop_txt_concat_string A (aroop_txt_stackbuffer A 64) (lit ''chat/'')) ctoken
               in ebind (chat_bridge_call T P E space c w1) (\<lambda>(ret, w2).
                  Inr (sint ret, upd_conn c (request_update (\<lambda>_. None)) w2))))"

section \<open>Requests of a client\<close>

definition close_and_bury :: "'w chat_env \<Rightarrow> nat \<Rightarrow> 'w chat_world \<Rightarrow> 'w chat_world exec" where
  "close_and_bury E c w =
     ebind (default_chat_close E c w) (\<lambda>(_, w1). ebind (chat_zombie_add E c w1) (\<lambda>(_, w2). Inr w2))"

definition quitting :: "nat \<Rightarrow> 'w chat_world \<Rightarrow> bool" where
  "quitting c w \<longleftrightarrow> has (cstate (conns w c)) CHAT_QUIT \<or> has (cstate (conns w c)) CHAT_SOFT_QUIT"

definition cannot_process :: "aroop \<Rightarrow> aroop_txt_t" where
  "cannot_process A = aroop_txt_static_string A (lit ''Cannot process the request'' @ [10])"

definition run_response :: "'w chat_env \<Rightarrow> response_callback \<Rightarrow> nat \<Rightarrow> aroop_txt_t \<Rightarrow> 'w chat_world \<Rightarrow> 'w chat_world exec" where
  "run_response E cb c msg w =
     (case cb of
        OnLogin \<Rightarrow> ebind (on_asyncchat_login E c msg w) (\<lambda>(_, w'). Inr w')
      | Broadcast \<Rightarrow> Inr (snd (broadcast_callback E c msg w)))"

text \<open>The body of the \<open>do ... while(0)\<close>: the flag tells whether it ran to its end.\<close>

definition dispatch_request ::
    "('h, nat) table_api \<Rightarrow> (chat_plug, chat_plug, 'h) composite_plugin \<Rightarrow> 'w chat_env \<Rightarrow> nat \<Rightarrow> aroop_txt_t \<Rightarrow> 'w chat_world \<Rightarrow>
     (bool \<times> 'w chat_world) exec" where
  "dispatch_request T P E c req w =
     (if aroop_txt_char_at (lib E) req 0 = 47 \<and> has (cstate (conns w c)) CHAT_LOGGED_IN
      then ebind (command_hook T P E c req w) (\<lambda>(ret, w'). Inr (ret \<noteq> 0, w'))
      else (case on_response_callback (conns w c) of
              Some cb \<Rightarrow> ebind (run_response E cb c req w) (\<lambda>w'. Inr (False, w'))
            | None \<Rightarrow> Inr (True, w)))"

definition handle_chat_request ::
    "('h, nat) table_api \<Rightarrow> (chat_plug, chat_plug, 'h) composite_plugin \<Rightarrow> 'w chat_env \<Rightarrow> nat \<Rightarrow> aroop_txt_t \<Rightarrow> 'w chat_world \<Rightarrow>
     (int \<times> 'w chat_world) exec" where
  "handle_chat_request T P E c req w =
     (if t_len req = 0 then Inr (0, w)
      else if aroop_txt_char_at (lib E) req (t_len req - 1) \<noteq> 10 then ebind (close_and_bury E c w) (\<lambda>w'. Inr (-1, w'))
      else
        ebind (dispatch_request T P E c req w) (\<lambda>(unhandled, w1).
        let w2 = (if unhandled \<and> \<not> quitting c w1 then send E c (cannot_process (lib E)) 0 w1 else w1)
        in if strm_error (strm (conns w2 c)) \<noteq> 0 \<or> quitting c w2
           then ebind (close_and_bury E c w2) (\<lambda>w'. Inr (-1, w'))
           else Inr (0, w2)))"

definition received_text :: "aroop \<Rightarrow> aroop_txt_t \<Rightarrow> bytes \<Rightarrow> aroop_txt_t" where
  "received_text A recv_buf d =
     (let b = aroop_txt_set_length A recv_buf 1
      in aroop_txt_set_length A (b\<lparr>t_mem := d @ drop (length d) (t_mem b)\<rparr>) (length d))"

definition on_client_data ::
    "('h, nat) table_api \<Rightarrow> (chat_plug, chat_plug, 'h) composite_plugin \<Rightarrow> 'w chat_env \<Rightarrow> aroop_txt_t \<Rightarrow> bytes option \<Rightarrow> int \<Rightarrow> nat \<Rightarrow>
     'w chat_world \<Rightarrow> (int \<times> 'w chat_world) exec" where
  "on_client_data T P E recv_buf received f c w =
     (if chat_module_is_quiting w then Inr (0, w)
      else if quitting c w then ebind (close_and_bury E c w) (\<lambda>w'. Inr (-1, w'))
      else
        ebind (aroop_assert (lib E) (f = strm_fd (strm (conns w c)))) (\<lambda>_.
        case received of
          None \<Rightarrow> ebind (close_and_bury E c w) (\<lambda>w'. Inr (-1, w'))
        | Some d \<Rightarrow>
            if d = [] \<or> NGINZ_MAX_CHAT_MSG_SIZE \<le> length d then ebind (close_and_bury E c w) (\<lambda>w'. Inr (-1, w'))
            else
              ebind (handle_chat_request T P E c (received_text (lib E) recv_buf d) w) (\<lambda>(ret, w1).
              if quitting c w1 then ebind (close_and_bury E c w1) (\<lambda>w'. Inr (ret, w')) else Inr (ret, w1))))"

section \<open>New connections\<close>

definition on_tcp_connection :: "'w chat_env \<Rightarrow> 32 word \<Rightarrow> int \<Rightarrow> 'w chat_world \<Rightarrow> (int \<times> 32 word \<times> 'w chat_world) exec" where
  "on_tcp_connection E chat_lb f w =
     ebind (connection_packet (lib E) NGINZ_MAX_BINARY_MSG_LEN 0 NGINZ_CHAT_PORT
              (aroop_txt_static_string (lib E) (lit ''chat/_welcome''))) (\<lambda>bin.
     ebind (load_balancer_next (pipe w) chat_lb) (\<lambda>(dest, chat_lb').
     case raw_send_socket (streams E) dest f bin (outside w) of (_, o') \<Rightarrow> Inr (0, chat_lb', w\<lparr>outside := o'\<rparr>)))"

definition on_connection_bubble ::
    "('h, nat) table_api \<Rightarrow> (chat_plug, chat_plug, 'h) composite_plugin \<Rightarrow> 'w chat_env \<Rightarrow> int \<Rightarrow> aroop_txt_t \<Rightarrow> 'w chat_world \<Rightarrow>
     (int \<times> 'w chat_world) exec" where
  "on_connection_bubble T P E f cmd w =
     (if chat_module_is_quiting w then Inr (0, w)
      else
        let A = lib E
        in (case uptime_count_chat_create E f w of (c, w1) \<Rightarrow>
             ebind (binary_unpack_string A cmd 2 zero_txt) (\<lambda>(_, x).
             let w2 = upd_conn c (request_update (\<lambda>_. Some x)) w1;
                 sandbox = aroop_txt_concat A (aroop_txt_stackbuffer A (t_len x)) x
             in (case scanner_next_token A sandbox zero_txt of (_, space) \<Rightarrow>
                  if t_len space = 0
                  then ebind (close_and_bury E c w2) (\<lambda>w3. Inr (-1, upd_conn c (request_update (\<lambda>_. None)) w3))
                  else
                    ebind (chat_bridge_call T P E space c (w2\<lparr>outside := loop_register E f c (outside w2)\<rparr>)) (\<lambda>(_, w3).
                    Inr (0, upd_conn c (request_update (\<lambda>_. None)) w3))))))"

definition chat_accept_on_softquit :: "'w chat_world \<Rightarrow> int \<times> 'w chat_world" where
  "chat_accept_on_softquit w = (0, w\<lparr>chat_module_is_quiting := True\<rparr>)"

section \<open>Requests keep the state consistent\<close>

lemma keeps_rooms: "keeps c w w' \<Longrightarrow> rooms_ok w \<Longrightarrow> rooms_ok w'"
  by (simp add: keeps_def)

lemma chat_runner_Inr:
  "chat_runner T P E p sg c w = Inr (r, w') \<longleftrightarrow> (\<exists>r1. run_chat_plug T P E p sg c w = Inr (r1, w') \<and> r = word_of_int r1)"
  by (auto simp: chat_runner_def ebind_Inr_iff)

lemma bridge_loop_keeps:
  assumes p: "pools_ok E"
  shows "rooms_ok w \<Longrightarrow> c \<in> set (chat_factory w) \<Longrightarrow>
    plugin_bridge_loop A (chat_runner T P E) hp fuel a sg c ret w = Inr (r, w') \<Longrightarrow> keeps c w w'"
proof (induction fuel arbitrary: a ret w)
  case 0
  then show ?case by (cases a) simp_all
next
  case (Suc fuel)
  show ?case
  proof (cases a)
    case None
    then show ?thesis using Suc.prems by simp
  next
    case (Some x)
    with Suc.prems(3) obtain f r1 w1 n ret' where 1: "run_chat_plug T P E f sg c w = Inr (r1, w1)"
      "plugin_bridge_loop A (chat_runner T P E) hp fuel n sg c ret' w1 = Inr (r, w')"
      by (auto simp: ebind_Inr_iff chat_runner_Inr split: if_splits option.splits)
    have k: "keeps c w w1" using plug_keeps [OF p, of T P f sg] Suc.prems(1,2) 1(1) by (auto simp: step_keeps_def)
    then have "keeps c w1 w'"
      using Suc.IH [OF _ _ 1(2)] keeps_rooms [OF k Suc.prems(1)] keeps_factory [OF k] Suc.prems(2) by simp
    then show ?thesis by (rule keeps_trans [OF k])
  qed
qed

lemma bridge_call_keeps:
  "pools_ok E \<Longrightarrow> rooms_ok w \<Longrightarrow> c \<in> set (chat_factory w) \<Longrightarrow> chat_bridge_call T P E space c w = Inr (r, w') \<Longrightarrow> keeps c w w'"
  unfolding chat_bridge_call_def composite_plugin_bridge_call_def by (rule bridge_loop_keeps)

lemma command_keeps:
  assumes "pools_ok E" and "rooms_ok w" and "c \<in> set (chat_factory w)" and "command_hook T P E c req w = Inr (r, w')"
  shows "keeps c w w'"
proof -
  have "w' = w \<or> (\<exists>k space r2 w2. chat_bridge_call T P E space c (upd_conn c (request_update k) w) = Inr (r2, w2) \<and>
      w' = upd_conn c (request_update (\<lambda>_. None)) w2)"
    using assms(4) unfolding command_hook_def Let_def
    by (auto simp: ebind_Inr_iff split: if_splits prod.splits)
  then show ?thesis
  proof (elim disjE exE conjE)
    fix k space r2 w2
    let ?w1 = "upd_conn c (request_update k) w"
    assume b: "chat_bridge_call T P E space c ?w1 = Inr (r2, w2)" "w' = upd_conn c (request_update (\<lambda>_. None)) w2"
    have "keeps c ?w1 w2" using bridge_call_keeps [OF assms(1) _ _ b(1)] rooms_ok_marks(7) [OF assms(2)] assms(3) by simp
    then show ?thesis unfolding b(2) by (intro keeps_trans [OF upd_keeps(6) keeps_trans [OF _ upd_keeps(6)]])
  qed simp
qed

lemma bury_keeps:
  assumes "pools_ok E" and "rooms_ok w" and "close_and_bury E c w = Inr w'"
  shows "keeps c w w'"
proof -
  obtain r1 w1 r2 where 1: "default_chat_close E c w = Inr (r1, w1)" "chat_zombie_add E c w1 = Inr (r2, w')"
    using assms(3) by (auto simp: close_and_bury_def ebind_Inr_iff)
  show ?thesis by (rule keeps_trans [OF close_keeps [OF assms(2) 1(1)] zombie_keeps [OF assms(1) 1(2)]])
qed

lemma response_keeps: "run_response E cb c msg w = Inr w' \<Longrightarrow> keeps c w w'"
  by (auto simp: run_response_def ebind_Inr_iff quiet_keeps split: response_callback.splits dest: login_keeps)

lemma dispatch_keeps:
  assumes "pools_ok E" and "rooms_ok w" and "c \<in> set (chat_factory w)" and "dispatch_request T P E c req w = Inr (b, w')"
  shows "keeps c w w'"
  using assms(4)
  by (auto simp: dispatch_request_def ebind_Inr_iff split: if_splits option.splits
      dest: response_keeps command_keeps [OF assms(1-3)])

lemma handle_keeps:
  assumes "pools_ok E" and "rooms_ok w" and "c \<in> set (chat_factory w)" and "handle_chat_request T P E c req w = Inr (r, w')"
  shows "keeps c w w'"
proof -
  consider "w' = w" | "close_and_bury E c w = Inr w'"
    | b w1 where "dispatch_request T P E c req w = Inr (b, w1)"
      "(let w2 = (if b \<and> \<not> quitting c w1 then send E c (cannot_process (lib E)) 0 w1 else w1)
        in if strm_error (strm (conns w2 c)) \<noteq> 0 \<or> quitting c w2
           then ebind (close_and_bury E c w2) (\<lambda>w'. Inr (-1, w'))
           else Inr (0, w2)) = Inr (r, w')"
    using assms(4) unfolding handle_chat_request_def
    by (auto simp: ebind_Inr_iff simp del: Let_def split: if_splits)
  then show ?thesis
  proof cases
    case 3
    define w2 where "w2 = (if b \<and> \<not> quitting c w1 then send E c (cannot_process (lib E)) 0 w1 else w1)"
    have "keeps c w1 w2" by (simp add: w2_def)
    with dispatch_keeps [OF assms(1-3) 3(1)] have k: "keeps c w w2" by (rule keeps_trans)
    have "w' = w2 \<or> close_and_bury E c w2 = Inr w'"
      using 3(2) unfolding w2_def [symmetric] Let_def by (auto simp: ebind_Inr_iff split: if_splits)
    then show ?thesis using k keeps_trans [OF k bury_keeps [OF assms(1) keeps_rooms [OF k assms(2)]]] by blast
  qed (use bury_keeps [OF assms(1,2)] in auto)
qed

lemma client_data_keeps:
  assumes "pools_ok E" and "rooms_ok w" and "c \<in> set (chat_factory w)"
    and "on_client_data T P E buf received f c w = Inr (r, w')"
  shows "keeps c w w'"
proof -
  consider "w' = w" | "close_and_bury E c w = Inr w'"
    | req r1 w1 where "handle_chat_request T P E c req w = Inr (r1, w1)" "w' = w1 \<or> close_and_bury E c w1 = Inr w'"
    using assms(4) unfolding on_client_data_def
    by (auto simp: ebind_Inr_iff split: if_splits option.splits)
  then show ?thesis
  proof cases
    case 3
    have k: "keeps c w w1" by (rule handle_keeps [OF assms(1-3) 3(1)])
    then show ?thesis using 3(2) keeps_trans [OF k bury_keeps [OF assms(1) keeps_rooms [OF k assms(2)]]] by blast
  qed (use bury_keeps [OF assms(1,2)] in auto)
qed

section \<open>New connections\<close>

lemma alloc_result:
  assumes "pools_ok E" and "rooms_ok w" and "zombies_ok w" and "chat_alloc E f w = (c, w1)"
  shows "rooms_ok w1" "zombies_ok w1" "c \<in> set (chat_factory w1)" "c \<notin> set (chat_factory w)" "members w1 = members w"
    "members w c = None" "room_factory w1 = room_factory w" "set (chat_factory w1) = insert c (set (chat_factory w))"
    "pipe w1 = pipe w" "strm_fd (strm (conns w1 c)) = f"
proof -
  obtain token where a: "opp_alloc E (chat_factory w) = (c, token)"
    and w1: "w1 = upd_conn c (\<lambda>x. strm_update (strm_fd_update (\<lambda>_. f)) (chat_initialize token x))
      (w\<lparr>chat_factory := opp_list_add E c (chat_factory w)\<rparr>)"
    using assms(4) by (auto simp: chat_alloc_def split: prod.splits)
  have n: "c \<notin> set (chat_factory w)" using assms(1) a unfolding pools_ok_def by (metis fst_conv)
  then show "c \<notin> set (chat_factory w)" .
  have "mset (opp_list_add E c xs) = add_mset c (mset xs)" for xs using assms(1) by (simp add: pools_ok_def)
  then have s: "set (opp_list_add E c xs) = insert c (set xs)" for xs by (metis set_mset_add_mset_insert set_mset_mset)
  have m: "members w c = None"
    using rooms_okD(1) [OF assms(2), of c] rooms_okD(5) [OF assms(2)] n by (cases "members w c") (auto simp: members_def)
  then show "members w c = None" .
  show "c \<in> set (chat_factory w1)" "set (chat_factory w1) = insert c (set (chat_factory w))" by (simp_all add: w1 s)
  show "members w1 = members w" using m by (auto simp: w1 members_def chat_initialize_def)
  show "room_factory w1 = room_factory w" "pipe w1 = pipe w" "strm_fd (strm (conns w1 c)) = f" by (simp_all add: w1)
  let ?w0 = "w\<lparr>chat_factory := opp_list_add E c (chat_factory w)\<rparr>"
  have "rooms_ok ?w0" using assms(2) unfolding rooms_ok_def by (auto simp: the_room_def s)
  moreover have "\<not> has (cstate (conns w c)) CHAT_IN_ROOM" "callback_data (conns w c) = None"
    using rooms_okD(2) [OF assms(2), of c] m by (simp_all add: members_def)
  ultimately show "rooms_ok w1"
    unfolding w1 by (intro rooms_ok_upd) (simp_all add: chat_initialize_def CHAT_CONNECTED_def)
  show "zombies_ok w1"
    by (rule zombies_ok_cong [OF assms(3)]) (use n assms(3) in \<open>auto simp: w1 s zombies_ok_def\<close>)
qed

lemma create_result:
  assumes "pools_ok E" and "rooms_ok w" and "zombies_ok w" and "uptime_count_chat_create E f w = (c, w1)"
  shows "rooms_ok w1" "zombies_ok w1" "c \<in> set (chat_factory w1)" "c \<notin> set (chat_factory w)" "members w1 = members w"
    "members w c = None" "room_factory w1 = room_factory w" "set (chat_factory w1) = insert c (set (chat_factory w))"
    "pipe w1 = pipe w" "strm_fd (strm (conns w1 c)) = f"
  using alloc_result [of E "w\<lparr>internal_chat_connection_count := internal_chat_connection_count w + 1\<rparr>" f c w1] assms
  by (simp_all add: uptime_count_chat_create_def zombies_ok_def)

lemma bubble_keeps:
  assumes "pools_ok E" and "rooms_ok w" and "zombies_ok w" and "on_connection_bubble T P E f cmd w = Inr (r, w')"
  shows "w' = w \<or> (\<exists>c w1. uptime_count_chat_create E f w = (c, w1) \<and> keeps c w1 w')"
proof (cases "chat_module_is_quiting w")
  case True
  then show ?thesis using assms(4) by (simp add: on_connection_bubble_def)
next
  case False
  obtain c w1 where a: "uptime_count_chat_create E f w = (c, w1)" by fastforce
  note A = create_result [OF assms(1-3) a]
  let ?req = "\<lambda>x. upd_conn c (request_update (\<lambda>_. Some x)) w1"
  have "\<exists>x w3. (close_and_bury E c (?req x) = Inr w3 \<or>
      (\<exists>space r3. chat_bridge_call T P E space c ((?req x)\<lparr>outside := loop_register E f c (outside (?req x))\<rparr>) = Inr (r3, w3))) \<and>
      w' = upd_conn c (request_update (\<lambda>_. None)) w3"
  proof -
    obtain x where x: "(case scanner_next_token (lib E) (aroop_txt_concat (lib E) (aroop_txt_stackbuffer (lib E) (t_len x)) x) zero_txt of
          (_, space) \<Rightarrow> if t_len space = 0
             then ebind (close_and_bury E c (?req x)) (\<lambda>w3. Inr (-1, upd_conn c (request_update (\<lambda>_. None)) w3))
             else ebind (chat_bridge_call T P E space c ((?req x)\<lparr>outside := loop_register E f c (outside (?req x))\<rparr>)) (\<lambda>(_, w3).
                    Inr (0, upd_conn c (request_update (\<lambda>_. None)) w3))) = Inr (r, w')"
    proof -
      assume *: thesis if "(case scanner_next_token (lib E) (aroop_txt_concat (lib E) (aroop_txt_stackbuffer (lib E) (t_len x)) x) zero_txt of
          (_, space) \<Rightarrow> if t_len space = 0
             then ebind (close_and_bury E c (?req x)) (\<lambda>w3. Inr (-1, upd_conn c (request_update (\<lambda>_. None)) w3))
             else ebind (chat_bridge_call T P E space c ((?req x)\<lparr>outside := loop_register E f c (outside (?req x))\<rparr>)) (\<lambda>(_, w3).
                    Inr (0, upd_conn c (request_update (\<lambda>_. None)) w3))) = Inr (r, w')" for x
      show thesis
        using assms(4) False unfolding on_connection_bubble_def a Let_def prod.case if_not_P [OF False]
        by (elim ebind_InrE) (auto intro: *)
    qed
    obtain src space where s: "scanner_next_token (lib E) (aroop_txt_concat (lib E) (aroop_txt_stackbuffer (lib E) (t_len x)) x) zero_txt
        = (src, space)" by fastforce
    show ?thesis
      using x unfolding s by (cases "t_len space = 0") (auto simp: ebind_Inr_iff)
  qed
  then obtain x w3 where w3: "close_and_bury E c (?req x) = Inr w3 \<or>
      (\<exists>space r3. chat_bridge_call T P E space c ((?req x)\<lparr>outside := loop_register E f c (outside (?req x))\<rparr>) = Inr (r3, w3))"
    and w': "w' = upd_conn c (request_update (\<lambda>_. None)) w3" by blast
  have r: "rooms_ok (?req x)" by (rule rooms_ok_marks(7) [OF A(1)])
  have k: "keeps c w1 (?req x)" "keeps c (?req x) ((?req x)\<lparr>outside := loop_register E f c (outside (?req x))\<rparr>)"
    by simp_all
  from w3 have "keeps c w1 w3"
  proof (elim disjE exE)
    assume "close_and_bury E c (?req x) = Inr w3"
    from bury_keeps [OF assms(1) r this] show ?thesis by (rule keeps_trans [OF k(1)])
  next
    fix space r3
    assume b: "chat_bridge_call T P E space c ((?req x)\<lparr>outside := loop_register E f c (outside (?req x))\<rparr>) = Inr (r3, w3)"
    have "keeps c ((?req x)\<lparr>outside := loop_register E f c (outside (?req x))\<rparr>) w3"
      by (rule bridge_call_keeps [OF assms(1) _ _ b]) (use r A(3) in simp_all)
    then show ?thesis by (rule keeps_trans [OF keeps_trans [OF k]])
  qed
  then have "keeps c w1 w'" unfolding w' by (rule keeps_trans [OF _ upd_keeps(6)])
  then show ?thesis using a by blast
qed

section \<open>Bad clients\<close>

lemma bury_total:
  assumes "rooms_ok w" and "ready E w" and "\<forall>rm \<in> set (room_factory w). good_name (room_name rm)"
    and "wf_txt (chat_name (conns w c))" and "t_len (chat_name (conns w c)) \<le> 100" and "now E \<noteq> 0"
    and nz: "\<not> has (cstate (conns w c)) CHAT_ZOMBIE"
  obtains w' where "close_and_bury E c w = Inr w'" "rooms_ok w'" "members w' = (members w)(c := None)" "quitting c w'"
    "c \<in> set (zombie_list w')" "bubble_up (strm (conns w c)) = None \<longrightarrow> strm_fd (strm (conns w' c)) = INVALID_FD"
proof -
  obtain r w1 where c: "default_chat_close E c w = Inr (r, w1)" using close_total [OF assms(1-5)] by blast
  have R: "rooms_ok w1" "members w1 = (members w)(c := None)" "quitting c w1" "\<not> has (cstate (conns w1 c)) CHAT_ZOMBIE"
    "bubble_up (strm (conns w c)) = None \<longrightarrow> strm_fd (strm (conns w1 c)) = INVALID_FD"
    using close_result [OF assms(1) c] nz by (simp_all add: quitting_def)
  have p: "pools_ok E" using assms(2) by (simp add: ready_def)
  have q: "quited_at (conns w1 c) \<noteq> 0" using close_result [OF assms(1) c] assms(6) by simp
  let ?w2 = "(upd_conn c (set_bits CHAT_ZOMBIE) w1)\<lparr>zombie_list := opp_list_add E c (zombie_list w1)\<rparr>"
  have b: "close_and_bury E c w = Inr ?w2" using c q R(4) by (simp add: close_and_bury_def chat_zombie_add_def)
  have "mset (opp_list_add E c (zombie_list w1)) = add_mset c (mset (zombie_list w1))" using p by (simp add: pools_ok_def)
  then have z: "c \<in> set (opp_list_add E c (zombie_list w1))" by (metis set_mset_mset union_single_eq_member)
  have m: "members ?w2 = (members w)(c := None)" unfolding R(2) [symmetric] by (simp add: members_def fun_eq_iff)
  have "rooms_ok ?w2" using rooms_ok_marks(3) [OF R(1), of c] by simp
  moreover have "quitting c ?w2" using R(3) by (auto simp: quitting_def)
  ultimately show thesis using that [OF b _ m] z R(5) by simp
qed

section \<open>Properties\<close>

text \<open>(C36) A client that cannot be read, has closed its end or sends too much data is closed and buried: the
  handler tells the event loop -1, and the connection has left its room (every other connection where it was),
  is marked as quitted, owns no descriptor and waits among the zombies.\<close>

theorem bad_client_is_buried:
  assumes "rooms_ok w" and "ready E w" and "\<forall>rm \<in> set (room_factory w). good_name (room_name rm)"
    and "wf_txt (chat_name (conns w c))" and "t_len (chat_name (conns w c)) \<le> 100" and "now E \<noteq> 0"
    and "\<not> chat_module_is_quiting w" and "f = strm_fd (strm (conns w c))"
    and "received = None \<or> received = Some [] \<or> (\<exists>d. received = Some d \<and> 255 \<le> length d)"
    and "\<not> has (cstate (conns w c)) CHAT_ZOMBIE"
  shows "\<exists>w'. on_client_data T P E buf received f c w = Inr (-1, w') \<and> rooms_ok w' \<and> members w' = (members w)(c := None) \<and>
    quitting c w' \<and> c \<in> set (zombie_list w') \<and>
    (bubble_up (strm (conns w c)) = None \<longrightarrow> strm_fd (strm (conns w' c)) = INVALID_FD)"
proof -
  obtain w' where b: "close_and_bury E c w = Inr w'" "rooms_ok w'" "members w' = (members w)(c := None)" "quitting c w'"
      "c \<in> set (zombie_list w')" "bubble_up (strm (conns w c)) = None \<longrightarrow> strm_fd (strm (conns w' c)) = INVALID_FD"
    by (rule bury_total [OF assms(1-6,10)])
  have "on_client_data T P E buf received f c w = ebind (close_and_bury E c w) (\<lambda>w'. Inr (-1, w'))"
    using assms(7-9) by (auto simp: on_client_data_def NGINZ_MAX_CHAT_MSG_SIZE_def)
  then show ?thesis using b by (intro exI [of _ w']) simp
qed

lemma bad_client_is_buried_witness:
  "\<exists>w'. on_client_data ref_table (composite_plugin_create ref_table :: (chat_plug, chat_plug, (bytes \<times> nat) list) composite_plugin)
      sample_env (aroop_txt_buffer ref_aroop 255) (Some []) 21 1 sample_world = Inr (-1, w') \<and>
    rooms_ok w' \<and> members w' = (members sample_world)(1 := None) \<and> quitting 1 w' \<and> 1 \<in> set (zombie_list w') \<and>
    (bubble_up (strm (conns sample_world 1)) = None \<longrightarrow> strm_fd (strm (conns w' 1)) = INVALID_FD)"
  by (rule bad_client_is_buried [OF sample_rooms(1) sample_ready(1) sample_rooms(2)])
     (simp_all add: sample_world_def sample_conn_def sample_env_def)

text \<open>(C38) The hidden commands are not hidden: the check looks at the character after the slash, but the
  scanner skips spaces. With aborting assertions a logged-in user stops the whole process by sending a slash, a space and
  \<open>_welcome\<close>; without the space the command is ignored.\<close>

theorem hidden_command_stops_the_process:
  assumes "aroop_ok (lib E)" and "aroop_assert_aborts (lib E)" and "table_ok T" and "plugins_wf T P"
    and "plugins_at T P (lit ''chat/_welcome'') = [(BRIDGE_PLUGIN, Some Welcome, d)]"
    and "has (cstate (conns w c)) CHAT_LOGGED_IN" and "is_valid_chat c w" and "request (conns w c) = None"
    and "wf_txt spaced" and "str spaced = lit ''/ _welcome'' @ [10]" and "wf_txt plain" and "str plain = lit ''/_welcome'' @ [10]"
  shows "command_hook T P E c spaced w = Inl AssertFailed \<and> command_hook T P E c plain w = Inr (0, w)"
proof -
  let ?A = "lib E"
  have l: "t_len spaced = 11" "t_len plain = 10"
    using length_str [OF assms(9)] length_str [OF assms(11)] assms(10,12) by (simp_all add: lit_def)
  have sh: "aroop_txt_shift ?A spaced 1 = \<lparr>t_mem = drop 1 (t_mem spaced), t_len = 10\<rparr>"
    "aroop_txt_shift ?A plain 1 = \<lparr>t_mem = drop 1 (t_mem plain), t_len = 9\<rparr>"
    using shift_law [OF assms(1,9), of 1] shift_law [OF assms(1,11), of 1] l by simp_all
  define req where "req = aroop_txt_shift ?A spaced 1"
  define preq where "preq = aroop_txt_shift ?A plain 1"
  have wf: "wf_txt req" "wf_txt preq" using assms(9,11) l by (simp_all add: wf_txt_def t_cap_def req_def preq_def sh)
  have str: "str req = lit '' _welcome'' @ [10]" "str preq = lit ''_welcome'' @ [10]"
    using assms(10,12) l by (simp_all add: str_def req_def preq_def sh take_drop lit_def)
  have first: "aroop_txt_char_at ?A t 0 = hd (str t)" if "wf_txt t" "str t \<noteq> []" for t
    using that char_at_law [OF assms(1) that(1), of 0] by (cases "t_mem t"; cases "t_len t") (auto simp: str_def wf_txt_def)
  have chars: "aroop_txt_char_at ?A req 0 = 32" "aroop_txt_char_at ?A preq 0 = 95"
    using first [OF wf(1)] first [OF wf(2)] str by (simp_all add: lit_def)
  obtain r2 tok where n: "scanner_next_token ?A req zero_txt = (r2, tok)" by fastforce
  have tok: "wf_txt r2 \<and> str r2 = 10 # [] \<and> wf_txt tok \<and> str tok = lit ''_welcome'' \<and> t_len tok \<noteq> 0"
    by (rule token_of [OF assms(1) wf(1) _ _ _ _ n, where s' = 32])
      (simp_all add: str word_ok_def is_separator_def lit_def)
  define space where "space = aroop_txt_concat ?A (aroop_txt_concat_string ?A (aroop_txt_stackbuffer ?A 64) (lit ''chat/'')) tok"
  have lt: "t_len tok = 8" using tok length_str [of tok] by (simp add: lit_def)
  have "built 64 space (([] @ lit ''chat/'') @ str tok)"
    unfolding space_def
    by (rule built_concat [OF assms(1) built_string [OF assms(1) built_stackbuffer [OF assms(1)]]]) (use tok lt in \<open>simp_all add: lit_def\<close>)
  then have sp: "str space = lit ''chat/_welcome''" using tok by (simp add: built_def lit_def)
  have bad: "cstate (conns w c) \<noteq> CHAT_CONNECTED"
  proof
    assume "cstate (conns w c) = CHAT_CONNECTED"
    with assms(6) show False by (simp add: has_def CHAT_CONNECTED_def CHAT_LOGGED_IN_def)
  qed
  let ?w1 = "upd_conn c (request_update (\<lambda>_. Some (aroop_txt_shift ?A r2 1))) w"
  have "is_valid_chat c ?w1" "cstate (conns ?w1 c) \<noteq> CHAT_CONNECTED" using assms(7) bad by (simp_all add: is_valid_chat_def)
  then have "chat_welcome_plug E CHAT_SIGNATURE c ?w1 = Inl AssertFailed"
    using assms(2) by (simp add: chat_welcome_plug_def aroop_assert_def)
  then have "chat_bridge_call T P E space c ?w1 = Inl AssertFailed"
    by (simp add: chat_bridge_call_def bridge_call_runs [OF assms(3,4)] sp assms(5) chat_runner_def)
  then have "command_hook T P E c spaced w = Inl AssertFailed"
    using chars(1) tok assms(8)
    by (simp add: command_hook_def copy_shallow_law [OF assms(1)] flip: req_def) (simp add: n flip: space_def)
  moreover have "command_hook T P E c plain w = Inr (0, w)"
    using chars(2) by (simp add: command_hook_def copy_shallow_law [OF assms(1)] flip: preq_def)
  ultimately show ?thesis ..
qed

lemma hidden_command_stops_the_process_witness:
  "\<exists>P. plug_seq ref_aroop ref_table [(BRIDGE_PLUGIN, txt_of (lit ''chat/_welcome''), Welcome, Welcome)] (composite_plugin_create ref_table) = Inr P \<and>
    command_hook ref_table P sample_env 1 (txt_of (lit ''/ _welcome'' @ [10])) sample_world = Inl AssertFailed \<and>
    command_hook ref_table P sample_env 1 (txt_of (lit ''/_welcome'' @ [10])) sample_world = Inr (0, sample_world)"
proof -
  let ?rs = "[(BRIDGE_PLUGIN, txt_of (lit ''chat/_welcome''), Welcome, Welcome)]"
  obtain P where P: "plug_seq ref_aroop ref_table ?rs (composite_plugin_create ref_table) = Inr P" "plugins_wf ref_table P"
    "plugins_at ref_table P = requested ?rs"
    using plug_seq_fresh [OF ref_aroop_ok ref_table_ok, of ?rs] by auto
  have "command_hook ref_table P sample_env 1 (txt_of (lit ''/ _welcome'' @ [10])) sample_world = Inl AssertFailed \<and>
    command_hook ref_table P sample_env 1 (txt_of (lit ''/_welcome'' @ [10])) sample_world = Inr (0, sample_world)"
    by (rule hidden_command_stops_the_process [OF _ _ ref_table_ok P(2), where d = Welcome])
      (simp_all add: P(3) requested_def sample_env_def ref_aroop_ok sample_world_def sample_conn_def is_valid_chat_def
        is_valid_stream_def INVALID_FD_def has_def CHAT_LOGGED_IN_def, simp add: ref_aroop_def)
  with P(1) show ?thesis by blast
qed

end
