(* ===== verification/ChatReach.thy ===== *)
theory ChatReach
  imports ChatServer
begin

text \<open>
  A chat process as a transition system: every step is one handler of the chat application run to its
  end by the event loop, a fiber or a packet of the master, under any environment (results of the
  system calls, time, place of new objects). The invariants of the rooms and of the zombies hold in
  every state the process can reach.
\<close>

section \<open>Steps\<close>

inductive chat_step ::
    "('h, nat) table_api \<Rightarrow> (chat_plug, chat_plug, 'h) composite_plugin \<Rightarrow> 'w chat_world \<Rightarrow> 'w chat_world \<Rightarrow> bool"
  for T P where
  client: "pools_ok E \<Longrightarrow> c \<in> set (chat_factory w) \<Longrightarrow> on_client_data T P E buf received f c w = Inr (r, w') \<Longrightarrow> chat_step T P w w'"
| bubble: "pools_ok E \<Longrightarrow> on_connection_bubble T P E f cmd w = Inr (r, w') \<Longrightarrow> chat_step T P w w'"
| accepted: "on_tcp_connection E lb f w = Inr (r, lb', w') \<Longrightarrow> chat_step T P w w'"
| login_reply: "on_asyncchat_login_hook E bin w = Inr (r, w') \<Longrightarrow> chat_step T P w w'"
| room_reply: "pools_ok E \<Longrightarrow> on_asyncchat_room_pid E bin w = Inr (r, w') \<Longrightarrow> chat_step T P w w'"
| rooms_reply: "on_asyncchat_rooms E bin w = Inr (r, w') \<Longrightarrow> chat_step T P w w'"
| sweep: "chat_lazy_cleanup_fiber E w = Inr (r, w') \<Longrightarrow> chat_step T P w w'"
| lazy: "chat_lazy_step w = Inr w' \<Longrightarrow> chat_step T P w w'"
| reclaim: "c \<notin> set (zombie_list w) \<Longrightarrow> chat_reclaim E c w = Inr w' \<Longrightarrow> chat_step T P w w'"
| add_room: "broadcast_add_room E nm w = (r, w') \<Longrightarrow> chat_step T P w w'"
| softquit: "chat_factory_on_softquit E w = Inr (r, w') \<Longrightarrow> chat_step T P w w'"
| softquit_zombies: "chat_zombie_on_softquit w = (r, w') \<Longrightarrow> chat_step T P w w'"
| softquit_accept: "chat_accept_on_softquit w = (r, w') \<Longrightarrow> chat_step T P w w'"

text \<open>The process before its first step: the pools are empty and the memory of the objects is zero.\<close>

definition fresh_process :: "'w chat_world \<Rightarrow> bool" where
  "fresh_process w \<longleftrightarrow> chat_factory w = [] \<and> room_factory w = [] \<and> zombie_list w = [] \<and>
     (\<forall>c. callback_data (conns w c) = None \<and> cstate (conns w c) = CHAT_CONNECTED \<and> on_response_callback (conns w c) = None)"

inductive chat_reachable ::
    "('h, nat) table_api \<Rightarrow> (chat_plug, chat_plug, 'h) composite_plugin \<Rightarrow> 'w chat_world \<Rightarrow> bool" for T P where
  start: "fresh_process w \<Longrightarrow> chat_reachable T P w"
| step: "chat_reachable T P w \<Longrightarrow> chat_step T P w w' \<Longrightarrow> chat_reachable T P w'"

definition chat_ok :: "'w chat_world \<Rightarrow> bool" where
  "chat_ok w \<longleftrightarrow> rooms_ok w \<and> zombies_ok w"

section \<open>Every step keeps the invariant\<close>

lemma keeps_ok: "keeps c w w' \<Longrightarrow> c \<in> set (chat_factory w) \<Longrightarrow> chat_ok w \<Longrightarrow> chat_ok w'"
  by (simp add: keeps_def chat_ok_def)

lemma one_kept_ok: "one_kept w w' \<Longrightarrow> chat_ok w \<Longrightarrow> chat_ok w'"
  by (auto simp: one_kept_def intro: keeps_ok)

lemma frame_ok [simp]:
  "chat_ok (w\<lparr>outside := o'\<rparr>) \<longleftrightarrow> chat_ok w" "chat_ok (w\<lparr>lazy_data := l\<rparr>) \<longleftrightarrow> chat_ok w"
  "chat_ok (w\<lparr>gear := g\<rparr>) \<longleftrightarrow> chat_ok w" "chat_ok (w\<lparr>chat_module_is_quiting := b\<rparr>) \<longleftrightarrow> chat_ok w"
  by (simp_all add: chat_ok_def zombies_ok_def)

lemma fewer_zombies_ok:
  "chat_ok w \<Longrightarrow> distinct zs \<Longrightarrow> set zs \<subseteq> set (zombie_list w) \<Longrightarrow> chat_ok (w\<lparr>zombie_list := zs\<rparr>)"
  by (auto simp: chat_ok_def zombies_ok_def)

lemma sweep_loop_frame: "sweep_loop E pts w = Inr w' \<Longrightarrow> \<exists>l. w' = w\<lparr>lazy_data := l\<rparr>"
proof (induction pts arbitrary: w)
  case Nil
  then show ?case by (intro exI [of _ "lazy_data w"]) simp
next
  case (Cons pt pts)
  then show ?case by (fastforce simp: Let_def ebind_Inr_iff split: if_splits)
qed

lemma unref_loop_ok:
  "lazy_cleanup_loop chat_unref n w s = Inr (w', s') \<Longrightarrow> chat_ok w \<Longrightarrow> chat_ok w'"
proof (induction n arbitrary: w s)
  case (Suc n)
  then obtain w1 s1 where 1: "chat_unref (lazy_cleanup_objects s n) w s = Inr (w1, s1)"
    "lazy_cleanup_loop chat_unref n w1 s1 = Inr (w', s')" by (auto simp: ebind_Inr_iff)
  have "chat_ok w1"
    using 1(1) Suc.prems(2) fewer_zombies_ok [OF Suc.prems(2)]
    by (auto simp: chat_unref_def chat_ok_def zombies_ok_def split: option.splits lazy_object.splits dest: notin_set_remove1)
  then show ?case using Suc.IH [OF 1(2)] by blast
qed simp

lemma lazy_loop_id: "lazy_call_loop (\<lambda>_ _ w s. Inr (w, s)) n w s = Inr (w', s') \<Longrightarrow> w' = w \<and> s' = s"
  by (induction n) (auto split: option.splits)

lemma lazy_step_ok: "chat_lazy_step w = Inr w' \<Longrightarrow> chat_ok w \<Longrightarrow> chat_ok w'"
  unfolding chat_lazy_step_def lazy_call_step_def Let_def
  by (elim ebind_InrE) (auto elim!: ebind_InrE dest!: lazy_loop_id unref_loop_ok split: prod.splits)

lemma reclaim_ok:
  assumes "chat_ok w" and "c \<notin> set (zombie_list w)" and "chat_reclaim E c w = Inr w'"
  shows "chat_ok w'"
proof -
  define g :: "chat_connection \<Rightarrow> chat_connection" where "g = (\<lambda>x. x\<lparr>strm := (strm x)\<lparr>strm_fd := -1, bubble_up := None, bubble_down := None,
      send_buffer := aroop_txt_destroy (lib E) (send_buffer (strm x))\<rparr>, chat_name := aroop_txt_destroy (lib E) (chat_name x)\<rparr>)"
  obtain r w1 where c: "default_chat_close E c w = Inr (r, w1)"
    and w': "w' = (upd_conn c g w1)\<lparr>chat_factory := remove1 c (chat_factory (upd_conn c g w1))\<rparr>"
    using assms(3) by (auto simp: chat_reclaim_def chat_finalize_def ebind_Inr_iff g_def)
  have ok: "rooms_ok w" "zombies_ok w" using assms(1) by (simp_all add: chat_ok_def)
  note R = close_result [OF ok(1) c]
  let ?v = "upd_conn c g w1"
  have v: "rooms_ok ?v" by (rule rooms_ok_upd) (use R in \<open>simp_all add: g_def\<close>)
  have "members w1 c = None" using R by simp
  then have n: "callback_data (conns ?v c) = None" by (simp add: g_def members_def)
  have s: "set (user_list (the_room q ?v)) \<subseteq> set (remove1 c (chat_factory ?v))" if "q < length (room_factory ?v)" for q
  proof
    fix d
    assume d: "d \<in> set (user_list (the_room q ?v))"
    then have "d \<noteq> c" using rooms_okD(1) [OF v, of d q] n that by auto
    moreover have "d \<in> set (chat_factory ?v)" using rooms_okD(5) [OF v that] d by blast
    ultimately show "d \<in> set (remove1 c (chat_factory ?v))" by simp
  qed
  have f: "conns w' = conns ?v" "room_factory w' = room_factory ?v" "the_room q w' = the_room q ?v"
    "chat_factory w' = remove1 c (chat_factory ?v)" for q by (simp_all add: w' the_room_def)
  have "rooms_ok w'"
    using v s unfolding rooms_ok_def f by blast
  moreover have "zombies_ok w'"
  proof -
    have "has (cstate (conns w1 d)) CHAT_ZOMBIE \<longleftrightarrow> has (cstate (conns w d)) CHAT_ZOMBIE" for d
      using R by (cases "d = c") (auto simp: touches_def conn_calm_def)
    then show ?thesis using ok(2) R assms(2) by (auto simp: zombies_ok_def w' g_def touches_def in_set_remove1)
  qed
  ultimately show ?thesis by (simp add: chat_ok_def)
qed

lemma add_room_ok:
  assumes "broadcast_add_room E nm w = (r, w')" and "chat_ok w"
  shows "chat_ok w'"
proof -
  have "w' = w \<or> (\<exists>n. w' = w\<lparr>room_factory := room_factory w @ [\<lparr>room_name = n, user_list = []\<rparr>]\<rparr>)"
    using assms(1) by (auto simp: broadcast_add_room_def split: if_splits)
  then show ?thesis
  proof (elim disjE exE)
    fix n
    assume w': "w' = w\<lparr>room_factory := room_factory w @ [\<lparr>room_name = n, user_list = []\<rparr>]\<rparr>"
    have ok: "rooms_ok w" "zombies_ok w" using assms(2) by (simp_all add: chat_ok_def)
    have l: "length (room_factory w') = Suc (length (room_factory w))" "conns w' = conns w" "chat_factory w' = chat_factory w"
      by (simp_all add: w')
    have t: "user_list (the_room q w') = (if q < length (room_factory w) then user_list (the_room q w) else [])"
      if "q < length (room_factory w')" for q
      using that by (auto simp: w' the_room_def nth_append less_Suc_eq)
    have "callback_data (conns w' c) = Some q \<longleftrightarrow> q < length (room_factory w') \<and> c \<in> set (user_list (the_room q w'))" for c q
      using rooms_okD(1) [OF ok(1), of c q] t [of q] l by auto
    moreover have "distinct (user_list (the_room q w')) \<and> length (user_list (the_room q w')) \<le> NGINZ_MAX_CHAT_ROOM_USER \<and>
        set (user_list (the_room q w')) \<subseteq> set (chat_factory w')" if "q < length (room_factory w')" for q
      using rooms_okD(3-5) [OF ok(1), of q] t [OF that] l by auto
    moreover have "has (cstate (conns w' c)) CHAT_IN_ROOM \<longleftrightarrow> callback_data (conns w' c) \<noteq> None"
        "on_response_callback (conns w' c) = Some Broadcast \<longrightarrow> callback_data (conns w' c) \<noteq> None" for c
      using rooms_okD(2,6) [OF ok(1), of c] l(2) by simp_all
    ultimately have "rooms_ok w'" unfolding rooms_ok_def by blast
    moreover have "zombies_ok w'" using ok(2) by (simp add: w' zombies_ok_def)
    ultimately show ?thesis by (simp add: chat_ok_def)
  qed (simp add: assms(2))
qed

lemma softquit_loop_ok:
  "softquit_loop E cs w = Inr w' \<Longrightarrow> set cs \<subseteq> set (chat_factory w) \<Longrightarrow> chat_ok w \<Longrightarrow> chat_ok w'"
proof (induction cs arbitrary: w)
  case (Cons c cs)
  then obtain r1 w1 r2 w2 where 1: "broadcast_room_leave E c w = Inr (r1, w1)" "default_chat_close E c w1 = Inr (r2, w2)"
    "softquit_loop E cs w2 = Inr w'" by (auto simp: ebind_Inr_iff)
  have ok: "rooms_ok w" using Cons.prems(3) by (simp add: chat_ok_def)
  have k1: "keeps c w w1" by (rule leave_keeps [OF ok 1(1)])
  have k: "keeps c w w2" by (rule keeps_trans [OF k1 close_keeps [OF keeps_rooms [OF k1 ok] 1(2)]])
  have "chat_ok w2" using keeps_ok [OF k] Cons.prems(2,3) by simp
  then show ?case using Cons.IH [OF 1(3)] keeps_factory [OF k] Cons.prems(2) by simp
qed simp

lemma bubble_ok:
  assumes "chat_ok w" and "pools_ok E" and "on_connection_bubble T P E f cmd w = Inr (r, w')"
  shows "chat_ok w'"
proof -
  have ok: "rooms_ok w" "zombies_ok w" using assms(1) by (simp_all add: chat_ok_def)
  from bubble_keeps [OF assms(2) ok assms(3)] show ?thesis
  proof (elim disjE exE conjE)
    fix c w1
    assume a: "uptime_count_chat_create E f w = (c, w1)" "keeps c w1 w'"
    note A = create_result [OF assms(2) ok a(1)]
    show ?thesis by (rule keeps_ok [OF a(2) A(3)]) (simp add: chat_ok_def A(1,2))
  qed (simp add: assms(1))
qed

lemma foldl_remove1: "set (foldl (\<lambda>z pt. remove1 pt z) zs ps) \<subseteq> set zs \<and> (distinct zs \<longrightarrow> distinct (foldl (\<lambda>z pt. remove1 pt z) zs ps))"
  by (induction ps arbitrary: zs) (simp_all, meson distinct_remove1 order_trans set_remove1_subset)

lemma foldl_zombies: "foldl (\<lambda>w pt. w\<lparr>zombie_list := remove1 pt (zombie_list w)\<rparr>) w ps =
    w\<lparr>zombie_list := foldl (\<lambda>z pt. remove1 pt z) (zombie_list w) ps\<rparr>"
  by (induction ps arbitrary: w) simp_all

lemma zombie_softquit_ok: "chat_zombie_on_softquit w = (r, w') \<Longrightarrow> chat_ok w \<Longrightarrow> chat_ok w'"
  using fewer_zombies_ok [of w "foldl (\<lambda>z pt. remove1 pt z) (zombie_list w) (zombie_list w)"]
    foldl_remove1 [of "zombie_list w" "zombie_list w"]
  by (auto simp: chat_zombie_on_softquit_def foldl_zombies chat_ok_def zombies_ok_def)

lemma step_ok: "chat_step T P w w' \<Longrightarrow> chat_ok w \<Longrightarrow> chat_ok w'"
proof (induction rule: chat_step.induct)
  case (client E c w buf received f r w')
  then show ?case using client_data_keeps keeps_ok by (metis chat_ok_def)
next
  case (room_reply E bin w r w')
  then show ?case using room_pid_keeps one_kept_ok by (metis chat_ok_def)
next
  case (sweep E w r w')
  then show ?case
    by (auto simp: chat_lazy_cleanup_fiber_def Let_def ebind_Inr_iff dest!: sweep_loop_frame split: if_splits)
next
  case (softquit E w r w')
  then show ?case by (auto simp: chat_factory_on_softquit_def ebind_Inr_iff intro: softquit_loop_ok)
next
  case (accepted E lb f w r lb' w')
  then show ?case by (auto simp: on_tcp_connection_def ebind_Inr_iff case_prod_beta)
qed (auto intro: bubble_ok one_kept_ok login_hook_keeps rooms_hook_keeps lazy_step_ok reclaim_ok add_room_ok
    zombie_softquit_ok simp: chat_accept_on_softquit_def)

section \<open>Property\<close>

text \<open>(C2) In every state a chat process can reach, every connection is in at most one room, exactly once, the one
  its \<open>callback_data\<close> and its state bit name; no room has more than 32 members or a member that is
  not alive; and every zombie is a live object that is in the list once and marked as a zombie.\<close>

theorem chat_stays_consistent:
  assumes "chat_reachable T P w"
  shows "rooms_ok w \<and> zombies_ok w"
proof -
  from assms have "chat_ok w"
  proof (induction rule: chat_reachable.induct)
    case (start w)
    then show ?case by (simp add: fresh_process_def chat_ok_def rooms_ok_def zombies_ok_def CHAT_CONNECTED_def)
  next
    case (step w w')
    then show ?case using step_ok by blast
  qed
  then show ?thesis by (simp add: chat_ok_def)
qed

definition fresh_world :: "(target \<times> bytes \<times> int) list chat_world" where
  "fresh_world = sample_world\<lparr>chat_factory := [], room_factory := [],
     conns := (\<lambda>c. (sample_conn 0)\<lparr>strm := (strm (sample_conn 0))\<lparr>strm_fd := -1\<rparr>\<rparr>)\<rparr>"

lemma chat_stays_consistent_witness:
  "let w = snd (broadcast_add_room sample_env (txt_of (lit ''ONE'')) fresh_world)
   in room_factory w \<noteq> [] \<and> rooms_ok w \<and> zombies_ok w"
proof -
  let ?w = "snd (broadcast_add_room sample_env (txt_of (lit ''ONE'')) fresh_world)"
  let ?P = "composite_plugin_create ref_table :: (chat_plug, chat_plug, (bytes \<times> nat) list) composite_plugin"
  have "fresh_process fresh_world"
    by (simp add: fresh_process_def fresh_world_def sample_world_def sample_conn_def)
  then have "chat_reachable ref_table ?P fresh_world" by (rule chat_reachable.start)
  moreover have "chat_step ref_table ?P fresh_world ?w"
    by (rule chat_step.add_room [of sample_env "txt_of (lit ''ONE'')" _ 0]) (simp add: broadcast_add_room_def)
  ultimately have "chat_reachable ref_table ?P ?w" by (rule chat_reachable.step)
  from chat_stays_consistent [OF this] show ?thesis
    by (simp add: Let_def) (simp add: broadcast_add_room_def fresh_world_def)
qed

end
