(* ===== verification/ChatCount.thy ===== *)
theory ChatCount
  imports ChatRooms
begin

text \<open>
  The number of users of a room as the master's database knows it: the chat process reports every
  join and leave (\<open>chat_room_set_user_count\<close> in \<open>apps/chat/src/room.c\<close>) by the compare-and-swap
  requests of \<open>async_db_increment\<close>, and the master serves them. The theory composes \<open>ChatRooms\<close> with
  \<open>AsyncDb\<close>.
\<close>

section \<open>Sends do not use the pipeline\<close>

lemma send_pipe [simp]: "pipe (send E c t fl w) = pipe w"
  by (auto simp: default_chat_send_def Let_def split: prod.splits)

lemma loop_pipe [simp]: "pipe (broadcast_loop E chat msg us w) = pipe w"
  by (induction us arbitrary: w) auto

lemma greet_loop_pipe [simp]: "pipe (snd (greet_loop E chat resp us w)) = pipe w"
  by (induction us arbitrary: w resp) (simp_all add: Let_def)

lemma greet_pipe [simp]: "pipe (snd (broadcast_room_greet E c r w)) = pipe w"
  by (simp add: broadcast_room_greet_def broadcast_callback_helper_def Let_def case_prod_beta)

lemma bye_pipe [simp]: "pipe (snd (broadcast_room_bye E c r w)) = pipe w"
  by (simp add: broadcast_room_bye_def broadcast_callback_helper_def Let_def)

lemma set_user_count_pipe:
  assumes "0 < t_len nm"
    and "async_db_increment (lib E) (send_fails E) (my_pid E) (master_pid E) (-1) None (room_key (lib E) ROOM_USER_KEY nm) n d (pipe w)
      = Inr (0, s)"
  shows "chat_room_set_user_count E nm n d w = Inr (0, w\<lparr>pipe := s\<rparr>)"
  using assms by (simp add: chat_room_set_user_count_def on_pipe_def)

section \<open>The database counts the members\<close>

text \<open>How many connections are in room \<open>r\<close>, as the 32-bit number the code reports.\<close>

definition member_count :: "nat \<Rightarrow> 'w chat_world \<Rightarrow> 32 word" where
  "member_count r w = of_nat (card {d. members w d = Some r})"

definition count_key :: "nat \<Rightarrow> 'w chat_world \<Rightarrow> bytes" where
  "count_key r w = ROOM_USER_KEY @ str (room_name (the_room r w))"

definition counts_reach ::
    "'w chat_env \<Rightarrow> ('h, aroop_txt_t) table_api \<Rightarrow> nat \<Rightarrow> 'w chat_world \<Rightarrow> 'h db_master \<Rightarrow> 'w chat_world \<Rightarrow> bool" where
  "counts_reach E T r w m w' \<longleftrightarrow>
     (\<exists>f bss m'. effects (pipe w') = effects (pipe w) @ map (SendMsg f) bss \<and>
        db_serve_all (lib E) T (send_fails E) (master_pid E) db_plugs bss m = Inr m' \<and>
        db_map T (global_db m') = (db_map T (global_db m))(count_key r w := stored_count (member_count r w')))"

definition served_master ::
    "'w chat_env \<Rightarrow> ('h, aroop_txt_t) table_api \<Rightarrow> nat \<Rightarrow> 'w chat_world \<Rightarrow> 'h db_master \<Rightarrow> bool" where
  "served_master E T r w m \<longleftrightarrow> table_ok T \<and> db_wf T (global_db m) \<and> reader_ok (db_pp m) \<and> is_master (db_pp m) \<and>
     db_map T (global_db m) (count_key r w) = stored_count (member_count r w)"

lemma reported:
  assumes "ready E w" and "good_name nm" and "\<forall>f. \<not> send_fails E f"
    and "table_ok T" "db_wf T (global_db m)" "reader_ok (db_pp m)" "is_master (db_pp m)"
    and "db_map T (global_db m) (ROOM_USER_KEY @ str nm) = stored_count n" and "pipe w3 = pipe w"
  shows "\<exists>w' f bss m'. chat_room_set_user_count E nm n d w3 = Inr (0, w') \<and>
    effects (pipe w') = effects (pipe w) @ map (SendMsg f) bss \<and>
    db_serve_all (lib E) T (send_fails E) (master_pid E) db_plugs bss m = Inr m' \<and>
    db_map T (global_db m') = (db_map T (global_db m))(ROOM_USER_KEY @ str nm := stored_count (n + d))"
proof -
  have A: "aroop_ok (lib E)" "master_pid E \<noteq> 0" using assms(1) by (simp_all add: ready_def)
  obtain i where i: "node_index (master_pid E) (pipe w) = Some i" using assms(1) by (auto simp: ready_def)
  let ?k = "room_key (lib E) ROOM_USER_KEY nm"
  have nm: "wf_txt nm" "0 < t_len nm" "t_len nm \<le> 100" using assms(2) by (simp_all add: good_name_def)
  have k: "wf_txt ?k" "str ?k = ROOM_USER_KEY @ str nm" "str ?k \<noteq> []" "length (str ?k) \<le> 170"
    using room_key_props [OF A(1) nm(1), of ROOM_USER_KEY] nm length_str [OF nm(1)] by (simp_all add: ROOM_USER_KEY_def lit_def)
  obtain bss m' where b: "async_db_increment (lib E) (send_fails E) (my_pid E) (master_pid E) (-1) None ?k n d (pipe w) =
        Inr (0, (pipe w)\<lparr>effects := effects (pipe w) @ map (SendMsg (fd0 (nodes (pipe w) i))) bss\<rparr>)"
      "db_serve_all (lib E) T (send_fails E) (master_pid E) db_plugs bss m = Inr m'"
      "db_map T (global_db m') = (db_map T (global_db m))(str ?k := stored_count (n + d))"
    using increment_tracked [where fails = "send_fails E" and n = n and pid = "my_pid E" and tok = "-1" and d = d,
        OF A(1) assms(4-7) k(1,3,4) i A(2)] assms(3,8) k(2) by auto
  show ?thesis
    using set_user_count_pipe [of nm E n d w3] b nm(2) assms(9) k(2)
    by (intro exI [of _ "w3\<lparr>pipe := (pipe w)\<lparr>effects := effects (pipe w) @ map (SendMsg (fd0 (nodes (pipe w) i))) bss\<rparr>\<rparr>"]
        exI [of _ "fd0 (nodes (pipe w) i)"] exI [of _ bss] exI [of _ m']) simp
qed

lemma leave_in_room:
  assumes "rooms_ok w" and "callback_data (conns w c) = Some r"
  shows "\<exists>w3. broadcast_room_leave E c w = ebind (chat_room_set_user_count E (room_name (the_room r w)) (member_count r w) (-1) w3)
      (\<lambda>(_, w4). Inr (0, w4)) \<and> pipe w3 = pipe w"
proof -
  have r: "r < length (room_factory w)" "c \<in> set (user_list (the_room r w))" using rooms_okD(1) [OF assms(1)] assms(2) by auto
  have q: "quiet w (snd (broadcast_room_bye E c r w))" by simp
  have t: "the_room r (snd (broadcast_room_bye E c r w)) = the_room r w"
    using quiet_world(2) [OF q] by (simp add: the_room_def)
  have "length (user_list (the_room r w)) \<noteq> 0" using r(2) by auto
  then have l: "of_nat (length (remove1 c (user_list (the_room r w)))) + 1 = member_count r w"
    using user_count [OF assms(1) r(1)] r(2) by (simp add: member_count_def length_remove1)
  show ?thesis
    using assms(2) rooms_okD(2) [OF assms(1), of c] r(1) l t quiet_world(2) [OF q]
    by (intro exI [of _ "upd_conn c (\<lambda>x. clear_bits CHAT_IN_ROOM (x\<lparr>callback_data := None, on_response_callback := None\<rparr>))
      (upd_users r (remove1 c) (snd (broadcast_room_bye E c r w)))"])
      (simp add: broadcast_room_leave_def Let_def)
qed

lemma join_from_none:
  assumes "rooms_ok w" and "pools_ok E" and "c \<in> set (chat_factory w)" and "admitted E c nm w = Some r"
    and "callback_data (conns w c) = None"
  shows "\<exists>w3. broadcast_room_join E c nm w = ebind (chat_room_set_user_count E (room_name (the_room r w)) (member_count r w) 1 w3)
      (\<lambda>(_, w4). Inr (0, w4)) \<and> pipe w3 = pipe w"
proof -
  note a = admitted_Some [OF assms(1,2,4)]
  let ?w2 = "enter_room E c r w" and ?w3 = "snd (broadcast_room_greet E c r (enter_room E c r w))"
  have q: "quiet ?w2 ?w3" by simp
  have t: "the_room r ?w3 = the_room r ?w2" using quiet_world(2) [OF q] by (simp add: the_room_def)
  have ok: "rooms_ok ?w2" by (rule enter_step [OF assms(1,2,5) a(3,4) assms(3)])
  have n: "room_name (the_room r ?w2) = room_name (the_room r w)" using a(3) by (simp add: enter_room_def)
  have "mset (opp_list_add E c xs) = add_mset c (mset xs)" for xs using assms(2) by (simp add: pools_ok_def)
  then have "length (opp_list_add E c xs) = Suc (length xs)" for xs
    by (metis size_add_mset size_mset)
  then have l: "of_nat (length (user_list (the_room r ?w2))) - 1 = member_count r w"
    using user_count [OF assms(1) a(3)] a(3) by (simp add: member_count_def enter_room_def)
  show ?thesis
    unfolding join_admitted [OF assms(1-4)]
    by (rule exI [of _ ?w3]) (simp add: moved_def assms(5) Let_def t n l, simp add: enter_room_def)
qed

lemma member_set:
  assumes "rooms_ok w" and "r < length (room_factory w)"
  shows "{d. members w d = Some r} = set (user_list (the_room r w))"
  unfolding members_def rooms_okD(1) [OF assms(1)] using assms(2) by blast

lemma counts_reachI:
  assumes "effects (pipe w') = effects (pipe w) @ map (SendMsg f) bss"
    and "db_serve_all (lib E) T (send_fails E) (master_pid E) db_plugs bss m = Inr m'"
    and "db_map T (global_db m') = (db_map T (global_db m))(count_key r w := stored_count n)" and "n = member_count r w'"
  shows "counts_reach E T r w m w'"
  unfolding counts_reach_def using assms(1-3) unfolding assms(4) by (intro exI conjI)

section \<open>Property\<close>

text \<open>(C4) The counter of a room in the database follows the membership: if the master stores the number of
  members of room \<open>r\<close> (no entry when there is none), then after a member leaves, or a user who is in no room is
  admitted, and the master has read what that process sent, it stores the new number of members, and no other key
  of the database has changed.\<close>

theorem count_follows_membership:
  assumes "rooms_ok w" and "ready E w" and "\<forall>rm \<in> set (room_factory w). good_name (room_name rm)"
    and "c \<in> set (chat_factory w)" and "\<forall>f. \<not> send_fails E f" and "served_master E T r w m"
  shows "(members w c = Some r \<longrightarrow>
      (\<exists>w'. broadcast_room_leave E c w = Inr (0, w') \<and> members w' = (members w)(c := None) \<and> counts_reach E T r w m w')) \<and>
    (members w c = None \<and> admitted E c nm w = Some r \<longrightarrow>
      (\<exists>w'. broadcast_room_join E c nm w = Inr (0, w') \<and> members w' = (members w)(c \<mapsto> r) \<and> counts_reach E T r w m w'))"
proof (intro conjI impI)
  have m: "table_ok T" "db_wf T (global_db m)" "reader_ok (db_pp m)" "is_master (db_pp m)"
      "db_map T (global_db m) (ROOM_USER_KEY @ str (room_name (the_room r w))) = stored_count (member_count r w)"
    using assms(6) by (simp_all add: served_master_def count_key_def)
  assume "members w c = Some r"
  then have c: "callback_data (conns w c) = Some r" by (simp add: members_def)
  then have r: "r < length (room_factory w)" using rooms_okD(1) [OF assms(1)] by blast
  then have g: "good_name (room_name (the_room r w))" using assms(3) by (simp add: the_room_def)
  obtain w3 where w3: "broadcast_room_leave E c w = ebind (chat_room_set_user_count E (room_name (the_room r w)) (member_count r w) (-1) w3)
      (\<lambda>(_, w4). Inr (0, w4))" "pipe w3 = pipe w"
    using leave_in_room [OF assms(1) c] by blast
  from reported [OF assms(2) g assms(5) m w3(2), of "-1"]
  obtain w' f bss m' where w': "broadcast_room_leave E c w = Inr (0, w')" "effects (pipe w') = effects (pipe w) @ map (SendMsg f) bss"
    "db_serve_all (lib E) T (send_fails E) (master_pid E) db_plugs bss m = Inr m'"
    "db_map T (global_db m') = (db_map T (global_db m))(count_key r w := stored_count (member_count r w - 1))"
    using w3(1) by (auto simp: count_key_def)
  have L: "members w' = (members w)(c := None)" using leave_result [OF assms(1) w'(1)] by simp
  have "card {d. members w d = Some r} = Suc (card {d. members w' d = Some r})"
  proof -
    have "finite {d. members w d = Some r}" unfolding member_set [OF assms(1) r] by simp
    moreover have "{d. members w' d = Some r} = {d. members w d = Some r} - {c}" using L by (auto split: if_splits)
    ultimately show ?thesis
      using card.remove [of "{d. members w d = Some r}" c] \<open>members w c = Some r\<close> by simp
  qed
  then have "member_count r w - 1 = member_count r w'" by (simp add: member_count_def)
  with w' L show "\<exists>w'. broadcast_room_leave E c w = Inr (0, w') \<and> members w' = (members w)(c := None) \<and> counts_reach E T r w m w'"
    by (intro exI [of _ w'] conjI counts_reachI)
next
  have p: "pools_ok E" using assms(2) by (simp add: ready_def)
  have m: "table_ok T" "db_wf T (global_db m)" "reader_ok (db_pp m)" "is_master (db_pp m)"
      "db_map T (global_db m) (ROOM_USER_KEY @ str (room_name (the_room r w))) = stored_count (member_count r w)"
    using assms(6) by (simp_all add: served_master_def count_key_def)
  assume a: "members w c = None \<and> admitted E c nm w = Some r"
  then have c: "callback_data (conns w c) = None" and ad: "admitted E c nm w = Some r" by (simp_all add: members_def)
  have r: "r < length (room_factory w)" by (rule admitted_Some(3) [OF assms(1) p ad])
  then have g: "good_name (room_name (the_room r w))" using assms(3) by (simp add: the_room_def)
  obtain w3 where w3: "broadcast_room_join E c nm w = ebind (chat_room_set_user_count E (room_name (the_room r w)) (member_count r w) 1 w3)
      (\<lambda>(_, w4). Inr (0, w4))" "pipe w3 = pipe w"
    using join_from_none [OF assms(1) p assms(4) ad c] by blast
  from reported [OF assms(2) g assms(5) m w3(2), of 1]
  obtain w' f bss m' where w': "broadcast_room_join E c nm w = Inr (0, w')" "effects (pipe w') = effects (pipe w) @ map (SendMsg f) bss"
    "db_serve_all (lib E) T (send_fails E) (master_pid E) db_plugs bss m = Inr m'"
    "db_map T (global_db m') = (db_map T (global_db m))(count_key r w := stored_count (member_count r w + 1))"
    using w3(1) by (auto simp: count_key_def)
  have J: "members w' = (members w)(c \<mapsto> r)" using join_result [OF assms(1) p assms(4) w'(1)] ad by simp
  have "card {d. members w' d = Some r} = Suc (card {d. members w d = Some r})"
  proof -
    have "finite {d. members w d = Some r}" unfolding member_set [OF assms(1) r] by simp
    moreover have "{d. members w' d = Some r} = insert c {d. members w d = Some r}" using J by auto
    ultimately show ?thesis using a by simp
  qed
  then have "member_count r w + 1 = member_count r w'" by (simp add: member_count_def)
  with w' J show "\<exists>w'. broadcast_room_join E c nm w = Inr (0, w') \<and> members w' = (members w)(c \<mapsto> r) \<and> counts_reach E T r w m w'"
    by (intro exI [of _ w'] conjI counts_reachI)
qed

definition sample_master :: "(bytes \<times> aroop_txt_t) list db_master" where
  "sample_master = \<lparr>global_db = [(lit ''room/user/ONE'', txt_of (dec_int 2))], db_pp = ready_nodes\<rparr>"

lemma sample_served: "served_master sample_env ref_table 0 sample_world sample_master"
proof -
  have "0 < length (room_factory sample_world)" "length (user_list (the_room 0 sample_world)) = 2"
    by (simp_all add: sample_world_def the_room_def)
  then have "member_count 0 sample_world = of_nat 2"
    using user_count [OF sample_rooms(1), of 0] unfolding member_count_def by simp
  then have "member_count 0 sample_world = 2" by simp
  moreover have "count_key 0 sample_world = lit ''room/user/ONE''"
    by (simp add: count_key_def sample_world_def the_room_def ROOM_USER_KEY_def flip: lit_append)
  moreover have "db_map ref_table (global_db sample_master) (lit ''room/user/ONE'') = Some (dec_int 2)"
    "db_wf ref_table (global_db sample_master)"
    by (auto simp: sample_master_def db_wf_def db_map_def table_map_def ref_table_def split: if_splits)
  ultimately show ?thesis
    by (simp add: served_master_def stored_count_def) (simp add: sample_master_def)
qed

lemma count_follows_membership_witness:
  "\<exists>w'. broadcast_room_leave sample_env 1 sample_world = Inr (0, w') \<and> members w' = (members sample_world)(1 := None) \<and>
     counts_reach sample_env ref_table 0 sample_world sample_master w'"
  using count_follows_membership [OF sample_rooms(1) sample_ready(1) sample_rooms(2) _ _ sample_served, of 1 zero_txt]
  by (simp add: sample_env_def) (simp add: sample_world_def sample_conn_def members_def)

end
