(* ===== verification/RoomMaster.thy ===== *)
theory RoomMaster
  imports ChatCommands ChatCount ForkPipeline
begin

text \<open>
  The master's part in the rooms, \<open>apps/chat/src/room_master.c\<close>: the list of rooms that answers the
  command \<open>rooms\<close>, the default rooms and their distribution over the worker processes while these are forked.
  \<open>internal_child_count\<close>, a static variable that \<open>fork()\<close> copies, is an argument and a result. The loop over the
  words of the room list has fuel, one more than the length of the text, which the lemmas show to be enough.
\<close>

section \<open>The list of rooms\<close>

definition ROOM_KEY :: bytes where "ROOM_KEY = lit ''rooms''"

definition chat_room_get_user_count ::
    "aroop \<Rightarrow> ('h, aroop_txt_t) table_api \<Rightarrow> aroop_txt_t \<Rightarrow> 'h db_master \<Rightarrow> int exec" where
  "chat_room_get_user_count A T my_room m =
     (if t_len my_room = 0 then Inr (-1)
      else
        let k = aroop_txt_concat A (aroop_txt_concat_string A (aroop_txt_stackbuffer A 128) ROOM_USER_KEY) my_room
        in ebind (noasync_db_get A T k zero_txt m) (\<lambda>(_, countstr).
           let cpystr = aroop_txt_zero_terminate A (aroop_txt_concat A (aroop_txt_stackbuffer A 32) countstr)
           in Inr (aroop_txt_to_int A cpystr)))"

definition chat_room_describe_helper ::
    "aroop \<Rightarrow> ('h, aroop_txt_t) table_api \<Rightarrow> aroop_txt_t \<Rightarrow> aroop_txt_t \<Rightarrow> 'h db_master \<Rightarrow> aroop_txt_t exec" where
  "chat_room_describe_helper A T my_room room_info m =
     ebind (chat_room_get_user_count A T my_room m) (\<lambda>n.
     let count = (if n < 0 then 0 else n);
         i1 = aroop_txt_concat_char A (aroop_txt_concat_char A (aroop_txt_concat_char A room_info 9) 42) 32;
         i2 = aroop_txt_concat A i1 my_room;
         i3 = (if count \<noteq> 0
               then aroop_txt_concat A i2
                      (aroop_txt_concat_string A (aroop_txt_stackbuffer A 32) (lit '' ('' @ dec_int count @ lit '')''))
               else i2)
     in Inr (aroop_txt_concat_char A i3 10))"

fun chat_room_describe_loop ::
    "aroop \<Rightarrow> ('h, aroop_txt_t) table_api \<Rightarrow> nat \<Rightarrow> aroop_txt_t \<Rightarrow> aroop_txt_t \<Rightarrow> 'h db_master \<Rightarrow> aroop_txt_t exec" where
  "chat_room_describe_loop A T 0 roomstr room_info m = Inl Diverges"
| "chat_room_describe_loop A T (Suc fuel) roomstr room_info m =
     (case scanner_next_token A roomstr zero_txt of (roomstr', token) \<Rightarrow>
        if t_len token = 0 then Inr room_info
        else ebind (chat_room_describe_helper A T token room_info m) (\<lambda>info.
             chat_room_describe_loop A T fuel roomstr' info m))"

definition chat_room_describe ::
    "aroop \<Rightarrow> ('h, aroop_txt_t) table_api \<Rightarrow> aroop_txt_t \<Rightarrow> aroop_txt_t \<Rightarrow> 'h db_master \<Rightarrow> aroop_txt_t exec" where
  "chat_room_describe A T roomstr room_info m =
     ebind (chat_room_describe_loop A T (Suc (t_len roomstr)) roomstr
              (aroop_txt_concat_string A room_info (lit ''Active rooms are:'' @ [10])) m) (\<lambda>info.
     Inr (aroop_txt_concat_string A info (lit ''end of list.'' @ [10])))"

definition on_async_room_call_master ::
    "aroop \<Rightarrow> ('h, aroop_txt_t) table_api \<Rightarrow> (int \<Rightarrow> bool) \<Rightarrow> 32 word \<Rightarrow> aroop_txt_t \<Rightarrow> 'h db_master \<Rightarrow> (int \<times> 'h db_master) exec" where
  "on_async_room_call_master A T fails getpid bin m =
     ebind (aroop_assert A (t_len bin \<noteq> 0)) (\<lambda>_.
     ebind (binary_unpack_int A bin 0 0) (\<lambda>(_, srcpid).
     ebind (binary_unpack_int A bin 2 0) (\<lambda>(_, cb_token).
     ebind (binary_unpack_string A bin 3 zero_txt) (\<lambda>(_, cb_hook).
     ebind (noasync_db_get A T (aroop_txt_static_string A ROOM_KEY) zero_txt m) (\<lambda>(_, info).
     ebind (if t_len info \<noteq> 0
            then chat_room_describe A T info (aroop_txt_stackbuffer A (t_len info * 32 + 64)) m
            else Inr zero_txt) (\<lambda>room_info.
     ebind (async_pm_reply_worker A fails getpid srcpid cb_token cb_hook 1 [room_info] (db_pp m)) (\<lambda>(_, s).
     Inr (0, m\<lparr>db_pp := s\<rparr>))))))))"

section \<open>The default rooms\<close>

definition default_rooms :: "bytes list" where
  "default_rooms = map lit [''ONE'', ''TWO'', ''THREE'', ''FOUR'', ''FIVE'', ''SIX'', ''SEVEN'', ''EIGHT'', ''NINE'', ''TEN'']"

definition default_room_setup ::
    "aroop \<Rightarrow> (int \<Rightarrow> bool) \<Rightarrow> 32 word \<Rightarrow> 32 word \<Rightarrow> pp_state \<Rightarrow> (int \<times> pp_state) exec" where
  "default_room_setup A fails getpid masterpid s =
     (if \<not> is_master s then Inr (0, s)
      else
        let all = foldl (\<lambda>r nm. aroop_txt_concat_char A (aroop_txt_concat_string A r nm) 32)
                    (aroop_txt_stackbuffer A (length default_rooms * 32)) default_rooms;
            roomstr = aroop_txt_zero_terminate A (aroop_txt_shift A all (-1))
        in ebind (async_db_compare_and_swap A fails getpid masterpid (-1) None
                    (aroop_txt_static_string A ROOM_KEY) (Some roomstr) None s) (\<lambda>(_, s'). Inr (0, s')))"

definition chat_room_add_helper :: "'w chat_env \<Rightarrow> nat \<Rightarrow> 'w chat_world \<Rightarrow> (int \<times> 'w chat_world) exec" where
  "chat_room_add_helper E index w =
     (if length default_rooms \<le> index then Inl OutOfBounds
      else
        let A = lib E;
            nm = aroop_txt_concat_string A (aroop_txt_stackbuffer A 128) (default_rooms ! index);
            db_room_key = room_key A ROOM_PID_KEY nm
        in ebind (on_pipe (async_db_set_if_null A (send_fails E) (my_pid E) (master_pid E) (-1) None db_room_key (my_pid E)) w)
             (\<lambda>w1. Inr (0, snd (broadcast_add_room E nm w1))))"

definition default_room_fork_parent_after_callback :: "aroop \<Rightarrow> int \<Rightarrow> nat \<Rightarrow> (int \<times> nat) exec" where
  "default_room_fork_parent_after_callback A signature internal_child_count =
     ebind (aroop_assert A (NGINZ_PIPELINE_SIGNATURE = signature)) (\<lambda>_. Inr (0, internal_child_count + 2))"

definition default_room_fork_child_after_callback ::
    "'w chat_env \<Rightarrow> int \<Rightarrow> nat \<Rightarrow> 'w chat_world \<Rightarrow> (int \<times> nat \<times> 'w chat_world) exec" where
  "default_room_fork_child_after_callback E signature internal_child_count w =
     ebind (aroop_assert (lib E) (NGINZ_PIPELINE_SIGNATURE = signature)) (\<lambda>_.
     ebind (chat_room_add_helper E internal_child_count w) (\<lambda>(_, w1).
     ebind (chat_room_add_helper E (internal_child_count + 1) w1) (\<lambda>(_, w2).
     Inr (0, internal_child_count + 1, w2))))"

text \<open>The callbacks as \<open>fork_processors\<close> calls them, for one worker after the other: each child starts with the
  count of its parent at that time.\<close>

fun fork_rooms :: "aroop \<Rightarrow> nat \<Rightarrow> ('w chat_env \<times> 'w chat_world) list \<Rightarrow> (nat \<times> 'w chat_world list) exec" where
  "fork_rooms A n [] = Inr (n, [])"
| "fork_rooms A n ((E, w) # ps) =
     ebind (default_room_fork_child_after_callback E NGINZ_PIPELINE_SIGNATURE n w) (\<lambda>(_, _, w').
     ebind (default_room_fork_parent_after_callback A NGINZ_PIPELINE_SIGNATURE n) (\<lambda>(_, n').
     ebind (fork_rooms A n' ps) (\<lambda>(last_n, ws). Inr (last_n, w' # ws))))"

section \<open>Claiming rooms\<close>

lemma default_rooms_props:
  "length default_rooms = 10" "distinct default_rooms" "i < 10 \<Longrightarrow> length (default_rooms ! i) \<le> 5 \<and> default_rooms ! i \<noteq> []"
proof -
  show l: "length default_rooms = 10" by (simp add: default_rooms_def)
  have "\<forall>x \<in> set default_rooms. length x \<le> 5 \<and> x \<noteq> []" by (simp add: default_rooms_def lit_def)
  then show "i < 10 \<Longrightarrow> length (default_rooms ! i) \<le> 5 \<and> default_rooms ! i \<noteq> []"
    using nth_mem [of i default_rooms] l by simp
qed (simp add: default_rooms_def lit_def)

lemma default_rooms_eq: "i < 10 \<Longrightarrow> j < 10 \<Longrightarrow> default_rooms ! i = default_rooms ! j \<longleftrightarrow> i = j"
  using default_rooms_props(1,2) by (simp add: nth_eq_iff_index_eq)

definition room_txt :: "aroop \<Rightarrow> nat \<Rightarrow> aroop_txt_t" where
  "room_txt A i = aroop_txt_concat_string A (aroop_txt_stackbuffer A 128) (default_rooms ! i)"

lemma room_txt_props:
  assumes "aroop_ok A" and "i < 10"
  shows "wf_txt (room_txt A i)" "str (room_txt A i) = default_rooms ! i" "t_len (room_txt A i) \<le> 5"
proof -
  have "built 128 (room_txt A i) ([] @ default_rooms ! i)"
    unfolding room_txt_def by (rule built_string [OF assms(1) built_stackbuffer [OF assms(1)]])
      (use default_rooms_props(3) [OF assms(2)] in simp)
  then show "wf_txt (room_txt A i)" "str (room_txt A i) = default_rooms ! i" "t_len (room_txt A i) \<le> 5"
    using built_len [of 128 "room_txt A i"] default_rooms_props(3) [OF assms(2)] by (simp_all add: built_def)
qed

definition claim_key :: "nat \<Rightarrow> bytes" where
  "claim_key i = ROOM_PID_KEY @ default_rooms ! i"

text \<open>The packet with which process \<open>pid\<close> claims room \<open>i\<close>.\<close>

definition claim :: "aroop \<Rightarrow> 32 word \<Rightarrow> nat \<Rightarrow> bytes" where
  "claim A pid i = request_packet A (db_wires A pid (-1) (null_hook A) (room_key A ROOM_PID_KEY (room_txt A i)) (Some (int_txt A pid)) None)"

lemma claim_request:
  assumes "aroop_ok A" and "i < 10"
  shows "db_request_ok (null_hook A) (room_key A ROOM_PID_KEY (room_txt A i)) (Some (int_txt A pid)) None"
    and "str (room_key A ROOM_PID_KEY (room_txt A i)) = claim_key i"
proof -
  note R = room_txt_props [OF assms]
  have "length ROOM_PID_KEY = 9" by (simp add: ROOM_PID_KEY_def)
  then have k: "wf_txt (room_key A ROOM_PID_KEY (room_txt A i))" "str (room_key A ROOM_PID_KEY (room_txt A i)) = claim_key i"
    "length (claim_key i) \<le> 14" "claim_key i \<noteq> []"
    using room_key_props [OF assms(1) R(1), of ROOM_PID_KEY] R default_rooms_props(3) [OF assms(2)]
    by (simp_all add: claim_key_def)
  then show "str (room_key A ROOM_PID_KEY (room_txt A i)) = claim_key i" by simp
  show "db_request_ok (null_hook A) (room_key A ROOM_PID_KEY (room_txt A i)) (Some (int_txt A pid)) None"
    using k null_hook_txt [OF assms(1)] int_txt_props [OF assms(1), of pid] length_dec_sint [of pid]
    by (simp add: db_request_ok_def)
qed

lemma add_helper_result:
  assumes "ready E w" and "\<forall>f. \<not> send_fails E f" and "i < 10"
    and "\<forall>rm \<in> set (room_factory w). wf_txt (room_name rm) \<and> str (room_name rm) \<noteq> default_rooms ! i"
  shows "\<exists>w' nm f. chat_room_add_helper E i w = Inr (0, w') \<and> ready E w' \<and> wf_txt nm \<and> str nm = default_rooms ! i \<and>
    room_factory w' = room_factory w @ [\<lparr>room_name = nm, user_list = []\<rparr>] \<and> nodes (pipe w') = nodes (pipe w) \<and>
    f = fd0 (nodes (pipe w) (the (node_index (master_pid E) (pipe w)))) \<and> grows (pipe w) (pipe w') \<and>
    effects (pipe w') = effects (pipe w) @ [SendMsg f (claim (lib E) (my_pid E) i)]"
proof -
  let ?A = "lib E"
  have A: "aroop_ok ?A" "master_pid E \<noteq> 0" using assms(1) by (simp_all add: ready_def)
  obtain k where k: "node_index (master_pid E) (pipe w) = Some k" using assms(1) by (auto simp: ready_def)
  note R = room_txt_props [OF A(1) assms(3)]
  let ?s = "(pipe w)\<lparr>effects := effects (pipe w) @ [SendMsg (fd0 (nodes (pipe w) k)) (claim ?A (my_pid E) i)]\<rparr>"
  have "async_db_set_if_null ?A (send_fails E) (my_pid E) (master_pid E) (-1) None (room_key ?A ROOM_PID_KEY (room_txt ?A i)) (my_pid E) (pipe w)
      = Inr (0, ?s)"
    using client_sends [where fails = "send_fails E", OF A(1) claim_request(1) [OF A(1) assms(3)] k A(2), of "my_pid E" "-1" "my_pid E"] assms(2)
    by (simp add: async_db_set_if_null_def hook_or_null_def claim_def)
  then have c: "chat_room_add_helper E i w = Inr (0, snd (broadcast_add_room E (room_txt ?A i) (w\<lparr>pipe := ?s\<rparr>)))"
    using assms(3) by (simp add: chat_room_add_helper_def on_pipe_def Let_def default_rooms_props(1) flip: room_txt_def)
  have "\<not> list_ex (\<lambda>rm. aroop_txt_equals ?A (room_txt ?A i) (room_name rm)) (room_factory w)"
    using assms(4) equals_law [OF A(1) R(1)] R(2) by (auto simp: list_ex_iff)
  then have b: "snd (broadcast_add_room E (room_txt ?A i) (w\<lparr>pipe := ?s\<rparr>)) =
      w\<lparr>pipe := ?s, room_factory := room_factory w @ [\<lparr>room_name = aroop_txt_copy_deep ?A (room_txt ?A i), user_list = []\<rparr>]\<rparr>"
    by (simp add: broadcast_add_room_def)
  show ?thesis
    unfolding c b using assms(1) k copy_deep_laws [OF A(1) R(1)] R(2)
    by (intro exI [of _ "w\<lparr>pipe := ?s, room_factory := room_factory w @ [\<lparr>room_name = aroop_txt_copy_deep ?A (room_txt ?A i), user_list = []\<rparr>]\<rparr>"]
        exI [of _ "aroop_txt_copy_deep ?A (room_txt ?A i)"] exI [of _ "fd0 (nodes (pipe w) k)"])
      (auto simp: ready_def node_index_def grows_def)
qed

lemma child_adds_two:
  assumes "ready E w" and "\<forall>f. \<not> send_fails E f" and "room_factory w = []" and "Suc n < 10"
  shows "\<exists>w' f. default_room_fork_child_after_callback E NGINZ_PIPELINE_SIGNATURE n w = Inr (0, n + 1, w') \<and>
    map (\<lambda>rm. str (room_name rm)) (room_factory w') = [default_rooms ! n, default_rooms ! Suc n] \<and>
    grows (pipe w) (pipe w') \<and>
    effects (pipe w') = effects (pipe w) @ map (SendMsg f) [claim (lib E) (my_pid E) n, claim (lib E) (my_pid E) (Suc n)]"
proof -
  obtain w1 nm1 f where 1: "chat_room_add_helper E n w = Inr (0, w1)" "ready E w1" "wf_txt nm1" "str nm1 = default_rooms ! n"
    "room_factory w1 = [\<lparr>room_name = nm1, user_list = []\<rparr>]" "nodes (pipe w1) = nodes (pipe w)"
    "f = fd0 (nodes (pipe w) (the (node_index (master_pid E) (pipe w))))" "grows (pipe w) (pipe w1)"
    "effects (pipe w1) = effects (pipe w) @ [SendMsg f (claim (lib E) (my_pid E) n)]"
    using add_helper_result [OF assms(1,2), of n] assms(3,4) by auto
  have d: "default_rooms ! n \<noteq> default_rooms ! Suc n" using default_rooms_eq [of n "Suc n"] assms(4) by simp
  obtain w2 nm2 f2 where 2: "chat_room_add_helper E (Suc n) w1 = Inr (0, w2)" "str nm2 = default_rooms ! Suc n"
    "room_factory w2 = room_factory w1 @ [\<lparr>room_name = nm2, user_list = []\<rparr>]"
    "f2 = fd0 (nodes (pipe w1) (the (node_index (master_pid E) (pipe w1))))" "grows (pipe w1) (pipe w2)"
    "effects (pipe w2) = effects (pipe w1) @ [SendMsg f2 (claim (lib E) (my_pid E) (Suc n))]"
    using add_helper_result [OF 1(2) assms(2,4)] 1(3,4,5) d by auto
  have "f2 = f" using 1(6,7) 2(4) by (simp add: node_index_def)
  with 1 2 show ?thesis
    using grows_trans [OF 1(8) 2(5)]
    by (intro exI [of _ w2] exI [of _ f]) (simp add: default_room_fork_child_after_callback_def)
qed


definition forked :: "aroop \<Rightarrow> nat \<Rightarrow> 'w chat_env \<times> 'w chat_world \<Rightarrow> 'w chat_world \<Rightarrow> bool" where
  "forked A n p w' \<longleftrightarrow>
     map (\<lambda>rm. str (room_name rm)) (room_factory w') = [default_rooms ! n, default_rooms ! Suc n] \<and>
     (\<exists>f. effects (pipe w') = effects (pipe (snd p)) @ map (SendMsg f) [claim A (my_pid (fst p)) n, claim A (my_pid (fst p)) (Suc n)])"

lemma fork_rooms_result:
  assumes "\<forall>(E, w) \<in> set ps. lib E = A \<and> ready E w \<and> (\<forall>f. \<not> send_fails E f) \<and> room_factory w = []"
    and "n + 2 * length ps \<le> 10"
  shows "\<exists>ws. fork_rooms A n ps = Inr (n + 2 * length ps, ws) \<and> length ws = length ps \<and>
    (\<forall>k < length ps. forked A (n + 2 * k) (ps ! k) (ws ! k))"
  using assms
proof (induction ps arbitrary: n)
  case (Cons p ps)
  obtain E w where p: "p = (E, w)" by fastforce
  have e: "lib E = A" "ready E w" "\<forall>f. \<not> send_fails E f" "room_factory w = []" using Cons.prems(1) p by auto
  obtain w' f where c: "default_room_fork_child_after_callback E NGINZ_PIPELINE_SIGNATURE n w = Inr (0, n + 1, w')"
    "map (\<lambda>rm. str (room_name rm)) (room_factory w') = [default_rooms ! n, default_rooms ! Suc n]"
    "effects (pipe w') = effects (pipe w) @ map (SendMsg f) [claim A (my_pid E) n, claim A (my_pid E) (Suc n)]"
    using child_adds_two [OF e(2-4), of n] Cons.prems(2) e(1) by auto
  obtain ws where ws: "fork_rooms A (n + 2) ps = Inr (n + 2 + 2 * length ps, ws)" "length ws = length ps"
    "\<forall>k < length ps. forked A (n + 2 + 2 * k) (ps ! k) (ws ! k)"
    using Cons.IH [of "n + 2"] Cons.prems by auto
  have h: "forked A n p w'" unfolding forked_def p fst_conv snd_conv using c(2,3) by blast
  have "forked A (n + 2 * k) ((p # ps) ! k) ((w' # ws) ! k)" if "k < length (p # ps)" for k
    using that ws(3) h by (cases k) simp_all
  then show ?case
    using c(1) ws(1,2) by (intro exI [of _ "w' # ws"]) (simp add: p default_room_fork_parent_after_callback_def)
qed simp

section \<open>Serving the claims\<close>

lemma serve_claims:
  assumes "aroop_ok A" and "table_ok T"
    and "db_wf T (global_db m)" "reader_ok (db_pp m)" "is_master (db_pp m)"
    and "\<forall>(p, i) \<in> set cs. i < 10 \<and> db_map T (global_db m) (claim_key i) = None" and "distinct (map snd cs)"
  shows "\<exists>m'. db_serve_all A T fails mpid db_plugs (map (\<lambda>(p, i). claim A p i) cs) m = Inr m' \<and>
    db_map T (global_db m') = db_map T (global_db m) ++ map_of (map (\<lambda>(p, i). (claim_key i, dec_int (sint p))) cs)"
  using assms(3-)
proof (induction cs arbitrary: m)
  case (Cons c cs)
  obtain p i where c: "c = (p, i)" by fastforce
  have i: "i < 10" "db_map T (global_db m) (claim_key i) = None" using Cons.prems(4) c by auto
  note C = claim_request [OF assms(1) i(1)]
  have nh: "str (null_hook A) = [] \<or> str (null_hook A) = lit ''null''" using null_hook_txt [OF assms(1)] by simp
  obtain m1 where m1: "db_serve A T fails mpid db_plugs (claim A p i) m = Inr m1"
    "db_map T (global_db m1) = (db_map T (global_db m))(claim_key i \<mapsto> dec_int (sint p))"
    "db_wf T (global_db m1)" "reader_ok (db_pp m1)" "is_master (db_pp m1)"
    using serve_silent [where fails = fails and mpid = mpid, OF assms(1,2) Cons.prems(1-3) C(1) [of p] nh, of p "-1"]
      i(2) int_txt_props(2) [OF assms(1), of p] C(2)
    by (auto simp: claim_def map_cas_def)
  have fresh: "claim_key j \<noteq> claim_key i \<and> j < 10" if "(q, j) \<in> set cs" for q j
  proof -
    have "j \<in> set (map snd cs)" using that by (force simp: image_iff)
    then have "j \<noteq> i" using Cons.prems(5) c by auto
    moreover have "j < 10" using Cons.prems(4) that by auto
    ultimately show ?thesis using default_rooms_eq i(1) by (simp add: claim_key_def)
  qed
  have "\<forall>(q, j) \<in> set cs. j < 10 \<and> db_map T (global_db m1) (claim_key j) = None"
    using Cons.prems(4) m1(2) fresh by auto
  then obtain m' where m': "db_serve_all A T fails mpid db_plugs (map (\<lambda>(p, i). claim A p i) cs) m1 = Inr m'"
    "db_map T (global_db m') = db_map T (global_db m1) ++ map_of (map (\<lambda>(p, i). (claim_key i, dec_int (sint p))) cs)"
    using Cons.IH [OF m1(3-5)] Cons.prems(5) by auto
  have n: "map_of (map (\<lambda>(p, i). (claim_key i, dec_int (sint p))) cs) (claim_key i) = None"
    using fresh by (force simp: map_of_eq_None_iff)
  have eq: "db_map T (global_db m1) ++ map_of (map (\<lambda>(p, i). (claim_key i, dec_int (sint p))) cs) =
      db_map T (global_db m) ++ map_of (map (\<lambda>(p, i). (claim_key i, dec_int (sint p))) (c # cs))"
    unfolding m1(2) using n by (auto simp: c map_add_def fun_eq_iff split: option.splits)
  have "db_serve_all A T fails mpid db_plugs (map (\<lambda>(p, i). claim A p i) (c # cs)) m = Inr m'"
    using m1(1) m'(1) by (simp add: c)
  with trans [OF m'(2) eq] show ?case by blast
qed simp

lemma mset_map_ordered:
  "mset ys = mset (map f xs) \<Longrightarrow> \<exists>zs. mset zs = mset xs \<and> ys = map f zs"
proof (induction ys arbitrary: xs)
  case (Cons y ys)
  then have "y \<in> set (map f xs)" by (metis list.set_intros(1) mset_eq_setD)
  then obtain x where x: "x \<in> set xs" "y = f x" by auto
  then have "mset xs = add_mset x (mset (remove1 x xs))" by simp
  then have "image_mset f (mset xs) = add_mset y (image_mset f (mset (remove1 x xs)))"
    unfolding x(2) by (metis image_mset_add_mset)
  then have "mset ys = mset (map f (remove1 x xs))" using Cons.prems by simp
  from Cons.IH [OF this] obtain zs where "mset zs = mset (remove1 x xs)" "ys = map f zs" by blast
  then show ?case using x by (intro exI [of _ "x # zs"]) simp
qed simp

section \<open>Describing the rooms\<close>

text \<open>\<open>atoi\<close> reads the empty text as zero.\<close>

definition to_int_empty :: "aroop \<Rightarrow> bool" where
  "to_int_empty A \<longleftrightarrow> (\<forall>t. wf_txt t \<longrightarrow> str t = [] \<longrightarrow> aroop_txt_to_int A t = 0)"

lemma ref_to_int_empty [simp]: "to_int_empty ref_aroop"
  by (simp add: to_int_empty_def ref_aroop_def ref_digits.simps)

definition room_line :: "bytes \<Rightarrow> 32 word \<Rightarrow> bytes" where
  "room_line w n = [9, 42, 32] @ w @ (if 0 < sint n then lit '' ('' @ dec_int (sint n) @ lit '')'' else []) @ [10]"

definition joined :: "bytes list \<Rightarrow> bytes" where
  "joined ws = concat (map (\<lambda>w. w @ [32]) ws)"

lemma length_room_line: "length (room_line w n) \<le> 18 + length w"
  using length_dec_sint [of n] by (simp add: room_line_def)

definition counted :: "('h, aroop_txt_t) table_api \<Rightarrow> 'h db_master \<Rightarrow> (bytes \<Rightarrow> 32 word) \<Rightarrow> bytes \<Rightarrow> bool" where
  "counted T m n w \<longleftrightarrow> db_map T (global_db m) (ROOM_USER_KEY @ w) = stored_count (n w)"

definition master_reads :: "('h, aroop_txt_t) table_api \<Rightarrow> 'h db_master \<Rightarrow> bool" where
  "master_reads T m \<longleftrightarrow> table_ok T \<and> db_wf T (global_db m) \<and> is_master (db_pp m)"

lemma user_count_read:
  assumes A: "aroop_ok A" and "to_int_empty A" and m: "master_reads T m" and "wf_txt x" and "str x \<noteq> []" and "t_len x \<le> 100"
    and "counted T m n (str x)"
  shows "chat_room_get_user_count A T x m = Inr (sint (n (str x)))"
proof -
  let ?k = "aroop_txt_concat A (aroop_txt_concat_string A (aroop_txt_stackbuffer A 128) ROOM_USER_KEY) x"
  have l: "t_len x \<noteq> 0" "length (str x) = t_len x" using assms(5) length_str [OF assms(4)] by (metis length_0_conv, simp)
  have "built 128 ?k (([] @ ROOM_USER_KEY) @ str x)"
    by (rule built_concat [OF A built_string [OF A built_stackbuffer [OF A]]]) (use assms(4,6) in \<open>simp_all add: ROOM_USER_KEY_def\<close>)
  then have k: "str ?k = ROOM_USER_KEY @ str x" by (simp add: built_def)
  have T: "table_ok T" "is_master (db_pp m)" using m by (simp_all add: master_reads_def)
  define v where "v = (case opp_hash_table_get T (global_db m) ?k of None \<Rightarrow> zero_txt | Some old \<Rightarrow> aroop_txt_copy_shallow A old)"
  have v: "wf_txt v \<and> str v = (if n (str x) = 0 then [] else dec_int (sint (n (str x))))"
  proof (cases "opp_hash_table_get T (global_db m) ?k")
    case None
    then have "stored_count (n (str x)) = None"
      using db_map_get [OF T(1), of "global_db m" ?k] assms(7) k by (simp add: counted_def)
    then show ?thesis using None by (simp add: v_def stored_count_def split: if_splits)
  next
    case (Some old)
    then have "stored_count (n (str x)) = Some (str old)"
      using db_map_get [OF T(1), of "global_db m" ?k] assms(7) k by (simp add: counted_def)
    moreover have "wf_txt old" using Some m by (auto simp: master_reads_def db_wf_def table_get_map)
    ultimately show ?thesis using Some by (simp add: v_def stored_count_def copy_shallow_law [OF A] split: if_splits)
  qed
  let ?c = "aroop_txt_zero_terminate A (aroop_txt_concat A (aroop_txt_stackbuffer A 32) v)"
  have "t_len v \<le> 11" using v length_str [of v] length_dec_sint [of "n (str x)"] by (auto split: if_splits)
  then have "built 32 (aroop_txt_concat A (aroop_txt_stackbuffer A 32) v) ([] @ str v)"
    by (intro built_concat [OF A built_stackbuffer [OF A]]) (use v in simp_all)
  then have c: "wf_txt ?c" "str ?c = str v" using built_terminated [OF A] by simp_all
  have "aroop_txt_to_int A ?c = sint (n (str x))"
  proof (cases "n (str x) = 0")
    case True
    then show ?thesis using assms(2) c v by (simp add: to_int_empty_def)
  next
    case False
    then show ?thesis using to_int_law [OF A c(1)] c(2) v by simp
  qed
  then show ?thesis
    using l(1) T(2) by (simp add: chat_room_get_user_count_def noasync_db_get_def Let_def flip: v_def)
qed

lemma helper_line:
  assumes A: "aroop_ok A" and "to_int_empty A" and m: "master_reads T m" and "wf_txt x" and "str x \<noteq> []" and "t_len x \<le> 100"
    and "counted T m n (str x)" and "built N info bs" and "length bs + length (room_line (str x) (n (str x))) \<le> N"
  shows "\<exists>t. chat_room_describe_helper A T x info m = Inr t \<and> built N t (bs @ room_line (str x) (n (str x)))"
proof -
  let ?n = "n (str x)"
  let ?par = "aroop_txt_concat_string A (aroop_txt_stackbuffer A 32) (lit '' ('' @ dec_int (sint ?n) @ lit '')'')"
  have l: "length (str x) = t_len x" by (rule length_str [OF assms(4)])
  have len: "length bs + 4 + t_len x + (if 0 < sint ?n then 3 + length (dec_int (sint ?n)) else 0) \<le> N"
    using assms(9) l by (simp add: room_line_def split: if_splits)
  note C = built_char [OF A]
  have "built N (aroop_txt_concat_char A (aroop_txt_concat_char A (aroop_txt_concat_char A info 9) 42) 32) (((bs @ [9]) @ [42]) @ [32])"
    by (intro C assms(8)) (use len in simp_all)
  from built_concat [OF A this assms(4)]
  have 2: "built N (aroop_txt_concat A (aroop_txt_concat_char A (aroop_txt_concat_char A (aroop_txt_concat_char A info 9) 42) 32) x)
      (bs @ [9, 42, 32] @ str x)" (is "built N ?i2 _") using len by simp
  have "built 32 ?par ([] @ lit '' ('' @ dec_int (sint ?n) @ lit '')'')"
    by (rule built_string [OF A built_stackbuffer [OF A]]) (use length_dec_sint [of ?n] in simp)
  then have par: "wf_txt ?par" "str ?par = lit '' ('' @ dec_int (sint ?n) @ lit '')''" "t_len ?par = 3 + length (dec_int (sint ?n))"
    using built_len [of 32 ?par] by (simp_all add: built_def)
  have c: "chat_room_get_user_count A T x m = Inr (sint ?n)" by (rule user_count_read [OF assms(1-7)])
  show ?thesis
  proof (cases "0 < sint ?n")
    case True
    have "built N (aroop_txt_concat_char A (aroop_txt_concat A ?i2 ?par) 10) (((bs @ [9, 42, 32] @ str x) @ str ?par) @ [10])"
      by (intro C built_concat [OF A 2 par(1)]) (use True len l par in simp_all)
    then show ?thesis using True c par(2) by (simp add: chat_room_describe_helper_def room_line_def Let_def)
  next
    case False
    have "built N (aroop_txt_concat_char A ?i2 10) ((bs @ [9, 42, 32] @ str x) @ [10])"
      by (intro C 2) (use False len l in simp)
    then show ?thesis using False c by (simp add: chat_room_describe_helper_def room_line_def Let_def)
  qed
qed

definition rest_of :: "bytes list \<Rightarrow> bytes \<Rightarrow> bool" where
  "rest_of ws bs \<longleftrightarrow> bs = joined ws \<or> bs = butlast (joined ws)"

lemma rest_of_Cons:
  assumes "rest_of (w # ws) bs" and "word_ok w"
  shows "first_token bs = w \<and> (\<exists>r. rest_of ws r \<and> (after_token bs = 32 # r \<or> after_token bs = r))"
proof -
  have w: "w \<noteq> []" "\<forall>b \<in> set w. \<not> is_separator b" "is_separator 32" using assms(2) by (simp_all add: word_ok_def is_separator_def)
  note F = first_token_word [OF w]
  consider "bs = w @ 32 # joined ws" | "bs = w" "ws = []" | "bs = w @ 32 # butlast (joined ws)" "ws \<noteq> []"
  proof (cases "ws = []")
    case True
    then show thesis using assms(1) that(1,2) by (auto simp: rest_of_def joined_def butlast_append)
  next
    case False
    then have "joined ws \<noteq> []" by (cases ws) (simp_all add: joined_def)
    then show thesis using assms(1) that(1,3) False by (auto simp: rest_of_def joined_def butlast_append)
  qed
  then show ?thesis
    by cases (use F(1,2,5,6) in \<open>auto simp: rest_of_def joined_def\<close>)
qed

lemma first_token_shift: "first_token (32 # bs) = first_token bs" "after_token (32 # bs) = after_token bs"
  by (simp_all add: first_token_def after_token_def is_separator_def)

lemma describe_loop_result:
  assumes A: "aroop_ok A" and "to_int_empty A" and m: "master_reads T m"
    and "\<forall>w \<in> set ws. word_ok w \<and> length w \<le> 100 \<and> counted T m n w"
  shows "\<lbrakk>wf_txt src; rest_of ws r; str src = r \<or> str src = 32 # r; length ws < fuel; built N info bs;
      length bs + length (concat (map (\<lambda>w. room_line w (n w)) ws)) \<le> N\<rbrakk> \<Longrightarrow>
    \<exists>t. chat_room_describe_loop A T fuel src info m = Inr t \<and> built N t (bs @ concat (map (\<lambda>w. room_line w (n w)) ws))"
  using assms(4)
proof (induction ws arbitrary: src r fuel info bs)
  case Nil
  obtain f where f: "fuel = Suc f" using Nil.prems(4) by (cases fuel) simp_all
  obtain src' tok where n: "scanner_next_token A src zero_txt = (src', tok)" by fastforce
  have "first_token (str src) = []"
    using Nil.prems(2,3) by (auto simp: rest_of_def joined_def first_token_def is_separator_def)
  then have "t_len tok = 0" using next_token_props(3,4) [OF A Nil.prems(1) _ n] length_str [of tok] by simp
  then show ?case using f n Nil.prems(5) by simp
next
  case (Cons w ws)
  obtain f where f: "fuel = Suc f" using Cons.prems(4) by (cases fuel) simp_all
  obtain src' tok where n: "scanner_next_token A src zero_txt = (src', tok)" by fastforce
  have w: "word_ok w" "length w \<le> 100" "counted T m n w" "w \<noteq> []" using Cons.prems(7) by (auto simp: word_ok_def)
  note P = next_token_props [OF A Cons.prems(1) _ n]
  obtain r' where r': "first_token r = w" "rest_of ws r'" "after_token r = 32 # r' \<or> after_token r = r'"
    using rest_of_Cons [OF Cons.prems(2) w(1)] by blast
  have tok: "wf_txt tok" "str tok = w" "t_len tok = length w" and src': "wf_txt src'" "str src' = r' \<or> str src' = 32 # r'"
    using P Cons.prems(3) r'(1,3) length_str [of tok] first_token_shift [of r] by auto
  have "\<exists>t. chat_room_describe_helper A T tok info m = Inr t \<and> built N t (bs @ room_line (str tok) (n (str tok)))"
    by (rule helper_line [OF A assms(2) m tok(1) _ _ _ Cons.prems(5)]) (use tok(2,3) w Cons.prems(6) in simp_all)
  then obtain t where t: "chat_room_describe_helper A T tok info m = Inr t" "built N t (bs @ room_line w (n w))"
    using tok(2) by blast
  have "\<exists>t'. chat_room_describe_loop A T f src' t m = Inr t' \<and>
      built N t' ((bs @ room_line w (n w)) @ concat (map (\<lambda>w. room_line w (n w)) ws))"
    by (rule Cons.IH [OF src'(1) r'(2) src'(2) _ t(2)]) (use Cons.prems(4,6,7) f in simp_all)
  then show ?case using f n t(1) tok(3) w(4) by simp
qed

lemma lines_fit: "length (concat (map (\<lambda>w. room_line w (n w)) ws)) \<le> 32 * length (joined ws)"
proof (induction ws)
  case (Cons w ws)
  then show ?case using length_room_line [of w "n w"] by (simp add: joined_def)
qed (simp add: joined_def)

lemma joined_length: "2 * length ws \<le> length (joined ws)" if "\<forall>w \<in> set ws. word_ok w"
  using that by (induction ws) (auto simp: joined_def word_ok_def neq_Nil_conv)

section \<open>Properties\<close>

text \<open>(C5) Every default room gets exactly one process. While five workers are forked, each adds two rooms to
  its own list, worker \<open>k\<close> the rooms \<open>2k\<close> and \<open>2k + 1\<close>, so that all ten are shared out; and whatever the order in
  which the master reads the packets of the workers, its database then names for each room the process that
  holds it.\<close>

theorem rooms_shared_out:
  assumes "length ps = NGINZ_NUMBER_OF_PROCESSORS"
    and "\<forall>(E, w) \<in> set ps. lib E = A \<and> ready E w \<and> (\<forall>f. \<not> send_fails E f) \<and> room_factory w = []"
    and "aroop_ok A" and "table_ok T" and "db_wf T (global_db m)" "reader_ok (db_pp m)" "is_master (db_pp m)"
    and "\<forall>i < 10. db_map T (global_db m) (ROOM_PID_KEY @ default_rooms ! i) = None"
  shows "\<exists>ws bss. fork_rooms A 0 ps = Inr (length default_rooms, ws) \<and> length ws = length ps \<and> length bss = length ps \<and>
    (\<forall>k < length ps.
       map (\<lambda>rm. str (room_name rm)) (room_factory (ws ! k)) = [default_rooms ! (2 * k), default_rooms ! (2 * k + 1)] \<and>
       (\<exists>f. effects (pipe (ws ! k)) = effects (pipe (snd (ps ! k))) @ map (SendMsg f) (bss ! k))) \<and>
    (\<forall>arrived. mset arrived = mset (concat bss) \<longrightarrow>
       (\<exists>m'. db_serve_all A T fails mpid db_plugs arrived m = Inr m' \<and>
          (\<forall>i < 10. db_map T (global_db m') (ROOM_PID_KEY @ default_rooms ! i) =
             Some (dec_int (sint (my_pid (fst (ps ! (i div 2)))))))))"
proof -
  let ?pid = "\<lambda>k. my_pid (fst (ps ! k))"
  let ?bss = "map (\<lambda>k. [claim A (?pid k) (2 * k), claim A (?pid k) (2 * k + 1)]) [0..<5]"
  let ?cs = "concat (map (\<lambda>k. [(?pid k, 2 * k), (?pid k, 2 * k + 1)]) [0..<5])"
  have l: "length ps = 5" using assms(1) by (simp add: NGINZ_NUMBER_OF_PROCESSORS_def)
  obtain ws where ws: "fork_rooms A 0 ps = Inr (10, ws)" "length ws = 5" "\<forall>k < 5. forked A (2 * k) (ps ! k) (ws ! k)"
    using fork_rooms_result [OF assms(2), of 0] l by auto
  have b: "concat ?bss = map (\<lambda>(p, i). claim A p i) ?cs" by (simp add: upt_conv_Cons)
  have upt5: "[0..<5] = [0, 1, 2, 3, 4 :: nat]" by (simp add: upt_conv_Cons)
  have cs: "distinct (map snd ?cs)" "\<forall>(p, i) \<in> set ?cs. i < 10" "\<forall>i < 10. (?pid (i div 2), i) \<in> set ?cs"
  proof -
    show "distinct (map snd ?cs)" "\<forall>(p, i) \<in> set ?cs. i < 10" unfolding upt5 by simp_all
    show "\<forall>i < 10. (?pid (i div 2), i) \<in> set ?cs"
    proof (intro allI impI)
      fix i :: nat
      assume "i < 10"
      then have "i div 2 \<in> set [0..<5]" "i = 2 * (i div 2) \<or> i = 2 * (i div 2) + 1" by (simp, presburger)
      then have "(\<lambda>k. [(?pid k, 2 * k), (?pid k, 2 * k + 1)]) (i div 2) \<in> set (map (\<lambda>k. [(?pid k, 2 * k), (?pid k, 2 * k + 1)]) [0..<5])"
        unfolding set_map by (intro imageI)
      then show "(?pid (i div 2), i) \<in> set ?cs"
        unfolding set_concat by (rule UN_I) (use \<open>i = 2 * (i div 2) \<or> _\<close> in auto)
    qed
  qed
  have served: "\<exists>m'. db_serve_all A T fails mpid db_plugs arrived m = Inr m' \<and>
      (\<forall>i < 10. db_map T (global_db m') (ROOM_PID_KEY @ default_rooms ! i) = Some (dec_int (sint (?pid (i div 2)))))"
    if arr: "mset arrived = mset (concat ?bss)" for arrived
  proof -
    obtain zs where zs: "mset zs = mset ?cs" "arrived = map (\<lambda>(p, i). claim A p i) zs"
      using mset_map_ordered [OF arr [unfolded b]] by blast
    have s: "set zs = set ?cs" using zs(1) by (rule mset_eq_setD)
    have "mset (map snd zs) = mset (map snd ?cs)" using zs(1) by simp
    then have d: "distinct (map snd zs)" using cs(1) mset_eq_imp_distinct_iff by blast
    have z: "\<forall>(p, i) \<in> set zs. i < 10 \<and> db_map T (global_db m) (claim_key i) = None"
      using cs(2) assms(8) unfolding s by (auto simp: claim_key_def)
    obtain m' where m': "db_serve_all A T fails mpid db_plugs arrived m = Inr m'"
      "db_map T (global_db m') = db_map T (global_db m) ++ map_of (map (\<lambda>(p, i). (claim_key i, dec_int (sint p))) zs)"
      using serve_claims [OF assms(3-7) z d] zs(2) by blast
    have "inj_on claim_key (snd ` set zs)"
      using z default_rooms_eq by (fastforce simp: inj_on_def claim_key_def)
    then have "distinct (map claim_key (map snd zs))"
      using d by (simp only: distinct_map [of claim_key "map snd zs"] set_map simp_thms)
    then have dk: "distinct (map fst (map (\<lambda>(p, i). (claim_key i, dec_int (sint p))) zs))"
      by (simp add: comp_def case_prod_beta)
    have "db_map T (global_db m') (ROOM_PID_KEY @ default_rooms ! i) = Some (dec_int (sint (?pid (i div 2))))" if "i < 10" for i
    proof -
      have "(?pid (i div 2), i) \<in> set zs" using cs(3) that s by blast
      then have "(claim_key i, dec_int (sint (?pid (i div 2)))) \<in> set (map (\<lambda>(p, i). (claim_key i, dec_int (sint p))) zs)" by force
      from map_of_is_SomeI [OF dk this] show ?thesis by (simp add: m'(2) claim_key_def)
    qed
    with m'(1) show ?thesis by blast
  qed
  have w: "map (\<lambda>rm. str (room_name rm)) (room_factory (ws ! k)) = [default_rooms ! (2 * k), default_rooms ! (2 * k + 1)] \<and>
       (\<exists>f. effects (pipe (ws ! k)) = effects (pipe (snd (ps ! k))) @ map (SendMsg f) (?bss ! k))" if "k < length ps" for k
    using ws(3) that l by (simp add: forked_def)
  show ?thesis
    by (intro exI [of _ ws] exI [of _ ?bss] conjI allI impI w served)
      (simp_all add: ws(1,2) l default_rooms_props(1))
qed

lemma rooms_shared_out_witness:
  "\<exists>ws bss. fork_rooms ref_aroop 0 (map (\<lambda>p. (sample_env\<lparr>my_pid := p\<rparr>, sample_world\<lparr>room_factory := []\<rparr>)) [101, 102, 103, 104, 105]) =
      Inr (length default_rooms, ws) \<and>
    (\<exists>m'. db_serve_all ref_aroop ref_table (\<lambda>_. False) 100 db_plugs (concat bss) ready_master = Inr m' \<and>
      db_map ref_table (global_db m') (ROOM_PID_KEY @ lit ''FOUR'') = Some (dec_int 102))"
proof -
  define ps where "ps = map (\<lambda>p. (sample_env\<lparr>my_pid := p\<rparr>, sample_world\<lparr>room_factory := []\<rparr>)) [101, 102, 103, 104, 105]"
  have r: "\<forall>(E, w) \<in> set ps. lib E = ref_aroop \<and> ready E w \<and> (\<forall>f. \<not> send_fails E f) \<and> room_factory w = []"
    using sample_ready(1) by (simp add: ps_def ready_def pools_ok_def sample_env_def)
  have l: "length ps = NGINZ_NUMBER_OF_PROCESSORS" by (simp add: ps_def NGINZ_NUMBER_OF_PROCESSORS_def)
  have k: "\<forall>i < 10. db_map ref_table (global_db ready_master) (ROOM_PID_KEY @ default_rooms ! i) = None"
    by (simp add: ROOM_PID_KEY_def lit_def)
  obtain ws bss where w: "fork_rooms ref_aroop 0 ps = Inr (length default_rooms, ws)"
    "\<forall>arrived. mset arrived = mset (concat bss) \<longrightarrow>
       (\<exists>m'. db_serve_all ref_aroop ref_table (\<lambda>_. False) 100 db_plugs arrived ready_master = Inr m' \<and>
       (\<forall>i < 10. db_map ref_table (global_db m') (ROOM_PID_KEY @ default_rooms ! i) = Some (dec_int (sint (my_pid (fst (ps ! (i div 2))))))))"
    using rooms_shared_out [where m = ready_master and fails = "\<lambda>_. False" and mpid = 100, OF l r ref_aroop_ok ref_table_ok _ _ _ k] by auto
  then obtain m' where m': "db_serve_all ref_aroop ref_table (\<lambda>_. False) 100 db_plugs (concat bss) ready_master = Inr m'"
    "\<forall>i < 10. db_map ref_table (global_db m') (ROOM_PID_KEY @ default_rooms ! i) = Some (dec_int (sint (my_pid (fst (ps ! (i div 2))))))"
    by blast
  have "default_rooms ! 3 = lit ''FOUR''" "my_pid (fst (ps ! 1)) = 102" by (simp_all add: default_rooms_def ps_def)
  then have "db_map ref_table (global_db m') (ROOM_PID_KEY @ lit ''FOUR'') = Some (dec_int 102)"
    using m'(2) [rule_format, of 3] by simp
  with w(1) m'(1) show ?thesis unfolding ps_def by blast
qed

text \<open>(C33) The answer to the command \<open>rooms\<close>: for a stored list of room names, each followed by a blank (the last
  one may have lost it), the master writes one line per room, with the number of users that its database
  holds, between the two fixed lines; the loop ends and the buffer that the code reserves is always large enough.\<close>

theorem rooms_described:
  assumes "aroop_ok A" and "to_int_empty A" and "master_reads T m" and "wf_txt roomstr"
    and "str roomstr = joined ws \<or> str roomstr = butlast (joined ws)"
    and "\<forall>w \<in> set ws. word_ok w \<and> length w \<le> 100 \<and> counted T m n w"
  shows "\<exists>t. chat_room_describe A T roomstr (aroop_txt_stackbuffer A (t_len roomstr * 32 + 64)) m = Inr t \<and>
    str t = lit ''Active rooms are:'' @ [10] @ concat (map (\<lambda>w. room_line w (n w)) ws) @ lit ''end of list.'' @ [10]"
proof -
  let ?N = "t_len roomstr * 32 + 64" and ?lines = "concat (map (\<lambda>w. room_line w (n w)) ws)"
  let ?head = "lit ''Active rooms are:'' @ [10]"
  have l: "length (str roomstr) = t_len roomstr" by (rule length_str [OF assms(4)])
  have t: "length (joined ws) \<le> Suc (t_len roomstr)" using assms(5) l by auto
  have "?N \<ge> 31 + length ?lines + 1"
    using lines_fit [of n ws] t by simp
  moreover have "length ws < Suc (t_len roomstr)"
  proof -
    have "2 * length ws \<le> length (joined ws)" by (rule joined_length) (use assms(6) in blast)
    with t show ?thesis by (cases ws) (simp_all add: joined_def)
  qed
  moreover have h: "built ?N (aroop_txt_concat_string A (aroop_txt_stackbuffer A ?N) ?head) ([] @ ?head)"
    by (rule built_string [OF assms(1) built_stackbuffer [OF assms(1)]]) simp
  ultimately have "\<exists>t. chat_room_describe_loop A T (Suc (t_len roomstr)) roomstr (aroop_txt_concat_string A (aroop_txt_stackbuffer A ?N) ?head) m = Inr t \<and>
      built ?N t (([] @ ?head) @ ?lines)"
    by (intro describe_loop_result [OF assms(1-3,6,4), where r = "str roomstr"]) (use assms(5) in \<open>simp_all add: rest_of_def\<close>)
  then obtain t where t: "chat_room_describe_loop A T (Suc (t_len roomstr)) roomstr (aroop_txt_concat_string A (aroop_txt_stackbuffer A ?N) ?head) m = Inr t"
    "built ?N t (([] @ ?head) @ ?lines)" by blast
  have "built ?N (aroop_txt_concat_string A t (lit ''end of list.'' @ [10])) ((([] @ ?head) @ ?lines) @ lit ''end of list.'' @ [10])"
    by (rule built_string [OF assms(1) t(2)]) (use \<open>?N \<ge> 31 + length ?lines + 1\<close> in simp)
  then show ?thesis using t(1) by (simp add: chat_room_describe_def built_def)
qed

lemma rooms_described_witness:
  "\<exists>t. chat_room_describe ref_aroop ref_table (txt_of (lit ''ONE TWO'')) (aroop_txt_stackbuffer ref_aroop (7 * 32 + 64)) sample_master = Inr t \<and>
    str t = lit ''Active rooms are:'' @ [10] @ [9, 42, 32] @ lit ''ONE (2)'' @ [10] @ [9, 42, 32] @ lit ''TWO'' @ [10] @ lit ''end of list.'' @ [10]"
proof -
  let ?n = "\<lambda>w. if w = lit ''ONE'' then 2 else (0 :: 32 word)"
  have d: "db_map ref_table (global_db sample_master) = [lit ''room/user/ONE'' \<mapsto> dec_int 2]"
    by (auto simp: sample_master_def db_map_def table_map_def ref_table_def)
  have m: "master_reads ref_table sample_master"
    using sample_served by (simp add: served_master_def master_reads_def)
  have c: "counted ref_table sample_master ?n (lit ''ONE'')" "counted ref_table sample_master ?n (lit ''TWO'')"
    unfolding counted_def d by (simp_all add: stored_count_def ROOM_USER_KEY_def lit_def)
  have w: "word_ok (lit ''ONE'')" "word_ok (lit ''TWO'')" by (simp_all add: word_ok_def lit_def is_separator_def)
  have "dec_int 2 = [50]" by (simp add: dec_int_def dec_nat.simps)
  then have lines: "concat (map (\<lambda>w. room_line w (?n w)) [lit ''ONE'', lit ''TWO'']) =
      [9, 42, 32] @ lit ''ONE (2)'' @ [10] @ [9, 42, 32] @ lit ''TWO'' @ [10]"
    by (simp add: room_line_def lit_def)
  show ?thesis
    using rooms_described [OF ref_aroop_ok ref_to_int_empty m, of "txt_of (lit ''ONE TWO'')" "[lit ''ONE'', lit ''TWO'']" ?n] c w
    unfolding lines by (simp add: joined_def butlast_append) (simp add: lit_def)
qed

end
