(* ===== verification/Http.thy ===== *)
theory Http
  imports StreamIO Scanner Plugin
begin

text \<open>
  The HTTP server, \<open>apps/http\<close>: connection objects (\<open>http_factory.c\<close>), replies (\<open>http_tunnel.c\<close>), the request
  parser (\<open>http_parser.c\<close>) and new connections (\<open>http_accept.c\<close>). A connection is the address of its object; its
  pages are plugins of the container \<open>P\<close>, run by \<open>B\<close>. The parser walks over C strings with \<open>strchr\<close>: \<open>c_string\<close> is
  what such a function sees of a text, the bytes before the first NUL. \<open>recv\<close> gives \<open>None\<close> for an error, and
  otherwise the bytes it wrote, none when the client has closed; the code passes the -1 of an error on as a length, and
  what the library makes of it is \<open>set_length_minus_1\<close>. \<open>OPPUNREF\<close> of a connection is left out.
\<close>

section \<open>State\<close>

definition HTTP_SIGNATURE :: int where "HTTP_SIGNATURE = 0x54332"

definition HTTP_CONNECTED :: "32 word" where "HTTP_CONNECTED = 0"
definition HTTP_QUIT :: "32 word" where "HTTP_QUIT = 8"
definition HTTP_SOFT_QUIT :: "32 word" where "HTTP_SOFT_QUIT = 16"

definition NGINZ_HTTP_PORT :: "32 word" where "NGINZ_HTTP_PORT = 80"
definition NGINZ_MAX_HTTP_MSG_SIZE :: nat where "NGINZ_MAX_HTTP_MSG_SIZE = 1024"
definition NGINZ_MAX_HTTP_HEADER_SIZE :: nat where "NGINZ_MAX_HTTP_HEADER_SIZE = 1024"

record http_connection =
  http_strm :: streamio
  http_state :: "32 word"
  is_processed :: bool
  http_content :: aroop_txt_t

record 'w http_world =
  https :: "nat \<Rightarrow> http_connection"
  http_factory :: "nat list"
  http_accept_module_is_quiting :: bool
  send_buf :: aroop_txt_t
  http_pipe :: pp_state
  http_outside :: 'w

record 'w http_env =
  http_lib :: aroop
  http_streams :: "'w stream_env"
  http_pool_alloc :: "nat list \<Rightarrow> nat"
  http_pool_add :: "nat \<Rightarrow> nat list \<Rightarrow> nat list"
  http_loop_register :: "int \<Rightarrow> nat \<Rightarrow> 'w \<Rightarrow> 'w"
  set_length_minus_1 :: "aroop_txt_t \<Rightarrow> aroop_txt_t"

definition upd_http :: "nat \<Rightarrow> (http_connection \<Rightarrow> http_connection) \<Rightarrow> 'w http_world \<Rightarrow> 'w http_world" where
  "upd_http c f w = w\<lparr>https := (https w)(c := f (https w c))\<rparr>"

definition is_valid_http :: "nat \<Rightarrow> 'w http_world \<Rightarrow> bool" where
  "is_valid_http c w \<longleftrightarrow> is_valid_stream (http_strm (https w c))"

section \<open>Replies\<close>

text \<open>\<open>default_streamio_send(&http->strm, ...)\<close>\<close>

definition http_send :: "'w http_env \<Rightarrow> nat \<Rightarrow> aroop_txt_t \<Rightarrow> int \<Rightarrow> 'w http_world \<Rightarrow> 'w http_world" where
  "http_send E c content flag w =
     (case default_streamio_send (http_streams E) (http_strm (https w c)) content flag (http_outside w) of
        (_, s, o') \<Rightarrow> upd_http c (http_strm_update (\<lambda>_. s)) (w\<lparr>http_outside := o'\<rparr>))"

definition HTTP_OK :: "aroop \<Rightarrow> aroop_txt_t" where
  "HTTP_OK A = aroop_txt_static_string A (lit ''HTTP/1.0 200 OK'' @ [13, 10] @ lit ''Content-Length: '')"

definition http_tunnel_send_content ::
    "'w http_env \<Rightarrow> nat \<Rightarrow> aroop_txt_t option \<Rightarrow> int \<Rightarrow> 'w http_world \<Rightarrow> int \<times> 'w http_world" where
  "http_tunnel_send_content E c content flags w =
     (let A = http_lib E;
          n = (case content of None \<Rightarrow> 0 | Some x \<Rightarrow> t_len x);
          buf = aroop_txt_concat_string A (aroop_txt_set_length A (send_buf w) 0) (dec_int (int n) @ [13, 10, 13, 10]);
          w1 = http_send E c (HTTP_OK A) MSG_MORE (w\<lparr>send_buf := buf\<rparr>);
          w2 = http_send E c buf MSG_MORE w1;
          w3 = (case content of
                  None \<Rightarrow> w2
                | Some x \<Rightarrow> if t_len x = 0 then w2 else http_send E c x 0 w2)
      in (0, upd_http c (is_processed_update (\<lambda>_. True)) w3))"

section \<open>Connection objects\<close>

definition default_http_close :: "'w http_env \<Rightarrow> nat \<Rightarrow> 'w http_world \<Rightarrow> int \<times> 'w http_world" where
  "default_http_close E c w =
     (case bubble_up (http_strm (https w c)) of
        Some u \<Rightarrow> (case up_close (http_streams E) u (http_outside w) of (r, o') \<Rightarrow> (r, w\<lparr>http_outside := o'\<rparr>))
      | None \<Rightarrow>
          if strm_fd (http_strm (https w c)) \<noteq> INVALID_FD then
            (let f = strm_fd (http_strm (https w c));
                 o1 = loop_unregister (http_streams E) f (http_outside w);
                 o2 = (if \<not> has (http_state (https w c)) HTTP_SOFT_QUIT then sys_close (http_streams E) f o1 else o1)
             in (0, upd_http c (http_strm_update (strm_fd_update (\<lambda>_. -1))) (w\<lparr>http_outside := o2\<rparr>)))
          else (0, w))"

fun http_close_loop :: "'w http_env \<Rightarrow> nat list \<Rightarrow> 'w http_world \<Rightarrow> 'w http_world" where
  "http_close_loop E [] w = w"
| "http_close_loop E (c # cs) w = http_close_loop E cs (snd (default_http_close E c w))"

definition http_factory_on_softquit :: "'w http_env \<Rightarrow> 'w http_world \<Rightarrow> int \<times> 'w http_world" where
  "http_factory_on_softquit E w = (0, http_close_loop E (http_factory w) w)"

definition http_factory_module_deinit :: "'w http_env \<Rightarrow> 'w http_world \<Rightarrow> int \<times> 'w http_world" where
  "http_factory_module_deinit E w = (0, http_close_loop E (http_factory w) w)"

definition http_initialize :: "http_connection \<Rightarrow> http_connection" where
  "http_initialize x =
     x\<lparr>http_state := HTTP_CONNECTED, http_content := zero_txt,
       http_strm := (streamio_initialize (http_strm x))\<lparr>send_method := Overridden 1, close_method := Overridden 0\<rparr>\<rparr>"

definition http_kind :: "'w http_env \<Rightarrow> 'w http_world stream_kind" where
  "http_kind E = \<lparr>kget = (\<lambda>c w. http_strm (https w c)), kput = (\<lambda>c x. upd_http c (http_strm_update (\<lambda>_. x))),
     kclose = (\<lambda>c w. snd (default_http_close E c w))\<rparr>"

definition http_finalize :: "'w http_env \<Rightarrow> nat \<Rightarrow> 'w http_world \<Rightarrow> 'w http_world" where
  "http_finalize E c w =
     (let A = http_lib E;
          w1 = upd_http c (\<lambda>x. x\<lparr>http_content := aroop_txt_destroy A (http_content x)\<rparr>) w
      in snd (streamio_finalize A (http_kind E) c w1))"

definition http_alloc :: "'w http_env \<Rightarrow> int \<Rightarrow> 'w http_world \<Rightarrow> nat \<times> 'w http_world" where
  "http_alloc E f w =
     (let c = http_pool_alloc E (http_factory w)
      in (c, upd_http c (\<lambda>x. http_strm_update (strm_fd_update (\<lambda>_. f)) (http_initialize x))
               (w\<lparr>http_factory := http_pool_add E c (http_factory w)\<rparr>)))"

section \<open>Requests\<close>

definition http_response_test_and_close :: "'w http_env \<Rightarrow> nat \<Rightarrow> 'w http_world \<Rightarrow> int \<times> 'w http_world" where
  "http_response_test_and_close E c w =
     (let test = aroop_txt_static_string (http_lib E) (lit ''HTTP/1.0 200 OK'' @ [13, 10] @ lit ''Content-Length: 9'' @
            [13, 10, 13, 10] @ lit ''It Works!'' @ [13, 10]);
          w1 = http_send E c test 0 (upd_http c (http_state_update (\<lambda>_. HTTP_QUIT)) w)
      in (-1, snd (default_http_close E c w1)))"

definition not_found :: "aroop \<Rightarrow> aroop_txt_t" where
  "not_found A = aroop_txt_static_string A
     (lit ''HTTP/1.0 404 NOT FOUND'' @ [13, 10] @ lit ''Content-Length: 9'' @ [13, 10, 13, 10] @ lit ''Not Found'')"

definition http_url_go ::
    "('h, nat) table_api \<Rightarrow> ('f, 'e, 'h) composite_plugin \<Rightarrow> ('f, nat, 'w http_world) bridge_runner \<Rightarrow> 'w http_env \<Rightarrow> nat \<Rightarrow>
     aroop_txt_t \<Rightarrow> 'w http_world \<Rightarrow> (int \<times> 'w http_world) exec" where
  "http_url_go T P B E c target w =
     (let A = http_lib E; len = t_len target
      in if t_len target = 0 \<or> len = 1 then Inr (http_response_test_and_close E c w)
         else
           let w1 = upd_http c (is_processed_update (\<lambda>_. False)) w;
               p0 = aroop_txt_concat_string A (aroop_txt_stackbuffer A (len + 32)) (lit ''http'');
               p1 = (if aroop_txt_char_at A target 0 \<noteq> 47 then aroop_txt_concat_char A p0 47 else p0);
               space = aroop_txt_concat A p1 target
           in if aroop_txt_char_at A target 5 = 95 then Inr (http_response_test_and_close E c w1)
              else
                ebind (composite_plugin_bridge_call A T B P space HTTP_SIGNATURE c w1) (\<lambda>(ret, w2).
                Inr (sint ret, if \<not> is_processed (https w2 c) then http_send E c (not_found A) 0 w2 else w2)))"

section \<open>The parser\<close>

definition c_string :: "bytes \<Rightarrow> bytes" where
  "c_string bs = takeWhile (\<lambda>b. b \<noteq> 0) bs"

fun strchr :: "bytes \<Rightarrow> byte \<Rightarrow> nat option" where
  "strchr [] c = None"
| "strchr (b # bs) c = (if b = c then Some 0 else if b = 0 then None else map_option Suc (strchr bs c))"

lemma strchr_less: "strchr bs c = Some k \<Longrightarrow> k < length bs"
  by (induction bs arbitrary: k) (auto split: if_splits)

text \<open>The loop after the request line: the offset at which the content starts, behind the first line of at most four
  bytes.\<close>

function http_header_loop :: "bytes \<Rightarrow> nat \<Rightarrow> nat option" where
  "http_header_loop content pos =
     (case strchr content 10 of
        None \<Rightarrow> None
      | Some k \<Rightarrow>
          (let header_len = k + 1
           in if header_len \<le> 4 then Some (pos + header_len)
              else http_header_loop (drop header_len content) (pos + header_len)))"
  by auto
termination
  by (relation "measure (\<lambda>(content, _). length content)") (auto dest!: strchr_less)

declare http_header_loop.simps [simp del]

text \<open>The request line: the target between the first two blanks, \<open>None\<close> for -1.\<close>

definition http_request_line :: "aroop \<Rightarrow> bytes \<Rightarrow> nat \<Rightarrow> aroop_txt_t option" where
  "http_request_line A content header_len =
     (if NGINZ_MAX_HTTP_HEADER_SIZE < header_len then None
      else
        let t = aroop_txt_zero_terminate A (aroop_txt_concat_string A (aroop_txt_buffer A header_len) (take header_len content))
        in (case strchr (str t) 32 of
              None \<Rightarrow> None
            | Some i \<Rightarrow>
                (let t1 = aroop_txt_shift A t (int (i + 1))
                 in (case strchr (str t1) 32 of
                       None \<Rightarrow> None
                     | Some j \<Rightarrow> Some (aroop_txt_truncate A t1 j)))))"

definition http_url_parse :: "aroop \<Rightarrow> aroop_txt_t \<Rightarrow> aroop_txt_t \<Rightarrow> int \<times> aroop_txt_t \<times> aroop_txt_t" where
  "http_url_parse A given content =
     (let user_data = aroop_txt_zero_terminate A given;
          cs = c_string (str user_data)
      in (case strchr cs 10 of
            None \<Rightarrow> (0, zero_txt, content)
          | Some k \<Rightarrow>
              (case http_request_line A cs (k + 1) of
                 None \<Rightarrow> (-1, zero_txt, content)
               | Some target \<Rightarrow>
                   (0, target,
                    case http_header_loop (drop (k + 1) cs) (k + 1) of
                      None \<Rightarrow> content
                    | Some skip \<Rightarrow> aroop_txt_shift A (aroop_txt_copy_shallow A user_data) (int skip)))))"

definition http_received :: "aroop \<Rightarrow> aroop_txt_t \<Rightarrow> bytes \<Rightarrow> aroop_txt_t" where
  "http_received A recv_buf d =
     (let b = aroop_txt_set_length A recv_buf 1
      in aroop_txt_set_length A (b\<lparr>t_mem := d @ drop (length d) (t_mem b)\<rparr>) (length d))"

definition http_on_client_data ::
    "('h, nat) table_api \<Rightarrow> ('f, 'e, 'h) composite_plugin \<Rightarrow> ('f, nat, 'w http_world) bridge_runner \<Rightarrow> 'w http_env \<Rightarrow> aroop_txt_t \<Rightarrow>
     bytes option \<Rightarrow> int \<Rightarrow> nat \<Rightarrow> 'w http_world \<Rightarrow> (int \<times> 'w http_world) exec" where
  "http_on_client_data T P B E recv_buf received f c w =
     (let A = http_lib E in
      ebind (aroop_assert A (strm_fd (http_strm (https w c)) = f)) (\<lambda>_.
      if (case received of None \<Rightarrow> False | Some d \<Rightarrow> d = [] \<or> NGINZ_MAX_HTTP_MSG_SIZE \<le> length d)
      then Inr (-1, snd (default_http_close E c w))
      else
        let buf = (case received of
                     None \<Rightarrow> set_length_minus_1 E (aroop_txt_set_length A recv_buf 1)
                   | Some d \<Rightarrow> http_received A recv_buf d)
        in (case http_url_parse A buf (http_content (https w c)) of (response, url, content) \<Rightarrow>
              let w1 = upd_http c (http_content_update (\<lambda>_. content)) w
              in ebind (if response = 0 then http_url_go T P B E c url w1 else Inr (response, w1)) (\<lambda>(response', w2).
                 let w3 = upd_http c (http_content_update (aroop_txt_destroy A)) w2
                 in Inr (response', if has (http_state (https w3 c)) (HTTP_SOFT_QUIT OR HTTP_QUIT)
                                    then snd (default_http_close E c w3) else w3)))))"

section \<open>New connections\<close>

definition welcome_command :: "aroop \<Rightarrow> aroop_txt_t" where
  "welcome_command A = aroop_txt_static_string A (lit ''http/welcome'')"

definition http_on_tcp_connection ::
    "'w http_env \<Rightarrow> 32 word \<Rightarrow> int \<Rightarrow> 'w http_world \<Rightarrow> (int \<times> 32 word \<times> 'w http_world) exec" where
  "http_on_tcp_connection E http_lb f w =
     ebind (connection_packet (http_lib E) 255 0 NGINZ_HTTP_PORT (welcome_command (http_lib E))) (\<lambda>bin.
     ebind (load_balancer_next (http_pipe w) http_lb) (\<lambda>(dest, http_lb').
     case raw_send_socket (http_streams E) dest f bin (http_outside w) of (_, o') \<Rightarrow> Inr (0, http_lb', w\<lparr>http_outside := o'\<rparr>)))"

definition http_on_connection_bubble ::
    "('h, nat) table_api \<Rightarrow> ('f, 'e, 'h) composite_plugin \<Rightarrow> ('f, nat, 'w http_world) bridge_runner \<Rightarrow> 'w http_env \<Rightarrow> int \<Rightarrow>
     aroop_txt_t \<Rightarrow> 'w http_world \<Rightarrow> (int \<times> 'w http_world) exec" where
  "http_on_connection_bubble T P B E f cmd w =
     (if http_accept_module_is_quiting w then Inr (0, w)
      else
        let A = http_lib E in
        ebind (binary_unpack_string A cmd 2 zero_txt) (\<lambda>(_, req).
        case http_alloc E f w of (c, w1) \<Rightarrow>
          let w2 = upd_http c (http_content_update (\<lambda>_. aroop_txt_copy_shallow A req)) w1;
              sandbox = aroop_txt_concat A (aroop_txt_stackbuffer A (t_len req)) req
          in (case scanner_next_token A sandbox zero_txt of (_, space) \<Rightarrow>
               ebind (if t_len space = 0 then Inr (snd (default_http_close E c w2))
                      else
                        ebind (aroop_assert A (strm_fd (http_strm (https w2 c)) = f)) (\<lambda>_.
                        let w3 = w2\<lparr>http_outside := http_loop_register E f c (http_outside w2)\<rparr>
                        in if aroop_txt_equals A space (welcome_command A) then Inr w3
                           else ebind (composite_plugin_bridge_call A T B P space HTTP_SIGNATURE c w3) (\<lambda>(_, w4). Inr w4)))
                 (\<lambda>w5. Inr (0, upd_http c (http_content_update (aroop_txt_destroy A)) w5)))))"

section \<open>C strings\<close>

lemma strchr_found: "c \<notin> set l \<Longrightarrow> 0 \<notin> set l \<Longrightarrow> strchr (l @ c # r) c = Some (length l)"
  by (induction l) auto

lemma c_string_append: "0 \<notin> set l \<Longrightarrow> c_string (l @ r) = l @ c_string r"
  by (induction l) (auto simp: c_string_def)

text \<open>A line as it appears in a request: no NUL, one newline, at its end.\<close>

definition line_ok :: "bytes \<Rightarrow> bool" where
  "line_ok l \<longleftrightarrow> 0 \<notin> set l \<and> 10 \<notin> set l"

lemma header_loop_ends:
  assumes "\<forall>l \<in> set hdrs. line_ok l \<and> 3 < length l"
  shows "http_header_loop (concat (map (\<lambda>l. l @ [10]) hdrs) @ [13, 10] @ r) pos =
    Some (pos + length (concat (map (\<lambda>l. l @ [10]) hdrs)) + 2)"
  using assms
proof (induction hdrs arbitrary: pos)
  case Nil
  then show ?case by (simp add: http_header_loop.simps)
next
  case (Cons l hdrs)
  let ?rest = "concat (map (\<lambda>l. l @ [10]) hdrs) @ [13, 10] @ r"
  have l: "line_ok l" "3 < length l" using Cons.prems by simp_all
  have c: "strchr (l @ 10 # ?rest) 10 = Some (length l)" by (rule strchr_found) (use l(1) in \<open>simp_all add: line_ok_def\<close>)
  have "http_header_loop (l @ 10 # ?rest) pos = http_header_loop ?rest (pos + Suc (length l))"
    using c l(2) by (subst http_header_loop.simps) simp
  then show ?case using Cons.IH [of "pos + Suc (length l)"] Cons.prems by simp
qed

lemma split_at_length: "take (length p) (p @ q) = p" "drop (length p) (p @ q) = q"
  by simp_all

lemma request_line_target:
  assumes "aroop_ok A" and "line_ok m" "32 \<notin> set m" and "line_ok u" "32 \<notin> set u" and "line_ok v"
    and "content = m @ 32 # u @ 32 # v @ 10 # rest" and "n = length m + length u + length v + 3" and "n \<le> 1024"
  shows "\<exists>t. http_request_line A content n = Some t \<and> wf_txt t \<and> str t = u"
proof -
  have "content = (m @ 32 # u @ 32 # v @ [10]) @ rest" "n = length (m @ 32 # u @ 32 # v @ [10])" using assms(7,8) by simp_all
  then have take: "take n content = m @ 32 # u @ 32 # v @ [10]" by (simp only: split_at_length)
  let ?t = "aroop_txt_zero_terminate A (aroop_txt_concat_string A (aroop_txt_buffer A n) (take n content))"
  have b: "wf_txt (aroop_txt_buffer A n)" "t_len (aroop_txt_buffer A n) = 0" "n \<le> t_cap (aroop_txt_buffer A n)"
    using buffer_laws(1,2) [OF assms(1)] buffer_cap(1) [OF assms(1)] by simp_all
  have "appends (aroop_txt_buffer A n) (take n content) (aroop_txt_concat_string A (aroop_txt_buffer A n) (take n content))"
    by (rule concat_string_appends [OF assms(1) b(1)]) (use b take assms(8) in simp)
  then have t: "wf_txt ?t" "str ?t = m @ 32 # u @ 32 # v @ [10]"
    using take b(2) zero_terminate_laws [OF assms(1)] by (simp_all add: appends_def str_def)
  have l: "t_len ?t = n" using length_str [OF t(1)] t(2) assms(8) by simp
  have 1: "strchr (str ?t) 32 = Some (length m)"
    unfolding t(2) by (rule strchr_found) (use assms(2,3) in \<open>simp_all add: line_ok_def\<close>)
  let ?t1 = "aroop_txt_shift A ?t (int (length m + 1))"
  have "length m + 1 \<le> t_len ?t" using l assms(8) by simp
  from shift_law [OF assms(1) t(1) this]
  have t1: "?t1 = \<lparr>t_mem = drop (length m + 1) (t_mem ?t), t_len = n - (length m + 1)\<rparr>" by (simp only: l)
  have w1: "wf_txt ?t1" unfolding t1 using t(1) l by (simp add: wf_txt_def t_cap_def)
  have s1: "str ?t1 = drop (length m + 1) (str ?t)" unfolding t1 by (simp add: str_def l drop_take)
  then have s1: "str ?t1 = u @ 32 # v @ [10]" using t(2) by simp
  have 2: "strchr (str ?t1) 32 = Some (length u)"
    unfolding s1 by (rule strchr_found) (use assms(4,5) in \<open>simp_all add: line_ok_def\<close>)
  have l1: "length u \<le> t_len ?t1" unfolding t1 using assms(8) by simp
  have "aroop_txt_truncate A ?t1 (length u) = ?t1\<lparr>t_len := length u\<rparr>" by (rule truncate_law [OF assms(1) w1 l1])
  moreover have "wf_txt (?t1\<lparr>t_len := length u\<rparr>)" using w1 l1 by (simp add: wf_txt_def t_cap_def)
  moreover have "str (?t1\<lparr>t_len := length u\<rparr>) = take (length u) (str ?t1)" using l1 by (simp add: str_def min_def)
  then have "str (?t1\<lparr>t_len := length u\<rparr>) = u" using s1 by simp
  ultimately show ?thesis
    using 1 2 assms(9) by (simp add: http_request_line_def NGINZ_MAX_HTTP_HEADER_SIZE_def Let_def)
qed

section \<open>Well-formed requests\<close>

definition request_text :: "bytes \<Rightarrow> bytes \<Rightarrow> bytes \<Rightarrow> bytes list \<Rightarrow> bytes \<Rightarrow> bytes" where
  "request_text m u v hdrs body = m @ 32 # u @ 32 # v @ 10 # concat (map (\<lambda>l. l @ [10]) hdrs) @ [13, 10] @ body"

definition request_ok :: "bytes \<Rightarrow> bytes \<Rightarrow> bytes \<Rightarrow> bytes list \<Rightarrow> bool" where
  "request_ok m u v hdrs \<longleftrightarrow> line_ok m \<and> 32 \<notin> set m \<and> line_ok u \<and> 32 \<notin> set u \<and> line_ok v \<and>
     (\<forall>l \<in> set hdrs. line_ok l \<and> 3 < length l)"

lemma parsed:
  assumes "aroop_ok A" and "wf_txt given" and "request_ok m u v hdrs" and "str given = request_text m u v hdrs body"
    and "length m + length u + length v + 3 \<le> 1024"
  shows "\<exists>t cont. http_url_parse A given old = (0, t, cont) \<and> wf_txt t \<and> str t = u \<and> wf_txt cont \<and> str cont = body"
proof -
  let ?n = "length m + length u + length v + 3" and ?h = "concat (map (\<lambda>l. l @ [10]) hdrs)"
  let ?d = "aroop_txt_zero_terminate A given"
  have d: "wf_txt ?d" "str ?d = request_text m u v hdrs body" using zero_terminate_laws [OF assms(1,2)] assms(4) by simp_all
  note R = assms(3) [unfolded request_ok_def line_ok_def]
  have "0 \<notin> set (m @ 32 # u @ 32 # v @ 10 # ?h @ [13, 10])" using R by auto
  from c_string_append [OF this, of body]
  have c: "c_string (str ?d) = m @ 32 # u @ 32 # v @ 10 # ?h @ [13, 10] @ c_string body" unfolding d(2) request_text_def by simp
  have "strchr ((m @ 32 # u @ 32 # v) @ 10 # ?h @ [13, 10] @ c_string body) 10 = Some (length (m @ 32 # u @ 32 # v))"
    by (rule strchr_found) (use R in auto)
  then have k: "strchr (c_string (str ?d)) 10 = Some (?n - 1)" unfolding c by simp
  obtain t where t: "http_request_line A (c_string (str ?d)) ?n = Some t" "wf_txt t" "str t = u"
    using request_line_target [OF assms(1) _ _ _ _ _ c refl assms(5)] assms(3) by (auto simp: request_ok_def)
  have "c_string (str ?d) = (m @ 32 # u @ 32 # v @ [10]) @ ?h @ [13, 10] @ c_string body" "?n = length (m @ 32 # u @ 32 # v @ [10])"
    using c by simp_all
  then have rest: "drop ?n (c_string (str ?d)) = ?h @ [13, 10] @ c_string body" by (simp only: split_at_length)
  have loop: "http_header_loop (drop ?n (c_string (str ?d))) ?n = Some (?n + length ?h + 2)"
    unfolding rest by (rule header_loop_ends) (use assms(3) in \<open>simp add: request_ok_def\<close>)
  let ?skip = "?n + length ?h + 2"
  have l: "t_len ?d = ?skip + length body" using length_str [OF d(1)] d(2) by (simp add: request_text_def)
  have "?skip \<le> t_len ?d" using l by simp
  from shift_law [OF assms(1) d(1) this]
  have cont: "aroop_txt_shift A (aroop_txt_copy_shallow A ?d) (int ?skip) = \<lparr>t_mem = drop ?skip (t_mem ?d), t_len = t_len ?d - ?skip\<rparr>" (is "?c = _")
    by (simp only: copy_shallow_law [OF assms(1)])
  have "wf_txt ?c" unfolding cont using d(1) l by (simp add: wf_txt_def t_cap_def)
  moreover have "str ?d = (m @ 32 # u @ 32 # v @ 10 # ?h @ [13, 10]) @ body" "?skip = length (m @ 32 # u @ 32 # v @ 10 # ?h @ [13, 10])"
    unfolding d(2) request_text_def by simp_all
  then have "drop ?skip (str ?d) = body" by (simp only: split_at_length)
  moreover have "str ?c = drop ?skip (str ?d)" unfolding cont by (simp add: str_def drop_take)
  ultimately have "wf_txt ?c" "str ?c = body" by simp_all
  moreover obtain k0 where k0: "?n = k0 + 1" by (metis Suc_eq_plus1 add.commute add_Suc_right numeral_3_eq_3)
  have "http_url_parse A given old = (0, t, ?c)"
    using k t(1) loop unfolding k0 http_url_parse_def Let_def by simp
  ultimately show ?thesis using t(2,3) by blast
qed

section \<open>Answers\<close>

text \<open>\<open>send\<close> takes whole messages; \<open>wr f bs fl\<close> is what it does to the world.\<close>

definition sends_whole :: "'w stream_env \<Rightarrow> (int \<Rightarrow> bytes \<Rightarrow> int \<Rightarrow> 'w \<Rightarrow> 'w) \<Rightarrow> bool" where
  "sends_whole V wr \<longleftrightarrow> (\<forall>f bs fl o1. sys_send V f bs fl o1 = (int (length bs), 0, wr f bs fl o1))"

definition open_http :: "nat \<Rightarrow> 'w http_world \<Rightarrow> int \<Rightarrow> bool" where
  "open_http c w f \<longleftrightarrow> bubble_up (http_strm (https w c)) = None \<and> strm_fd (http_strm (https w c)) = f \<and> f \<noteq> INVALID_FD"

lemma http_send_writes:
  assumes "sends_whole (http_streams E) wr" and "open_http c w f"
  shows "http_send E c x fl w = w\<lparr>http_outside := wr f (str x) fl (http_outside w)\<rparr>"
  using assms
  by (auto simp: http_send_def default_streamio_send_def sends_whole_def open_http_def upd_http_def fun_eq_iff)

lemma open_http_frame [simp]:
  "open_http c (w\<lparr>send_buf := b\<rparr>) f \<longleftrightarrow> open_http c w f" "open_http c (w\<lparr>http_outside := o1\<rparr>) f \<longleftrightarrow> open_http c w f"
  by (simp_all add: open_http_def)

definition reply_text :: "bytes \<Rightarrow> bytes" where
  "reply_text bs = lit ''HTTP/1.0 200 OK'' @ [13, 10] @ lit ''Content-Length: '' @ dec_int (int (length bs)) @ [13, 10, 13, 10] @ bs"

definition not_found_text :: bytes where
  "not_found_text = lit ''HTTP/1.0 404 NOT FOUND'' @ [13, 10] @ lit ''Content-Length: 9'' @ [13, 10, 13, 10] @ lit ''Not Found''"

lemma tunnel_reply:
  assumes "aroop_ok (http_lib E)" and "sends_whole (http_streams E) wr" and "open_http c w f" and "wf_txt x" and "t_len x < 10 ^ 9"
    and "NGINZ_MAX_HTTP_MSG_SIZE \<le> t_cap (send_buf w)"
  shows "\<exists>sent buf. http_tunnel_send_content E c (Some x) flags w = (0, upd_http c (is_processed_update (\<lambda>_. True))
      (w\<lparr>send_buf := buf, http_outside := fold (\<lambda>(bs, fl). wr f bs fl) sent (http_outside w)\<rparr>)) \<and>
    concat (map fst sent) = reply_text (str x) \<and> t_cap buf = t_cap (send_buf w)"
proof -
  let ?A = "http_lib E" and ?n = "dec_int (int (t_len x)) @ [13, 10, 13, 10]"
  let ?b0 = "aroop_txt_set_length ?A (send_buf w) 0"
  have b0: "?b0 = (send_buf w)\<lparr>t_len := 0\<rparr>" by (rule set_length_law [OF assms(1)]) simp
  have w0: "wf_txt ?b0" "t_len ?b0 = 0" "1024 \<le> t_cap ?b0" "t_cap ?b0 = t_cap (send_buf w)"
    using assms(6) by (simp_all add: b0 wf_txt_def t_cap_def NGINZ_MAX_HTTP_MSG_SIZE_def)
  have "length (dec_int (int (t_len x))) \<le> 9" using length_dec_nat [OF assms(5)] by (simp add: dec_int_def)
  then have "appends ?b0 ?n (aroop_txt_concat_string ?A ?b0 ?n)"
    by (intro concat_string_appends [OF assms(1) w0(1)]) (use w0 in simp)
  then have s: "str (aroop_txt_concat_string ?A ?b0 ?n) = ?n" "t_cap (aroop_txt_concat_string ?A ?b0 ?n) = t_cap (send_buf w)"
    using w0(2,4) by (simp_all add: appends_def str_def)
  have ok: "str (HTTP_OK ?A) = lit ''HTTP/1.0 200 OK'' @ [13, 10] @ lit ''Content-Length: ''"
    using static_laws(2) [OF assms(1)] by (simp add: HTTP_OK_def)
  have l: "length (str x) = t_len x" by (rule length_str [OF assms(4)])
  let ?buf = "aroop_txt_concat_string ?A ?b0 ?n"
  let ?sent = "[(str (HTTP_OK ?A), MSG_MORE), (?n, MSG_MORE)] @ (if t_len x = 0 then [] else [(str x, 0)])"
  note L = http_send_writes [where f = f, OF assms(2)]
  have "http_tunnel_send_content E c (Some x) flags w = (0, upd_http c (is_processed_update (\<lambda>_. True))
      (w\<lparr>send_buf := ?buf, http_outside := fold (\<lambda>(bs, fl). wr f bs fl) ?sent (http_outside w)\<rparr>))"
    using s assms(3) by (cases "t_len x = 0") (simp_all add: http_tunnel_send_content_def Let_def L)
  moreover have "concat (map fst ?sent) = reply_text (str x)"
    using l ok by (cases "t_len x = 0") (simp_all add: reply_text_def)
  ultimately show ?thesis using s(2) by blast
qed

text \<open>A well-formed request for a page runs the plugins of the page on a connection whose content is the request's.\<close>

lemma request_runs_page:
  assumes "aroop_ok (http_lib E)" and "open_http c w f" and "table_ok T" and "plugins_wf T P"
    and "wf_txt buf" and "NGINZ_MAX_HTTP_MSG_SIZE \<le> t_cap buf"
    and "request_ok m u v hdrs" and "length (request_text m u v hdrs body) < NGINZ_MAX_HTTP_MSG_SIZE"
    and "hd u = 47" and "5 < length u" and "u ! 5 \<noteq> 95"
  shows "\<exists>cont. wf_txt cont \<and> str cont = body \<and>
    http_on_client_data T P B E buf (Some (request_text m u v hdrs body)) f c w =
      ebind (run_bridges (http_lib E) B (plugins_at T P (lit ''http'' @ u)) HTTP_SIGNATURE c 0
          (upd_http c (\<lambda>x. x\<lparr>http_content := cont, is_processed := False\<rparr>) w)) (\<lambda>(ret, w2).
        let w3 = upd_http c (http_content_update (aroop_txt_destroy (http_lib E)))
                   (if \<not> is_processed (https w2 c) then http_send E c (not_found (http_lib E)) 0 w2 else w2)
        in Inr (sint ret, if has (http_state (https w3 c)) (HTTP_SOFT_QUIT OR HTTP_QUIT) then snd (default_http_close E c w3) else w3))"
proof -
  let ?A = "http_lib E" and ?d = "request_text m u v hdrs body"
  let ?b = "http_received ?A buf ?d"
  have n: "length ?d < 1024" "?d \<noteq> []" "1024 \<le> t_cap buf" using assms(6,8) by (simp_all add: NGINZ_MAX_HTTP_MSG_SIZE_def request_text_def)
  have b: "?b = \<lparr>t_mem = ?d @ drop (length ?d) (t_mem buf), t_len = length ?d\<rparr>"
    using n(1,3) by (simp add: http_received_def Let_def set_length_law [OF assms(1)] t_cap_def)
  have bw: "wf_txt ?b" "str ?b = ?d" using n(1,3) by (simp_all add: b wf_txt_def t_cap_def str_def)
  have "length m + length u + length v + 3 \<le> 1024" using n(1) by (simp add: request_text_def)
  from parsed [OF assms(1) bw(1) assms(7) bw(2) this]
  obtain t cont where p: "http_url_parse ?A ?b (http_content (https w c)) = (0, t, cont)" "wf_txt t" "str t = u" "wf_txt cont" "str cont = body"
    by blast
  have lt: "t_len t = length u" using length_str [OF p(2)] p(3) by simp
  have u0: "u ! 0 = 47" "0 < length u" using assms(9,10) by (cases u; simp)+
  from assms(10) have une: "u \<noteq> []" by (cases u) simp_all
  from u0 have ch: "aroop_txt_char_at ?A t 0 = 47" "aroop_txt_char_at ?A t 5 \<noteq> 95"
    using char_at_str [OF assms(1) p(2)] lt p(3) assms(10,11) by (simp_all del: length_greater_0_conv)
  let ?w0 = "upd_http c (http_content_update (\<lambda>_. cont)) w"
  let ?w1 = "upd_http c (\<lambda>x. x\<lparr>http_content := cont, is_processed := False\<rparr>) w"
  have w1: "upd_http c (is_processed_update (\<lambda>_. False)) ?w0 = ?w1" by (simp add: upd_http_def)
  let ?s = "aroop_txt_concat ?A (aroop_txt_concat_string ?A (aroop_txt_stackbuffer ?A (t_len t + 32)) (lit ''http'')) t"
  have "built (t_len t + 32) ?s (([] @ lit ''http'') @ str t)"
    by (rule built_concat [OF assms(1) built_string [OF assms(1) built_stackbuffer [OF assms(1)]] p(2)]) simp_all
  then have sp: "str ?s = lit ''http'' @ u" by (simp add: built_def p(3))
  have c: "composite_plugin_bridge_call ?A T B P ?s HTTP_SIGNATURE c w' =
      run_bridges ?A B (plugins_at T P (lit ''http'' @ u)) HTTP_SIGNATURE c 0 w'" for w'
    by (simp add: bridge_call_runs [OF assms(3,4)] sp)
  have g: "http_url_go T P B E c t ?w0 =
      ebind (run_bridges ?A B (plugins_at T P (lit ''http'' @ u)) HTTP_SIGNATURE c 0 ?w1) (\<lambda>(ret, w2).
        Inr (sint ret, if \<not> is_processed (https w2 c) then http_send E c (not_found ?A) 0 w2 else w2))"
    using ch lt assms(10) une by (simp add: http_url_go_def Let_def c [unfolded lt] w1)
  have "http_on_client_data T P B E buf (Some ?d) f c w =
      ebind (run_bridges ?A B (plugins_at T P (lit ''http'' @ u)) HTTP_SIGNATURE c 0 ?w1) (\<lambda>(ret, w2).
        let w3 = upd_http c (http_content_update (aroop_txt_destroy ?A))
                   (if \<not> is_processed (https w2 c) then http_send E c (not_found ?A) 0 w2 else w2)
        in Inr (sint ret, if has (http_state (https w3 c)) (HTTP_SOFT_QUIT OR HTTP_QUIT) then snd (default_http_close E c w3) else w3))"
    using assms(2) n p(1)
    by (cases "run_bridges ?A B (plugins_at T P (lit ''http'' @ u)) HTTP_SIGNATURE c 0 ?w1")
      (simp_all add: g http_on_client_data_def Let_def open_http_def NGINZ_MAX_HTTP_MSG_SIZE_def split: prod.splits)
  with p(4,5) show ?thesis by blast
qed

lemma str_not_found: "aroop_ok A \<Longrightarrow> str (not_found A) = not_found_text"
  by (simp add: not_found_def not_found_text_def static_laws(2))

section \<open>Properties\<close>

text \<open>A well-formed request (a request line with method, target and version, header lines of at least five bytes
  and an empty line, then any content) is split by the parser into exactly its target and its content.\<close>

theorem request_parsed:
  assumes "aroop_ok A" and "wf_txt given" and "request_ok m u v hdrs" and "str given = request_text m u v hdrs body"
    and "t_len given < NGINZ_MAX_HTTP_MSG_SIZE"
  shows "\<exists>t cont. http_url_parse A given old = (0, t, cont) \<and> str t = u \<and> str cont = body"
proof -
  have "length m + length u + length v + 3 \<le> 1024"
    using assms(5) length_str [OF assms(2)] assms(4) by (simp add: request_text_def NGINZ_MAX_HTTP_MSG_SIZE_def)
  from parsed [OF assms(1-4) this] show ?thesis by blast
qed

lemma request_parsed_witness:
  "\<exists>t cont. http_url_parse ref_aroop (txt_of (request_text (lit ''GET'') (lit ''/chat'') (lit ''HTTP/1.0'' @ [13]) [lit ''Host: x'' @ [13]] (lit ''hi''))) zero_txt =
      (0, t, cont) \<and> str t = lit ''/chat'' \<and> str cont = lit ''hi''"
  by (rule request_parsed [where m = "lit ''GET''" and v = "lit ''HTTP/1.0'' @ [13]" and hdrs = "[lit ''Host: x'' @ [13]]"])
    (simp_all add: request_ok_def line_ok_def lit_def request_text_def NGINZ_MAX_HTTP_MSG_SIZE_def)

text \<open>A reply of the HTTP tunnel is one message on the wire: status line, the length of the content in decimal, an
  empty line and the content; and the request counts as answered.\<close>

theorem reply_is_framed:
  assumes "aroop_ok (http_lib E)" and "sends_whole (http_streams E) wr" and "open_http c w f" and "wf_txt x" and "t_len x < 10 ^ 9"
    and "NGINZ_MAX_HTTP_MSG_SIZE \<le> t_cap (send_buf w)"
  shows "\<exists>w' sent. http_tunnel_send_content E c (Some x) flags w = (0, w') \<and> is_processed (https w' c) \<and>
    http_outside w' = fold (\<lambda>(bs, fl). wr f bs fl) sent (http_outside w) \<and>
    concat (map fst sent) = lit ''HTTP/1.0 200 OK'' @ [13, 10] @ lit ''Content-Length: '' @
      dec_int (int (length (str x))) @ [13, 10, 13, 10] @ str x"
proof -
  from tunnel_reply [OF assms] obtain sent buf where
    "http_tunnel_send_content E c (Some x) flags w = (0, upd_http c (is_processed_update (\<lambda>_. True))
      (w\<lparr>send_buf := buf, http_outside := fold (\<lambda>(bs, fl). wr f bs fl) sent (http_outside w)\<rparr>))"
    "concat (map fst sent) = reply_text (str x)" by blast
  then show ?thesis by (simp add: upd_http_def reply_text_def) blast
qed

text \<open>From the bytes of a well-formed request to the answer: a page that no plugin serves is answered by exactly one
  message, the 404 reply, and the connection stays open.\<close>

theorem unknown_page_not_found:
  assumes "aroop_ok (http_lib E)" and "sends_whole (http_streams E) wr" and "open_http c w f" and "table_ok T" and "plugins_wf T P"
    and "wf_txt buf" and "NGINZ_MAX_HTTP_MSG_SIZE \<le> t_cap buf"
    and "request_ok m u v hdrs" and "length (request_text m u v hdrs body) < NGINZ_MAX_HTTP_MSG_SIZE"
    and "hd u = 47" and "5 < length u" and "u ! 5 \<noteq> 95" and "plugins_at T P (lit ''http'' @ u) = []"
    and "\<not> has (http_state (https w c)) (HTTP_SOFT_QUIT OR HTTP_QUIT)"
  shows "\<exists>w'. http_on_client_data T P B E buf (Some (request_text m u v hdrs body)) f c w = Inr (0, w') \<and>
    http_outside w' = wr f (lit ''HTTP/1.0 404 NOT FOUND'' @ [13, 10] @ lit ''Content-Length: 9'' @ [13, 10, 13, 10] @ lit ''Not Found'') 0
      (http_outside w) \<and> open_http c w' f"
proof -
  from request_runs_page [where B = B and body = body, OF assms(1,3-12)] obtain cont where
    r: "http_on_client_data T P B E buf (Some (request_text m u v hdrs body)) f c w =
      ebind (run_bridges (http_lib E) B (plugins_at T P (lit ''http'' @ u)) HTTP_SIGNATURE c 0
          (upd_http c (\<lambda>x. x\<lparr>http_content := cont, is_processed := False\<rparr>) w)) (\<lambda>(ret, w2).
        let w3 = upd_http c (http_content_update (aroop_txt_destroy (http_lib E)))
                   (if \<not> is_processed (https w2 c) then http_send E c (not_found (http_lib E)) 0 w2 else w2)
        in Inr (sint ret, if has (http_state (https w3 c)) (HTTP_SOFT_QUIT OR HTTP_QUIT) then snd (default_http_close E c w3) else w3))"
    by blast
  let ?w1 = "upd_http c (\<lambda>x. x\<lparr>http_content := cont, is_processed := False\<rparr>) w"
  have "open_http c ?w1 f" using assms(3) by (simp add: open_http_def upd_http_def)
  then have s: "http_send E c (not_found (http_lib E)) 0 ?w1 = ?w1\<lparr>http_outside := wr f not_found_text 0 (http_outside w)\<rparr>"
    by (simp add: http_send_writes [OF assms(2)] str_not_found [OF assms(1)]) (simp add: upd_http_def)
  have "\<not> is_processed (https ?w1 c)" "http_state (https ?w1 c) = http_state (https w c)" by (simp_all add: upd_http_def)
  with s show ?thesis
    using assms(3,14) by (simp add: r assms(13)) (simp add: upd_http_def open_http_def not_found_text_def)
qed

definition sample_http_env :: "(int \<times> bytes \<times> int) list http_env" where
  "sample_http_env = \<lparr>http_lib = ref_aroop,
     http_streams = \<lparr>up_send = (\<lambda>_ _ _ o1. (0, o1)), up_close = (\<lambda>_ o1. (0, o1)), up_transfer = (\<lambda>_ _ _ _ o1. Inr (0, o1)),
       sys_send = (\<lambda>f bs fl o1. (int (length bs), 0, o1 @ [(f, bs, fl)])), sys_close = (\<lambda>_ o1. o1),
       loop_unregister = (\<lambda>_ o1. o1), raw_send_socket = (\<lambda>_ _ _ o1. (0, o1))\<rparr>,
     http_pool_alloc = (\<lambda>xs. Suc (sum_list xs)), http_pool_add = (\<lambda>c xs. xs @ [c]), http_loop_register = (\<lambda>_ _ o1. o1),
     set_length_minus_1 = (\<lambda>t. t)\<rparr>"

definition sample_http :: "(int \<times> bytes \<times> int) list http_world" where
  "sample_http = \<lparr>https = (\<lambda>c. \<lparr>http_strm = (streamio_initialize (strms two_streams 0))\<lparr>strm_fd := 30\<rparr>, http_state = HTTP_CONNECTED,
       is_processed = False, http_content = zero_txt\<rparr>), http_factory = [0], http_accept_module_is_quiting = False,
     send_buf = aroop_txt_buffer ref_aroop 1024, http_pipe = six_nodes, http_outside = []\<rparr>"

lemma sample_http [simp]:
  "http_lib sample_http_env = ref_aroop" "sends_whole (http_streams sample_http_env) (\<lambda>f bs fl l. l @ [(f, bs, fl)])" "open_http 0 sample_http 30" "http_outside sample_http = []"
  "http_state (https sample_http c) = 0" "1024 \<le> t_cap (send_buf sample_http)" "1024 \<le> t_cap (aroop_txt_buffer ref_aroop 1024)"
  "wf_txt (aroop_txt_buffer ref_aroop 1024)"
  by (simp_all add: sample_http_env_def sample_http_def sends_whole_def open_http_def INVALID_FD_def streamio_initialize_def HTTP_CONNECTED_def
      ref_aroop_def t_cap_def wf_txt_def)

lemma reply_is_framed_witness:
  "\<exists>w' sent. http_tunnel_send_content sample_http_env 0 (Some (txt_of (lit ''hello''))) 0 sample_http = (0, w') \<and> is_processed (https w' 0) \<and>
    http_outside w' = fold (\<lambda>(bs, fl) l. l @ [(30, bs, fl)]) sent (http_outside sample_http) \<and>
    concat (map fst sent) = lit ''HTTP/1.0 200 OK'' @ [13, 10] @ lit ''Content-Length: '' @
      dec_int (int (length (str (txt_of (lit ''hello''))))) @ [13, 10, 13, 10] @ str (txt_of (lit ''hello''))"
  by (rule reply_is_framed [where wr = "\<lambda>f bs fl l. l @ [(f, bs, fl)]"]) (simp_all add: NGINZ_MAX_HTTP_MSG_SIZE_def)

lemma unknown_page_not_found_witness:
  "\<exists>w'. http_on_client_data ref_table (composite_plugin_create ref_table :: (nat, unit, (bytes \<times> nat) list) composite_plugin)
      (\<lambda>_ _ _ w. Inr (0, w)) sample_http_env (aroop_txt_buffer ref_aroop 1024)
      (Some (request_text (lit ''GET'') (lit ''/nopage'') (lit ''HTTP/1.0'' @ [13]) [] [])) 30 0 sample_http = Inr (0, w') \<and>
    http_outside w' = http_outside sample_http @ [(30, lit ''HTTP/1.0 404 NOT FOUND'' @ [13, 10] @ lit ''Content-Length: 9'' @ [13, 10, 13, 10] @ lit ''Not Found'', 0)] \<and>
    open_http 0 w' 30"
proof -
  let ?P = "composite_plugin_create ref_table :: (nat, unit, (bytes \<times> nat) list) composite_plugin"
  have P: "plugins_wf ref_table ?P" "plugins_at ref_table ?P = (\<lambda>_. [])" using create_wf [OF ref_table_ok refl] by auto
  show ?thesis
    by (rule unknown_page_not_found [where wr = "\<lambda>f bs fl l. l @ [(f, bs, fl)]", OF _ _ _ ref_table_ok P(1)])
      (simp_all add: P(2) request_ok_def line_ok_def lit_def request_text_def NGINZ_MAX_HTTP_MSG_SIZE_def)
qed

text \<open>The check for hidden pages looks at the wrong place: it tests index 5 of the target, which has no
  \<open>http\<close> in front. A client can therefore call the hidden page \<open>_webchat_hiddenjoin\<close>, whose plugin runs, while an
  ordinary page with an underscore at index 5 is refused and the connection closed.\<close>

theorem hidden_page_check_misplaced:
  assumes "aroop_ok (http_lib E)" and "table_ok T" and "plugins_wf T P"
    and "plugins_at T P (lit ''http/_webchat_hiddenjoin'') = [(BRIDGE_PLUGIN, Some p, d)]"
    and "wf_txt hidden" and "str hidden = lit ''/_webchat_hiddenjoin''" and "wf_txt plain" and "str plain = lit ''/news_today''"
    and "B p HTTP_SIGNATURE c (upd_http c (is_processed_update (\<lambda>_. False)) w) = Inr (r, w1)" and "is_processed (https w1 c)"
  shows "http_url_go T P B E c hidden w = Inr (sint r, w1) \<and>
    (\<exists>w2. http_url_go T P B E c plain w = Inr (-1, w2) \<and> http_state (https w2 c) = HTTP_QUIT)"
proof
  let ?A = "http_lib E"
  have l: "t_len hidden = 20" "t_len plain = 11" using length_str [OF assms(5)] length_str [OF assms(7)] assms(6,8) by simp_all
  have ch: "aroop_txt_char_at ?A hidden 0 = 47" "aroop_txt_char_at ?A hidden 5 = 99" "aroop_txt_char_at ?A plain 5 = 95"
    using char_at_str [OF assms(1,5), of 0] char_at_str [OF assms(1,5), of 5] char_at_str [OF assms(1,7), of 5] l assms(6,8)
    by (simp_all add: lit_def)
  let ?s = "aroop_txt_concat ?A (aroop_txt_concat_string ?A (aroop_txt_stackbuffer ?A (t_len hidden + 32)) (lit ''http'')) hidden"
  have "built (t_len hidden + 32) ?s (([] @ lit ''http'') @ str hidden)"
    by (rule built_concat [OF assms(1) built_string [OF assms(1) built_stackbuffer [OF assms(1)]] assms(5)]) simp_all
  then have sp: "str ?s = lit ''http/_webchat_hiddenjoin''" by (simp add: built_def assms(6) lit_def)
  have "composite_plugin_bridge_call ?A T B P ?s HTTP_SIGNATURE c (upd_http c (is_processed_update (\<lambda>_. False)) w) = Inr (r, w1)"
    by (simp add: bridge_call_runs [OF assms(2,3)] sp assms(4,9))
  then show "http_url_go T P B E c hidden w = Inr (sint r, w1)"
    using l ch assms(10) by (simp add: http_url_go_def Let_def)
  have "http_state (https (snd (http_response_test_and_close E c w')) c) = HTTP_QUIT" for w'
    by (auto simp: http_response_test_and_close_def default_http_close_def http_send_def upd_http_def Let_def split: option.splits prod.splits)
  then show "\<exists>w2. http_url_go T P B E c plain w = Inr (-1, w2) \<and> http_state (https w2 c) = HTTP_QUIT"
    using l ch(3)
    by (intro exI [of _ "snd (http_response_test_and_close E c (upd_http c (is_processed_update (\<lambda>_. False)) w))"])
      (simp add: http_url_go_def Let_def http_response_test_and_close_def)
qed

lemma hidden_page_check_misplaced_witness:
  "\<exists>P. plug_seq ref_aroop ref_table [(BRIDGE_PLUGIN, txt_of (lit ''http/_webchat_hiddenjoin''), 7 :: nat, ())] (composite_plugin_create ref_table) = Inr P \<and>
    http_url_go ref_table P (\<lambda>p sg c w. Inr (0, upd_http c (is_processed_update (\<lambda>_. True)) w)) sample_http_env 0
      (txt_of (lit ''/_webchat_hiddenjoin'')) sample_http = Inr (0, upd_http 0 (is_processed_update (\<lambda>_. True)) (upd_http 0 (is_processed_update (\<lambda>_. False)) sample_http))"
proof -
  let ?rs = "[(BRIDGE_PLUGIN, txt_of (lit ''http/_webchat_hiddenjoin''), 7 :: nat, ())]"
  obtain P where P: "plug_seq ref_aroop ref_table ?rs (composite_plugin_create ref_table) = Inr P" "plugins_wf ref_table P"
    "plugins_at ref_table P = requested ?rs"
    using plug_seq_fresh [OF ref_aroop_ok ref_table_ok, of ?rs] by auto
  let ?B = "\<lambda>(p :: nat) (sg :: int) c (w :: (int \<times> bytes \<times> int) list http_world). Inr (0, upd_http c (is_processed_update (\<lambda>_. True)) w)"
  have "http_url_go ref_table P ?B sample_http_env 0 (txt_of (lit ''/_webchat_hiddenjoin'')) sample_http =
      Inr (sint (0 :: 32 word), upd_http 0 (is_processed_update (\<lambda>_. True)) (upd_http 0 (is_processed_update (\<lambda>_. False)) sample_http))"
    by (rule conjunct1 [OF hidden_page_check_misplaced [OF _ ref_table_ok P(2), where p = 7 and d = "()" and plain = "txt_of (lit ''/news_today'')"]])
      (simp_all add: P(3) requested_def upd_http_def)
  with P(1) show ?thesis by auto
qed

end
