(* ===== verification/WebSession.thy ===== *)
theory WebSession
  imports Http
begin

text \<open>
  Sessions of the web chat, \<open>apps/web_chat/src/web_session_factory.c\<close>. A session is the address of its object. It
  stands between two streams: below it the stream of a chat connection, which lives as long as the session, and above
  it, while a request is being served, the stream of the HTTP connection that carries the request. Sessions, and the
  rest of the process, are what the world of theory \<open>Http\<close> has outside of the HTTP server; \<open>chat_side\<close> is the chat
  application and the system. The chat is reached through function pointers (\<open>chat_on_create\<close>, \<open>chat_on_recv\<close>, the
  plugin container of the chat), which are parameters: they may call back into the operations below. So are the
  clock, \<open>rand\<close> and the library's pool, its hash function and its search by hash. References are
  not counted: \<open>OPPREF\<close> and \<open>OPPUNREF\<close> of a session are left out.
\<close>

section \<open>State\<close>

definition NGINZ_MAX_WEBCHAT_MSG_SIZE :: nat where "NGINZ_MAX_WEBCHAT_MSG_SIZE = 1024"
definition NGINZ_MAX_WEBCHAT_SID_SIZE :: nat where "NGINZ_MAX_WEBCHAT_SID_SIZE = 32"

record web_session_connection =
  ws_strm :: streamio
  ws_sid :: aroop_txt_t
  ws_msg :: aroop_txt_t
  last_activity :: int
  ws_hash :: "32 word"

record 'c web_state =
  sessions :: "nat \<Rightarrow> web_session_connection"
  web_session_factory :: "nat list"
  session_gear :: nat
  chat_side :: 'c

type_synonym 'c web_world = "'c web_state http_world"

record 'c web_env =
  web_http :: "'c web_state http_env"
  web_getpid :: "32 word"
  web_time :: int
  web_rand :: "'c \<Rightarrow> int \<times> 'c"
  session_pool_alloc :: "nat list \<Rightarrow> nat"
  session_pool_add :: "nat \<Rightarrow> nat list \<Rightarrow> nat list"
  aroop_txt_get_hash :: "aroop_txt_t \<Rightarrow> 32 word"
  session_opp_search :: "32 word \<Rightarrow> (nat \<times> 32 word) list \<Rightarrow> nat option"
  chat_kind :: "'c web_world stream_kind"
  chat_on_create :: "int \<Rightarrow> 'c web_world \<Rightarrow> nat option \<times> 'c web_world"
  chat_set_request :: "nat \<Rightarrow> aroop_txt_t option \<Rightarrow> 'c web_world \<Rightarrow> 'c web_world"
  chat_on_recv :: "nat \<Rightarrow> aroop_txt_t \<Rightarrow> 'c web_world \<Rightarrow> 'c web_world exec"
  chat_bridge_call :: "aroop_txt_t \<Rightarrow> int \<Rightarrow> nat \<Rightarrow> 'c web_world \<Rightarrow> (32 word \<times> 'c web_world) exec"

abbreviation web_lib :: "'c web_env \<Rightarrow> aroop" where
  "web_lib E \<equiv> http_lib (web_http E)"

definition upd_web :: "('c web_state \<Rightarrow> 'c web_state) \<Rightarrow> 'c web_world \<Rightarrow> 'c web_world" where
  "upd_web f w = w\<lparr>http_outside := f (http_outside w)\<rparr>"

definition session :: "nat \<Rightarrow> 'c web_world \<Rightarrow> web_session_connection" where
  "session s w = sessions (http_outside w) s"

definition upd_session :: "nat \<Rightarrow> (web_session_connection \<Rightarrow> web_session_connection) \<Rightarrow> 'c web_world \<Rightarrow> 'c web_world" where
  "upd_session s f w = upd_web (\<lambda>o1. o1\<lparr>sessions := (sessions o1)(s := f (sessions o1 s))\<rparr>) w"

section \<open>Streams above a session\<close>

text \<open>Moving the HTTP connection to another process together with the command for it. \<open>CHAT_SOFT_QUIT\<close> and
  \<open>HTTP_SOFT_QUIT\<close> are the same bit.\<close>

definition http_transfer ::
    "'c web_env \<Rightarrow> nat \<Rightarrow> 32 word \<Rightarrow> 32 word \<Rightarrow> aroop_txt_t \<Rightarrow> 'c web_world \<Rightarrow> (int \<times> 'c web_world) exec" where
  "http_transfer E c destpid port cmd w =
     ebind (default_transfer_parallel (web_lib E) (http_streams (web_http E)) (http_strm (https w c)) destpid port cmd (http_outside w))
       (\<lambda>(ret, o'). Inr (ret, w\<lparr>http_outside := o'\<rparr>))"

definition HTTP_WEB_SESSION_TRANSFER_WRAPPER :: bytes where
  "HTTP_WEB_SESSION_TRANSFER_WRAPPER = lit ''http/_web_session_transfer''"

definition web_session_transfer_parallel ::
    "'c web_env \<Rightarrow> nat \<Rightarrow> 32 word \<Rightarrow> 32 word \<Rightarrow> aroop_txt_t \<Rightarrow> 'c web_world \<Rightarrow> (int \<times> 'c web_world) exec" where
  "web_session_transfer_parallel E c destpid proto_port cmd w =
     (let A = web_lib E;
          cmdlen = t_len cmd + (length HTTP_WEB_SESSION_TRANSFER_WRAPPER + 1) + 4;
          cmd1 = aroop_txt_concat_string A (aroop_txt_stackbuffer A cmdlen) HTTP_WEB_SESSION_TRANSFER_WRAPPER;
          wrapper_cmd = aroop_txt_concat A (aroop_txt_concat_char A cmd1 32) cmd
      in ebind (http_transfer E c destpid NGINZ_HTTP_PORT wrapper_cmd w) (\<lambda>(ret, w1).
         Inr (ret, upd_http c (\<lambda>x. x\<lparr>http_state := http_state x OR HTTP_SOFT_QUIT\<rparr>) w1)))"

text \<open>The stream above a session is an HTTP connection: its \<open>send\<close> is the tunnel, its \<open>close\<close> is
  \<open>default_http_close\<close>.\<close>

definition session_streams :: "'c web_env \<Rightarrow> 'c web_world stream_env" where
  "session_streams E =
     (let V = http_streams (web_http E) in
      \<lparr>up_send = (\<lambda>u content fl. http_tunnel_send_content (web_http E) u (Some content) fl),
       up_close = default_http_close (web_http E),
       up_transfer = (\<lambda>u destpid port cmd w.
         (case transfer_method (http_strm (https w u)) of
            Overridden _ \<Rightarrow> web_session_transfer_parallel E u destpid port cmd w
          | _ \<Rightarrow> http_transfer E u destpid port cmd w)),
       sys_send = (\<lambda>f bs fl w. case sys_send V f bs fl (http_outside w) of (r, e, o') \<Rightarrow> (r, e, w\<lparr>http_outside := o'\<rparr>)),
       sys_close = (\<lambda>f w. w\<lparr>http_outside := sys_close V f (http_outside w)\<rparr>),
       loop_unregister = (\<lambda>f w. w\<lparr>http_outside := loop_unregister V f (http_outside w)\<rparr>),
       raw_send_socket = (\<lambda>dest f bin w. case raw_send_socket V dest f bin (http_outside w) of (r, o') \<Rightarrow> (r, w\<lparr>http_outside := o'\<rparr>))\<rparr>)"

definition session_send :: "'c web_env \<Rightarrow> nat \<Rightarrow> aroop_txt_t \<Rightarrow> int \<Rightarrow> 'c web_world \<Rightarrow> 'c web_world" where
  "session_send E s content flag w =
     (case default_streamio_send (session_streams E) (ws_strm (session s w)) content flag w of (_, _, w') \<Rightarrow> w')"

section \<open>Operations of a session\<close>

definition web_session_close_wrapper :: "'c web_env \<Rightarrow> nat \<Rightarrow> 'c web_world \<Rightarrow> int \<times> 'c web_world" where
  "web_session_close_wrapper E s w =
     (let w1 = upd_session s (\<lambda>x. x\<lparr>last_activity := 0, ws_sid := aroop_txt_static_string (web_lib E) (lit ''invalid'')\<rparr>) w
      in (case default_streamio_close (session_streams E) (ws_strm (session s w1)) w1 of
            (ret, x, w2) \<Rightarrow> (ret, upd_session s (ws_strm_update (\<lambda>_. x)) w2)))"

definition session_kind :: "'c web_env \<Rightarrow> 'c web_world stream_kind" where
  "session_kind E = \<lparr>kget = (\<lambda>s w. ws_strm (session s w)), kput = (\<lambda>s x. upd_session s (ws_strm_update (\<lambda>_. x))),
     kclose = (\<lambda>s w. snd (web_session_close_wrapper E s w))\<rparr>"

definition web_session_send_wrapper :: "'c web_env \<Rightarrow> nat \<Rightarrow> aroop_txt_t option \<Rightarrow> int \<Rightarrow> 'c web_world \<Rightarrow> int \<times> 'c web_world" where
  "web_session_send_wrapper E s content flags w =
     (let A = web_lib E;
          m0 = (if t_cap (ws_msg (session s w)) < NGINZ_MAX_WEBCHAT_MSG_SIZE
                then aroop_txt_buffer A NGINZ_MAX_WEBCHAT_MSG_SIZE else ws_msg (session s w));
          w0 = upd_session s (ws_msg_update (\<lambda>_. m0)) w
      in if t_cap m0 < NGINZ_MAX_WEBCHAT_MSG_SIZE then (-1, w0)
         else
           let m1 = (if t_len m0 = 0 then aroop_txt_concat_char A (aroop_txt_concat A m0 (ws_sid (session s w0))) 10 else m0);
               m2 = (case content of
                       None \<Rightarrow> m1
                     | Some x \<Rightarrow> if t_len x = 0 then m1 else aroop_txt_concat A m1 x);
               w1 = upd_session s (ws_msg_update (\<lambda>_. m2)) w0
           in (0, if t_len m2 \<noteq> 0 \<and> flags AND MSG_MORE = 0 \<and> bubble_up (ws_strm (session s w1)) \<noteq> None
                  then upd_session s (ws_msg_update (\<lambda>m. aroop_txt_set_length A m 0)) (session_send E s m2 0 w1)
                  else w1))"

section \<open>The pool of sessions\<close>

definition web_session_initialize :: "int \<Rightarrow> web_session_connection \<Rightarrow> web_session_connection" where
  "web_session_initialize t x =
     x\<lparr>ws_sid := zero_txt, ws_msg := zero_txt,
       ws_strm := (streamio_initialize (ws_strm x))\<lparr>send_method := Overridden 3, close_method := Overridden 3\<rparr>,
       last_activity := t\<rparr>"

definition web_session_finalize :: "'c web_env \<Rightarrow> nat \<Rightarrow> 'c web_world \<Rightarrow> 'c web_world" where
  "web_session_finalize E s w =
     (let A = web_lib E; w1 = snd (streamio_finalize A (session_kind E) s w)
      in upd_session s (\<lambda>x. x\<lparr>ws_sid := aroop_txt_destroy A (ws_sid x), ws_msg := aroop_txt_destroy A (ws_msg x)\<rparr>) w1)"

definition session_name :: "32 word \<Rightarrow> int \<Rightarrow> bytes" where
  "session_name pid r = dec_int (sint pid) @ 45 # dec_int r"

definition new_session_id :: "aroop \<Rightarrow> 32 word \<Rightarrow> int \<Rightarrow> aroop_txt_t" where
  "new_session_id A pid r =
     aroop_txt_concat_string A (aroop_txt_buffer A NGINZ_MAX_WEBCHAT_SID_SIZE) (session_name pid r)"

definition web_session_alloc :: "'c web_env \<Rightarrow> int \<Rightarrow> aroop_txt_t option \<Rightarrow> 'c web_world \<Rightarrow> nat option \<times> 'c web_world" where
  "web_session_alloc E f given w =
     (let A = web_lib E;
          s = session_pool_alloc E (web_session_factory (http_outside w));
          w1 = upd_web (\<lambda>o1. o1\<lparr>web_session_factory := session_pool_add E s (web_session_factory o1)\<rparr>) w;
          w2 = upd_session s (\<lambda>x. ws_strm_update (strm_fd_update (\<lambda>_. f)) (web_session_initialize (web_time E) x)) w1;
          w3 = (case given of
                  None \<Rightarrow>
                    (case web_rand E (chat_side (http_outside w2)) of (r, c') \<Rightarrow>
                       upd_session s (ws_sid_update (\<lambda>_. new_session_id A (web_getpid E) r))
                         (upd_web (\<lambda>o1. o1\<lparr>chat_side := c'\<rparr>) w2))
                | Some x \<Rightarrow> upd_session s (ws_sid_update (\<lambda>_. aroop_txt_copy_deep A x)) w2);
          w4 = upd_session s (\<lambda>x. x\<lparr>ws_hash := aroop_txt_get_hash E (ws_sid x)\<rparr>) w3
      in (case chat_on_create E f w4 of
            (None, w5) \<Rightarrow> (None, snd (web_session_close_wrapper E s w5))
          | (Some chat, w5) \<Rightarrow> (Some s, snd (streamio_chain (session_kind E) (chat_kind E) s chat w5))))"

definition web_session_search :: "'c web_env \<Rightarrow> aroop_txt_t \<Rightarrow> 'c web_world \<Rightarrow> nat option" where
  "web_session_search E x w =
     session_opp_search E (aroop_txt_get_hash E x)
       (map (\<lambda>s. (s, ws_hash (session s w))) (web_session_factory (http_outside w)))"

fun session_close_loop :: "'c web_env \<Rightarrow> nat list \<Rightarrow> 'c web_world \<Rightarrow> 'c web_world" where
  "session_close_loop E [] w = w"
| "session_close_loop E (s # ss) w = session_close_loop E ss (snd (web_session_close_wrapper E s w))"

definition web_session_factory_on_softquit :: "'c web_env \<Rightarrow> 'c web_world \<Rightarrow> int \<times> 'c web_world" where
  "web_session_factory_on_softquit E w = (0, session_close_loop E (web_session_factory (http_outside w)) w)"

fun session_sweep_loop :: "'c web_env \<Rightarrow> int \<Rightarrow> nat list \<Rightarrow> 'c web_world \<Rightarrow> 'c web_world" where
  "session_sweep_loop E t [] w = w"
| "session_sweep_loop E t (s # ss) w =
     (if t - last_activity (session s w) < 120 then session_sweep_loop E t ss w
      else session_sweep_loop E t ss (snd (web_session_close_wrapper E s w)))"

definition web_session_cleanup_fiber :: "'c web_env \<Rightarrow> 'c web_world \<Rightarrow> int \<times> 'c web_world" where
  "web_session_cleanup_fiber E w =
     (let w1 = (if session_gear (http_outside w) = 1000
                then session_sweep_loop E (web_time E) (web_session_factory (http_outside w))
                       (upd_web (session_gear_update (\<lambda>_. 0)) w)
                else w)
      in (0, upd_web (session_gear_update Suc) w1))"

section \<open>Independence of the parts of the state\<close>

lemma session_frames [simp]:
  "session s (upd_session s g w) = g (session s w)"
  "s' \<noteq> s \<Longrightarrow> session s' (upd_session s g w) = session s' w"
  "https (upd_web g1 w) = https w" "send_buf (upd_web g1 w) = send_buf w" "https (upd_session s g w) = https w" "send_buf (upd_session s g w) = send_buf w"
  "session s (upd_http c h w) = session s w" "http_outside (upd_http c h w) = http_outside w"
  "send_buf (upd_http c h w) = send_buf w" "https (upd_http c h w) = (https w)(c := h (https w c))"
  "chat_side (http_outside (upd_session s g w)) = chat_side (http_outside w)"
  "web_session_factory (http_outside (upd_session s g w)) = web_session_factory (http_outside w)"
  "upd_session s g (upd_session s g' w) = upd_session s (g \<circ> g') w"
  "upd_http c h (upd_http c h' w) = upd_http c (h \<circ> h') w"
  by (simp_all add: session_def upd_session_def upd_web_def upd_http_def)

lemma session_commute: "upd_session s g (upd_http c h w) = upd_http c h (upd_session s g w)"
  by (simp add: upd_session_def upd_web_def upd_http_def)

lemma upd_ident [simp]: "upd_http c (\<lambda>x. x) w = w" "upd_session s (\<lambda>x. x) w = w"
  by (simp_all add: upd_session_def upd_web_def upd_http_def)

lemma open_http_session [simp]: "open_http c (upd_session s g w) f \<longleftrightarrow> open_http c w f"
  by (simp add: open_http_def)

interpretation hs: stream_kinds "http_kind H" "session_kind E"
  for H :: "'c web_state http_env" and E :: "'c web_env"
  by unfold_locales
    (simp_all add: http_kind_def session_kind_def session_def upd_session_def upd_web_def upd_http_def)

section \<open>The cache of a session\<close>

text \<open>The answers of the chat to a session, one after the other.\<close>

definition session_sends :: "'c web_env \<Rightarrow> nat \<Rightarrow> (aroop_txt_t \<times> int) list \<Rightarrow> 'c web_world \<Rightarrow> 'c web_world" where
  "session_sends E s xs w = fold (\<lambda>(x, fl) w. snd (web_session_send_wrapper E s (Some x) fl w)) xs w"

definition cache_holds :: "aroop_txt_t \<Rightarrow> bytes \<Rightarrow> bool" where
  "cache_holds m bs \<longleftrightarrow> wf_txt m \<and> str m = bs \<and> (bs \<noteq> [] \<longrightarrow> NGINZ_MAX_WEBCHAT_MSG_SIZE \<le> t_cap m)"

text \<open>What a send makes of the cache before it looks for a connection.\<close>

lemma send_fills_cache:
  assumes "aroop_ok (web_lib E)" and "cache_holds (ws_msg (session s w)) bs" and "wf_txt (ws_sid (session s w))" and "wf_txt x"
    and "length (if bs = [] then str (ws_sid (session s w)) @ [10] else bs) + t_len x \<le> NGINZ_MAX_WEBCHAT_MSG_SIZE"
  shows "\<exists>m. cache_holds m ((if bs = [] then str (ws_sid (session s w)) @ [10] else bs) @ str x) \<and>
    web_session_send_wrapper E s (Some x) fl w =
      (let w1 = upd_session s (ws_msg_update (\<lambda>_. m)) w
       in (0, if fl AND MSG_MORE = 0 \<and> bubble_up (ws_strm (session s w)) \<noteq> None
              then upd_session s (ws_msg_update (\<lambda>m. aroop_txt_set_length (web_lib E) m 0)) (session_send E s m 0 w1)
              else w1))"
proof -
  let ?A = "web_lib E" and ?x = "session s w" and ?N = "NGINZ_MAX_WEBCHAT_MSG_SIZE"
  let ?m0 = "if t_cap (ws_msg ?x) < ?N then aroop_txt_buffer ?A ?N else ws_msg ?x"
  have m0: "built ?N ?m0 bs"
    using assms(2) buffer_laws(1,2) [OF assms(1), of ?N] buffer_cap(1) [OF assms(1), of ?N]
    by (auto simp: built_def cache_holds_def str_def)
  have len0: "t_len ?m0 = length bs" by (rule built_len [OF m0])
  let ?m1 = "if bs = [] then aroop_txt_concat_char ?A (aroop_txt_concat ?A ?m0 (ws_sid ?x)) 10 else ?m0"
  let ?b1 = "if bs = [] then str (ws_sid ?x) @ [10] else bs"
  have ls: "t_len (ws_sid ?x) = length (str (ws_sid ?x))" using length_str [OF assms(3)] by simp
  have "built ?N (aroop_txt_concat_char ?A (aroop_txt_concat ?A ?m0 (ws_sid ?x)) 10) ((bs @ str (ws_sid ?x)) @ [10])" if "bs = []"
    by (rule built_char [OF assms(1) built_concat [OF assms(1) m0 assms(3)]]) (use assms(5) ls that in simp_all)
  then have m1: "built ?N ?m1 ?b1" using m0 by (cases "bs = []") (simp_all split del: if_split)
  let ?m2 = "if t_len x = 0 then ?m1 else aroop_txt_concat ?A ?m1 x"
  have lb: "length ?b1 + t_len x \<le> ?N" using assms(5) .
  have m2: "built ?N ?m2 (?b1 @ str x)"
    using m1 built_concat [OF assms(1) m1 assms(4) lb] by (simp add: str_def)
  have ne: "?b1 @ str x \<noteq> []" by simp
  have len2: "t_len ?m2 \<noteq> 0" using built_len [OF m2] ne by (metis length_0_conv)
  have "t_cap ?m0 \<ge> ?N" using m0 by (simp add: built_def)
  then have "web_session_send_wrapper E s (Some x) fl w =
      (let w1 = upd_session s (ws_msg_update (\<lambda>_. ?m2)) w
       in (0, if fl AND MSG_MORE = 0 \<and> bubble_up (ws_strm (session s w)) \<noteq> None
              then upd_session s (ws_msg_update (\<lambda>m. aroop_txt_set_length ?A m 0)) (session_send E s ?m2 0 w1)
              else w1))"
    using len0 len2 by (simp add: web_session_send_wrapper_def Let_def comp_def cong: if_cong)
  moreover have "cache_holds ?m2 (?b1 @ str x)" using m2 by (simp add: cache_holds_def built_def)
  ultimately show ?thesis by blast
qed

lemma sends_kept:
  assumes "aroop_ok (web_lib E)"
  shows "wf_txt (ws_sid (session s w)) \<Longrightarrow> bubble_up (ws_strm (session s w)) = None \<or> (\<forall>(x, fl) \<in> set xs. fl AND MSG_MORE \<noteq> 0) \<Longrightarrow>
    (\<forall>(x, fl) \<in> set xs. wf_txt x) \<Longrightarrow>
    cache_holds (ws_msg (session s w)) bs \<Longrightarrow>
    length (if bs = [] then str (ws_sid (session s w)) @ [10] else bs) + length (concat (map (str \<circ> fst) xs)) \<le> NGINZ_MAX_WEBCHAT_MSG_SIZE \<Longrightarrow>
    \<exists>m. session_sends E s xs w = upd_session s (ws_msg_update (\<lambda>_. m)) w \<and>
      cache_holds m ((if bs = [] \<and> xs \<noteq> [] then str (ws_sid (session s w)) @ [10] else bs) @ concat (map (str \<circ> fst) xs))"
proof (induction xs arbitrary: w bs)
  case Nil
  have "upd_session s (ws_msg_update (\<lambda>_. ws_msg (session s w))) w = w"
    by (simp add: upd_session_def upd_web_def session_def)
  then show ?case using Nil.prems(4) by (intro exI [of _ "ws_msg (session s w)"]) (simp add: session_sends_def)
next
  case (Cons y xs)
  obtain x fl where y: "y = (x, fl)" by (cases y)
  have x: "wf_txt x" and xs: "\<forall>(x, fl) \<in> set xs. wf_txt x" using Cons.prems(3) y by auto
  let ?sid = "str (ws_sid (session s w))"
  let ?b1 = "(if bs = [] then ?sid @ [10] else bs) @ str x"
  have "length (if bs = [] then ?sid @ [10] else bs) + t_len x \<le> NGINZ_MAX_WEBCHAT_MSG_SIZE"
    using Cons.prems(5) length_str [OF x] y by simp
  from send_fills_cache [where fl = fl, OF assms Cons.prems(4,1) x this]
  obtain m where m: "cache_holds m ?b1"
    "web_session_send_wrapper E s (Some x) fl w = (0, upd_session s (ws_msg_update (\<lambda>_. m)) w)"
    using Cons.prems(2) y by (auto simp: Let_def)
  let ?w1 = "upd_session s (ws_msg_update (\<lambda>_. m)) w"
  have ne: "?b1 \<noteq> []" by simp
  have le: "length (if ?b1 = [] then str (ws_sid (session s ?w1)) @ [10] else ?b1) + length (concat (map (str \<circ> fst) xs)) \<le> NGINZ_MAX_WEBCHAT_MSG_SIZE"
    using Cons.prems(5) y by (cases "bs = []") (simp_all add: comp_def)
  have p: "wf_txt (ws_sid (session s ?w1))" "bubble_up (ws_strm (session s ?w1)) = None \<or> (\<forall>(x, fl) \<in> set xs. fl AND MSG_MORE \<noteq> 0)" "cache_holds (ws_msg (session s ?w1)) ?b1"
    using Cons.prems(1,2) m(1) by (auto split del: if_split)
  note ih = Cons.IH [OF p(1,2) xs p(3) le]
  have "(if ?b1 = [] \<and> xs \<noteq> [] then str (ws_sid (session s ?w1)) @ [10] else ?b1) = ?b1" by (cases "bs = []") simp_all
  with ih obtain m' where
    m': "session_sends E s xs ?w1 = upd_session s (ws_msg_update (\<lambda>_. m')) ?w1" "cache_holds m' (?b1 @ concat (map (str \<circ> fst) xs))"
    by (simp only:) blast
  have "session_sends E s (y # xs) w = upd_session s (ws_msg_update (\<lambda>_. m')) w"
    using m'(1) m(2) y by (simp add: session_sends_def comp_def)
  moreover have "cache_holds m' ((if bs = [] \<and> y # xs \<noteq> [] then ?sid @ [10] else bs) @ concat (map (str \<circ> fst) (y # xs)))"
    using m'(2) y by simp
  ultimately show ?case by blast
qed

lemma sends_append: "session_sends E s (xs @ ys) w = session_sends E s ys (session_sends E s xs w)"
  by (simp add: session_sends_def)

text \<open>Messages of which only the last may be without \<open>MSG_MORE\<close> become at most one reply.\<close>

definition one_burst :: "(aroop_txt_t \<times> int) list \<Rightarrow> bool" where
  "one_burst ys \<longleftrightarrow> (\<forall>(x, fl) \<in> set (butlast ys). fl AND MSG_MORE \<noteq> 0)"

lemma sends_burst:
  assumes A: "aroop_ok (web_lib E)" and sid: "wf_txt (ws_sid (session s w))" and up: "bubble_up (ws_strm (session s w)) = Some c"
    and ys: "\<forall>(x, fl) \<in> set ys. wf_txt x" "one_burst ys" and bs: "cache_holds (ws_msg (session s w)) bs"
    and len: "length (if bs = [] then str (ws_sid (session s w)) @ [10] else bs) + length (concat (map (str \<circ> fst) ys)) \<le> NGINZ_MAX_WEBCHAT_MSG_SIZE"
  shows "\<exists>m. cache_holds m ((if bs = [] \<and> ys \<noteq> [] then str (ws_sid (session s w)) @ [10] else bs) @ concat (map (str \<circ> fst) ys)) \<and>
    (session_sends E s ys w = upd_session s (ws_msg_update (\<lambda>_. m)) w \<or>
     ys \<noteq> [] \<and> session_sends E s ys w =
       upd_session s (ws_msg_update (\<lambda>m. aroop_txt_set_length (web_lib E) m 0)) (session_send E s m 0 (upd_session s (ws_msg_update (\<lambda>_. m)) w)))"
proof (cases "\<forall>(x, fl) \<in> set ys. fl AND MSG_MORE \<noteq> 0")
  case True
  show ?thesis using sends_kept [OF A sid _ ys(1) bs len] True by blast
next
  case False
  then have ne: "ys \<noteq> []" by auto
  obtain x fl where l: "last ys = (x, fl)" by (cases "last ys")
  let ?zs = "butlast ys" and ?sid = "str (ws_sid (session s w))"
  have y: "ys = ?zs @ [(x, fl)]" using ne l by (metis append_butlast_last_id)
  have wf: "\<forall>(x, fl) \<in> set ?zs. wf_txt x" "wf_txt x" using ys(1) by (subst (asm) y; simp)+
  have more: "\<forall>(x, fl) \<in> set ?zs. fl AND MSG_MORE \<noteq> 0" using ys(2) by (simp add: one_burst_def)
  then have fl: "fl AND MSG_MORE = 0" using False by (subst (asm) y) auto
  have cc: "concat (map (str \<circ> fst) ys) = concat (map (str \<circ> fst) ?zs) @ str x" by (subst y) simp
  let ?b0 = "(if bs = [] \<and> ?zs \<noteq> [] then ?sid @ [10] else bs) @ concat (map (str \<circ> fst) ?zs)"
  have "length (if bs = [] then ?sid @ [10] else bs) + length (concat (map (str \<circ> fst) ?zs)) \<le> NGINZ_MAX_WEBCHAT_MSG_SIZE"
    using len by (simp only: cc length_append)
  with sends_kept [OF A sid _ wf(1) bs] more obtain m0 where
    m0: "session_sends E s ?zs w = upd_session s (ws_msg_update (\<lambda>_. m0)) w" "cache_holds m0 ?b0" by blast
  let ?w0 = "upd_session s (ws_msg_update (\<lambda>_. m0)) w"
  have p: "cache_holds (ws_msg (session s ?w0)) ?b0" "wf_txt (ws_sid (session s ?w0))" "bubble_up (ws_strm (session s ?w0)) = Some c"
    "ws_sid (session s ?w0) = ws_sid (session s w)"
    using m0(2) sid up by (simp_all split del: if_split)
  let ?b1 = "(if bs = [] \<and> ys \<noteq> [] then ?sid @ [10] else bs) @ concat (map (str \<circ> fst) ys)"
  have b1: "(if ?b0 = [] then ?sid @ [10] else ?b0) @ str x = ?b1" using ne by (cases "bs = []"; cases "?zs = []") (simp_all add: cc)
  have "length (if ?b0 = [] then ?sid @ [10] else ?b0) + t_len x \<le> NGINZ_MAX_WEBCHAT_MSG_SIZE"
    using len length_str [OF wf(2)] ne by (cases "bs = []"; cases "?zs = []") (simp_all add: cc)
  from send_fills_cache [where fl = fl, OF A p(1,2) wf(2)] this obtain m where
    m: "cache_holds m ?b1" "web_session_send_wrapper E s (Some x) fl ?w0 =
      (0, upd_session s (ws_msg_update (\<lambda>m. aroop_txt_set_length (web_lib E) m 0)) (session_send E s m 0 (upd_session s (ws_msg_update (\<lambda>_. m)) ?w0)))"
    unfolding p(4) b1 using fl p(3) by (auto simp: Let_def)
  have "session_sends E s ys w = snd (web_session_send_wrapper E s (Some x) fl (session_sends E s ?zs w))"
    by (subst y, simp add: sends_append) (simp add: session_sends_def)
  also have "\<dots> = upd_session s (ws_msg_update (\<lambda>m. aroop_txt_set_length (web_lib E) m 0)) (session_send E s m 0 (upd_session s (ws_msg_update (\<lambda>_. m)) w))"
    by (simp add: m0(1) m(2)) (simp add: comp_def)
  finally show ?thesis using m(1) ne by blast
qed

text \<open>\<open>send\<close> takes whole messages and concerns only the system.\<close>

definition web_writes :: "'c web_env \<Rightarrow> (int \<Rightarrow> bytes \<Rightarrow> int \<Rightarrow> 'c \<Rightarrow> 'c) \<Rightarrow> bool" where
  "web_writes E wr \<longleftrightarrow>
     sends_whole (http_streams (web_http E)) (\<lambda>f bs fl o1. o1\<lparr>chat_side := wr f bs fl (chat_side o1)\<rparr>)"

definition wrote :: "(int \<Rightarrow> bytes \<Rightarrow> int \<Rightarrow> 'c \<Rightarrow> 'c) \<Rightarrow> int \<Rightarrow> (bytes \<times> int) list \<Rightarrow> 'c web_world \<Rightarrow> 'c web_world" where
  "wrote wr f sent w = upd_web (\<lambda>o1. o1\<lparr>chat_side := fold (\<lambda>(bs, fl). wr f bs fl) sent (chat_side o1)\<rparr>) w"

lemma fold_chat_side:
  "fold (\<lambda>(bs, fl) o1. o1\<lparr>chat_side := wr f bs fl (chat_side o1)\<rparr>) sent o1 =
     o1\<lparr>chat_side := fold (\<lambda>(bs, fl). wr f bs fl) sent (chat_side o1)\<rparr>"
  by (induction sent arbitrary: o1) auto

lemma wrote_frames [simp]:
  "session s (wrote wr f sent w) = session s w" "https (wrote wr f sent w) = https w"
  "chat_side (http_outside (wrote wr f sent w)) = fold (\<lambda>(bs, fl). wr f bs fl) sent (chat_side (http_outside w))"
  by (simp_all add: wrote_def upd_web_def session_def)

lemma chat_frames [simp]:
  "session s (upd_web (chat_side_update g) w) = session s w" "chat_side (http_outside (upd_web (chat_side_update g) w)) = g (chat_side (http_outside w))"
  "session s (w\<lparr>send_buf := b\<rparr>) = session s w"
  by (simp_all add: upd_web_def session_def)

lemma open_http_chat [simp]: "open_http c (upd_web (chat_side_update g) w) f \<longleftrightarrow> open_http c w f"
  by (simp add: open_http_def)

lemma session_inward:
  "wrote wr f sent (upd_session s h w) = upd_session s h (wrote wr f sent w)"
  "upd_session s h w\<lparr>send_buf := b\<rparr> = upd_session s h (w\<lparr>send_buf := b\<rparr>)"
  by (simp_all add: wrote_def upd_session_def upd_web_def)

lemma upd_session_const:
  "upd_session s (ws_msg_update h) w = upd_session s (ws_msg_update (\<lambda>_. h (ws_msg (session s w)))) w"
proof -
  have "ws_msg_update h x = x\<lparr>ws_msg := h (ws_msg x)\<rparr>" for x :: web_session_connection by (cases x) simp
  then show ?thesis by (simp only: upd_session_def upd_web_def session_def)
qed

text \<open>What a session with a connection above it sends is one reply on that connection.\<close>

lemma session_delivers:
  assumes "aroop_ok (web_lib E)" and "web_writes E wr" and "bubble_up (ws_strm (session s w)) = Some c" and "open_http c w f"
    and "wf_txt m" and "t_len m < 10 ^ 9" and "NGINZ_MAX_HTTP_MSG_SIZE \<le> t_cap (send_buf w)"
  shows "\<exists>sent buf. session_send E s m fl w = upd_http c (is_processed_update (\<lambda>_. True)) (wrote wr f sent (w\<lparr>send_buf := buf\<rparr>)) \<and>
    concat (map fst sent) = reply_text (str m)"
proof -
  from tunnel_reply [OF assms(1) assms(2) [unfolded web_writes_def] assms(4-7)]
  obtain sent buf where t: "http_tunnel_send_content (web_http E) c (Some m) fl w = (0, upd_http c (is_processed_update (\<lambda>_. True))
      (w\<lparr>send_buf := buf, http_outside := fold (\<lambda>(bs, fl) o1. o1\<lparr>chat_side := wr f bs fl (chat_side o1)\<rparr>) sent (http_outside w)\<rparr>))"
    "concat (map fst sent) = reply_text (str m)" by blast
  from t(1) have "session_send E s m fl w = upd_http c (is_processed_update (\<lambda>_. True)) (wrote wr f sent (w\<lparr>send_buf := buf\<rparr>))"
    using assms(3)
    by (simp add: session_send_def default_streamio_send_def session_streams_def Let_def fold_chat_side wrote_def upd_web_def)
  with t(2) show ?thesis by blast
qed

lemma search_frames [simp]:
  "web_session_search E x (upd_http c h w) = web_session_search E x w"
  "(\<And>y. ws_hash (g y) = ws_hash y) \<Longrightarrow> web_session_search E x (upd_session s g w) = web_session_search E x w"
proof -
  show "web_session_search E x (upd_http c h w) = web_session_search E x w" by (simp add: web_session_search_def)
  assume h: "\<And>y. ws_hash (g y) = ws_hash y"
  have "ws_hash (session s' (upd_session s g w)) = ws_hash (session s' w)" for s'
    by (cases "s' = s") (simp_all add: h)
  then show "web_session_search E x (upd_session s g w) = web_session_search E x w" by (simp add: web_session_search_def)
qed

section \<open>Closing and cleaning up\<close>

text \<open>Closing a descriptor concerns only the system.\<close>

definition web_closes :: "'c web_env \<Rightarrow> (int \<Rightarrow> 'c \<Rightarrow> 'c) \<Rightarrow> (int \<Rightarrow> 'c \<Rightarrow> 'c) \<Rightarrow> bool" where
  "web_closes E un cl \<longleftrightarrow>
     (\<forall>f o1. loop_unregister (http_streams (web_http E)) f o1 = o1\<lparr>chat_side := un f (chat_side o1)\<rparr>) \<and>
     (\<forall>f o1. sys_close (http_streams (web_http E)) f o1 = o1\<lparr>chat_side := cl f (chat_side o1)\<rparr>)"

definition closed_session :: "'c web_env \<Rightarrow> web_session_connection \<Rightarrow> web_session_connection" where
  "closed_session E x = x\<lparr>last_activity := 0, ws_sid := aroop_txt_static_string (web_lib E) (lit ''invalid''),
     ws_strm := (ws_strm x)\<lparr>strm_fd := INVALID_FD\<rparr>\<rparr>"

definition close_fd :: "(int \<Rightarrow> 'c \<Rightarrow> 'c) \<Rightarrow> (int \<Rightarrow> 'c \<Rightarrow> 'c) \<Rightarrow> int \<Rightarrow> 'c \<Rightarrow> 'c" where
  "close_fd un cl f x = (if f = INVALID_FD then x else cl f (un f x))"

lemma close_detached:
  assumes "web_closes E un cl" and "bubble_up (ws_strm (session s w)) = None"
  shows "web_session_close_wrapper E s w = (0, upd_session s (closed_session E)
    (upd_web (\<lambda>o1. o1\<lparr>chat_side := close_fd un cl (strm_fd (ws_strm (session s w))) (chat_side o1)\<rparr>) w))"
proof -
  have c: "x\<lparr>strm_fd := INVALID_FD\<rparr> = x" if "strm_fd x = INVALID_FD" for x :: streamio using that by (cases x) simp
  have b: "(ws_strm (session s w))\<lparr>bubble_up := None\<rparr> = ws_strm (session s w)" using assms(2) by (rule bubble_up_none)
  show ?thesis
    using assms b
    by (auto simp: web_session_close_wrapper_def default_streamio_close_def session_streams_def Let_def web_closes_def)
      (simp_all add: upd_session_def upd_web_def session_def closed_session_def close_fd_def c b [unfolded session_def])
qed

lemma chat_side_frames [simp]:
  "session s (upd_web (\<lambda>o1. o1\<lparr>chat_side := h (chat_side o1)\<rparr>) w) = session s w"
  "chat_side (http_outside (upd_web (\<lambda>o1. o1\<lparr>chat_side := h (chat_side o1)\<rparr>) w)) = h (chat_side (http_outside w))"
  by (simp_all add: session_def upd_web_def)

lemma sweep_loop_effect:
  assumes "web_closes E un cl"
  shows "distinct ss \<Longrightarrow> \<forall>s \<in> set ss. bubble_up (ws_strm (session s w)) = None \<Longrightarrow>
    (let old = filter (\<lambda>s. 120 \<le> t - last_activity (session s w)) ss; w' = session_sweep_loop E t ss w
     in chat_side (http_outside w') = fold (close_fd un cl) (map (\<lambda>s. strm_fd (ws_strm (session s w))) old) (chat_side (http_outside w)) \<and>
        (\<forall>s. session s w' = (if s \<in> set old then closed_session E (session s w) else session s w)))"
proof (induction ss arbitrary: w)
  case Nil
  then show ?case by simp
next
  case (Cons a ss)
  show ?case
  proof (cases "t - last_activity (session a w) < 120")
    case True
    then show ?thesis using Cons.IH [of w] Cons.prems by (simp add: Let_def)
  next
    case False
    let ?w1 = "snd (web_session_close_wrapper E a w)"
    have a: "bubble_up (ws_strm (session a w)) = None" using Cons.prems(2) by simp
    have other: "session s ?w1 = session s w" if "s \<noteq> a" for s using that by (simp add: close_detached [OF assms a])
    have eq: "\<forall>s \<in> set ss. session s ?w1 = session s w" by (intro ballI other) (use Cons.prems(1) in auto)
    have f: "filter (\<lambda>s. 120 \<le> t - last_activity (session s ?w1)) ss = filter (\<lambda>s. 120 \<le> t - last_activity (session s w)) ss"
      using eq by (auto cong: filter_cong)
    have m: "map (\<lambda>s. strm_fd (ws_strm (session s ?w1))) (filter P ss) = map (\<lambda>s. strm_fd (ws_strm (session s w))) (filter P ss)" for P
      using eq by (auto cong: map_cong)
    have d: "distinct ss" "\<forall>s \<in> set ss. bubble_up (ws_strm (session s ?w1)) = None" using Cons.prems eq by simp_all
    have pt: "session s ?w1 = (if s = a then closed_session E (session a w) else session s w)" for s
      using other by (simp add: close_detached [OF assms a])
    have "chat_side (http_outside ?w1) = close_fd un cl (strm_fd (ws_strm (session a w))) (chat_side (http_outside w))"
      by (simp add: close_detached [OF assms a])
    with Cons.IH [of ?w1, OF d, unfolded Let_def f m] show ?thesis
      using Cons.prems(1) False unfolding Let_def by (auto simp: pt simp del: map_eq_conv)
  qed
qed

text \<open>The cleanup, every 1000 rounds of the fibers, closes exactly the sessions whose \<open>last_activity\<close> lies at least
  120 seconds back.\<close>

lemma cleanup_sweeps:
  assumes "web_closes E un cl" and "distinct (web_session_factory (http_outside w))" and "session_gear (http_outside w) = 1000"
    and "\<forall>s \<in> set (web_session_factory (http_outside w)). bubble_up (ws_strm (session s w)) = None"
  shows "\<exists>w'. web_session_cleanup_fiber E w = (0, w') \<and>
    (let old = filter (\<lambda>s. 120 \<le> web_time E - last_activity (session s w)) (web_session_factory (http_outside w))
     in chat_side (http_outside w') = fold (close_fd un cl) (map (\<lambda>s. strm_fd (ws_strm (session s w))) old) (chat_side (http_outside w)) \<and>
        (\<forall>s. session s w' = (if s \<in> set old then closed_session E (session s w) else session s w)))"
proof -
  let ?w0 = "upd_web (session_gear_update (\<lambda>_. 0)) w"
  have s: "session s ?w0 = session s w" for s by (simp add: session_def upd_web_def)
  have "chat_side (http_outside ?w0) = chat_side (http_outside w)" by (simp add: upd_web_def)
  moreover have "session s (upd_web (session_gear_update Suc) w') = session s w'"
    "chat_side (http_outside (upd_web (session_gear_update Suc) w')) = chat_side (http_outside w')" for s and w' :: "'a web_world"
    by (simp_all add: session_def upd_web_def)
  ultimately show ?thesis
    using sweep_loop_effect [OF assms(1,2), of ?w0 "web_time E"] assms(3,4)
    by (simp add: web_session_cleanup_fiber_def Let_def s)
qed

definition sample_web_env :: "(int \<times> bytes \<times> int) list web_env" where
  "sample_web_env = \<lparr>web_http = \<lparr>http_lib = ref_aroop,
       http_streams = \<lparr>up_send = (\<lambda>_ _ _ o1. (0, o1)), up_close = (\<lambda>_ o1. (0, o1)), up_transfer = (\<lambda>_ _ _ _ o1. Inr (0, o1)),
         sys_send = (\<lambda>f bs fl o1. (int (length bs), 0, o1\<lparr>chat_side := chat_side o1 @ [(f, bs, fl)]\<rparr>)), sys_close = (\<lambda>f o1. o1\<lparr>chat_side := chat_side o1 @ [(f, [], -1)]\<rparr>),
         loop_unregister = (\<lambda>_ o1. o1), raw_send_socket = (\<lambda>_ _ _ o1. (-1, o1))\<rparr>,
       http_pool_alloc = (\<lambda>xs. Suc (sum_list xs)), http_pool_add = (\<lambda>c xs. xs @ [c]), http_loop_register = (\<lambda>_ _ o1. o1),
       set_length_minus_1 = (\<lambda>t. t)\<rparr>,
     web_getpid = 4711, web_time = 1000, web_rand = (\<lambda>c. (815, c)), session_pool_alloc = (\<lambda>xs. Suc (sum_list xs)),
     session_pool_add = (\<lambda>s xs. xs @ [s]), aroop_txt_get_hash = (\<lambda>t. of_nat (sum_list (map unat (str t)))),
     session_opp_search = (\<lambda>h xs. map_option fst (List.find (\<lambda>(s, h'). h' = h) xs)),
     chat_kind = \<lparr>kget = (\<lambda>_ _. streamio_initialize (strms two_streams 0)), kput = (\<lambda>_ _ w. w), kclose = (\<lambda>_ w. w)\<rparr>,
     chat_on_create = (\<lambda>_ w. (Some 9, w)), chat_set_request = (\<lambda>_ _ w. w),
     chat_on_recv = (\<lambda>_ y w. Inr (upd_web (chat_side_update (\<lambda>l. l @ [(-1, str y, 0)])) w)),
     chat_bridge_call = (\<lambda>_ _ _ w. Inr (0, w))\<rparr>"

definition sample_web :: "(int \<times> bytes \<times> int) list web_world" where
  "sample_web = \<lparr>https = (\<lambda>c. \<lparr>http_strm = (streamio_initialize (strms two_streams 0))\<lparr>strm_fd := 30\<rparr>, http_state = HTTP_CONNECTED,
       is_processed = False, http_content = zero_txt\<rparr>), http_factory = [0], http_accept_module_is_quiting = False,
     send_buf = aroop_txt_buffer ref_aroop 1024, http_pipe = six_nodes,
     http_outside = \<lparr>sessions = (\<lambda>_. \<lparr>ws_strm = (streamio_initialize (strms two_streams 0))\<lparr>strm_fd := 25, bubble_down := Some 9\<rparr>,
         ws_sid = txt_of (session_name 4711 815), ws_msg = zero_txt, last_activity = 800,
         ws_hash = of_nat (sum_list (map unat (session_name 4711 815)))\<rparr>),
       web_session_factory = [5], session_gear = 0, chat_side = []\<rparr>\<rparr>"

end
