(* ===== verification/WebChat.thy ===== *)
theory WebChat
  imports ChatState WebSession
begin

text \<open>
  The web chat, \<open>apps/web_chat/src/web_chat.c\<close> and \<open>page_chat.c\<close>: the pages \<open>http/webchat\<close>, which carries chat
  over HTTP requests, \<open>http/_web_session_transfer\<close>, with which a process takes over a chat connection that
  joins one of its rooms, and \<open>http/pagechat\<close>. The content of a request starts with a line naming a session,
  \<open>pid-number\<close>; a request with the identifier of another process is moved there, connection and all. The hooks of
  the session factory are installed (\<open>web_hooks\<close>). According to a comment in \<open>http_parser.c\<close>, \<open>aroop_txt_to_string\<close>
  gives a null pointer for an empty text.
\<close>

section \<open>Moving a request to another process\<close>

definition HTTP_WEBCHAT_PLUG :: bytes where "HTTP_WEBCHAT_PLUG = lit ''http/webchat''"

definition webchat_transfer_command :: "aroop \<Rightarrow> aroop_txt_t \<Rightarrow> aroop_txt_t \<Rightarrow> aroop_txt_t" where
  "webchat_transfer_command A sid rest =
     (let c1 = aroop_txt_concat_string A (aroop_txt_stackbuffer A 128) HTTP_WEBCHAT_PLUG;
          c2 = aroop_txt_concat A (aroop_txt_concat_char A c1 32) sid
      in aroop_txt_concat A (aroop_txt_concat_char A c2 10) rest)"

definition webchat_transfer_parallel ::
    "'c web_env \<Rightarrow> nat \<Rightarrow> 32 word \<Rightarrow> aroop_txt_t \<Rightarrow> aroop_txt_t \<Rightarrow> 'c web_world \<Rightarrow> (int \<times> 'c web_world) exec" where
  "webchat_transfer_parallel E c destpid sid rest w =
     ebind (http_transfer E c destpid NGINZ_HTTP_PORT (webchat_transfer_command (web_lib E) sid rest) w) (\<lambda>(ret, w1).
     Inr (ret, upd_http c (\<lambda>x. x\<lparr>http_state := http_state x OR CHAT_SOFT_QUIT\<rparr>) w1))"

section \<open>Sessions and chat connections\<close>

definition webchat_chain_helper :: "'c web_env \<Rightarrow> nat \<Rightarrow> nat \<Rightarrow> 'c web_world \<Rightarrow> 'c web_world" where
  "webchat_chain_helper E c s w =
     upd_http c (http_strm_update (transfer_method_update (\<lambda>_. Overridden 2)))
       (snd (streamio_chain (http_kind (web_http E)) (session_kind E) c s w))"

definition http_webchat_create_helper ::
    "'c web_env \<Rightarrow> nat \<Rightarrow> aroop_txt_t \<Rightarrow> aroop_txt_t option \<Rightarrow> 'c web_world \<Rightarrow> (nat option \<times> 'c web_world) exec" where
  "http_webchat_create_helper E c space req w =
     ebind (aroop_assert (web_lib E) (bubble_down (http_strm (https w c)) = None)) (\<lambda>_.
     case web_session_alloc E (strm_fd (http_strm (https w c))) None w of
       (None, w1) \<Rightarrow> Inr (None, w1)
     | (Some s, w1) \<Rightarrow>
         let w2 = webchat_chain_helper E c s w1
         in (case bubble_down (ws_strm (session s w2)) of
               None \<Rightarrow> Inl NullDeref
             | Some chat \<Rightarrow>
                 ebind (chat_bridge_call E space CHAT_SIGNATURE chat (chat_set_request E chat req w2)) (\<lambda>(_, w3).
                 Inr (Some s, chat_set_request E chat None w3))))"

definition web_unchain :: "'c web_env \<Rightarrow> nat \<Rightarrow> nat option \<Rightarrow> 'c web_world \<Rightarrow> 'c web_world" where
  "web_unchain E c webchat w =
     (case webchat of
        None \<Rightarrow> w
      | Some s \<Rightarrow> snd (streamio_unchain (http_kind (web_http E)) (session_kind E) c s w))"

definition http_web_session_transfer_plug :: "'c web_env \<Rightarrow> int \<Rightarrow> nat \<Rightarrow> 'c web_world \<Rightarrow> (32 word \<times> 'c web_world) exec" where
  "http_web_session_transfer_plug E signature c w =
     (let A = web_lib E in
      ebind (aroop_assert A (signature = HTTP_SIGNATURE)) (\<lambda>_.
      if \<not> is_valid_http c w then Inr (0, w)
      else
        let hidden_join_cmd = aroop_txt_shift A (aroop_txt_copy_shallow A (http_content (https w c)))
              (int (length HTTP_WEB_SESSION_TRANSFER_WRAPPER + 1))
        in ebind (http_webchat_create_helper E c (aroop_txt_static_string A (lit ''chat/_hiddenjoin'')) (Some hidden_join_cmd) w)
             (\<lambda>(_, w1). Inr (0, web_unchain E c (bubble_down (http_strm (https w1 c))) w1))))"

section \<open>The session identifier of a request\<close>

definition http_webchat_get_sessionid_trim_webchat_prefix :: "aroop \<Rightarrow> aroop_txt_t \<Rightarrow> aroop_txt_t" where
  "http_webchat_get_sessionid_trim_webchat_prefix A sid =
     (let reallen = t_len sid; prefix = aroop_txt_set_length A sid (length HTTP_WEBCHAT_PLUG)
      in if aroop_txt_equals A prefix (aroop_txt_static_string A HTTP_WEBCHAT_PLUG)
         then aroop_txt_shift A (aroop_txt_set_length A prefix reallen) (int (length HTTP_WEBCHAT_PLUG + 1))
         else aroop_txt_set_length A prefix reallen)"

text \<open>The result, the identifier, what follows its line, and the process it names (-1 as initialised by the caller).\<close>

definition http_webchat_get_sessionid :: "aroop \<Rightarrow> aroop_txt_t \<Rightarrow> (int \<times> aroop_txt_t \<times> aroop_txt_t \<times> 32 word) exec" where
  "http_webchat_get_sessionid A content =
     (let failed = (-1, aroop_txt_destroy A zero_txt, aroop_txt_destroy A zero_txt, -1)
      in if t_len content = 0 then Inr failed
         else
           let s0 = aroop_txt_zero_terminate A (aroop_txt_copy_deep A content);
               s1 = http_webchat_get_sessionid_trim_webchat_prefix A s0
           in if t_len s1 = 0 then Inl NullDeref
              else
                (case strchr (str s1) 10 of
                   None \<Rightarrow> Inr failed
                 | Some sidlen \<Rightarrow>
                     let s2 = aroop_txt_zero_terminate A (aroop_txt_set_length A s1 sidlen);
                         rest = aroop_txt_shift A (aroop_txt_copy_shallow A s1) (int (sidlen + 1));
                         intval = aroop_txt_concat A (aroop_txt_stackbuffer A (t_len s2)) s2
                     in (case strchr (str s2) 45 of
                           None \<Rightarrow> Inr failed
                         | Some intlen \<Rightarrow>
                             let num = aroop_txt_zero_terminate A (aroop_txt_set_length A intval intlen)
                             in Inr (0, s2, rest, of_int (aroop_txt_to_int A num)))))"

section \<open>The pages\<close>

text \<open>The part of \<open>http_webchat_plug\<close> that hands the rest of the request to the chat and makes sure of an answer.\<close>

definition webchat_process :: "'c web_env \<Rightarrow> nat \<Rightarrow> nat \<Rightarrow> aroop_txt_t \<Rightarrow> 'c web_world \<Rightarrow> 'c web_world exec" where
  "webchat_process E c s rest w =
     (let A = web_lib E in
      case bubble_down (ws_strm (session s w)) of
        None \<Rightarrow> Inl NullDeref
      | Some chat \<Rightarrow>
          ebind (chat_on_recv E chat rest w) (\<lambda>w1.
          Inr (if \<not> is_processed (https w1 c) \<and> \<not> has (http_state (https w1 c)) (HTTP_SOFT_QUIT OR HTTP_QUIT) then
                 let w2 = (if t_len (ws_msg (session s w1)) = 0
                           then snd (web_session_send_wrapper E s (Some (aroop_txt_static_string A (lit '' ''))) 0 w1)
                           else w1)
                 in if t_len (ws_msg (session s w2)) \<noteq> 0
                    then upd_session s (ws_msg_update (\<lambda>m. aroop_txt_set_length A m 0)) (session_send E s (ws_msg (session s w2)) 0 w2)
                    else w2
               else w1)))"

definition http_webchat_plug :: "'c web_env \<Rightarrow> int \<Rightarrow> nat \<Rightarrow> 'c web_world \<Rightarrow> (32 word \<times> 'c web_world) exec" where
  "http_webchat_plug E signature c w =
     (let A = web_lib E in
      ebind (aroop_assert A (signature = HTTP_SIGNATURE)) (\<lambda>_.
      if \<not> is_valid_http c w then Inr (0, w)
      else
        ebind (http_webchat_get_sessionid A (http_content (https w c))) (\<lambda>(_, sid, rest, pid).
        let w1 = upd_http c (is_processed_update (\<lambda>_. False)) w
        in if pid \<noteq> -1 \<and> pid \<noteq> web_getpid E
           then ebind (webchat_transfer_parallel E c pid sid rest w1) (\<lambda>(ret, w2). Inr (of_int ret, w2))
           else
             let attached = bubble_down (http_strm (https w1 c));
                 found = (if attached = None \<and> t_len sid \<noteq> 0 then web_session_search E sid w1 else None);
                 webchat = (if attached = None then found else attached);
                 w2 = (case found of None \<Rightarrow> w1 | Some s \<Rightarrow> webchat_chain_helper E c s w1)
             in ebind
                  (case webchat of
                     None \<Rightarrow> http_webchat_create_helper E c (aroop_txt_static_string A (lit ''chat/_welcome'')) None w2
                   | Some s \<Rightarrow>
                       if is_processed (https w2 c) then Inr (Some s, w2)
                       else ebind (webchat_process E c s rest w2) (\<lambda>w3. Inr (Some s, w3)))
                  (\<lambda>(webchat', w3). Inr (0, web_unchain E c webchat' w3)))))"

definition PAGE_CONTENT :: bytes where
  "PAGE_CONTENT =
     lit ''<html>'' @
     lit ''<head>'' @
     lit ''<script type=\"text/javascript\">'' @ [10] @
     lit ''var chat = (function() {'' @ [10] @
     lit ''var sid = \"\";'' @ [10] @
     lit ''return {'' @ [10] @
     lit ''submit : function() {'' @ [10] @
     lit ''var xhr = new XMLHttpRequest();'' @ [10] @
     lit ''xhr.open('POST', '/webchat', true);'' @
     lit ''xhr.setRequestHeader('Connection', 'Keep-Alive');'' @
     lit ''xhr.setRequestHeader('Keep-Alive', 'timeout=3600, max=3600');'' @
     lit ''xhr.onload = function (e) {'' @ [10] @
     lit ''if (xhr.readyState === 4) {'' @ [10] @
     lit ''if (xhr.status === 200) {'' @ [10] @
     lit ''console.log(xhr.responseText);'' @ [10] @
     lit ''sid = xhr.responseText.slice(0, xhr.responseText.indexOf('' @ [39] @ [92] @ lit ''n')) + '' @ [39] @ [92] @ lit ''n';'' @
     lit ''console.log(\"sid=\"+sid);'' @ [10] @
     lit ''var msg = xhr.responseText.slice(xhr.responseText.indexOf('' @ [39] @ [92] @ lit ''n'));'' @ [10] @
     lit ''document.getElementById(\"response_box\").value = msg;'' @ [10] @
     lit ''} else {'' @ [10] @
     lit ''console.error(xhr.statusText);'' @ [10] @
     lit ''}'' @ [10] @
     lit ''}'' @ [10] @
     lit ''};'' @ [10] @
     lit ''xhr.onerror = function (e) {'' @ [10] @
     lit ''console.error(xhr.statusText);'' @ [10] @
     lit ''};'' @ [10] @
     lit ''xhr.send(sid + document.getElementById('chat_box').value + \"'' @ [92] @ lit ''n\");'' @ [10] @
     lit ''return false;'' @ [10] @
     lit ''}'' @ [10] @
     lit ''};'' @ [10] @
     lit ''}());'' @ [10] @
     lit ''document.onload = chat.submit;'' @ [10] @
     lit ''</script>'' @ [10] @
     lit ''</head>'' @
     lit ''<body>'' @
     lit ''<div>'' @
     lit ''<textarea id=\"response_box\" rows=\"20\" cols=\"100\">'' @
     lit ''Please write your name. The commands should be prefixed with '/' character. Type /help for the list of commands. Enjoy.'' @
     lit ''</textarea>'' @
     lit ''<form id=\"chat_form\" onsubmit=\"return chat.submit();\">'' @
     lit ''<input type=\"text\" id=\"chat_box\" name=\"message\"/>'' @
     lit ''<input type=\"submit\" name=\"send\"/>'' @
     lit ''</form>'' @
     lit ''</div>'' @
     lit ''</body>'' @
     lit ''</html>''"

definition http_page_chat_plug :: "'c web_env \<Rightarrow> int \<Rightarrow> nat \<Rightarrow> 'c web_world \<Rightarrow> (32 word \<times> 'c web_world) exec" where
  "http_page_chat_plug E signature c w =
     ebind (aroop_assert (web_lib E) (signature = HTTP_SIGNATURE)) (\<lambda>_.
     if \<not> is_valid_http c w then Inr (0, w)
     else Inr (0, snd (http_tunnel_send_content (web_http E) c (Some (aroop_txt_static_string (web_lib E) PAGE_CONTENT)) 0 w)))"

text \<open>The pages the web chat plugs into the HTTP server.\<close>

datatype web_page = WebChatPage | SessionTransferPage | ChatPage

fun run_page :: "'c web_env \<Rightarrow> web_page \<Rightarrow> int \<Rightarrow> nat \<Rightarrow> 'c web_world \<Rightarrow> (32 word \<times> 'c web_world) exec" where
  "run_page E WebChatPage = http_webchat_plug E"
| "run_page E SessionTransferPage = http_web_session_transfer_plug E"
| "run_page E ChatPage = http_page_chat_plug E"

section \<open>Reading the session identifier\<close>

lemma set_length_back: "aroop_ok A \<Longrightarrow> wf_txt t \<Longrightarrow> n \<le> t_cap t \<Longrightarrow> aroop_txt_set_length A (aroop_txt_set_length A t n) (t_len t) = t"
  by (simp add: set_length_law wf_txt_def t_cap_def)

lemma set_length_take:
  assumes "aroop_ok A" and "wf_txt t" and "n \<le> t_len t"
  shows "wf_txt (aroop_txt_set_length A t n)" and "str (aroop_txt_set_length A t n) = take n (str t)"
  using assms by (simp_all add: set_length_law wf_txt_def t_cap_def str_def min_def)

lemma shift_drop:
  assumes "aroop_ok A" and "wf_txt t" and "n \<le> t_len t"
  shows "wf_txt (aroop_txt_shift A t (int n))" and "str (aroop_txt_shift A t (int n)) = drop n (str t)"
  using assms by (simp_all add: shift_law wf_txt_def t_cap_def str_def drop_take)

lemma trim_prefix:
  assumes "aroop_ok A" and "wf_txt t" and "12 \<le> t_len t" and "take 12 (str t) = HTTP_WEBCHAT_PLUG \<Longrightarrow> 13 \<le> t_len t"
  shows "wf_txt (http_webchat_get_sessionid_trim_webchat_prefix A t)"
    and "str (http_webchat_get_sessionid_trim_webchat_prefix A t) =
      (if take 12 (str t) = HTTP_WEBCHAT_PLUG then drop 13 (str t) else str t)"
proof -
  have l: "length HTTP_WEBCHAT_PLUG = 12" by (simp add: HTTP_WEBCHAT_PLUG_def)
  have c: "12 \<le> t_cap t" using assms(2,3) by (simp add: wf_txt_def)
  have e: "aroop_txt_equals A (aroop_txt_set_length A t 12) (aroop_txt_static_string A HTTP_WEBCHAT_PLUG) \<longleftrightarrow> take 12 (str t) = HTTP_WEBCHAT_PLUG"
    using set_length_take [OF assms(1-3)] static_laws [OF assms(1)] by (simp add: equals_law [OF assms(1)])
  have "http_webchat_get_sessionid_trim_webchat_prefix A t =
      (if take 12 (str t) = HTTP_WEBCHAT_PLUG then aroop_txt_shift A t (int 13) else t)"
    unfolding http_webchat_get_sessionid_trim_webchat_prefix_def Let_def l e set_length_back [OF assms(1,2) c] by simp
  then show "wf_txt (http_webchat_get_sessionid_trim_webchat_prefix A t)"
    and "str (http_webchat_get_sessionid_trim_webchat_prefix A t) =
      (if take 12 (str t) = HTTP_WEBCHAT_PLUG then drop 13 (str t) else str t)"
    using shift_drop [OF assms(1,2), of 13] assms(2,4) by simp_all
qed

lemma digits_not: "b \<in> set (dec_nat n) \<Longrightarrow> b \<noteq> 0 \<and> b \<noteq> 10 \<and> b \<noteq> 45 \<and> b \<noteq> 104"
  using dec_nat_digits [of b n] by auto

lemma session_name_bytes:
  assumes "0 \<le>s pid"
  shows "0 \<notin> set (session_name pid r)" and "10 \<notin> set (session_name pid r)" and "strchr (session_name pid r) 45 = Some (length (dec_int (sint pid)))"
    and "hd (session_name pid r) \<noteq> 104" and "session_name pid r \<noteq> []"
proof -
  have p: "dec_int (sint pid) = dec_nat (nat (sint pid))" using assms by (simp add: dec_int_def word_sle_eq)
  have r: "b \<noteq> 0 \<and> b \<noteq> 10" if "b \<in> set (dec_int r)" for b using that digits_not by (fastforce simp: dec_int_def split: if_splits)
  show "0 \<notin> set (session_name pid r)" and "10 \<notin> set (session_name pid r)"
    using r digits_not by (fastforce simp: session_name_def p)+
  show "strchr (session_name pid r) 45 = Some (length (dec_int (sint pid)))"
    unfolding session_name_def by (rule strchr_found) (use digits_not p in auto)
  show "hd (session_name pid r) \<noteq> 104" using digits_not [OF hd_in_set [OF dec_nat_nonempty]] by (simp add: session_name_def p)
  show "session_name pid r \<noteq> []" by (simp add: session_name_def)
qed

lemma get_sessionid_reads:
  assumes A: "aroop_ok A" and w: "wf_txt content" and p: "0 \<le>s pid" and l: "12 \<le> t_len content"
    and c: "str content = session_name pid r @ 10 # rest \<or> str content = HTTP_WEBCHAT_PLUG @ 32 # session_name pid r @ 10 # rest"
  shows "\<exists>x y. http_webchat_get_sessionid A content = Inr (0, x, y, pid) \<and> wf_txt x \<and> str x = session_name pid r \<and> wf_txt y \<and> str y = rest"
proof -
  let ?n = "session_name pid r"
  let ?s0 = "aroop_txt_zero_terminate A (aroop_txt_copy_deep A content)"
  have s0: "wf_txt ?s0" "str ?s0 = str content" using w by (simp_all add: zero_terminate_laws [OF A] copy_deep_laws [OF A])
  have l0: "t_len ?s0 = length (str content)" using length_str [OF s0(1)] s0(2) by simp
  have l1: "12 \<le> t_len ?s0" using l0 l length_str [OF w] by simp
  have h: "take 12 (?n @ 10 # rest) \<noteq> HTTP_WEBCHAT_PLUG"
    using session_name_bytes(4,5) [OF p, of r] by (cases ?n) (auto simp: HTTP_WEBCHAT_PLUG_def lit_def)
  have h2: "take 12 (HTTP_WEBCHAT_PLUG @ 32 # ?n @ 10 # rest) = HTTP_WEBCHAT_PLUG" "drop 13 (HTTP_WEBCHAT_PLUG @ 32 # ?n @ 10 # rest) = ?n @ 10 # rest"
    by (simp_all add: HTTP_WEBCHAT_PLUG_def lit_def)
  let ?s1 = "http_webchat_get_sessionid_trim_webchat_prefix A ?s0"
  have "13 \<le> t_len ?s0" if "take 12 (str ?s0) = HTTP_WEBCHAT_PLUG"
    using that c h l0 by (auto simp: s0(2) HTTP_WEBCHAT_PLUG_def)
  note t = trim_prefix [OF A s0(1) l1 this]
  have s1: "wf_txt ?s1" "str ?s1 = ?n @ 10 # rest" using t c h h2 by (auto simp: s0(2))
  have ls: "t_len ?s1 = length ?n + 1 + length rest" using length_str [OF s1(1)] s1(2) by simp
  have k: "strchr (str ?s1) 10 = Some (length ?n)"
    unfolding s1(2) by (rule strchr_found) (use session_name_bytes [OF p, of r] in auto)
  let ?s2 = "aroop_txt_zero_terminate A (aroop_txt_set_length A ?s1 (length ?n))"
  have n1: "length ?n \<le> t_len ?s1" "length ?n + 1 \<le> t_len ?s1" using ls by simp_all
  have s2: "wf_txt ?s2" "str ?s2 = ?n"
    using set_length_take [OF A s1(1) n1(1)] s1(2) by (simp_all add: zero_terminate_laws [OF A])
  have rest: "wf_txt (aroop_txt_shift A (aroop_txt_copy_shallow A ?s1) (int (length ?n + 1)))"
    "str (aroop_txt_shift A (aroop_txt_copy_shallow A ?s1) (int (length ?n + 1))) = rest"
    using shift_drop [OF A s1(1) n1(2)] s1(2) by (simp_all add: copy_shallow_law [OF A])
  let ?i = "aroop_txt_concat A (aroop_txt_stackbuffer A (t_len ?s2)) ?s2" and ?d = "dec_int (sint pid)"
  have i: "built (t_len ?s2) ?i ([] @ str ?s2)" by (rule built_concat [OF A built_stackbuffer [OF A] s2(1)]) simp
  have li: "t_len ?i = length ?n" using built_len [OF i] s2(2) by simp
  have "length ?d \<le> t_len ?i" using li by (simp add: session_name_def)
  with set_length_take [OF A, of ?i] i s2(2)
  have num: "wf_txt (aroop_txt_zero_terminate A (aroop_txt_set_length A ?i (length ?d)))"
    "str (aroop_txt_zero_terminate A (aroop_txt_set_length A ?i (length ?d))) = ?d"
    by (simp_all add: built_def zero_terminate_laws [OF A] session_name_def)
  have "http_webchat_get_sessionid A content =
      Inr (0, ?s2, aroop_txt_shift A (aroop_txt_copy_shallow A ?s1) (int (length ?n + 1)), pid)"
    using l ls k session_name_bytes(3) [OF p, of r] s2(2) to_int_law [OF A num]
    by (simp add: http_webchat_get_sessionid_def Let_def)
  with s2 rest show ?thesis by blast
qed

lemma transfer_command_text:
  assumes "aroop_ok A" and "wf_txt x" and "wf_txt y" and "t_len x + t_len y + 14 \<le> 128"
  shows "wf_txt (webchat_transfer_command A x y)" and "str (webchat_transfer_command A x y) = HTTP_WEBCHAT_PLUG @ 32 # str x @ 10 # str y"
proof -
  have l: "length HTTP_WEBCHAT_PLUG = 12" "length (str x) = t_len x" "length (str y) = t_len y"
    using length_str [OF assms(2)] length_str [OF assms(3)] by (simp_all add: HTTP_WEBCHAT_PLUG_def)
  note c1 = built_char [OF assms(1) built_string [OF assms(1) built_stackbuffer [OF assms(1), of 128]], of HTTP_WEBCHAT_PLUG 32]
  have b1: "built 128 (aroop_txt_concat_char A (aroop_txt_concat_string A (aroop_txt_stackbuffer A 128) HTTP_WEBCHAT_PLUG) 32) (([] @ HTTP_WEBCHAT_PLUG) @ [32])"
    by (rule c1) (use l in simp_all)
  note c2 = built_char [OF assms(1) built_concat [OF assms(1) b1 assms(2)], of 10]
  note b3 = built_concat [OF assms(1) c2 assms(3)]
  have "built 128 (webchat_transfer_command A x y) ((((([] @ HTTP_WEBCHAT_PLUG) @ [32]) @ str x) @ [10]) @ str y)"
    unfolding webchat_transfer_command_def Let_def by (rule b3) (use assms(4) l in simp_all)
  then show "wf_txt (webchat_transfer_command A x y)" and "str (webchat_transfer_command A x y) = HTTP_WEBCHAT_PLUG @ 32 # str x @ 10 # str y"
    by (simp_all add: built_def)
qed

lemma new_session_id_name:
  assumes "aroop_ok A" and "0 \<le>s pid" and "0 \<le> r" and "r < 2 ^ 31"
  shows "wf_txt (new_session_id A pid r)" and "str (new_session_id A pid r) = session_name pid r" and "length (session_name pid r) \<le> 21"
proof -
  have "sint pid < 2 ^ 31" using sint_lt [of pid] by simp
  then have "nat (sint pid) < 10 ^ 10" "nat r < 10 ^ 10" using assms(4) by simp_all
  then have "length (dec_nat (nat (sint pid))) \<le> 10" "length (dec_nat (nat r)) \<le> 10" by (simp_all add: length_dec_nat)
  moreover have "\<not> sint pid < 0" using assms(2) by (simp add: word_sle_eq)
  ultimately have l: "length (session_name pid r) \<le> 21" using assms(3) by (simp add: session_name_def dec_int_def)
  have b: "built 32 (aroop_txt_buffer A 32) []"
    using buffer_laws(1,2) [OF assms(1), of 32] buffer_cap(1) [OF assms(1), of 32] by (simp add: built_def str_def)
  have "built 32 (aroop_txt_concat_string A (aroop_txt_buffer A 32) (session_name pid r)) ([] @ session_name pid r)"
    by (rule built_string [OF assms(1) b]) (use l in simp)
  then show "wf_txt (new_session_id A pid r)" and "str (new_session_id A pid r) = session_name pid r"
    by (simp_all add: new_session_id_def NGINZ_MAX_WEBCHAT_SID_SIZE_def built_def)
  show "length (session_name pid r) \<le> 21" by (rule l)
qed

section \<open>Answering a request of a session\<close>

lemma kinds:
  "kget (http_kind H) c w = http_strm (https w c)" "kput (http_kind H) c x w = upd_http c (http_strm_update (\<lambda>_. x)) w"
  "kget (session_kind E) s w = ws_strm (session s w)" "kput (session_kind E) s x w = upd_session s (ws_strm_update (\<lambda>_. x)) w"
  by (simp_all add: http_kind_def session_kind_def)

lemma web_unchain_effect:
  "web_unchain E c (Some s) w =
     upd_http c (\<lambda>x. if bubble_down (http_strm x) = Some s then x\<lparr>http_strm := (http_strm x)\<lparr>bubble_down := None\<rparr>\<rparr> else x)
       (upd_session s (\<lambda>x. x\<lparr>ws_strm := (ws_strm x)\<lparr>bubble_up := None\<rparr>\<rparr>) w)"
  by (simp add: web_unchain_def streamio_unchain_def kinds Let_def) (simp add: upd_http_def upd_session_def upd_web_def session_def)



section \<open>The session below a connection\<close>

definition attached :: "nat \<Rightarrow> 'c web_world \<Rightarrow> nat option" where
  "attached c w = bubble_down (http_strm (https w c))"

lemma attached_frames [simp]:
  "attached c (upd_session s g w) = attached c w" "attached c (upd_web g' w) = attached c w" "attached c (w\<lparr>http_outside := o1\<rparr>) = attached c w"
  "attached c (w\<lparr>send_buf := b\<rparr>) = attached c w"
  "(\<And>x. bubble_down (http_strm (h x)) = bubble_down (http_strm x)) \<Longrightarrow> attached c (upd_http c' h w) = attached c w"
  by (simp_all add: attached_def upd_session_def upd_web_def upd_http_def)

lemma default_send_same: "default_streamio_send V x content flag w = (r, x', w') \<Longrightarrow> x' = x"
  by (auto simp: default_streamio_send_def split: option.splits prod.splits if_splits)

lemma attached_http_send [simp]: "attached c (http_send H c' content flag w) = attached c w"
proof -
  obtain r x o1 where d: "default_streamio_send (http_streams H) (http_strm (https w c')) content flag (http_outside w) = (r, x, o1)"
    by (metis prod_cases3)
  from default_send_same [OF d] d show ?thesis by (simp add: http_send_def attached_def upd_http_def)
qed

lemma attached_tunnel [simp]: "attached c (snd (http_tunnel_send_content H c' content flags w)) = attached c w"
  by (simp add: http_tunnel_send_content_def Let_def split: option.split)

lemma attached_http_close [simp]: "attached c (snd (default_http_close H c' w)) = attached c w"
  by (simp add: default_http_close_def Let_def split: option.split prod.split)

lemma attached_session_send [simp]: "attached c (session_send E s content flag w) = attached c w"
  by (auto simp: session_send_def default_streamio_send_def session_streams_def Let_def split: option.splits prod.splits)
    (metis attached_tunnel snd_conv)

lemma attached_send_wrapper [simp]: "attached c (snd (web_session_send_wrapper E s content flags w)) = attached c w"
  by (simp add: web_session_send_wrapper_def Let_def split: option.split)

lemma attached_session_close [simp]: "attached c (snd (web_session_close_wrapper E s w)) = attached c w"
proof -
  have "attached c w2 = attached c w1" if "default_http_close H c' w1 = (r, w2)" for H c' w1 r and w2 :: "'a web_world"
    using attached_http_close [of c H c' w1] that by simp
  then show ?thesis
    by (auto simp: web_session_close_wrapper_def default_streamio_close_def session_streams_def Let_def split: option.splits prod.splits)
qed

text \<open>The chat does not change the links of an HTTP connection by itself.\<close>

definition chat_keeps_links :: "'c web_env \<Rightarrow> nat \<Rightarrow> bool" where
  "chat_keeps_links E c \<longleftrightarrow>
     (\<forall>f w. attached c (snd (chat_on_create E f w)) = attached c w) \<and>
     (\<forall>a q w. attached c (chat_set_request E a q w) = attached c w) \<and>
     (\<forall>a y w w'. chat_on_recv E a y w = Inr w' \<longrightarrow> attached c w' = attached c w) \<and>
     (\<forall>sp sg a w r w'. chat_bridge_call E sp sg a w = Inr (r, w') \<longrightarrow> attached c w' = attached c w) \<and>
     (\<forall>a x w. attached c (kput (chat_kind E) a x w) = attached c w \<and> attached c (kclose (chat_kind E) a w) = attached c w)"

lemma attached_chat_chain:
  "chat_keeps_links E c \<Longrightarrow> attached c (snd (streamio_chain (session_kind E) (chat_kind E) s a w)) = attached c w"
  by (simp add: streamio_chain_def Let_def session_kind_def chat_keeps_links_def split: option.split)

lemma attached_alloc:
  assumes "chat_keeps_links E c"
  shows "attached c (snd (web_session_alloc E f given w)) = attached c w"
proof -
  have "attached c w2 = attached c w1" if "chat_on_create E f w1 = (a, w2)" for w1 a w2
    using assms that unfolding chat_keeps_links_def by (metis snd_conv)
  then show ?thesis
    by (auto simp: web_session_alloc_def Let_def attached_chat_chain [OF assms] split: option.splits prod.splits)
qed

lemma attached_chain_helper:
  assumes "attached c w = None"
  shows "attached c (webchat_chain_helper E c s w) = Some s"
  using assms
  by (simp add: webchat_chain_helper_def streamio_chain_def kinds Let_def attached_def http_kind_def session_kind_def)

lemma attached_process:
  assumes "chat_keeps_links E c" and "webchat_process E c s y w = Inr w'"
  shows "attached c w' = attached c w"
  using assms
  by (auto simp: webchat_process_def Let_def chat_keeps_links_def elim!: ebind_InrE split: option.splits if_splits)

lemma attached_create:
  assumes "chat_keeps_links E c" and "attached c w = None" and "http_webchat_create_helper E c sp q w = Inr (webchat, w')"
  shows "attached c w' = webchat"
  using assms attached_alloc [OF assms(1), of "strm_fd (http_strm (https w c))" None w]
  by (auto simp: http_webchat_create_helper_def Let_def attached_chain_helper chat_keeps_links_def elim!: ebind_InrE split: option.splits prod.splits)

lemma attached_unchain: "attached c (web_unchain E c (attached c w) w) = None"
proof (cases "attached c w")
  case None
  then show ?thesis by (simp add: web_unchain_def)
next
  case (Some s)
  then show ?thesis by (simp add: web_unchain_effect) (simp add: attached_def)
qed

lemma attached_transfer: "webchat_transfer_parallel E c dest x y w = Inr (r, w') \<Longrightarrow> attached c w' = attached c w"
  by (auto simp: webchat_transfer_parallel_def http_transfer_def elim!: ebind_InrE)

lemma attached_webchat:
  assumes k: "chat_keeps_links E c" and n: "attached c w = None" and r: "http_webchat_plug E signature c w = Inr (ret, w')"
  shows "attached c w' = None"
proof (cases "is_valid_http c w")
  case False
  then show ?thesis using n r by (auto simp: http_webchat_plug_def elim!: ebind_InrE)
next
  case True
  let ?w1 = "upd_http c (is_processed_update (\<lambda>_. False)) w"
  from True r obtain res x y pid where
    run: "(if pid \<noteq> -1 \<and> pid \<noteq> web_getpid E
       then ebind (webchat_transfer_parallel E c pid x y ?w1) (\<lambda>(ret, w2). Inr (of_int ret, w2))
       else
         let attached = bubble_down (http_strm (https ?w1 c));
             found = (if attached = None \<and> t_len x \<noteq> 0 then web_session_search E x ?w1 else None);
             webchat = (if attached = None then found else attached);
             w2 = (case found of None \<Rightarrow> ?w1 | Some s \<Rightarrow> webchat_chain_helper E c s ?w1)
         in ebind
              (case webchat of
                 None \<Rightarrow> http_webchat_create_helper E c (aroop_txt_static_string (web_lib E) (lit ''chat/_welcome'')) None w2
               | Some s \<Rightarrow>
                   if is_processed (https w2 c) then Inr (Some s, w2)
                   else ebind (webchat_process E c s y w2) (\<lambda>w3. Inr (Some s, w3)))
              (\<lambda>(webchat', w3). Inr (0, web_unchain E c webchat' w3))) = Inr (ret, w')"
    by (auto simp: http_webchat_plug_def Let_def elim!: ebind_InrE)
  have n1: "attached c ?w1 = None" "bubble_down (http_strm (https ?w1 c)) = None" using n by (simp_all add: attached_def)
  show ?thesis
  proof (cases "pid \<noteq> -1 \<and> pid \<noteq> web_getpid E")
    case True
    then show ?thesis using run n1 by (auto dest: attached_transfer elim!: ebind_InrE)
  next
    case False
    show ?thesis
    proof (cases "if t_len x \<noteq> 0 then web_session_search E x ?w1 else None")
      case None
      with False run n1 obtain webchat w3 where
        "http_webchat_create_helper E c (aroop_txt_static_string (web_lib E) (lit ''chat/_welcome'')) None ?w1 = Inr (webchat, w3)"
        "w' = web_unchain E c webchat w3"
        by (auto simp: Let_def elim!: ebind_InrE split del: if_split)
      with attached_create [OF k n1(1)] show ?thesis using attached_unchain by metis
    next
      case (Some s)
      let ?w2 = "webchat_chain_helper E c s ?w1"
      have s2: "attached c ?w2 = Some s" by (rule attached_chain_helper [OF n1(1)])
      from Some False run n1 obtain w3 where
        w3: "w3 = ?w2 \<or> webchat_process E c s y ?w2 = Inr w3" "w' = web_unchain E c (Some s) w3"
        by (auto simp: Let_def elim!: ebind_InrE split: if_splits)
      then have "attached c w3 = Some s" using s2 attached_process [OF k] by metis
      with w3(2) show ?thesis using attached_unchain by metis
    qed
  qed
qed

lemma attached_session_transfer:
  assumes "chat_keeps_links E c" and "attached c w = None" and "http_web_session_transfer_plug E signature c w = Inr (ret, w')"
  shows "attached c w' = None"
proof (cases "is_valid_http c w")
  case False
  then show ?thesis using assms(2,3) by (auto simp: http_web_session_transfer_plug_def elim!: ebind_InrE)
next
  case True
  with assms(3) obtain w1 where "w' = web_unchain E c (attached c w1) w1"
    by (auto simp: http_web_session_transfer_plug_def Let_def attached_def elim!: ebind_InrE)
  then show ?thesis using attached_unchain by metis
qed

section \<open>Properties\<close>

text \<open>(C30) The identifier that a process gives a new session leads every later request of that session back to it: a
  request with this identifier on its first line names the process, and so does the command with which another process
  passes the request on, with the rest of the request unchanged.\<close>

theorem session_id_roundtrip:
  assumes "aroop_ok A" and "0 \<le>s pid" and "0 \<le> r" and "r < 2 ^ 31"
    and "wf_txt content" and "str content = str (new_session_id A pid r) @ 10 # rest" and "12 \<le> t_len content" and "length rest \<le> 90"
  shows "\<exists>x y x' y'. http_webchat_get_sessionid A content = Inr (0, x, y, pid) \<and> str x = str (new_session_id A pid r) \<and> str y = rest \<and>
    http_webchat_get_sessionid A (webchat_transfer_command A x y) = Inr (0, x', y', pid) \<and>
    str x' = str (new_session_id A pid r) \<and> str y' = rest"
proof -
  note n = new_session_id_name [OF assms(1-4)]
  from get_sessionid_reads [OF assms(1,5,2,7), of r rest] assms(6) n(2)
  obtain x y where x: "http_webchat_get_sessionid A content = Inr (0, x, y, pid)" "wf_txt x" "str x = session_name pid r" "wf_txt y" "str y = rest"
    by auto
  have "t_len x + t_len y + 14 \<le> 128" using length_str [OF x(2)] length_str [OF x(4)] x(3,5) n(3) assms(8) by simp
  note t = transfer_command_text [OF assms(1) x(2,4) this]
  have "12 \<le> t_len (webchat_transfer_command A x y)" using length_str [OF t(1)] t(2) by (simp add: HTTP_WEBCHAT_PLUG_def)
  from get_sessionid_reads [OF assms(1) t(1) assms(2) this, of r rest] t(2) x(3,5) obtain x' y' where
    "http_webchat_get_sessionid A (webchat_transfer_command A x y) = Inr (0, x', y', pid)" "str x' = session_name pid r" "str y' = rest"
    by auto
  with x n(2) show ?thesis by auto
qed

lemma session_id_roundtrip_witness:
  "\<exists>x y x' y'. http_webchat_get_sessionid ref_aroop (txt_of (str (new_session_id ref_aroop 4711 815) @ 10 # lit ''hello there'')) = Inr (0, x, y, 4711) \<and>
    str x = str (new_session_id ref_aroop 4711 815) \<and> str y = lit ''hello there'' \<and>
    http_webchat_get_sessionid ref_aroop (webchat_transfer_command ref_aroop x y) = Inr (0, x', y', 4711) \<and>
    str x' = str (new_session_id ref_aroop 4711 815) \<and> str y' = lit ''hello there''"
  by (rule session_id_roundtrip) (simp_all add: word_sle_eq)



text \<open>(C31) A session is below an HTTP connection only while a request is served: whatever page of the web chat runs, and
  whatever the chat does (short of changing the links itself), the connection is left without a session, so that its
  object can be freed with no session pointing to it.\<close>

theorem no_session_left_attached:
  assumes "chat_keeps_links E c" and "bubble_down (http_strm (https w c)) = None" and "run_page E p signature c w = Inr (ret, w')"
  shows "bubble_down (http_strm (https w' c)) = None"
proof -
  have n: "attached c w = None" using assms(2) by (simp add: attached_def)
  have "attached c w' = None"
  proof (cases p)
    case WebChatPage
    show ?thesis by (rule attached_webchat [OF assms(1) n]) (use WebChatPage assms(3) in simp)
  next
    case SessionTransferPage
    show ?thesis by (rule attached_session_transfer [OF assms(1) n]) (use SessionTransferPage assms(3) in simp)
  next
    case ChatPage
    then show ?thesis using assms(3) n by (auto simp: http_page_chat_plug_def elim!: ebind_InrE split: if_splits)
  qed
  then show ?thesis by (simp add: attached_def)
qed

text \<open>(C39) A request whose session lives in another process leaves this one completely: the socket is passed on with the
  command \<open>http/webchat\<close>, the session and the rest of the request, it is out of the event loop and the connection
  object has no descriptor any more. But the server still sends 404 to it, which it may have closed or, if the passing
  failed, which stays open with nobody to serve it.\<close>

theorem foreign_session_handed_over:
  assumes "aroop_ok (web_lib E)" and "web_writes E wr" and "0 \<le>s pid" and "pid \<noteq> web_getpid E" and "0 \<le> r" and "r < 2 ^ 31"
    and "table_ok T" and "plugins_wf T P" and "plugins_at T P (lit ''http/webchat'') = [(BRIDGE_PLUGIN, Some WebChatPage, d)]"
    and "wf_txt buf" and "NGINZ_MAX_HTTP_MSG_SIZE \<le> t_cap buf"
    and "request_ok m (lit ''/webchat'') v hdrs"
    and "length (request_text m (lit ''/webchat'') v hdrs (session_name pid r @ 10 # rest)) < NGINZ_MAX_HTTP_MSG_SIZE"
    and "12 \<le> length (session_name pid r @ 10 # rest)" and "length rest \<le> 90" and "open_http c w f"
  shows "\<exists>cmd bin ret w'. wf_txt cmd \<and> str cmd = lit ''http/webchat '' @ session_name pid r @ 10 # rest \<and>
    connection_packet (web_lib E) 255 pid NGINZ_HTTP_PORT cmd = Inr bin \<and>
    packed_msg bin (map wire_field [WInt pid, WInt NGINZ_HTTP_PORT, WStr cmd]) \<and>
    http_on_client_data T P (run_page E) (web_http E) buf
      (Some (request_text m (lit ''/webchat'') v hdrs (session_name pid r @ 10 # rest))) f c w = Inr (ret, w') \<and>
    (let V = http_streams (web_http E);
         o1 = snd (raw_send_socket V pid f bin (loop_unregister V f (http_outside w)))
     in http_outside w' = loop_unregister V f (o1\<lparr>chat_side := wr f not_found_text 0 (chat_side o1)\<rparr>)) \<and>
    strm_fd (http_strm (https w' c)) = -1"
proof -
  let ?A = "web_lib E" and ?n = "session_name pid r" and ?V = "http_streams (web_http E)"
  have u: "hd (lit ''/webchat'') = 47" "5 < length (lit ''/webchat'')" "lit ''/webchat'' ! 5 \<noteq> 95" by (simp_all add: lit_def)
  have sp: "lit ''http'' @ lit ''/webchat'' = lit ''http/webchat''" by (simp add: lit_def)
  from request_runs_page [where B = "run_page E" and E = "web_http E", OF assms(1,16,7,8,10-13) u] obtain cont where
    cont: "wf_txt cont" "str cont = ?n @ 10 # rest" and
    go: "http_on_client_data T P (run_page E) (web_http E) buf (Some (request_text m (lit ''/webchat'') v hdrs (?n @ 10 # rest))) f c w =
      ebind (run_bridges ?A (run_page E) (plugins_at T P (lit ''http'' @ lit ''/webchat'')) HTTP_SIGNATURE c 0
          (upd_http c (\<lambda>x. x\<lparr>http_content := cont, is_processed := False\<rparr>) w)) (\<lambda>(ret, w2).
        let w3 = upd_http c (http_content_update (aroop_txt_destroy ?A))
                   (if \<not> is_processed (https w2 c) then http_send (web_http E) c (not_found ?A) 0 w2 else w2)
        in Inr (sint ret, if has (http_state (https w3 c)) (HTTP_SOFT_QUIT OR HTTP_QUIT) then snd (default_http_close (web_http E) c w3) else w3))"
    by blast
  let ?w1 = "upd_http c (\<lambda>x. x\<lparr>http_content := cont, is_processed := False\<rparr>) w"
  have lc: "12 \<le> t_len cont" using length_str [OF cont(1)] cont(2) assms(14) by simp
  from get_sessionid_reads [OF assms(1) cont(1) assms(3) lc, of r rest] cont(2)
  obtain x y where xy: "http_webchat_get_sessionid ?A cont = Inr (0, x, y, pid)" "wf_txt x" "str x = ?n" "wf_txt y" "str y = rest" by blast
  let ?cmd = "webchat_transfer_command ?A x y"
  have ln: "length ?n \<le> 21" by (rule new_session_id_name(3) [OF assms(1,3,5,6)])
  have "t_len x + t_len y + 14 \<le> 128" using length_str [OF xy(2)] length_str [OF xy(4)] xy(3,5) ln assms(15) by simp
  note cmd = transfer_command_text [OF assms(1) xy(2,4) this]
  have cs: "str ?cmd = lit ''http/webchat '' @ ?n @ 10 # rest" using cmd(2) xy(3,5) by (simp add: HTTP_WEBCHAT_PLUG_def lit_def)
  have "msg_size (map wire_field [WInt pid, WInt NGINZ_HTTP_PORT, WStr ?cmd]) \<le> 255"
    using cs ln assms(15) by (simp add: int_bytes_def)
  from connection_packet_packed [OF assms(1) _ assms(3) cmd(1) this, of 255] obtain bin where
    bin: "connection_packet ?A 255 pid NGINZ_HTTP_PORT ?cmd = Inr bin" "packed_msg bin (map wire_field [WInt pid, WInt NGINZ_HTTP_PORT, WStr ?cmd])"
    by auto
  obtain ret o1 where raw: "raw_send_socket ?V pid f bin (loop_unregister ?V f (http_outside w)) = (ret, o1)" by fastforce
  let ?w2 = "upd_http c (\<lambda>x. x\<lparr>http_content := cont, is_processed := False, http_state := http_state x OR CHAT_SOFT_QUIT\<rparr>) (w\<lparr>http_outside := o1\<rparr>)"
  have "pid \<noteq> -1" using assms(3) by (auto simp: word_sle_eq)
  have "http_webchat_plug E HTTP_SIGNATURE c ?w1 = Inr (of_int ret, ?w2)"
    using assms(4,16) \<open>pid \<noteq> -1\<close>
    by (simp add: http_webchat_plug_def Let_def xy(1) webchat_transfer_parallel_def http_transfer_def default_transfer_parallel_def
        bin(1) raw is_valid_http_def is_valid_stream_def open_http_def) (simp add: upd_http_def)
  moreover have "open_http c ?w2 f" using assms(16) by (simp add: open_http_def)
  then have "http_send (web_http E) c (not_found ?A) 0 ?w2 = ?w2\<lparr>http_outside := o1\<lparr>chat_side := wr f not_found_text 0 (chat_side o1)\<rparr>\<rparr>"
    by (simp add: http_send_writes [OF assms(2) [unfolded web_writes_def]] str_not_found [OF assms(1)])
  moreover have "has (http_state x OR CHAT_SOFT_QUIT) HTTP_SOFT_QUIT" for x :: http_connection
    by (simp add: has_or) (simp add: has_def CHAT_SOFT_QUIT_def HTTP_SOFT_QUIT_def)
  ultimately have "\<exists>ret w'. http_on_client_data T P (run_page E) (web_http E) buf (Some (request_text m (lit ''/webchat'') v hdrs (?n @ 10 # rest))) f c w = Inr (ret, w') \<and>
      http_outside w' = loop_unregister ?V f (o1\<lparr>chat_side := wr f not_found_text 0 (chat_side o1)\<rparr>) \<and> strm_fd (http_strm (https w' c)) = -1"
    unfolding go sp assms(9) using assms(16)
    by (simp add: Let_def default_http_close_def open_http_def has_or_flag)
  then obtain ret' w' where "http_on_client_data T P (run_page E) (web_http E) buf (Some (request_text m (lit ''/webchat'') v hdrs (?n @ 10 # rest))) f c w = Inr (ret', w')"
      "http_outside w' = loop_unregister ?V f (o1\<lparr>chat_side := wr f not_found_text 0 (chat_side o1)\<rparr>)" "strm_fd (http_strm (https w' c)) = -1"
    by blast
  with cmd(1) cs bin raw show ?thesis
    by (intro exI [of _ ?cmd] exI [of _ bin] exI [of _ ret'] exI [of _ w']) (simp only: Let_def snd_conv simp_thms)
qed

lemma sample_web [simp]:
  "web_lib sample_web_env = ref_aroop" "web_writes sample_web_env (\<lambda>f bs fl l. l @ [(f, bs, fl)])" "web_getpid sample_web_env = 4711"
  "open_http 0 sample_web 30" "bubble_down (http_strm (https sample_web 0)) = None" "http_state (https sample_web 0) = 0"
  "1024 \<le> t_cap (send_buf sample_web)" "wf_txt (ws_sid (session 5 sample_web))" "str (ws_sid (session 5 sample_web)) = session_name 4711 815"
  "ws_msg (session 5 sample_web) = zero_txt" "bubble_up (ws_strm (session 5 sample_web)) = None" "bubble_down (ws_strm (session 5 sample_web)) = Some 9"
  "chat_side (http_outside sample_web) = []"
  "chat_on_recv sample_web_env chat y w = Inr (upd_web (chat_side_update (\<lambda>l. l @ [(-1, str y, 0)])) w)"
  "str x = session_name 4711 815 \<Longrightarrow> web_session_search sample_web_env x sample_web = Some 5"
  by (simp_all add: sample_web_env_def sample_web_def web_writes_def sends_whole_def open_http_def INVALID_FD_def streamio_initialize_def
      HTTP_CONNECTED_def ref_aroop_def t_cap_def wf_txt_def session_def web_session_search_def txt_of_def str_def)




lemma foreign_session_handed_over_witness:
  "\<exists>P cmd bin ret w'. plug_seq ref_aroop ref_table [(BRIDGE_PLUGIN, txt_of (lit ''http/webchat''), WebChatPage, ())] (composite_plugin_create ref_table) = Inr P \<and>
    str cmd = lit ''http/webchat '' @ session_name 4712 815 @ 10 # lit ''hello'' \<and>
    connection_packet ref_aroop 255 4712 NGINZ_HTTP_PORT cmd = Inr bin \<and>
    http_on_client_data ref_table P (run_page sample_web_env) (web_http sample_web_env) (aroop_txt_buffer ref_aroop 1024)
      (Some (request_text (lit ''POST'') (lit ''/webchat'') (lit ''HTTP/1.1'') [] (session_name 4712 815 @ 10 # lit ''hello''))) 30 0 sample_web = Inr (ret, w') \<and>
    chat_side (http_outside w') = [(30, not_found_text, 0)] \<and> strm_fd (http_strm (https w' 0)) = -1"
proof -
  let ?rs = "[(BRIDGE_PLUGIN, txt_of (lit ''http/webchat''), WebChatPage, ())]"
  obtain P where P: "plug_seq ref_aroop ref_table ?rs (composite_plugin_create ref_table) = Inr P" "plugins_wf ref_table P"
    "plugins_at ref_table P = requested ?rs"
    using plug_seq_fresh [OF ref_aroop_ok ref_table_ok, of ?rs] by auto
  have n: "length (session_name 4712 815) = 8" by (simp add: session_name_def dec_int_def dec_nat.simps)
  let ?V = "http_streams (web_http sample_web_env)"
  have "\<exists>cmd bin ret w'. wf_txt cmd \<and> str cmd = lit ''http/webchat '' @ session_name 4712 815 @ 10 # lit ''hello'' \<and>
    connection_packet (web_lib sample_web_env) 255 4712 NGINZ_HTTP_PORT cmd = Inr bin \<and>
    packed_msg bin (map wire_field [WInt 4712, WInt NGINZ_HTTP_PORT, WStr cmd]) \<and>
    http_on_client_data ref_table P (run_page sample_web_env) (web_http sample_web_env) (aroop_txt_buffer ref_aroop 1024)
      (Some (request_text (lit ''POST'') (lit ''/webchat'') (lit ''HTTP/1.1'') [] (session_name 4712 815 @ 10 # lit ''hello''))) 30 0 sample_web = Inr (ret, w') \<and>
    (let V = ?V; o1 = snd (raw_send_socket V 4712 30 bin (loop_unregister V 30 (http_outside sample_web)))
     in http_outside w' = loop_unregister V 30 (o1\<lparr>chat_side := chat_side o1 @ [(30, not_found_text, 0)]\<rparr>)) \<and>
    strm_fd (http_strm (https w' 0)) = -1"
    by (rule foreign_session_handed_over [where wr = "\<lambda>f bs fl l. l @ [(f, bs, fl)]" and d = "()", OF _ _ _ _ _ _ ref_table_ok P(2)])
      (simp_all add: P(3) requested_def n request_ok_def line_ok_def request_text_def NGINZ_MAX_HTTP_MSG_SIZE_def word_sle_eq lit_def)
  then obtain cmd bin ret w' where o: "str cmd = lit ''http/webchat '' @ session_name 4712 815 @ 10 # lit ''hello''"
    "connection_packet (web_lib sample_web_env) 255 4712 NGINZ_HTTP_PORT cmd = Inr bin"
    "http_on_client_data ref_table P (run_page sample_web_env) (web_http sample_web_env) (aroop_txt_buffer ref_aroop 1024)
      (Some (request_text (lit ''POST'') (lit ''/webchat'') (lit ''HTTP/1.1'') [] (session_name 4712 815 @ 10 # lit ''hello''))) 30 0 sample_web = Inr (ret, w')"
    "let V = ?V; o1 = snd (raw_send_socket V 4712 30 bin (loop_unregister V 30 (http_outside sample_web)))
     in http_outside w' = loop_unregister V 30 (o1\<lparr>chat_side := chat_side o1 @ [(30, not_found_text, 0)]\<rparr>)" "strm_fd (http_strm (https w' 0)) = -1"
    by blast
  have "chat_side (http_outside w') = [(30, not_found_text, 0)]"
    using o(4) by (simp add: sample_web_env_def sample_web_def)
  with o P(1) show ?thesis by auto
qed

lemma no_session_left_attached_witness:
  "\<exists>ret w'. run_page sample_web_env WebChatPage HTTP_SIGNATURE 0 sample_web = Inr (ret, w') \<and> bubble_down (http_strm (https w' 0)) = None"
proof -
  have k: "chat_keeps_links sample_web_env 0" by (auto simp: chat_keeps_links_def sample_web_env_def)
  have v: "is_valid_http 0 sample_web" by (simp add: is_valid_http_def is_valid_stream_def sample_web_def INVALID_FD_def)
  have "t_len (http_content (https sample_web 0)) = 0" by (simp add: sample_web_def)
  with v have "\<exists>ret w'. run_page sample_web_env WebChatPage HTTP_SIGNATURE 0 sample_web = Inr (ret, w')"
    by (simp add: http_webchat_plug_def http_webchat_get_sessionid_def Let_def http_webchat_create_helper_def web_session_alloc_def
        sample_web_env_def destroy_law webchat_chain_helper_def streamio_chain_def session_kind_def http_kind_def
        web_session_initialize_def streamio_initialize_def)
  then obtain ret w' where r: "run_page sample_web_env WebChatPage HTTP_SIGNATURE 0 sample_web = Inr (ret, w')" by blast
  have "bubble_down (http_strm (https w' 0)) = None" by (rule no_session_left_attached [OF k _ r]) simp
  with r show ?thesis by blast
qed

end
