(* ===== verification/SessionAge.thy ===== *)
theory SessionAge
  imports WebChat
begin

text \<open>
  How old a web session is, from its creation to the cleanup that closes it. The functions are those of
  \<open>apps/web_chat/src/web_session_factory.c\<close> and \<open>web_chat.c\<close> (theories \<open>WebSession\<close> and \<open>WebChat\<close>); this theory relates
  them over the life of a session: \<open>spares\<close> says that a step leaves alone what the cleanup looks at, every operation of
  the web chat is shown to spare the sessions it does not close, and \<open>used\<close> is what a process may do with a session
  between its creation and its cleanup.
\<close>

section \<open>What the cleanup looks at\<close>

text \<open>The step from \<open>w\<close> to \<open>w'\<close> leaves the age and the descriptor number of the session \<open>s\<close> alone, keeps it in the
  factory, and puts no session below an HTTP connection except those of \<open>D\<close>.\<close>

definition spares :: "nat set \<Rightarrow> nat \<Rightarrow> 'c web_world \<Rightarrow> 'c web_world \<Rightarrow> bool" where
  "spares D s w w' \<longleftrightarrow>
     last_activity (session s w') = last_activity (session s w) \<and>
     strm_fd (ws_strm (session s w')) = strm_fd (ws_strm (session s w)) \<and>
     (s \<in> set (web_session_factory (http_outside w)) \<longrightarrow> s \<in> set (web_session_factory (http_outside w'))) \<and>
     (distinct (web_session_factory (http_outside w)) \<longrightarrow> distinct (web_session_factory (http_outside w'))) \<and>
     (\<forall>s'. s' \<notin> D \<longrightarrow> bubble_up (ws_strm (session s' w)) = None \<longrightarrow> bubble_up (ws_strm (session s' w')) = None)"

lemma spares_refl [simp, intro]: "spares D s w w"
  by (simp add: spares_def)

lemma spares_trans: "spares D s w w1 \<Longrightarrow> spares D s w1 w2 \<Longrightarrow> spares D s w w2"
  by (simp add: spares_def)

lemma spares_more: "spares {} s w w' \<Longrightarrow> spares D s w w'"
  by (simp add: spares_def)

lemma spares_after:
  assumes "sessions (http_outside w2) = sessions (http_outside w1)"
    and "web_session_factory (http_outside w2) = web_session_factory (http_outside w1)"
  shows "spares D s w w2 \<longleftrightarrow> spares D s w w1"
  using assms by (simp add: spares_def session_def)

lemma spares_frames [simp]:
  "spares D s w (upd_http c h w') \<longleftrightarrow> spares D s w w'" "spares D s w (w'\<lparr>send_buf := b\<rparr>) \<longleftrightarrow> spares D s w w'"
  "spares D s w (upd_web (chat_side_update g) w') \<longleftrightarrow> spares D s w w'"
  "spares D s w (upd_web (\<lambda>o1. o1\<lparr>chat_side := h' (chat_side o1)\<rparr>) w') \<longleftrightarrow> spares D s w w'"
  "spares D s w (upd_web (session_gear_update k) w') \<longleftrightarrow> spares D s w w'"
  by (rule spares_after; simp add: upd_http_def upd_web_def)+

lemma spares_upd_session:
  assumes "spares D s w w'" and "s' = s \<Longrightarrow> last_activity (g (session s w')) = last_activity (session s w') \<and> 
      strm_fd (ws_strm (g (session s w'))) = strm_fd (ws_strm (session s w'))"
    and "s' \<notin> D \<Longrightarrow> bubble_up (ws_strm (session s' w')) = None \<Longrightarrow> bubble_up (ws_strm (g (session s' w'))) = None"
  shows "spares D s w (upd_session s' g w')"
proof -
  have eq: "session a (upd_session s' g w') = (if a = s' then g (session s' w') else session a w')" for a by simp
  show ?thesis using assms unfolding spares_def eq by (cases "s' = s") simp_all
qed

text \<open>The calls of the system below the HTTP server do not concern the sessions.\<close>

definition system_spares :: "'c web_env \<Rightarrow> bool" where
  "system_spares E \<longleftrightarrow>
     (let V = http_streams (web_http E); same = (\<lambda>o1 o2. sessions o2 = sessions o1 \<and> web_session_factory o2 = web_session_factory o1) in
      (\<forall>f bs fl o1. same o1 (snd (snd (sys_send V f bs fl o1)))) \<and>
      (\<forall>f o1. same o1 (sys_close V f o1)) \<and> (\<forall>f o1. same o1 (loop_unregister V f o1)) \<and>
      (\<forall>dest f bin o1. same o1 (snd (raw_send_socket V dest f bin o1))) \<and>
      (\<forall>u x fl o1. same o1 (snd (up_send V u x fl o1))) \<and> (\<forall>u o1. same o1 (snd (up_close V u o1))) \<and>
      (\<forall>u dest port cmd o1 r o2. up_transfer V u dest port cmd o1 = Inr (r, o2) \<longrightarrow> same o1 o2))"

lemma system_send:
  assumes "system_spares E" and "default_streamio_send (http_streams (web_http E)) x content flag o1 = (r, x', o2)"
  shows "sessions o2 = sessions o1 \<and> web_session_factory o2 = web_session_factory o1"
  using assms unfolding system_spares_def default_streamio_send_def Let_def
  by (auto split: option.splits prod.splits if_splits) (metis snd_conv)+

lemma system_transfer:
  assumes "system_spares E" and "default_transfer_parallel A (http_streams (web_http E)) x dest port cmd o1 = Inr (r, o2)"
  shows "sessions o2 = sessions o1 \<and> web_session_factory o2 = web_session_factory o1"
  using assms unfolding system_spares_def default_transfer_parallel_def Let_def
  by (auto split: option.splits elim!: ebind_InrE) (metis snd_conv)+

lemma spares_http_send [simp]:
  assumes "system_spares E"
  shows "spares D s w (http_send (web_http E) c content flag w') \<longleftrightarrow> spares D s w w'"
proof -
  obtain r x o1 where d: "default_streamio_send (http_streams (web_http E)) (http_strm (https w' c)) content flag (http_outside w') = (r, x, o1)"
    by (metis prod_cases3)
  from system_send [OF assms d] show ?thesis
    by (intro spares_after) (simp_all add: http_send_def d upd_http_def)
qed

lemma spares_tunnel [simp]:
  "system_spares E \<Longrightarrow> spares D s w (snd (http_tunnel_send_content (web_http E) c content flags w')) \<longleftrightarrow> spares D s w w'"
  by (simp add: http_tunnel_send_content_def Let_def split: option.split)

lemma spares_session_send [simp]:
  assumes "system_spares E"
  shows "spares D s w (session_send E s' content flag w') \<longleftrightarrow> spares D s w w'"
proof (cases "bubble_up (ws_strm (session s' w'))")
  case None
  let ?f = "strm_fd (ws_strm (session s' w'))"
  obtain r e o2 where o: "sys_send (http_streams (web_http E)) ?f (str content) flag (http_outside w') = (r, e, o2)" by (metis prod_cases3)
  have "sessions o2 = sessions (http_outside w') \<and> web_session_factory o2 = web_session_factory (http_outside w')"
    using assms o unfolding system_spares_def Let_def by (metis snd_conv)
  then have "spares D s w (w'\<lparr>http_outside := o2\<rparr>) \<longleftrightarrow> spares D s w w'" by (intro spares_after) simp_all
  moreover have "session_send E s' content flag w' = (if ?f = INVALID_FD then w' else w'\<lparr>http_outside := o2\<rparr>)"
    using None o by (simp add: session_send_def default_streamio_send_def session_streams_def Let_def)
  ultimately show ?thesis by simp
next
  case (Some u)
  obtain r w2 where t: "http_tunnel_send_content (web_http E) u (Some content) flag w' = (r, w2)" by fastforce
  have "session_send E s' content flag w' = w2"
    using Some t by (simp add: session_send_def default_streamio_send_def session_streams_def Let_def)
  then show ?thesis using spares_tunnel [OF assms, of D s w u "Some content" flag w'] t by simp
qed

lemma spares_wrapper:
  assumes "system_spares E"
  shows "spares D s w (snd (web_session_send_wrapper E s' content flags w))"
proof -
  have "spares D s w (snd (web_session_send_wrapper E s' content flags w)) \<longleftrightarrow> spares D s w w"
    using assms by (auto simp: web_session_send_wrapper_def Let_def split: option.split intro!: spares_upd_session)
  then show ?thesis by simp
qed

text \<open>The chat neither closes the session \<open>s\<close> nor puts a session below an HTTP connection.\<close>

definition chat_spares :: "'c web_env \<Rightarrow> nat \<Rightarrow> bool" where
  "chat_spares E s \<longleftrightarrow>
     (\<forall>f w. spares {} s w (snd (chat_on_create E f w))) \<and>
     (\<forall>a q w. spares {} s w (chat_set_request E a q w)) \<and>
     (\<forall>a y w w'. chat_on_recv E a y w = Inr w' \<longrightarrow> spares {} s w w') \<and>
     (\<forall>sp sg a w r w'. chat_bridge_call E sp sg a w = Inr (r, w') \<longrightarrow> spares {} s w w') \<and>
     (\<forall>a x w. spares {} s w (kput (chat_kind E) a x w) \<and> spares {} s w (kclose (chat_kind E) a w))"

text \<open>The pool hands out an object that is not in use and lists it once.\<close>

definition session_pool_ok :: "'c web_env \<Rightarrow> bool" where
  "session_pool_ok E \<longleftrightarrow>
     (\<forall>xs. session_pool_alloc E xs \<notin> set xs) \<and>
     (\<forall>s xs. s \<notin> set xs \<longrightarrow> set (session_pool_add E s xs) = insert s (set xs) \<and> (distinct xs \<longrightarrow> distinct (session_pool_add E s xs)))"


section \<open>Operations of the web chat\<close>

definition detached :: "'c web_world \<Rightarrow> bool" where
  "detached w \<longleftrightarrow> (\<forall>s. bubble_up (ws_strm (session s w)) = None)"

lemma detached_spared: "spares {} s w w' \<Longrightarrow> detached w \<Longrightarrow> detached w'"
  by (simp add: spares_def detached_def)

lemma spares_close:
  assumes "web_closes E un cl" and "spares D s w w'" and "bubble_up (ws_strm (session s' w')) = None" and "s' \<noteq> s"
  shows "spares D s w (snd (web_session_close_wrapper E s' w'))"
  using assms(2,4) by (auto simp: close_detached [OF assms(1,3)] closed_session_def intro!: spares_upd_session)

lemma chat_parts:
  assumes "chat_spares E s"
  shows "chat_on_create E f w = (a, w1) \<Longrightarrow> spares {} s w w1"
    and "spares {} s w (chat_set_request E d q w)"
    and "chat_on_recv E d y w = Inr w1 \<Longrightarrow> spares {} s w w1"
    and "chat_bridge_call E sp sg d w = Inr (r, w1) \<Longrightarrow> spares {} s w w1"
    and "spares {} s w (kput (chat_kind E) d x w)" and "spares {} s w (kclose (chat_kind E) d w)"
proof -
  show "chat_on_create E f w = (a, w1) \<Longrightarrow> spares {} s w w1"
    using assms unfolding chat_spares_def by (metis snd_conv)
qed (use assms in \<open>simp_all add: chat_spares_def\<close>)

lemma spares_chat_chain:
  assumes "chat_spares E s"
  shows "spares {} s w (snd (streamio_chain (session_kind E) (chat_kind E) s' d w))"
proof -
  note p = chat_parts(5,6) [OF assms]
  let ?w1 = "if bubble_up (kget (chat_kind E) d w) \<noteq> None then kclose (chat_kind E) d w else w"
  let ?w2 = "kput (chat_kind E) d ((kget (chat_kind E) d ?w1)\<lparr>bubble_up := Some s'\<rparr>) ?w1"
  let ?c = "kclose (chat_kind E) d ?w2"
  let ?w3 = "case bubble_down (kget (session_kind E) s' ?w2) of None \<Rightarrow> ?w2
    | Some e \<Rightarrow> let w' = kclose (chat_kind E) e ?w2 in kput (session_kind E) s' ((kget (session_kind E) s' w')\<lparr>bubble_down := None\<rparr>) w'"
  have put: "spares {} s w (kput (session_kind E) s' ((kget (session_kind E) s' v)\<lparr>bubble_down := q\<rparr>) v)" if "spares {} s w v" for v q
    unfolding kinds by (rule spares_upd_session [OF that]) simp_all
  have 1: "spares {} s w ?w1" using p by simp
  have 2: "spares {} s w ?w2" by (rule spares_trans [OF 1 p(1)])
  have "spares {} s w ?w3"
    using 2 spares_trans [OF 2 p(2)] put by (simp only: Let_def split: option.split) blast
  then show ?thesis by (simp only: streamio_chain_def Let_def snd_conv put)
qed

text \<open>A new session just before the chat is told of it.\<close>

lemma alloc_steps:
  fixes E :: "'c web_env" and w :: "'c web_world"
  defines "a \<equiv> session_pool_alloc E (web_session_factory (http_outside w))"
  obtains w4 d w5 where "chat_on_create E f w4 = (d, w5)"
    and "web_session_alloc E f given w = (case d of
            None \<Rightarrow> (None, snd (web_session_close_wrapper E a w5))
          | Some chat \<Rightarrow> (Some a, snd (streamio_chain (session_kind E) (chat_kind E) a chat w5)))"
    and "web_session_factory (http_outside w4) = session_pool_add E a (web_session_factory (http_outside w))"
    and "\<forall>s. s \<noteq> a \<longrightarrow> session s w4 = session s w"
    and "last_activity (session a w4) = web_time E" and "strm_fd (ws_strm (session a w4)) = f"
    and "bubble_up (ws_strm (session a w4)) = None"
proof -
  let ?w1 = "upd_web (\<lambda>o1. o1\<lparr>web_session_factory := session_pool_add E a (web_session_factory o1)\<rparr>) w"
  let ?w2 = "upd_session a (\<lambda>x. ws_strm_update (strm_fd_update (\<lambda>_. f)) (web_session_initialize (web_time E) x)) ?w1"
  obtain r c' where rnd: "web_rand E (chat_side (http_outside ?w2)) = (r, c')" by fastforce
  let ?w3 = "case given of
      None \<Rightarrow> upd_session a (ws_sid_update (\<lambda>_. new_session_id (web_lib E) (web_getpid E) r)) (upd_web (\<lambda>o1. o1\<lparr>chat_side := c'\<rparr>) ?w2)
    | Some x \<Rightarrow> upd_session a (ws_sid_update (\<lambda>_. aroop_txt_copy_deep (web_lib E) x)) ?w2"
  let ?w4 = "upd_session a (\<lambda>x. x\<lparr>ws_hash := aroop_txt_get_hash E (ws_sid x)\<rparr>) ?w3"
  obtain d w5 where c: "chat_on_create E f ?w4 = (d, w5)" by fastforce
  have fac: "web_session_factory (http_outside (upd_web g v)) = web_session_factory (g (http_outside v))" "session s (upd_web g v) = sessions (g (http_outside v)) s"
    for g s and v :: "'c web_world" by (simp_all add: upd_web_def session_def)
  show ?thesis
  proof (rule that [OF c])
    show "web_session_alloc E f given w = (case d of
            None \<Rightarrow> (None, snd (web_session_close_wrapper E a w5))
          | Some chat \<Rightarrow> (Some a, snd (streamio_chain (session_kind E) (chat_kind E) a chat w5)))"
      unfolding web_session_alloc_def Let_def a_def [symmetric] using c rnd by (cases given) simp_all
    show "web_session_factory (http_outside ?w4) = session_pool_add E a (web_session_factory (http_outside w))"
      by (cases given) (simp_all add: fac)
    show "\<forall>s. s \<noteq> a \<longrightarrow> session s ?w4 = session s w"
      by (cases given) (simp_all add: fac session_def [symmetric])
    show "last_activity (session a ?w4) = web_time E" "strm_fd (ws_strm (session a ?w4)) = f" "bubble_up (ws_strm (session a ?w4)) = None"
      by (cases given; simp add: web_session_initialize_def streamio_initialize_def)+
  qed
qed

lemma spares_alloc:
  assumes "web_closes E un cl" and "chat_spares E s" and "session_pool_ok E" and "s \<in> set (web_session_factory (http_outside w))"
  shows "spares {} s w (snd (web_session_alloc E f given w))"
proof -
  let ?a = "session_pool_alloc E (web_session_factory (http_outside w))"
  have a: "?a \<notin> set (web_session_factory (http_outside w))" "?a \<noteq> s" using assms(3,4) by (metis session_pool_ok_def)+
  obtain w4 d w5 where c: "chat_on_create E f w4 = (d, w5)"
    and e: "web_session_alloc E f given w = (case d of
            None \<Rightarrow> (None, snd (web_session_close_wrapper E ?a w5))
          | Some chat \<Rightarrow> (Some ?a, snd (streamio_chain (session_kind E) (chat_kind E) ?a chat w5)))"
    and fac: "web_session_factory (http_outside w4) = session_pool_add E ?a (web_session_factory (http_outside w))"
    and other: "\<forall>s. s \<noteq> ?a \<longrightarrow> session s w4 = session s w"
    and "last_activity (session ?a w4) = web_time E" "strm_fd (ws_strm (session ?a w4)) = f" and up: "bubble_up (ws_strm (session ?a w4)) = None"
    by (rule alloc_steps [where E = E and f = f and w = w and given = given])
  have "bubble_up (ws_strm (session s' w)) = None \<Longrightarrow> bubble_up (ws_strm (session s' w4)) = None" for s'
    using other up by (cases "s' = ?a") simp_all
  moreover have "session s w4 = session s w" using other a(2) by simp
  moreover have "set (session_pool_add E ?a xs) = insert ?a (set xs) \<and> (distinct xs \<longrightarrow> distinct (session_pool_add E ?a xs))" if "?a \<notin> set xs" for xs
    using assms(3) that unfolding session_pool_ok_def by metis
  ultimately have "spares {} s w w4" using a(1) assms(4) by (simp add: spares_def fac)
  note w5 = spares_trans [OF this chat_parts(1) [OF assms(2) c]]
  have "bubble_up (ws_strm (session ?a w5)) = None" using chat_parts(1) [OF assms(2) c] up by (simp add: spares_def)
  with w5 show ?thesis
    unfolding e using spares_close [OF assms(1) w5 _ a(2)] spares_trans [OF w5 spares_chat_chain [OF assms(2)]] by (cases d) simp_all
qed

lemma alloc_creates:
  assumes "chat_spares E s" and "session_pool_ok E" and "web_session_alloc E f given w = (Some s, w')"
    and "detached w" and "distinct (web_session_factory (http_outside w))"
  shows "last_activity (session s w') = web_time E" and "strm_fd (ws_strm (session s w')) = f"
    and "s \<in> set (web_session_factory (http_outside w'))" and "distinct (web_session_factory (http_outside w'))" and "detached w'"
proof -
  let ?a = "session_pool_alloc E (web_session_factory (http_outside w))"
  obtain w4 d w5 where c: "chat_on_create E f w4 = (d, w5)"
    and e: "web_session_alloc E f given w = (case d of
            None \<Rightarrow> (None, snd (web_session_close_wrapper E ?a w5))
          | Some chat \<Rightarrow> (Some ?a, snd (streamio_chain (session_kind E) (chat_kind E) ?a chat w5)))"
    and fac: "web_session_factory (http_outside w4) = session_pool_add E ?a (web_session_factory (http_outside w))"
    and other: "\<forall>s. s \<noteq> ?a \<longrightarrow> session s w4 = session s w"
    and new: "last_activity (session ?a w4) = web_time E" "strm_fd (ws_strm (session ?a w4)) = f" "bubble_up (ws_strm (session ?a w4)) = None"
    by (rule alloc_steps [where E = E and f = f and w = w and given = given])
  from e assms(3) obtain chat where s: "s = ?a" and w': "w' = snd (streamio_chain (session_kind E) (chat_kind E) s chat w5)"
    by (auto split: option.splits)
  have "spares {} s w4 w'" unfolding w' by (rule spares_trans [OF chat_parts(1) [OF assms(1) c] spares_chat_chain [OF assms(1)]])
  moreover have "?a \<notin> set (web_session_factory (http_outside w))" using assms(2) by (simp add: session_pool_ok_def)
  then have "s \<in> set (web_session_factory (http_outside w4))" "distinct (web_session_factory (http_outside w4))"
    using assms(2,5) s by (simp_all add: fac session_pool_ok_def)
  moreover have "detached w4" unfolding detached_def
  proof
    show "bubble_up (ws_strm (session s' w4)) = None" for s'
      using other new(3) assms(4) by (cases "s' = ?a") (simp_all add: detached_def)
  qed
  ultimately show "last_activity (session s w') = web_time E" "strm_fd (ws_strm (session s w')) = f"
    "s \<in> set (web_session_factory (http_outside w'))" "distinct (web_session_factory (http_outside w'))" "detached w'"
    using new s by (simp_all add: spares_def detached_def)
qed


section \<open>Requests\<close>

lemma spares_chain_helper:
  assumes "detached w" and "attached c w = None"
  shows "spares {s'} s w (webchat_chain_helper E c s' w)"
proof -
  have "webchat_chain_helper E c s' w = upd_http c (http_strm_update (transfer_method_update (\<lambda>_. Overridden 2)))
      (kput (session_kind E) s' ((kget (session_kind E) s' w)\<lparr>bubble_up := Some c\<rparr>)
        (kput (http_kind (web_http E)) c ((kget (http_kind (web_http E)) c w)\<lparr>bubble_down := Some s'\<rparr>) w))"
    using assms by (simp add: webchat_chain_helper_def hs.chain_free kinds attached_def detached_def)
  then show ?thesis by (auto simp: kinds intro!: spares_upd_session)
qed

lemma spares_unchain:
  assumes "spares (set_option d) s w w'"
  shows "spares {} s w (web_unchain E c d w')"
proof (cases d)
  case None
  then show ?thesis using assms by (simp add: web_unchain_def)
next
  case (Some s')
  have e: "session a (upd_session s' (\<lambda>x. x\<lparr>ws_strm := (ws_strm x)\<lparr>bubble_up := None\<rparr>\<rparr>) w') =
      (if a = s' then (session s' w')\<lparr>ws_strm := (ws_strm (session s' w'))\<lparr>bubble_up := None\<rparr>\<rparr> else session a w')" for a by simp
  have "spares {} s w (upd_session s' (\<lambda>x. x\<lparr>ws_strm := (ws_strm x)\<lparr>bubble_up := None\<rparr>\<rparr>) w')"
    using assms Some unfolding spares_def e by (cases "s = s'") simp_all
  then show ?thesis by (simp add: Some web_unchain_effect)
qed

lemma spares_process:
  assumes "system_spares E" and "chat_spares E s" and "webchat_process E c s' y w = Inr w'"
  shows "spares {} s w w'"
proof -
  from assms(3) obtain chat w1 where r: "chat_on_recv E chat y w = Inr w1"
    and w': "w' = (if \<not> is_processed (https w1 c) \<and> \<not> has (http_state (https w1 c)) (HTTP_SOFT_QUIT OR HTTP_QUIT) then
                 let w2 = (if t_len (ws_msg (session s' w1)) = 0
                           then snd (web_session_send_wrapper E s' (Some (aroop_txt_static_string (web_lib E) (lit '' ''))) 0 w1)
                           else w1)
                 in if t_len (ws_msg (session s' w2)) \<noteq> 0
                    then upd_session s' (ws_msg_update (\<lambda>m. aroop_txt_set_length (web_lib E) m 0)) (session_send E s' (ws_msg (session s' w2)) 0 w2)
                    else w2
               else w1)"
    by (auto simp: webchat_process_def Let_def elim!: ebind_InrE split: option.splits)
  note r1 = chat_parts(3) [OF assms(2) r]
  let ?w2 = "if t_len (ws_msg (session s' w1)) = 0 then snd (web_session_send_wrapper E s' (Some (aroop_txt_static_string (web_lib E) (lit '' ''))) 0 w1) else w1"
  have w2: "spares {} s w ?w2" using r1 spares_trans [OF r1 spares_wrapper [OF assms(1)]] by simp
  have "spares {} s w (upd_session s' (ws_msg_update g) (session_send E s' m 0 ?w2))" for g m
    by (rule spares_upd_session) (use w2 spares_session_send [OF assms(1), of "{}" s w s' m 0 ?w2] in simp_all)
  then show ?thesis unfolding w' Let_def using w2 r1 by (simp only: split: if_split) blast
qed

lemma spares_create:
  assumes "system_spares E" and "web_closes E un cl" and "chat_spares E s" and "session_pool_ok E"
    and "s \<in> set (web_session_factory (http_outside w))" and "detached w" and "chat_keeps_links E c" and n: "attached c w = None"
    and create: "http_webchat_create_helper E c sp q w = Inr (d, w')"
  shows "spares (set_option d) s w w'"
proof -
  let ?f = "strm_fd (http_strm (https w c))"
  obtain d1 w1 where al: "web_session_alloc E ?f None w = (d1, w1)" by fastforce
  from spares_alloc [OF assms(2-5), of ?f None] al have w1: "spares {} s w w1" by simp
  from attached_alloc [OF assms(7), of ?f None w] al n have n1: "attached c w1 = None" by simp
  show ?thesis
  proof (cases d1)
    case None
    with create al w1 show ?thesis by (auto simp: http_webchat_create_helper_def elim!: ebind_InrE)
  next
    case (Some s')
    let ?w2 = "webchat_chain_helper E c s' w1"
    from Some create al obtain chat r w3 where d: "d = Some s'" "w' = chat_set_request E chat None w3"
      and b: "chat_bridge_call E sp CHAT_SIGNATURE chat (chat_set_request E chat q ?w2) = Inr (r, w3)"
      by (auto simp: http_webchat_create_helper_def Let_def elim!: ebind_InrE split: option.splits)
    have w2: "spares {s'} s w ?w2"
      by (rule spares_trans [OF spares_more [OF w1] spares_chain_helper [OF detached_spared [OF w1 assms(6)] n1]])
    note p = chat_parts [OF assms(3)]
    show ?thesis
      unfolding d option.set
      by (rule spares_trans [OF w2 spares_more [OF spares_trans [OF spares_trans [OF p(2) p(4) [OF b]] p(2)]]])
  qed
qed


lemma spares_webchat:
  assumes sys: "system_spares E" and cl: "web_closes E un cl" and chat: "chat_spares E s" and pool: "session_pool_ok E"
    and s: "s \<in> set (web_session_factory (http_outside w))" and d: "detached w" and k: "chat_keeps_links E c"
    and n: "attached c w = None" and r: "http_webchat_plug E signature c w = Inr (ret, w')"
  shows "spares {} s w w'"
proof (cases "is_valid_http c w")
  case False
  then show ?thesis using r by (auto simp: http_webchat_plug_def elim!: ebind_InrE)
next
  case True
  let ?w1 = "upd_http c (is_processed_update (\<lambda>_. False)) w"
  from True r obtain res x y pid where
    run: "(if pid \<noteq> -1 \<and> pid \<noteq> web_getpid E
       then ebind (webchat_transfer_parallel E c pid x y ?w1) (\<lambda>(ret, w2). Inr (of_int ret, w2))
       else
         let attached = bubble_down (http_strm (https ?w1 c));
             found = (if attached = None \<and> t_len x \<noteq> 0 then web_session_search E x ?w1 else None);
             webchat = (if attached = None then found else attached);
             w2 = (case found of None \<Rightarrow> ?w1 | Some s \<Rightarrow> webchat_chain_helper E c s ?w1)
         in ebind
              (case webchat of
                 None \<Rightarrow> http_webchat_create_helper E c (aroop_txt_static_string (web_lib E) (lit ''chat/_welcome'')) None w2
               | Some s \<Rightarrow>
                   if is_processed (https w2 c) then Inr (Some s, w2)
                   else ebind (webchat_process E c s y w2) (\<lambda>w3. Inr (Some s, w3)))
              (\<lambda>(webchat', w3). Inr (0, web_unchain E c webchat' w3))) = Inr (ret, w')"
    by (auto simp: http_webchat_plug_def Let_def elim!: ebind_InrE)
  have n1: "attached c ?w1 = None" "bubble_down (http_strm (https ?w1 c)) = None" using n by (simp_all add: attached_def)
  have w1: "spares {} s w ?w1" by simp
  have d1: "detached ?w1" using detached_spared [OF w1 d] .
  show ?thesis
  proof (cases "pid \<noteq> -1 \<and> pid \<noteq> web_getpid E")
    case True
    with run obtain r1 w2 where t: "webchat_transfer_parallel E c pid x y ?w1 = Inr (r1, w2)" "w' = w2" by (auto elim!: ebind_InrE)
    then obtain r2 o2 where "default_transfer_parallel (web_lib E) (http_streams (web_http E)) (http_strm (https ?w1 c)) pid NGINZ_HTTP_PORT
        (webchat_transfer_command (web_lib E) x y) (http_outside ?w1) = Inr (r2, o2)"
      and w': "w' = upd_http c (\<lambda>x. x\<lparr>http_state := http_state x OR CHAT_SOFT_QUIT\<rparr>) (?w1\<lparr>http_outside := o2\<rparr>)"
      by (auto simp: webchat_transfer_parallel_def http_transfer_def elim!: ebind_InrE)
    from system_transfer [OF sys this(1)] have "spares {} s w (?w1\<lparr>http_outside := o2\<rparr>) \<longleftrightarrow> spares {} s w ?w1"
      by (intro spares_after) simp_all
    with w1 show ?thesis unfolding w' by (simp only: spares_frames)
  next
    case False
    show ?thesis
    proof (cases "if t_len x \<noteq> 0 then web_session_search E x ?w1 else None")
      case None
      with False run n1 obtain webchat w3 where
        c: "http_webchat_create_helper E c (aroop_txt_static_string (web_lib E) (lit ''chat/_welcome'')) None ?w1 = Inr (webchat, w3)"
        "w' = web_unchain E c webchat w3"
        by (auto simp: Let_def elim!: ebind_InrE split del: if_split)
      have "s \<in> set (web_session_factory (http_outside ?w1))" using s by simp
      from spares_create [OF sys cl chat pool this d1 k n1(1) c(1)] show ?thesis
        unfolding c(2) by (intro spares_unchain spares_trans [OF spares_more [OF w1]])
    next
      case (Some s')
      let ?w2 = "webchat_chain_helper E c s' ?w1"
      have w2: "spares {s'} s w ?w2" by (rule spares_trans [OF spares_more [OF w1] spares_chain_helper [OF d1 n1(1)]])
      from Some False run n1 obtain w3 where
        w3: "w3 = ?w2 \<or> webchat_process E c s' y ?w2 = Inr w3" "w' = web_unchain E c (Some s') w3"
        by (auto simp: Let_def elim!: ebind_InrE split: if_splits)
      have "spares (set_option (Some s')) s w w3"
        using w3(1) w2 spares_trans [OF w2 spares_more [OF spares_process [OF sys chat]]] by auto
      then show ?thesis unfolding w3(2) by (rule spares_unchain)
    qed
  qed
qed

lemma spares_session_transfer:
  assumes sys: "system_spares E" and cl: "web_closes E un cl" and chat: "chat_spares E s" and pool: "session_pool_ok E"
    and s: "s \<in> set (web_session_factory (http_outside w))" and d: "detached w" and k: "chat_keeps_links E c"
    and n: "attached c w = None" and r: "http_web_session_transfer_plug E signature c w = Inr (ret, w')"
  shows "spares {} s w w'"
proof (cases "is_valid_http c w")
  case False
  then show ?thesis using r by (auto simp: http_web_session_transfer_plug_def elim!: ebind_InrE)
next
  case True
  with r obtain q webchat w1 where
    c: "http_webchat_create_helper E c (aroop_txt_static_string (web_lib E) (lit ''chat/_hiddenjoin'')) q w = Inr (webchat, w1)"
    and w': "w' = web_unchain E c (attached c w1) w1"
    by (auto simp: http_web_session_transfer_plug_def Let_def attached_def elim!: ebind_InrE)
  show ?thesis
    unfolding w' attached_create [OF k n c] by (rule spares_unchain [OF spares_create [OF sys cl chat pool s d k n c]])
qed

lemma spares_page:
  assumes sys: "system_spares E" and cl: "web_closes E un cl" and chat: "chat_spares E s" and pool: "session_pool_ok E"
    and s: "s \<in> set (web_session_factory (http_outside w))" and d: "detached w" and k: "chat_keeps_links E c"
    and n: "attached c w = None" and r: "run_page E p signature c w = Inr (ret, w')"
  shows "spares {} s w w'"
proof (cases p)
  case WebChatPage
  then show ?thesis using spares_webchat [OF sys cl chat pool s d k n] r by simp
next
  case SessionTransferPage
  then show ?thesis using spares_session_transfer [OF sys cl chat pool s d k n] r by simp
next
  case ChatPage
  then show ?thesis using r sys by (auto simp: http_page_chat_plug_def elim!: ebind_InrE split: if_splits)
qed


section \<open>Earlier cleanups\<close>

lemma sweep_factory:
  assumes "web_closes E un cl"
  shows "detached w \<Longrightarrow> web_session_factory (http_outside (session_sweep_loop E t ss w)) = web_session_factory (http_outside w)"
proof (induction ss arbitrary: w)
  case Nil
  then show ?case by simp
next
  case (Cons a ss)
  have a: "bubble_up (ws_strm (session a w)) = None" using Cons.prems by (simp add: detached_def)
  let ?w1 = "snd (web_session_close_wrapper E a w)"
  have "session s ?w1 = (if s = a then closed_session E (session a w) else session s w)" for s
    by (simp add: close_detached [OF assms a])
  then have "detached ?w1" using Cons.prems by (simp add: detached_def closed_session_def)
  moreover have "web_session_factory (http_outside ?w1) = web_session_factory (http_outside w)"
    by (simp add: close_detached [OF assms a] upd_web_def)
  ultimately show ?case using Cons.IH [of ?w1] Cons.IH [OF Cons.prems] by simp
qed

lemma spares_cleanup:
  assumes "web_closes E un cl" and "detached w" and "distinct (web_session_factory (http_outside w))"
    and "web_time E - last_activity (session s w) < 120"
  shows "spares {} s w (snd (web_session_cleanup_fiber E w))"
proof (cases "session_gear (http_outside w) = 1000")
  case False
  then show ?thesis by (simp add: web_session_cleanup_fiber_def Let_def)
next
  case True
  let ?w0 = "upd_web (session_gear_update (\<lambda>_. 0)) w" and ?ss = "web_session_factory (http_outside w)"
  let ?w1 = "session_sweep_loop E (web_time E) ?ss ?w0"
  have w0: "session a ?w0 = session a w" for a by (simp add: session_def upd_web_def)
  have d: "detached ?w0" "\<forall>a \<in> set ?ss. bubble_up (ws_strm (session a ?w0)) = None" using assms(2) by (simp_all add: detached_def w0)
  have "\<forall>a. session a ?w1 = (if a \<in> set ?ss \<and> 120 \<le> web_time E - last_activity (session a w) then closed_session E (session a w) else session a w)"
    using sweep_loop_effect [OF assms(1,3) d(2), of "web_time E"] by (simp add: Let_def w0)
  moreover have "web_session_factory (http_outside ?w1) = ?ss" using sweep_factory [OF assms(1) d(1)] by (simp add: upd_web_def)
  ultimately have "spares {} s w ?w1" using assms(4) by (simp add: spares_def closed_session_def)
  with True show ?thesis by (simp add: web_session_cleanup_fiber_def Let_def)
qed

section \<open>The life of a session\<close>

text \<open>What a process may do from the world \<open>w1\<close>, in which the session \<open>s\<close> has just been created at the time \<open>t0\<close>: serve
  requests of any session on any connection at any time (also those that create sessions), send to any session, run the
  cleanup as long as \<open>s\<close> is younger than 120 seconds, and anything else that spares \<open>s\<close>.\<close>

inductive used :: "'c web_env \<Rightarrow> nat \<Rightarrow> int \<Rightarrow> 'c web_world \<Rightarrow> 'c web_world \<Rightarrow> bool" for E s t0 w1 where
  unused: "used E s t0 w1 w1"
| request: "used E s t0 w1 w \<Longrightarrow> attached c w = None \<Longrightarrow> run_page (E\<lparr>web_time := t\<rparr>) p signature c w = Inr (ret, w') \<Longrightarrow> used E s t0 w1 w'"
| answer: "used E s t0 w1 w \<Longrightarrow> used E s t0 w1 (snd (web_session_send_wrapper E s' content flags w))"
| cleanup: "used E s t0 w1 w \<Longrightarrow> t - t0 < 120 \<Longrightarrow> used E s t0 w1 (snd (web_session_cleanup_fiber (E\<lparr>web_time := t\<rparr>) w))"
| elsewhere: "used E s t0 w1 w \<Longrightarrow> spares {} s w w' \<Longrightarrow> used E s t0 w1 w'"

lemma clock_irrelevant:
  "system_spares (E\<lparr>web_time := t\<rparr>) = system_spares E" "web_closes (E\<lparr>web_time := t\<rparr>) un cl = web_closes E un cl"
  "chat_spares (E\<lparr>web_time := t\<rparr>) s = chat_spares E s" "session_pool_ok (E\<lparr>web_time := t\<rparr>) = session_pool_ok E"
  "chat_keeps_links (E\<lparr>web_time := t\<rparr>) c = chat_keeps_links E c" "closed_session (E\<lparr>web_time := t\<rparr>) = closed_session E"
  by (simp_all add: system_spares_def web_closes_def chat_spares_def session_pool_ok_def chat_keeps_links_def closed_session_def fun_eq_iff)

lemma used_spares:
  assumes "used E s t0 w1 w" and sys: "system_spares E" and cl: "web_closes E un cl" and chat: "chat_spares E s" and pool: "session_pool_ok E"
    and k: "\<forall>c. chat_keeps_links E c" and s: "s \<in> set (web_session_factory (http_outside w1))" and d: "detached w1"
    and fac: "distinct (web_session_factory (http_outside w1))" and t0: "last_activity (session s w1) = t0"
  shows "spares {} s w1 w"
  using assms(1)
proof (induction rule: used.induct)
  case unused
  show ?case by simp
next
  case (request w c t p signature ret w')
  have "s \<in> set (web_session_factory (http_outside w))" using request.IH s by (simp add: spares_def)
  from spares_page [OF _ _ _ _ this detached_spared [OF request.IH d] _ request.hyps(2,3)] show ?case
    using sys cl chat pool k spares_trans [OF request.IH] unfolding clock_irrelevant by blast
next
  case (answer w s' content flags)
  show ?case by (rule spares_trans [OF answer.IH spares_wrapper [OF sys]])
next
  case (cleanup w t)
  have "distinct (web_session_factory (http_outside w))" "last_activity (session s w) = t0"
    using cleanup.IH fac t0 by (simp_all add: spares_def)
  with spares_cleanup [of "E\<lparr>web_time := t\<rparr>" un cl, OF _ detached_spared [OF cleanup.IH d]] cl cleanup.hyps(2)
  have "spares {} s w (snd (web_session_cleanup_fiber (E\<lparr>web_time := t\<rparr>) w))" by (simp add: clock_irrelevant)
  then show ?case by (rule spares_trans [OF cleanup.IH])
next
  case (elsewhere w w')
  show ?case by (rule spares_trans [OF elsewhere.IH elsewhere.hyps(2)])
qed

section \<open>Properties\<close>

text \<open>(C40) A web session is closed 120 seconds after it was created, used or not: whatever the process did since the
  session was created at the time \<open>t0\<close> from an HTTP connection with the descriptor number \<open>f\<close> (serving its requests,
  sending to it; only not closing it), a cleanup at the time \<open>t\<close> closes it exactly if 120 seconds have passed since
  \<open>t0\<close>. The session still holds \<open>f\<close>, and closing it unregisters and closes that number, which may belong to another
  client by then; the cleanup closes the numbers of all old sessions, in the order of the pool, and changes no other
  session.\<close>

theorem cleanup_closes_old_sessions:
  assumes "system_spares E" and "web_closes E un cl" and "session_pool_ok E" and "\<forall>c. chat_keeps_links E c"
    and "detached w0" and "distinct (web_session_factory (http_outside w0))"
    and "web_session_alloc (E\<lparr>web_time := t0\<rparr>) f given w0 = (Some s, w1)" and "chat_spares E s"
    and "used E s t0 w1 w" and "session_gear (http_outside w) = 1000"
  shows "\<exists>w'. web_session_cleanup_fiber (E\<lparr>web_time := t\<rparr>) w = (0, w') \<and>
    (let old = filter (\<lambda>a. 120 \<le> t - last_activity (session a w)) (web_session_factory (http_outside w))
     in (s \<in> set old \<longleftrightarrow> 120 \<le> t - t0) \<and> strm_fd (ws_strm (session s w)) = f \<and>
        chat_side (http_outside w') = fold (close_fd un cl) (map (\<lambda>a. strm_fd (ws_strm (session a w))) old) (chat_side (http_outside w)) \<and>
        (\<forall>a. session a w' = (if a \<in> set old then closed_session E (session a w) else session a w)))"
proof -
  from alloc_creates [of "E\<lparr>web_time := t0\<rparr>" s f given w0 w1] assms(3,5-8)
  have w1: "last_activity (session s w1) = t0" "strm_fd (ws_strm (session s w1)) = f" "s \<in> set (web_session_factory (http_outside w1))"
    "distinct (web_session_factory (http_outside w1))" "detached w1" by (simp_all add: clock_irrelevant)
  have sp: "spares {} s w1 w" by (rule used_spares [OF assms(9,1,2,8,3,4) w1(3,5,4,1)])
  have w: "detached w" by (rule detached_spared [OF sp w1(5)])
  have "distinct (web_session_factory (http_outside w))" "\<forall>a \<in> set (web_session_factory (http_outside w)). bubble_up (ws_strm (session a w)) = None"
    using sp w1(4) w by (simp_all add: spares_def detached_def)
  from cleanup_sweeps [of "E\<lparr>web_time := t\<rparr>" un cl, OF _ this(1) assms(10) this(2)] assms(2) obtain w' where
    w': "web_session_cleanup_fiber (E\<lparr>web_time := t\<rparr>) w = (0, w')"
    "let old = filter (\<lambda>a. 120 \<le> t - last_activity (session a w)) (web_session_factory (http_outside w))
     in chat_side (http_outside w') = fold (close_fd un cl) (map (\<lambda>a. strm_fd (ws_strm (session a w))) old) (chat_side (http_outside w)) \<and>
        (\<forall>a. session a w' = (if a \<in> set old then closed_session E (session a w) else session a w))"
    by (auto simp: clock_irrelevant)
  moreover have "s \<in> set (web_session_factory (http_outside w))" "last_activity (session s w) = t0" "strm_fd (ws_strm (session s w)) = f"
    using sp w1(1-3) by (simp_all add: spares_def)
  ultimately show ?thesis by (intro exI [of _ w']) (simp add: Let_def)
qed


lemma gear_frames [simp]:
  "session a (upd_web (session_gear_update k) w) = session a w"
  "web_session_factory (http_outside (upd_web (session_gear_update k) w)) = web_session_factory (http_outside w)"
  "chat_side (http_outside (upd_web (session_gear_update k) w)) = chat_side (http_outside w)"
  "session_gear (http_outside (upd_web (session_gear_update k) w)) = k (session_gear (http_outside w))"
  by (simp_all add: session_def upd_web_def)

lemma cleanup_closes_old_sessions_witness:
  "\<exists>w1 w w'. web_session_alloc (sample_web_env\<lparr>web_time := 1000\<rparr>) 31 None sample_web = (Some 6, w1) \<and>
    used sample_web_env 6 1000 w1 w \<and> str (ws_msg (session 6 w)) = session_name 4711 815 @ 10 # lit ''Ada: hi'' \<and>
    web_session_cleanup_fiber (sample_web_env\<lparr>web_time := 1120\<rparr>) w = (0, w') \<and>
    chat_side (http_outside w') = [(25, [], -1), (31, [], -1)] \<and> strm_fd (ws_strm (session 6 w')) = INVALID_FD"
proof -
  let ?E = "sample_web_env" and ?un = "\<lambda>(f :: int) (c :: (int \<times> bytes \<times> int) list). c" and ?cl = "\<lambda>f c. c @ [(f, [], -1)]"
  obtain w1 where al: "web_session_alloc (?E\<lparr>web_time := 1000\<rparr>) 31 None sample_web = (Some 6, w1)"
    and w1: "web_session_factory (http_outside w1) = [5, 6]" "session 5 w1 = session 5 sample_web" "chat_side (http_outside w1) = []"
      "ws_msg (session 6 w1) = zero_txt" "wf_txt (ws_sid (session 6 w1))" "str (ws_sid (session 6 w1)) = session_name 4711 815"
      "bubble_up (ws_strm (session 6 w1)) = None"
    using new_session_id_name [OF ref_aroop_ok, of 4711 815]
    by (auto simp: web_session_alloc_def Let_def sample_web_env_def sample_web_def session_def upd_session_def upd_web_def
      web_session_initialize_def streamio_initialize_def streamio_chain_def session_kind_def word_sle_eq)
  let ?m = "txt_of (lit ''Ada: hi'')"
  let ?w2 = "snd (web_session_send_wrapper ?E 6 (Some ?m) 0 w1)"
  let ?w = "upd_web (session_gear_update (\<lambda>_. 1000)) ?w2"
  have n: "length (session_name 4711 815) = 8" by (simp add: session_name_def dec_int_def dec_nat.simps)
  have "cache_holds (ws_msg (session 6 w1)) []" by (simp add: w1 cache_holds_def)
  from send_fills_cache [of ?E 6 w1 "[]" ?m 0, OF _ this w1(5)] w1(6,7) n obtain m where
    m: "?w2 = upd_session 6 (ws_msg_update (\<lambda>_. m)) w1" "str m = session_name 4711 815 @ 10 # lit ''Ada: hi''"
    by (auto simp: cache_holds_def NGINZ_MAX_WEBCHAT_MSG_SIZE_def Let_def lit_def)
  have u: "used ?E 6 1000 w1 ?w"
    by (rule used.elsewhere [OF used.answer [OF used.unused, where s' = 6 and content = "Some ?m" and flags = 0]]) simp
  have hyps: "system_spares ?E" "web_closes ?E ?un ?cl" "session_pool_ok ?E" "\<forall>c. chat_keeps_links ?E c" "detached sample_web"
    "distinct (web_session_factory (http_outside sample_web))" "chat_spares ?E 6"
    by (auto simp: system_spares_def Let_def web_closes_def session_pool_ok_def chat_keeps_links_def detached_def chat_spares_def
        sample_web_env_def sample_web_def session_def streamio_initialize_def dest: member_le_sum_list)
  have "session_gear (http_outside ?w) = 1000" by (simp add: upd_web_def)
  from cleanup_closes_old_sessions [OF hyps(1-6) al hyps(7) u this, of 1120] obtain w' where
    w': "web_session_cleanup_fiber (?E\<lparr>web_time := 1120\<rparr>) ?w = (0, w')"
    "let old = filter (\<lambda>a. 120 \<le> 1120 - last_activity (session a ?w)) (web_session_factory (http_outside ?w))
     in (6 \<in> set old \<longleftrightarrow> 120 \<le> (1120 :: int) - 1000) \<and> strm_fd (ws_strm (session 6 ?w)) = 31 \<and>
        chat_side (http_outside w') = fold (close_fd ?un ?cl) (map (\<lambda>a. strm_fd (ws_strm (session a ?w))) old) (chat_side (http_outside ?w)) \<and>
        (\<forall>a. session a w' = (if a \<in> set old then closed_session ?E (session a ?w) else session a ?w))"
    by blast
  have w: "web_session_factory (http_outside ?w) = [5, 6]" "chat_side (http_outside ?w) = []" "str (ws_msg (session 6 ?w)) = session_name 4711 815 @ 10 # lit ''Ada: hi''"
    "last_activity (session 5 ?w) = 800" "strm_fd (ws_strm (session 5 ?w)) = 25"
    using w1 m(2) by (simp_all add: m(1)) (simp_all add: sample_web_def session_def streamio_initialize_def)
  have "chat_side (http_outside w') = [(25, [], -1), (31, [], -1)] \<and> strm_fd (ws_strm (session 6 w')) = INVALID_FD"
    using w'(2) w by (auto simp: Let_def close_fd_def INVALID_FD_def closed_session_def split: if_splits)
  with al u w(3) w'(1) show ?thesis by blast
qed

end
