(* ===== verification/Shake.thy ===== *)
theory Shake
  imports PluginManager Scanner EventLoop AsyncRequest
begin

text \<open>
  The control shell, \<open>base/src/shake.c\<close>: a unix socket of the master; a client connects, writes one command and
  reads the answer. \<open>ping_command\<close> is \<open>base/src/parallel/ping.c\<close>. The results of the system calls are the parameter
  \<open>Y\<close>; \<open>received\<close> is what \<open>read\<close> returned, at most 128 bytes of it are kept; \<open>plug\<close> is the container of the process and
  \<open>R\<close> runs its callbacks on the rest of the process, \<open>w\<close>.
\<close>

section \<open>Code\<close>

record shell_sys =
  shell_socket :: int
  shell_bind :: "int \<Rightarrow> bool"
  shell_listen :: "int \<Rightarrow> bool"

record ('c, 'd) shell =
  internal_unix_socket :: int
  shell_loop :: "('c, 'd) event_loop_data"
  shell_closed :: "int list"
  shell_written :: "(int \<times> bytes) list"

definition on_shake_connection_helper ::
    "aroop \<Rightarrow> ('h, nat) table_api \<Rightarrow> ('f, 'w) callback_runner \<Rightarrow> ('f, 'e, 'h) composite_plugin option \<Rightarrow> int \<Rightarrow>
     bytes option \<Rightarrow> 'w \<Rightarrow> ('c, 'd) shell \<Rightarrow> (int \<times> 'w \<times> ('c, 'd) shell) exec" where
  "on_shake_connection_helper A T R plug f received w st =
     (case received of
        None \<Rightarrow> Inr (0, w, st)
      | Some d \<Rightarrow>
          if d = [] then Inr (0, w, st)
          else
            let (xcmd, target) = scanner_next_token A (txt_of (take 128 d)) zero_txt
            in if t_len target = 0 then Inr (0, w, st)
               else
                 let space0 = aroop_txt_stackbuffer A 64;
                     space1 = aroop_txt_concat_string A space0 (lit ''shake/'');
                     space2 = aroop_txt_concat A space1 target;
                     input = aroop_txt_shift A (aroop_txt_copy_shallow A xcmd) 1
                 in ebind (pm_call A T R plug space2 input zero_txt w) (\<lambda>(_, output, w').
                    Inr (0, w', st\<lparr>shell_written := shell_written st @ [(f, str (aroop_txt_zero_terminate A output))]\<rparr>)))"

definition on_shake_connection ::
    "aroop \<Rightarrow> ('h, nat) table_api \<Rightarrow> ('f, 'w) callback_runner \<Rightarrow> ('f, 'e, 'h) composite_plugin option \<Rightarrow> int \<Rightarrow> int \<Rightarrow>
     bytes option \<Rightarrow> 'w \<Rightarrow> ('c, 'd) shell \<Rightarrow> (int \<times> 'w \<times> ('c, 'd) shell) exec" where
  "on_shake_connection A T R plug f client_fd received w st =
     (if internal_unix_socket st = -1 then Inr (0, w, st)
      else ebind (aroop_assert A (internal_unix_socket st = f)) (\<lambda>_.
        if client_fd < 0 then Inr (-1, w, st\<lparr>shell_closed := shell_closed st @ [client_fd]\<rparr>)
        else ebind (on_shake_connection_helper A T R plug client_fd received w st) (\<lambda>(_, w', st').
             Inr (0, w', st'\<lparr>shell_closed := shell_closed st' @ [client_fd]\<rparr>))))"

definition shake_listen_on_unix_socket ::
    "aroop \<Rightarrow> shell_sys \<Rightarrow> 'c \<Rightarrow> 'd \<Rightarrow> ('c, 'd) shell \<Rightarrow> (int \<times> ('c, 'd) shell) exec" where
  "shake_listen_on_unix_socket A Y on_conn null st =
     ebind (aroop_assert A (internal_unix_socket st = -1)) (\<lambda>_.
     let f = shell_socket Y;
         st1 = st\<lparr>internal_unix_socket := f\<rparr>
     in if f < 0 then Inr (-1, st1)
        else if \<not> shell_bind Y f then Inr (-1, st1\<lparr>shell_closed := shell_closed st1 @ [f]\<rparr>)
        else if \<not> shell_listen Y f then Inr (-1, st1\<lparr>shell_closed := shell_closed st1 @ [f]\<rparr>)
        else ebind (event_loop_register_fd A f (Some on_conn) null NGINZ_POLL_ALL_FLAGS (shell_loop st1)) (\<lambda>el.
             Inr (0, st1\<lparr>shell_loop := el\<rparr>)))"

definition shake_stop_on_fork :: "('c, 'd) shell \<Rightarrow> int \<times> ('c, 'd) shell" where
  "shake_stop_on_fork st =
     (let f = internal_unix_socket st
      in (0, st\<lparr>shell_loop := event_loop_unregister_fd f (shell_loop st), shell_closed := shell_closed st @ [f],
               internal_unix_socket := -1\<rparr>))"

definition test_module_plugs :: "aroop \<Rightarrow> (core_plug, core_plug) plug_request list" where
  "test_module_plugs A = [callback_at A ''shake/test'' Test_command]"

definition help_module_plugs :: "aroop \<Rightarrow> (core_plug, core_plug) plug_request list" where
  "help_module_plugs A = [callback_at A ''shake/help'' Help_command]"

definition enumerate_module_plugs :: "aroop \<Rightarrow> (core_plug, core_plug) plug_request list" where
  "enumerate_module_plugs A = [callback_at A ''shake/enumerate'' Enumerate_command]"

definition ping_module_plugs :: "aroop \<Rightarrow> (core_plug, core_plug) plug_request list" where
  "ping_module_plugs A = [callback_at A ''shake/ping'' Ping_command]"

definition shake_module_init ::
    "aroop \<Rightarrow> ('h, nat) table_api \<Rightarrow> shell_sys \<Rightarrow> bool \<Rightarrow> 'c \<Rightarrow> 'd \<Rightarrow> (core_plug, core_plug, 'h) composite_plugin \<Rightarrow>
     ('c, 'd) shell \<Rightarrow> ((core_plug, core_plug, 'h) composite_plugin \<times> ('c, 'd) shell) exec" where
  "shake_module_init A T Y master on_conn null plug st =
     (if \<not> master then Inr (plug, st)
      else ebind (shake_listen_on_unix_socket A Y on_conn null st) (\<lambda>(_, st').
           ebind (plug_seq A T (test_module_plugs A) plug) (\<lambda>plug1.
           ebind (plug_seq A T (help_module_plugs A) plug1) (\<lambda>plug2.
           ebind (plug_seq A T [callback_at A ''fork/child/after'' Shake_stop_on_fork] plug2) (\<lambda>plug3.
           Inr (plug3, st'))))))"

text \<open>Unplugging does nothing in \<open>plugin.c\<close>, so the deinit functions of help and test leave their plugins.\<close>

definition shake_module_deinit :: "bool \<Rightarrow> ('c, 'd) shell \<Rightarrow> ('c, 'd) shell" where
  "shake_module_deinit master st =
     (if \<not> master then st
      else
        let f = internal_unix_socket st;
            st1 = st\<lparr>shell_loop := event_loop_unregister_fd f (shell_loop st)\<rparr>
        in if f \<noteq> -1 then st1\<lparr>shell_closed := shell_closed st1 @ [f], internal_unix_socket := -1\<rparr> else st1)"

definition ping_command ::
    "aroop \<Rightarrow> (int \<Rightarrow> bool) \<Rightarrow> 32 word \<Rightarrow> aroop_txt_t \<Rightarrow> aroop_txt_t \<Rightarrow> pp_state \<Rightarrow>
     (aroop_txt_t \<times> aroop_txt_t \<times> pp_state) exec" where
  "ping_command A fails getpid ping_buffer input s =
     (let (_, cmd) = scanner_trim A input
      in ebind (binary_coder_reset_for_pid A ping_buffer getpid) (\<lambda>b1.
         let b2 = snd (binary_pack_string A b1 cmd);
             out0 = aroop_txt_buffer A 64
         in ebind (pp_send A fails 0 b2 s) (\<lambda>(r, s').
            let out1 = (if r \<noteq> 0 then aroop_txt_printf A out0 (lit ''ping['' @ str cmd @ lit ''] failed'' @ [10]) else out0)
            in Inr (b2, aroop_txt_printf A out1 (lit ''ping['' @ str cmd @ lit '']'' @ [10]), s'))))"

definition ping_command_desc :: "aroop \<Rightarrow> bytes \<Rightarrow> aroop_txt_t \<Rightarrow> aroop_txt_t" where
  "ping_command_desc A source_file space = plugin_desc A (lit ''ping'') (lit ''shake'') space source_file
     (lit ''It pings the child process. for example(ping quit) will quit all the child process'' @ [10])"

section \<open>Lemmas\<close>

text \<open>Splitting the line that was read.\<close>

lemma shell_line:
  assumes "aroop_ok A" and "word_ok w" and "is_separator s" and "length w \<le> 58"
    and "scanner_next_token A (txt_of (w @ s # rest)) zero_txt = (xcmd, target)"
  shows "t_len target \<noteq> 0"
    and "str (aroop_txt_concat A (aroop_txt_concat_string A (aroop_txt_stackbuffer A 64) (lit ''shake/'')) target) = lit ''shake/'' @ w"
    and "wf_txt (aroop_txt_shift A (aroop_txt_copy_shallow A xcmd) 1)"
    and "str (aroop_txt_shift A (aroop_txt_copy_shallow A xcmd) 1) = rest"
proof -
  have tk: "wf_txt xcmd \<and> str xcmd = s # rest \<and> wf_txt target \<and> str target = w \<and> t_len target \<noteq> 0"
    by (rule token_of [OF assms(1) _ _ assms(2,3) _ assms(5)]) simp_all
  then show "t_len target \<noteq> 0" by blast
  have l: "t_len target = length w" using tk length_str [of target] by simp
  have "built 64 (aroop_txt_concat_string A (aroop_txt_stackbuffer A 64) (lit ''shake/'')) ([] @ lit ''shake/'')"
    by (rule built_string [OF assms(1) built_stackbuffer [OF assms(1)]]) simp
  then have "built 64 (aroop_txt_concat A (aroop_txt_concat_string A (aroop_txt_stackbuffer A 64) (lit ''shake/'')) target)
      (([] @ lit ''shake/'') @ str target)"
    by (rule built_concat [OF assms(1)]) (use tk l assms(4) in simp_all)
  then show "str (aroop_txt_concat A (aroop_txt_concat_string A (aroop_txt_stackbuffer A 64) (lit ''shake/'')) target) = lit ''shake/'' @ w"
    using tk by (simp add: built_def)
  have n: "1 \<le> t_len xcmd" using tk length_str [of xcmd] by simp
  have sh: "aroop_txt_shift A xcmd 1 = \<lparr>t_mem = drop 1 (t_mem xcmd), t_len = t_len xcmd - 1\<rparr>"
    using shift_law [OF assms(1) _ n] tk by simp
  show "wf_txt (aroop_txt_shift A (aroop_txt_copy_shallow A xcmd) 1)"
    using sh tk n by (simp add: copy_shallow_law [OF assms(1)] wf_txt_def t_cap_def diff_le_mono)
  show "str (aroop_txt_shift A (aroop_txt_copy_shallow A xcmd) 1) = rest"
  proof -
    have "str (aroop_txt_shift A xcmd 1) = drop 1 (str xcmd)" by (simp add: sh str_def drop_take)
    then show ?thesis using tk by (simp add: copy_shallow_law [OF assms(1)])
  qed
qed

section \<open>Properties\<close>

text \<open>(C13) A command of the shell: the first word of the line names the space below \<open>shake/\<close>; its plugins are called
  in order with the rest of the line, after one separator, as input, the text they leave is written back to the client
  once, and the client's socket is closed. A word nobody plugged gets an empty answer.\<close>

theorem shell_runs_command:
  assumes "aroop_ok A" and "table_ok T" and "plugins_wf T c"
    and "internal_unix_socket st = f" and "f \<noteq> -1" and "0 \<le> client"
    and "word_ok w" and "length w \<le> 58" and "is_separator s" and "length (w @ s # rest) \<le> 128"
  shows "\<exists>input. wf_txt input \<and> str input = rest \<and>
    on_shake_connection A T R (Some c) f client (Some (w @ s # rest)) world st =
      ebind (run_callbacks A R (plugins_at T c (lit ''shake/'' @ w)) input zero_txt 0 world) (\<lambda>(_, out, world').
      Inr (0, world', st\<lparr>shell_written := shell_written st @ [(client, str (aroop_txt_zero_terminate A out))],
                        shell_closed := shell_closed st @ [client]\<rparr>))"
proof -
  obtain xcmd target where t: "scanner_next_token A (txt_of (w @ s # rest)) zero_txt = (xcmd, target)" by fastforce
  note L = shell_line [OF assms(1,7,9,8) t]
  let ?space = "aroop_txt_concat A (aroop_txt_concat_string A (aroop_txt_stackbuffer A 64) (lit ''shake/'')) target"
  let ?input = "aroop_txt_shift A (aroop_txt_copy_shallow A xcmd) 1"
  have call: "pm_call A T R (Some c) ?space ?input zero_txt world =
      run_callbacks A R (plugins_at T c (lit ''shake/'' @ w)) ?input zero_txt 0 world"
    by (simp add: pm_call_def call_runs [OF assms(2,3)] L(2))
  have tk: "take 128 (w @ s # rest) = w @ s # rest" using assms(10) by (intro take_all)
  have "on_shake_connection A T R (Some c) f client (Some (w @ s # rest)) world st =
      ebind (run_callbacks A R (plugins_at T c (lit ''shake/'' @ w)) ?input zero_txt 0 world) (\<lambda>(_, out, world').
      Inr (0, world', st\<lparr>shell_written := shell_written st @ [(client, str (aroop_txt_zero_terminate A out))],
                        shell_closed := shell_closed st @ [client]\<rparr>))"
    using assms(4-6) L(1)
    by (simp add: on_shake_connection_def on_shake_connection_helper_def tk t call Let_def
        del: take_append split: sum.split)
      (cases "run_callbacks A R (plugins_at T c (lit ''shake/'' @ w)) ?input zero_txt 0 world"; auto)
  then show ?thesis using L(3,4) by blast
qed


definition no_loop :: "(nat, unit) event_loop_data" where
  "no_loop = \<lparr>fds = (\<lambda>_. \<lparr>fd = 0, events = 0, revents = 0\<rparr>), cbs = (\<lambda>_. \<lparr>on_event = None, event_data = ()\<rparr>), nfds = 0\<rparr>"

definition open_shell :: "(nat, unit) shell" where
  "open_shell = \<lparr>internal_unix_socket = 5, shell_loop = no_loop, shell_closed = [], shell_written = []\<rparr>"

lemma shell_runs_command_witness:
  "\<exists>c. plug_seq ref_aroop ref_table [(CALLBACK_PLUGIN, txt_of (lit ''shake/echo''), 1 :: nat, ())] (composite_plugin_create ref_table) = Inr c \<and>
    on_shake_connection ref_aroop ref_table (\<lambda>f i out w. Inr (0, txt_of (str i), w + f)) (Some c) 5 9
      (Some (lit ''echo hello'')) 3 open_shell =
    Inr (0, 4, open_shell\<lparr>shell_written := [(9, lit ''hello'')], shell_closed := [9]\<rparr>)"
proof -
  let ?rs = "[(CALLBACK_PLUGIN, txt_of (lit ''shake/echo''), 1 :: nat, ())]"
  let ?R = "\<lambda>f i out w. Inr (0 :: 32 word, txt_of (str i), w + f)"
  obtain c where c: "plug_seq ref_aroop ref_table ?rs (composite_plugin_create ref_table) = Inr c" "plugins_wf ref_table c"
    "plugins_at ref_table c = requested ?rs"
    using plug_seq_fresh [OF ref_aroop_ok ref_table_ok, of ?rs] by auto
  have w: "word_ok (lit ''echo'')" by (simp add: word_ok_def lit_def is_separator_def)
  have e: "lit ''echo hello'' = lit ''echo'' @ 32 # lit ''hello''" by (simp add: lit_def)
  obtain input where "str input = lit ''hello''" "on_shake_connection ref_aroop ref_table ?R (Some c) 5 9
      (Some (lit ''echo'' @ 32 # lit ''hello'')) 3 open_shell =
    ebind (run_callbacks ref_aroop ?R (plugins_at ref_table c (lit ''shake/'' @ lit ''echo'')) input zero_txt 0 3) (\<lambda>(_, out, world').
      Inr (0, world', open_shell\<lparr>shell_written := shell_written open_shell @ [(9, str (aroop_txt_zero_terminate ref_aroop out))],
                        shell_closed := shell_closed open_shell @ [9]\<rparr>))"
    using shell_runs_command [OF ref_aroop_ok ref_table_ok c(2) _ _ _ w, of open_shell 5 9 32 "lit ''hello''" ?R 3]
    by (auto simp: open_shell_def is_separator_def)
  then show ?thesis
    using c(1) unfolding e
    by (simp add: c(3) requested_def lit_append [symmetric] open_shell_def ref_aroop_def del: lit_append)
qed

text \<open>The life of the shell's socket: when the system calls succeed, the init function of the shell adds exactly one
  entry to the event loop of the master, and its deinit function removes it again and closes the socket once.\<close>

theorem shell_socket_life:
  assumes "aroop_ok A" and "table_ok T" and "plugins_wf T plug"
    and "internal_unix_socket st = -1" and "nfds (shell_loop st) < MAX_POLL_FD"
    and "0 \<le> shell_socket Y" and "shell_bind Y (shell_socket Y)" and "shell_listen Y (shell_socket Y)"
    and "shell_socket Y \<notin># image_mset fst (live_entries (shell_loop st))"
  shows "\<exists>plug' st'. shake_module_init A T Y True cb null plug st = Inr (plug', st') \<and>
      internal_unix_socket st' = shell_socket Y \<and>
      live_entries (shell_loop st') = add_mset (shell_socket Y, Some cb, null, NGINZ_POLL_ALL_FLAGS) (live_entries (shell_loop st)) \<and>
      live_entries (shell_loop (shake_module_deinit True st')) = live_entries (shell_loop st) \<and>
      shell_closed (shake_module_deinit True st') = shell_closed st @ [shell_socket Y] \<and>
      internal_unix_socket (shake_module_deinit True st') = -1"
proof -
  let ?f = "shell_socket Y" and ?e = "(Some cb, null, NGINZ_POLL_ALL_FLAGS)"
  have fl: "NGINZ_POLL_ALL_FLAGS \<noteq> 0" by code_simp
  obtain el where el: "event_loop_register_fd A ?f (Some cb) null NGINZ_POLL_ALL_FLAGS (shell_loop st) = Inr el"
      "nfds el \<le> MAX_POLL_FD" "live_entries el = add_mset (?f, ?e) (live_entries (shell_loop st))"
    using poll.register_law [where s = "shell_loop st" and n = 0 and f = ?f and A = A and e = ?e] assms(5) fl
    by (auto simp: register_entry_def)
  let ?rs = "test_module_plugs A @ help_module_plugs A @ [callback_at A ''fork/child/after'' Shake_stop_on_fork]"
  have "\<forall>(cat, space, f, d) \<in> set ?rs. wf_txt space \<and> cat \<noteq> INVALID_PLUGIN"
    by (simp add: test_module_plugs_def help_module_plugs_def callback_at_def static_laws [OF assms(1)])
  then obtain plug' where "plug_seq A T ?rs plug = Inr plug'"
    using plug_seq_wf [OF assms(1-3), of ?rs] by blast
  then have plug': "ebind (plug_seq A T (test_module_plugs A) plug) (\<lambda>plug1.
           ebind (plug_seq A T (help_module_plugs A) plug1) (\<lambda>plug2.
           plug_seq A T [callback_at A ''fork/child/after'' Shake_stop_on_fork] plug2)) = Inr plug'"
    by (simp add: plug_seq_append cong: ebind_cong)
  let ?st = "st\<lparr>internal_unix_socket := ?f, shell_loop := el\<rparr>"
  have init: "shake_module_init A T Y True cb null plug st = Inr (plug', ?st)"
    using plug' assms(4,6-8) el(1)
    by (auto simp: shake_module_init_def shake_listen_on_unix_socket_def Let_def ebind_Inr_iff)
  have "live_entries (event_loop_unregister_fd ?f el) = live_entries (shell_loop st)"
    using poll.unregisters_live [OF el(2), of "[(?f, ?e)]" "live_entries (shell_loop st)"] el(3) assms(9) fl by simp
  then show ?thesis
    using init el(3) assms(6) by (intro exI [of _ plug'] exI [of _ ?st]) (simp add: shake_module_deinit_def Let_def)
qed

lemma shell_socket_life_witness:
  "\<exists>plug' st'. shake_module_init ref_aroop ref_table \<lparr>shell_socket = 6, shell_bind = (\<lambda>_. True), shell_listen = (\<lambda>_. True)\<rparr>
      True 3 () (composite_plugin_create ref_table) (open_shell\<lparr>internal_unix_socket := -1\<rparr>) = Inr (plug', st') \<and>
    live_entries (shell_loop st') = {#(6, Some 3, (), NGINZ_POLL_ALL_FLAGS)#} \<and>
    live_entries (shell_loop (shake_module_deinit True st')) = {#} \<and> shell_closed (shake_module_deinit True st') = [6]"
  using shell_socket_life [of ref_aroop ref_table "composite_plugin_create ref_table" "open_shell\<lparr>internal_unix_socket := -1\<rparr>"
      "\<lparr>shell_socket = 6, shell_bind = (\<lambda>_. True), shell_listen = (\<lambda>_. True)\<rparr>" 3 "()"]
    create_wf [OF ref_table_ok refl, where ?'b = core_plug and ?'c = core_plug]
  by (auto simp: open_shell_def no_loop_def live_entries_def live_upto_def MAX_POLL_FD_def)

text \<open>A worker has no shell.\<close>

lemma worker_has_no_shell:
  "shake_module_init A T Y False cb null plug st = Inr (plug, st) \<and> shake_module_deinit False st = st"
  by (simp add: shake_module_init_def shake_module_deinit_def)

text \<open>A socket that cannot be bound is closed, but its number stays: the deinit function closes it a second time.\<close>

lemma failed_bind_closed_twice:
  assumes "internal_unix_socket st = -1" and "0 \<le> shell_socket Y" and "\<not> shell_bind Y (shell_socket Y)"
  shows "\<exists>st'. shake_listen_on_unix_socket A Y cb null st = Inr (-1, st') \<and>
    shell_closed (shake_module_deinit True st') = shell_closed st @ [shell_socket Y, shell_socket Y]"
  using assms by (auto simp: shake_listen_on_unix_socket_def shake_module_deinit_def Let_def)

end
