(* ===== verification/QuitRing.thy ===== *)
theory QuitRing
  imports ForkPipeline Fiber
begin

text \<open>
  Quitting all processes, \<open>base/src/shake/quitall.c\<close>: two commands that each process runs and passes on to the
  next node of the table. The state of a process is its node table, the static flag \<open>soft_quitall\<close> and its fibers.
  \<open>getpid\<close> is the process that runs the command.
\<close>

section \<open>Code\<close>

record 'c quit_process =
  quit_node :: pp_state
  soft_quitall :: bool
  quit_fibers :: "'c fiber_table"

text \<open>The packet both commands build and send.\<close>

definition propagate_quit ::
    "aroop \<Rightarrow> (int \<Rightarrow> bool) \<Rightarrow> 32 word \<Rightarrow> 32 word \<Rightarrow> string \<Rightarrow> pp_state \<Rightarrow> (int \<times> pp_state) exec" where
  "propagate_quit A fails getpid next_nid command s =
     ebind (binary_coder_reset A (aroop_txt_stackbuffer A 255)) (\<lambda>b0.
     let b1 = snd (binary_pack_int A b0 getpid);
         b2 = snd (binary_pack_string A b1 (aroop_txt_static_string A (lit command)))
     in pp_send A fails next_nid b2 s)"

definition shake_soft_quitall_command ::
    "aroop \<Rightarrow> (int \<Rightarrow> bool) \<Rightarrow> 32 word \<Rightarrow> aroop_txt_t \<Rightarrow> 'c quit_process \<Rightarrow> (int \<times> aroop_txt_t \<times> 'c quit_process) exec" where
  "shake_soft_quitall_command A fails getpid output p =
     (if soft_quitall p then Inr (0, output, p)
      else
        let next_nid = pp_next_nid (quit_node p)
        in ebind (if next_nid \<noteq> -1
                  then ebind (propagate_quit A fails getpid next_nid ''shake/softquitall'' (quit_node p)) (\<lambda>(_, s).
                       Inr (aroop_txt_static_string A (lit ''Sending softquit to all'' @ [10]), p\<lparr>quit_node := s\<rparr>))
                  else Inr (output, p)) (\<lambda>(output', p').
           Inr (0, output', p'\<lparr>soft_quitall := True\<rparr>)))"

definition shake_quitall_command ::
    "aroop \<Rightarrow> (int \<Rightarrow> bool) \<Rightarrow> 32 word \<Rightarrow> aroop_txt_t \<Rightarrow> 'c quit_process \<Rightarrow> (int \<times> aroop_txt_t \<times> 'c quit_process) exec" where
  "shake_quitall_command A fails getpid output p =
     (if \<not> soft_quitall p then Inr (0, aroop_txt_static_string A (lit ''Please softquitall first'' @ [10]), p)
      else
        let next_nid = pp_next_nid (quit_node p)
        in ebind (if next_nid \<noteq> -1
                  then ebind (propagate_quit A fails getpid next_nid ''shake/quitall'' (quit_node p)) (\<lambda>(_, s).
                       Inr (aroop_txt_static_string A (lit ''Sending QUIT to all'' @ [10]), p\<lparr>quit_node := s\<rparr>))
                  else Inr (output, p)) (\<lambda>(output', p').
           Inr (0, output', p'\<lparr>quit_fibers := snd (fiber_quit (quit_fibers p'))\<rparr>)))"

section \<open>Delivery\<close>

text \<open>A process reads one packet and calls the plugin it names; here the two commands, under the spaces they are
  plugged into.\<close>

definition obey :: "aroop \<Rightarrow> (int \<Rightarrow> bool) \<Rightarrow> 32 word \<Rightarrow> bytes \<Rightarrow> 'c quit_process \<Rightarrow> 'c quit_process exec" where
  "obey A fails getpid bs p =
     ebind (read_packet A bs (quit_node p)) (\<lambda>(call, s).
     let p1 = p\<lparr>quit_node := s\<rparr>
     in case call of
          None \<Rightarrow> Inr p1
        | Some (x, b) \<Rightarrow>
            if str x = lit ''shake/softquitall''
              then ebind (shake_soft_quitall_command A fails getpid zero_txt p1) (\<lambda>(_, _, p2). Inr p2)
            else if str x = lit ''shake/quitall''
              then ebind (shake_quitall_command A fails getpid zero_txt p1) (\<lambda>(_, _, p2). Inr p2)
            else Inr p1)"

fun obey_all :: "aroop \<Rightarrow> (int \<Rightarrow> bool) \<Rightarrow> 32 word \<Rightarrow> bytes list \<Rightarrow> 'c quit_process \<Rightarrow> 'c quit_process exec" where
  "obey_all A fails getpid [] p = Inr p"
| "obey_all A fails getpid (b # bs) p = ebind (obey A fails getpid b p) (obey_all A fails getpid bs)"

text \<open>The packets that node \<open>i\<close> wrote for its neighbour between the states \<open>p\<close> and \<open>p'\<close>.\<close>

definition sent_to_next :: "nat \<Rightarrow> 'c quit_process \<Rightarrow> 'c quit_process \<Rightarrow> bytes list" where
  "sent_to_next i p p' =
     inbox (fd0 (nodes (quit_node p') (Suc i))) (drop (length (effects (quit_node p))) (effects (quit_node p')))"

text \<open>The processes from node \<open>i\<close> on, each reading what the one before it wrote.\<close>

fun quit_ring ::
    "aroop \<Rightarrow> (int \<Rightarrow> bool) \<Rightarrow> nat \<Rightarrow> bytes list \<Rightarrow> (32 word \<times> 'c quit_process) list \<Rightarrow> 'c quit_process list exec" where
  "quit_ring A fails i bs [] = Inr []"
| "quit_ring A fails i bs ((pid, p) # ps) =
     ebind (obey_all A fails pid bs p) (\<lambda>p'.
     ebind (quit_ring A fails (Suc i) (sent_to_next i p p') ps) (\<lambda>ps'. Inr (p' # ps')))"

section \<open>Lemmas\<close>

definition quit_wires :: "aroop \<Rightarrow> 32 word \<Rightarrow> string \<Rightarrow> wire list" where
  "quit_wires A pid command = [WInt pid, WStr (aroop_txt_static_string A (lit command))]"

definition quit_packet :: "aroop \<Rightarrow> 32 word \<Rightarrow> string \<Rightarrow> bytes" where
  "quit_packet A pid command =
     (case binary_coder_reset A (aroop_txt_stackbuffer A 255) of
        Inl _ \<Rightarrow> [] | Inr b \<Rightarrow> str (pack_wires A b (quit_wires A pid command)))"

lemma quit_packet_props:
  assumes A: "aroop_ok A" and l: "length command \<le> 20"
  shows "\<exists>b. binary_coder_reset A (aroop_txt_stackbuffer A 255) = Inr b \<and>
      str (pack_wires A b (quit_wires A pid command)) = quit_packet A pid command"
    and "length (quit_packet A pid command) \<le> 1024"
    and "reads_back A (quit_packet A pid command) (quit_wires A pid command) 1"
proof -
  let ?ws = "quit_wires A pid command"
  have w: "\<forall>w \<in> set ?ws. wf_wire w" by (simp add: quit_wires_def static_laws [OF A])
  have sz: "msg_size (map wire_field ?ws) \<le> 100"
    using l length_int_bytes_le [of pid] by (simp add: quit_wires_def static_laws [OF A])
  have c: "wf_txt (aroop_txt_stackbuffer A 255)" "256 \<le> t_cap (aroop_txt_stackbuffer A 255)"
    using buffer_laws(3) [OF A] buffer_cap(2) [OF A, of 255] by simp_all
  obtain b where b: "binary_coder_reset A (aroop_txt_stackbuffer A 255) = Inr b" "packed_msg b []"
      "t_cap b = t_cap (aroop_txt_stackbuffer A 255)"
    using reset_packed [OF A c] by blast
  then have p: "packed_msg (pack_wires A b ?ws) (map wire_field ?ws)"
    using pack_wires_packed [OF A b(2), of ?ws] w sz c(2) by simp
  have e: "str (pack_wires A b ?ws) = quit_packet A pid command" by (simp add: quit_packet_def b(1))
  show "\<exists>b. binary_coder_reset A (aroop_txt_stackbuffer A 255) = Inr b \<and> str (pack_wires A b ?ws) = quit_packet A pid command"
    using b(1) e by blast
  show "length (quit_packet A pid command) \<le> 1024"
    using packed_len [OF p] packed_small [OF p] length_str sz by (simp add: e [symmetric])
  have "msg_size (take 1 (map wire_field ?ws)) + 3 < 256"
    using msg_size_take_le [of 1 "map wire_field ?ws"] sz by linarith
  then show "reads_back A (quit_packet A pid command) ?ws 1"
    using packed_reads_back [OF A p, of 1] e by (simp add: reachable_field_def quit_wires_def)
qed

text \<open>Node \<open>i\<close> of a ring whose table holds \<open>pids\<close>.\<close>

definition ring_node :: "32 word list \<Rightarrow> nat \<Rightarrow> pp_state \<Rightarrow> bool" where
  "ring_node pids i s \<longleftrightarrow> i < 6 \<and> mynode s = Some i \<and> nids s = pids \<and> distinct pids \<and> 0 \<notin> set pids \<and> -1 \<notin> set pids"

lemma ring_node_cong: "nodes s = nodes t \<Longrightarrow> mynode s = mynode t \<Longrightarrow> ring_node pids i s = ring_node pids i t"
  using nids_cong [of s t] by (simp add: ring_node_def)

lemma ring_next:
  assumes "ring_node pids i s" and "i < 5"
  shows "pids ! Suc i \<noteq> -1" "pids ! Suc i \<noteq> 0" "pids ! Suc i = nid (nodes s (Suc i))"
proof -
  have "length pids = 6" using assms(1) by (auto simp: ring_node_def)
  then have "pids ! Suc i \<in> set pids" using assms(2) by (intro nth_mem) simp
  then show "pids ! Suc i \<noteq> -1" "pids ! Suc i \<noteq> 0" using assms(1) unfolding ring_node_def by metis+
  show "pids ! Suc i = nid (nodes s (Suc i))" using assms nids_nth [of "Suc i" s] by (auto simp: ring_node_def)
qed

lemma next_nid:
  assumes "ring_node pids i s"
  shows "pp_next_nid s = (if i < 5 then pids ! Suc i else -1)"
proof -
  have "List.find (\<lambda>j. Some j = mynode s) [0..<MAX_PROCESS_COUNT] = Some i"
    unfolding find_Some_iff by (rule exI [of _ i]) (use assms in \<open>auto simp: ring_node_def six\<close>)
  then show ?thesis
    using assms nids_nth [of "Suc i" s] by (auto simp: pp_next_nid_def ring_node_def six nat_add_distrib)
qed

text \<open>What one of the commands sends: one packet to the next node, nothing from the last one.\<close>

definition passed_on :: "aroop \<Rightarrow> 32 word \<Rightarrow> string \<Rightarrow> nat \<Rightarrow> pp_state \<Rightarrow> effect list" where
  "passed_on A pid command i s = (if i < 5 then [SendMsg (fd0 (nodes s (Suc i))) (quit_packet A pid command)] else [])"

lemma propagate:
  assumes A: "aroop_ok A" and s: "ring_node pids i s" and i: "i < 5" and l: "length command \<le> 20" and f: "\<forall>f. \<not> fails f"
  shows "propagate_quit A fails pid (pids ! Suc i) command s =
    Inr (0, s\<lparr>effects := effects s @ [SendMsg (fd0 (nodes s (Suc i))) (quit_packet A pid command)]\<rparr>)"
proof -
  obtain b where b: "binary_coder_reset A (aroop_txt_stackbuffer A 255) = Inr b"
      "str (pack_wires A b (quit_wires A pid command)) = quit_packet A pid command"
    using quit_packet_props(1) [OF A l, of pid] by blast
  have "node_index (pids ! Suc i) s = Some (Suc i)"
    using node_index_nth [of s "Suc i"] s i ring_next(3) [OF s i] by (simp add: ring_node_def)
  then have "pp_send A fails (pids ! Suc i) pkt s = Inr (0, s\<lparr>effects := effects s @ [SendMsg (fd0 (nodes s (Suc i))) (str pkt)]\<rparr>)" for pkt
    using send_known ring_next(2) [OF s i] f by blast
  then show ?thesis using b by (simp add: propagate_quit_def quit_wires_def pack_wires_def Let_def)
qed

lemma soft_command:
  assumes "aroop_ok A" and "ring_node pids i (quit_node p)" and "\<forall>f. \<not> fails f" and "\<not> soft_quitall p"
  shows "\<exists>out. shake_soft_quitall_command A fails pid output p = Inr (0, out,
    p\<lparr>quit_node := (quit_node p)\<lparr>effects := effects (quit_node p) @ passed_on A pid ''shake/softquitall'' i (quit_node p)\<rparr>,
      soft_quitall := True\<rparr>)"
  using ring_next(1) [OF assms(2)] assms(4) propagate [OF assms(1,2), where command = "''shake/softquitall''" and pid = pid] assms(3)
  by (auto simp: shake_soft_quitall_command_def next_nid [OF assms(2)] passed_on_def Let_def)

lemma quit_command:
  assumes "aroop_ok A" and "ring_node pids i (quit_node p)" and "\<forall>f. \<not> fails f" and "soft_quitall p"
  shows "\<exists>out. shake_quitall_command A fails pid output p = Inr (0, out,
    p\<lparr>quit_node := (quit_node p)\<lparr>effects := effects (quit_node p) @ passed_on A pid ''shake/quitall'' i (quit_node p)\<rparr>,
      quit_fibers := (quit_fibers p)\<lparr>internal_quit := True\<rparr>\<rparr>)"
  using ring_next(1) [OF assms(2)] assms(4) propagate [OF assms(1,2), where command = "''shake/quitall''" and pid = pid] assms(3)
  by (auto simp: shake_quitall_command_def next_nid [OF assms(2)] passed_on_def fiber_quit_def Let_def)

text \<open>A node of the ring that can read its pipe.\<close>

definition ready :: "32 word list \<Rightarrow> nat \<Rightarrow> 'c quit_process \<Rightarrow> bool" where
  "ready pids i p \<longleftrightarrow> ring_node pids i (quit_node p) \<and> reader_ok (quit_node p)"

lemma ready_cong:
  assumes "ready pids i p" and "nodes (quit_node q) = nodes (quit_node p)" and "mynode (quit_node q) = mynode (quit_node p)"
    and "reader_ok (quit_node q)"
  shows "ready pids i q"
  using assms ring_node_cong [of "quit_node q" "quit_node p"] by (simp add: ready_def)

lemma reader_ok_effects: "reader_ok (s\<lparr>effects := es\<rparr>) = reader_ok s"
  by (simp add: reader_ok_def split: option.split)

lemma read_quit_packet:
  assumes A: "aroop_ok A" and p: "ready pids i p" and l: "length command \<le> 20" "command \<noteq> []"
  shows "\<exists>x r. read_packet A (quit_packet A from command) (quit_node p) = Inr (Some (x, r),
      (quit_node p)\<lparr>recv_buffer := r, effects := effects (quit_node p) @ [PmCall x r]\<rparr>) \<and> str x = lit command \<and>
    ready pids i (p\<lparr>quit_node := (quit_node p)\<lparr>recv_buffer := r, effects := effects (quit_node p) @ [PmCall x r]\<rparr>\<rparr>)"
proof -
  have "quit_wires A from command ! 1 = WStr (aroop_txt_static_string A (lit command))" by (simp add: quit_wires_def)
  then obtain x r rest where r: "read_packet A (quit_packet A from command) (quit_node p) = Inr (Some (x, r),
      (quit_node p)\<lparr>recv_buffer := r, effects := effects (quit_node p) @ [PmCall x r]\<rparr>)" "str x = lit command"
      "reader_ok ((quit_node p)\<lparr>recv_buffer := r, effects := effects (quit_node p) @ [PmCall x r]\<rparr>)"
    using read_packet_call [OF A _ quit_packet_props(2,3) [OF A l(1)], of "quit_node p" "from"] p l(2)
    by (auto simp: ready_def static_laws [OF A] lit_def)
  moreover from this(3) have
    "ready pids i (p\<lparr>quit_node := (quit_node p)\<lparr>recv_buffer := r, effects := effects (quit_node p) @ [PmCall x r]\<rparr>\<rparr>)"
    by (intro ready_cong [OF p]) simp_all
  ultimately show ?thesis by blast
qed

lemma obey_soft:
  assumes A: "aroop_ok A" and p: "ready pids i p" and f: "\<forall>f. \<not> fails f" and s: "\<not> soft_quitall p"
  shows "\<exists>p' x r. obey A fails pid (quit_packet A from ''shake/softquitall'') p = Inr p' \<and> ready pids i p' \<and>
    nodes (quit_node p') = nodes (quit_node p) \<and> soft_quitall p' \<and>
    effects (quit_node p') = effects (quit_node p) @ PmCall x r # passed_on A pid ''shake/softquitall'' i (quit_node p)"
proof -
  obtain x r where r: "read_packet A (quit_packet A from ''shake/softquitall'') (quit_node p) = Inr (Some (x, r),
      (quit_node p)\<lparr>recv_buffer := r, effects := effects (quit_node p) @ [PmCall x r]\<rparr>)" "str x = lit ''shake/softquitall''"
      "ready pids i (p\<lparr>quit_node := (quit_node p)\<lparr>recv_buffer := r, effects := effects (quit_node p) @ [PmCall x r]\<rparr>\<rparr>)"
    using read_quit_packet [OF A p, of "''shake/softquitall''" "from"] by auto
  let ?p = "p\<lparr>quit_node := (quit_node p)\<lparr>recv_buffer := r, effects := effects (quit_node p) @ [PmCall x r]\<rparr>\<rparr>"
  let ?p' = "?p\<lparr>quit_node := (quit_node ?p)\<lparr>effects := effects (quit_node ?p) @
    passed_on A pid ''shake/softquitall'' i (quit_node ?p)\<rparr>, soft_quitall := True\<rparr>"
  obtain out where "shake_soft_quitall_command A fails pid zero_txt ?p = Inr (0, out, ?p')"
    using soft_command [OF A _ f, of pids i ?p pid zero_txt] r(3) s by (auto simp: ready_def)
  then have "obey A fails pid (quit_packet A from ''shake/softquitall'') p = Inr ?p'"
    by (simp add: obey_def r(1,2))
  moreover have "ready pids i ?p'"
    by (rule ready_cong [OF r(3)]) (use r(3) in \<open>simp_all add: ready_def reader_ok_effects\<close>)
  ultimately show ?thesis by (intro exI [of _ ?p'] exI [of _ x] exI [of _ r]) (simp add: passed_on_def)
qed

lemma obey_quit:
  assumes A: "aroop_ok A" and p: "ready pids i p" and f: "\<forall>f. \<not> fails f" and s: "soft_quitall p"
  shows "\<exists>p' x r. obey A fails pid (quit_packet A from ''shake/quitall'') p = Inr p' \<and>
    nodes (quit_node p') = nodes (quit_node p) \<and> soft_quitall p' \<and> internal_quit (quit_fibers p') \<and>
    effects (quit_node p') = effects (quit_node p) @ PmCall x r # passed_on A pid ''shake/quitall'' i (quit_node p)"
proof -
  obtain x r where r: "read_packet A (quit_packet A from ''shake/quitall'') (quit_node p) = Inr (Some (x, r),
      (quit_node p)\<lparr>recv_buffer := r, effects := effects (quit_node p) @ [PmCall x r]\<rparr>)" "str x = lit ''shake/quitall''"
      "ready pids i (p\<lparr>quit_node := (quit_node p)\<lparr>recv_buffer := r, effects := effects (quit_node p) @ [PmCall x r]\<rparr>\<rparr>)"
    using read_quit_packet [OF A p, of "''shake/quitall''" "from"] by auto
  let ?p = "p\<lparr>quit_node := (quit_node p)\<lparr>recv_buffer := r, effects := effects (quit_node p) @ [PmCall x r]\<rparr>\<rparr>"
  let ?p' = "?p\<lparr>quit_node := (quit_node ?p)\<lparr>effects := effects (quit_node ?p) @
    passed_on A pid ''shake/quitall'' i (quit_node ?p)\<rparr>, quit_fibers := (quit_fibers ?p)\<lparr>internal_quit := True\<rparr>\<rparr>"
  obtain out where "shake_quitall_command A fails pid zero_txt ?p = Inr (0, out, ?p')"
    using quit_command [OF A _ f, of pids i ?p pid zero_txt] r(3) s by (auto simp: ready_def)
  then have "obey A fails pid (quit_packet A from ''shake/quitall'') p = Inr ?p'"
    by (simp add: obey_def r(1,2))
  then show ?thesis using s by (intro exI [of _ ?p'] exI [of _ x] exI [of _ r]) (simp add: passed_on_def)
qed

definition both_packets :: "aroop \<Rightarrow> 32 word \<Rightarrow> bytes list" where
  "both_packets A pid = [quit_packet A pid ''shake/softquitall'', quit_packet A pid ''shake/quitall'']"

lemma obey_both:
  assumes A: "aroop_ok A" and p: "ready pids i p" and f: "\<forall>f. \<not> fails f" and s: "\<not> soft_quitall p"
  shows "\<exists>p'. obey_all A fails pid (both_packets A from) p = Inr p' \<and> soft_quitall p' \<and> internal_quit (quit_fibers p') \<and>
    sent_to_next i p p' = (if i < 5 then both_packets A pid else [])"
proof -
  obtain p1 x r where p1: "obey A fails pid (quit_packet A from ''shake/softquitall'') p = Inr p1" "ready pids i p1"
    "nodes (quit_node p1) = nodes (quit_node p)" "soft_quitall p1"
    "effects (quit_node p1) = effects (quit_node p) @ PmCall x r # passed_on A pid ''shake/softquitall'' i (quit_node p)"
    using obey_soft [OF assms] by blast
  obtain p2 y q where p2: "obey A fails pid (quit_packet A from ''shake/quitall'') p1 = Inr p2"
    "nodes (quit_node p2) = nodes (quit_node p1)" "soft_quitall p2" "internal_quit (quit_fibers p2)"
    "effects (quit_node p2) = effects (quit_node p1) @ PmCall y q # passed_on A pid ''shake/quitall'' i (quit_node p1)"
    using obey_quit [OF A p1(2) f p1(4)] by blast
  have "sent_to_next i p p2 = (if i < 5 then both_packets A pid else [])"
    by (simp add: sent_to_next_def p1(3,5) p2(2,5) passed_on_def inbox_append both_packets_def)
  then show ?thesis using p1(1) p2(1,3,4) by (intro exI [of _ p2]) (simp add: both_packets_def)
qed

lemma ring_quits:
  assumes "aroop_ok A" and "\<forall>f. \<not> fails f" and "1 \<le> i" and "i + length ps = 6"
    and "\<And>j. j < length ps \<Longrightarrow> ready pids (i + j) (snd (ps ! j)) \<and> \<not> soft_quitall (snd (ps ! j))"
  shows "\<exists>qs. quit_ring A fails i (both_packets A from) ps = Inr qs \<and> length qs = length ps \<and>
    (\<forall>q \<in> set qs. soft_quitall q \<and> internal_quit (quit_fibers q))"
  using assms(3-5)
proof (induction ps arbitrary: i "from")
  case (Cons x ps)
  obtain pid p where x: "x = (pid, p)" by (cases x)
  have p: "ready pids i p" "\<not> soft_quitall p" using Cons.prems(3) [of 0] x by simp_all
  obtain p' where p': "obey_all A fails pid (both_packets A from) p = Inr p'" "soft_quitall p'" "internal_quit (quit_fibers p')"
    "sent_to_next i p p' = (if i < 5 then both_packets A pid else [])"
    using obey_both [OF assms(1) p(1) assms(2) p(2)] by blast
  show ?case
  proof (cases "ps = []")
    case True
    then show ?thesis using p' x by simp
  next
    case False
    then have i: "i < 5" using Cons.prems(2) by (cases ps) simp_all
    have "\<exists>qs. quit_ring A fails (Suc i) (both_packets A pid) ps = Inr qs \<and> length qs = length ps \<and>
      (\<forall>q \<in> set qs. soft_quitall q \<and> internal_quit (quit_fibers q))"
      by (rule Cons.IH) (use Cons.prems(1,2) Cons.prems(3) [of "Suc _"] in auto)
    then show ?thesis using p' x i by auto
  qed
qed simp

section \<open>Properties\<close>

text \<open>(C12) Quitting stops every process: when the node tables agree and no send fails, the commands \<open>softquitall\<close> and then
  \<open>quitall\<close> at the master are passed from node to node, and once each of the five workers has read the packets its
  neighbour sent, all six processes have soft-quitted and told their fibers to quit. The packets travel through the message
  coder and the receive buffers.\<close>

theorem quit_reaches_every_process:
  assumes "aroop_ok A" and "\<forall>f. \<not> fails f"
    and "ring_node pids 0 (quit_node master)" and "\<not> soft_quitall master"
    and "length workers = NGINZ_NUMBER_OF_PROCESSORS"
    and "\<And>j. j < NGINZ_NUMBER_OF_PROCESSORS \<Longrightarrow> ready pids (Suc j) (snd (workers ! j)) \<and> \<not> soft_quitall (snd (workers ! j))"
  shows "\<exists>out1 m1 out2 m2 qs. shake_soft_quitall_command A fails pid input1 master = Inr (0, out1, m1) \<and>
    shake_quitall_command A fails pid input2 m1 = Inr (0, out2, m2) \<and>
    quit_ring A fails 1 (sent_to_next 0 master m2) workers = Inr qs \<and> length qs = 5 \<and>
    (\<forall>q \<in> set (m2 # qs). soft_quitall q \<and> internal_quit (quit_fibers q))"
proof -
  let ?m1 = "master\<lparr>quit_node := (quit_node master)\<lparr>effects := effects (quit_node master) @
      passed_on A pid ''shake/softquitall'' 0 (quit_node master)\<rparr>, soft_quitall := True\<rparr>"
  obtain out1 where m1: "shake_soft_quitall_command A fails pid input1 master = Inr (0, out1, ?m1)"
    using soft_command [OF assms(1,3,2,4)] by blast
  have r1: "ring_node pids 0 (quit_node ?m1)" using assms(3) ring_node_cong [of "quit_node ?m1" "quit_node master"] by simp
  let ?m2 = "?m1\<lparr>quit_node := (quit_node ?m1)\<lparr>effects := effects (quit_node ?m1) @
      passed_on A pid ''shake/quitall'' 0 (quit_node ?m1)\<rparr>, quit_fibers := (quit_fibers ?m1)\<lparr>internal_quit := True\<rparr>\<rparr>"
  obtain out2 where m2: "shake_quitall_command A fails pid input2 ?m1 = Inr (0, out2, ?m2)"
    using quit_command [OF assms(1) r1 assms(2)] by auto
  have "sent_to_next 0 master ?m2 = both_packets A pid"
    by (simp add: sent_to_next_def passed_on_def both_packets_def inbox_append)
  moreover obtain qs where "quit_ring A fails 1 (both_packets A pid) workers = Inr qs" "length qs = length workers"
    "\<forall>q \<in> set qs. soft_quitall q \<and> internal_quit (quit_fibers q)"
    using ring_quits [OF assms(1,2), of 1 workers pids pid] assms(5,6) by (auto simp: NGINZ_NUMBER_OF_PROCESSORS_def)
  ultimately show ?thesis
    using m1 m2 assms(5) by (intro exI [of _ out1] exI [of _ ?m1] exI [of _ out2] exI [of _ ?m2] exI [of _ qs])
      (simp add: NGINZ_NUMBER_OF_PROCESSORS_def)
qed

definition ring_process :: "nat \<Rightarrow> nat quit_process" where
  "ring_process i = \<lparr>quit_node = six_nodes\<lparr>mynode := Some i, recv_buffer := aroop_txt_buffer ref_aroop 1024\<rparr>,
     soft_quitall = False, quit_fibers = one_fiber FIBER_STATUS_ACTIVATED False\<rparr>"

lemma ring_process_ready: "i < 6 \<Longrightarrow> ready [100, 101, 102, 103, 104, 105] i (ring_process i) \<and> \<not> soft_quitall (ring_process i)"
  using nids_six_nodes nids_cong [of "quit_node (ring_process i)" six_nodes]
  by (auto simp: ready_def ring_node_def ring_process_def reader_ok_def wf_txt_def t_cap_def ref_aroop_def six_nodes_def)

lemma quit_reaches_every_process_witness:
  "\<exists>out1 m1 out2 m2 qs. shake_soft_quitall_command ref_aroop (\<lambda>_. False) 100 zero_txt (ring_process 0) = Inr (0, out1, m1) \<and>
    shake_quitall_command ref_aroop (\<lambda>_. False) 100 zero_txt m1 = Inr (0, out2, m2) \<and>
    quit_ring ref_aroop (\<lambda>_. False) 1 (sent_to_next 0 (ring_process 0) m2)
      (map (\<lambda>i. (of_nat (100 + i), ring_process i)) [1..<6]) = Inr qs \<and> length qs = 5 \<and>
    (\<forall>q \<in> set (m2 # qs). soft_quitall q \<and> internal_quit (quit_fibers q))"
  by (rule quit_reaches_every_process [of ref_aroop _ "[100, 101, 102, 103, 104, 105]"])
    (use ring_process_ready in \<open>auto simp: ready_def NGINZ_NUMBER_OF_PROCESSORS_def\<close>)

text \<open>Without the soft quit a process refuses: nothing is sent and its fibers go on.\<close>

lemma quit_needs_soft_quit:
  "\<not> soft_quitall p \<Longrightarrow> shake_quitall_command A fails pid out p =
    Inr (0, aroop_txt_static_string A (lit ''Please softquitall first'' @ [10]), p)"
  by (simp add: shake_quitall_command_def)

end
