(* ===== verification/ChatModules.thy ===== *)
theory ChatModules
  imports ChatServer RoomMaster Fiber Protostack
begin

text \<open>
  Starting the chat: the init functions of the modules under \<open>apps/chat/src\<close>, in the order of
  \<open>chat_plugin_manager_module_init\<close>, and \<open>nginz_chat_module_init\<close> of \<open>chat.c\<close>. The chat has a plugin container of its own
  next to the one of the process; the static variables the functions set are the fields of \<open>chat_statics\<close>. A function
  pointer of \<open>struct chat_api\<close> is the constructor of its function. Pools are created empty.
\<close>

section \<open>Code\<close>

datatype chat_api_fn = Chat_alloc | Uptime_count_chat_create | Chat_get | Command_hook | Handle_chat_request

record chat_api =
  on_create :: "chat_api_fn option"
  get_connection :: "chat_api_fn option"
  on_command :: "chat_api_fn option"
  handle_chat_request_cb :: "chat_api_fn option"

datatype process_fiber = Event_loop_step | Lazy_call_step | Chat_lazy_cleanup_fiber

datatype chat_stack = Chat_protostack

record 'w chat_statics =
  hooks :: chat_api
  real_on_create :: "chat_api_fn option"
  chat_state :: "'w chat_world"
  chat_fibers :: "process_fiber fiber_table"
  chat_ports :: "chat_stack protostacks"
  chat_lb :: "32 word"
  chat_recv_buffer :: aroop_txt_t

text \<open>A process with an application: the container of the application (null before its start) and the one of the process,
  next to the static variables \<open>'s\<close>.\<close>

record ('p, 'h, 's) app_boot =
  app_container :: "('p, 'p, 'h) composite_plugin option"
  core_container :: "(core_plug, core_plug, 'h) composite_plugin"
  statics :: 's

type_synonym ('h, 'w) chat_boot = "(chat_plug, 'h, 'w chat_statics) app_boot"

definition plug_app ::
    "aroop \<Rightarrow> ('h, nat) table_api \<Rightarrow> string \<Rightarrow> 'p \<Rightarrow> ('p, 'h, 's) app_boot \<Rightarrow> ('p, 'h, 's) app_boot exec" where
  "plug_app A T space p b =
     (case app_container b of
        None \<Rightarrow> Inl NullDeref
      | Some c \<Rightarrow> ebind (plug_one A T (bridge_at A space p) c) (\<lambda>(_, c'). Inr (b\<lparr>app_container := Some c'\<rparr>)))"

definition plug_core ::
    "aroop \<Rightarrow> ('h, nat) table_api \<Rightarrow> (core_plug, core_plug) plug_request \<Rightarrow> ('p, 'h, 's) app_boot \<Rightarrow> ('p, 'h, 's) app_boot exec" where
  "plug_core A T r b = ebind (plug_one A T r (core_container b)) (\<lambda>(_, c'). Inr (b\<lparr>core_container := c'\<rparr>))"

definition on_statics :: "('s \<Rightarrow> 's exec) \<Rightarrow> ('p, 'h, 's) app_boot \<Rightarrow> ('p, 'h, 's) app_boot exec" where
  "on_statics f b = ebind (f (statics b)) (\<lambda>s. Inr (b\<lparr>statics := s\<rparr>))"

definition andthen :: "('s \<Rightarrow> 's exec) \<Rightarrow> ('s \<Rightarrow> 's exec) \<Rightarrow> 's \<Rightarrow> 's exec" where
  "andthen f g s = ebind (f s) g"

text \<open>One statement after the other.\<close>

definition in_order :: "('s \<Rightarrow> 's exec) list \<Rightarrow> 's \<Rightarrow> 's exec" where
  "in_order fs = foldr andthen fs Inr"

type_synonym ('h, 'w) chat_init = "'w chat_env \<Rightarrow> ('h, nat) table_api \<Rightarrow> ('h, 'w) chat_boot \<Rightarrow> ('h, 'w) chat_boot exec"

definition set_state :: "('w chat_world \<Rightarrow> 'w chat_world) \<Rightarrow> 'w chat_statics \<Rightarrow> 'w chat_statics exec" where
  "set_state f s = Inr (s\<lparr>chat_state := f (chat_state s)\<rparr>)"

definition chat_zombie_module_init :: "('h, 'w) chat_init" where
  "chat_zombie_module_init E T = in_order [
     on_statics (set_state (zombie_list_update (\<lambda>_. []))),
     plug_core (lib E) T (callback_at (lib E) ''shake/softquitall'' Chat_zombie_on_softquit),
     on_statics (\<lambda>s. ebind (register_fiber_full (lib E) Chat_lazy_cleanup_fiber ''chat_zombie.c'' 87 (chat_fibers s)) (\<lambda>(_, fs).
       Inr (s\<lparr>chat_fibers := fs\<rparr>)))]"

definition chat_factory_module_init :: "('h, 'w) chat_init" where
  "chat_factory_module_init E T = in_order [
     on_statics (set_state (chat_factory_update (\<lambda>_. []))),
     plug_app (lib E) T ''chat/show'' Show,
     plug_core (lib E) T (callback_at (lib E) ''shake/softquitall'' Chat_factory_on_softquit),
     on_statics (\<lambda>s. Inr (s\<lparr>hooks := (hooks s)\<lparr>on_create := Some Chat_alloc, get_connection := Some Chat_get\<rparr>\<rparr>)),
     chat_zombie_module_init E T]"

definition user_module_init :: "('h, 'w) chat_init" where
  "user_module_init E T = Inr"

definition welcome_module_init :: "('h, 'w) chat_init" where
  "welcome_module_init E T = in_order [
     on_statics (set_state (greet_on_login_update (\<lambda>_. aroop_txt_buffer (lib E) 128))),
     plug_app (lib E) T ''chat/_welcome'' Welcome,
     plug_core (lib E) T (callback_at (lib E) ''on/asyncchat/login'' On_asyncchat_login_hook)]"

definition broadcast_module_init :: "('h, 'w) chat_init" where
  "broadcast_module_init E T = on_statics (set_state (room_factory_update (\<lambda>_. [])))"

definition room_master_module_init :: "('h, 'w) chat_init" where
  "room_master_module_init E T = in_order [
     on_statics (\<lambda>s. ebind (aroop_assert (lib E) (is_master (pipe (chat_state s)))) (\<lambda>_. Inr s)),
     on_statics (\<lambda>s. ebind (default_room_setup (lib E) (send_fails E) (my_pid E) (master_pid E) (pipe (chat_state s))) (\<lambda>(_, p).
       set_state (pipe_update (\<lambda>_. p)) s)),
     plug_core (lib E) T (callback_at (lib E) ''on/async/room/call'' On_async_room_call_master),
     plug_core (lib E) T (bridge_at (lib E) ''fork/parent/after'' Default_room_fork_parent_after),
     plug_core (lib E) T (bridge_at (lib E) ''fork/child/after'' Default_room_fork_child_after)]"

definition room_module_init :: "('h, 'w) chat_init" where
  "room_module_init E T = in_order [
     plug_app (lib E) T ''chat/rooms'' Rooms,
     plug_core (lib E) T (callback_at (lib E) ''on/async/room/reply'' On_asyncchat_rooms),
     (\<lambda>b. if is_master (pipe (chat_state (statics b))) then room_master_module_init E T b else Inr b)]"

definition join_module_init :: "('h, 'w) chat_init" where
  "join_module_init E T = in_order [
     plug_app (lib E) T ''chat/join'' Join,
     plug_core (lib E) T (callback_at (lib E) ''on/asyncchat/room/pid'' On_asyncchat_room_pid)]"

definition hiddenjoin_module_init :: "('h, 'w) chat_init" where
  "hiddenjoin_module_init E T = plug_app (lib E) T ''chat/_hiddenjoin'' HiddenJoin"

definition leave_module_init :: "('h, 'w) chat_init" where
  "leave_module_init E T = plug_app (lib E) T ''chat/leave'' Leave"

definition quit_module_init :: "('h, 'w) chat_init" where
  "quit_module_init E T = plug_app (lib E) T ''chat/quit'' Quit"

definition private_message_module_init :: "('h, 'w) chat_init" where
  "private_message_module_init E T = plug_app (lib E) T ''chat/pm'' PrivateMessage"

definition uptime_module_init :: "('h, 'w) chat_init" where
  "uptime_module_init E T = in_order [
     on_statics (set_state (start_time_update (\<lambda>_. now E))),
     plug_app (lib E) T ''chat/uptime'' Uptime,
     on_statics (\<lambda>s. Inr (s\<lparr>real_on_create := on_create (hooks s),
       hooks := (hooks s)\<lparr>on_create := Some Uptime_count_chat_create\<rparr>\<rparr>))]"

definition version_module_init :: "('h, 'w) chat_init" where
  "version_module_init E T = plug_app (lib E) T ''chat/version'' Version"

definition chat_profiler_module_init :: "('h, 'w) chat_init" where
  "chat_profiler_module_init E T = plug_app (lib E) T ''chat/profiler'' Profiler"

definition chat_command_module_init :: "('h, 'w) chat_init" where
  "chat_command_module_init E T = on_statics (\<lambda>s. Inr (s\<lparr>hooks := (hooks s)\<lparr>on_command := Some Command_hook\<rparr>\<rparr>))"

definition chat_accept_module_init :: "('h, 'w) chat_init" where
  "chat_accept_module_init E T = in_order [
     on_statics (\<lambda>s. Inr (s\<lparr>chat_lb := load_balancer_setup (my_pid E), chat_recv_buffer := aroop_txt_buffer (lib E) NGINZ_MAX_CHAT_MSG_SIZE,
       chat_ports := snd (protostack_set NGINZ_CHAT_PORT (Some Chat_protostack) (chat_ports s))\<rparr>)),
     plug_core (lib E) T (callback_at (lib E) ''shake/softquitall'' Chat_accept_on_softquit),
     on_statics (\<lambda>s. Inr (s\<lparr>hooks := (hooks s)\<lparr>handle_chat_request_cb := Some Handle_chat_request\<rparr>\<rparr>))]"

definition chat_plugin_manager_module_init :: "('h, 'w) chat_init" where
  "chat_plugin_manager_module_init E T = in_order [
     (\<lambda>b. ebind (aroop_assert (lib E) (app_container b = None)) (\<lambda>_. Inr (b\<lparr>app_container := Some (composite_plugin_create T)\<rparr>))),
     chat_factory_module_init E T, user_module_init E T, welcome_module_init E T, broadcast_module_init E T,
     room_module_init E T, join_module_init E T, hiddenjoin_module_init E T, leave_module_init E T, quit_module_init E T,
     private_message_module_init E T, uptime_module_init E T, version_module_init E T, chat_profiler_module_init E T,
     chat_command_module_init E T, chat_accept_module_init E T,
     plug_app (lib E) T ''chat/help'' Help,
     plug_core (lib E) T (callback_at (lib E) ''shake/chatplugin'' Chat_plugin_command)]"

definition nginz_chat_module_init :: "('h, 'w) chat_init" where
  "nginz_chat_module_init E T = in_order [
     on_statics (\<lambda>s. Inr (s\<lparr>hooks := \<lparr>on_create = None, get_connection = None, on_command = None, handle_chat_request_cb = None\<rparr>\<rparr>)),
     chat_plugin_manager_module_init E T]"

section \<open>What an init function plugs\<close>

definition containers_ok :: "('h, nat) table_api \<Rightarrow> ('p, 'h, 's) app_boot \<Rightarrow> bool" where
  "containers_ok T b \<longleftrightarrow> (case app_container b of None \<Rightarrow> False | Some c \<Rightarrow> plugins_wf T c) \<and> plugins_wf T (core_container b)"

definition app_at :: "('h, nat) table_api \<Rightarrow> ('p, 'h, 's) app_boot \<Rightarrow> bytes \<Rightarrow> ('p, 'p) registered list" where
  "app_at T b = plugins_at T (the (app_container b))"

text \<open>\<open>boots\<close>: from every state whose static variables \<open>g\<close> accepts, the function plugs \<open>rs\<close> into the application's container and
  \<open>qs\<close> into the container of the process, changes the static variables as \<open>g\<close> does, and nothing else.\<close>

definition boots ::
    "('h, nat) table_api \<Rightarrow> (('p, 'h, 's) app_boot \<Rightarrow> ('p, 'h, 's) app_boot exec) \<Rightarrow> ('p, 'p) plug_request list \<Rightarrow>
     (core_plug, core_plug) plug_request list \<Rightarrow> ('s \<Rightarrow> 's exec) \<Rightarrow> bool" where
  "boots T f rs qs g \<longleftrightarrow> (\<forall>b s. containers_ok T b \<longrightarrow> g (statics b) = Inr s \<longrightarrow>
     (\<exists>b'. f b = Inr b' \<and> containers_ok T b' \<and> statics b' = s \<and> (\<forall>k. app_at T b' k = app_at T b k @ requested rs k) \<and>
       (\<forall>k. plugins_at T (core_container b') k = plugins_at T (core_container b) k @ requested qs k)))"

lemma requested_append: "requested (rs @ qs) k = requested rs k @ requested qs k"
  by (simp add: requested_def)

lemma requested_Nil: "requested [] k = []"
  by (simp add: requested_def)

lemma boots_andthen:
  fixes f :: "('p, 'h, 's) app_boot \<Rightarrow> ('p, 'h, 's) app_boot exec"
  assumes "boots T f rs qs g" and "boots T f' rs' qs' g'"
  shows "boots T (andthen f f') (rs @ rs') (qs @ qs') (andthen g g')"
  unfolding boots_def
proof (intro allI impI)
  fix b :: "('p, 'h, 's) app_boot" and s
  assume b: "containers_ok T b" "andthen g g' (statics b) = Inr s"
  then obtain s1 where s1: "g (statics b) = Inr s1" "g' s1 = Inr s" by (auto simp: andthen_def ebind_Inr_iff)
  obtain b1 where b1: "f b = Inr b1" "containers_ok T b1" "statics b1 = s1"
    "\<forall>k. app_at T b1 k = app_at T b k @ requested rs k"
    "\<forall>k. plugins_at T (core_container b1) k = plugins_at T (core_container b) k @ requested qs k"
    using assms(1) b(1) s1(1) unfolding boots_def by blast
  obtain b2 where "f' b1 = Inr b2" "containers_ok T b2" "statics b2 = s"
    "\<forall>k. app_at T b2 k = app_at T b1 k @ requested rs' k"
    "\<forall>k. plugins_at T (core_container b2) k = plugins_at T (core_container b1) k @ requested qs' k"
    using assms(2) b1(2,3) s1(2) unfolding boots_def by blast
  with b1 show "\<exists>b'. andthen f f' b = Inr b' \<and> containers_ok T b' \<and> statics b' = s \<and>
      (\<forall>k. app_at T b' k = app_at T b k @ requested (rs @ rs') k) \<and>
      (\<forall>k. plugins_at T (core_container b') k = plugins_at T (core_container b) k @ requested (qs @ qs') k)"
    by (intro exI [of _ b2]) (simp add: andthen_def requested_append)
qed

lemma boots_Inr: "boots T Inr [] [] Inr"
  by (simp add: boots_def requested_Nil)

lemma boots_statics: "boots T (on_statics g) [] [] g"
  by (auto simp: boots_def on_statics_def requested_Nil containers_ok_def app_at_def)

lemma boots_app:
  fixes T :: "('h, nat) table_api" and p :: 'p
  assumes A: "aroop_ok A" and T: "table_ok T"
  shows "boots T (plug_app A T space p :: ('p, 'h, 's) app_boot \<Rightarrow> ('p, 'h, 's) app_boot exec) [bridge_at A space p] [] Inr"
  unfolding boots_def
proof (intro allI impI)
  fix b :: "('p, 'h, 's) app_boot" and s
  assume b: "containers_ok T b" "Inr (statics b) = Inr s"
  then obtain c where c: "app_container b = Some c" "plugins_wf T c" by (auto simp: containers_ok_def split: option.splits)
  obtain c' where c': "plug_one A T (bridge_at A space p) c = Inr (0, c')" "plugins_wf T c'"
    "plugins_at T c' = (plugins_at T c)(lit space := plugins_at T c (lit space) @ [(BRIDGE_PLUGIN, Some p, p)])"
    using plug_one_wf [OF A T c(2) static_laws(1) [OF A], of BRIDGE_PLUGIN "lit space" p p]
    by (auto simp: bridge_at_def static_laws [OF A])
  then show "\<exists>b'. plug_app A T space p b = Inr b' \<and> containers_ok T b' \<and> statics b' = s \<and>
      (\<forall>k. app_at T b' k = app_at T b k @ requested [bridge_at A space p] k) \<and>
      (\<forall>k. plugins_at T (core_container b') k = plugins_at T (core_container b) k @ requested [] k)"
    using b c by (auto simp: plug_app_def containers_ok_def app_at_def requested_def bridge_at_def static_laws [OF A])
qed

lemma boots_core:
  fixes T :: "('h, nat) table_api"
  assumes A: "aroop_ok A" and T: "table_ok T" and r: "r = callback_at A space p \<or> r = bridge_at A space p"
  shows "boots T (plug_core A T r :: ('p, 'h, 's) app_boot \<Rightarrow> ('p, 'h, 's) app_boot exec) [] [r] Inr"
  unfolding boots_def
proof (intro allI impI)
  fix b :: "('p, 'h, 's) app_boot" and s
  assume b: "containers_ok T b" "Inr (statics b) = Inr s"
  let ?c = "core_container b"
  have c: "plugins_wf T ?c" using b(1) by (simp add: containers_ok_def)
  obtain cat where cat: "r = (cat, aroop_txt_static_string A (lit space), p, p)" "cat \<noteq> INVALID_PLUGIN"
    using r by (auto simp: callback_at_def bridge_at_def)
  obtain c' where c': "plug_one A T r ?c = Inr (0, c')" "plugins_wf T c'"
    "plugins_at T c' = (plugins_at T ?c)(lit space := plugins_at T ?c (lit space) @ [(cat, Some p, p)])"
    using plug_one_wf [OF A T c static_laws(1) [OF A] cat(2), of "lit space" p p] by (auto simp: cat(1) static_laws [OF A])
  then show "\<exists>b'. plug_core A T r b = Inr b' \<and> containers_ok T b' \<and> statics b' = s \<and>
      (\<forall>k. app_at T b' k = app_at T b k @ requested [] k) \<and>
      (\<forall>k. plugins_at T (core_container b') k = plugins_at T (core_container b) k @ requested [r] k)"
    using b by (auto simp: plug_core_def containers_ok_def app_at_def requested_def cat(1) static_laws [OF A])
qed

lemma boots_in_order: "boots T (in_order []) [] [] Inr"
  "boots T f rs qs g \<Longrightarrow> boots T (in_order fs) rs' qs' g' \<Longrightarrow> boots T (in_order (f # fs)) (rs @ rs') (qs @ qs') (andthen g g')"
  by (simp_all add: in_order_def boots_Inr boots_andthen)

lemma boots_if:
  assumes "boots T f rs qs g"
  shows "boots T (\<lambda>b. if Q (statics b) then f b else Inr b) rs qs (\<lambda>s. if Q s then g s else Inl AssertFailed)"
  using assms by (auto simp: boots_def split: if_splits)

lemma boots_eq: "boots T f rs qs g \<Longrightarrow> rs = rs' \<Longrightarrow> qs = qs' \<Longrightarrow> g = g' \<Longrightarrow> boots T f rs' qs' g'"
  by simp

lemma andthen_Inr [simp]: "andthen Inr g = g" "andthen g Inr = g"
proof -
  show "andthen g Inr = g"
  proof (rule ext)
    show "andthen g Inr s = g s" for s by (cases "g s") (simp_all add: andthen_def)
  qed
qed (simp add: andthen_def fun_eq_iff)

lemma andthen_assoc: "andthen (andthen f g) h = andthen f (andthen g h)"
proof (rule ext)
  show "andthen (andthen f g) h s = andthen f (andthen g h) s" for s by (cases "f s") (simp_all add: andthen_def)
qed

text \<open>What the whole start does to the static variables of the chat.\<close>

definition statics_start :: "'w chat_env \<Rightarrow> 'w chat_statics \<Rightarrow> 'w chat_statics exec" where
  "statics_start E = in_order [
     set_state (chat_factory_update (\<lambda>_. [])),
     \<lambda>s. Inr (s\<lparr>hooks := (hooks s)\<lparr>on_create := Some Chat_alloc, get_connection := Some Chat_get\<rparr>\<rparr>),
     set_state (zombie_list_update (\<lambda>_. [])),
     \<lambda>s. ebind (register_fiber_full (lib E) Chat_lazy_cleanup_fiber ''chat_zombie.c'' 87 (chat_fibers s)) (\<lambda>(_, fs).
       Inr (s\<lparr>chat_fibers := fs\<rparr>)),
     set_state (greet_on_login_update (\<lambda>_. aroop_txt_buffer (lib E) 128)),
     set_state (room_factory_update (\<lambda>_. [])),
     \<lambda>s. if is_master (pipe (chat_state s)) then
       in_order [\<lambda>s. ebind (aroop_assert (lib E) (is_master (pipe (chat_state s)))) (\<lambda>_. Inr s),
         \<lambda>s. ebind (default_room_setup (lib E) (send_fails E) (my_pid E) (master_pid E) (pipe (chat_state s))) (\<lambda>(_, p).
           set_state (pipe_update (\<lambda>_. p)) s)] s
       else Inl AssertFailed,
     set_state (start_time_update (\<lambda>_. now E)),
     \<lambda>s. Inr (s\<lparr>real_on_create := on_create (hooks s), hooks := (hooks s)\<lparr>on_create := Some Uptime_count_chat_create\<rparr>\<rparr>),
     \<lambda>s. Inr (s\<lparr>hooks := (hooks s)\<lparr>on_command := Some Command_hook\<rparr>\<rparr>),
     \<lambda>s. Inr (s\<lparr>chat_lb := load_balancer_setup (my_pid E), chat_recv_buffer := aroop_txt_buffer (lib E) NGINZ_MAX_CHAT_MSG_SIZE,
       chat_ports := snd (protostack_set NGINZ_CHAT_PORT (Some Chat_protostack) (chat_ports s))\<rparr>),
     \<lambda>s. Inr (s\<lparr>hooks := (hooks s)\<lparr>handle_chat_request_cb := Some Handle_chat_request\<rparr>\<rparr>)]"

definition chat_table :: "(string \<times> chat_plug) list" where
  "chat_table =
     [(''chat/show'', Show), (''chat/_welcome'', Welcome), (''chat/rooms'', Rooms), (''chat/join'', Join),
      (''chat/_hiddenjoin'', HiddenJoin), (''chat/leave'', Leave), (''chat/quit'', Quit), (''chat/pm'', PrivateMessage),
      (''chat/uptime'', Uptime), (''chat/version'', Version), (''chat/profiler'', Profiler), (''chat/help'', Help)]"

definition chat_plugs :: "aroop \<Rightarrow> (chat_plug, chat_plug) plug_request list" where
  "chat_plugs A = map (\<lambda>(sp, p). bridge_at A sp p) chat_table"

definition chat_core_plugs :: "aroop \<Rightarrow> (core_plug, core_plug) plug_request list" where
  "chat_core_plugs A =
     [callback_at A ''shake/softquitall'' Chat_factory_on_softquit, callback_at A ''shake/softquitall'' Chat_zombie_on_softquit,
      callback_at A ''on/asyncchat/login'' On_asyncchat_login_hook, callback_at A ''on/async/room/reply'' On_asyncchat_rooms,
      callback_at A ''on/async/room/call'' On_async_room_call_master,
      bridge_at A ''fork/parent/after'' Default_room_fork_parent_after, bridge_at A ''fork/child/after'' Default_room_fork_child_after,
      callback_at A ''on/asyncchat/room/pid'' On_asyncchat_room_pid, callback_at A ''shake/softquitall'' Chat_accept_on_softquit,
      callback_at A ''shake/chatplugin'' Chat_plugin_command]"

lemma boots_managed:
  fixes f :: "('p, 'h, 's) app_boot \<Rightarrow> ('p, 'h, 's) app_boot exec"
  assumes A: "aroop_ok A" and T: "table_ok T" and f: "boots T f rs qs g"
    and b: "app_container b = None" "plugins_wf T (core_container b)" and s: "g (statics b) = Inr s"
  shows "\<exists>b' P. andthen (\<lambda>b. ebind (aroop_assert A (app_container b = None)) (\<lambda>_.
      Inr (b\<lparr>app_container := Some (composite_plugin_create T)\<rparr>))) f b = Inr b' \<and> statics b' = s \<and>
    app_container b' = Some P \<and> plugins_wf T P \<and> plugins_at T P = requested rs \<and> plugins_wf T (core_container b') \<and>
    (\<forall>k. plugins_at T (core_container b') k = plugins_at T (core_container b) k @ requested qs k)"
proof -
  let ?b = "b\<lparr>app_container := Some (composite_plugin_create T)\<rparr>"
  note c = create_wf [OF T refl, where ?'b = 'p and ?'c = 'p]
  have "containers_ok T ?b" "app_at T ?b = (\<lambda>_. [])" using b(2) c by (simp_all add: containers_ok_def app_at_def)
  then obtain b' where b': "f ?b = Inr b'" "containers_ok T b'" "statics b' = s" "\<forall>k. app_at T b' k = requested rs k"
    "\<forall>k. plugins_at T (core_container b') k = plugins_at T (core_container b) k @ requested qs k"
    using f s unfolding boots_def by fastforce
  then obtain P where "app_container b' = Some P" by (auto simp: containers_ok_def split: option.splits)
  with b' b(1) show ?thesis by (auto simp: andthen_def containers_ok_def app_at_def fun_eq_iff)
qed

lemma boots_modules:
  assumes "aroop_ok (lib E)" and "table_ok T"
  shows "boots T (in_order [chat_factory_module_init E T, user_module_init E T, welcome_module_init E T, broadcast_module_init E T,
     room_module_init E T, join_module_init E T, hiddenjoin_module_init E T, leave_module_init E T, quit_module_init E T,
     private_message_module_init E T, uptime_module_init E T, version_module_init E T, chat_profiler_module_init E T,
     chat_command_module_init E T, chat_accept_module_init E T,
     plug_app (lib E) T ''chat/help'' Help,
     plug_core (lib E) T (callback_at (lib E) ''shake/chatplugin'' Chat_plugin_command)])
    (chat_plugs (lib E)) (chat_core_plugs (lib E)) (statics_start E)"
  unfolding chat_factory_module_init_def chat_zombie_module_init_def user_module_init_def welcome_module_init_def
    broadcast_module_init_def room_module_init_def room_master_module_init_def join_module_init_def hiddenjoin_module_init_def
    leave_module_init_def quit_module_init_def private_message_module_init_def uptime_module_init_def version_module_init_def
    chat_profiler_module_init_def chat_command_module_init_def chat_accept_module_init_def
  apply (rule boots_eq)
  apply (rule boots_in_order boots_statics boots_app [OF assms] boots_core [OF assms disjI1 [OF refl]]
    boots_core [OF assms disjI2 [OF refl]] boots_Inr
    boots_if [where Q = "\<lambda>s. is_master (pipe (chat_state s))"])+
  apply (simp add: chat_plugs_def chat_table_def)
  apply (simp add: chat_core_plugs_def)
  apply (simp add: statics_start_def in_order_def andthen_assoc cong: if_cong)
  done

lemma default_rooms_total:
  assumes "aroop_ok A" and "node_index mpid s = Some i" and "mpid \<noteq> 0"
  shows "\<exists>s'. default_room_setup A fails pid mpid s = Inr (0, s') \<and> grows s s'"
proof -
  have k: "t_len (aroop_txt_static_string A ROOM_KEY) \<noteq> 0"
    using length_str [OF static_laws(1) [OF assms(1), of ROOM_KEY]] by (simp add: static_laws [OF assms(1)] ROOM_KEY_def)
  show ?thesis
  proof (cases "is_master s")
    case True
    then show ?thesis
      using cas_total [OF assms k, of None] by (auto simp: default_room_setup_def Let_def) (metis (no_types, lifting) case_prod_conv ebind_simps(2))
  qed (auto simp: default_room_setup_def)
qed

lemma statics_start_result:
  assumes "aroop_ok (lib E)" and "is_master (pipe (chat_state s))"
    and "node_index (master_pid E) (pipe (chat_state s)) = Some i" and "master_pid E \<noteq> 0"
    and "k < MAX_FIBERS" and "free_slot (chat_fibers s) k"
  shows "\<exists>s'. statics_start E s = Inr s' \<and>
    hooks s' = \<lparr>on_create = Some Uptime_count_chat_create, get_connection = Some Chat_get, on_command = Some Command_hook,
      handle_chat_request_cb = Some Handle_chat_request\<rparr> \<and> real_on_create s' = Some Chat_alloc \<and>
    chat_factory (chat_state s') = [] \<and> room_factory (chat_state s') = [] \<and> zombie_list (chat_state s') = [] \<and>
    conns (chat_state s') = conns (chat_state s) \<and> start_time (chat_state s') = now E \<and>
    (\<exists>j. free_slot (chat_fibers s) j \<and> fibers (chat_fibers s') = (fibers (chat_fibers s))
      (j := \<lparr>status = FIBER_STATUS_CREATED, fiber = Some Chat_lazy_cleanup_fiber, filename = ''chat_zombie.c'', lineno = 87\<rparr>)) \<and>
    grows (pipe (chat_state s)) (pipe (chat_state s')) \<and>
    chat_ports s' = snd (protostack_set NGINZ_CHAT_PORT (Some Chat_protostack) (chat_ports s))"
proof -
  obtain j fs where fs: "free_slot (chat_fibers s) j" "register_fiber_full (lib E) Chat_lazy_cleanup_fiber ''chat_zombie.c'' 87 (chat_fibers s) = Inr (0, fs)"
    "fibers fs = (fibers (chat_fibers s))(j := \<lparr>status = FIBER_STATUS_CREATED, fiber = Some Chat_lazy_cleanup_fiber, filename = ''chat_zombie.c'', lineno = 87\<rparr>)"
    using register_free [OF assms(5,6)] by blast
  obtain p where p: "default_room_setup (lib E) (send_fails E) (my_pid E) (master_pid E) (pipe (chat_state s)) = Inr (0, p)"
    "grows (pipe (chat_state s)) p"
    using default_rooms_total [OF assms(1,3,4)] by blast
  show ?thesis
    using fs assms(2) p by (simp add: statics_start_def in_order_def andthen_def set_state_def aroop_assert_def) blast
qed

section \<open>The commands of the started chat\<close>

definition chat_command_of :: "bytes \<Rightarrow> chat_plug option" where
  "chat_command_of = map_of (map (\<lambda>(sp, p). (lit sp, p)) chat_table)"

definition command_plugs :: "bytes \<Rightarrow> (chat_plug, chat_plug) registered list" where
  "command_plugs k = (case chat_command_of k of Some p \<Rightarrow> [(BRIDGE_PLUGIN, Some p, p)] | None \<Rightarrow> [])"

lemma requested_bridges:
  assumes "aroop_ok A" and "distinct (map fst xs)"
  shows "requested (map (\<lambda>(sp, p). bridge_at A sp p) xs) k =
    (case map_of (map (\<lambda>(sp, p). (lit sp, p)) xs) k of Some p \<Rightarrow> [(BRIDGE_PLUGIN, Some p, p)] | None \<Rightarrow> [])"
  using assms(2)
proof (induction xs)
  case (Cons x xs)
  obtain sp p where x: "x = (sp, p)" by (cases x)
  have "map_of (map (\<lambda>(sp, p). (lit sp, p)) xs) (lit sp) = None"
    using Cons.prems x by (force simp: map_of_eq_None_iff)
  then show ?case
    using Cons x by (auto simp: requested_def bridge_at_def static_laws [OF assms(1)])
qed (simp add: requested_def)

lemma requested_chat_plugs: "aroop_ok A \<Longrightarrow> requested (chat_plugs A) = command_plugs"
  unfolding fun_eq_iff command_plugs_def chat_command_of_def chat_plugs_def
  by (intro allI requested_bridges) (simp_all add: chat_table_def)

lemma first_char: "aroop_ok A \<Longrightarrow> wf_txt t \<Longrightarrow> str t = b # bs \<Longrightarrow> aroop_txt_char_at A t 0 = b"
  using length_str [of t] by (simp add: char_at_str)

text \<open>Cutting the first character, or the separator after a token, off a text.\<close>

lemma shift_one:
  assumes "aroop_ok A" and "wf_txt t" and "str t = b # bs"
  shows "wf_txt (aroop_txt_shift A t 1)" and "str (aroop_txt_shift A t 1) = bs"
proof -
  have n: "1 \<le> t_len t" using assms(2,3) length_str [of t] by simp
  have sh: "aroop_txt_shift A t 1 = \<lparr>t_mem = drop 1 (t_mem t), t_len = t_len t - 1\<rparr>" using shift_law [OF assms(1,2) n] by simp
  then show "wf_txt (aroop_txt_shift A t 1)" using assms(2) n by (simp add: wf_txt_def t_cap_def diff_le_mono)
  have "str (aroop_txt_shift A t 1) = drop 1 (str t)" by (simp add: sh str_def drop_take)
  then show "str (aroop_txt_shift A t 1) = bs" using assms(3) by simp
qed

text \<open>The whole start of the chat.\<close>

lemma chat_start_result:
  assumes "aroop_ok (lib E)" and "table_ok T" and "app_container b = None" and "plugins_wf T (core_container b)"
    and "is_master (pipe (chat_state (statics b)))" and "node_index (master_pid E) (pipe (chat_state (statics b))) = Some i"
    and "master_pid E \<noteq> 0" and "k < MAX_FIBERS" and "free_slot (chat_fibers (statics b)) k"
  shows "\<exists>b' P j. nginz_chat_module_init E T b = Inr b' \<and> app_container b' = Some P \<and> plugins_wf T P \<and>
    plugins_at T P = command_plugs \<and> plugins_wf T (core_container b') \<and>
    (\<forall>k. plugins_at T (core_container b') k = plugins_at T (core_container b) k @ requested (chat_core_plugs (lib E)) k) \<and>
    hooks (statics b') = \<lparr>on_create = Some Uptime_count_chat_create, get_connection = Some Chat_get,
      on_command = Some Command_hook, handle_chat_request_cb = Some Handle_chat_request\<rparr> \<and>
    real_on_create (statics b') = Some Chat_alloc \<and>
    chat_factory (chat_state (statics b')) = [] \<and> room_factory (chat_state (statics b')) = [] \<and>
    zombie_list (chat_state (statics b')) = [] \<and> start_time (chat_state (statics b')) = now E \<and>
    grows (pipe (chat_state (statics b))) (pipe (chat_state (statics b'))) \<and>
    free_slot (chat_fibers (statics b)) j \<and> fibers (chat_fibers (statics b')) = (fibers (chat_fibers (statics b)))
      (j := \<lparr>status = FIBER_STATUS_CREATED, fiber = Some Chat_lazy_cleanup_fiber, filename = ''chat_zombie.c'', lineno = 87\<rparr>) \<and>
    chat_ports (statics b') = snd (protostack_set NGINZ_CHAT_PORT (Some Chat_protostack) (chat_ports (statics b)))"
proof -
  let ?b = "b\<lparr>statics := (statics b)\<lparr>hooks := \<lparr>on_create = None, get_connection = None, on_command = None, handle_chat_request_cb = None\<rparr>\<rparr>\<rparr>"
  obtain s where s: "statics_start E (statics ?b) = Inr s"
    "hooks s = \<lparr>on_create = Some Uptime_count_chat_create, get_connection = Some Chat_get, on_command = Some Command_hook,
      handle_chat_request_cb = Some Handle_chat_request\<rparr>" "real_on_create s = Some Chat_alloc"
    "chat_factory (chat_state s) = []" "room_factory (chat_state s) = []" "zombie_list (chat_state s) = []"
    "start_time (chat_state s) = now E" "grows (pipe (chat_state (statics b))) (pipe (chat_state s))"
    "\<exists>j. free_slot (chat_fibers (statics b)) j \<and> fibers (chat_fibers s) = (fibers (chat_fibers (statics b)))
      (j := \<lparr>status = FIBER_STATUS_CREATED, fiber = Some Chat_lazy_cleanup_fiber, filename = ''chat_zombie.c'', lineno = 87\<rparr>)"
    "chat_ports s = snd (protostack_set NGINZ_CHAT_PORT (Some Chat_protostack) (chat_ports (statics b)))"
    using statics_start_result [OF assms(1), of "statics ?b" i k] assms(5-9) by auto
  obtain b' P where b': "chat_plugin_manager_module_init E T ?b = Inr b'" "statics b' = s"
    "app_container b' = Some P" "plugins_wf T P" "plugins_at T P = requested (chat_plugs (lib E))" "plugins_wf T (core_container b')"
    "\<forall>k. plugins_at T (core_container b') k = plugins_at T (core_container ?b) k @ requested (chat_core_plugs (lib E)) k"
    using boots_managed [OF assms(1,2) boots_modules [OF assms(1,2)], of ?b s] assms(3,4) s(1)
    by (auto simp: chat_plugin_manager_module_init_def in_order_def)
  have "nginz_chat_module_init E T b = Inr b'"
    using b'(1) by (simp add: nginz_chat_module_init_def in_order_def andthen_def on_statics_def)
  moreover obtain j where "free_slot (chat_fibers (statics b)) j" "fibers (chat_fibers s) = (fibers (chat_fibers (statics b)))
      (j := \<lparr>status = FIBER_STATUS_CREATED, fiber = Some Chat_lazy_cleanup_fiber, filename = ''chat_zombie.c'', lineno = 87\<rparr>)"
    using s(9) by blast
  ultimately show ?thesis
    using b' s(2-8,10) requested_chat_plugs [OF assms(1)] by (intro exI [of _ b'] exI [of _ P] exI [of _ j]) simp
qed

section \<open>Properties\<close>

text \<open>(C10) Starting the chat in the master wires everything: every space of the chat's container holds exactly the function of
  its module, the plugins of the process get the chat's callbacks and bridges after those they had, the function table
  of the chat is complete, with the counter of \<open>uptime.c\<close> in front of the constructor, the pools are empty, the
  cleanup fiber is registered and the chat's port has its stack.\<close>

theorem chat_starts:
  assumes "aroop_ok (lib E)" and "table_ok T" and "app_container b = None" and "plugins_wf T (core_container b)"
    and "is_master (pipe (chat_state (statics b)))" and "node_index (master_pid E) (pipe (chat_state (statics b))) = Some i"
    and "master_pid E \<noteq> 0" and "k < MAX_FIBERS" and "free_slot (chat_fibers (statics b)) k"
  shows "\<exists>b' P. nginz_chat_module_init E T b = Inr b' \<and> app_container b' = Some P \<and> plugins_wf T P \<and>
    plugins_at T P = command_plugs \<and>
    (\<forall>k. plugins_at T (core_container b') k = plugins_at T (core_container b) k @ requested (chat_core_plugs (lib E)) k) \<and>
    hooks (statics b') = \<lparr>on_create = Some Uptime_count_chat_create, get_connection = Some Chat_get,
      on_command = Some Command_hook, handle_chat_request_cb = Some Handle_chat_request\<rparr> \<and>
    real_on_create (statics b') = Some Chat_alloc \<and>
    chat_factory (chat_state (statics b')) = [] \<and> room_factory (chat_state (statics b')) = [] \<and>
    zombie_list (chat_state (statics b')) = [] \<and> start_time (chat_state (statics b')) = now E \<and>
    (\<exists>j. fiber (fibers (chat_fibers (statics b')) j) = Some Chat_lazy_cleanup_fiber) \<and>
    chat_ports (statics b') = snd (protostack_set NGINZ_CHAT_PORT (Some Chat_protostack) (chat_ports (statics b)))"
  using chat_start_result [OF assms] by fastforce

text \<open>(C11) A line that starts with a slash runs the command it names: in a started chat, \<open>/name arguments\<close> from a
  logged-in user calls exactly the function plugged by the module of that name, with the text after one separator as
  the request, which is cleared afterwards; a name nobody plugged runs nothing and is no error.\<close>

theorem typed_command_reaches_its_plug:
  assumes "aroop_ok (lib E)" and "table_ok T" and "plugins_wf T P" and "plugins_at T P = command_plugs"
    and "request (conns w c) = None" and "wf_txt req" and "str req = 47 # name @ s # args"
    and "word_ok name" and "hd name \<noteq> 95" and "length name \<le> 59" and "is_separator s"
  shows "\<exists>given. wf_txt given \<and> str given = args \<and>
    command_hook T P E c req w =
      (let w1 = upd_conn c (request_update (\<lambda>_. Some given)) w
       in case chat_command_of (lit ''chat/'' @ name) of
            None \<Rightarrow> Inr (0, upd_conn c (request_update (\<lambda>_. None)) w1)
          | Some p \<Rightarrow> ebind (run_chat_plug T P E p CHAT_SIGNATURE c w1) (\<lambda>(r, w2).
              Inr (sint (word_of_int r :: 32 word), upd_conn c (request_update (\<lambda>_. None)) w2)))"
proof -
  let ?A = "lib E"
  define req1 where "req1 = aroop_txt_shift ?A req 1"
  have r1: "wf_txt req1" "str req1 = name @ s # args"
    using shift_one [OF assms(1,6,7)] by (simp_all add: req1_def)
  obtain b bs where nm: "name = b # bs" "b \<noteq> 95" using assms(8,9) by (cases name) (auto simp: word_ok_def)
  have ch: "aroop_txt_char_at ?A req1 0 \<noteq> 95" using first_char [OF assms(1) r1(1)] r1(2) nm by simp
  obtain req2 tok where n: "scanner_next_token ?A req1 zero_txt = (req2, tok)" by fastforce
  have tok: "wf_txt req2 \<and> str req2 = s # args \<and> wf_txt tok \<and> str tok = name \<and> t_len tok \<noteq> 0"
    by (rule token_of [OF assms(1) r1(1) _ assms(8,11) _ n]) (simp_all add: r1(2))
  define given where "given = aroop_txt_shift ?A req2 1"
  have given: "wf_txt given" "str given = args" using shift_one [OF assms(1), of req2 s args] tok by (simp_all add: given_def)
  define space where "space = aroop_txt_concat ?A (aroop_txt_concat_string ?A (aroop_txt_stackbuffer ?A 64) (lit ''chat/'')) tok"
  have "built 64 space (([] @ lit ''chat/'') @ str tok)"
    unfolding space_def
    by (rule built_concat [OF assms(1) built_string [OF assms(1) built_stackbuffer [OF assms(1)]]])
      (use tok assms(10) length_str [of tok] in simp_all)
  then have sp: "str space = lit ''chat/'' @ name" using tok by (simp add: built_def)
  let ?w1 = "upd_conn c (request_update (\<lambda>_. Some given)) w"
  have call: "chat_bridge_call T P E space c ?w1 = run_bridges ?A (chat_runner T P E) (command_plugs (lit ''chat/'' @ name)) CHAT_SIGNATURE c 0 ?w1"
    by (simp add: chat_bridge_call_def bridge_call_runs [OF assms(2,3)] sp assms(4))
  have hook: "command_hook T P E c req w = ebind (chat_bridge_call T P E space c ?w1) (\<lambda>(ret, w2).
      Inr (sint ret, upd_conn c (request_update (\<lambda>_. None)) w2))"
    using ch tok assms(5)
    by (simp add: command_hook_def copy_shallow_law [OF assms(1)] flip: req1_def) (simp add: n flip: space_def given_def)
  have "command_hook T P E c req w =
      (case chat_command_of (lit ''chat/'' @ name) of
            None \<Rightarrow> Inr (0, upd_conn c (request_update (\<lambda>_. None)) ?w1)
          | Some p \<Rightarrow> ebind (run_chat_plug T P E p CHAT_SIGNATURE c ?w1) (\<lambda>(r, w2).
              Inr (sint (word_of_int r :: 32 word), upd_conn c (request_update (\<lambda>_. None)) w2)))"
  proof (cases "chat_command_of (lit ''chat/'' @ name)")
    case None
    then show ?thesis by (simp add: hook call command_plugs_def)
  next
    case (Some p)
    show ?thesis
      by (cases "run_chat_plug T P E p CHAT_SIGNATURE c ?w1") (auto simp: hook call command_plugs_def Some chat_runner_def)
  qed
  then show ?thesis using given by (intro exI [of _ given]) (simp add: Let_def)
qed

definition sample_boot :: "((bytes \<times> nat) list, (target \<times> bytes \<times> int) list) chat_boot" where
  "sample_boot = \<lparr>app_container = None, core_container = composite_plugin_create ref_table,
     statics = \<lparr>hooks = \<lparr>on_create = None, get_connection = None, on_command = None, handle_chat_request_cb = None\<rparr>,
       real_on_create = None, chat_state = sample_world,
       chat_fibers = \<lparr>fibers = (\<lambda>_. \<lparr>status = FIBER_STATUS_EMPTY, fiber = None, filename = [], lineno = 0\<rparr>), internal_quit = False\<rparr>,
       chat_ports = protostack_init, chat_lb = 0, chat_recv_buffer = zero_txt\<rparr>\<rparr>"

lemma chat_starts_witness:
  "\<exists>b' P. nginz_chat_module_init sample_env ref_table sample_boot = Inr b' \<and> app_container b' = Some P \<and>
    plugins_wf ref_table P \<and> plugins_at ref_table P = command_plugs \<and> on_create (hooks (statics b')) = Some Uptime_count_chat_create"
proof -
  have m: "is_master six_nodes" by (simp add: is_master_def six_nodes_def)
  have n: "node_index 100 six_nodes = Some 0"
    using node_index_nth [of six_nodes 0] by (simp add: nids_six_nodes) (simp add: six_nodes_def)
  note c = create_wf [OF ref_table_ok refl, where ?'b = core_plug and ?'c = core_plug]
  show ?thesis
    using chat_starts [of sample_env ref_table sample_boot 0 0] m n c
    by (auto simp: sample_boot_def sample_env_def sample_world_def free_slot_def MAX_FIBERS_def)
qed

lemma sample_container:
  "\<exists>P. plug_seq ref_aroop ref_table (chat_plugs ref_aroop) (composite_plugin_create ref_table) = Inr P \<and> plugins_wf ref_table P \<and>
    plugins_at ref_table P = command_plugs"
proof -
  have "\<forall>(cat, space, f, d) \<in> set (chat_plugs ref_aroop). wf_txt space \<and> cat \<noteq> INVALID_PLUGIN"
    by (auto simp: chat_plugs_def bridge_at_def static_laws [OF ref_aroop_ok])
  then show ?thesis
    using plug_seq_fresh [OF ref_aroop_ok ref_table_ok] requested_chat_plugs [OF ref_aroop_ok] by metis
qed

lemma typed_command_reaches_its_plug_witness:
  "\<exists>P given. plug_seq ref_aroop ref_table (chat_plugs ref_aroop) (composite_plugin_create ref_table) = Inr P \<and> str given = lit ''TWO'' \<and>
    command_hook ref_table P sample_env 3 (txt_of (lit ''/join TWO'')) sample_world =
      ebind (chat_join_plug sample_env CHAT_SIGNATURE 3 (upd_conn 3 (request_update (\<lambda>_. Some given)) sample_world)) (\<lambda>(r, w2).
        Inr (sint (word_of_int r :: 32 word), upd_conn 3 (request_update (\<lambda>_. None)) w2))"
proof -
  obtain P where P: "plug_seq ref_aroop ref_table (chat_plugs ref_aroop) (composite_plugin_create ref_table) = Inr P"
    "plugins_wf ref_table P" "plugins_at ref_table P = command_plugs"
    using sample_container by blast
  have nm: "word_ok (lit ''join'')" "hd (lit ''join'') \<noteq> 95" by (simp_all add: word_ok_def lit_def is_separator_def)
  have c: "chat_command_of (lit ''chat/'' @ lit ''join'') = Some Join"
    by (simp add: chat_command_of_def chat_table_def lit_append [symmetric] del: lit_append)
  obtain given where "str given = lit ''TWO''"
    "command_hook ref_table P sample_env 3 (txt_of (lit ''/join TWO'')) sample_world =
      (let w1 = upd_conn 3 (request_update (\<lambda>_. Some given)) sample_world
       in case chat_command_of (lit ''chat/'' @ lit ''join'') of
            None \<Rightarrow> Inr (0, upd_conn 3 (request_update (\<lambda>_. None)) w1)
          | Some p \<Rightarrow> ebind (run_chat_plug ref_table P sample_env p CHAT_SIGNATURE 3 w1) (\<lambda>(r, w2).
              Inr (sint (word_of_int r :: 32 word), upd_conn 3 (request_update (\<lambda>_. None)) w2)))"
    using typed_command_reaches_its_plug [of sample_env ref_table P sample_world 3 "txt_of (lit ''/join TWO'')" "lit ''join''" 32 "lit ''TWO''"]
      P(2,3) nm by (auto simp: sample_env_def sample_world_def sample_conn_def lit_def is_separator_def)
  then show ?thesis using P(1) by (auto simp: c Let_def)
qed

lemma sdiv_nonneg: "0 \<le> d \<Longrightarrow> 0 < n \<Longrightarrow> d sdiv n = d div (n :: int)"
  by (cases "d = 0") (simp_all add: signed_divide_int_def)

text \<open>What \<open>/uptime\<close> answers: one message to the asker that starts with the time since the start in hours, minutes and
  seconds, goes on with the registered descriptors, the connections created so far and the process, and ends with the
  answer of \<open>shake/fiber\<close>; the three numbers add up to the elapsed seconds, with less than sixty minutes and seconds.\<close>

theorem uptime_answers:
  assumes "aroop_ok (lib E)" and "is_valid_chat c w" and "start_time w \<le> now E"
    and "core_call E (aroop_txt_static_string (lib E) (lit ''shake/fiber'')) zero_txt = Inr resp" and "wf_txt resp"
    and "length (uptime_line (now E - start_time w) (event_fd_count E) (internal_chat_connection_count w) (sint (my_pid E))) + t_len resp < 256"
  shows "\<exists>answer. chat_uptime_plug E CHAT_SIGNATURE c w = Inr (0, send E c answer 0 w) \<and>
    str answer = uptime_line (now E - start_time w) (event_fd_count E) (internal_chat_connection_count w) (sint (my_pid E)) @ str resp @ [10] \<and>
    (case uptime_fields (now E - start_time w) of (hour, minute, second) \<Rightarrow>
       3600 * hour + 60 * minute + second = now E - start_time w \<and> 0 \<le> hour \<and> 0 \<le> minute \<and> minute < 60 \<and> 0 \<le> second \<and> second < 60)"
proof -
  let ?A = "lib E" and ?l = "uptime_line (now E - start_time w) (event_fd_count E) (internal_chat_connection_count w) (sint (my_pid E))"
  let ?t = "aroop_txt_printf ?A (aroop_txt_stackbuffer ?A 256) ?l"
  have "appends (aroop_txt_stackbuffer ?A 256) ?l ?t"
    by (rule printf_appends [OF assms(1)]) (use assms(6) buffer_laws [OF assms(1)] buffer_cap(2) [OF assms(1), of 256] in simp_all)
  then have t: "built 256 ?t ?l"
    using built_stackbuffer [OF assms(1), of 256] by (simp add: built_def appends_def)
  then have "built 256 (aroop_txt_concat ?A ?t resp) (?l @ str resp)"
    using built_concat [OF assms(1) _ assms(5)] assms(6) by simp
  then have "built 256 (aroop_txt_concat_char ?A (aroop_txt_concat ?A ?t resp) 10) ((?l @ str resp) @ [10])"
    by (rule built_char [OF assms(1)]) (use assms(6) length_str [OF assms(5)] in simp)
  moreover have "chat_uptime_plug E CHAT_SIGNATURE c w =
      Inr (0, send E c (aroop_txt_concat_char ?A (aroop_txt_concat ?A ?t resp) 10) 0 w)"
    using assms(2,4) by (simp add: chat_uptime_plug_def chat_uptime_get_fibers_def Let_def)
  moreover have "case uptime_fields d of (hour, minute, second) \<Rightarrow>
      3600 * hour + 60 * minute + second = d \<and> 0 \<le> hour \<and> 0 \<le> minute \<and> minute < 60 \<and> 0 \<le> second \<and> second < 60" if "0 \<le> d" for d
  proof -
    have "d sdiv 3600 = d div 3600" "0 \<le> d div 3600" using that by (simp_all add: sdiv_nonneg pos_imp_zdiv_nonneg_iff)
    moreover have m: "0 \<le> d - d div 3600 * 3600" "d - d div 3600 * 3600 < 3600"
      by (simp_all add: minus_div_mult_eq_mod)
    moreover have "(d - d div 3600 * 3600) sdiv 60 = (d - d div 3600 * 3600) div 60" using m(1) by (simp add: sdiv_nonneg)
    ultimately show ?thesis by (simp add: uptime_fields_def Let_def) linarith
  qed
  ultimately show ?thesis using assms(3) by (auto simp: built_def)
qed

lemma uptime_answers_witness:
  "\<exists>answer. chat_uptime_plug sample_env CHAT_SIGNATURE 1 (sample_world\<lparr>start_time := 1000 - 754\<rparr>) =
      Inr (0, send sample_env 1 answer 0 (sample_world\<lparr>start_time := 1000 - 754\<rparr>)) \<and>
    str answer = lit '' 0:12:34, 4 users, total 6 users served, pid 102, 3 fibers'' @ [10, 10]"
proof -
  have f: "uptime_fields 754 = (0, 12, 34)" by (simp add: uptime_fields_def sdiv_nonneg)
  have p: "sint (102 :: 32 word) = 102" by code_simp
  have l: "uptime_line 754 4 6 102 = lit '' 0:12:34, 4 users, total 6 users served, pid 102, ''"
  proof -
    have "dec_int 0 = [48]" "dec_int 4 = [52]" "dec_int 6 = [54]" "dec_int 12 = [49, 50]" "dec_int 34 = [51, 52]" "dec_int 102 = [49, 48, 50]"
      by code_simp+
    then show ?thesis by (simp add: uptime_line_def f dec_pad2_def lit_def)
  qed
  obtain answer where "chat_uptime_plug sample_env CHAT_SIGNATURE 1 (sample_world\<lparr>start_time := 1000 - 754\<rparr>) =
      Inr (0, send sample_env 1 answer 0 (sample_world\<lparr>start_time := 1000 - 754\<rparr>))"
    "str answer = uptime_line 754 4 6 (sint (102 :: 32 word)) @ str (txt_of (lit ''3 fibers'' @ [10])) @ [10]"
    using uptime_answers [of sample_env 1 "sample_world\<lparr>start_time := 1000 - 754\<rparr>" "txt_of (lit ''3 fibers'' @ [10])"]
    by (auto simp: sample_env_def sample_world_def sample_conn_def is_valid_chat_def is_valid_stream_def INVALID_FD_def p l)
  then show ?thesis by (intro exI [of _ answer]) (simp add: p l lit_def)
qed

text \<open>The line of a plugin in the help.\<close>

definition help_line :: "bytes \<Rightarrow> chat_plug \<Rightarrow> bytes \<Rightarrow> bytes" where
  "help_line dir p k =
     (case chat_plug_about p of (nm, file_name, about) \<Rightarrow>
        lit nm @ [9] @ lit ''chat'' @ [9] @ k @ [9] @ (dir @ lit file_name) @ [10] @ [9] @ [9] @ (lit about @ [10]))"

lemma chat_plugs_described:
  assumes A: "aroop_ok (lib E)" and d: "length (source_dir E) \<le> 12"
  shows "describes (chat_plugs (lib E)) (chat_plug_desc E) (help_line (source_dir E))"
proof -
  have one: "wf_txt (chat_plug_desc E p sp) \<and> str (chat_plug_desc E p sp) = help_line (source_dir E) p (str sp)"
    if "(k, p) \<in> set chat_table" "wf_txt sp" "str sp = lit k" for k p sp
  proof -
    have "t_len sp = length k" using that(2,3) length_str [of sp] by simp
    then show ?thesis
      using that(1) d plugin_desc_str [OF A that(2)]
      by (auto simp: chat_table_def chat_plug_desc_def help_line_def)
  qed
  then show ?thesis by (auto simp: describes_def chat_plugs_def bridge_at_def static_laws [OF A])
qed

text \<open>What \<open>/help\<close> answers: one message with the line of every command the chat's modules plugged, each once. The
  two commands meant to be hidden are left out exactly if the library lets the code read the character behind the
  length it has just cut the name to (\<open>peek\<close>); otherwise that character reads as zero and they are listed.\<close>

theorem help_lists_commands:
  assumes "aroop_ok (lib E)" and "table_ok T" and "plugins_wf T P" and "plugins_at T P = command_plugs"
    and "is_valid_chat c w" and "length (source_dir E) \<le> 12"
    and "\<And>t n. wf_txt t \<Longrightarrow> n < t_len t \<Longrightarrow> aroop_txt_char_at (lib E) (t\<lparr>t_len := n\<rparr>) n = (if peek then t_mem t ! n else 0)"
  shows "\<exists>lines answer. chat_help_plug T P E CHAT_SIGNATURE c w = Inr (0, send E c answer 0 w) \<and> str answer = concat lines \<and>
    mset lines = mset (map (\<lambda>(k, p). help_line (source_dir E) p (lit k))
      (filter (\<lambda>(k, p). \<not> (peek \<and> p \<in> {Welcome, HiddenJoin})) chat_table))"
proof -
  let ?A = "lib E" and ?Q = "\<lambda>k. take 5 k = lit ''chat/'' \<and> \<not> (peek \<and> k ! 5 = 95)"
  have regs: "map as_registered (chat_plugs ?A) = map (\<lambda>(k, p). (lit k, BRIDGE_PLUGIN, Some p, p)) chat_table"
    by (simp add: chat_plugs_def as_registered_def bridge_at_def static_laws [OF assms(1)] case_prod_unfold)
  have ls: "listing (help_line (source_dir E)) ?Q (map as_registered (chat_plugs ?A)) =
      map (\<lambda>(k, p). help_line (source_dir E) p (lit k)) (filter (\<lambda>(k, p). \<not> (peek \<and> p \<in> {Welcome, HiddenJoin})) chat_table)"
    unfolding regs by (cases peek) (simp_all add: listing_def chat_table_def lit_def)
  have "\<exists>lines out. mset lines = mset (listing (help_line (source_dir E)) ?Q (map as_registered (chat_plugs ?A))) \<and>
    composite_plugin_visit_all T (chat_help_plug_helper ?A (chat_plug_desc E)) P (aroop_txt_stackbuffer ?A 1024) = Inr out \<and>
    built 1024 out (concat lines)"
  proof (rule describe_all [OF assms(1,2) chat_plugs_described [OF assms(1,6)] _ built_stackbuffer [OF assms(1)] _ assms(3)])
    show "plugins_at T P = requested (chat_plugs ?A)" by (simp add: assms(4) requested_chat_plugs [OF assms(1)])
    show "length (concat (listing (help_line (source_dir E)) ?Q (map as_registered (chat_plugs ?A)))) \<le> 1024"
      unfolding ls using assms(6) by (cases peek) (simp_all add: chat_table_def help_line_def)
    fix p :: "(chat_plug, chat_plug) internal_plugin" and out
    let ?sp = "plugin_space p"
    assume p: "wf_txt ?sp" "str ?sp \<in> fst ` set (map as_registered (chat_plugs ?A))"
    then have "5 < length (str ?sp)" unfolding regs by (auto simp: chat_table_def)
    then have n: "5 < t_len ?sp" using length_str [OF p(1)] by simp
    let ?t = "?sp\<lparr>t_len := 5\<rparr>"
    have t: "aroop_txt_set_length ?A (aroop_txt_copy_shallow ?A ?sp) 5 = ?t" "wf_txt ?t" "str ?t = take 5 (str ?sp)"
      using set_length_law [OF assms(1), of 5 ?sp] n p(1)
      by (simp_all add: copy_shallow_law [OF assms(1)] wf_txt_def t_cap_def str_def min_def)
    have "aroop_txt_char_at ?A ?t 5 = (if peek then str ?sp ! 5 else 0)"
      using assms(7) [OF p(1) n] str_nth [OF n] by simp
    then show "chat_help_plug_helper ?A (chat_plug_desc E) p out = Inr (if ?Q (str ?sp)
        then aroop_txt_concat ?A out (chat_plug_desc E (plugin_desc_cb p) ?sp) else out)"
      by (simp add: chat_help_plug_helper_def t(1) Let_def equals_law [OF assms(1) t(2)] static_laws [OF assms(1)] t(3))
  qed
  then obtain lines out where "mset lines = mset (listing (help_line (source_dir E)) ?Q (map as_registered (chat_plugs ?A)))"
    "composite_plugin_visit_all T (chat_help_plug_helper ?A (chat_plug_desc E)) P (aroop_txt_stackbuffer ?A 1024) = Inr out"
    "built 1024 out (concat lines)" by blast
  then show ?thesis
    using assms(5) unfolding ls by (intro exI [of _ lines] exI [of _ out]) (simp add: chat_help_plug_def built_def)
qed

lemma help_lists_commands_witness:
  "\<exists>P lines answer. plug_seq ref_aroop ref_table (chat_plugs ref_aroop) (composite_plugin_create ref_table) = Inr P \<and>
    chat_help_plug ref_table P sample_env CHAT_SIGNATURE 1 sample_world = Inr (0, send sample_env 1 answer 0 sample_world) \<and>
    str answer = concat lines \<and> length lines = 12"
proof -
  obtain P where P: "plug_seq ref_aroop ref_table (chat_plugs ref_aroop) (composite_plugin_create ref_table) = Inr P"
    "plugins_wf ref_table P" "plugins_at ref_table P = command_plugs"
    using sample_container by blast
  have e: "lib sample_env = ref_aroop" "source_dir sample_env = lit ''src/''" by (simp_all add: sample_env_def)
  have v: "is_valid_chat 1 sample_world"
    by (simp add: sample_world_def sample_conn_def is_valid_chat_def is_valid_stream_def INVALID_FD_def)
  have r: "aroop_txt_char_at ref_aroop (t\<lparr>t_len := n\<rparr>) n = 0" for t n by (simp add: ref_aroop_def)
  have "\<exists>lines answer. chat_help_plug ref_table P sample_env CHAT_SIGNATURE 1 sample_world = Inr (0, send sample_env 1 answer 0 sample_world) \<and>
    str answer = concat lines \<and> mset lines = mset (map (\<lambda>(k, p). help_line (source_dir sample_env) p (lit k))
      (filter (\<lambda>(k, p). \<not> (False \<and> p \<in> {Welcome, HiddenJoin})) chat_table))"
    by (rule help_lists_commands [OF _ ref_table_ok P(2,3) v]) (simp_all add: e r)
  then obtain lines answer where "chat_help_plug ref_table P sample_env CHAT_SIGNATURE 1 sample_world = Inr (0, send sample_env 1 answer 0 sample_world)"
    "str answer = concat lines" and m: "mset lines = mset (map (\<lambda>(k, p). help_line (source_dir sample_env) p (lit k))
      (filter (\<lambda>(k, p). \<not> (False \<and> p \<in> {Welcome, HiddenJoin})) chat_table))" by blast
  moreover have "length lines = length chat_table" using arg_cong [OF m, of size] by (simp add: case_prod_unfold)
  moreover have "length chat_table = 12" by (simp add: chat_table_def)
  ultimately show ?thesis using P(1) by auto
qed

end
