(* ===== verification/Boot.thy ===== *)
theory Boot
  imports ChatModules Shake ForkPipeline
begin

text \<open>
  The start of the server: the init functions of the subsystems in the order of \<open>nginz_main\<close> in
  \<open>apps/chat/src/main.c\<close> (\<open>base/src/base_subsystem.c\<close>, \<open>net/src/net_subsystem.c\<close>, \<open>db/src/db_subsystem.c\<close>, the chat), and
  \<open>fork_processors\<close> of \<open>base/src/parallel/fork.c\<close> through the plugin container of the process. The static variables are
  those of \<open>ChatModules\<close>; \<open>coreplug\<close> is null until \<open>nginz_core_init\<close> has run, and the field \<open>core_container\<close> means
  nothing before. The child of a fork has the state of its parent and an environment of its own.
\<close>

section \<open>Code\<close>

record ('h, 'w) nginz =
  initiated :: bool
  process :: "('h, 'w) chat_boot"

definition plug_at_core :: "'w chat_env \<Rightarrow> ('h, nat) table_api \<Rightarrow> string \<Rightarrow> core_plug \<Rightarrow> ('h, 'w) chat_boot \<Rightarrow> ('h, 'w) chat_boot exec" where
  "plug_at_core E T space f = plug_core (lib E) T (callback_at (lib E) space f)"

definition bridge_at_core :: "'w chat_env \<Rightarrow> ('h, nat) table_api \<Rightarrow> string \<Rightarrow> core_plug \<Rightarrow> ('h, 'w) chat_boot \<Rightarrow> ('h, 'w) chat_boot exec" where
  "bridge_at_core E T space f = plug_core (lib E) T (bridge_at (lib E) space f)"

definition fiber_slot :: "'w chat_env \<Rightarrow> process_fiber \<Rightarrow> string \<Rightarrow> nat \<Rightarrow> 'w chat_statics \<Rightarrow> 'w chat_statics exec" where
  "fiber_slot E f file line s =
     ebind (register_fiber_full (lib E) f file line (chat_fibers s)) (\<lambda>(_, fs). Inr (s\<lparr>chat_fibers := fs\<rparr>))"

type_synonym sockets = "nat \<Rightarrow> (int \<times> int \<times> int \<times> int) option"

definition new_pipe :: "'w chat_env \<Rightarrow> sockets \<Rightarrow> 'w chat_statics \<Rightarrow> int \<times> pp_state" where
  "new_pipe E sockets s = pp_module_init (lib E) (my_pid E) sockets (pipe (chat_state s))"

text \<open>\<open>pp_module_init\<close> with the plugins it plugs and \<open>ping_module_init\<close>.\<close>

definition pp_module_plugged :: "sockets \<Rightarrow> ('h, 'w) chat_init" where
  "pp_module_plugged sockets E T b =
     (if fst (new_pipe E sockets (statics b)) \<noteq> 0 then on_statics (\<lambda>s. set_state (pipe_update (\<lambda>_. snd (new_pipe E sockets s))) s) b
      else in_order [on_statics (\<lambda>s. set_state (pipe_update (\<lambda>_. snd (new_pipe E sockets s))) s),
        bridge_at_core E T ''fork/child/after'' Pp_fork_child_after,
        bridge_at_core E T ''fork/parent/after'' Pp_fork_parent_after,
        plug_at_core E T ''mailbox/child/pid'' Pp_update_siblings_pid,
        plug_at_core E T ''shake/ping'' Ping_command] b)"

definition shake_quitall_module_init :: "('h, 'w) chat_init" where
  "shake_quitall_module_init E T = in_order [
     plug_at_core E T ''shake/quitall'' Shake_quitall_command,
     plug_at_core E T ''shake/softquitall'' Shake_soft_quitall_command]"

definition binary_coder_module_init :: "('h, 'w) chat_init" where
  "binary_coder_module_init E T = plug_at_core E T ''test/binary_coder_test'' Binary_coder_test"

definition fiber_module_plugged :: "('h, 'w) chat_init" where
  "fiber_module_plugged E T = in_order [
     on_statics (\<lambda>s. Inr (s\<lparr>chat_fibers := fiber_module_init (chat_fibers s)\<rparr>)),
     plug_at_core E T ''shake/fiber'' Fiber_status_command]"

definition event_loop_module_init :: "('h, 'w) chat_init" where
  "event_loop_module_init E T = in_order [
     on_statics (fiber_slot E Event_loop_step ''event_loop_poll.c'' 150),
     plug_at_core E T ''test/event_loop_test'' Event_loop_test]"

definition enumerate_module_init :: "('h, 'w) chat_init" where
  "enumerate_module_init E T = plug_at_core E T ''shake/enumerate'' Enumerate_command"

definition nginz_core_init :: "sockets \<Rightarrow> 'w chat_env \<Rightarrow> ('h, nat) table_api \<Rightarrow> ('h, 'w) nginz \<Rightarrow> ('h, 'w) nginz exec" where
  "nginz_core_init sockets E T p =
     (if initiated p then Inr p
      else ebind (in_order [
        \<lambda>b. ebind (pm_init (lib E) T None) (\<lambda>c. Inr (b\<lparr>core_container := c\<rparr>)),
        pp_module_plugged sockets E T, shake_quitall_module_init E T, binary_coder_module_init E T, fiber_module_plugged E T,
        on_statics (\<lambda>s. ebind (lazy_call_module_init (lib E) Lazy_call_step (chat_fibers s)) (\<lambda>fs. Inr (s\<lparr>chat_fibers := fs\<rparr>))),
        event_loop_module_init E T, enumerate_module_init E T] (process p)) (\<lambda>b.
      Inr \<lparr>initiated = True, process = b\<rparr>))"

definition nginz_net_init :: "('h, 'w) chat_init" where
  "nginz_net_init E T = in_order [
     on_statics (\<lambda>s. Inr (s\<lparr>chat_ports := protostack_init\<rparr>)),
     bridge_at_core E T ''parallel/pipeline/raw/setup'' On_raw_socket_setup]"

text \<open>The part of \<open>nginz_main\<close> before \<open>nginz_parallel_init\<close>; \<open>async_db_init\<close> only sets the static names of the requests.\<close>

definition nginz_main_before_fork :: "sockets \<Rightarrow> 'w chat_env \<Rightarrow> ('h, nat) table_api \<Rightarrow> ('h, 'w) nginz \<Rightarrow> ('h, 'w) nginz exec" where
  "nginz_main_before_fork sockets E T p =
     ebind (nginz_core_init sockets E T p) (\<lambda>p1.
     ebind (in_order [nginz_net_init E T, nginz_chat_module_init E T] (process p1)) (\<lambda>b.
     Inr (p1\<lparr>process := b\<rparr>)))"

text \<open>What the bridges of the fork spaces are when they are called: the callbacks of \<open>pipeline.c\<close> and \<open>room_master.c\<close>
  on the state of the process, which is the count of \<open>room_master.c\<close> and the world of the chat. A function of
  another type behind a bridge would be undefined behaviour.\<close>

definition fork_bridge :: "'w chat_env \<Rightarrow> (core_plug, 32 word, nat \<times> 'w chat_world) bridge_runner" where
  "fork_bridge E f signature pid = (\<lambda>(n, w).
     case f of
       Pp_fork_child_after \<Rightarrow> ebind (pp_fork_child_after_callback (lib E) signature (my_pid E) (pipe w)) (\<lambda>s. Inr (0, n, w\<lparr>pipe := s\<rparr>))
     | Pp_fork_parent_after \<Rightarrow> ebind (pp_fork_parent_after_callback (lib E) (send_fails E) signature (my_pid E) pid (pipe w)) (\<lambda>s.
         Inr (0, n, w\<lparr>pipe := s\<rparr>))
     | Default_room_fork_parent_after \<Rightarrow> ebind (default_room_fork_parent_after_callback (lib E) signature n) (\<lambda>(_, n'). Inr (0, n', w))
     | Default_room_fork_child_after \<Rightarrow> ebind (default_room_fork_child_after_callback E signature n w) (\<lambda>(_, n', w'). Inr (0, n', w'))
     | _ \<Rightarrow> Inl AssertFailed)"

text \<open>\<open>fork_processors\<close> with its three calls of the plugins; the list holds what \<open>fork()\<close> returns to the parent, \<open>None\<close>
  for a failure.\<close>

fun fork_with_plugins ::
    "('h, nat) table_api \<Rightarrow> (core_plug, core_plug, 'h) composite_plugin \<Rightarrow> 'w chat_env \<Rightarrow> 32 word option list \<Rightarrow>
     nat \<times> 'w chat_world \<Rightarrow> (int \<times> (nat \<times> 'w chat_world) \<times> (nat \<times> 'w chat_world) list) exec" where
  "fork_with_plugins T c E [] st = Inr (0, st, [])"
| "fork_with_plugins T c E (r # rs) st =
     (let call = (\<lambda>E' space. pm_bridge_call (lib E) T (fork_bridge E') (Some c) (aroop_txt_static_string (lib E) (lit space))
                    NGINZ_PIPELINE_SIGNATURE)
      in ebind (call E ''fork/before'' 0 st) (\<lambda>(_, st1).
         case r of
           None \<Rightarrow> Inr (-1, st1, [])
         | Some pid \<Rightarrow>
             ebind (call (E\<lparr>my_pid := pid\<rparr>) ''fork/child/after'' 0 st1) (\<lambda>(_, child).
             ebind (call E ''fork/parent/after'' pid st1) (\<lambda>(_, st2).
             ebind (fork_with_plugins T c E rs st2) (\<lambda>(_, st3, children). Inr (0, st3, child # children))))))"

text \<open>The two calls of \<open>nginz_parallel_init\<close> around the forks, and the handler of the interrupt signal.\<close>

definition rehash ::
    "aroop \<Rightarrow> ('h, nat) table_api \<Rightarrow> ('f, 'w) callback_runner \<Rightarrow> ('f, 'e, 'h) composite_plugin option \<Rightarrow> 'w \<Rightarrow> (int \<times> 'w) exec" where
  "rehash A T R coreplug w =
     ebind (pm_call A T R coreplug (aroop_txt_static_string A (lit ''shake/rehash'')) zero_txt zero_txt w) (\<lambda>(_, _, w'). Inr (0, w'))"

definition master_init ::
    "aroop \<Rightarrow> ('h, nat) table_api \<Rightarrow> ('f, 'w) callback_runner \<Rightarrow> ('f, 'e, 'h) composite_plugin option \<Rightarrow> 'w \<Rightarrow> (int \<times> 'w) exec" where
  "master_init A T R coreplug w =
     ebind (pm_call A T R coreplug (aroop_txt_static_string A (lit ''master/init'')) zero_txt zero_txt w) (\<lambda>(_, _, w'). Inr (0, w'))"

definition signal_callback :: "int \<Rightarrow> 'c fiber_table \<Rightarrow> 'c fiber_table" where
  "signal_callback sigval s = snd (fiber_quit s)"

section \<open>What the subsystems plug\<close>

definition core_boots ::
    "('h, nat) table_api \<Rightarrow> (('p, 'h, 's) app_boot \<Rightarrow> ('p, 'h, 's) app_boot exec) \<Rightarrow> (core_plug, core_plug) plug_request list \<Rightarrow>
     ('s \<Rightarrow> 's exec) \<Rightarrow> bool" where
  "core_boots T f qs g \<longleftrightarrow> (\<forall>b s. plugins_wf T (core_container b) \<longrightarrow> g (statics b) = Inr s \<longrightarrow>
     (\<exists>b'. f b = Inr b' \<and> plugins_wf T (core_container b') \<and> app_container b' = app_container b \<and> statics b' = s \<and>
       (\<forall>k. plugins_at T (core_container b') k = plugins_at T (core_container b) k @ requested qs k)))"

lemma core_bootsD:
  assumes "core_boots T f qs g" and "plugins_wf T (core_container b)" and "g (statics b) = Inr s"
  shows "\<exists>b'. f b = Inr b' \<and> plugins_wf T (core_container b') \<and> app_container b' = app_container b \<and> statics b' = s \<and>
    (\<forall>k. plugins_at T (core_container b') k = plugins_at T (core_container b) k @ requested qs k)"
  using assms unfolding core_boots_def by blast

lemma core_boots_andthen:
  fixes f :: "('p, 'h, 's) app_boot \<Rightarrow> ('p, 'h, 's) app_boot exec"
  assumes "core_boots T f qs g" and "core_boots T f' qs' g'"
  shows "core_boots T (andthen f f') (qs @ qs') (andthen g g')"
  unfolding core_boots_def
proof (intro allI impI)
  fix b :: "('p, 'h, 's) app_boot" and s
  assume b: "plugins_wf T (core_container b)" "andthen g g' (statics b) = Inr s"
  then obtain s1 where s1: "g (statics b) = Inr s1" "g' s1 = Inr s" by (auto simp: andthen_def ebind_Inr_iff)
  obtain b1 where b1: "f b = Inr b1" "plugins_wf T (core_container b1)" "app_container b1 = app_container b" "statics b1 = s1"
    "\<forall>k. plugins_at T (core_container b1) k = plugins_at T (core_container b) k @ requested qs k"
    using assms(1) b(1) s1(1) unfolding core_boots_def by blast
  obtain b2 where "f' b1 = Inr b2" "plugins_wf T (core_container b2)" "app_container b2 = app_container b1" "statics b2 = s"
    "\<forall>k. plugins_at T (core_container b2) k = plugins_at T (core_container b1) k @ requested qs' k"
    using assms(2) b1(2,4) s1(2) unfolding core_boots_def by blast
  with b1 show "\<exists>b'. andthen f f' b = Inr b' \<and> plugins_wf T (core_container b') \<and> app_container b' = app_container b \<and>
      statics b' = s \<and> (\<forall>k. plugins_at T (core_container b') k = plugins_at T (core_container b) k @ requested (qs @ qs') k)"
    by (intro exI [of _ b2]) (simp add: andthen_def requested_append)
qed

lemma core_boots_in_order: "core_boots T (in_order []) [] Inr"
  "core_boots T f qs g \<Longrightarrow> core_boots T (in_order fs) qs' g' \<Longrightarrow> core_boots T (in_order (f # fs)) (qs @ qs') (andthen g g')"
proof -
  show "core_boots T (in_order []) [] Inr" by (simp add: in_order_def core_boots_def requested_Nil)
qed (simp add: in_order_def core_boots_andthen)

lemma core_boots_statics: "core_boots T (on_statics g) [] g"
  by (auto simp: core_boots_def on_statics_def requested_Nil)

lemma core_boots_plug:
  fixes T :: "('h, nat) table_api"
  assumes A: "aroop_ok A" and T: "table_ok T" and r: "r = callback_at A space p \<or> r = bridge_at A space p"
  shows "core_boots T (plug_core A T r :: ('p, 'h, 's) app_boot \<Rightarrow> ('p, 'h, 's) app_boot exec) [r] Inr"
  unfolding core_boots_def
proof (intro allI impI)
  fix b :: "('p, 'h, 's) app_boot" and s
  assume b: "plugins_wf T (core_container b)" "Inr (statics b) = Inr s"
  let ?c = "core_container b"
  obtain cat where cat: "r = (cat, aroop_txt_static_string A (lit space), p, p)" "cat \<noteq> INVALID_PLUGIN"
    using r by (auto simp: callback_at_def bridge_at_def)
  obtain c' where "plug_one A T r ?c = Inr (0, c')" "plugins_wf T c'"
    "plugins_at T c' = (plugins_at T ?c)(lit space := plugins_at T ?c (lit space) @ [(cat, Some p, p)])"
    using plug_one_wf [OF A T b(1) static_laws(1) [OF A] cat(2), of "lit space" p p] by (auto simp: cat(1) static_laws [OF A])
  then show "\<exists>b'. plug_core A T r b = Inr b' \<and> plugins_wf T (core_container b') \<and> app_container b' = app_container b \<and>
      statics b' = s \<and> (\<forall>k. plugins_at T (core_container b') k = plugins_at T (core_container b) k @ requested [r] k)"
    using b by (auto simp: plug_core_def requested_def cat(1) static_laws [OF A])
qed

lemma core_boots_if:
  assumes "core_boots T f qs g"
  shows "core_boots T (\<lambda>b. if Q (statics b) then f' b else f b) qs (\<lambda>s. if Q s then Inl AssertFailed else g s)"
  using assms by (auto simp: core_boots_def split: if_splits)

lemma core_boots_eq: "core_boots T f qs g \<Longrightarrow> qs = qs' \<Longrightarrow> g = g' \<Longrightarrow> core_boots T f qs' g'"
  by simp

definition core_plugs :: "aroop \<Rightarrow> (core_plug, core_plug) plug_request list" where
  "core_plugs A =
     [bridge_at A ''fork/child/after'' Pp_fork_child_after, bridge_at A ''fork/parent/after'' Pp_fork_parent_after,
      callback_at A ''mailbox/child/pid'' Pp_update_siblings_pid, callback_at A ''shake/ping'' Ping_command,
      callback_at A ''shake/quitall'' Shake_quitall_command, callback_at A ''shake/softquitall'' Shake_soft_quitall_command,
      callback_at A ''test/binary_coder_test'' Binary_coder_test, callback_at A ''shake/fiber'' Fiber_status_command,
      callback_at A ''test/event_loop_test'' Event_loop_test, callback_at A ''shake/enumerate'' Enumerate_command]"

definition core_statics :: "'w chat_env \<Rightarrow> sockets \<Rightarrow> 'w chat_statics \<Rightarrow> 'w chat_statics exec" where
  "core_statics E sockets = in_order [
     \<lambda>s. if fst (new_pipe E sockets s) \<noteq> 0 then Inl AssertFailed
         else set_state (pipe_update (\<lambda>_. snd (new_pipe E sockets s))) s,
     \<lambda>s. Inr (s\<lparr>chat_fibers := fiber_module_init (chat_fibers s)\<rparr>),
     \<lambda>s. ebind (lazy_call_module_init (lib E) Lazy_call_step (chat_fibers s)) (\<lambda>fs. Inr (s\<lparr>chat_fibers := fs\<rparr>)),
     fiber_slot E Event_loop_step ''event_loop_poll.c'' 150]"

lemma core_boots_modules:
  assumes "aroop_ok (lib E)" and "table_ok T"
  shows "core_boots T (in_order [pp_module_plugged sockets E T, shake_quitall_module_init E T, binary_coder_module_init E T,
      fiber_module_plugged E T,
      on_statics (\<lambda>s. ebind (lazy_call_module_init (lib E) Lazy_call_step (chat_fibers s)) (\<lambda>fs. Inr (s\<lparr>chat_fibers := fs\<rparr>))),
      event_loop_module_init E T, enumerate_module_init E T])
    (core_plugs (lib E)) (core_statics E sockets)"
  unfolding pp_module_plugged_def [abs_def] shake_quitall_module_init_def binary_coder_module_init_def fiber_module_plugged_def
    event_loop_module_init_def enumerate_module_init_def plug_at_core_def bridge_at_core_def
  apply (rule core_boots_eq)
  apply (rule core_boots_in_order core_boots_statics core_boots_plug [OF assms disjI1 [OF refl]]
    core_boots_plug [OF assms disjI2 [OF refl]]
    core_boots_if [where Q = "\<lambda>s. fst (new_pipe E sockets s) \<noteq> 0"])+
  apply (simp add: core_plugs_def)
  apply (simp add: core_statics_def in_order_def andthen_assoc cong: if_cong)
  done

text \<open>What the init functions of the base leave in the static variables.\<close>

lemma core_statics_result:
  assumes "aroop_ok (lib E)" and "t_cap (aroop_txt_buffer (lib E) NGINZ_MAX_BINARY_MSG_LEN) < 65536"
    and "\<And>i. i < MAX_PROCESS_COUNT \<Longrightarrow> \<exists>a b c d. sockets i = Some (a, b, c, d) \<and> b \<noteq> -1"
    and "mynode (pipe (chat_state s)) = Some 0"
  shows "\<exists>s' j k. core_statics E sockets s = Inr s' \<and> mynode (pipe (chat_state s')) = Some 0 \<and>
    nids (pipe (chat_state s')) = my_pid E # replicate 5 0 \<and>
    (\<forall>i < 6. fd0 (nodes (pipe (chat_state s')) i) = fst (the (sockets i)) \<and> fd1 (nodes (pipe (chat_state s')) i) \<noteq> -1) \<and>
    reader_ok (pipe (chat_state s')) \<and> j \<noteq> k \<and>
    fiber (fibers (chat_fibers s') j) = Some Lazy_call_step \<and> fiber (fibers (chat_fibers s') k) = Some Event_loop_step \<and>
    (\<forall>i. i \<noteq> j \<longrightarrow> i \<noteq> k \<longrightarrow> free_slot (chat_fibers s') i) \<and> \<not> free_slot (chat_fibers s') j \<and> \<not> free_slot (chat_fibers s') k"
proof -
  obtain p where p: "new_pipe E sockets s = (0, p)" "mynode p = Some 0" "nids p = my_pid E # replicate 5 0"
    "\<forall>i < 6. fd0 (nodes p i) = fst (the (sockets i)) \<and> fd1 (nodes p i) \<noteq> -1"
    "wf_txt (recv_buffer p)" "1024 \<le> t_cap (recv_buffer p)" "t_cap (recv_buffer p) < 65536"
    using init_result [where A = "lib E" and sockets = sockets and ?s0.0 = "pipe (chat_state s)" and me = "my_pid E"] assms
    by (auto simp: new_pipe_def)
  let ?f0 = "fiber_module_init (chat_fibers s)"
  have z: "0 < MAX_FIBERS" "1 < MAX_FIBERS" by (simp_all add: MAX_FIBERS_def)
  have f0: "free_slot ?f0 i" for i by (simp add: free_slot_def fiber_module_init_def)
  obtain j f1 where f1: "register_fiber_full (lib E) Lazy_call_step ''lazy_call.c'' 48 ?f0 = Inr (0, f1)"
    "fibers f1 = (fibers ?f0)(j := \<lparr>status = FIBER_STATUS_CREATED, fiber = Some Lazy_call_step, filename = ''lazy_call.c'', lineno = 48\<rparr>)"
    using register_free [OF z(1) f0] by blast
  let ?i = "if j = 0 then 1 else 0"
  have i: "?i < MAX_FIBERS" "free_slot f1 ?i" using z f0 by (auto simp: free_slot_def f1(2))
  obtain k f2 where f2: "free_slot f1 k" "register_fiber_full (lib E) Event_loop_step ''event_loop_poll.c'' 150 f1 = Inr (0, f2)"
    "fibers f2 = (fibers f1)(k := \<lparr>status = FIBER_STATUS_CREATED, fiber = Some Event_loop_step, filename = ''event_loop_poll.c'', lineno = 150\<rparr>)"
    using register_free [OF i] by blast
  have jk: "j \<noteq> k" using f2(1) by (auto simp: free_slot_def f1(2))
  let ?s = "s\<lparr>chat_state := (chat_state s)\<lparr>pipe := p\<rparr>, chat_fibers := f2\<rparr>"
  have "core_statics E sockets s = Inr ?s"
    using p(1) f1(1) f2(2)
    by (simp add: core_statics_def in_order_def andthen_def new_pipe_def set_state_def lazy_call_module_init_def fiber_slot_def)
  moreover have "reader_ok p" using p(2,4-7) by (simp add: reader_ok_def)
  ultimately show ?thesis
    using p(2-4) jk f0 by (intro exI [of _ ?s] exI [of _ j] exI [of _ k]) (auto simp: f1(2) f2(3) free_slot_def)
qed

section \<open>Before the forks\<close>

lemma pm_init_result:
  assumes "aroop_ok A" and "table_ok T"
  shows "\<exists>c. pm_init A T None = Inr c \<and> plugins_wf T c \<and> plugins_at T c = requested [callback_at A ''shake/plugin'' Plugin_command]"
  using plug_seq_fresh [OF assms, of "[callback_at A ''shake/plugin'' Plugin_command]"]
  by (simp add: pm_init_def callback_at_def static_laws [OF assms(1)])

definition boot_plugs :: "aroop \<Rightarrow> (core_plug, core_plug) plug_request list" where
  "boot_plugs A = callback_at A ''shake/plugin'' Plugin_command # core_plugs A @
     bridge_at A ''parallel/pipeline/raw/setup'' On_raw_socket_setup # chat_core_plugs A"

text \<open>\<open>nginz_main\<close> up to the forks.\<close>

lemma main_result:
  assumes A: "aroop_ok (lib E)" and T: "table_ok T" and "\<not> initiated p" and "app_container (process p) = None"
    and "t_cap (aroop_txt_buffer (lib E) NGINZ_MAX_BINARY_MSG_LEN) < 65536"
    and "\<And>i. i < MAX_PROCESS_COUNT \<Longrightarrow> \<exists>a b c d. sockets i = Some (a, b, c, d) \<and> b \<noteq> -1"
    and "mynode (pipe (chat_state (statics (process p)))) = Some 0" and "my_pid E = master_pid E" and "master_pid E \<noteq> 0"
  shows "\<exists>b P s0. nginz_main_before_fork sockets E T p = Inr \<lparr>initiated = True, process = b\<rparr> \<and>
    app_container b = Some P \<and> plugins_wf T P \<and> plugins_at T P = command_plugs \<and>
    plugins_wf T (core_container b) \<and> plugins_at T (core_container b) = requested (boot_plugs (lib E)) \<and>
    (\<forall>g. \<exists>j. fiber (fibers (chat_fibers (statics b)) j) = Some g) \<and>
    chat_ports (statics b) = snd (protostack_set NGINZ_CHAT_PORT (Some Chat_protostack) protostack_init) \<and>
    room_factory (chat_state (statics b)) = [] \<and>
    grows s0 (pipe (chat_state (statics b))) \<and> mynode s0 = Some 0 \<and> nids s0 = master_pid E # replicate 5 0 \<and>
    (\<forall>i < 6. fd0 (nodes s0 i) = fst (the (sockets i)) \<and> fd1 (nodes s0 i) \<noteq> -1) \<and> reader_ok s0"
proof -
  obtain s1 j k where s1: "core_statics E sockets (statics (process p)) = Inr s1" "mynode (pipe (chat_state s1)) = Some 0"
    "nids (pipe (chat_state s1)) = my_pid E # replicate 5 0"
    "\<forall>i < 6. fd0 (nodes (pipe (chat_state s1)) i) = fst (the (sockets i)) \<and> fd1 (nodes (pipe (chat_state s1)) i) \<noteq> -1"
    "reader_ok (pipe (chat_state s1))" "j \<noteq> k"
    "fiber (fibers (chat_fibers s1) j) = Some Lazy_call_step" "fiber (fibers (chat_fibers s1) k) = Some Event_loop_step"
    "\<forall>i. i \<noteq> j \<longrightarrow> i \<noteq> k \<longrightarrow> free_slot (chat_fibers s1) i" "\<not> free_slot (chat_fibers s1) j" "\<not> free_slot (chat_fibers s1) k"
    using core_statics_result [where E = E and sockets = sockets and s = "statics (process p)"] A assms(5-7) by blast
  obtain c where c: "pm_init (lib E) T None = Inr c" "plugins_wf T c"
    "plugins_at T c = requested [callback_at (lib E) ''shake/plugin'' Plugin_command]"
    using pm_init_result [OF A T] by blast
  let ?b0 = "(process p)\<lparr>core_container := c\<rparr>"
  obtain b1 where b1: "in_order [pp_module_plugged sockets E T, shake_quitall_module_init E T, binary_coder_module_init E T,
      fiber_module_plugged E T,
      on_statics (\<lambda>s. ebind (lazy_call_module_init (lib E) Lazy_call_step (chat_fibers s)) (\<lambda>fs. Inr (s\<lparr>chat_fibers := fs\<rparr>))),
      event_loop_module_init E T, enumerate_module_init E T] ?b0 = Inr b1"
    "plugins_wf T (core_container b1)" "app_container b1 = None" "statics b1 = s1"
    "\<forall>k. plugins_at T (core_container b1) k = plugins_at T c k @ requested (core_plugs (lib E)) k"
    using core_bootsD [OF core_boots_modules [OF A T, of sockets], of ?b0 s1] c(2) s1(1) assms(4) by auto
  have core: "nginz_core_init sockets E T p = Inr \<lparr>initiated = True, process = b1\<rparr>"
    using assms(3) c(1) b1(1) by (simp add: nginz_core_init_def in_order_def andthen_def)
  have "core_boots T (nginz_net_init E T) [bridge_at (lib E) ''parallel/pipeline/raw/setup'' On_raw_socket_setup]
      (\<lambda>s. Inr (s\<lparr>chat_ports := protostack_init\<rparr>))"
    unfolding nginz_net_init_def bridge_at_core_def
    by (rule core_boots_eq, (rule core_boots_in_order core_boots_statics core_boots_plug [OF A T disjI2 [OF refl]])+)
      (simp_all add: in_order_def)
  note net = this
  obtain b2 where b2: "nginz_net_init E T b1 = Inr b2" "plugins_wf T (core_container b2)" "app_container b2 = None"
    "statics b2 = s1\<lparr>chat_ports := protostack_init\<rparr>"
    "\<forall>k. plugins_at T (core_container b2) k = plugins_at T (core_container b1) k @
       requested [bridge_at (lib E) ''parallel/pipeline/raw/setup'' On_raw_socket_setup] k"
    using core_bootsD [OF net, of b1] b1(2-4) by auto
  have fr: "\<exists>i < MAX_FIBERS. free_slot (chat_fibers s1) i"
  proof -
    have "\<exists>i \<le> 2. i \<noteq> j \<and> i \<noteq> k" by presburger
    then obtain i where i: "i \<le> 2" "i \<noteq> j" "i \<noteq> k" by blast
    then show ?thesis using s1(9) by (intro exI [of _ i]) (simp add: MAX_FIBERS_def)
  qed
  then obtain i where i: "i < MAX_FIBERS" "free_slot (chat_fibers (statics b2)) i" using b2(4) by auto
  have "node_index (my_pid E) (pipe (chat_state s1)) = Some 0"
    using node_index_first [of "pipe (chat_state s1)" "[]" "my_pid E" "replicate 5 0"] s1(3) by simp
  then have n: "node_index (master_pid E) (pipe (chat_state (statics b2))) = Some 0" "is_master (pipe (chat_state (statics b2)))"
    using s1(2) b2(4) assms(8) by (simp_all add: is_master_def)
  obtain b P l where b: "nginz_chat_module_init E T b2 = Inr b" "app_container b = Some P" "plugins_wf T P"
    "plugins_at T P = command_plugs" "plugins_wf T (core_container b)"
    "\<forall>k. plugins_at T (core_container b) k = plugins_at T (core_container b2) k @ requested (chat_core_plugs (lib E)) k"
    "room_factory (chat_state (statics b)) = []" "grows (pipe (chat_state (statics b2))) (pipe (chat_state (statics b)))"
    "free_slot (chat_fibers (statics b2)) l" "fibers (chat_fibers (statics b)) = (fibers (chat_fibers (statics b2)))
      (l := \<lparr>status = FIBER_STATUS_CREATED, fiber = Some Chat_lazy_cleanup_fiber, filename = ''chat_zombie.c'', lineno = 87\<rparr>)"
    "chat_ports (statics b) = snd (protostack_set NGINZ_CHAT_PORT (Some Chat_protostack) (chat_ports (statics b2)))"
    using chat_start_result [OF A T b2(3,2) n(2,1) assms(9) i] by blast
  have "l \<noteq> j" "l \<noteq> k" using b(9) s1(10,11) b2(4) by auto
  then have "\<exists>j. fiber (fibers (chat_fibers (statics b)) j) = Some g" for g
    using s1(7,8) b(10) b2(4) by (cases g) (auto intro: exI [of _ j] exI [of _ k] exI [of _ l])
  moreover have "plugins_at T (core_container b) = requested (boot_plugs (lib E))"
    unfolding boot_plugs_def
    by (rule ext) (simp only: b(6) b2(5) b1(5) c(3) requested_append [symmetric] append_Cons append_Nil append_assoc)
  moreover have "nginz_main_before_fork sockets E T p = Inr \<lparr>initiated = True, process = b\<rparr>"
    using core b2(1) b(1) by (simp add: nginz_main_before_fork_def in_order_def andthen_def)
  ultimately show ?thesis
    using b b2(4) s1(2-5) assms(8)
    by (intro exI [of _ b] exI [of _ P] exI [of _ "pipe (chat_state s1)"]) simp
qed

section \<open>The fork through the plugins\<close>

text \<open>In the container of the start the two fork spaces hold the bridges of the pipeline and of the rooms, in this order.\<close>

lemma fork_spaces:
  assumes "aroop_ok A"
  shows "requested (boot_plugs A) (lit ''fork/before'') = []"
    and "requested (boot_plugs A) (lit ''fork/child/after'') =
      [(BRIDGE_PLUGIN, Some Pp_fork_child_after, Pp_fork_child_after),
       (BRIDGE_PLUGIN, Some Default_room_fork_child_after, Default_room_fork_child_after)]"
    and "requested (boot_plugs A) (lit ''fork/parent/after'') =
      [(BRIDGE_PLUGIN, Some Pp_fork_parent_after, Pp_fork_parent_after),
       (BRIDGE_PLUGIN, Some Default_room_fork_parent_after, Default_room_fork_parent_after)]"
  by (simp_all add: boot_plugs_def core_plugs_def chat_core_plugs_def requested_def callback_at_def bridge_at_def static_laws [OF assms])

text \<open>So that forking through the container is \<open>fork_processors\<close> on the pipelines and the rooms of \<open>room_master.c\<close> after it.\<close>

lemma fork_splits:
  assumes A: "aroop_ok (lib E)" and T: "table_ok T" and c: "plugins_wf T c" "plugins_at T c = requested (boot_plugs (lib E))"
    and "fork_processors (lib E) (send_fails E) (my_pid E) (map Some ps) (pipe w) = Inr (ret, m, cs)"
    and "length ws = length ps"
    and "\<forall>j < length ps. \<exists>r k. default_room_fork_child_after_callback (E\<lparr>my_pid := ps ! j\<rparr>) NGINZ_PIPELINE_SIGNATURE (n + 2 * j)
           (w\<lparr>pipe := cs ! j\<rparr>) = Inr (r, k, ws ! j)"
  shows "\<exists>ns. fork_with_plugins T c E (map Some ps) (n, w) = Inr (0, (n + 2 * length ps, w\<lparr>pipe := m\<rparr>), zip ns ws) \<and>
    length ns = length ps"
  using assms(5-)
proof (induction ps arbitrary: n w ret cs ws)
  case Nil
  then show ?case by simp
next
  case (Cons p ps)
  note run = bridge_call_runs [OF T c(1)]
  obtain c1 m1 ret1 cs1 where f: "pp_fork_child_after_callback (lib E) NGINZ_PIPELINE_SIGNATURE p (pipe w) = Inr c1"
    "pp_fork_parent_after_callback (lib E) (send_fails E) NGINZ_PIPELINE_SIGNATURE (my_pid E) p (pipe w) = Inr m1"
    "fork_processors (lib E) (send_fails E) (my_pid E) (map Some ps) m1 = Inr (ret1, m, cs1)" "cs = c1 # cs1"
    using Cons.prems(1) by (auto simp: ebind_Inr_iff)
  obtain w1 ws1 where ws: "ws = w1 # ws1" "length ws1 = length ps" using Cons.prems(2) by (cases ws) auto
  obtain r k where d: "default_room_fork_child_after_callback (E\<lparr>my_pid := p\<rparr>) NGINZ_PIPELINE_SIGNATURE n (w\<lparr>pipe := c1\<rparr>) = Inr (r, k, w1)"
    using Cons.prems(3) f(4) ws(1) by fastforce
  have "\<forall>j < length ps. \<exists>r k. default_room_fork_child_after_callback (E\<lparr>my_pid := ps ! j\<rparr>) NGINZ_PIPELINE_SIGNATURE (n + 2 + 2 * j)
      ((w\<lparr>pipe := m1\<rparr>)\<lparr>pipe := cs1 ! j\<rparr>) = Inr (r, k, ws1 ! j)"
  proof (intro allI impI)
    fix j
    assume "j < length ps"
    then show "\<exists>r k. default_room_fork_child_after_callback (E\<lparr>my_pid := ps ! j\<rparr>) NGINZ_PIPELINE_SIGNATURE (n + 2 + 2 * j)
        ((w\<lparr>pipe := m1\<rparr>)\<lparr>pipe := cs1 ! j\<rparr>) = Inr (r, k, ws1 ! j)"
      using Cons.prems(3) [rule_format, of "Suc j"] f(4) ws(1) by (simp add: add.assoc)
  qed
  then obtain ns where ns: "fork_with_plugins T c E (map Some ps) (n + 2, w\<lparr>pipe := m1\<rparr>) =
      Inr (0, (n + 2 + 2 * length ps, w\<lparr>pipe := m\<rparr>), zip ns ws1)" "length ns = length ps"
    using Cons.IH [of "w\<lparr>pipe := m1\<rparr>" ret1 cs1 ws1 "n + 2"] f(3) ws(2) by auto
  have "fork_with_plugins T c E (map Some (p # ps)) (n, w) =
      Inr (0, (n + 2 * length (p # ps), w\<lparr>pipe := m\<rparr>), (k, w1) # zip ns ws1)"
    using f(1,2) d ns(1)
    by (simp add: pm_bridge_call_def run c(2) static_laws [OF A] fork_spaces [OF A] fork_bridge_def
        default_room_fork_parent_after_callback_def)
  then show ?case using ns(2) by (intro exI [of _ "k # ns"]) (simp add: ws(1))
qed

text \<open>A worker after its two bridges, and after reading what the master wrote.\<close>

lemma worker_learns:
  assumes "aroop_ok A" and "length ps = 5" and "nids m = me # ps" and "\<And>p. p \<in> set ps \<Longrightarrow> 0 \<le>s p"
    and "inj_on (\<lambda>j. fd0 (nodes m j)) {1..<6}" and "\<And>f. inbox f es = inbox f (announcements A me m [1..<6])" and k: "k < 5"
    and "grows c p" and "knows c (me # take (Suc k) ps)" and "mynode c = Some (Suc k)" and "same_fds c s"
    and "reader_ok s" and "fd1 (nodes s (Suc k)) \<noteq> -1"
  shows "mynode p = Some (Suc k) \<and> (\<exists>c'. deliver_all A (inbox (fd0 (nodes m (Suc k))) es) p = Inr c' \<and>
    nids c' = me # ps \<and> mynode c' = Some (Suc k))"
proof -
  have e: "nodes p = nodes c" "mynode p = Some (Suc k)" "recv_buffer p = recv_buffer s"
    using assms(8,10,11) by (auto simp: grows_def same_fds_def)
  have ib: "inbox (fd0 (nodes m (Suc k))) es = map (\<lambda>i. pid_packet A me (nid (nodes m i)) i) [1..<6]"
    using inbox_announcements [OF assms(5), of "Suc k" A me "[1..<6]"] k by (simp add: assms(6))
  have "fd1 (nodes p (Suc k)) \<noteq> -1" using assms(11,13) by (simp add: e(1) same_fds_def)
  then have ok: "child_ok (Suc k) p" using assms(12) by (simp add: child_ok_def reader_ok_def e split: option.splits)
  have "nids p = nids c" by (rule nids_cong [OF e(1)])
  then have "nids p ! 0 = me" "nids p ! Suc k = ps ! k"
    using assms(2,9) k by (simp_all add: knows_def nth_append)
  then show ?thesis using child_learns [OF assms(1-4) ib k ok] e(2) by blast
qed

section \<open>Types of the plugin spaces\<close>

definition bridge_spaces :: "bytes set" where
  "bridge_spaces = {lit ''fork/child/after'', lit ''fork/parent/after'', lit ''parallel/pipeline/raw/setup''}"

text \<open>A space is well typed if it holds functions of one kind only: bridges in the spaces that are called as bridges, and
  callbacks in all others.\<close>

definition space_typed :: "bytes \<Rightarrow> ('f, 'e) registered list \<Rightarrow> bool" where
  "space_typed k regs \<longleftrightarrow>
     (\<forall>(cat, f, d) \<in> set regs. f \<noteq> None \<and> cat = (if k \<in> bridge_spaces then BRIDGE_PLUGIN else CALLBACK_PLUGIN))"

lemma callbacks_progress:
  assumes "\<And>f i out w. \<exists>r. R f i out w = Inr r" and "\<forall>(cat, f, d) \<in> set regs. f \<noteq> None \<and> cat = CALLBACK_PLUGIN"
  shows "\<exists>r. run_callbacks A R regs input out ret w = Inr r"
  using assms(2)
proof (induction regs arbitrary: out ret w)
  case (Cons x regs)
  obtain f d where x: "x = (CALLBACK_PLUGIN, Some f, d)" using Cons.prems by (cases x) auto
  obtain r out' w' where "R f input out w = Inr (r, out', w')" using assms(1) [of f input out w] by auto
  then show ?case using Cons by (simp add: x)
qed simp

lemma bridges_progress:
  assumes "\<And>f sg d w. \<exists>r. B f sg d w = Inr r" and "\<forall>(cat, f, d) \<in> set regs. f \<noteq> None \<and> cat = BRIDGE_PLUGIN"
  shows "\<exists>r. run_bridges A B regs signature data ret w = Inr r"
  using assms(2)
proof (induction regs arbitrary: ret w)
  case (Cons x regs)
  obtain f d where x: "x = (BRIDGE_PLUGIN, Some f, d)" using Cons.prems by (cases x) auto
  obtain r w' where "B f signature data w = Inr (r, w')" using assms(1) [of f signature data w] by auto
  then show ?case using Cons by (simp add: x)
qed simp

lemma typed_calls_progress:
  assumes "table_ok T" and "plugins_wf T c" and "space_typed (str space) (plugins_at T c (str space))"
  shows "str space \<notin> bridge_spaces \<Longrightarrow> (\<And>f i out w. \<exists>r. R f i out w = Inr r) \<Longrightarrow> \<exists>r. pm_call A T R (Some c) space input out w = Inr r"
    and "str space \<in> bridge_spaces \<Longrightarrow> (\<And>f sg d w. \<exists>r. B f sg d w = Inr r) \<Longrightarrow> \<exists>r. pm_bridge_call A T B (Some c) space sg d w' = Inr r"
  using callbacks_progress [where R = R and regs = "plugins_at T c (str space)"] bridges_progress [where B = B and regs = "plugins_at T c (str space)"] assms(3)
  by (simp_all add: pm_call_def call_runs [OF assms(1,2)] pm_bridge_call_def bridge_call_runs [OF assms(1,2)] space_typed_def)

lemma requested_typed:
  assumes "\<forall>(cat, space, f, d) \<in> set rs. cat = (if str space \<in> bridge_spaces then BRIDGE_PLUGIN else CALLBACK_PLUGIN)"
  shows "space_typed k (requested rs k)"
  using assms by (fastforce simp: space_typed_def requested_def)

lemma space_typed_append: "space_typed k (rs @ qs) \<longleftrightarrow> space_typed k rs \<and> space_typed k qs"
  unfolding space_typed_def set_append by (rule ball_Un)

lemma boot_spaces_typed:
  assumes "aroop_ok A"
  shows "space_typed k (requested (boot_plugs A) k)"
  by (rule requested_typed)
    (simp add: boot_plugs_def core_plugs_def chat_core_plugs_def callback_at_def bridge_at_def static_laws [OF assms] bridge_spaces_def lit_def)

section \<open>Properties\<close>

definition sample_nginz :: "((bytes \<times> nat) list, (target \<times> bytes \<times> int) list) nginz" where
  "sample_nginz = \<lparr>initiated = False, process = sample_boot\<rparr>"

definition master_env :: "(target \<times> bytes \<times> int) list chat_env" where
  "master_env = sample_env\<lparr>my_pid := 100\<rparr>"

lemma sample_start:
  "aroop_ok (lib master_env)" "\<not> initiated sample_nginz" "app_container (process sample_nginz) = None"
  "t_cap (aroop_txt_buffer (lib master_env) NGINZ_MAX_BINARY_MSG_LEN) < 65536"
  "\<exists>a b c d. six_sockets i = Some (a, b, c, d) \<and> b \<noteq> -1"
  "mynode (pipe (chat_state (statics (process sample_nginz)))) = Some 0" "my_pid master_env = master_pid master_env" "master_pid master_env = 100"
proof -
  have e: "lib master_env = ref_aroop" "my_pid master_env = 100" "master_pid master_env = 100" by (simp_all add: master_env_def sample_env_def)
  show "aroop_ok (lib master_env)" "my_pid master_env = master_pid master_env" "master_pid master_env = 100" by (simp_all add: e)
  show "t_cap (aroop_txt_buffer (lib master_env) NGINZ_MAX_BINARY_MSG_LEN) < 65536"
    by (simp add: e ref_aroop_def t_cap_def NGINZ_MAX_BINARY_MSG_LEN_def)
  show "\<exists>a b c d. six_sockets i = Some (a, b, c, d) \<and> b \<noteq> -1" by (auto simp: six_sockets_def)
qed (simp_all add: sample_nginz_def sample_boot_def sample_world_def six_nodes_def)

text \<open>What the master plugs after the forks: the control shell and the listener.\<close>

definition late_plugs :: "aroop \<Rightarrow> (core_plug, core_plug) plug_request list" where
  "late_plugs A = test_module_plugs A @ help_module_plugs A @
     [callback_at A ''fork/child/after'' Shake_stop_on_fork, callback_at A ''fork/child/after'' Tcp_listener_stop,
      callback_at A ''shake/softquitall'' Tcp_listener_stop]"

text \<open>No module plugs anything into the spaces of these two calls.\<close>

lemma startup_calls_do_nothing:
  assumes "aroop_ok A" and "table_ok T" and "plugins_wf T c" and "plugins_at T c = requested (boot_plugs A @ qs)"
    and "qs = [] \<or> qs = late_plugs A"
  shows "rehash A T R (Some c) w = Inr (0, w)" and "master_init A T R (Some c) w = Inr (0, w)"
  using assms(5)
  by (auto simp: rehash_def master_init_def pm_call_def call_runs [OF assms(2,3)] assms(4) static_laws [OF assms(1)] requested_append requested_Nil)
    (simp_all add: requested_def boot_plugs_def core_plugs_def chat_core_plugs_def late_plugs_def test_module_plugs_def help_module_plugs_def
      callback_at_def bridge_at_def static_laws [OF assms(1)])

text \<open>Once the master has started the control shell and the listener, which it does after the forks, the space of the
  children is mixed: a later call of it runs the two bridges and then stops at the assertion on the category.\<close>

lemma late_start_mixes_fork_space:
  assumes "aroop_ok A" and "aroop_assert_aborts A" and "\<And>f sg d w. \<exists>r. B f sg d w = Inr r"
  shows "run_bridges A B (requested (boot_plugs A @ late_plugs A) (lit ''fork/child/after'')) sg d ret w = Inl AssertFailed"
proof -
  have r: "requested (boot_plugs A @ late_plugs A) (lit ''fork/child/after'') =
      requested (boot_plugs A) (lit ''fork/child/after'') @
      [(CALLBACK_PLUGIN, Some Shake_stop_on_fork, Shake_stop_on_fork), (CALLBACK_PLUGIN, Some Tcp_listener_stop, Tcp_listener_stop)]"
    by (simp add: requested_append)
      (simp add: late_plugs_def test_module_plugs_def help_module_plugs_def requested_def callback_at_def static_laws [OF assms(1)])
  obtain r1 w1 where b1: "B Pp_fork_child_after sg d w = Inr (r1, w1)" using assms(3) [of Pp_fork_child_after sg d w] by auto
  obtain r2 w2 where "B Default_room_fork_child_after sg d w1 = Inr (r2, w2)"
    using assms(3) [of Default_room_fork_child_after sg d w1] by auto
  with b1 show ?thesis
    unfolding r fork_spaces(2) [OF assms(1)] using assms(2) by (simp add: aroop_assert_def)
qed

text \<open>(C7) The start of the whole server: after the init functions of all subsystems in the order of \<open>nginz_main\<close> and five
  forks through the plugins they have plugged, every worker knows itself and holds its two of the ten default
  rooms, the master knows all processes, and once a worker has read what the master wrote to it during the forks, its
  node table is the one of the master. The two bridges of a fork space run in the order in which they were plugged: the
  pipeline knows the new process before its rooms are claimed.\<close>

theorem server_starts:
  assumes "aroop_ok (lib E)" and "table_ok T" and "pools_ok E" and "send_fails E = (\<lambda>_. False)"
    and "\<not> initiated p" and "app_container (process p) = None"
    and "t_cap (aroop_txt_buffer (lib E) NGINZ_MAX_BINARY_MSG_LEN) < 65536"
    and "\<And>i. i < MAX_PROCESS_COUNT \<Longrightarrow> \<exists>a b c d. sockets i = Some (a, b, c, d) \<and> b \<noteq> -1"
    and "inj_on (\<lambda>i. fst (the (sockets i))) {1..<6}"
    and "mynode (pipe (chat_state (statics (process p)))) = Some 0" and "my_pid E = master_pid E"
    and "length ps = NGINZ_NUMBER_OF_PROCESSORS" and "0 \<notin> set (master_pid E # ps)" and "\<forall>p \<in> set ps. 0 \<le>s p"
  shows "\<exists>p' w0 m children. nginz_main_before_fork sockets E T p = Inr p' \<and> w0 = chat_state (statics (process p')) \<and>
    fork_with_plugins T (core_container (process p')) E (map Some ps) (0, w0) = Inr (0, (length default_rooms, m), children) \<and>
    nids (pipe m) = master_pid E # ps \<and> length children = 5 \<and>
    (\<forall>k < 5. case children ! k of (n, w) \<Rightarrow>
       map (\<lambda>rm. str (room_name rm)) (room_factory w) = [default_rooms ! (2 * k), default_rooms ! (2 * k + 1)] \<and>
       mynode (pipe w) = Some (Suc k) \<and>
       (\<exists>c. deliver_all (lib E) (inbox (fd0 (nodes (pipe m) (Suc k))) (drop (length (effects (pipe w0))) (effects (pipe m)))) (pipe w) = Inr c \<and>
          nids c = master_pid E # ps \<and> mynode c = Some (Suc k)))"
proof -
  let ?A = "lib E" and ?me = "master_pid E"
  have ln: "length ps = 5" using assms(12) by (simp add: NGINZ_NUMBER_OF_PROCESSORS_def)
  obtain b s0 where b: "nginz_main_before_fork sockets E T p = Inr \<lparr>initiated = True, process = b\<rparr>"
    "plugins_wf T (core_container b)" "plugins_at T (core_container b) = requested (boot_plugs ?A)"
    "room_factory (chat_state (statics b)) = []" "grows s0 (pipe (chat_state (statics b)))"
    "mynode s0 = Some 0" "nids s0 = ?me # replicate 5 0"
    "\<forall>i < 6. fd0 (nodes s0 i) = fst (the (sockets i)) \<and> fd1 (nodes s0 i) \<noteq> -1" "reader_ok s0"
    using main_result [where E = E and T = T and p = p and sockets = sockets] assms(1,2,5-8,10,11,13) by auto
  define w where "w = chat_state (statics b)"
  let ?s = "pipe w"
  have s: "nodes ?s = nodes s0" "mynode ?s = Some 0" "recv_buffer ?s = recv_buffer s0"
    using b(5,6) by (auto simp: grows_def w_def)
  have kn: "knows ?s (?me # [])" using b(7) nids_cong [OF s(1)] assms(13) by (simp add: knows_def)
  have "ps \<noteq> []" "0 \<notin> set ps" using ln assms(13) by auto
  then obtain m cs es where m: "fork_processors ?A (\<lambda>_. False) ?me (map Some ps) ?s = Inr (0, m, cs)"
    "knows m (?me # ps)" "same_fds m ?s" "length cs = 5"
    "effects m = effects ?s @ announcements ?A ?me m [1..<6] @ es" "\<And>f. inbox f es = []"
    "\<And>j. j < 5 \<Longrightarrow> knows (cs ! j) (?me # take (Suc j) ps) \<and> mynode (cs ! j) = Some (Suc j) \<and> same_fds (cs ! j) ?s"
    using fork_run [OF assms(1) kn, of ps] ln s(2) by auto
  have nm: "nids m = ?me # ps" using m(2) ln by (simp add: knows_def)
  have inj: "inj_on (\<lambda>j. fd0 (nodes m j)) {1..<6}"
  proof -
    have "inj_on (\<lambda>j. fd0 (nodes m j)) {1..<6} \<longleftrightarrow> inj_on (\<lambda>i. fst (the (sockets i))) {1..<6}"
      by (rule inj_on_cong) (use m(3) b(8) s(1) in \<open>simp add: same_fds_def\<close>)
    then show ?thesis using assms(9) by simp
  qed
  have rooms: "\<exists>w'. default_room_fork_child_after_callback (E\<lparr>my_pid := ps ! k\<rparr>) NGINZ_PIPELINE_SIGNATURE (2 * k) (w\<lparr>pipe := cs ! k\<rparr>)
        = Inr (0, 2 * k + 1, w') \<and>
      map (\<lambda>rm. str (room_name rm)) (room_factory w') = [default_rooms ! (2 * k), default_rooms ! (2 * k + 1)] \<and>
      grows (cs ! k) (pipe w')" if k: "k < 5" for k
  proof -
    let ?E = "E\<lparr>my_pid := ps ! k\<rparr>" and ?w = "w\<lparr>pipe := cs ! k\<rparr>"
    have "nids (cs ! k) = ?me # take (Suc k) ps @ replicate (6 - length (?me # take (Suc k) ps)) 0"
      using m(7) [OF k] by (simp add: knows_def)
    then have "node_index ?me (cs ! k) = Some 0" using node_index_first [of "cs ! k" "[]" ?me] by simp
    then have "ready ?E ?w" using assms(1,3,13) by (simp add: ready_def pools_ok_def)
    then show ?thesis
      using child_adds_two [of ?E ?w "2 * k"] assms(4) b(4) k by (auto simp: w_def)
  qed
  have "\<forall>k \<in> {..<5}. \<exists>w'. default_room_fork_child_after_callback (E\<lparr>my_pid := ps ! k\<rparr>) NGINZ_PIPELINE_SIGNATURE (2 * k)
        (w\<lparr>pipe := cs ! k\<rparr>) = Inr (0, 2 * k + 1, w') \<and>
      map (\<lambda>rm. str (room_name rm)) (room_factory w') = [default_rooms ! (2 * k), default_rooms ! (2 * k + 1)] \<and>
      grows (cs ! k) (pipe w')" by (intro ballI rooms) simp
  note rooms_all = this
  obtain ws where ws: "\<forall>k \<in> {..<5}. default_room_fork_child_after_callback (E\<lparr>my_pid := ps ! k\<rparr>) NGINZ_PIPELINE_SIGNATURE (2 * k)
        (w\<lparr>pipe := cs ! k\<rparr>) = Inr (0, 2 * k + 1, ws k) \<and>
      map (\<lambda>rm. str (room_name rm)) (room_factory (ws k)) = [default_rooms ! (2 * k), default_rooms ! (2 * k + 1)] \<and>
      grows (cs ! k) (pipe (ws k))"
    by (rule exE [OF bchoice [OF rooms_all]])
  have "\<forall>j < length ps. \<exists>r n. default_room_fork_child_after_callback (E\<lparr>my_pid := ps ! j\<rparr>) NGINZ_PIPELINE_SIGNATURE (0 + 2 * j)
        (w\<lparr>pipe := cs ! j\<rparr>) = Inr (r, n, map ws [0..<5] ! j)"
    using ws ln by simp
  note split = fork_splits [OF assms(1,2) b(2,3) _ _ this, where m = m and ret = 0]
  have "\<exists>ns. fork_with_plugins T (core_container b) E (map Some ps) (0, w) =
      Inr (0, (0 + 2 * length ps, w\<lparr>pipe := m\<rparr>), zip ns (map ws [0..<5])) \<and> length ns = length ps"
    by (rule split) (simp_all add: m(1) ln assms(4,11))
  then obtain ns where ns: "fork_with_plugins T (core_container b) E (map Some ps) (0, w) =
      Inr (0, (10, w\<lparr>pipe := m\<rparr>), zip ns (map ws [0..<5]))" "length ns = 5"
    using ln by auto
  have kid: "mynode (pipe (ws k)) = Some (Suc k) \<and>
       (\<exists>c. deliver_all ?A (inbox (fd0 (nodes m (Suc k))) (drop (length (effects ?s)) (effects m))) (pipe (ws k)) = Inr c \<and>
          nids c = ?me # ps \<and> mynode c = Some (Suc k))" if k: "k < 5" for k
  proof (rule worker_learns [OF assms(1) ln nm assms(14) [rule_format] inj _ k])
    show "inbox f (drop (length (effects ?s)) (effects m)) = inbox f (announcements ?A ?me m [1..<6])" for f
      by (simp add: m(5,6) inbox_append)
    show "grows (cs ! k) (pipe (ws k))" using ws k by simp
    show "knows (cs ! k) (?me # take (Suc k) ps)" "mynode (cs ! k) = Some (Suc k)" "same_fds (cs ! k) ?s" using m(7) [OF k] by simp_all
    show "reader_ok ?s" using b(9) s by (simp add: reader_ok_def b(6))
    show "fd1 (nodes ?s (Suc k)) \<noteq> -1" using b(8) k s(1) by simp
  qed
  have kids: "case zip ns (map ws [0..<5]) ! k of (n, w) \<Rightarrow>
       map (\<lambda>rm. str (room_name rm)) (room_factory w) = [default_rooms ! (2 * k), default_rooms ! (2 * k + 1)] \<and>
       mynode (pipe w) = Some (Suc k) \<and>
       (\<exists>c. deliver_all ?A (inbox (fd0 (nodes m (Suc k))) (drop (length (effects ?s)) (effects m))) (pipe w) = Inr c \<and>
          nids c = ?me # ps \<and> mynode c = Some (Suc k))" if k: "k < 5" for k
    using kid [OF k] ws k ns(2) by simp
  show ?thesis
    by (rule exI [of _ "\<lparr>initiated = True, process = b\<rparr>"], rule exI [of _ w], rule exI [of _ "w\<lparr>pipe := m\<rparr>"],
        rule exI [of _ "zip ns (map ws [0..<5])"])
      (use b(1) ns nm kids in \<open>simp add: w_def default_rooms_props(1)\<close>)
qed

lemma server_starts_witness:
  "\<exists>p' w0 m children. nginz_main_before_fork six_sockets master_env ref_table sample_nginz = Inr p' \<and>
    fork_with_plugins ref_table (core_container (process p')) master_env (map Some [101, 102, 103, 104, 105]) (0, w0) = Inr (0, (10, m), children) \<and>
    nids (pipe m) = [100, 101, 102, 103, 104, 105] \<and>
    map (\<lambda>rm. str (room_name rm)) (room_factory (snd (children ! 4))) = [lit ''NINE'', lit ''TEN'']"
proof -
  have e: "lib master_env = ref_aroop" "send_fails master_env = (\<lambda>_. False)" by (simp_all add: master_env_def sample_env_def)
  have po: "pools_ok master_env" using sample_ready(2) by (simp add: master_env_def pools_ok_def)
  have inj: "inj_on (\<lambda>i. fst (the (six_sockets i))) {1..<6}" by (simp add: inj_on_def six_sockets_def)
  have ps: "length [101, 102, 103, 104, 105 :: 32 word] = NGINZ_NUMBER_OF_PROCESSORS" "0 \<notin> set (master_pid master_env # [101, 102, 103, 104, 105])"
    "\<forall>p \<in> set [101, 102, 103, 104, 105 :: 32 word]. 0 \<le>s p"
    by (simp_all add: NGINZ_NUMBER_OF_PROCESSORS_def sample_start(8) word_sle_eq)
  note W = server_starts [OF sample_start(1) ref_table_ok po e(2) sample_start(2-4,5) inj sample_start(6,7) ps]
  from W show ?thesis
  proof (elim exE conjE, goal_cases)
    case (1 p' w0 m children)
    have "map (\<lambda>rm. str (room_name rm)) (room_factory (snd (children ! 4))) = [default_rooms ! 8, default_rooms ! 9]"
      using 1(6) [rule_format, of 4] by (simp add: case_prod_unfold)
    then show ?case
      using 1(1,3,4) by (intro exI [of _ p'] exI [of _ w0] exI [of _ m] exI [of _ children]) (simp add: sample_start(8) default_rooms_def)
  qed
qed

end
