(* ===== verification/MemcachedDb.thy ===== *)
theory MemcachedDb
  imports AsyncDb
begin

text \<open>
  The synchronous database client, \<open>db/src/db.c\<close>, compiled with \<open>HAS_MEMCACHED_MODULE\<close>. The library libmemcached is the
  parameter \<open>M\<close>: a connection is a value of type \<open>'m\<close>, and a call returns the new one with its result, where \<open>True\<close>
  stands for \<open>MEMCACHED_SUCCESS\<close>. Keys and values are C strings, given by their bytes before the terminating zero.
\<close>

section \<open>Code\<close>

record ('m, 's) memcached =
  memcached_create :: 'm
  memcached_server_list_append :: "'s option \<Rightarrow> bytes \<Rightarrow> nat \<Rightarrow> 's"
  memcached_server_push :: "'m \<Rightarrow> 's option \<Rightarrow> 'm \<times> bool"
  memcached_set :: "'m \<Rightarrow> bytes \<Rightarrow> bytes \<Rightarrow> 'm \<times> bool"
  memcached_get :: "'m \<Rightarrow> bytes \<Rightarrow> bytes option \<times> bool"

record ('m, 's) db_client =
  internal_servers :: "'s option"
  internal_memc :: "'m option"

text \<open>What a C function sees of a text it is given as a pointer.\<close>

definition seen_text :: "bytes \<Rightarrow> bytes" where
  "seen_text bs = takeWhile (\<lambda>b. b \<noteq> 0) bs"

definition db_set ::
    "('m, 's) memcached \<Rightarrow> bytes \<Rightarrow> bytes option \<Rightarrow> ('m, 's) db_client \<Rightarrow> int \<times> ('m, 's) db_client" where
  "db_set M key val st =
     (case internal_memc st of
        None \<Rightarrow> (-1, st)
      | Some m \<Rightarrow> (case memcached_set M m key (case val of None \<Rightarrow> [] | Some v \<Rightarrow> v) of
          (m', success) \<Rightarrow> (if success then 0 else 1, st\<lparr>internal_memc := Some m'\<rparr>)))"

definition db_get ::
    "aroop \<Rightarrow> ('m, 's) memcached \<Rightarrow> bytes \<Rightarrow> aroop_txt_t \<Rightarrow> ('m, 's) db_client \<Rightarrow> int \<times> aroop_txt_t" where
  "db_get A M key output st =
     (case internal_memc st of
        None \<Rightarrow> (-1, output)
      | Some m \<Rightarrow> (case memcached_get M m key of
          (outval, success) \<Rightarrow>
            (if success then 0 else 1,
             case outval of
               None \<Rightarrow> output
             | Some v \<Rightarrow> aroop_txt_zero_terminate A (aroop_txt_concat_string A (aroop_txt_buffer A (length v + 1)) (seen_text v)))))"

definition db_get_int :: "aroop \<Rightarrow> ('m, 's) memcached \<Rightarrow> bytes \<Rightarrow> ('m, 's) db_client \<Rightarrow> int" where
  "db_get_int A M key st =
     (let (_, output) = db_get A M key zero_txt st
      in if t_len output \<noteq> 0 then aroop_txt_to_int A (aroop_txt_zero_terminate A output) else -1)"

definition db_set_int ::
    "aroop \<Rightarrow> ('m, 's) memcached \<Rightarrow> bytes \<Rightarrow> 32 word \<Rightarrow> ('m, 's) db_client \<Rightarrow> int \<times> ('m, 's) db_client" where
  "db_set_int A M key intval st =
     (let valstr = aroop_txt_zero_terminate A (aroop_txt_printf A (aroop_txt_stackbuffer A 32) (dec_int (sint intval)))
      in db_set M key (Some (seen_text (str valstr))) st)"

definition db_module_init :: "('m, 's) memcached \<Rightarrow> ('m, 's) db_client \<Rightarrow> int \<times> ('m, 's) db_client" where
  "db_module_init M st =
     (let m = memcached_create M;
          servers = memcached_server_list_append M (internal_servers st) (lit ''localhost'') 11211;
          (m', _) = memcached_server_push M m (Some servers)
      in (0, \<lparr>internal_servers = Some servers, internal_memc = Some m'\<rparr>))"

definition db_module_deinit :: "('m, 's) memcached \<Rightarrow> ('m, 's) db_client \<Rightarrow> ('m, 's) db_client" where
  "db_module_deinit M st = \<lparr>internal_servers = None, internal_memc = None\<rparr>"

section \<open>The store behind the library\<close>

text \<open>What the documentation of the library promises of a server that is there and evicts nothing: a nonempty value that was set is what a
  later get of the key returns, as bytes of the same length, and other keys keep theirs. Keys of the protocol have no
  blanks or control characters and at most 250 bytes.\<close>

definition key_ok :: "bytes \<Rightarrow> bool" where
  "key_ok k \<longleftrightarrow> k \<noteq> [] \<and> length k \<le> 250 \<and> (\<forall>b \<in> set k. 33 \<le> b \<and> b \<noteq> 127)"

definition memcached_ok :: "('m, 's) memcached \<Rightarrow> bool" where
  "memcached_ok M \<longleftrightarrow>
     (\<forall>m k v m'. key_ok k \<longrightarrow> v \<noteq> [] \<longrightarrow> memcached_set M m k v = (m', True) \<longrightarrow>
        memcached_get M m' k = (Some v, True) \<and> (\<forall>k'. key_ok k' \<longrightarrow> k' \<noteq> k \<longrightarrow> memcached_get M m' k' = memcached_get M m k')) \<and>
     (\<forall>m k v m'. memcached_set M m k v = (m', False) \<longrightarrow> (\<forall>k'. k' \<noteq> k \<longrightarrow> memcached_get M m' k' = memcached_get M m k'))"

lemma seen_text_id: "0 \<notin> set bs \<Longrightarrow> seen_text bs = bs"
  unfolding seen_text_def by (rule takeWhile_eq_all_conv [THEN iffD2]) auto

lemma dec_int_no_zero: "0 \<notin> set (dec_int k)"
proof -
  have "(0 :: byte) \<notin> set (dec_nat n)" for n using dec_nat_digits [of 0 n] by auto
  then show ?thesis by (simp add: dec_int_def)
qed

lemma db_get_value:
  assumes "aroop_ok A" and "internal_memc st = Some m" and "memcached_get M m key = (Some v, True)" and "0 \<notin> set v"
  shows "\<exists>out. db_get A M key x st = (0, out) \<and> wf_txt out \<and> str out = v"
proof -
  have "appends (aroop_txt_buffer A (length v + 1)) v (aroop_txt_concat_string A (aroop_txt_buffer A (length v + 1)) v)"
    by (rule concat_string_appends [OF assms(1)])
      (use buffer_cap(1) [OF assms(1), of "length v + 1"] in \<open>simp_all add: buffer_laws [OF assms(1)]\<close>)
  then show ?thesis
    using assms(2-4) zero_terminate_laws [OF assms(1)] buffer_laws(2) [OF assms(1)]
    by (simp add: db_get_def seen_text_id appends_def str_def)
qed

section \<open>Properties\<close>

text \<open>(C32) A number that was stored reads back: after \<open>db_set_int\<close> has succeeded, \<open>db_get_int\<close> of the key returns the number
  and the text of the key is its decimal numeral; every other key reads as before.\<close>

theorem stored_int_reads_back:
  assumes "aroop_ok A" and "memcached_ok M" and "internal_memc st = Some m" and "key_ok key"
    and "db_set_int A M key v st = (0, st')"
  shows "db_get_int A M key st' = sint v \<and> (\<exists>out. db_get A M key x st' = (0, out) \<and> str out = dec_int (sint v)) \<and>
    (\<forall>k. key_ok k \<longrightarrow> k \<noteq> key \<longrightarrow> db_get_int A M k st' = db_get_int A M k st \<and> db_get A M k y st' = db_get A M k y st)"
proof -
  let ?v = "dec_int (sint v)"
  have "appends (aroop_txt_stackbuffer A 32) ?v (aroop_txt_printf A (aroop_txt_stackbuffer A 32) ?v)"
    by (rule printf_appends [OF assms(1)])
      (use length_dec_sint [of v] buffer_cap(2) [OF assms(1), of 32] in \<open>simp_all add: buffer_laws [OF assms(1)]\<close>)
  then have t: "seen_text (str (aroop_txt_zero_terminate A (aroop_txt_printf A (aroop_txt_stackbuffer A 32) ?v))) = ?v"
    using buffer_laws(4) [OF assms(1), of 32] zero_terminate_laws(2) [OF assms(1)] dec_int_no_zero [of "sint v"]
    by (simp add: appends_def seen_text_id str_def)
  obtain m' where m': "memcached_set M m key ?v = (m', True)" "st' = st\<lparr>internal_memc := Some m'\<rparr>"
    using assms(3,5) t by (auto simp: db_set_int_def db_set_def split: prod.splits if_splits)
  have g: "memcached_get M m' key = (Some ?v, True)" "\<And>k. key_ok k \<Longrightarrow> k \<noteq> key \<Longrightarrow> memcached_get M m' k = memcached_get M m k"
    using assms(2,4) m'(1) dec_int_nonempty [of "sint v"] unfolding memcached_ok_def by blast+
  have s: "internal_memc st' = Some m'" by (simp add: m'(2))
  have get: "\<exists>out. db_get A M key x st' = (0, out) \<and> wf_txt out \<and> str out = ?v" for x
    by (rule db_get_value [OF assms(1) s g(1) dec_int_no_zero])
  then obtain out where out: "db_get A M key zero_txt st' = (0, out)" "wf_txt out" "str out = ?v" by blast
  have "t_len out \<noteq> 0" using out(3) length_str [OF out(2)] dec_int_nonempty [of "sint v"] by (metis length_0_conv)
  then have "db_get_int A M key st' = sint v"
    using out to_int_law [OF assms(1), of "aroop_txt_zero_terminate A out" v] zero_terminate_laws [OF assms(1) out(2)]
    by (simp add: db_get_int_def)
  moreover have "db_get A M k y st' = db_get A M k y st" if "key_ok k" "k \<noteq> key" for k y
    using g(2) [OF that] s assms(3) by (simp add: db_get_def)
  ultimately show ?thesis using get [of x] by (auto simp: db_get_int_def)
qed

text \<open>A server that keeps everything.\<close>

definition map_server :: "(bytes \<Rightarrow> bytes option, nat) memcached" where
  "map_server = \<lparr>memcached_create = Map.empty, memcached_server_list_append = (\<lambda>s h p. p), memcached_server_push = (\<lambda>m s. (m, True)),
     memcached_set = (\<lambda>m k v. (m(k \<mapsto> v), True)), memcached_get = (\<lambda>m k. (m k, m k \<noteq> None))\<rparr>"

lemma stored_int_reads_back_witness:
  "\<exists>st'. db_set_int ref_aroop map_server (lit ''visits'') (-7) (snd (db_module_init map_server \<lparr>internal_servers = None, internal_memc = None\<rparr>)) = (0, st') \<and>
    db_get_int ref_aroop map_server (lit ''visits'') st' = -7"
proof -
  let ?st = "snd (db_module_init map_server \<lparr>internal_servers = None, internal_memc = None\<rparr>)"
  obtain st' where st': "db_set_int ref_aroop map_server (lit ''visits'') (-7) ?st = (0, st')"
    by (simp add: db_set_int_def db_set_def db_module_init_def map_server_def)
  have ok: "memcached_ok map_server" by (auto simp: memcached_ok_def map_server_def)
  have k: "key_ok (lit ''visits'')" by (simp add: key_ok_def lit_def)
  have m: "internal_memc ?st = Some Map.empty" by (simp add: db_module_init_def map_server_def)
  have "sint (-7 :: 32 word) = -7" by code_simp
  then show ?thesis
    using stored_int_reads_back [OF ref_aroop_ok ok m k st'] st' by auto
qed

text \<open>Without a connection every call fails and changes nothing, and a number that is not there reads as -1, as one that
  was stored as -1.\<close>

lemma unconnected_fails:
  assumes "internal_memc st = None"
  shows "db_set M key val st = (-1, st)" and "db_get A M key x st = (-1, x)" and "db_get_int A M key st = -1"
  using assms by (simp_all add: db_set_def db_get_def db_get_int_def zero_txt_def)

lemma missing_int_is_minus_one:
  assumes "internal_memc st = Some m" and "memcached_get M m key = (None, r)"
  shows "db_get_int A M key st = -1"
  using assms by (simp add: db_get_int_def db_get_def zero_txt_def)

text \<open>After the deinit function the module is as before its init function.\<close>

lemma deinit_disconnects: "internal_memc (db_module_deinit M st) = None \<and> internal_servers (db_module_deinit M st) = None"
  by (simp add: db_module_deinit_def)

end
