(* ===== verification/HttpModules.thy ===== *)
theory HttpModules
  imports WebChat Boot
begin

text \<open>
  Starting the HTTP server and the web chat: \<open>apps/http/src/http_plugin_manager.c\<close>, \<open>http_subsystem.c\<close> and the init
  functions of the modules of both applications. The HTTP server has a container of pages; its modules share one struct
  of function pointers, the static \<open>hooks\<close> of \<open>http_subsystem.c\<close>, which they reach through a pointer they are given by a
  call of the bridges of \<open>httpproto/hookup\<close>. The web chat gets the functions of its session factory in the same way,
  through \<open>web_session/api/hookup\<close>. A function pointer is the constructor of its function, a pointer to a static struct the
  constructor of the struct, \<open>None\<close> for null. \<open>S\<close> gives the path of a source file (\<open>__FILE__\<close>).
\<close>

section \<open>Pages and their descriptions\<close>

datatype http_page = Http_help | Web_page web_page

fun http_page_about :: "http_page \<Rightarrow> string \<times> string \<times> string" where
  "http_page_about Http_help = (''help'', ''http_plugin_manager.c'', ''It shows available commands.'')"
| "http_page_about (Web_page ChatPage) = (''pagechat'', ''page_chat.c'', ''It is javascript based chat page.'')"
| "http_page_about (Web_page _) = (''webchat'', ''web_chat.c'', ''It decorates the chat io for HTTP tunneling.'')"

definition http_page_desc :: "aroop \<Rightarrow> (string \<Rightarrow> bytes) \<Rightarrow> http_page desc_runner" where
  "http_page_desc A S p space =
     (case http_page_about p of (nm, file_name, about) \<Rightarrow>
        plugin_desc A (lit nm) (lit ''http'') space (S file_name) (lit about @ [10]))"

definition http_plugin_command ::
    "aroop \<Rightarrow> ('h, nat) table_api \<Rightarrow> 'e desc_runner \<Rightarrow> ('f, 'e, 'h) composite_plugin option \<Rightarrow> aroop_txt_t exec" where
  "http_plugin_command A T D http_plug =
     (case http_plug of
        None \<Rightarrow> Inl NullDeref
      | Some c \<Rightarrow> composite_plugin_visit_all T (plugin_command_helper A D) c (aroop_txt_buffer A 1024))"

definition http_plugin_command_desc :: "aroop \<Rightarrow> bytes \<Rightarrow> aroop_txt_t \<Rightarrow> aroop_txt_t" where
  "http_plugin_command_desc A source_file space =
     plugin_desc A (lit ''httpplugin'') (lit ''shake'') space source_file (lit ''It dumps the avilable plugins'' @ [10])"

definition http_help_plug_helper :: "aroop \<Rightarrow> 'e desc_runner \<Rightarrow> ('f, 'e, aroop_txt_t) plugin_visitor" where
  "http_help_plug_helper A D p output =
     (let prefix = aroop_txt_set_length A (aroop_txt_copy_shallow A (plugin_space p)) 5
      in if \<not> aroop_txt_equals A prefix (aroop_txt_static_string A (lit ''http/'')) then Inr output
         else if aroop_txt_char_at A prefix 5 = 95 then Inr output
         else Inr (aroop_txt_concat A output (D (plugin_desc_cb p) (plugin_space p))))"

text \<open>The \<open>send\<close> of an HTTP connection is the tunnel.\<close>

definition http_help_plug ::
    "('h, nat) table_api \<Rightarrow> 'e desc_runner \<Rightarrow> ('f, 'e, 'h) composite_plugin option \<Rightarrow> 'w http_env \<Rightarrow> int \<Rightarrow> nat \<Rightarrow> 'w http_world \<Rightarrow>
     (32 word \<times> 'w http_world) exec" where
  "http_help_plug T D http_plug E signature c w =
     (let A = http_lib E in
      ebind (aroop_assert A (signature = HTTP_SIGNATURE)) (\<lambda>_.
      if \<not> is_valid_http c w then Inr (0, w)
      else
        (case http_plug of
           None \<Rightarrow> Inr (0, w)
         | Some P \<Rightarrow>
             ebind (composite_plugin_visit_all T (http_help_plug_helper A D) P (aroop_txt_stackbuffer A 1024)) (\<lambda>output.
             Inr (0, snd (http_tunnel_send_content E c (Some output) 0 w))))))"

fun run_http_page ::
    "('h, nat) table_api \<Rightarrow> (string \<Rightarrow> bytes) \<Rightarrow> ('f, http_page, 'h) composite_plugin option \<Rightarrow> 'c web_env \<Rightarrow>
     (http_page, nat, 'c web_world) bridge_runner" where
  "run_http_page T S P E Http_help = http_help_plug T (http_page_desc (web_lib E) S) P (web_http E)"
| "run_http_page T S P E (Web_page p) = run_page E p"

section \<open>Init functions\<close>

datatype http_hook_fn = Http_alloc | Http_on_client_data

record http_hooks =
  http_on_create :: "http_hook_fn option"
  http_on_data :: "http_hook_fn option"

datatype hooks_ptr = Subsystem_hooks

datatype web_hooks_ptr = Session_hooks

datatype web_fiber = Base_fiber process_fiber | Web_session_cleanup_fiber

datatype http_stack = Http_protostack

record 'c web_statics =
  subsystem_hooks :: http_hooks
  accept_hooks :: "hooks_ptr option"
  parser_hooks :: "hooks_ptr option"
  web_hooks :: "web_hooks_ptr option"
  web_side :: "'c web_world"
  web_fibers :: "web_fiber fiber_table"
  http_ports :: "http_stack protostacks"
  http_lb :: "32 word"
  http_recv_buffer :: aroop_txt_t

type_synonym ('h, 'c) web_boot = "(http_page, 'h, 'c web_statics) app_boot"
type_synonym ('h, 'c) web_init = "'c web_env \<Rightarrow> ('h, nat) table_api \<Rightarrow> ('h, 'c) web_boot \<Rightarrow> ('h, 'c) web_boot exec"

definition set_web :: "('c web_world \<Rightarrow> 'c web_world) \<Rightarrow> 'c web_statics \<Rightarrow> 'c web_statics exec" where
  "set_web f s = Inr (s\<lparr>web_side := f (web_side s)\<rparr>)"

definition http_factory_hookup :: "aroop \<Rightarrow> hooks_ptr option \<Rightarrow> 'c web_statics \<Rightarrow> (int \<times> 'c web_statics) exec" where
  "http_factory_hookup A given s =
     ebind (aroop_assert A (given \<noteq> None)) (\<lambda>_.
     case given of
       None \<Rightarrow> Inl NullDeref
     | Some _ \<Rightarrow> Inr (0, s\<lparr>subsystem_hooks := (subsystem_hooks s)\<lparr>http_on_create := Some Http_alloc\<rparr>\<rparr>))"

definition http_accept_hookup :: "aroop \<Rightarrow> hooks_ptr option \<Rightarrow> 'c web_statics \<Rightarrow> (int \<times> 'c web_statics) exec" where
  "http_accept_hookup A given s = ebind (aroop_assert A (given \<noteq> None)) (\<lambda>_. Inr (0, s\<lparr>accept_hooks := given\<rparr>))"

definition http_parser_hookup :: "aroop \<Rightarrow> hooks_ptr option \<Rightarrow> 'c web_statics \<Rightarrow> (int \<times> 'c web_statics) exec" where
  "http_parser_hookup A given s =
     (case given of
        None \<Rightarrow> Inl NullDeref
      | Some _ \<Rightarrow> Inr (0, s\<lparr>parser_hooks := given, subsystem_hooks := (subsystem_hooks s)\<lparr>http_on_data := Some Http_on_client_data\<rparr>\<rparr>))"

text \<open>The first assertion of the code assigns the signature and always holds.\<close>

definition web_session_api_plug :: "aroop \<Rightarrow> int \<Rightarrow> web_hooks_ptr option \<Rightarrow> 'c web_statics \<Rightarrow> (int \<times> 'c web_statics) exec" where
  "web_session_api_plug A signature given s = ebind (aroop_assert A (given \<noteq> None)) (\<lambda>_. Inr (0, s\<lparr>web_hooks := given\<rparr>))"

text \<open>What the bridges of the two spaces are when they are called, each with the pointers of its space; a function of
  another space would be given a pointer of the wrong type.\<close>

definition http_hookup_bridge :: "aroop \<Rightarrow> (core_plug, hooks_ptr option, 'c web_statics) bridge_runner" where
  "http_hookup_bridge A f signature given s =
     ebind (case f of
              Http_factory_hookup \<Rightarrow> http_factory_hookup A given s
            | Http_accept_hookup \<Rightarrow> http_accept_hookup A given s
            | Http_parser_hookup \<Rightarrow> http_parser_hookup A given s
            | _ \<Rightarrow> Inl AssertFailed) (\<lambda>(r, s'). Inr (word_of_int r, s'))"

definition web_hookup_bridge :: "aroop \<Rightarrow> (core_plug, web_hooks_ptr option, 'c web_statics) bridge_runner" where
  "web_hookup_bridge A f signature given s =
     ebind (case f of Web_session_api_plug \<Rightarrow> web_session_api_plug A signature given s | _ \<Rightarrow> Inl AssertFailed)
       (\<lambda>(r, s'). Inr (word_of_int r, s'))"

definition core_bridge ::
    "aroop \<Rightarrow> ('h, nat) table_api \<Rightarrow> (core_plug, 'd, 's) bridge_runner \<Rightarrow> string \<Rightarrow> int \<Rightarrow> 'd \<Rightarrow> ('p, 'h, 's) app_boot \<Rightarrow>
     ('p, 'h, 's) app_boot exec" where
  "core_bridge A T B space signature d b =
     ebind (composite_plugin_bridge_call A T B (core_container b) (aroop_txt_static_string A (lit space)) signature d (statics b))
       (\<lambda>(_, s). Inr (b\<lparr>statics := s\<rparr>))"

definition http_factory_module_init :: "('h, 'c) web_init" where
  "http_factory_module_init E T = in_order [
     on_statics (set_web (http_factory_update (\<lambda>_. []))),
     plug_core (web_lib E) T (callback_at (web_lib E) ''shake/softquitall'' Http_factory_on_softquit),
     plug_core (web_lib E) T (bridge_at (web_lib E) ''httpproto/hookup'' Http_factory_hookup)]"

definition http_accept_module_init :: "('h, 'c) web_init" where
  "http_accept_module_init E T = in_order [
     on_statics (\<lambda>s. Inr (s\<lparr>http_ports := snd (protostack_set NGINZ_HTTP_PORT (Some Http_protostack) (http_ports s)),
       http_lb := load_balancer_setup (web_getpid E)\<rparr>)),
     plug_core (web_lib E) T (bridge_at (web_lib E) ''httpproto/hookup'' Http_accept_hookup)]"

definition http_parser_module_init :: "('h, 'c) web_init" where
  "http_parser_module_init E T = in_order [
     on_statics (\<lambda>s. Inr (s\<lparr>http_recv_buffer := aroop_txt_buffer (web_lib E) NGINZ_MAX_HTTP_MSG_SIZE\<rparr>)),
     plug_core (web_lib E) T (bridge_at (web_lib E) ''httpproto/hookup'' Http_parser_hookup)]"

definition http_tunnel_module_init :: "('h, 'c) web_init" where
  "http_tunnel_module_init E T = on_statics (set_web (send_buf_update (\<lambda>_. aroop_txt_buffer (web_lib E) NGINZ_MAX_HTTP_MSG_SIZE)))"

definition http_plugin_manager_module_init :: "('h, 'c) web_init" where
  "http_plugin_manager_module_init E T = in_order [
     (\<lambda>b. ebind (aroop_assert (web_lib E) (app_container b = None)) (\<lambda>_. Inr (b\<lparr>app_container := Some (composite_plugin_create T)\<rparr>))),
     plug_app (web_lib E) T ''http/help'' Http_help,
     plug_core (web_lib E) T (callback_at (web_lib E) ''shake/httpplugin'' Http_plugin_command),
     http_tunnel_module_init E T]"

definition nginz_http_module_init :: "('h, 'c) web_init" where
  "nginz_http_module_init E T = in_order [
     on_statics (\<lambda>s. Inr (s\<lparr>subsystem_hooks := \<lparr>http_on_create = None, http_on_data = None\<rparr>\<rparr>)),
     http_factory_module_init E T, http_accept_module_init E T, http_parser_module_init E T,
     http_plugin_manager_module_init E T,
     core_bridge (web_lib E) T (http_hookup_bridge (web_lib E)) ''httpproto/hookup'' HTTP_SIGNATURE (Some Subsystem_hooks)]"

definition page_chat_module_init :: "('h, 'c) web_init" where
  "page_chat_module_init E T = plug_app (web_lib E) T ''http/pagechat'' (Web_page ChatPage)"

definition WEB_CHAT_SIGNATURE :: int where "WEB_CHAT_SIGNATURE = 12923"

definition web_session_factory_module_init :: "('h, 'c) web_init" where
  "web_session_factory_module_init E T = in_order [
     on_statics (set_web (upd_web (web_session_factory_update (\<lambda>_. [])))),
     plug_core (web_lib E) T (callback_at (web_lib E) ''shake/softquitall'' Web_session_factory_on_softquit),
     core_bridge (web_lib E) T (web_hookup_bridge (web_lib E)) ''web_session/api/hookup'' WEB_CHAT_SIGNATURE (Some Session_hooks),
     on_statics (\<lambda>s. ebind (register_fiber_full (web_lib E) Web_session_cleanup_fiber ''web_session_factory.c'' 154 (web_fibers s))
       (\<lambda>(_, fs). Inr (s\<lparr>web_fibers := fs\<rparr>)))]"

definition web_chat_module_init :: "('h, 'c) web_init" where
  "web_chat_module_init E T = in_order [
     plug_app (web_lib E) T ''http/webchat'' (Web_page WebChatPage),
     plug_app (web_lib E) T ''http/_web_session_transfer'' (Web_page SessionTransferPage),
     plug_core (web_lib E) T (bridge_at (web_lib E) ''web_session/api/hookup'' Web_session_api_plug),
     page_chat_module_init E T, web_session_factory_module_init E T]"

section \<open>What the start plugs\<close>

definition page_table :: "(string \<times> http_page) list" where
  "page_table = [(''http/help'', Http_help), (''http/webchat'', Web_page WebChatPage),
     (''http/_web_session_transfer'', Web_page SessionTransferPage), (''http/pagechat'', Web_page ChatPage)]"

definition page_requests :: "aroop \<Rightarrow> (http_page, http_page) plug_request list" where
  "page_requests A = map (\<lambda>(sp, p). bridge_at A sp p) page_table"

definition page_of :: "bytes \<Rightarrow> http_page option" where
  "page_of = map_of (map (\<lambda>(sp, p). (lit sp, p)) page_table)"

definition page_plugs :: "bytes \<Rightarrow> (http_page, http_page) registered list" where
  "page_plugs k = (case page_of k of Some p \<Rightarrow> [(BRIDGE_PLUGIN, Some p, p)] | None \<Rightarrow> [])"

definition http_core_plugs :: "aroop \<Rightarrow> (core_plug, core_plug) plug_request list" where
  "http_core_plugs A =
     [callback_at A ''shake/softquitall'' Http_factory_on_softquit, bridge_at A ''httpproto/hookup'' Http_factory_hookup,
      bridge_at A ''httpproto/hookup'' Http_accept_hookup, bridge_at A ''httpproto/hookup'' Http_parser_hookup,
      callback_at A ''shake/httpplugin'' Http_plugin_command]"

definition web_core_plugs :: "aroop \<Rightarrow> (core_plug, core_plug) plug_request list" where
  "web_core_plugs A =
     [bridge_at A ''web_session/api/hookup'' Web_session_api_plug, callback_at A ''shake/softquitall'' Web_session_factory_on_softquit]"

lemma requested_pages: "aroop_ok A \<Longrightarrow> requested (page_requests A) = page_plugs"
  unfolding fun_eq_iff page_plugs_def page_of_def page_requests_def
  by (intro allI requested_bridges) (simp_all add: page_table_def)

lemma in_order_append: "in_order (fs @ gs) = andthen (in_order fs) (in_order gs)"
  by (induction fs) (simp_all add: in_order_def andthen_assoc)

lemma in_order_nested: "in_order (fs @ [in_order gs]) = in_order (fs @ gs)"
  unfolding in_order_append by (simp add: in_order_def)

text \<open>A call of the bridges of a space of the process runs them on the static variables.\<close>

lemma core_bridge_runs:
  assumes "aroop_ok A" and "table_ok T" and "plugins_wf T (core_container b)" and "plugins_at T (core_container b) (lit space) = regs"
    and "run_bridges A B regs signature d 0 (statics b) = Inr (r, s)"
  shows "core_bridge A T B space signature d b = Inr (b\<lparr>statics := s\<rparr>)"
  using assms by (simp add: core_bridge_def bridge_call_runs static_laws [OF assms(1)])

definition http_started :: "'c web_env \<Rightarrow> 'c web_statics \<Rightarrow> 'c web_statics" where
  "http_started E s = s\<lparr>
     subsystem_hooks := \<lparr>http_on_create = Some Http_alloc, http_on_data = Some Http_on_client_data\<rparr>,
     accept_hooks := Some Subsystem_hooks, parser_hooks := Some Subsystem_hooks,
     web_side := (web_side s)\<lparr>http_factory := [], send_buf := aroop_txt_buffer (web_lib E) NGINZ_MAX_HTTP_MSG_SIZE\<rparr>,
     http_ports := snd (protostack_set NGINZ_HTTP_PORT (Some Http_protostack) (http_ports s)),
     http_lb := load_balancer_setup (web_getpid E), http_recv_buffer := aroop_txt_buffer (web_lib E) NGINZ_MAX_HTTP_MSG_SIZE\<rparr>"

lemma http_core_boots:
  assumes "aroop_ok (web_lib E)" and "table_ok T"
  shows "core_boots T (in_order [on_statics (\<lambda>s. Inr (s\<lparr>subsystem_hooks := \<lparr>http_on_create = None, http_on_data = None\<rparr>\<rparr>)),
      http_factory_module_init E T, http_accept_module_init E T, http_parser_module_init E T])
    (butlast (http_core_plugs (web_lib E)))
    (\<lambda>s. Inr (s\<lparr>subsystem_hooks := \<lparr>http_on_create = None, http_on_data = None\<rparr>, web_side := (web_side s)\<lparr>http_factory := []\<rparr>,
      http_ports := snd (protostack_set NGINZ_HTTP_PORT (Some Http_protostack) (http_ports s)),
      http_lb := load_balancer_setup (web_getpid E), http_recv_buffer := aroop_txt_buffer (web_lib E) NGINZ_MAX_HTTP_MSG_SIZE\<rparr>))"
  unfolding http_factory_module_init_def http_accept_module_init_def http_parser_module_init_def
  apply (rule core_boots_eq)
  apply (rule core_boots_in_order core_boots_statics core_boots_plug [OF assms disjI1 [OF refl]]
    core_boots_plug [OF assms disjI2 [OF refl]])+
  apply (simp add: http_core_plugs_def)
  apply (simp add: andthen_def set_web_def in_order_def fun_eq_iff)
  done

lemma http_manager_boots:
  assumes "aroop_ok (web_lib E)" and "table_ok T"
  shows "boots T (in_order [plug_app (web_lib E) T ''http/help'' Http_help,
     plug_core (web_lib E) T (callback_at (web_lib E) ''shake/httpplugin'' Http_plugin_command), http_tunnel_module_init E T])
    [bridge_at (web_lib E) ''http/help'' Http_help] [last (http_core_plugs (web_lib E))]
    (set_web (send_buf_update (\<lambda>_. aroop_txt_buffer (web_lib E) NGINZ_MAX_HTTP_MSG_SIZE)))"
  unfolding http_tunnel_module_init_def
  apply (rule boots_eq)
  apply (rule boots_in_order boots_statics boots_app [OF assms] boots_core [OF assms disjI1 [OF refl]])+
  apply (simp_all add: http_core_plugs_def in_order_def)
  done

lemma nginz_http_module_init_split:
  "nginz_http_module_init E T =
     andthen (in_order [on_statics (\<lambda>s. Inr (s\<lparr>subsystem_hooks := \<lparr>http_on_create = None, http_on_data = None\<rparr>\<rparr>)),
         http_factory_module_init E T, http_accept_module_init E T, http_parser_module_init E T])
       (andthen (http_plugin_manager_module_init E T)
         (core_bridge (web_lib E) T (http_hookup_bridge (web_lib E)) ''httpproto/hookup'' HTTP_SIGNATURE (Some Subsystem_hooks)))"
  by (simp add: nginz_http_module_init_def in_order_def andthen_assoc)

text \<open>The start of the HTTP server.\<close>

lemma http_start_result:
  assumes A: "aroop_ok (web_lib E)" and T: "table_ok T" and "app_container b = None" and "plugins_wf T (core_container b)"
    and "plugins_at T (core_container b) (lit ''httpproto/hookup'') = []"
  shows "\<exists>b' P. nginz_http_module_init E T b = Inr b' \<and> app_container b' = Some P \<and> plugins_wf T P \<and>
    plugins_at T P = requested [bridge_at (web_lib E) ''http/help'' Http_help] \<and> plugins_wf T (core_container b') \<and>
    (\<forall>k. plugins_at T (core_container b') k = plugins_at T (core_container b) k @ requested (http_core_plugs (web_lib E)) k) \<and>
    statics b' = http_started E (statics b)"
proof -
  let ?A = "web_lib E" and ?h = "\<lparr>http_on_create = None, http_on_data = None\<rparr>"
  obtain b1 s1 where b1: "in_order [on_statics (\<lambda>s. Inr (s\<lparr>subsystem_hooks := ?h\<rparr>)),
      http_factory_module_init E T, http_accept_module_init E T, http_parser_module_init E T] b = Inr b1"
    "plugins_wf T (core_container b1)" "app_container b1 = None" "statics b1 = s1"
    "\<forall>k. plugins_at T (core_container b1) k = plugins_at T (core_container b) k @ requested (butlast (http_core_plugs ?A)) k"
    "s1 = (statics b)\<lparr>subsystem_hooks := ?h, web_side := (web_side (statics b))\<lparr>http_factory := []\<rparr>,
      http_ports := snd (protostack_set NGINZ_HTTP_PORT (Some Http_protostack) (http_ports (statics b))),
      http_lb := load_balancer_setup (web_getpid E), http_recv_buffer := aroop_txt_buffer ?A NGINZ_MAX_HTTP_MSG_SIZE\<rparr>"
    using core_bootsD [OF http_core_boots [OF A T] assms(4) refl] assms(3) by auto
  let ?s2 = "s1\<lparr>web_side := (web_side s1)\<lparr>send_buf := aroop_txt_buffer ?A NGINZ_MAX_HTTP_MSG_SIZE\<rparr>\<rparr>"
  have "set_web (send_buf_update (\<lambda>_. aroop_txt_buffer ?A NGINZ_MAX_HTTP_MSG_SIZE)) (statics b1) = Inr ?s2"
    by (simp add: set_web_def b1(4))
  from boots_managed [OF A T http_manager_boots [OF A T] b1(3,2) this]
  obtain b2 P where b2: "http_plugin_manager_module_init E T b1 = Inr b2" "statics b2 = ?s2" "app_container b2 = Some P" "plugins_wf T P"
    "plugins_at T P = requested [bridge_at ?A ''http/help'' Http_help]" "plugins_wf T (core_container b2)"
    "\<forall>k. plugins_at T (core_container b2) k = plugins_at T (core_container b1) k @ requested [last (http_core_plugs ?A)] k"
    by (auto simp: http_plugin_manager_module_init_def in_order_def andthen_def)
  have all: "\<forall>k. plugins_at T (core_container b2) k = plugins_at T (core_container b) k @ requested (http_core_plugs ?A) k"
    using b2(7) b1(5) requested_append [of "butlast (http_core_plugs ?A)" "[last (http_core_plugs ?A)]"]
    by (simp add: http_core_plugs_def)
  have "plugins_at T (core_container b2) (lit ''httpproto/hookup'') =
      [(BRIDGE_PLUGIN, Some Http_factory_hookup, Http_factory_hookup), (BRIDGE_PLUGIN, Some Http_accept_hookup, Http_accept_hookup),
       (BRIDGE_PLUGIN, Some Http_parser_hookup, Http_parser_hookup)]"
    using all assms(5) by (simp add: http_core_plugs_def requested_def callback_at_def bridge_at_def static_laws [OF A])
  from core_bridge_runs [OF A T b2(6) this, of "http_hookup_bridge ?A" HTTP_SIGNATURE "Some Subsystem_hooks"]
  have "core_bridge ?A T (http_hookup_bridge ?A) ''httpproto/hookup'' HTTP_SIGNATURE (Some Subsystem_hooks) b2 =
      Inr (b2\<lparr>statics := http_started E (statics b)\<rparr>)"
    by (simp add: http_hookup_bridge_def http_factory_hookup_def http_accept_hookup_def http_parser_hookup_def b2(2) b1(6) http_started_def)
  then have "nginz_http_module_init E T b = Inr (b2\<lparr>statics := http_started E (statics b)\<rparr>)"
    using b1(1) b2(1) by (simp add: nginz_http_module_init_split) (simp add: andthen_def)
  then show ?thesis using b2 all by (intro exI [of _ "b2\<lparr>statics := http_started E (statics b)\<rparr>"] exI [of _ P]) simp
qed

lemma web_boots:
  assumes "aroop_ok (web_lib E)" and "table_ok T"
  shows "boots T (in_order [plug_app (web_lib E) T ''http/webchat'' (Web_page WebChatPage),
     plug_app (web_lib E) T ''http/_web_session_transfer'' (Web_page SessionTransferPage),
     plug_core (web_lib E) T (bridge_at (web_lib E) ''web_session/api/hookup'' Web_session_api_plug),
     page_chat_module_init E T, on_statics (set_web (upd_web (web_session_factory_update (\<lambda>_. [])))),
     plug_core (web_lib E) T (callback_at (web_lib E) ''shake/softquitall'' Web_session_factory_on_softquit)])
    (tl (page_requests (web_lib E))) (web_core_plugs (web_lib E)) (set_web (upd_web (web_session_factory_update (\<lambda>_. []))))"
  unfolding page_chat_module_init_def
  apply (rule boots_eq)
  apply (rule boots_in_order boots_statics boots_app [OF assms] boots_core [OF assms disjI1 [OF refl]] boots_core [OF assms disjI2 [OF refl]])+
  apply (simp_all add: web_core_plugs_def page_requests_def page_table_def in_order_def)
  done

lemma web_chat_module_init_split:
  "web_chat_module_init E T =
     andthen (in_order [plug_app (web_lib E) T ''http/webchat'' (Web_page WebChatPage),
         plug_app (web_lib E) T ''http/_web_session_transfer'' (Web_page SessionTransferPage),
         plug_core (web_lib E) T (bridge_at (web_lib E) ''web_session/api/hookup'' Web_session_api_plug),
         page_chat_module_init E T, on_statics (set_web (upd_web (web_session_factory_update (\<lambda>_. [])))),
         plug_core (web_lib E) T (callback_at (web_lib E) ''shake/softquitall'' Web_session_factory_on_softquit)])
       (andthen (core_bridge (web_lib E) T (web_hookup_bridge (web_lib E)) ''web_session/api/hookup'' WEB_CHAT_SIGNATURE (Some Session_hooks))
         (on_statics (\<lambda>s. ebind (register_fiber_full (web_lib E) Web_session_cleanup_fiber ''web_session_factory.c'' 154 (web_fibers s))
           (\<lambda>(_, fs). Inr (s\<lparr>web_fibers := fs\<rparr>)))))"
  by (simp add: web_chat_module_init_def web_session_factory_module_init_def in_order_def andthen_assoc)

section \<open>Properties\<close>

text \<open>(C27) Starting the HTTP server and then the web chat: the container of the HTTP server holds exactly the four pages, each
  once; the container of the process gets the seven functions of the two applications behind what it had; the calls of
  the hookup spaces install every function pointer of the shared structs, so that neither the listener nor the parser
  nor the web chat is left with a null pointer; both pools are empty, the port of the server has its stack and the
  cleanup of sessions runs in a slot that was free.\<close>

theorem web_starts:
  assumes A: "aroop_ok (web_lib E)" and T: "table_ok T" and "app_container b = None" and "plugins_wf T (core_container b)"
    and "plugins_at T (core_container b) (lit ''httpproto/hookup'') = []"
    and "plugins_at T (core_container b) (lit ''web_session/api/hookup'') = []"
    and "k < MAX_FIBERS" and "free_slot (web_fibers (statics b)) k"
  shows "\<exists>b1 b2 P s j. nginz_http_module_init E T b = Inr b1 \<and> web_chat_module_init E T b1 = Inr b2 \<and> s = statics b2 \<and>
    app_container b2 = Some P \<and> plugins_wf T P \<and> plugins_at T P = page_plugs \<and> plugins_wf T (core_container b2) \<and>
    (\<forall>k. plugins_at T (core_container b2) k = plugins_at T (core_container b) k @
       requested (http_core_plugs (web_lib E) @ web_core_plugs (web_lib E)) k) \<and>
    subsystem_hooks s = \<lparr>http_on_create = Some Http_alloc, http_on_data = Some Http_on_client_data\<rparr> \<and>
    accept_hooks s = Some Subsystem_hooks \<and> parser_hooks s = Some Subsystem_hooks \<and> web_hooks s = Some Session_hooks \<and>
    http_factory (web_side s) = [] \<and> web_session_factory (http_outside (web_side s)) = [] \<and>
    http_ports s = snd (protostack_set NGINZ_HTTP_PORT (Some Http_protostack) (http_ports (statics b))) \<and>
    free_slot (web_fibers (statics b)) j \<and> fibers (web_fibers s) = (fibers (web_fibers (statics b)))
      (j := \<lparr>status = FIBER_STATUS_CREATED, fiber = Some Web_session_cleanup_fiber, filename = ''web_session_factory.c'', lineno = 154\<rparr>)"
proof -
  let ?A = "web_lib E"
  obtain b1 P1 where b1: "nginz_http_module_init E T b = Inr b1" "app_container b1 = Some P1" "plugins_wf T P1"
    "plugins_at T P1 = requested [bridge_at ?A ''http/help'' Http_help]" "plugins_wf T (core_container b1)"
    "\<forall>k. plugins_at T (core_container b1) k = plugins_at T (core_container b) k @ requested (http_core_plugs ?A) k"
    "statics b1 = http_started E (statics b)"
    using http_start_result [OF A T assms(3-5)] by blast
  let ?s1 = "statics b1" and ?g = "upd_web (web_session_factory_update (\<lambda>_. []))"
  let ?s2 = "?s1\<lparr>web_side := ?g (web_side ?s1)\<rparr>"
  have c1: "containers_ok T b1" "app_at T b1 = plugins_at T P1" using b1(2,3,5) by (simp_all add: containers_ok_def app_at_def)
  have g: "set_web ?g ?s1 = Inr ?s2" by (simp add: set_web_def)
  obtain b2 where b2: "in_order [plug_app (web_lib E) T ''http/webchat'' (Web_page WebChatPage),
         plug_app (web_lib E) T ''http/_web_session_transfer'' (Web_page SessionTransferPage),
         plug_core (web_lib E) T (bridge_at (web_lib E) ''web_session/api/hookup'' Web_session_api_plug),
         page_chat_module_init E T, on_statics (set_web (upd_web (web_session_factory_update (\<lambda>_. [])))),
         plug_core (web_lib E) T (callback_at (web_lib E) ''shake/softquitall'' Web_session_factory_on_softquit)] b1 = Inr b2"
    "containers_ok T b2" "statics b2 = ?s2" "\<forall>k. app_at T b2 k = app_at T b1 k @ requested (tl (page_requests ?A)) k"
    "\<forall>k. plugins_at T (core_container b2) k = plugins_at T (core_container b1) k @ requested (web_core_plugs ?A) k"
    using web_boots [OF A T] c1(1) g unfolding boots_def by blast
  obtain P where P: "app_container b2 = Some P" "plugins_wf T P" "plugins_wf T (core_container b2)"
    using b2(2) by (auto simp: containers_ok_def split: option.splits)
  have "page_requests ?A = bridge_at ?A ''http/help'' Http_help # tl (page_requests ?A)" by (simp add: page_requests_def page_table_def)
  then have "requested (page_requests ?A) k = requested [bridge_at ?A ''http/help'' Http_help] k @ requested (tl (page_requests ?A)) k" for k
    using requested_append [of "[bridge_at ?A ''http/help'' Http_help]" "tl (page_requests ?A)" k] by simp
  then have pages: "plugins_at T P = page_plugs"
    using b2(4) b1(4) P(1) requested_pages [OF A] by (simp add: app_at_def b1(2) fun_eq_iff)
  have all: "plugins_at T (core_container b2) k = plugins_at T (core_container b) k @ requested (http_core_plugs ?A @ web_core_plugs ?A) k" for k
    using b2(5) b1(6) by (simp add: requested_append)
  have "plugins_at T (core_container b2) (lit ''web_session/api/hookup'') = [(BRIDGE_PLUGIN, Some Web_session_api_plug, Web_session_api_plug)]"
    using all [of "lit ''web_session/api/hookup''"] assms(6)
    by (simp add: http_core_plugs_def web_core_plugs_def requested_def callback_at_def bridge_at_def static_laws [OF A])
  from core_bridge_runs [OF A T P(3) this, of "web_hookup_bridge ?A" WEB_CHAT_SIGNATURE "Some Session_hooks"]
  have cb: "core_bridge ?A T (web_hookup_bridge ?A) ''web_session/api/hookup'' WEB_CHAT_SIGNATURE (Some Session_hooks) b2 =
      Inr (b2\<lparr>statics := ?s2\<lparr>web_hooks := Some Session_hooks\<rparr>\<rparr>)"
    by (simp add: web_hookup_bridge_def web_session_api_plug_def b2(3))
  have "web_fibers ?s2 = web_fibers (statics b)" by (simp add: b1(7) http_started_def)
  moreover obtain j fs where fs: "free_slot (web_fibers (statics b)) j"
    "register_fiber_full ?A Web_session_cleanup_fiber ''web_session_factory.c'' 154 (web_fibers (statics b)) = Inr (0, fs)"
    "fibers fs = (fibers (web_fibers (statics b)))
      (j := \<lparr>status = FIBER_STATUS_CREATED, fiber = Some Web_session_cleanup_fiber, filename = ''web_session_factory.c'', lineno = 154\<rparr>)"
    using register_free [OF assms(7,8)] by blast
  ultimately have "web_chat_module_init E T b1 = Inr (b2\<lparr>statics := ?s2\<lparr>web_hooks := Some Session_hooks, web_fibers := fs\<rparr>\<rparr>)"
    using b2(1) cb fs(2) by (simp add: web_chat_module_init_split) (simp add: andthen_def on_statics_def)
  then show ?thesis
    using b1(1) P pages all fs(1,3)
    by (intro exI [of _ b1] exI [of _ "b2\<lparr>statics := ?s2\<lparr>web_hooks := Some Session_hooks, web_fibers := fs\<rparr>\<rparr>"] exI [of _ P]
        exI [of _ "?s2\<lparr>web_hooks := Some Session_hooks, web_fibers := fs\<rparr>"] exI [of _ j])
      (simp add: b1(7) http_started_def upd_web_def)
qed

definition sample_web_boot :: "((bytes \<times> nat) list, (int \<times> bytes \<times> int) list) web_boot" where
  "sample_web_boot = \<lparr>app_container = None, core_container = composite_plugin_create ref_table,
     statics = \<lparr>subsystem_hooks = \<lparr>http_on_create = None, http_on_data = None\<rparr>, accept_hooks = None, parser_hooks = None, web_hooks = None,
       web_side = sample_web,
       web_fibers = \<lparr>fibers = (\<lambda>_. \<lparr>status = FIBER_STATUS_EMPTY, fiber = None, filename = [], lineno = 0\<rparr>), internal_quit = False\<rparr>,
       http_ports = protostack_init, http_lb = 0, http_recv_buffer = zero_txt\<rparr>\<rparr>"

lemma web_starts_witness:
  "\<exists>b1 b2 P. nginz_http_module_init sample_web_env ref_table sample_web_boot = Inr b1 \<and> web_chat_module_init sample_web_env ref_table b1 = Inr b2 \<and>
    app_container b2 = Some P \<and> plugins_at ref_table P = page_plugs \<and> web_hooks (statics b2) = Some Session_hooks"
proof -
  note c = create_wf [OF ref_table_ok refl, where ?'b = core_plug and ?'c = core_plug]
  have "free_slot (web_fibers (statics sample_web_boot)) 0" by (simp add: sample_web_boot_def free_slot_def)
  moreover have "aroop_ok (web_lib sample_web_env)" by simp
  moreover have "(0 :: nat) < MAX_FIBERS" by (simp add: MAX_FIBERS_def)
  moreover have "app_container sample_web_boot = None" "plugins_wf ref_table (core_container sample_web_boot)"
    "plugins_at ref_table (core_container sample_web_boot) k = []" for k
    using c by (simp_all add: sample_web_boot_def)
  ultimately show ?thesis
    using web_starts [where E = sample_web_env and T = ref_table and b = sample_web_boot and k = 0, OF _ ref_table_ok] by metis
qed

lemma page_content_length: "length PAGE_CONTENT < 10 ^ 9"
  by (simp add: PAGE_CONTENT_def)

text \<open>(C28) From a request to the page in the browser: in a started web chat, a well-formed request for \<open>/pagechat\<close>, whatever its
  method, version, headers and content, is answered by the chat page exactly, framed by the status line and its
  length, and the connection stays open for the next request.\<close>

theorem chat_page_served:
  assumes "aroop_ok (web_lib E)" and "table_ok T" and "plugins_wf T P" and "plugins_at T P = page_plugs"
    and "sends_whole (http_streams (web_http E)) wr" and "open_http c w f"
    and "wf_txt buf" and "NGINZ_MAX_HTTP_MSG_SIZE \<le> t_cap buf" and "NGINZ_MAX_HTTP_MSG_SIZE \<le> t_cap (send_buf w)"
    and "request_ok m (lit ''/pagechat'') v hdrs"
    and "length (request_text m (lit ''/pagechat'') v hdrs body) < NGINZ_MAX_HTTP_MSG_SIZE"
    and "\<not> has (http_state (https w c)) (HTTP_SOFT_QUIT OR HTTP_QUIT)"
  shows "\<exists>w' sent. http_on_client_data T P (run_http_page T S (Some P) E) (web_http E) buf
      (Some (request_text m (lit ''/pagechat'') v hdrs body)) f c w = Inr (0, w') \<and>
    http_outside w' = fold (\<lambda>(bs, fl). wr f bs fl) sent (http_outside w) \<and> concat (map fst sent) = reply_text PAGE_CONTENT \<and>
    open_http c w' f"
proof -
  let ?A = "web_lib E" and ?u = "lit ''/pagechat''" and ?B = "run_http_page T S (Some P) E"
  have u: "hd ?u = 47" "5 < length ?u" "?u ! 5 \<noteq> 95" by (simp_all add: lit_def)
  have sp: "lit ''http'' @ ?u = lit ''http/pagechat''" by (simp add: lit_def)
  have reg: "plugins_at T P (lit ''http'' @ ?u) = [(BRIDGE_PLUGIN, Some (Web_page ChatPage), Web_page ChatPage)]"
    unfolding sp assms(4) by (simp add: page_plugs_def page_of_def page_table_def)
  from request_runs_page [where B = ?B and body = body, OF assms(1,6,2,3,7,8,10,11) u] obtain cont where
    r: "http_on_client_data T P ?B (web_http E) buf (Some (request_text m ?u v hdrs body)) f c w =
      ebind (run_bridges ?A ?B (plugins_at T P (lit ''http'' @ ?u)) HTTP_SIGNATURE c 0
          (upd_http c (\<lambda>x. x\<lparr>http_content := cont, is_processed := False\<rparr>) w)) (\<lambda>(ret, w2).
        let w3 = upd_http c (http_content_update (aroop_txt_destroy ?A))
                   (if \<not> is_processed (https w2 c) then http_send (web_http E) c (not_found ?A) 0 w2 else w2)
        in Inr (sint ret, if has (http_state (https w3 c)) (HTTP_SOFT_QUIT OR HTTP_QUIT) then snd (default_http_close (web_http E) c w3) else w3))"
    by blast
  let ?w1 = "upd_http c (\<lambda>x. x\<lparr>http_content := cont, is_processed := False\<rparr>) w"
  let ?x = "aroop_txt_static_string ?A PAGE_CONTENT"
  have x: "wf_txt ?x" "str ?x = PAGE_CONTENT" "t_len ?x < 10 ^ 9"
    using static_laws [OF assms(1)] length_str [of ?x] page_content_length by simp_all
  have o1: "open_http c ?w1 f" "is_valid_http c ?w1" using assms(6) by (simp_all add: open_http_def upd_http_def is_valid_http_def is_valid_stream_def)
  have "NGINZ_MAX_HTTP_MSG_SIZE \<le> t_cap (send_buf ?w1)" using assms(9) by (simp add: upd_http_def)
  from tunnel_reply [OF assms(1,5) o1(1) x(1,3) this, of 0] obtain sent sbuf where t:
    "http_tunnel_send_content (web_http E) c (Some ?x) 0 ?w1 = (0, upd_http c (is_processed_update (\<lambda>_. True))
      (?w1\<lparr>send_buf := sbuf, http_outside := fold (\<lambda>(bs, fl). wr f bs fl) sent (http_outside ?w1)\<rparr>))"
    "concat (map fst sent) = reply_text (str ?x)" by blast
  let ?w2 = "upd_http c (is_processed_update (\<lambda>_. True))
      (?w1\<lparr>send_buf := sbuf, http_outside := fold (\<lambda>(bs, fl). wr f bs fl) sent (http_outside ?w1)\<rparr>)"
  have "http_page_chat_plug E HTTP_SIGNATURE c ?w1 = Inr (0, ?w2)" using o1(2) t(1) by (simp add: http_page_chat_plug_def)
  then have run: "run_bridges ?A ?B (plugins_at T P (lit ''http'' @ ?u)) HTTP_SIGNATURE c 0 ?w1 = Inr (0, ?w2)" by (simp add: reg)
  let ?w3 = "upd_http c (http_content_update (aroop_txt_destroy ?A)) ?w2"
  have w2: "is_processed (https ?w2 c)" by (simp add: upd_http_def)
  have w3: "http_state (https ?w3 c) = http_state (https w c)" "open_http c ?w3 f"
    "http_outside ?w3 = fold (\<lambda>(bs, fl). wr f bs fl) sent (http_outside w)"
    using assms(6) by (simp_all add: upd_http_def open_http_def)
  have "http_on_client_data T P ?B (web_http E) buf (Some (request_text m ?u v hdrs body)) f c w = Inr (0, ?w3)"
    unfolding r run using w2 w3(1) assms(12) by simp
  then show ?thesis using w3(2,3) t(2) x(2) by (intro exI [of _ ?w3] exI [of _ sent]) simp
qed

lemma chat_page_served_witness:
  "\<exists>P w' sent. plug_seq ref_aroop ref_table (page_requests ref_aroop) (composite_plugin_create ref_table) = Inr P \<and>
    http_on_client_data ref_table P (run_http_page ref_table lit (Some P) sample_web_env) (web_http sample_web_env) (aroop_txt_buffer ref_aroop 1024)
      (Some (request_text (lit ''GET'') (lit ''/pagechat'') (lit ''HTTP/1.0'') [] [])) 30 0 sample_web = Inr (0, w') \<and>
    concat (map fst sent) = reply_text PAGE_CONTENT \<and>
    http_outside w' = fold (\<lambda>(bs, fl) o1. o1\<lparr>chat_side := chat_side o1 @ [(30, bs, fl)]\<rparr>) sent (http_outside sample_web)"
proof -
  have "\<forall>(cat, space, f, d) \<in> set (page_requests ref_aroop). wf_txt space \<and> cat \<noteq> INVALID_PLUGIN"
    by (auto simp: page_requests_def bridge_at_def static_laws [OF ref_aroop_ok])
  then obtain P where P: "plug_seq ref_aroop ref_table (page_requests ref_aroop) (composite_plugin_create ref_table) = Inr P"
    "plugins_wf ref_table P" "plugins_at ref_table P = page_plugs"
    using plug_seq_fresh [OF ref_aroop_ok ref_table_ok] requested_pages [OF ref_aroop_ok] by metis
  have s: "sends_whole (http_streams (web_http sample_web_env)) (\<lambda>f bs fl o1. o1\<lparr>chat_side := chat_side o1 @ [(f, bs, fl)]\<rparr>)"
    using sample_web(2) by (simp add: web_writes_def)
  have "\<exists>w' sent. http_on_client_data ref_table P (run_http_page ref_table lit (Some P) sample_web_env) (web_http sample_web_env) (aroop_txt_buffer ref_aroop 1024)
      (Some (request_text (lit ''GET'') (lit ''/pagechat'') (lit ''HTTP/1.0'') [] [])) 30 0 sample_web = Inr (0, w') \<and>
    http_outside w' = fold (\<lambda>(bs, fl) o1. o1\<lparr>chat_side := chat_side o1 @ [(30, bs, fl)]\<rparr>) sent (http_outside sample_web) \<and>
    concat (map fst sent) = reply_text PAGE_CONTENT \<and> open_http 0 w' 30"
    by (rule chat_page_served [OF _ ref_table_ok P(2,3) s])
      (simp_all add: request_ok_def line_ok_def lit_def request_text_def NGINZ_MAX_HTTP_MSG_SIZE_def)
  with P(1) show ?thesis by blast
qed

text \<open>The help page answers, as one framed message, with the line of every page; the character behind the prefix is read as in the
  chat's help (\<open>peek\<close>), and only then is the hidden page left out.\<close>

definition page_line :: "(string \<Rightarrow> bytes) \<Rightarrow> http_page \<Rightarrow> bytes \<Rightarrow> bytes" where
  "page_line S p k =
     (case http_page_about p of (nm, file_name, about) \<Rightarrow>
        lit nm @ [9] @ lit ''http'' @ [9] @ k @ [9] @ S file_name @ [10] @ [9] @ [9] @ (lit about @ [10]))"

lemma pages_described:
  assumes A: "aroop_ok A" and d: "\<forall>p. length (S p) \<le> 30"
  shows "describes (page_requests A) (http_page_desc A S) (page_line S)"
proof -
  have one: "wf_txt (http_page_desc A S p sp) \<and> str (http_page_desc A S p sp) = page_line S p (str sp)"
    if "(k, p) \<in> set page_table" "wf_txt sp" "str sp = lit k" for k p sp
  proof -
    have "t_len sp = length k" using that(2,3) length_str [of sp] by simp
    moreover have "length (S ''http_plugin_manager.c'') \<le> 30" "length (S ''web_chat.c'') \<le> 30" "length (S ''page_chat.c'') \<le> 30"
      using d by simp_all
    ultimately show ?thesis
      using that(1) plugin_desc_str [OF A that(2)] by (auto simp: page_table_def http_page_desc_def page_line_def)
  qed
  then show ?thesis by (auto simp: describes_def page_requests_def bridge_at_def static_laws [OF A])
qed

lemma help_lists_pages:
  assumes "aroop_ok (http_lib E)" and "table_ok T" and "plugins_wf T P" and "plugins_at T P = page_plugs"
    and "is_valid_http c w" and "\<forall>p. length (S p) \<le> 30"
    and "\<And>t n. wf_txt t \<Longrightarrow> n < t_len t \<Longrightarrow> aroop_txt_char_at (http_lib E) (t\<lparr>t_len := n\<rparr>) n = (if peek then t_mem t ! n else 0)"
  shows "\<exists>lines answer. http_help_plug T (http_page_desc (http_lib E) S) (Some P) E HTTP_SIGNATURE c w =
      Inr (0, snd (http_tunnel_send_content E c (Some answer) 0 w)) \<and> str answer = concat lines \<and>
    mset lines = mset (map (\<lambda>(k, p). page_line S p (lit k)) (filter (\<lambda>(k, p). \<not> (peek \<and> p = Web_page SessionTransferPage)) page_table))"
proof -
  let ?A = "http_lib E" and ?Q = "\<lambda>k. take 5 k = lit ''http/'' \<and> \<not> (peek \<and> k ! 5 = 95)" and ?D = "http_page_desc (http_lib E) S"
  have regs: "map as_registered (page_requests ?A) = map (\<lambda>(k, p). (lit k, BRIDGE_PLUGIN, Some p, p)) page_table"
    by (simp add: page_requests_def as_registered_def bridge_at_def static_laws [OF assms(1)] case_prod_unfold)
  have ls: "listing (page_line S) ?Q (map as_registered (page_requests ?A)) =
      map (\<lambda>(k, p). page_line S p (lit k)) (filter (\<lambda>(k, p). \<not> (peek \<and> p = Web_page SessionTransferPage)) page_table)"
    unfolding regs by (cases peek) (simp_all add: listing_def page_table_def lit_def)
  have sl: "length (S ''http_plugin_manager.c'') \<le> 30" "length (S ''web_chat.c'') \<le> 30" "length (S ''page_chat.c'') \<le> 30"
    using assms(6) by simp_all
  have "\<exists>lines out. mset lines = mset (listing (page_line S) ?Q (map as_registered (page_requests ?A))) \<and>
    composite_plugin_visit_all T (http_help_plug_helper ?A ?D) P (aroop_txt_stackbuffer ?A 1024) = Inr out \<and>
    built 1024 out (concat lines)"
  proof (rule describe_all [OF assms(1,2) pages_described [OF assms(1,6)] _ built_stackbuffer [OF assms(1)] _ assms(3)])
    show "plugins_at T P = requested (page_requests ?A)" by (simp add: assms(4) requested_pages [OF assms(1)])
    show "length (concat (listing (page_line S) ?Q (map as_registered (page_requests ?A)))) \<le> 1024"
      unfolding ls using sl by (cases peek) (simp_all add: page_table_def page_line_def)
    fix p :: "(http_page, http_page) internal_plugin" and out
    let ?sp = "plugin_space p"
    assume p: "wf_txt ?sp" "str ?sp \<in> fst ` set (map as_registered (page_requests ?A))"
    then have "5 < length (str ?sp)" unfolding regs by (auto simp: page_table_def)
    then have n: "5 < t_len ?sp" using length_str [OF p(1)] by simp
    let ?t = "?sp\<lparr>t_len := 5\<rparr>"
    have t: "aroop_txt_set_length ?A (aroop_txt_copy_shallow ?A ?sp) 5 = ?t" "wf_txt ?t" "str ?t = take 5 (str ?sp)"
      using set_length_law [OF assms(1), of 5 ?sp] n p(1)
      by (simp_all add: copy_shallow_law [OF assms(1)] wf_txt_def t_cap_def str_def min_def)
    have "aroop_txt_char_at ?A ?t 5 = (if peek then str ?sp ! 5 else 0)"
      using assms(7) [OF p(1) n] str_nth [OF n] by simp
    then show "http_help_plug_helper ?A ?D p out = Inr (if ?Q (str ?sp)
        then aroop_txt_concat ?A out (?D (plugin_desc_cb p) ?sp) else out)"
      by (simp add: http_help_plug_helper_def t(1) Let_def equals_law [OF assms(1) t(2)] static_laws [OF assms(1)] t(3))
  qed
  then show ?thesis
    using assms(5) unfolding ls by (fastforce simp: http_help_plug_def built_def)
qed

end
