(* ===== verification/ChatStop.thy ===== *)
theory ChatStop
  imports ChatModules Http
begin

text \<open>
  Stopping the chat: the deinit functions of the modules under \<open>apps/chat/src\<close> in the order of
  \<open>chat_plugin_manager_module_deinit\<close>. Unplugging does nothing in \<open>plugin.c\<close>, so the functions that only unplug leave the
  state as it is and are not written out. Destroying a pool frees its objects, which is the empty list here; the
  pointers into the pool stay as they are. So does \<open>chat_plug\<close>, whose container is destroyed at the end.
\<close>

section \<open>Code\<close>

definition chat_accept_module_deinit :: "('h, 'w) chat_init" where
  "chat_accept_module_deinit E T = on_statics (\<lambda>s. Inr (s\<lparr>chat_ports := snd (protostack_set NGINZ_HTTP_PORT None (chat_ports s)),
     chat_recv_buffer := aroop_txt_destroy (lib E) (chat_recv_buffer s), chat_lb := my_pid E\<rparr>))"

definition room_master_module_deinit :: "('h, 'w) chat_init" where
  "room_master_module_deinit E T = on_statics (\<lambda>s. ebind (aroop_assert (lib E) (is_master (pipe (chat_state s)))) (\<lambda>_. Inr s))"

definition room_module_deinit :: "('h, 'w) chat_init" where
  "room_module_deinit E T b = (if is_master (pipe (chat_state (statics b))) then room_master_module_deinit E T b else Inr b)"

definition broadcast_module_deinit :: "('h, 'w) chat_init" where
  "broadcast_module_deinit E T = on_statics (set_state (room_factory_update (\<lambda>_. [])))"

definition welcome_module_deinit :: "('h, 'w) chat_init" where
  "welcome_module_deinit E T = on_statics (set_state (greet_on_login_update (aroop_txt_destroy (lib E))))"

text \<open>\<open>unregister_fiber\<close> calls the fiber once more, with a status that \<open>chat_lazy_cleanup_fiber\<close> does not look at.\<close>

definition last_cleanup :: "'w chat_env \<Rightarrow> (process_fiber, 'w chat_world) fiber_runner" where
  "last_cleanup E f st w fs = ebind (chat_lazy_cleanup_fiber E w) (\<lambda>(r, w'). Inr (r, w', fs))"

definition chat_zombie_module_deinit :: "('h, 'w) chat_init" where
  "chat_zombie_module_deinit E T = on_statics (\<lambda>s.
     ebind (unregister_fiber (last_cleanup E) (Some Chat_lazy_cleanup_fiber) (chat_state s) (chat_fibers s)) (\<lambda>(_, w, fs).
     Inr (s\<lparr>chat_state := w\<lparr>zombie_list := []\<rparr>, chat_fibers := fs\<rparr>)))"

definition chat_factory_module_deinit_full :: "('h, 'w) chat_init" where
  "chat_factory_module_deinit_full E T = in_order [
     chat_zombie_module_deinit E T,
     on_statics (\<lambda>s. ebind (chat_factory_module_deinit E (chat_state s)) (\<lambda>(_, w). Inr (s\<lparr>chat_state := w\<rparr>)))]"

text \<open>Up to the pool of connections, and the whole.\<close>

definition stop_before_closing :: "('h, 'w) chat_init" where
  "stop_before_closing E T = in_order [chat_accept_module_deinit E T, room_module_deinit E T, broadcast_module_deinit E T,
     welcome_module_deinit E T]"

definition chat_plugin_manager_module_deinit :: "('h, 'w) chat_init" where
  "chat_plugin_manager_module_deinit E T = in_order [stop_before_closing E T, chat_factory_module_deinit_full E T]"

definition nginz_chat_module_deinit :: "('h, 'w) chat_init" where
  "nginz_chat_module_deinit E T = chat_plugin_manager_module_deinit E T"

text \<open>The callbacks of the chat in the space \<open>shake/softquitall\<close>, in the order in which they were plugged.\<close>

definition soft_quit :: "'w chat_env \<Rightarrow> 'w chat_world \<Rightarrow> 'w chat_world exec" where
  "soft_quit E w = ebind (chat_factory_on_softquit E w) (\<lambda>(_, w1). Inr (snd (chat_accept_on_softquit (snd (chat_zombie_on_softquit w1)))))"

section \<open>The soft quit\<close>

definition closed_conn :: "chat_connection \<Rightarrow> bool" where
  "closed_conn x \<longleftrightarrow> quited_at x \<noteq> 0 \<and> (has (cstate x) CHAT_QUIT \<or> has (cstate x) CHAT_SOFT_QUIT) \<and>
     (has (cstate x) CHAT_LOGGED_IN \<longrightarrow> t_len (chat_name x) = 0) \<and> bubble_up (strm x) = None \<and> strm_fd (strm x) = INVALID_FD"

definition closable :: "chat_connection \<Rightarrow> bool" where
  "closable x \<longleftrightarrow> wf_txt (chat_name x) \<and> t_len (chat_name x) \<le> 100 \<and> bubble_up (strm x) = None"

lemma calm_stream:
  assumes "conn_calm x y"
  shows "bubble_up (strm y) = bubble_up (strm x)" and "strm_fd (strm y) = strm_fd (strm x)"
proof -
  have e: "(strm y)\<lparr>strm_error := 0\<rparr> = (strm x)\<lparr>strm_error := 0\<rparr>" using assms by (simp add: conn_calm_def)
  show "bubble_up (strm y) = bubble_up (strm x)" using arg_cong [OF e, of bubble_up] by simp
  show "strm_fd (strm y) = strm_fd (strm x)" using arg_cong [OF e, of strm_fd] by simp
qed

lemma calm_closable: "conn_calm x y \<Longrightarrow> closable y \<longleftrightarrow> closable x"
  using calm_stream [of x y] by (simp add: conn_calm_def closable_def)

lemma calm_closed: "conn_calm x y \<Longrightarrow> closed_conn x \<Longrightarrow> closed_conn y"
  using calm_stream [of x y] unfolding conn_calm_def closed_conn_def by (elim conjE) (simp, blast)

definition rooms_named :: "'w chat_world \<Rightarrow> bool" where
  "rooms_named w \<longleftrightarrow> (\<forall>rm \<in> set (room_factory w). good_name (room_name rm))"

lemma rooms_named_names:
  assumes "map room_name (room_factory w') = map room_name (room_factory w)"
  shows "rooms_named w' \<longleftrightarrow> rooms_named w"
proof -
  have "rooms_named v \<longleftrightarrow> (\<forall>n \<in> set (map room_name (room_factory v)). good_name n)" for v by (simp add: rooms_named_def)
  then show ?thesis using assms by metis
qed

text \<open>Leaving the room and closing, for one connection.\<close>

lemma softquit_one:
  assumes "rooms_ok w" and "ready E w" and "rooms_named w" and "closable (conns w c)" and "now E \<noteq> 0"
  shows "\<exists>r1 w1 r2 w2. broadcast_room_leave E c w = Inr (r1, w1) \<and> default_chat_close E c w1 = Inr (r2, w2) \<and>
    rooms_ok w2 \<and> members w2 = (members w)(c := None) \<and> touches c w w2 \<and> closed_conn (conns w2 c) \<and> zombie_list w2 = zombie_list w"
proof -
  obtain w1 where w1: "broadcast_room_leave E c w = Inr (0, w1)"
    using leave_total [OF assms(1,2), of c] assms(3) by (auto simp: rooms_named_def)
  have L: "rooms_ok w1" "calm w w1" "members w1 = (members w)(c := None)" using leave_result [OF assms(1) w1] by simp_all
  have cc: "conn_calm (conns w c) (conns w1 c)" using L(2) by (simp add: calm_def)
  have k: "closable (conns w1 c)" using calm_closable [OF cc] assms(4) by simp
  have "ready E w1" using ready_quiet [OF assms(2) calm_world(7) [OF L(2)]] .
  moreover have "rooms_named w1" using rooms_named_names [OF calm_world(8) [OF L(2)]] assms(3) by simp
  ultimately obtain r w2 where w2: "default_chat_close E c w1 = Inr (r, w2)"
    using close_total [OF L(1), of E c] k by (auto simp: rooms_named_def closable_def)
  note R = close_result [OF L(1) w2]
  have "closed_conn (conns w2 c)" using R k assms(5) by (auto simp: closed_conn_def closable_def)
  moreover have "touches c w w2" using touches_trans [OF calm_touches [OF L(2)]] R by blast
  ultimately show ?thesis using w1 w2 R L(3) calm_world(2) [OF L(2)] by (intro exI [of _ 0] exI [of _ w1] exI [of _ r] exI [of _ w2]) simp
qed

lemma softquit_all:
  assumes "now E \<noteq> 0" and "rooms_ok w" and "ready E w" and "rooms_named w"
    and "\<forall>c \<in> set cs. closable (conns w c)" and "distinct cs"
  shows "\<exists>w'. softquit_loop E cs w = Inr w' \<and> rooms_ok w' \<and> ready E w' \<and> members w' = (\<lambda>c. if c \<in> set cs then None else members w c) \<and>
    chat_factory w' = chat_factory w \<and> zombie_list w' = zombie_list w \<and> (\<forall>c \<in> set cs. closed_conn (conns w' c)) \<and>
    (\<forall>d. d \<notin> set cs \<longrightarrow> conn_calm (conns w d) (conns w' d))"
  using assms(2-)
proof (induction cs arbitrary: w)
  case (Cons c cs)
  obtain r1 w1 r2 w2 where s: "broadcast_room_leave E c w = Inr (r1, w1)" "default_chat_close E c w1 = Inr (r2, w2)"
    "rooms_ok w2" "members w2 = (members w)(c := None)" "touches c w w2" "closed_conn (conns w2 c)" "zombie_list w2 = zombie_list w"
    using softquit_one [OF Cons.prems(1-3) _ assms(1), of c] Cons.prems(4) by auto
  have t: "\<And>d. d \<noteq> c \<Longrightarrow> conn_calm (conns w d) (conns w2 d)" "grows (pipe w) (pipe w2)" "chat_factory w2 = chat_factory w"
    "map room_name (room_factory w2) = map room_name (room_factory w)" using s(5) by (simp_all add: touches_def)
  have k: "\<forall>d \<in> set cs. closable (conns w2 d)"
  proof
    fix d assume d: "d \<in> set cs"
    then have "d \<noteq> c" using Cons.prems(5) by auto
    then have "conn_calm (conns w d) (conns w2 d)" by (rule t(1))
    then show "closable (conns w2 d)" using calm_closable Cons.prems(4) d by auto
  qed
  obtain w' where w': "softquit_loop E cs w2 = Inr w'" "rooms_ok w'" "ready E w'" "members w' = (\<lambda>d. if d \<in> set cs then None else members w2 d)"
    "chat_factory w' = chat_factory w2" "zombie_list w' = zombie_list w2" "\<forall>d \<in> set cs. closed_conn (conns w' d)"
    "\<forall>d. d \<notin> set cs \<longrightarrow> conn_calm (conns w2 d) (conns w' d)"
    using Cons.IH [OF s(3) ready_quiet [OF Cons.prems(2) t(2)] _ k] rooms_named_names [OF t(4)] Cons.prems(3,5) by auto
  have "closed_conn (conns w' c)" using calm_closed [OF _ s(6)] w'(8) Cons.prems(5) by auto
  moreover have "conn_calm (conns w d) (conns w' d)" if "d \<notin> set (c # cs)" for d
    using that t(1) [of d] w'(8) conn_calm_trans by auto
  moreover have "members w' = (\<lambda>d. if d \<in> set (c # cs) then None else members w d)"
    using w'(4) s(4) by (auto simp: fun_eq_iff)
  moreover have "softquit_loop E (c # cs) w = Inr w'" using s(1,2) w'(1) by simp
  ultimately show ?case using w' s(7) t(3) by (intro exI [of _ w']) simp
qed simp

lemma foldl_remove_all: "foldl (\<lambda>z pt. remove1 pt z) zs zs = []"
  by (induction zs) simp_all

lemma zombies_gone: "chat_zombie_on_softquit w = (0, w\<lparr>zombie_list := []\<rparr>)"
proof -
  have "foldl (\<lambda>w pt. w\<lparr>zombie_list := remove1 pt (zombie_list w)\<rparr>) w ps = w\<lparr>zombie_list := foldl (\<lambda>z pt. remove1 pt z) (zombie_list w) ps\<rparr>" for ps
    by (induction ps arbitrary: w) simp_all
  then show ?thesis by (simp add: chat_zombie_on_softquit_def foldl_remove_all)
qed

text \<open>Where all connections are closed, the loop of the stop finds nothing to do.\<close>

lemma close_loop_idle:
  assumes "rooms_ok w" and "\<forall>c \<in> set cs. members w c = None \<and> closed_conn (conns w c)"
  shows "close_loop E cs w = Inr w"
  using assms(2)
proof (induction cs)
  case (Cons c cs)
  have c: "members w c = None" "quited_at (conns w c) \<noteq> 0" "has (cstate (conns w c)) CHAT_QUIT \<or> has (cstate (conns w c)) CHAT_SOFT_QUIT"
    "bubble_up (strm (conns w c)) = None" "strm_fd (strm (conns w c)) = INVALID_FD"
    using Cons.prems by (simp_all add: closed_conn_def)
  have "default_chat_close E c w = Inr (0, w)"
    by (rule close_again [OF assms(1) c(1-3) _ c(4,5)]) (use Cons.prems in \<open>simp add: closed_conn_def\<close>)
  then show ?case using Cons by simp
qed simp

lemma no_rooms_ok: "rooms_ok w \<Longrightarrow> members w = (\<lambda>_. None) \<Longrightarrow> rooms_ok (w\<lparr>room_factory := []\<rparr>)"
  by (simp add: rooms_ok_def members_def fun_eq_iff)

section \<open>Properties\<close>

text \<open>(C19) The two halves of the end of a chat process fit together. From any consistent state, the soft quit takes every
  connection out of its room, logs it off and gives up its descriptor; and then the stop of the chat, with the rooms
  destroyed first, closes nothing a second time, touches no destroyed room, sends nothing and unregisters the cleanup fiber; all three pools are
  empty at the end.\<close>

theorem chat_stops:
  assumes "rooms_ok w" and "ready E w" and "rooms_named w" and "\<forall>c \<in> set (chat_factory w). closable (conns w c)"
    and "distinct (chat_factory w)" and "now E \<noteq> 0"
    and "i < MAX_FIBERS" and "fiber (fibers (chat_fibers s) i) = Some Chat_lazy_cleanup_fiber"
    and "\<forall>j < i. fiber (fibers (chat_fibers s) j) \<noteq> Some Chat_lazy_cleanup_fiber"
  shows "\<exists>w1 b' w2. soft_quit E w = Inr w1 \<and> chat_factory w1 = chat_factory w \<and> members w1 = (\<lambda>_. None) \<and>
    (\<forall>c \<in> set (chat_factory w). closed_conn (conns w1 c)) \<and>
    nginz_chat_module_deinit E T (b\<lparr>statics := s\<lparr>chat_state := w1\<rparr>\<rparr>) = Inr b' \<and> w2 = chat_state (statics b') \<and>
    conns w2 = conns w1 \<and> outside w2 = outside w1 \<and> pipe w2 = pipe w1 \<and>
    chat_factory w2 = [] \<and> room_factory w2 = [] \<and> zombie_list w2 = [] \<and>
    fiber (fibers (chat_fibers (statics b')) i) = None"
proof -
  obtain w0 where w0: "softquit_loop E (chat_factory w) w = Inr w0" "rooms_ok w0" "ready E w0"
    "members w0 = (\<lambda>c. if c \<in> set (chat_factory w) then None else members w c)" "chat_factory w0 = chat_factory w"
    "\<forall>c \<in> set (chat_factory w). closed_conn (conns w0 c)"
    using softquit_all [OF assms(6,1-5)] by blast
  have "members w c = None" if "c \<notin> set (chat_factory w)" for c
  proof (cases "members w c")
    case (Some r)
    then have "c \<in> set (chat_factory w)" using rooms_okD(1,5) [OF assms(1)] by (simp add: members_def) blast
    then show ?thesis using that by simp
  qed simp
  then have m0: "members w0 = (\<lambda>_. None)" using w0(4) by (simp add: fun_eq_iff)
  let ?w1 = "w0\<lparr>zombie_list := [], chat_module_is_quiting := True\<rparr>"
  have sq: "soft_quit E w = Inr ?w1"
    by (simp add: soft_quit_def chat_factory_on_softquit_def w0(1) zombies_gone chat_accept_on_softquit_def)
  let ?v = "?w1\<lparr>room_factory := [], greet_on_login := aroop_txt_destroy (lib E) (greet_on_login w0)\<rparr>"
  obtain b1 where b1: "stop_before_closing E T (b\<lparr>statics := s\<lparr>chat_state := ?w1\<rparr>\<rparr>) = Inr b1"
    "chat_state (statics b1) = ?v" "chat_fibers (statics b1) = chat_fibers s"
    by (cases "is_master (pipe w0)")
      (simp_all add: stop_before_closing_def in_order_def andthen_def chat_accept_module_deinit_def room_module_deinit_def
        room_master_module_deinit_def broadcast_module_deinit_def welcome_module_deinit_def on_statics_def set_state_def)
  have "\<exists>g. chat_lazy_cleanup_fiber E ?v = Inr (0, ?v\<lparr>gear := g\<rparr>)"
    by (cases "gear w0 < 10") (auto simp: chat_lazy_cleanup_fiber_def Let_def)
  then obtain g v where v: "chat_lazy_cleanup_fiber E ?v = Inr (0, v)" "v = ?v\<lparr>gear := g\<rparr>" by blast
  have vk: "rooms_ok v" "conns v = conns w0" "chat_factory v = chat_factory w" "pipe v = pipe w0" "outside v = outside w0" "room_factory v = []"
    "members v = (\<lambda>_. None)" "zombie_list v = []"
    using no_rooms_ok [OF w0(2) m0] m0 w0(5) rooms_ok_cong [of "w0\<lparr>room_factory := []\<rparr>" v] by (simp_all add: v(2) members_def)
  have un: "unregister_fiber (last_cleanup E) (Some Chat_lazy_cleanup_fiber) ?v (chat_fibers s) = Inr (0, v,
      (chat_fibers s)\<lparr>fibers := (fibers (chat_fibers s))(i := (fibers (chat_fibers s) i)\<lparr>status := FIBER_STATUS_EMPTY, fiber := None\<rparr>)\<rparr>)"
    using unregister_loop_first [OF assms(8), of 0 MAX_FIBERS "last_cleanup E" ?v] assms(7,9) v(1)
    by (simp add: unregister_fiber_def last_cleanup_def)
  have "close_loop E (chat_factory v) (v\<lparr>zombie_list := []\<rparr>) = Inr (v\<lparr>zombie_list := []\<rparr>)"
    by (rule close_loop_idle) (use vk w0(6) in \<open>simp_all add: members_def fun_eq_iff\<close>)
  then have cl: "chat_factory_module_deinit E (v\<lparr>zombie_list := []\<rparr>) = Inr (0, v\<lparr>zombie_list := [], chat_factory := []\<rparr>)"
    by (simp add: chat_factory_module_deinit_def)
  let ?s = "(statics b1)\<lparr>chat_state := v\<lparr>zombie_list := [], chat_factory := []\<rparr>, chat_fibers := (chat_fibers s)\<lparr>fibers :=
    (fibers (chat_fibers s))(i := (fibers (chat_fibers s) i)\<lparr>status := FIBER_STATUS_EMPTY, fiber := None\<rparr>)\<rparr>\<rparr>"
  have "nginz_chat_module_deinit E T (b\<lparr>statics := s\<lparr>chat_state := ?w1\<rparr>\<rparr>) = Inr (b1\<lparr>statics := ?s\<rparr>)"
    using b1 un cl
    by (simp add: nginz_chat_module_deinit_def chat_plugin_manager_module_deinit_def chat_factory_module_deinit_full_def
        chat_zombie_module_deinit_def in_order_def andthen_def on_statics_def)
  then show ?thesis
    using sq w0(5,6) m0 vk
    by (intro exI [of _ ?w1] exI [of _ "b1\<lparr>statics := ?s\<rparr>"] exI [of _ "chat_state ?s"]) (simp add: members_def)
qed

definition running_boot :: "((bytes \<times> nat) list, (target \<times> bytes \<times> int) list) chat_boot" where
  "running_boot = sample_boot\<lparr>statics := (statics sample_boot)\<lparr>chat_fibers :=
     \<lparr>fibers = (\<lambda>i. if i = 2 then \<lparr>status = FIBER_STATUS_ACTIVATED, fiber = Some Chat_lazy_cleanup_fiber, filename = ''chat_zombie.c'', lineno = 87\<rparr>
        else \<lparr>status = FIBER_STATUS_EMPTY, fiber = None, filename = [], lineno = 0\<rparr>), internal_quit = False\<rparr>\<rparr>\<rparr>"

lemma chat_stops_witness:
  "\<exists>w1 b'. soft_quit sample_env sample_world = Inr w1 \<and> members sample_world 1 \<noteq> None \<and> members w1 1 = None \<and>
    nginz_chat_module_deinit sample_env ref_table (running_boot\<lparr>statics := (statics running_boot)\<lparr>chat_state := w1\<rparr>\<rparr>) = Inr b' \<and>
    outside (chat_state (statics b')) = outside w1 \<and> chat_factory (chat_state (statics b')) = []"
proof -
  have k: "\<forall>c \<in> set (chat_factory sample_world). closable (conns sample_world c)" "distinct (chat_factory sample_world)" "now sample_env \<noteq> 0"
    by (simp_all add: sample_world_def sample_conn_def closable_def sample_env_def streamio_initialize_def)
  have f: "2 < MAX_FIBERS" "fiber (fibers (chat_fibers (statics running_boot)) 2) = Some Chat_lazy_cleanup_fiber"
    "\<forall>j < 2. fiber (fibers (chat_fibers (statics running_boot)) j) \<noteq> Some Chat_lazy_cleanup_fiber"
    by (simp_all add: running_boot_def MAX_FIBERS_def)
  have n: "rooms_named sample_world" unfolding rooms_named_def by (rule sample_rooms(2))
  have "members sample_world 1 \<noteq> None" by (simp add: members_def sample_world_def sample_conn_def)
  then show ?thesis
    using chat_stops [where T = ref_table and b = running_boot, OF sample_rooms(1) sample_ready(1) n k f] by auto
qed

text \<open>Without the soft quit, as after the interrupt signal, a connection that is still in a room points to a room that
  is not there any more when the loop of the stop comes to it.\<close>

lemma stop_frees_rooms_first:
  assumes "callback_data (conns (chat_state (statics b)) c) = Some rm" and "stop_before_closing E T b = Inr b1"
  shows "callback_data (conns (chat_state (statics b1)) c) = Some rm \<and> room_factory (chat_state (statics b1)) = [] \<and>
    chat_factory (chat_state (statics b1)) = chat_factory (chat_state (statics b))"
  using assms
  by (auto simp: stop_before_closing_def in_order_def andthen_def chat_accept_module_deinit_def room_module_deinit_def
        room_master_module_deinit_def broadcast_module_deinit_def welcome_module_deinit_def on_statics_def set_state_def split: if_splits)

text \<open>The port of the chat keeps its stack, because the deinit function names the port of the HTTP server.\<close>

lemma stop_keeps_chat_port:
  assumes "stop_before_closing E T b = Inr b1"
  shows "chat_ports (statics b1) = snd (protostack_set NGINZ_HTTP_PORT None (chat_ports (statics b)))"
  using assms
  by (auto simp: stop_before_closing_def in_order_def andthen_def chat_accept_module_deinit_def room_module_deinit_def
        room_master_module_deinit_def broadcast_module_deinit_def welcome_module_deinit_def on_statics_def set_state_def split: if_splits)

end
