(* ===== verification/HttpStop.thy ===== *)
theory HttpStop
  imports HttpModules
begin

text \<open>
  Stopping the web chat and the HTTP server: the deinit functions under \<open>apps/web_chat/src\<close> and \<open>apps/http/src\<close>. Unplugging
  does nothing in \<open>plugin.c\<close>, so the functions that only unplug are not written out. Destroying a pool frees its
  objects, which is the empty list here. The container of pages is dropped at the end and nothing looks at it later, so the
  field for it is left alone; the static text \<open>HTTP_OK\<close> is a constant here.
\<close>

section \<open>Code\<close>

text \<open>\<open>unregister_fiber\<close> calls the fiber once more, with a status that \<open>web_session_cleanup_fiber\<close> does not look at.\<close>

definition last_session_cleanup :: "'c web_env \<Rightarrow> (web_fiber, 'c web_world) fiber_runner" where
  "last_session_cleanup E f st w fs = (case web_session_cleanup_fiber E w of (r, w') \<Rightarrow> Inr (r, w', fs))"

definition web_session_factory_module_deinit :: "('h, 'c) web_init" where
  "web_session_factory_module_deinit E T = in_order [
     on_statics (\<lambda>s. ebind (unregister_fiber (last_session_cleanup E) (Some Web_session_cleanup_fiber) (web_side s) (web_fibers s)) (\<lambda>(_, w, fs).
       Inr (s\<lparr>web_side := w, web_fibers := fs\<rparr>))),
     on_statics (set_web (\<lambda>w. snd (web_session_factory_on_softquit E w))),
     on_statics (set_web (upd_web (web_session_factory_update (\<lambda>_. []))))]"

definition web_chat_module_deinit :: "('h, 'c) web_init" where
  "web_chat_module_deinit E T = web_session_factory_module_deinit E T"

definition http_tunnel_module_deinit :: "('h, 'c) web_init" where
  "http_tunnel_module_deinit E T = on_statics (set_web (send_buf_update (aroop_txt_destroy (web_lib E))))"

definition http_plugin_manager_module_deinit :: "('h, 'c) web_init" where
  "http_plugin_manager_module_deinit E T = http_tunnel_module_deinit E T"

definition http_parser_module_deinit :: "('h, 'c) web_init" where
  "http_parser_module_deinit E T = on_statics (\<lambda>s. Inr (s\<lparr>http_recv_buffer := aroop_txt_destroy (web_lib E) (http_recv_buffer s)\<rparr>))"

definition http_accept_module_deinit :: "('h, 'c) web_init" where
  "http_accept_module_deinit E T = on_statics (\<lambda>s. Inr (s\<lparr>http_ports := snd (protostack_set NGINZ_HTTP_PORT None (http_ports s)),
     http_lb := load_balancer_destroy (web_getpid E)\<rparr>))"

definition http_factory_module_deinit_full :: "('h, 'c) web_init" where
  "http_factory_module_deinit_full E T = on_statics (set_web (\<lambda>w. (snd (http_factory_module_deinit (web_http E) w))\<lparr>http_factory := []\<rparr>))"

definition nginz_http_module_deinit :: "('h, 'c) web_init" where
  "nginz_http_module_deinit E T = in_order [http_plugin_manager_module_deinit E T, http_parser_module_deinit E T,
     http_accept_module_deinit E T, http_factory_module_deinit_full E T]"

section \<open>Closing all sessions and all connections\<close>

lemma closed_session_twice: "closed_session E (closed_session E x) = closed_session E x"
  by (simp add: closed_session_def)

lemma close_loop_effect:
  assumes "web_closes E un cl"
  shows "distinct ss \<Longrightarrow> \<forall>s \<in> set ss. bubble_up (ws_strm (session s w)) = None \<Longrightarrow>
    chat_side (http_outside (session_close_loop E ss w)) =
      fold (close_fd un cl) (map (\<lambda>s. strm_fd (ws_strm (session s w))) ss) (chat_side (http_outside w)) \<and>
    (\<forall>s. session s (session_close_loop E ss w) = (if s \<in> set ss then closed_session E (session s w) else session s w)) \<and>
    https (session_close_loop E ss w) = https w \<and> http_factory (session_close_loop E ss w) = http_factory w"
proof (induction ss arbitrary: w)
  case (Cons a ss)
  let ?w1 = "snd (web_session_close_wrapper E a w)"
  have a: "bubble_up (ws_strm (session a w)) = None" using Cons.prems(2) by simp
  note c = close_detached [OF assms a]
  have pt: "session s ?w1 = (if s = a then closed_session E (session a w) else session s w)" for s
    by (simp add: c)
  have eq: "\<forall>s \<in> set ss. session s ?w1 = session s w" using Cons.prems(1) by (auto simp: pt)
  have m: "map (\<lambda>s. strm_fd (ws_strm (session s ?w1))) ss = map (\<lambda>s. strm_fd (ws_strm (session s w))) ss"
    using eq by (auto cong: map_cong)
  have d: "distinct ss" "\<forall>s \<in> set ss. bubble_up (ws_strm (session s ?w1)) = None" using Cons.prems eq by simp_all
  have e: "chat_side (http_outside ?w1) = close_fd un cl (strm_fd (ws_strm (session a w))) (chat_side (http_outside w))"
    "https ?w1 = https w" "http_factory ?w1 = http_factory w"
    by (simp_all add: c upd_session_def upd_web_def)
  show ?case using Cons.IH [OF d, unfolded m] Cons.prems(1) by (auto simp: pt e)
qed simp

text \<open>What closing a connection of the HTTP server does outside of it.\<close>

definition close_http_fd :: "(int \<Rightarrow> 'c \<Rightarrow> 'c) \<Rightarrow> (int \<Rightarrow> 'c \<Rightarrow> 'c) \<Rightarrow> http_connection \<Rightarrow> 'c \<Rightarrow> 'c" where
  "close_http_fd un cl x o1 =
     (let f = strm_fd (http_strm x)
      in if f = INVALID_FD then o1 else if has (http_state x) HTTP_SOFT_QUIT then un f o1 else cl f (un f o1))"

lemma http_close_detached:
  assumes "web_closes E un cl" and "bubble_up (http_strm (https w c)) = None"
  shows "snd (default_http_close (web_http E) c w) = upd_http c (http_strm_update (strm_fd_update (\<lambda>_. INVALID_FD)))
    (upd_web (\<lambda>o1. o1\<lparr>chat_side := close_http_fd un cl (https w c) (chat_side o1)\<rparr>) w)"
proof (cases "strm_fd (http_strm (https w c)) = INVALID_FD")
  case True
  have "http_strm_update (strm_fd_update (\<lambda>_. INVALID_FD)) x = x" if "strm_fd (http_strm x) = INVALID_FD" for x :: http_connection
    using that by (cases x, cases "http_strm x") simp
  note u = this [OF True]
  show ?thesis using assms(2) True
    by (simp add: default_http_close_def upd_http_def upd_web_def close_http_fd_def u)
next
  case False
  then show ?thesis
    using assms by (simp add: default_http_close_def web_closes_def upd_http_def upd_web_def close_http_fd_def Let_def INVALID_FD_def)
qed

lemma http_close_loop_effect:
  assumes "web_closes E un cl"
  shows "distinct cs \<Longrightarrow> \<forall>c \<in> set cs. bubble_up (http_strm (https w c)) = None \<Longrightarrow>
    (let w' = http_close_loop (web_http E) cs w in
      chat_side (http_outside w') = fold (close_http_fd un cl) (map (https w) cs) (chat_side (http_outside w)) \<and>
      (\<forall>c \<in> set cs. strm_fd (http_strm (https w' c)) = INVALID_FD) \<and>
      (\<forall>c. c \<notin> set cs \<longrightarrow> https w' c = https w c) \<and>
      web_session_factory (http_outside w') = web_session_factory (http_outside w) \<and> sessions (http_outside w') = sessions (http_outside w))"
proof (induction cs arbitrary: w)
  case (Cons a cs)
  let ?w1 = "snd (default_http_close (web_http E) a w)"
  have a: "bubble_up (http_strm (https w a)) = None" using Cons.prems(2) by simp
  note c = http_close_detached [OF assms a]
  have pt: "https ?w1 d = (if d = a then http_strm_update (strm_fd_update (\<lambda>_. INVALID_FD)) (https w a) else https w d)" for d
    by (simp add: c upd_http_def upd_web_def)
  have eq: "\<forall>d \<in> set cs. https ?w1 d = https w d" using Cons.prems(1) by (auto simp: pt)
  have m: "map (https ?w1) cs = map (https w) cs" using eq by (auto cong: map_cong)
  have d: "distinct cs" "\<forall>d \<in> set cs. bubble_up (http_strm (https ?w1 d)) = None" using Cons.prems eq by simp_all
  have e: "chat_side (http_outside ?w1) = close_http_fd un cl (https w a) (chat_side (http_outside w))"
    "web_session_factory (http_outside ?w1) = web_session_factory (http_outside w)" "sessions (http_outside ?w1) = sessions (http_outside w)"
    by (simp_all add: c upd_http_def upd_web_def)
  have "strm_fd (http_strm (https (http_close_loop (web_http E) cs ?w1) a)) = INVALID_FD"
    using Cons.IH [OF d] Cons.prems(1) pt [of a] by (simp add: Let_def)
  then show ?case using Cons.IH [OF d, unfolded m] Cons.prems(1) by (auto simp: Let_def pt e)
qed simp

lemma close_fd_fold:
  "(\<And>s. g s = (if P s then INVALID_FD else h s)) \<Longrightarrow> fold (close_fd un cl) (map g ss) x = fold (close_fd un cl) (map h (filter (\<lambda>s. \<not> P s) ss)) x"
  by (induction ss arbitrary: x) (auto simp: close_fd_def)

text \<open>The last run of the cleanup and the soft quit together close every session once, the old ones first if it is their time.\<close>

lemma sessions_stop:
  assumes "web_closes E un cl" and "distinct (web_session_factory (http_outside w))"
    and "\<forall>s \<in> set (web_session_factory (http_outside w)). bubble_up (ws_strm (session s w)) = None"
  shows "\<exists>order w1. mset order = mset (web_session_factory (http_outside w)) \<and> web_session_cleanup_fiber E w = (0, w1) \<and>
    (let w2 = snd (web_session_factory_on_softquit E w1) in
      chat_side (http_outside w2) = fold (close_fd un cl) (map (\<lambda>s. strm_fd (ws_strm (session s w))) order) (chat_side (http_outside w)) \<and>
      https w2 = https w \<and> http_factory w2 = http_factory w \<and>
      (\<forall>s \<in> set (web_session_factory (http_outside w)). session s w2 = closed_session E (session s w)))"
proof -
  let ?ss = "web_session_factory (http_outside w)"
  let ?old = "\<lambda>s. session_gear (http_outside w) = 1000 \<and> 120 \<le> web_time E - last_activity (session s w)"
  let ?fd = "\<lambda>s. strm_fd (ws_strm (session s w))"
  obtain w1 where w1: "web_session_cleanup_fiber E w = (0, w1)" "web_session_factory (http_outside w1) = ?ss" "https w1 = https w"
    "http_factory w1 = http_factory w"
    "chat_side (http_outside w1) = fold (close_fd un cl) (map ?fd (filter ?old ?ss)) (chat_side (http_outside w))"
    "\<And>s. session s w1 = (if s \<in> set ?ss \<and> ?old s then closed_session E (session s w) else session s w)"
  proof (cases "session_gear (http_outside w) = 1000")
    case False
    have "web_session_cleanup_fiber E w = (0, upd_web (session_gear_update Suc) w)" using False by (simp add: web_session_cleanup_fiber_def)
    then show thesis using False by (intro that [of "upd_web (session_gear_update Suc) w"]) (simp_all add: upd_web_def session_def)
  next
    case True
    let ?w0 = "upd_web (session_gear_update (\<lambda>_. 0)) w"
    let ?w' = "session_sweep_loop E (web_time E) ?ss ?w0"
    have s0: "session s ?w0 = session s w" "chat_side (http_outside ?w0) = chat_side (http_outside w)" for s
      by (simp_all add: session_def upd_web_def)
    have fr: "web_session_factory (http_outside (session_sweep_loop E t ss v)) = web_session_factory (http_outside v) \<and>
        https (session_sweep_loop E t ss v) = https v \<and> http_factory (session_sweep_loop E t ss v) = http_factory v"
      if "\<forall>s \<in> set ss. bubble_up (ws_strm (session s v)) = None" "distinct ss" for t ss v
      using that
    proof (induction ss arbitrary: v)
      case (Cons a ss)
      note c = close_detached [OF assms(1), of a v]
      have "session s (snd (web_session_close_wrapper E a v)) = session s v" if "s \<noteq> a" for s using that Cons.prems by (simp add: c)
      then have "\<forall>s \<in> set ss. bubble_up (ws_strm (session s (snd (web_session_close_wrapper E a v)))) = None"
        using Cons.prems by (metis distinct.simps(2) list.set_intros(2))
      then show ?case using Cons.IH [of "snd (web_session_close_wrapper E a v)"] Cons.IH [of v] Cons.prems c
        by (simp add: upd_session_def upd_web_def)
    qed simp
    have b0: "\<forall>s \<in> set ?ss. bubble_up (ws_strm (session s ?w0)) = None" using assms(3) by (simp add: s0)
    have e: "web_session_cleanup_fiber E w = (0, upd_web (session_gear_update Suc) ?w')" using True by (simp add: web_session_cleanup_fiber_def)
    have s1: "session s (upd_web (session_gear_update Suc) v) = session s v"
      "chat_side (http_outside (upd_web (session_gear_update Suc) v)) = chat_side (http_outside v)"
      "web_session_factory (http_outside (upd_web (session_gear_update Suc) v)) = web_session_factory (http_outside v)"
      "http_factory (upd_web (session_gear_update Suc) v) = http_factory v" for s and v :: "'a web_world"
      by (simp_all add: session_def upd_web_def)
    have f0: "web_session_factory (http_outside ?w0) = ?ss" "https ?w0 = https w" "http_factory ?w0 = http_factory w" by (simp_all add: upd_web_def)
    show thesis
      using sweep_loop_effect [OF assms(1,2) b0, of "web_time E", unfolded Let_def s0] fr [OF b0 assms(2), of "web_time E", unfolded f0] True
      by (intro that [OF e]) (simp_all add: s1)
  qed
  have b1: "\<forall>s \<in> set ?ss. bubble_up (ws_strm (session s w1)) = None" using assms(3) by (simp add: w1(6) closed_session_def)
  note L = close_loop_effect [OF assms(1,2) b1]
  have g: "strm_fd (ws_strm (session s w1)) = (if s \<in> set ?ss \<and> ?old s then INVALID_FD else ?fd s)" for s
    by (simp add: w1(6) closed_session_def)
  let ?order = "filter ?old ?ss @ filter (\<lambda>s. \<not> (s \<in> set ?ss \<and> ?old s)) ?ss"
  have "filter (\<lambda>s. \<not> (s \<in> set ?ss \<and> ?old s)) ?ss = filter (\<lambda>s. \<not> ?old s) ?ss" by (rule filter_cong) simp_all
  then have o: "mset ?order = mset ?ss" by (simp only: mset_append mset_filter multiset_partition [symmetric])
  have c: "chat_side (http_outside (session_close_loop E ?ss w1)) = fold (close_fd un cl) (map ?fd ?order) (chat_side (http_outside w))"
    unfolding conjunct1 [OF L] close_fd_fold [OF g] w1(5) by simp
  have s: "\<forall>s \<in> set ?ss. session s (session_close_loop E ?ss w1) = closed_session E (session s w)"
    using L by (simp add: w1(6) closed_session_twice)
  show ?thesis
    using o c s w1(1-4) L by (intro exI [of _ ?order] exI [of _ w1]) (simp add: web_session_factory_on_softquit_def)
qed

section \<open>Properties\<close>

text \<open>(C20) The end of a web chat: when no session is attached to a connection, the stop of the web chat and of the HTTP server closes
  every session once, in some order, and then every connection once; the pools are empty, the fiber of the cleanup is
  unregistered and both buffers are freed. A connection that was given to another process is only taken out of the event
  loop.\<close>

theorem web_stops:
  assumes "aroop_ok (web_lib E)" and "web_closes E un cl" and "w = web_side (statics b)"
    and "distinct (web_session_factory (http_outside w))" and "distinct (http_factory w)"
    and "\<forall>s \<in> set (web_session_factory (http_outside w)). bubble_up (ws_strm (session s w)) = None"
    and "\<forall>c \<in> set (http_factory w). bubble_up (http_strm (https w c)) = None"
    and "i < MAX_FIBERS" and "fiber (fibers (web_fibers (statics b)) i) = Some Web_session_cleanup_fiber"
    and "\<forall>j < i. fiber (fibers (web_fibers (statics b)) j) \<noteq> Some Web_session_cleanup_fiber"
  shows "\<exists>order b1 b2 w2. mset order = mset (web_session_factory (http_outside w)) \<and>
    web_chat_module_deinit E T b = Inr b1 \<and> nginz_http_module_deinit E T b1 = Inr b2 \<and> w2 = web_side (statics b2) \<and>
    chat_side (http_outside w2) = fold (close_http_fd un cl) (map (https w) (http_factory w))
      (fold (close_fd un cl) (map (\<lambda>s. strm_fd (ws_strm (session s w))) order) (chat_side (http_outside w))) \<and>
    http_factory w2 = [] \<and> web_session_factory (http_outside w2) = [] \<and>
    (\<forall>s \<in> set (web_session_factory (http_outside w)). session s w2 = closed_session E (session s w)) \<and>
    (\<forall>c \<in> set (http_factory w). strm_fd (http_strm (https w2 c)) = INVALID_FD) \<and>
    fiber (fibers (web_fibers (statics b2)) i) = None \<and> http_recv_buffer (statics b2) = zero_txt \<and> send_buf w2 = zero_txt"
proof -
  let ?s = "statics b" and ?fs = "web_fibers (statics b)"
  obtain order w1 where o: "mset order = mset (web_session_factory (http_outside w))" "web_session_cleanup_fiber E w = (0, w1)"
    and q: "chat_side (http_outside (snd (web_session_factory_on_softquit E w1))) =
        fold (close_fd un cl) (map (\<lambda>s. strm_fd (ws_strm (session s w))) order) (chat_side (http_outside w))"
      "https (snd (web_session_factory_on_softquit E w1)) = https w" "http_factory (snd (web_session_factory_on_softquit E w1)) = http_factory w"
      "\<forall>s \<in> set (web_session_factory (http_outside w)). session s (snd (web_session_factory_on_softquit E w1)) = closed_session E (session s w)"
    using sessions_stop [OF assms(2,4,6)] unfolding Let_def by blast
  let ?fs' = "?fs\<lparr>fibers := (fibers ?fs)(i := (fibers ?fs i)\<lparr>status := FIBER_STATUS_EMPTY, fiber := None\<rparr>)\<rparr>"
  have un: "unregister_fiber (last_session_cleanup E) (Some Web_session_cleanup_fiber) (web_side ?s) ?fs = Inr (0, w1, ?fs')"
    using unregister_loop_first [OF assms(9), of 0 MAX_FIBERS "last_session_cleanup E" w] assms(8,10) o(2)
    by (simp add: unregister_fiber_def last_session_cleanup_def assms(3) [symmetric])
  define w2 where "w2 = upd_web (web_session_factory_update (\<lambda>_. [])) (snd (web_session_factory_on_softquit E w1))"
  let ?s1 = "?s\<lparr>web_side := w2, web_fibers := ?fs'\<rparr>"
  have s1: "web_chat_module_deinit E T b = Inr (b\<lparr>statics := ?s1\<rparr>)"
    by (simp add: web_chat_module_deinit_def web_session_factory_module_deinit_def in_order_def andthen_def on_statics_def set_web_def un w2_def)
  have v2: "chat_side (http_outside w2) = fold (close_fd un cl) (map (\<lambda>s. strm_fd (ws_strm (session s w))) order) (chat_side (http_outside w))"
    "https w2 = https w" "http_factory w2 = http_factory w" "web_session_factory (http_outside w2) = []"
    "\<forall>s \<in> set (web_session_factory (http_outside w)). session s w2 = closed_session E (session s w)"
    using q by (simp_all add: w2_def upd_web_def session_def)
  define w3 where "w3 = w2\<lparr>send_buf := aroop_txt_destroy (web_lib E) (send_buf w2)\<rparr>"
  have v3: "https w3 = https w" "http_factory w3 = http_factory w" "http_outside w3 = http_outside w2" "send_buf w3 = zero_txt"
    using assms(1) by (simp_all add: w3_def v2 aroop_ok_def create_laws_def)
  have b3: "\<forall>c \<in> set (http_factory w). bubble_up (http_strm (https w3 c)) = None" using assms(7) by (simp add: v3)
  have w3': "send_buf_update (aroop_txt_destroy (web_lib E)) w2 = w3" "http_factory w2 = http_factory w" by (simp_all add: w3_def v2)
  let ?w4 = "http_close_loop (web_http E) (http_factory w) w3"
  note L = http_close_loop_effect [OF assms(2,5) b3, unfolded Let_def v3]
  have sb: "send_buf (http_close_loop (web_http E) cs v) = send_buf v" if "distinct cs" "\<forall>c \<in> set cs. bubble_up (http_strm (https v c)) = None" for cs v
    using that
  proof (induction cs arbitrary: v)
    case (Cons a cs)
    note c = http_close_detached [OF assms(2), of v a]
    have "https (snd (default_http_close (web_http E) a v)) d = https v d" if "d \<noteq> a" for d
      using that Cons.prems c by (simp add: upd_http_def upd_web_def)
    then have "\<forall>d \<in> set cs. bubble_up (http_strm (https (snd (default_http_close (web_http E) a v)) d)) = None"
      using Cons.prems by (metis distinct.simps(2) list.set_intros(2))
    then show ?case using Cons.IH [of "snd (default_http_close (web_http E) a v)"] Cons.prems c by (simp add: upd_http_def upd_web_def)
  qed simp
  let ?s2 = "?s1\<lparr>web_side := ?w4\<lparr>http_factory := []\<rparr>, http_recv_buffer := aroop_txt_destroy (web_lib E) (http_recv_buffer ?s),
    http_ports := snd (protostack_set NGINZ_HTTP_PORT None (http_ports ?s)), http_lb := load_balancer_destroy (web_getpid E)\<rparr>"
  have s2: "nginz_http_module_deinit E T (b\<lparr>statics := ?s1\<rparr>) = Inr (b\<lparr>statics := ?s2\<rparr>)"
    by (simp add: nginz_http_module_deinit_def http_plugin_manager_module_deinit_def http_tunnel_module_deinit_def http_parser_module_deinit_def
        http_accept_module_deinit_def http_factory_module_deinit_full_def http_factory_module_deinit_def in_order_def andthen_def on_statics_def
        set_web_def w3' v3(2))
  have "aroop_txt_destroy (web_lib E) t = zero_txt" for t using assms(1) by (simp add: aroop_ok_def create_laws_def)
  moreover have "session s (?w4\<lparr>http_factory := []\<rparr>) = session s w2" for s using L by (simp add: session_def)
  ultimately show ?thesis
    using o(1) s1 s2 v2 L sb [OF assms(5) b3] v3(4)
    by (intro exI [of _ order] exI [of _ "b\<lparr>statics := ?s1\<rparr>"] exI [of _ "b\<lparr>statics := ?s2\<rparr>"] exI [of _ "?w4\<lparr>http_factory := []\<rparr>"]) simp
qed

lemma web_stops_witness:
  "\<exists>b0 b1 b2. fiber (fibers (web_fibers (statics b0)) 0) = Some Web_session_cleanup_fiber \<and> web_side (statics b0) = sample_web \<and>
    web_chat_module_deinit sample_web_env ref_table b0 = Inr b1 \<and> nginz_http_module_deinit sample_web_env ref_table b1 = Inr b2 \<and>
    chat_side (http_outside (web_side (statics b2))) = [(25, [], -1), (30, [], -1)] \<and> http_factory (web_side (statics b2)) = [] \<and>
    fiber (fibers (web_fibers (statics b2)) 0) = None"
proof -
  let ?un = "\<lambda>(f :: int) (c :: (int \<times> bytes \<times> int) list). c" and ?cl = "\<lambda>f c. c @ [(f, [], -1)]"
  define s where "s = statics sample_web_boot"
  define b0 where "b0 = sample_web_boot\<lparr>statics := s\<lparr>web_fibers := (web_fibers s)\<lparr>fibers := (fibers (web_fibers s))
    (0 := \<lparr>status = FIBER_STATUS_CREATED, fiber = Some Web_session_cleanup_fiber, filename = [], lineno = 0\<rparr>)\<rparr>\<rparr>\<rparr>"
  have b0: "web_side (statics b0) = sample_web" "fiber (fibers (web_fibers (statics b0)) 0) = Some Web_session_cleanup_fiber"
    by (simp_all add: b0_def s_def sample_web_boot_def)
  have w: "web_session_factory (http_outside sample_web) = [5]" "http_factory sample_web = [0]" "chat_side (http_outside sample_web) = []"
    "strm_fd (ws_strm (session 5 sample_web)) = 25" "strm_fd (http_strm (https sample_web 0)) = 30" "bubble_up (http_strm (https sample_web 0)) = None"
    "has (http_state (https sample_web 0)) HTTP_SOFT_QUIT = False"
    by (simp_all add: sample_web_def session_def streamio_initialize_def has_def HTTP_CONNECTED_def)
  have c: "web_closes sample_web_env ?un ?cl" by (simp add: web_closes_def sample_web_env_def)
  have "(0 :: nat) < MAX_FIBERS" by (simp add: MAX_FIBERS_def)
  with web_stops [where E = sample_web_env and T = ref_table and i = 0, OF _ c b0(1) [symmetric]] b0 w
  obtain order b1 b2 where "mset order = {#5#}" "web_chat_module_deinit sample_web_env ref_table b0 = Inr b1"
    "nginz_http_module_deinit sample_web_env ref_table b1 = Inr b2"
    "chat_side (http_outside (web_side (statics b2))) = fold (close_http_fd ?un ?cl) [https sample_web 0]
      (fold (close_fd ?un ?cl) (map (\<lambda>s. strm_fd (ws_strm (session s sample_web))) order) [])"
    "http_factory (web_side (statics b2)) = []" "fiber (fibers (web_fibers (statics b2)) 0) = None"
    by auto
  moreover from \<open>mset order = {#5#}\<close> have "order = [5]" by (cases order) auto
  ultimately show ?thesis
    using b0 w by (intro exI [of _ b0] exI [of _ b1] exI [of _ b2]) (simp add: close_fd_def close_http_fd_def INVALID_FD_def)
qed

end
