(* ===== verification/Serving.thy ===== *)
theory Serving
  imports ChatStop Boot TcpListener AsyncDb
begin

text \<open>
  The chat server around its main loop: what each process does in \<open>nginz_main\<close> of \<open>apps/chat/src/main.c\<close> between the forks and
  \<open>fiber_module_run\<close>, and after it. The master starts the control shell, the listener and the database and stops them
  again; a worker does neither. \<open>shake.c\<close> and \<open>tcp_listener.c\<close> share the event loop of the process, which is kept in the
  field \<open>listen_loop\<close> and lent to the shell. Destroying a text empties it; a destroyed container stays as it is.
\<close>

section \<open>Code\<close>

record ('h, 'w, 'c, 'd, 'g) server =
  booted :: "('h, 'w) chat_boot"
  tcp :: "('c, 'd) listener"
  ctl :: "('c, 'd) shell"
  db_table :: "'g option"

text \<open>The results of the system calls, the two callbacks, and the data they are registered with.\<close>

record ('c, 'd) platform =
  shell_calls :: shell_sys
  net_calls :: net_sys
  shake_cb :: 'c
  connection_cb :: 'c
  null_data :: 'd
  stack_data :: "chat_stack option \<Rightarrow> 'd"

type_synonym ('h, 'w, 'c, 'd, 'g) serve = "('h, 'w, 'c, 'd, 'g) server \<Rightarrow> ('h, 'w, 'c, 'd, 'g) server exec"

definition at_master :: "('h, 'w, 'c, 'd, 'g) server \<Rightarrow> bool" where
  "at_master v = is_master (pipe (chat_state (statics (booted v))))"

definition plug_served :: "'w chat_env \<Rightarrow> ('h, nat) table_api \<Rightarrow> string \<Rightarrow> core_plug \<Rightarrow> ('h, 'w, 'c, 'd, 'g) serve" where
  "plug_served E T space f v = ebind (plug_at_core E T space f (booted v)) (\<lambda>b. Inr (v\<lparr>booted := b\<rparr>))"

definition serve_shell :: "'w chat_env \<Rightarrow> ('h, nat) table_api \<Rightarrow> ('c, 'd) platform \<Rightarrow> ('h, 'w, 'c, 'd, 'g) serve" where
  "serve_shell E T P v =
     ebind (shake_module_init (lib E) T (shell_calls P) (at_master v) (shake_cb P) (null_data P) (core_container (booted v))
              ((ctl v)\<lparr>shell_loop := listen_loop (tcp v)\<rparr>)) (\<lambda>(c, sh).
     Inr (v\<lparr>booted := (booted v)\<lparr>core_container := c\<rparr>, ctl := sh, tcp := (tcp v)\<lparr>listen_loop := shell_loop sh\<rparr>\<rparr>))"

definition serve_master_init ::
    "'w chat_env \<Rightarrow> ('h, nat) table_api \<Rightarrow> (core_plug, ('h, 'w, 'c, 'd, 'g) server) callback_runner \<Rightarrow> ('h, 'w, 'c, 'd, 'g) serve" where
  "serve_master_init E T R v =
     ebind (master_init (lib E) T R (Some (core_container (booted v))) v) (\<lambda>(_, v'). Inr v')"

text \<open>\<open>tcp_listener_init\<close> with the two plugins it plugs.\<close>

definition serve_tcp :: "'w chat_env \<Rightarrow> ('h, nat) table_api \<Rightarrow> ('c, 'd) platform \<Rightarrow> ('h, 'w, 'c, 'd, 'g) serve" where
  "serve_tcp E T P v =
     (if \<not> at_master v then Inr v
      else ebind (tcp_listener_init (lib E) (net_calls P) True (chat_ports (statics (booted v))) (connection_cb P) (stack_data P) (tcp v)) (\<lambda>(_, l).
        in_order [plug_served E T ''fork/child/after'' Tcp_listener_stop, plug_served E T ''shake/softquitall'' Tcp_listener_stop]
          (v\<lparr>tcp := l\<rparr>)))"

definition nginz_net_init_after_parallel_init :: "'w chat_env \<Rightarrow> ('h, nat) table_api \<Rightarrow> ('c, 'd) platform \<Rightarrow> ('h, 'w, 'c, 'd, 'g) serve" where
  "nginz_net_init_after_parallel_init E T P v = (if \<not> at_master v then Inr v else serve_tcp E T P v)"

text \<open>\<open>async_db_master_init\<close> with the plugins it plugs.\<close>

definition serve_db :: "'w chat_env \<Rightarrow> ('h, nat) table_api \<Rightarrow> ('g, aroop_txt_t) table_api \<Rightarrow> ('h, 'w, 'c, 'd, 'g) serve" where
  "serve_db E T G v =
     ebind (aroop_assert (lib E) (at_master v)) (\<lambda>_.
       in_order [plug_served E T ''asyncdb/cas/request'' Async_db_CAS_hook, plug_served E T ''asyncdb/sin/request'' Async_db_set_if_null_hook,
         plug_served E T ''asyncdb/unset/request'' Async_db_unset_hook, plug_served E T ''asyncdb/get/request'' Async_db_get_hook,
         plug_served E T ''shake/dbdump'' Async_db_dump_hook]
         (v\<lparr>db_table := Some (opp_hash_table_create G)\<rparr>))"

definition nginz_db_module_init_after_parallel_init ::
    "'w chat_env \<Rightarrow> ('h, nat) table_api \<Rightarrow> ('g, aroop_txt_t) table_api \<Rightarrow> ('h, 'w, 'c, 'd, 'g) serve" where
  "nginz_db_module_init_after_parallel_init E T G v = (if at_master v then serve_db E T G v else Inr v)"

text \<open>The end of \<open>nginz_parallel_init\<close>, after the forks, and the two calls that follow it in \<open>nginz_main\<close>.\<close>

definition nginz_main_after_fork ::
    "'w chat_env \<Rightarrow> ('h, nat) table_api \<Rightarrow> ('g, aroop_txt_t) table_api \<Rightarrow> ('c, 'd) platform \<Rightarrow>
     (core_plug, ('h, 'w, 'c, 'd, 'g) server) callback_runner \<Rightarrow> ('h, 'w, 'c, 'd, 'g) serve" where
  "nginz_main_after_fork E T G P R = in_order [serve_shell E T P, serve_master_init E T R,
     nginz_net_init_after_parallel_init E T P, nginz_db_module_init_after_parallel_init E T G]"

text \<open>\<open>nginz_parallel_init\<close>, as the parent goes through it: what the forks return is not looked at. \<open>n\<close> is the count of
  \<open>room_master.c\<close>; the list holds the children at their forks, each of which goes on with \<open>serve_shell\<close> and \<open>serve_master_init\<close>.\<close>

definition with_world :: "'w chat_world \<Rightarrow> ('h, 'w, 'c, 'd, 'g) server \<Rightarrow> ('h, 'w, 'c, 'd, 'g) server" where
  "with_world w v = v\<lparr>booted := (booted v)\<lparr>statics := (statics (booted v))\<lparr>chat_state := w\<rparr>\<rparr>\<rparr>"

definition nginz_parallel_init ::
    "'w chat_env \<Rightarrow> ('h, nat) table_api \<Rightarrow> ('c, 'd) platform \<Rightarrow> (core_plug, ('h, 'w, 'c, 'd, 'g) server) callback_runner \<Rightarrow>
     32 word option list \<Rightarrow> nat \<Rightarrow> ('h, 'w, 'c, 'd, 'g) server \<Rightarrow>
     (nat \<times> ('h, 'w, 'c, 'd, 'g) server \<times> (nat \<times> 'w chat_world) list) exec" where
  "nginz_parallel_init E T P R rs n v =
     ebind (rehash (lib E) T R (Some (core_container (booted v))) v) (\<lambda>(_, v1).
     ebind (fork_with_plugins T (core_container (booted v1)) E rs (n, chat_state (statics (booted v1)))) (\<lambda>(_, (n', w), children).
     ebind (in_order [serve_shell E T P, serve_master_init E T R] (with_world w v1)) (\<lambda>v2.
     Inr (n', v2, children))))"

definition serve_boot :: "(('h, 'w) chat_boot \<Rightarrow> ('h, 'w) chat_boot exec) \<Rightarrow> ('h, 'w, 'c, 'd, 'g) serve" where
  "serve_boot f v = ebind (f (booted v)) (\<lambda>b. Inr (v\<lparr>booted := b\<rparr>))"

definition async_db_master_deinit :: "'w chat_env \<Rightarrow> ('h, 'w, 'c, 'd, 'g) serve" where
  "async_db_master_deinit E v = ebind (aroop_assert (lib E) (at_master v)) (\<lambda>_. Inr (v\<lparr>db_table := None\<rparr>))"

definition nginz_db_module_deinit :: "'w chat_env \<Rightarrow> ('h, 'w, 'c, 'd, 'g) serve" where
  "nginz_db_module_deinit E v = (if at_master v then async_db_master_deinit E v else Inr v)"

text \<open>\<open>pp_raw_module_deinit\<close> only unplugs and \<open>protostack_deinit\<close> does nothing.\<close>

definition nginz_net_deinit :: "('h, 'w, 'c, 'd, 'g) serve" where
  "nginz_net_deinit v = Inr (v\<lparr>tcp := snd (tcp_listener_stop (tcp v))\<rparr>)"

text \<open>Unregistering the fiber of the event loop runs it once more: it polls and calls back, whatever its status says.\<close>

definition last_poll ::
    "'w chat_env \<Rightarrow> ('c, 'd, ('h, 'w, 'c, 'd, 'g) server) handler \<Rightarrow> 32 word \<times> (nat \<Rightarrow> 16 word) \<Rightarrow>
     (process_fiber, ('h, 'w, 'c, 'd, 'g) server) fiber_runner" where
  "last_poll E H polled f st v fs =
     ebind (event_loop_step (lib E) H polled v (listen_loop (tcp v))) (\<lambda>(v', el).
     Inr (0, v'\<lparr>tcp := (tcp v')\<lparr>listen_loop := el\<rparr>\<rparr>, fs))"

definition set_fibers :: "process_fiber fiber_table \<Rightarrow> ('h, 'w, 'c, 'd, 'g) server \<Rightarrow> ('h, 'w, 'c, 'd, 'g) server" where
  "set_fibers fs v = v\<lparr>booted := (booted v)\<lparr>statics := (statics (booted v))\<lparr>chat_fibers := fs\<rparr>\<rparr>\<rparr>"

definition event_loop_module_deinit ::
    "'w chat_env \<Rightarrow> ('c, 'd, ('h, 'w, 'c, 'd, 'g) server) handler \<Rightarrow> 32 word \<times> (nat \<Rightarrow> 16 word) \<Rightarrow> ('h, 'w, 'c, 'd, 'g) serve" where
  "event_loop_module_deinit E H polled v =
     ebind (unregister_fiber (last_poll E H polled) (Some Event_loop_step) v (chat_fibers (statics (booted v)))) (\<lambda>(_, v', fs).
     Inr (set_fibers fs v'))"

definition serve_shell_deinit :: "('h, 'w, 'c, 'd, 'g) serve" where
  "serve_shell_deinit v =
     (let sh = shake_module_deinit (at_master v) ((ctl v)\<lparr>shell_loop := listen_loop (tcp v)\<rparr>)
      in Inr (v\<lparr>ctl := sh, tcp := (tcp v)\<lparr>listen_loop := shell_loop sh\<rparr>\<rparr>))"

definition serve_lazy_deinit :: "'w chat_env \<Rightarrow> ('h, 'w, 'c, 'd, 'g) serve" where
  "serve_lazy_deinit E v =
     ebind (lazy_call_module_deinit (lib E) Lazy_call_step (chat_fibers (statics (booted v)))) (\<lambda>fs. Inr (set_fibers fs v))"

text \<open>The pipes of the process stay registered and open; the buffer of \<open>ping.c\<close> is not part of the state here.\<close>

definition pp_module_deinit :: "'w chat_env \<Rightarrow> ('h, 'w, 'c, 'd, 'g) serve" where
  "pp_module_deinit E = serve_boot (on_statics (set_state (pipe_update (\<lambda>s. s\<lparr>recv_buffer := aroop_txt_destroy (lib E) (recv_buffer s)\<rparr>))))"

text \<open>\<open>enumerate\<close>, \<open>fiber\<close>, \<open>binary_coder\<close> and \<open>quitall\<close> have nothing to undo but their plugins, which stay.\<close>

definition nginz_core_deinit ::
    "'w chat_env \<Rightarrow> ('c, 'd, ('h, 'w, 'c, 'd, 'g) server) handler \<Rightarrow> 32 word \<times> (nat \<Rightarrow> 16 word) \<Rightarrow> ('h, 'w, 'c, 'd, 'g) serve" where
  "nginz_core_deinit E H polled = in_order [event_loop_module_deinit E H polled, serve_shell_deinit, serve_lazy_deinit E, pp_module_deinit E]"

definition nginz_stop_services ::
    "'w chat_env \<Rightarrow> ('c, 'd, ('h, 'w, 'c, 'd, 'g) server) handler \<Rightarrow> 32 word \<times> (nat \<Rightarrow> 16 word) \<Rightarrow> ('h, 'w, 'c, 'd, 'g) serve" where
  "nginz_stop_services E H polled = in_order [nginz_db_module_deinit E, nginz_net_deinit, nginz_core_deinit E H polled]"

text \<open>\<open>nginz_main\<close> after the main loop.\<close>

definition nginz_main_after_run ::
    "'w chat_env \<Rightarrow> ('h, nat) table_api \<Rightarrow> ('c, 'd, ('h, 'w, 'c, 'd, 'g) server) handler \<Rightarrow> 32 word \<times> (nat \<Rightarrow> 16 word) \<Rightarrow>
     ('h, 'w, 'c, 'd, 'g) serve" where
  "nginz_main_after_run E T H polled = in_order [serve_boot (nginz_chat_module_deinit E T), nginz_stop_services E H polled]"

section \<open>Starting the services\<close>

definition callbacks_at :: "aroop \<Rightarrow> (string \<times> core_plug) list \<Rightarrow> (core_plug, core_plug) plug_request list" where
  "callbacks_at A xs = map (\<lambda>(space, f). callback_at A space f) xs"

text \<open>\<open>v'\<close> is \<open>v\<close> with more plugins.\<close>

definition plugged :: "('h, nat) table_api \<Rightarrow> (core_plug, core_plug) plug_request list \<Rightarrow> ('h, 'w) chat_boot \<Rightarrow> ('h, 'w) chat_boot \<Rightarrow> bool" where
  "plugged T qs b b' \<longleftrightarrow> plugins_wf T (core_container b') \<and> app_container b' = app_container b \<and> statics b' = statics b \<and>
     (\<forall>k. plugins_at T (core_container b') k = plugins_at T (core_container b) k @ requested qs k)"

lemma plugged_trans: "plugged T qs b b' \<Longrightarrow> plugged T rs b' b'' \<Longrightarrow> plugged T (qs @ rs) b b''"
  by (simp add: plugged_def requested_append)

lemma plug_served_all:
  assumes A: "aroop_ok (lib E)" and T: "table_ok T" and "plugins_wf T (core_container (booted v))"
  shows "\<exists>b. in_order (map (\<lambda>(space, f). plug_served E T space f) xs) v = Inr (v\<lparr>booted := b\<rparr>) \<and>
    plugged T (callbacks_at (lib E) xs) (booted v) b"
  using assms(3)
proof (induction xs arbitrary: v)
  case Nil
  then show ?case by (intro exI [of _ "booted v"]) (simp add: in_order_def plugged_def callbacks_at_def requested_Nil)
next
  case (Cons x xs)
  obtain space f where x: "x = (space, f)" by (cases x)
  let ?r = "callback_at (lib E) space f"
  obtain b1 where b1: "plug_core (lib E) T ?r (booted v) = Inr b1" "plugged T [?r] (booted v) b1"
    using core_bootsD [OF core_boots_plug [OF A T disjI1 [OF refl], of space f], of "booted v" "statics (booted v)"] Cons.prems
    unfolding plugged_def by auto
  have "plugins_wf T (core_container (booted (v\<lparr>booted := b1\<rparr>)))" using b1(2) by (simp add: plugged_def)
  from Cons.IH [OF this] obtain b where b: "in_order (map (\<lambda>(space, f). plug_served E T space f) xs) (v\<lparr>booted := b1\<rparr>) = Inr (v\<lparr>booted := b\<rparr>)"
    "plugged T (callbacks_at (lib E) xs) b1 b" by auto
  have "plugged T ([?r] @ callbacks_at (lib E) xs) (booted v) b" by (rule plugged_trans [OF b1(2) b(2)])
  moreover have "plug_served E T space f v = Inr (v\<lparr>booted := b1\<rparr>)" using b1(1) by (simp add: plug_served_def plug_at_core_def)
  then have "in_order (map (\<lambda>(space, f). plug_served E T space f) (x # xs)) v = Inr (v\<lparr>booted := b\<rparr>)"
    using b(1) x by (simp add: in_order_def andthen_def)
  ultimately show ?case using x by (intro exI [of _ b]) (simp add: callbacks_at_def)
qed

definition shell_table :: "(string \<times> core_plug) list" where
  "shell_table = [(''shake/test'', Test_command), (''shake/help'', Help_command), (''fork/child/after'', Shake_stop_on_fork)]"

definition tcp_table :: "(string \<times> core_plug) list" where
  "tcp_table = [(''fork/child/after'', Tcp_listener_stop), (''shake/softquitall'', Tcp_listener_stop)]"

definition db_table_plugs :: "(string \<times> core_plug) list" where
  "db_table_plugs = [(''asyncdb/cas/request'', Async_db_CAS_hook), (''asyncdb/sin/request'', Async_db_set_if_null_hook),
     (''asyncdb/unset/request'', Async_db_unset_hook), (''asyncdb/get/request'', Async_db_get_hook), (''shake/dbdump'', Async_db_dump_hook)]"

text \<open>The entry of the shell in the event loop, and the one of the listener.\<close>

definition shell_entry :: "('c, 'd) platform \<Rightarrow> ('c, 'd) entry" where
  "shell_entry P = (shell_socket (shell_calls P), Some (shake_cb P), null_data P, NGINZ_POLL_ALL_FLAGS)"

definition chat_entry :: "('c, 'd) platform \<Rightarrow> ('c, 'd) entry" where
  "chat_entry P = (sys_socket (net_calls P) 0, Some (connection_cb P), stack_data P (Some Chat_protostack), NGINZ_POLL_LISTEN_FLAGS)"

text \<open>All system calls of the start succeed.\<close>

definition platform_ok :: "('c, 'd) platform \<Rightarrow> bool" where
  "platform_ok P \<longleftrightarrow> (let f = shell_socket (shell_calls P); g = sys_socket (net_calls P) 0
     in 0 \<le> f \<and> shell_bind (shell_calls P) f \<and> shell_listen (shell_calls P) f \<and>
        0 < g \<and> sys_bind (net_calls P) g NGINZ_CHAT_PORT \<and> sys_listen (net_calls P) g \<and> f \<noteq> g)"

lemma serve_shell_result:
  assumes A: "aroop_ok (lib E)" and T: "table_ok T" and "plugins_wf T (core_container (booted v))" and "at_master v"
    and "platform_ok P" and "internal_unix_socket (ctl v) = -1" and "nfds (listen_loop (tcp v)) < MAX_POLL_FD"
  shows "\<exists>b el. serve_shell E T P v = Inr (v\<lparr>booted := b, tcp := (tcp v)\<lparr>listen_loop := el\<rparr>,
      ctl := (ctl v)\<lparr>internal_unix_socket := shell_socket (shell_calls P), shell_loop := el\<rparr>\<rparr>) \<and>
    plugged T (callbacks_at (lib E) shell_table) (booted v) b \<and> nfds el = Suc (nfds (listen_loop (tcp v))) \<and>
    live_entries el = add_mset (shell_entry P) (live_entries (listen_loop (tcp v)))"
proof -
  let ?f = "shell_socket (shell_calls P)" and ?c = "core_container (booted v)"
  have fl: "NGINZ_POLL_ALL_FLAGS \<noteq> 0" by code_simp
  obtain el where el: "event_loop_register_fd (lib E) ?f (Some (shake_cb P)) (null_data P) NGINZ_POLL_ALL_FLAGS (listen_loop (tcp v)) = Inr el"
      "live_entries el = add_mset (shell_entry P) (live_entries (listen_loop (tcp v)))"
    using poll.register_law [where s = "listen_loop (tcp v)" and n = 0 and f = ?f and A = "lib E"
        and e = "(Some (shake_cb P), null_data P, NGINZ_POLL_ALL_FLAGS)"] assms(7) fl
    by (auto simp: register_entry_def shell_entry_def)
  have nf: "nfds el = Suc (nfds (listen_loop (tcp v)))"
    using el(1) assms(7) by (auto simp: event_loop_register_fd_def ebind_Inr_iff Let_def split: if_splits)
  let ?rs = "callbacks_at (lib E) shell_table"
  have "\<forall>(cat, space, f, d) \<in> set ?rs. wf_txt space \<and> cat \<noteq> INVALID_PLUGIN"
    by (simp add: callbacks_at_def shell_table_def callback_at_def static_laws [OF A])
  then obtain c' where c': "plug_seq (lib E) T ?rs ?c = Inr c'" "plugins_wf T c'" "\<forall>k. plugins_at T c' k = plugins_at T ?c k @ requested ?rs k"
    using plug_seq_wf [OF A T assms(3), of ?rs] by blast
  have rs: "?rs = test_module_plugs (lib E) @ help_module_plugs (lib E) @ [callback_at (lib E) ''fork/child/after'' Shake_stop_on_fork]"
    by (simp add: callbacks_at_def shell_table_def test_module_plugs_def help_module_plugs_def)
  have "ebind (plug_seq (lib E) T (test_module_plugs (lib E)) ?c) (\<lambda>plug1.
           ebind (plug_seq (lib E) T (help_module_plugs (lib E)) plug1) (\<lambda>plug2.
           plug_seq (lib E) T [callback_at (lib E) ''fork/child/after'' Shake_stop_on_fork] plug2)) = Inr c'"
    using c'(1) by (simp add: rs plug_seq_append cong: ebind_cong)
  then have "shake_module_init (lib E) T (shell_calls P) True (shake_cb P) (null_data P) ?c ((ctl v)\<lparr>shell_loop := listen_loop (tcp v)\<rparr>) =
      Inr (c', (ctl v)\<lparr>internal_unix_socket := ?f, shell_loop := el\<rparr>)"
    using assms(5,6) el(1) by (auto simp: shake_module_init_def shake_listen_on_unix_socket_def platform_ok_def Let_def ebind_Inr_iff)
  then show ?thesis
    using el(2) nf c'(2,3) assms(4)
    by (intro exI [of _ "(booted v)\<lparr>core_container := c'\<rparr>"] exI [of _ el]) (simp add: serve_shell_def plugged_def)
qed

lemma serve_tcp_result:
  assumes A: "aroop_ok (lib E)" and T: "table_ok T" and "plugins_wf T (core_container (booted v))" and "at_master v"
    and "platform_ok P" and "\<forall>i. tcp_sockets (tcp v) i = -1" and "nfds (listen_loop (tcp v)) < MAX_POLL_FD"
    and "holds_stacks (chat_ports (statics (booted v))) [(NGINZ_CHAT_PORT, Chat_protostack)]"
  shows "\<exists>b l. nginz_net_init_after_parallel_init E T P v = Inr (v\<lparr>booted := b, tcp := l\<rparr>) \<and>
    plugged T (callbacks_at (lib E) tcp_table) (booted v) b \<and> closed_fds l = closed_fds (tcp v) \<and>
    (\<forall>i. tcp_sockets l i = (if i = 0 then sys_socket (net_calls P) 0 else -1)) \<and> nfds (listen_loop l) \<le> MAX_POLL_FD \<and>
    live_entries (listen_loop l) = add_mset (chat_entry P) (live_entries (listen_loop (tcp v)))"
proof -
  let ?ps = "chat_ports (statics (booted v))"
  let ?st = "(tcp v)\<lparr>tcp_ports := snd (protostack_get_ports_internal (\<lambda>_. 0) ?ps)\<rparr>"
  have p: "tcp_ports ?st i = (if i = 0 then NGINZ_CHAT_PORT else 0)" for i
    using ports_loop_eq [OF assms(8), of 0 "\<lambda>_. 0" i] by (simp add: protostack_get_ports_internal_def)
  have z: "NGINZ_CHAT_PORT \<noteq> 0" by (simp add: NGINZ_CHAT_PORT_def)
  have g: "protostack_get NGINZ_CHAT_PORT ?ps = Some Chat_protostack" using get_holds [OF assms(8)] by simp
  have ok: "listen_ok (net_calls P) ?ps (tcp_ports ?st) 1"
    unfolding listen_ok_def p using assms(5) z g by (simp add: NGINZ_MAX_PROTO_def platform_ok_def Let_def)
  have e: "listen_entry (net_calls P) ?ps (connection_cb P) (stack_data P) (tcp_ports ?st) 0 = chat_entry P"
    unfolding listen_entry_def p chat_entry_def by (simp add: g)
  obtain l where l: "start_loop (lib E) (net_calls P) ?ps (connection_cb P) (stack_data P) [0..<NGINZ_MAX_PROTO] ?st = Inr l"
    "tcp_sockets l = (\<lambda>i. if 0 \<le> i \<and> i < 1 then sys_socket (net_calls P) i else tcp_sockets ?st i)"
    "live_entries (listen_loop l) = mset (map (listen_entry (net_calls P) ?ps (connection_cb P) (stack_data P) (tcp_ports ?st)) [0..<1]) +
       live_entries (listen_loop ?st)"
    "nfds (listen_loop l) \<le> MAX_POLL_FD" "closed_fds l = closed_fds ?st"
    using start_loop_ok [OF ok, of 0 "lib E" "connection_cb P" "stack_data P"] assms(6,7) by (simp del: mset_map mset_upt) blast
  have wf: "plugins_wf T (core_container (booted (v\<lparr>tcp := l\<rparr>)))" using assms(3) by simp
  obtain b where b: "in_order (map (\<lambda>(space, f). plug_served E T space f) tcp_table) (v\<lparr>tcp := l\<rparr>) = Inr (v\<lparr>tcp := l, booted := b\<rparr>)"
    "plugged T (callbacks_at (lib E) tcp_table) (booted v) b"
    using plug_served_all [OF A T wf, of tcp_table] by auto
  have "nginz_net_init_after_parallel_init E T P v = Inr (v\<lparr>booted := b, tcp := l\<rparr>)"
    using l(1) b(1) p [of 0] z assms(4)
    by (simp add: nginz_net_init_after_parallel_init_def serve_tcp_def tcp_listener_init_def tcp_listener_start_def tcp_table_def)
  moreover have "live_entries (listen_loop l) = add_mset (chat_entry P) (live_entries (listen_loop (tcp v)))"
    unfolding l(3) using e by simp
  ultimately show ?thesis
    using b(2) l(2,4,5) assms(6) by (intro exI [of _ b] exI [of _ l]) simp
qed

lemma serve_db_result:
  assumes A: "aroop_ok (lib E)" and T: "table_ok T" and "plugins_wf T (core_container (booted v))" and "at_master v"
  shows "\<exists>b. nginz_db_module_init_after_parallel_init E T G v = Inr (v\<lparr>booted := b, db_table := Some (opp_hash_table_create G)\<rparr>) \<and>
    plugged T (callbacks_at (lib E) db_table_plugs) (booted v) b"
proof -
  let ?v = "v\<lparr>db_table := Some (opp_hash_table_create G)\<rparr>"
  have wf: "plugins_wf T (core_container (booted ?v))" using assms(3) by simp
  obtain b where b: "in_order (map (\<lambda>(space, f). plug_served E T space f) db_table_plugs) ?v = Inr (?v\<lparr>booted := b\<rparr>)"
    "plugged T (callbacks_at (lib E) db_table_plugs) (booted v) b"
    using plug_served_all [OF A T wf, of db_table_plugs] by auto
  show ?thesis
    using b assms(4) by (intro exI [of _ b]) (simp add: nginz_db_module_init_after_parallel_init_def serve_db_def db_table_plugs_def)
qed

text \<open>What a master looks like that serves, with \<open>base\<close> what else is in its event loop.\<close>

definition serving :: "('c, 'd) platform \<Rightarrow> ('c, 'd) entry multiset \<Rightarrow> ('h, 'w, 'c, 'd, 'g) server \<Rightarrow> bool" where
  "serving P base v \<longleftrightarrow> at_master v \<and> internal_unix_socket (ctl v) = shell_socket (shell_calls P) \<and>
     (\<forall>i. tcp_sockets (tcp v) i = (if i = 0 then sys_socket (net_calls P) 0 else -1)) \<and>
     nfds (listen_loop (tcp v)) \<le> MAX_POLL_FD \<and>
     live_entries (listen_loop (tcp v)) = add_mset (shell_entry P) (add_mset (chat_entry P) base)"

definition server_plugs :: "aroop \<Rightarrow> (core_plug, core_plug) plug_request list" where
  "server_plugs A = boot_plugs A @ callbacks_at A (shell_table @ tcp_table @ db_table_plugs)"

lemma master_init_idle:
  assumes "aroop_ok (lib E)" and "table_ok T" and "plugins_wf T (core_container (booted v))"
    and "plugins_at T (core_container (booted v)) (lit ''master/init'') = []"
  shows "serve_master_init E T R v = Inr v"
  using assms by (simp add: serve_master_init_def master_init_def pm_call_def call_runs [OF assms(2,3)] static_laws [OF assms(1)])

lemma no_master_init:
  assumes "aroop_ok A"
  shows "requested (boot_plugs A) (lit ''master/init'') = []" and "requested (callbacks_at A shell_table) (lit ''master/init'') = []"
  by (simp_all add: requested_def boot_plugs_def core_plugs_def chat_core_plugs_def callbacks_at_def shell_table_def
      callback_at_def bridge_at_def static_laws [OF assms])

lemma services_start:
  assumes A: "aroop_ok (lib E)" and T: "table_ok T" and wf: "plugins_wf T (core_container (booted v))"
    and pl: "plugins_at T (core_container (booted v)) = requested (boot_plugs (lib E))" and m: "at_master v"
    and P: "platform_ok P" and "internal_unix_socket (ctl v) = -1" and "\<forall>i. tcp_sockets (tcp v) i = -1"
    and "nfds (listen_loop (tcp v)) + 2 \<le> MAX_POLL_FD"
    and "holds_stacks (chat_ports (statics (booted v))) [(NGINZ_CHAT_PORT, Chat_protostack)]"
  shows "\<exists>v'. nginz_main_after_fork E T G P R v = Inr v' \<and> serving P (live_entries (listen_loop (tcp v))) v' \<and>
    plugged T (callbacks_at (lib E) (shell_table @ tcp_table @ db_table_plugs)) (booted v) (booted v') \<and>
    db_table v' = Some (opp_hash_table_create G) \<and> closed_fds (tcp v') = closed_fds (tcp v) \<and> shell_closed (ctl v') = shell_closed (ctl v)"
proof -
  obtain b1 el where s1: "serve_shell E T P v = Inr (v\<lparr>booted := b1, tcp := (tcp v)\<lparr>listen_loop := el\<rparr>,
      ctl := (ctl v)\<lparr>internal_unix_socket := shell_socket (shell_calls P), shell_loop := el\<rparr>\<rparr>)"
    "plugged T (callbacks_at (lib E) shell_table) (booted v) b1" "nfds el = Suc (nfds (listen_loop (tcp v)))"
    "live_entries el = add_mset (shell_entry P) (live_entries (listen_loop (tcp v)))"
    using serve_shell_result [OF A T wf m P assms(7)] assms(9) by auto
  define v1 where "v1 = v\<lparr>booted := b1, tcp := (tcp v)\<lparr>listen_loop := el\<rparr>,
      ctl := (ctl v)\<lparr>internal_unix_socket := shell_socket (shell_calls P), shell_loop := el\<rparr>\<rparr>"
  have v1: "booted v1 = b1" "tcp v1 = (tcp v)\<lparr>listen_loop := el\<rparr>" "internal_unix_socket (ctl v1) = shell_socket (shell_calls P)"
    "shell_closed (ctl v1) = shell_closed (ctl v)"
    by (simp_all add: v1_def)
  have w1: "plugins_wf T (core_container (booted v1))" "at_master v1" "statics (booted v1) = statics (booted v)"
    using s1(2) m by (simp_all add: plugged_def v1 at_master_def)
  have "serve_master_init E T R v1 = Inr v1"
    by (rule master_init_idle [OF A T w1(1)]) (use s1(2) pl no_master_init [OF A] in \<open>simp add: plugged_def v1(1)\<close>)
  note mi = this
  have h1: "\<forall>i. tcp_sockets (tcp v1) i = -1" "nfds (listen_loop (tcp v1)) < MAX_POLL_FD"
    "holds_stacks (chat_ports (statics (booted v1))) [(NGINZ_CHAT_PORT, Chat_protostack)]"
    using assms(8-10) s1(3) w1(3) by (simp_all add: v1(2))
  obtain b2 l where s2: "nginz_net_init_after_parallel_init E T P v1 = Inr (v1\<lparr>booted := b2, tcp := l\<rparr>)"
    "plugged T (callbacks_at (lib E) tcp_table) b1 b2" "closed_fds l = closed_fds (tcp v)"
    "\<forall>i. tcp_sockets l i = (if i = 0 then sys_socket (net_calls P) 0 else -1)" "nfds (listen_loop l) \<le> MAX_POLL_FD"
    "live_entries (listen_loop l) = add_mset (chat_entry P) (live_entries el)"
    using serve_tcp_result [OF A T w1(1,2) P h1] v1(1,2) by auto
  define v2 where "v2 = v1\<lparr>booted := b2, tcp := l\<rparr>"
  have v2: "booted v2 = b2" "tcp v2 = l" "ctl v2 = ctl v1" by (simp_all add: v2_def)
  have w2: "plugins_wf T (core_container (booted v2))" "at_master v2"
    using s2(2) w1(2) by (simp_all add: plugged_def v2 v1 at_master_def)
  obtain b3 where s3: "nginz_db_module_init_after_parallel_init E T G v2 = Inr (v2\<lparr>booted := b3, db_table := Some (opp_hash_table_create G)\<rparr>)"
    "plugged T (callbacks_at (lib E) db_table_plugs) b2 b3"
    using serve_db_result [OF A T w2, of G] v2(1) by auto
  define v3 where "v3 = v2\<lparr>booted := b3, db_table := Some (opp_hash_table_create G)\<rparr>"
  have v3: "booted v3 = b3" "tcp v3 = l" "ctl v3 = ctl v1" "db_table v3 = Some (opp_hash_table_create G)" by (simp_all add: v3_def v2)
  have "nginz_main_after_fork E T G P R v = Inr v3"
    unfolding nginz_main_after_fork_def in_order_def
    using s1(1) [folded v1_def] mi s2(1) [folded v2_def] s3(1) [folded v3_def] by (simp add: andthen_def)
  moreover have "at_master v3" using s3(2) w2(2) by (simp add: at_master_def v3 v2 plugged_def)
  then have "serving P (live_entries (listen_loop (tcp v))) v3"
    using s2(4-6) s1(4) v1(3) by (simp add: serving_def v3 add_mset_commute)
  moreover have "plugged T (callbacks_at (lib E) (shell_table @ tcp_table @ db_table_plugs)) (booted v) (booted v3)"
    using plugged_trans [OF plugged_trans [OF s1(2) s2(2)] s3(2)] by (simp add: v3 callbacks_at_def)
  ultimately show ?thesis using s2(3) v1(4) by (intro exI [of _ v3]) (simp add: v3)
qed

text \<open>With the plugs of the services one space is mixed, the one that is called in a new child.\<close>

lemma server_spaces_typed:
  assumes "aroop_ok A"
  shows "space_typed k (requested (server_plugs A) k) \<longleftrightarrow> k \<noteq> lit ''fork/child/after''"
proof -
  have "space_typed k (requested (callbacks_at A (shell_table @ tcp_table @ db_table_plugs)) k) \<longleftrightarrow> k \<noteq> lit ''fork/child/after''"
    by (auto simp: callbacks_at_def callback_at_def shell_table_def tcp_table_def db_table_plugs_def requested_def
        space_typed_def bridge_spaces_def lit_def static_laws [OF assms])
  then show ?thesis
    using boot_spaces_typed [OF assms, of k] by (simp add: server_plugs_def requested_append space_typed_append)
qed

lemma server_fork_space:
  assumes "aroop_ok A"
  shows "requested (server_plugs A) (lit ''fork/child/after'') = requested (boot_plugs A @ late_plugs A) (lit ''fork/child/after'')"
  by (simp add: server_plugs_def requested_append)
    (simp add: callbacks_at_def callback_at_def shell_table_def tcp_table_def db_table_plugs_def requested_def late_plugs_def
      test_module_plugs_def help_module_plugs_def lit_def static_laws [OF assms])

text \<open>The parent's way through \<open>nginz_parallel_init\<close> and the two calls after it is the forks and then \<open>nginz_main_after_fork\<close>.\<close>

lemma parallel_init_forks_then_serves:
  assumes "aroop_ok (lib E)" and "table_ok T" and "plugins_wf T (core_container (booted v))"
    and "plugins_at T (core_container (booted v)) = requested (boot_plugs (lib E))"
    and "fork_with_plugins T (core_container (booted v)) E rs (n, chat_state (statics (booted v))) = Inr (r, (n', w), children)"
    and "nginz_main_after_fork E T G P R (with_world w v) = Inr v'"
  shows "\<exists>v2. nginz_parallel_init E T P R rs n v = Inr (n', v2, children) \<and>
    in_order [nginz_net_init_after_parallel_init E T P, nginz_db_module_init_after_parallel_init E T G] v2 = Inr v'"
proof -
  have re: "rehash (lib E) T R (Some (core_container (booted v))) v = Inr (0, v)"
    using startup_calls_do_nothing(1) [OF assms(1-3), of "[]" R v] assms(4) by simp
  show ?thesis
    using assms(5,6)
    by (auto simp: nginz_parallel_init_def re nginz_main_after_fork_def in_order_def andthen_def ebind_Inr_iff)
qed

section \<open>Stopping the services\<close>

lemma stop_loop_nfds: "nfds (listen_loop (stop_loop is st)) = nfds (listen_loop st)"
  by (induction "is" st rule: stop_loop.induct) (simp_all add: Let_def)

text \<open>The last poll, when nothing is ready.\<close>

lemma event_loop_deinit_quiet:
  assumes "fst polled = 0" and "i < MAX_FIBERS" and "fiber (fibers (chat_fibers (statics (booted v))) i) = Some Event_loop_step"
    and "\<forall>j < i. fiber (fibers (chat_fibers (statics (booted v))) j) \<noteq> Some Event_loop_step"
  shows "\<exists>el fs. event_loop_module_deinit E H polled v = Inr (set_fibers fs (v\<lparr>tcp := (tcp v)\<lparr>listen_loop := el\<rparr>\<rparr>)) \<and>
    nfds el = nfds (listen_loop (tcp v)) \<and> live_entries el = live_entries (listen_loop (tcp v)) \<and>
    fibers fs = (fibers (chat_fibers (statics (booted v))))(i :=
      (fibers (chat_fibers (statics (booted v))) i)\<lparr>status := FIBER_STATUS_EMPTY, fiber := None\<rparr>)"
proof -
  let ?fs = "chat_fibers (statics (booted v))"
  obtain cnt revs where polled: "polled = (cnt, revs)" by (cases polled)
  obtain el where el: "event_loop_step (lib E) H polled v (listen_loop (tcp v)) = Inr (v, el)"
    "nfds el = nfds (listen_loop (tcp v))" "live_entries el = live_entries (listen_loop (tcp v))"
    using assms(1) by (cases "nfds (listen_loop (tcp v)) = 0") (auto simp: event_loop_step_def polled Let_def)
  have "unregister_fiber (last_poll E H polled) (Some Event_loop_step) v ?fs =
      Inr (0, v\<lparr>tcp := (tcp v)\<lparr>listen_loop := el\<rparr>\<rparr>, ?fs\<lparr>fibers := (fibers ?fs)(i := (fibers ?fs i)\<lparr>status := FIBER_STATUS_EMPTY, fiber := None\<rparr>)\<rparr>)"
    using unregister_loop_first [OF assms(3), of 0 MAX_FIBERS "last_poll E H polled" v] assms(2,4) el(1)
    by (simp add: unregister_fiber_def last_poll_def)
  then show ?thesis
    using el(2,3) unfolding event_loop_module_deinit_def
    by (intro exI [of _ el] exI [of _ "?fs\<lparr>fibers := (fibers ?fs)(i := (fibers ?fs i)\<lparr>status := FIBER_STATUS_EMPTY, fiber := None\<rparr>)\<rparr>"]) simp
qed

lemma unregister_one:
  assumes "nfds el \<le> MAX_POLL_FD" and "live_entries el = add_mset (f, e) base" and "f \<notin> fst ` set_mset base" and "snd (snd e) \<noteq> 0"
  shows "live_entries (event_loop_unregister_fd f el) = base"
  using poll.unregisters_live [OF assms(1), of "[(f, e)]" base] assms(2-4) by (cases e) auto

lemma serving_db_net:
  assumes "serving P base v" and "platform_ok P"
    and "shell_socket (shell_calls P) \<notin> fst ` set_mset base" and "sys_socket (net_calls P) 0 \<notin> fst ` set_mset base"
  shows "\<exists>l. in_order [nginz_db_module_deinit E, nginz_net_deinit] v = Inr (v\<lparr>db_table := None, tcp := l\<rparr>) \<and>
    nfds (listen_loop l) \<le> MAX_POLL_FD \<and> live_entries (listen_loop l) = add_mset (shell_entry P) base \<and>
    closed_fds l = closed_fds (tcp v) @ [sys_socket (net_calls P) 0] \<and> (\<forall>i. tcp_sockets l i = -1)"
proof -
  let ?g = "\<lambda>i :: nat. sys_socket (net_calls P) 0" and ?l = "stop_loop [0..<NGINZ_MAX_PROTO] (tcp v)"
  have m: "at_master v" "nfds (listen_loop (tcp v)) \<le> MAX_POLL_FD" and t: "\<forall>i. tcp_sockets (tcp v) i = (if i = 0 then ?g i else -1)"
    and lv: "live_entries (listen_loop (tcp v)) = mset (map (\<lambda>_. chat_entry P) [0..<1]) + add_mset (shell_entry P) base"
    using assms(1) by (simp_all add: serving_def add_mset_commute)
  have ok: "0 < ?g 0" "shell_socket (shell_calls P) \<noteq> ?g 0" using assms(2) by (simp_all add: platform_ok_def Let_def)
  have dis: "?g ` {..<1} \<inter> set_mset (image_mset fst (add_mset (shell_entry P) base)) = {}"
    using ok(2) assms(4) by (auto simp: shell_entry_def)
  have inj: "inj_on ?g {..<Suc 0}" by (simp add: inj_on_def)
  have *: "(\<forall>i. 0 \<le> i \<longrightarrow> tcp_sockets ?l i = -1) \<and> live_entries (listen_loop ?l) = add_mset (shell_entry P) base \<and>
      closed_fds ?l = closed_fds (tcp v) @ map ?g [0..<1]"
    using stop_loop_ok [of 0 1 "tcp v" ?g "\<lambda>_. chat_entry P" "add_mset (shell_entry P) base"] t lv m(2) ok(1) dis inj
    by (simp add: NGINZ_MAX_PROTO_def chat_entry_def)
  show ?thesis
    using * m by (intro exI [of _ ?l])
      (simp add: in_order_def andthen_def nginz_db_module_deinit_def async_db_master_deinit_def nginz_net_deinit_def tcp_listener_stop_def stop_loop_nfds)
qed

lemma at_master_simps [simp]:
  "at_master (v\<lparr>db_table := x\<rparr>) = at_master v" "at_master (v\<lparr>tcp := l\<rparr>) = at_master v" "at_master (v\<lparr>ctl := c\<rparr>) = at_master v"
  "at_master (set_fibers fs v) = at_master v"
  unfolding at_master_def set_fibers_def by simp_all

section \<open>Properties\<close>

text \<open>(C9) The master of the chat server starts serving: from the state that the init functions before the forks leave, with
  whatever the forks have made of the chat's state, the shell and the chat port are the two entries that are added to its
  event loop, the database is empty, and its container holds the plugins of the init functions and the ten of the
  services in the order of the code. It stays the master.\<close>

theorem master_serves:
  fixes G :: "('g, aroop_txt_t) table_api"
  assumes "aroop_ok (lib E)" and "table_ok T" and "\<not> initiated p" and "app_container (process p) = None"
    and "t_cap (aroop_txt_buffer (lib E) NGINZ_MAX_BINARY_MSG_LEN) < 65536"
    and "\<And>i. i < MAX_PROCESS_COUNT \<Longrightarrow> \<exists>a b c d. sockets i = Some (a, b, c, d) \<and> b \<noteq> -1"
    and "mynode (pipe (chat_state (statics (process p)))) = Some 0" and "my_pid E = master_pid E" and "master_pid E \<noteq> 0"
    and "is_master (pipe m)" and "platform_ok P" and "internal_unix_socket sh = -1" and "nfds el + 2 \<le> MAX_POLL_FD"
  shows "\<exists>p' v. nginz_main_before_fork sockets E T p = Inr p' \<and>
    nginz_main_after_fork E T G P R
      \<lparr>booted = (process p')\<lparr>statics := (statics (process p'))\<lparr>chat_state := m\<rparr>\<rparr>, tcp = tcp_listener_static el, ctl = sh, db_table = None\<rparr> = Inr v \<and>
    serving P (live_entries el) v \<and> chat_state (statics (booted v)) = m \<and> db_table v = Some (opp_hash_table_create G) \<and>
    plugins_at T (core_container (booted v)) = requested (server_plugs (lib E))"
proof -
  obtain b where b: "nginz_main_before_fork sockets E T p = Inr \<lparr>initiated = True, process = b\<rparr>"
    "plugins_wf T (core_container b)" "plugins_at T (core_container b) = requested (boot_plugs (lib E))"
    "chat_ports (statics b) = snd (protostack_set NGINZ_CHAT_PORT (Some Chat_protostack) protostack_init)"
    using main_result [where E = E and T = T and p = p and sockets = sockets, OF assms(1-9)] by blast
  let ?v = "\<lparr>booted = b\<lparr>statics := (statics b)\<lparr>chat_state := m\<rparr>\<rparr>, tcp = tcp_listener_static el, ctl = sh, db_table = None :: 'g option\<rparr>"
  have hs: "holds_stacks (chat_ports (statics b)) [(NGINZ_CHAT_PORT, Chat_protostack)]"
    using set_holds [OF init_holds, of NGINZ_CHAT_PORT Chat_protostack] b(4) by (auto simp: NGINZ_MAX_PROTO_def)
  have pre: "plugins_wf T (core_container (booted ?v))" "plugins_at T (core_container (booted ?v)) = requested (boot_plugs (lib E))"
    "at_master ?v" "internal_unix_socket (ctl ?v) = -1" "\<forall>i. tcp_sockets (tcp ?v) i = -1" "nfds (listen_loop (tcp ?v)) + 2 \<le> MAX_POLL_FD"
    "holds_stacks (chat_ports (statics (booted ?v))) [(NGINZ_CHAT_PORT, Chat_protostack)]"
    using b(2,3) hs assms(10,12,13) by (simp_all add: at_master_def tcp_listener_static_def)
  note start = services_start [where v = ?v and G = G and R = R, OF assms(1,2) pre(1-3) assms(11) pre(4-7)]
  obtain v where v: "nginz_main_after_fork E T G P R ?v = Inr v" "serving P (live_entries (listen_loop (tcp ?v))) v"
    "plugged T (callbacks_at (lib E) (shell_table @ tcp_table @ db_table_plugs)) (booted ?v) (booted v)"
    "db_table v = Some (opp_hash_table_create G)"
    using start by blast
  have "plugins_at T (core_container (booted v)) = requested (server_plugs (lib E))"
    by (rule ext) (use v(3) b(3) in \<open>simp add: plugged_def server_plugs_def requested_append\<close>)
  moreover have "chat_state (statics (booted v)) = m" using v(3) by (simp add: plugged_def)
  moreover have "serving P (live_entries el) v" using v(2) by (simp add: tcp_listener_static_def)
  moreover have "process \<lparr>initiated = True, process = b\<rparr> = b" by simp
  ultimately show ?thesis
    using b(1) v(1,4)
    by (intro exI [of _ "\<lparr>initiated = True, process = b\<rparr>"] exI [of _ v] conjI) (simp_all only:)
qed

definition sample_platform :: "(nat, unit) platform" where
  "sample_platform = \<lparr>shell_calls = \<lparr>shell_socket = 5, shell_bind = (\<lambda>_. True), shell_listen = (\<lambda>_. True)\<rparr>,
     net_calls = good_sys, shake_cb = 1, connection_cb = 2, null_data = (), stack_data = (\<lambda>_. ())\<rparr>"

lemma sample_platform_ok: "platform_ok sample_platform"
  by (simp add: platform_ok_def sample_platform_def good_sys_def Let_def)

lemma sample_world_master: "is_master (pipe (chat_state (statics (process sample_nginz))))"
  by (simp add: is_master_def sample_nginz_def sample_boot_def sample_world_def six_nodes_def)

lemma master_serves_witness:
  "\<exists>p' v. nginz_main_before_fork six_sockets master_env ref_table sample_nginz = Inr p' \<and>
    nginz_main_after_fork master_env ref_table ref_table sample_platform (\<lambda>f i out w. Inr (0, out, w))
      \<lparr>booted = (process p')\<lparr>statics := (statics (process p'))\<lparr>chat_state := chat_state (statics (process sample_nginz))\<rparr>\<rparr>,
       tcp = tcp_listener_static no_loop, ctl = open_shell\<lparr>internal_unix_socket := -1\<rparr>, db_table = None\<rparr> = Inr v \<and>
    serving sample_platform {#} v \<and> db_table v = Some []"
proof -
  have l: "nfds no_loop + 2 \<le> MAX_POLL_FD" "live_entries no_loop = {#}"
    by (simp_all add: no_loop_def MAX_POLL_FD_def live_entries_def)
  have sh: "internal_unix_socket (open_shell\<lparr>internal_unix_socket := -1\<rparr>) = -1" by simp
  have t: "opp_hash_table_create ref_table = []" by (simp add: ref_table_def)
  show ?thesis
    using master_serves [where E = master_env and T = ref_table and p = sample_nginz and sockets = six_sockets and P = sample_platform
        and G = ref_table and R = "\<lambda>f i out w. Inr (0, out, w)" and el = no_loop
        and m = "chat_state (statics (process sample_nginz))", OF _ ref_table_ok _ _ _ _ _ _ _ sample_world_master sample_platform_ok sh l(1)]
      sample_start l(2) t by fastforce
qed

text \<open>A worker starts none of this: between the forks and its main loop it changes nothing, and after it it neither closes
  a socket of the shell nor touches a database.\<close>

lemma worker_serves_nothing:
  assumes "aroop_ok (lib E)" and "table_ok T" and "plugins_wf T (core_container (booted v))"
    and "plugins_at T (core_container (booted v)) = requested (boot_plugs (lib E))" and "\<not> at_master v"
  shows "\<exists>v'. nginz_main_after_fork E T G P R v = Inr v' \<and> v' = v\<lparr>ctl := (ctl v)\<lparr>shell_loop := listen_loop (tcp v)\<rparr>\<rparr> \<and>
    nginz_db_module_deinit E v' = Inr v' \<and> serve_shell_deinit v' = Inr v'"
proof -
  let ?v = "v\<lparr>ctl := (ctl v)\<lparr>shell_loop := listen_loop (tcp v)\<rparr>\<rparr>"
  have s: "serve_shell E T P v = Inr ?v" using assms(5) by (simp add: serve_shell_def shake_module_init_def)
  have "serve_master_init E T R ?v = Inr ?v"
    by (rule master_init_idle [OF assms(1,2)]) (use assms(3,4) no_master_init(1) [OF assms(1)] in simp_all)
  then show ?thesis
    using s assms(5)
    by (simp add: nginz_main_after_fork_def in_order_def andthen_def nginz_net_init_after_parallel_init_def
        nginz_db_module_init_after_parallel_init_def nginz_db_module_deinit_def serve_shell_deinit_def shake_module_deinit_def Let_def)
qed

text \<open>(C8) Well-typed calls of plugins do not get stuck, up to one space of the serving master: after the init functions
  of all subsystems every space of the process holds bridges only or callbacks only, so that a call through the interface
  that belongs to the space never stops at the assertion on the category, nor for a missing function, a broken chain or a
  loop of the chain, as long as the plugged functions themselves return. In a worker it stays so, because
  \<open>nginz_main\<close> plugs nothing more there. The services of the master, which start after the forks, plug callbacks into
  the space \<open>fork/child/after\<close>, which is called as a bridge: this space, and no other, is mixed from then on, and where
  assertions abort, every later call of it would stop there. All other calls keep returning.\<close>

theorem spaces_well_typed:
  fixes G :: "('g, aroop_txt_t) table_api" and p :: "('h, 'w) nginz"
  assumes "aroop_ok (lib E)" and "table_ok T" and "\<not> initiated p" and "app_container (process p) = None"
    and "t_cap (aroop_txt_buffer (lib E) NGINZ_MAX_BINARY_MSG_LEN) < 65536"
    and "\<And>i. i < MAX_PROCESS_COUNT \<Longrightarrow> \<exists>a b c d. sockets i = Some (a, b, c, d) \<and> b \<noteq> -1"
    and "mynode (pipe (chat_state (statics (process p)))) = Some 0" and "my_pid E = master_pid E" and "master_pid E \<noteq> 0"
    and "is_master (pipe m)" and "platform_ok P" and "internal_unix_socket sh = -1" and "nfds el + 2 \<le> MAX_POLL_FD"
    and "\<And>f i out w. \<exists>r. C f i out w = Inr r" and "\<And>f sg d w. \<exists>r. B f sg d w = Inr r"
  shows "\<exists>p' core v late. nginz_main_before_fork sockets E T p = Inr p' \<and> core_container (process p') = core \<and>
    (\<forall>k. space_typed k (plugins_at T core k)) \<and>
    (\<forall>space input out w. str space \<notin> bridge_spaces \<longrightarrow> (\<exists>r. pm_call (lib E) T C (Some core) space input out w = Inr r)) \<and>
    (\<forall>space sg d w. str space \<in> bridge_spaces \<longrightarrow> (\<exists>r. pm_bridge_call (lib E) T B (Some core) space sg d w = Inr r)) \<and>
    (\<forall>u :: ('h, 'w, 'c, 'd, 'g) server. core_container (booted u) = core \<longrightarrow> \<not> at_master u \<longrightarrow>
       (\<exists>u'. nginz_main_after_fork E T G P R u = Inr u' \<and> core_container (booted u') = core)) \<and>
    nginz_main_after_fork E T G P R
      \<lparr>booted = (process p')\<lparr>statics := (statics (process p'))\<lparr>chat_state := m\<rparr>\<rparr>, tcp = tcp_listener_static el, ctl = sh, db_table = None\<rparr> = Inr v \<and>
    core_container (booted v) = late \<and>
    (\<forall>k. space_typed k (plugins_at T late k) \<longleftrightarrow> k \<noteq> lit ''fork/child/after'') \<and>
    (\<forall>space input out w. str space \<notin> bridge_spaces \<longrightarrow> (\<exists>r. pm_call (lib E) T C (Some late) space input out w = Inr r)) \<and>
    (\<forall>space sg d w. str space \<in> bridge_spaces \<longrightarrow> str space \<noteq> lit ''fork/child/after'' \<longrightarrow>
       (\<exists>r. pm_bridge_call (lib E) T B (Some late) space sg d w = Inr r)) \<and>
    (aroop_assert_aborts (lib E) \<longrightarrow> (\<forall>space sg d w. str space = lit ''fork/child/after'' \<longrightarrow>
       pm_bridge_call (lib E) T B (Some late) space sg d w = Inl AssertFailed))"
proof -
  obtain b where b: "nginz_main_before_fork sockets E T p = Inr \<lparr>initiated = True, process = b\<rparr>"
    "plugins_wf T (core_container b)" "plugins_at T (core_container b) = requested (boot_plugs (lib E))"
    "chat_ports (statics b) = snd (protostack_set NGINZ_CHAT_PORT (Some Chat_protostack) protostack_init)"
    using main_result [where E = E and T = T and p = p and sockets = sockets, OF assms(1-9)] by blast
  let ?v = "\<lparr>booted = b\<lparr>statics := (statics b)\<lparr>chat_state := m\<rparr>\<rparr>, tcp = tcp_listener_static el, ctl = sh, db_table = None :: 'g option\<rparr>"
  have hs: "holds_stacks (chat_ports (statics b)) [(NGINZ_CHAT_PORT, Chat_protostack)]"
    using set_holds [OF init_holds, of NGINZ_CHAT_PORT Chat_protostack] b(4) by (auto simp: NGINZ_MAX_PROTO_def)
  have pre: "plugins_wf T (core_container (booted ?v))" "plugins_at T (core_container (booted ?v)) = requested (boot_plugs (lib E))"
    "at_master ?v" "internal_unix_socket (ctl ?v) = -1" "\<forall>i. tcp_sockets (tcp ?v) i = -1" "nfds (listen_loop (tcp ?v)) + 2 \<le> MAX_POLL_FD"
    "holds_stacks (chat_ports (statics (booted ?v))) [(NGINZ_CHAT_PORT, Chat_protostack)]"
    using b(2,3) hs assms(10,12,13) by (simp_all add: at_master_def tcp_listener_static_def)
  obtain v where v: "nginz_main_after_fork E T G P R ?v = Inr v"
    "plugged T (callbacks_at (lib E) (shell_table @ tcp_table @ db_table_plugs)) (booted ?v) (booted v)"
    using services_start [where v = ?v and G = G and R = R, OF assms(1,2) pre(1-3) assms(11) pre(4-7)] by blast
  let ?core = "core_container b" and ?late = "core_container (booted v)"
  have late: "plugins_wf T ?late" "plugins_at T ?late = requested (server_plugs (lib E))"
    using v(2) b(3) by (auto simp: plugged_def server_plugs_def requested_append)
  have core_ty: "space_typed k (plugins_at T ?core k)" for k
    using b(3) boot_spaces_typed [OF assms(1)] by simp
  have late_ty: "space_typed k (plugins_at T ?late k) \<longleftrightarrow> k \<noteq> lit ''fork/child/after''" for k
    using late(2) server_spaces_typed [OF assms(1)] by simp
  have fk: "lit ''fork/child/after'' \<in> bridge_spaces" by (simp add: bridge_spaces_def)
  have "\<exists>u'. nginz_main_after_fork E T G P R u = Inr u' \<and> core_container (booted u') = ?core"
    if "core_container (booted u) = ?core" "\<not> at_master u" for u :: "('h, 'w, 'c, 'd, 'g) server"
    using worker_serves_nothing [where v = u and G = G and R = R and P = P, OF assms(1,2)] b(2,3) that by fastforce
  moreover have "pm_bridge_call (lib E) T B (Some ?late) space sg d w = Inl AssertFailed"
    if "aroop_assert_aborts (lib E)" "str space = lit ''fork/child/after''" for space sg d w
    using late_start_mixes_fork_space [of "lib E" B, OF assms(1) that(1) assms(15)]
    by (simp add: pm_bridge_call_def bridge_call_runs [OF assms(2) late(1)] late(2) that(2) server_fork_space [OF assms(1)])
  moreover note calls = typed_calls_progress(1) [where A = "lib E" and R = C, OF assms(2)] typed_calls_progress(2) [where A = "lib E" and B = B, OF assms(2)]
  have c: "\<exists>r. pm_call (lib E) T C (Some ?core) space input out w = Inr r" "\<exists>r. pm_call (lib E) T C (Some ?late) space input out w = Inr r"
    if "str space \<notin> bridge_spaces" for space input out w
    using calls(1) [OF b(2) core_ty that assms(14)] calls(1) [OF late(1) _ that assms(14)] late_ty [of "str space"] that fk by auto
  have d: "\<exists>r. pm_bridge_call (lib E) T B (Some ?core) space sg d w = Inr r"
    "str space \<noteq> lit ''fork/child/after'' \<Longrightarrow> \<exists>r. pm_bridge_call (lib E) T B (Some ?late) space sg d w = Inr r"
    if "str space \<in> bridge_spaces" for space sg d w
    using calls(2) [OF b(2) core_ty that assms(15)] calls(2) [OF late(1) _ that assms(15)] late_ty [of "str space"] by auto
  ultimately show ?thesis
    using b(1) v(1) core_ty late_ty c d
    by (intro exI [of _ "\<lparr>initiated = True, process = b\<rparr>"] exI [of _ ?core] exI [of _ v] exI [of _ ?late]) simp
qed


lemma spaces_well_typed_witness:
  "\<exists>p' core v. nginz_main_before_fork six_sockets master_env ref_table sample_nginz = Inr p' \<and> core_container (process p') = core \<and>
    (\<exists>r. pm_bridge_call ref_aroop ref_table (\<lambda>f sg d w. Inr (0, w @ [f])) (Some core) (txt_of (lit ''fork/child/after'')) 0 () [] = Inr r) \<and>
    nginz_main_after_fork master_env ref_table ref_table sample_platform (\<lambda>f i out w. Inr (0, out, w))
      \<lparr>booted = (process p')\<lparr>statics := (statics (process p'))\<lparr>chat_state := chat_state (statics (process sample_nginz))\<rparr>\<rparr>,
       tcp = tcp_listener_static no_loop, ctl = open_shell\<lparr>internal_unix_socket := -1\<rparr>, db_table = None\<rparr> = Inr v \<and>
    (\<exists>r. pm_call ref_aroop ref_table (\<lambda>f i out w. Inr (0, out, w + 1)) (Some (core_container (booted v)))
       (txt_of (lit ''shake/softquitall'')) zero_txt zero_txt (0 :: nat) = Inr r) \<and>
    pm_bridge_call ref_aroop ref_table (\<lambda>f sg d w. Inr (0, w @ [f])) (Some (core_container (booted v))) (txt_of (lit ''fork/child/after'')) 0 () [] =
      Inl AssertFailed"
proof -
  have l: "lib master_env = ref_aroop" by (simp add: master_env_def sample_env_def)
  have ab: "aroop_assert_aborts ref_aroop" by (simp add: ref_aroop_def)
  have k: "lit ''shake/softquitall'' \<notin> bridge_spaces" "lit ''fork/child/after'' \<in> bridge_spaces" by (simp_all add: bridge_spaces_def lit_def)
  have n: "nfds no_loop + 2 \<le> MAX_POLL_FD" by (simp add: no_loop_def MAX_POLL_FD_def)
  have sh: "internal_unix_socket (open_shell\<lparr>internal_unix_socket := -1\<rparr>) = -1" by simp
  note T = spaces_well_typed [where E = master_env and T = ref_table and p = sample_nginz and sockets = six_sockets and P = sample_platform
      and G = ref_table and R = "\<lambda>f i out w. Inr (0, out, w)" and el = no_loop and m = "chat_state (statics (process sample_nginz))"
      and C = "\<lambda>f i out (w :: nat). Inr (0, out, w + 1)" and B = "\<lambda>f sg (d :: unit) w. Inr (0, w @ [f])",
      OF _ ref_table_ok _ _ _ _ _ _ _ sample_world_master sample_platform_ok sh n]
  have "\<exists>p' core v late. nginz_main_before_fork six_sockets master_env ref_table sample_nginz = Inr p' \<and> core_container (process p') = core \<and>
    (\<forall>space sg d w. str space \<in> bridge_spaces \<longrightarrow>
      (\<exists>r. pm_bridge_call ref_aroop ref_table (\<lambda>f sg (d :: unit) w. Inr (0, w @ [f])) (Some core) space sg d w = Inr r)) \<and>
    nginz_main_after_fork master_env ref_table ref_table sample_platform (\<lambda>f i out w. Inr (0, out, w))
      \<lparr>booted = (process p')\<lparr>statics := (statics (process p'))\<lparr>chat_state := chat_state (statics (process sample_nginz))\<rparr>\<rparr>,
       tcp = tcp_listener_static no_loop, ctl = open_shell\<lparr>internal_unix_socket := -1\<rparr>, db_table = None\<rparr> = Inr v \<and>
    core_container (booted v) = late \<and>
    (\<forall>space input out w. str space \<notin> bridge_spaces \<longrightarrow>
      (\<exists>r. pm_call ref_aroop ref_table (\<lambda>f i out (w :: nat). Inr (0, out, w + 1)) (Some late) space input out w = Inr r)) \<and>
    (\<forall>space sg d w. str space = lit ''fork/child/after'' \<longrightarrow>
       pm_bridge_call ref_aroop ref_table (\<lambda>f sg (d :: unit) w. Inr (0, w @ [f])) (Some late) space sg d w = Inl AssertFailed)"
    using T sample_start ab unfolding l by fastforce
  then show ?thesis using k by fastforce
qed

text \<open>(C21) The master stops serving: when nothing is ready at its last poll, the part of \<open>nginz_main\<close> after the chat's
  deinit functions closes the listening socket and the one of the shell once each, takes exactly their two entries out of
  the event loop, drops the database, and leaves no fiber that polls.\<close>

theorem master_stops_serving:
  assumes "aroop_ok (lib E)" and "platform_ok P" and "serving P base v" and "fst polled = 0"
    and "shell_socket (shell_calls P) \<notin> fst ` set_mset base" and "sys_socket (net_calls P) 0 \<notin> fst ` set_mset base"
    and "i < MAX_FIBERS" and "fiber (fibers (chat_fibers (statics (booted v))) i) = Some Event_loop_step"
    and "\<forall>j. j \<noteq> i \<longrightarrow> fiber (fibers (chat_fibers (statics (booted v))) j) \<noteq> Some Event_loop_step"
  shows "\<exists>v'. nginz_stop_services E H polled v = Inr v' \<and> live_entries (listen_loop (tcp v')) = base \<and>
    closed_fds (tcp v') = closed_fds (tcp v) @ [sys_socket (net_calls P) 0] \<and>
    shell_closed (ctl v') = shell_closed (ctl v) @ [shell_socket (shell_calls P)] \<and>
    internal_unix_socket (ctl v') = -1 \<and> (\<forall>i. tcp_sockets (tcp v') i = -1) \<and> db_table v' = None \<and>
    (\<forall>j. fiber (fibers (chat_fibers (statics (booted v'))) j) \<noteq> Some Event_loop_step) \<and>
    recv_buffer (pipe (chat_state (statics (booted v')))) = zero_txt"
proof -
  let ?fs0 = "chat_fibers (statics (booted v))" and ?f = "shell_socket (shell_calls P)"
  obtain l where l: "in_order [nginz_db_module_deinit E, nginz_net_deinit] v = Inr (v\<lparr>db_table := None, tcp := l\<rparr>)"
    "nfds (listen_loop l) \<le> MAX_POLL_FD" "live_entries (listen_loop l) = add_mset (shell_entry P) base"
    "closed_fds l = closed_fds (tcp v) @ [sys_socket (net_calls P) 0]" "\<forall>i. tcp_sockets l i = -1"
    using serving_db_net [OF assms(3,2,5,6), of E] by blast
  let ?v1 = "v\<lparr>db_table := None, tcp := l\<rparr>"
  obtain el fs where e: "event_loop_module_deinit E H polled ?v1 = Inr (set_fibers fs (?v1\<lparr>tcp := l\<lparr>listen_loop := el\<rparr>\<rparr>))"
    "nfds el = nfds (listen_loop l)" "live_entries el = live_entries (listen_loop l)"
    "fibers fs = (fibers ?fs0)(i := (fibers ?fs0 i)\<lparr>status := FIBER_STATUS_EMPTY, fiber := None\<rparr>)"
    using event_loop_deinit_quiet [where E = E and H = H, OF assms(4,7), of ?v1] assms(8,9) by (auto intro: that)
  define v2 where "v2 = set_fibers fs (?v1\<lparr>tcp := l\<lparr>listen_loop := el\<rparr>\<rparr>)"
  have v2: "tcp v2 = l\<lparr>listen_loop := el\<rparr>" "ctl v2 = ctl v" "db_table v2 = None" "chat_fibers (statics (booted v2)) = fs"
    "at_master v2"
    using assms(3) by (simp_all add: v2_def set_fibers_def serving_def at_master_def)
  have fl: "NGINZ_POLL_ALL_FLAGS \<noteq> 0" by code_simp
  have u: "live_entries (event_loop_unregister_fd ?f el) = base"
    using unregister_one [of el ?f "(Some (shake_cb P), null_data P, NGINZ_POLL_ALL_FLAGS)" base] e(2,3) l(2,3) assms(5) fl
    by (simp add: shell_entry_def)
  have f: "?f \<noteq> -1" "internal_unix_socket (ctl v) = ?f" using assms(2,3) by (auto simp: platform_ok_def Let_def serving_def)
  let ?sh = "(ctl v)\<lparr>shell_loop := event_loop_unregister_fd ?f el, shell_closed := shell_closed (ctl v) @ [?f], internal_unix_socket := -1\<rparr>"
  define v3 where "v3 = v2\<lparr>ctl := ?sh, tcp := l\<lparr>listen_loop := event_loop_unregister_fd ?f el\<rparr>\<rparr>"
  have s3: "serve_shell_deinit v2 = Inr v3"
    using v2 f by (simp add: serve_shell_deinit_def shake_module_deinit_def Let_def v3_def)
  have v3: "tcp v3 = l\<lparr>listen_loop := event_loop_unregister_fd ?f el\<rparr>" "ctl v3 = ?sh" "db_table v3 = None"
    "chat_fibers (statics (booted v3)) = fs" by (simp_all add: v3_def v2)
  have fr: "free_slot fs i" by (simp add: free_slot_def e(4))
  obtain k fs' where k: "register_fiber_full (lib E) Lazy_call_step ''lazy_call.c'' 53 fs = Inr (0, fs')"
    "fibers fs' = (fibers fs)(k := \<lparr>status = FIBER_STATUS_CREATED, fiber = Some Lazy_call_step, filename = ''lazy_call.c'', lineno = 53\<rparr>)"
    using register_free [OF assms(7) fr] by blast
  have s4: "serve_lazy_deinit E v3 = Inr (set_fibers fs' v3)" using k(1) by (simp add: serve_lazy_deinit_def lazy_call_module_deinit_def v3(4))
  define v4 where "v4 = set_fibers fs' v3"
  let ?b = "(booted v4)\<lparr>statics := (statics (booted v4))\<lparr>chat_state := pipe_update (\<lambda>s. s\<lparr>recv_buffer := aroop_txt_destroy (lib E) (recv_buffer s)\<rparr>)
      (chat_state (statics (booted v4)))\<rparr>\<rparr>"
  have s5: "pp_module_deinit E v4 = Inr (v4\<lparr>booted := ?b\<rparr>)"
    by (simp add: pp_module_deinit_def serve_boot_def on_statics_def set_state_def)
  have v4: "tcp v4 = tcp v3" "ctl v4 = ctl v3" "db_table v4 = None" "chat_fibers (statics (booted v4)) = fs'"
    by (simp_all add: v4_def set_fibers_def v3(3))
  have "nginz_stop_services E H polled v = Inr (v4\<lparr>booted := ?b\<rparr>)"
    using l(1) e(1) [folded v2_def] s3 s4 [folded v4_def] s5
    by (auto simp: nginz_stop_services_def nginz_core_deinit_def in_order_def andthen_def ebind_Inr_iff)
  moreover have "fiber (fibers fs' j) \<noteq> Some Event_loop_step" for j
    using assms(9) by (simp add: k(2) e(4))
  moreover have "aroop_txt_destroy (lib E) t = zero_txt" for t using assms(1) by (simp add: aroop_ok_def create_laws_def)
  ultimately show ?thesis using u l(4,5) by (intro exI [of _ "v4\<lparr>booted := ?b\<rparr>"]) (simp add: v4 v3)
qed

text \<open>A master with its two entries in the event loop and the fiber of the loop in the first slot.\<close>

definition sample_server :: "((bytes \<times> nat) list, (target \<times> bytes \<times> int) list, nat, unit, nat) server" where
  "sample_server =
     \<lparr>booted = sample_boot\<lparr>statics := (statics sample_boot)\<lparr>chat_fibers :=
        \<lparr>fibers = (\<lambda>_. \<lparr>status = FIBER_STATUS_EMPTY, fiber = None, filename = '''', lineno = 0\<rparr>)
           (0 := \<lparr>status = FIBER_STATUS_ACTIVATED, fiber = Some Event_loop_step, filename = '''', lineno = 0\<rparr>),
         internal_quit = True\<rparr>\<rparr>\<rparr>,
      tcp = \<lparr>tcp_ports = (\<lambda>_. 0)(0 := NGINZ_CHAT_PORT), tcp_sockets = (\<lambda>_. -1)(0 := 7),
        listen_loop = \<lparr>fds = (\<lambda>i. if i = 0 then \<lparr>fd = 5, events = NGINZ_POLL_ALL_FLAGS, revents = 0\<rparr>
             else \<lparr>fd = 7, events = NGINZ_POLL_LISTEN_FLAGS, revents = 0\<rparr>),
           cbs = (\<lambda>i. \<lparr>on_event = Some (if i = 0 then 1 else 2), event_data = ()\<rparr>), nfds = 2\<rparr>, closed_fds = []\<rparr>,
      ctl = open_shell, db_table = Some 0\<rparr>"

lemma sample_serving: "serving sample_platform {#} sample_server"
proof -
  have fl: "NGINZ_POLL_ALL_FLAGS \<noteq> 0" "NGINZ_POLL_LISTEN_FLAGS \<noteq> 0" by code_simp+
  have "at_master sample_server"
    using sample_world_master by (simp add: at_master_def sample_server_def sample_nginz_def)
  moreover have "live_entries (listen_loop (tcp sample_server)) = {#shell_entry sample_platform, chat_entry sample_platform#}"
    using fl by (simp add: sample_server_def live_entries_def numeral_2_eq_2 entry_at_def shell_entry_def chat_entry_def
        sample_platform_def good_sys_def)
  ultimately show ?thesis
    by (simp add: serving_def) (simp add: sample_server_def open_shell_def sample_platform_def good_sys_def MAX_POLL_FD_def)
qed

lemma master_stops_serving_witness:
  "\<exists>v'. nginz_stop_services master_env (\<lambda>cb f rev d w s. Inr (w, s)) (0, \<lambda>_. 0) sample_server = Inr v' \<and>
    live_entries (listen_loop (tcp v')) = {#} \<and> closed_fds (tcp v') = [7] \<and> shell_closed (ctl v') = [5] \<and> db_table v' = None"
proof -
  let ?fs = "fibers (chat_fibers (statics (booted sample_server)))"
  have f: "fiber (?fs 0) = Some Event_loop_step" "\<forall>j. j \<noteq> 0 \<longrightarrow> fiber (?fs j) \<noteq> Some Event_loop_step" "0 < MAX_FIBERS"
    by (simp_all add: sample_server_def MAX_FIBERS_def)
  have c: "closed_fds (tcp sample_server) = []" "shell_closed (ctl sample_server) = []"
    "sys_socket (net_calls sample_platform) 0 = 7" "shell_socket (shell_calls sample_platform) = 5"
    by (simp_all add: sample_server_def open_shell_def sample_platform_def good_sys_def)
  show ?thesis
    using master_stops_serving [OF sample_start(1) sample_platform_ok sample_serving _ _ _ f(3,1,2),
        of "(0, \<lambda>_. 0)" "\<lambda>cb f rev d w s. Inr (w, s)"] c by auto
qed

end
