(* ===== verification/LegacyTest.thy ===== *)
theory LegacyTest
  imports LegacyCoder
begin

text \<open>
  The dump and the self test of \<open>base/src/binary_coder.c\<close>. The dump has no bound of its own: it reads field after field
  until one is empty or an error, so it takes the number of fields it may visit as fuel, and running out is a fault. The
  test calls \<open>binary_coder_reset_for_pid\<close>, whose definition in this file is compiled out; it is taken as it is written there.
\<close>

section \<open>Code\<close>

definition legacy_reset_for_pid :: "aroop \<Rightarrow> aroop_txt_t \<Rightarrow> 32 word \<Rightarrow> aroop_txt_t exec" where
  "legacy_reset_for_pid A buffer destpid =
     ebind (aroop_assert A (-1 <s destpid)) (\<lambda>_.
     ebind (legacy_coder_reset A buffer) (\<lambda>b. Inr (snd (legacy_pack_int A b destpid))))"

text \<open>The last argument holds the lines printed so far.\<close>

fun legacy_dump_loop ::
    "aroop \<Rightarrow> aroop_txt_t \<Rightarrow> nat \<Rightarrow> nat \<Rightarrow> aroop_txt_t list \<Rightarrow> (int \<times> aroop_txt_t list) exec" where
  "legacy_dump_loop A buffer 0 skip out = Inl Diverges"
| "legacy_dump_loop A buffer (Suc fuel) skip out =
     ebind (legacy_unpack_string A buffer skip zero_txt) (\<lambda>(ret, x).
       if ret \<noteq> 0 then Inr (-1, out)
       else if t_len x = 0 then Inr (0, out)
       else
         let sandbox = aroop_txt_zero_terminate A (aroop_txt_concat A (aroop_txt_stackbuffer A 32) x)
         in legacy_dump_loop A buffer fuel (Suc skip) (out @ [sandbox]))"

definition legacy_debug_dump :: "aroop \<Rightarrow> nat \<Rightarrow> aroop_txt_t \<Rightarrow> (int \<times> aroop_txt_t list) exec" where
  "legacy_debug_dump A fuel buffer = legacy_dump_loop A buffer fuel 0 []"

text \<open>True means that the test failed.\<close>

definition legacy_test_helper :: "aroop \<Rightarrow> nat \<Rightarrow> 32 word \<Rightarrow> bool exec" where
  "legacy_test_helper A fuel expval =
     ebind (legacy_reset_for_pid A (aroop_txt_stackbuffer A 255) expval) (\<lambda>bin0.
     let bin1 = snd (legacy_pack_int A bin0 expval);
         str0 = aroop_txt_static_string A (lit ''test'');
         bin2 = snd (legacy_pack_string A bin1 str0)
     in ebind (legacy_debug_dump A fuel bin2) (\<lambda>_.
        ebind (legacy_unpack_int A bin2 0 0) (\<lambda>(_, intval).
        ebind (legacy_unpack_int A bin2 1 0) (\<lambda>(_, intval2).
        ebind (legacy_unpack_string A bin2 2 zero_txt) (\<lambda>(_, strval).
        let strval' = aroop_txt_zero_terminate A strval;
            str' = aroop_txt_zero_terminate A str0
        in Inr (\<not> (intval = expval \<and> intval2 = expval \<and> aroop_txt_equals A strval' str')))))))"

definition legacy_coder_test :: "aroop \<Rightarrow> nat \<Rightarrow> (int \<times> aroop_txt_t) exec" where
  "legacy_coder_test A fuel =
     (let output0 = aroop_txt_buffer A 512
      in ebind (legacy_test_helper A fuel 32) (\<lambda>failed.
         ebind (if failed then Inr True else legacy_test_helper A fuel 0) (\<lambda>failed.
         Inr (0, if failed then aroop_txt_printf A output0 (lit ''FAILED'' @ [10])
                 else aroop_txt_concat_string A output0 (lit ''successful'' @ [10])))))"

section \<open>Behind the last field\<close>

text \<open>Where the message ends, reading leaves the output as it was, without an error.\<close>

lemma legacy_loop_past:
  assumes A: "aroop_ok A" and b: "legacy_packed b xs" and sz: "legacy_size xs \<le> 127"
    and "i + k = length xs" and "0 < k"
  shows "legacy_unpack_loop A b (of_nat (legacy_size xs)) k (of_nat (legacy_size (take i xs))) x = (0, x)"
  using assms(4,5)
proof (induction k arbitrary: i)
  case (Suc k)
  let ?p = "legacy_size (take i xs)" and ?l = "length (xs ! i)"
  have i: "i < length xs" using Suc.prems by simp
  have p: "legacy_size (take (Suc i) xs) = ?p + 1 + ?l" using legacy_size_take_Suc [OF i] .
  have q: "legacy_size (take (Suc i) xs) \<le> legacy_size xs" by (rule legacy_size_take_le)
  have wf: "wf_txt b" "t_len b = legacy_size xs"
    using b legacy_len [OF b] by (simp_all add: legacy_packed_def)
  have c: "aroop_txt_char_at A b ?p = of_nat ?l"
    using char_at_law [OF A wf(1)] p q wf(2) legacy_mem(1) [OF b i] by simp
  have n: "of_nat ?p + of_nat ?l + 1 = (of_nat (legacy_size (take (Suc i) xs)) :: byte)" by (simp add: p)
  note facts = p q sz char_arg_byte [of ?p] sint_byte [of ?p] sint_byte [of ?l] c n
    sint_byte [of "legacy_size xs"] sint_byte [of "legacy_size (take (Suc i) xs)"]
  show ?case
  proof (cases k)
    case 0
    then have "take (Suc i) xs = xs" using Suc.prems by simp
    then show ?thesis using facts 0 by (simp add: Let_def ac_simps)
  next
    case (Suc k')
    have "legacy_size (take (Suc i) xs) < legacy_size xs"
      using legacy_size_take_Suc [of "Suc i" xs] legacy_size_take_le [of "Suc (Suc i)" xs] Suc.prems Suc by simp
    then show ?thesis using facts Suc.IH [of "Suc i"] Suc.prems Suc by (simp add: Let_def ac_simps)
  qed
qed simp

lemma legacy_unpack_past:
  assumes A: "aroop_ok A" and b: "legacy_packed b xs" and sz: "legacy_size xs \<le> 127"
  shows "legacy_unpack_string A b (length xs) x = Inr (0, x)"
proof (cases "xs = []")
  case True
  then have "t_len b = 1" using legacy_len [OF b] by (simp add: legacy_size_def)
  then show ?thesis by (simp add: legacy_unpack_string_def)
next
  case False
  have wf: "wf_txt b" "str b = legacy_msg xs" "t_len b = legacy_size xs"
    using b legacy_len [OF b] by (simp_all add: legacy_packed_def)
  have g: "1 < legacy_size xs" using False by (cases xs) (simp_all add: legacy_size_def)
  have "t_mem b ! 0 = str b ! 0" using g wf(3) by (simp add: str_def)
  then have c: "aroop_txt_char_at A b 0 = of_nat (legacy_size xs)"
    using char_at_law [OF A wf(1)] wf(2,3) g by (simp add: legacy_msg_def)
  have one: "(of_nat (legacy_size xs) :: byte) \<noteq> 1"
    using g sz sint_byte [of "legacy_size xs"] by auto
  have "legacy_unpack_loop A b (of_nat (legacy_size xs)) (length xs) 1 x = (0, x)"
    using legacy_loop_past [OF A b sz, of 0 "length xs" x] False by (simp add: legacy_size_def)
  then show ?thesis
    using one c g sz sint_byte [of "legacy_size xs"] wf(3) by (simp add: legacy_unpack_string_def Let_def)
qed

lemma legacy_dump_loop_result:
  assumes A: "aroop_ok A" and b: "legacy_packed b xs" and sz: "legacy_size xs \<le> 127"
    and x: "\<forall>x \<in> set xs. x \<noteq> [] \<and> length x \<le> 32" and "skip + k = length xs" and "k < fuel"
  shows "\<exists>lines. legacy_dump_loop A b fuel skip out = Inr (0, out @ lines) \<and> map str lines = drop skip xs"
  using assms(5,6)
proof (induction k arbitrary: fuel skip out)
  case 0
  then obtain n where "fuel = Suc n" by (cases fuel) simp_all
  then show ?case using legacy_unpack_past [OF A b sz] 0 by simp
next
  case (Suc k)
  obtain n where n: "fuel = Suc n" "k < n" using Suc.prems by (cases fuel) simp_all
  have i: "skip < length xs" using Suc.prems by simp
  obtain y where y: "legacy_unpack_string A b skip zero_txt = Inr (0, y)" "str y = xs ! skip" "wf_txt y"
    using legacy_unpack_wf [OF A b sz i] by blast
  have l: "t_len y = length (xs ! skip)" using length_str [OF y(3)] y(2) by simp
  have ne: "t_len y \<noteq> 0" "t_len y \<le> 32" using x i l by auto
  let ?box = "aroop_txt_stackbuffer A 32"
  have box: "wf_txt ?box" "t_len ?box = 0" "32 < t_cap ?box" using A by (simp_all add: aroop_ok_def create_laws_def)
  have ap: "appends ?box (str y) (aroop_txt_concat A ?box y)"
    using concat_appends [OF A box(1) y(3)] box ne by simp
  have "str (aroop_txt_zero_terminate A (aroop_txt_concat A ?box y)) = xs ! skip"
    using appendsD [OF ap] box(2) y(2) zero_terminate_laws [OF A] by (simp add: str_def)
  moreover obtain lines where "legacy_dump_loop A b n (Suc skip) (out @ [aroop_txt_zero_terminate A (aroop_txt_concat A ?box y)]) =
      Inr (0, (out @ [aroop_txt_zero_terminate A (aroop_txt_concat A ?box y)]) @ lines)" "map str lines = drop (Suc skip) xs"
    using Suc.IH [of "Suc skip" n] Suc.prems n(2) by fastforce
  ultimately show ?case
    using y(1) ne(1) n(1) i
    by (intro exI [of _ "aroop_txt_zero_terminate A (aroop_txt_concat A ?box y) # lines"]) (simp add: Cons_nth_drop_Suc)
qed

section \<open>Properties\<close>

text \<open>The dump of the older format ends and prints every field of a message, each on its line: when no field is empty
  (an empty one would be taken for the end) or longer than the 32 bytes of the line, and the message takes at
  most 127 bytes.\<close>

theorem legacy_dump_prints_fields:
  assumes "aroop_ok A" and "legacy_packed b xs" and "legacy_size xs \<le> 127"
    and "\<forall>x \<in> set xs. x \<noteq> [] \<and> length x \<le> 32" and "length xs < fuel"
  shows "\<exists>lines. legacy_debug_dump A fuel b = Inr (0, lines) \<and> map str lines = xs"
  using legacy_dump_loop_result [OF assms(1-4), of 0 "length xs" fuel "[]"] assms(5)
  by (simp add: legacy_debug_dump_def)

lemma legacy_dump_prints_fields_witness:
  "\<exists>lines. legacy_debug_dump ref_aroop 3 (txt_of (legacy_msg [lit ''join'', lit ''room'']) \<lparr>t_mem := legacy_msg [lit ''join'', lit ''room''] @ replicate 256 0\<rparr>)
     = Inr (0, lines) \<and> map str lines = [lit ''join'', lit ''room'']"
  by (rule legacy_dump_prints_fields)
    (simp_all add: legacy_packed_def wf_txt_def t_cap_def txt_of_def str_def legacy_msg_def legacy_size_def)

text \<open>The self test of the older coder reports success for every argument that is not negative: the dump ends, and both
  ints and the string come back as they were packed. (Its extended twin stops at the first field when assertions abort.)\<close>

theorem legacy_self_test_passes:
  assumes "aroop_ok A" and "0 \<le>s v" and "3 < fuel"
  shows "legacy_test_helper A fuel v = Inr False"
proof -
  note A = assms(1)
  let ?b = "aroop_txt_stackbuffer A 255" and ?t = "aroop_txt_static_string A (lit ''test'')"
  let ?i = "txt_of (int_bytes v)"
  have t: "wf_txt ?t" "str ?t = lit ''test''" using static_laws [OF A] by simp_all
  have b: "wf_txt ?b" "256 \<le> t_cap ?b" using buffer_laws(3) [OF A] buffer_cap(2) [OF A, of 255] by simp_all
  obtain b0 where b0: "legacy_coder_reset A ?b = Inr b0" "legacy_packed b0 []" "t_cap b0 = t_cap ?b"
    using legacy_reset_packed [OF A b] by blast
  note L = length_int_bytes [of v]
  have s: "legacy_size [str ?i] \<le> 6" "legacy_size [str ?i, str ?i] \<le> 11" "legacy_size [str ?i, str ?i, str ?t] \<le> 16"
    using length_int_bytes_le [of v] by (simp_all add: legacy_size_def t(2))
  obtain b1 where b1: "legacy_pack_string A b0 ?i = (0, b1)" "legacy_packed b1 [str ?i]" "t_cap b1 = t_cap ?b"
    using legacy_pack_packed [OF A b0(2), of ?i] s(1) b(2) b0(3) by auto
  obtain b2 where b2: "legacy_pack_string A b1 ?i = (0, b2)" "legacy_packed b2 [str ?i, str ?i]" "t_cap b2 = t_cap ?b"
    using legacy_pack_packed [OF A b1(2), of ?i] s(2) b(2) b1(3) by auto
  obtain b3 where b3: "legacy_pack_string A b2 ?t = (0, b3)" "legacy_packed b3 [str ?i, str ?i, str ?t]"
    using legacy_pack_packed [OF A b2(2) t(1)] s(3) b(2) b2(3) by auto
  have sz: "legacy_size [str ?i, str ?i, str ?t] \<le> 127" using s(3) by simp
  have "\<forall>x \<in> set [str ?i, str ?i, str ?t]. x \<noteq> [] \<and> length x \<le> 32"
    using L by (auto simp: t(2) split: if_splits)
  then obtain ls where d: "legacy_debug_dump A fuel b3 = Inr (0, ls)"
    using legacy_dump_loop_result [OF A b3(2) sz, of 0 3 fuel "[]"] assms(3) by (auto simp: legacy_debug_dump_def)
  have int: "legacy_unpack_int A b3 i 0 = Inr (0, v)" if i: "i < 2" for i
  proof -
    obtain y where "legacy_unpack_string A b3 i zero_txt = Inr (0, y)" "str y = int_bytes v" "wf_txt y"
      using legacy_unpack_wf [OF A b3(2) sz, of i zero_txt] i by (auto simp: less_2_cases_iff)
    then show ?thesis using int_of_txt_bytes [of y v] nonneg_int_value [OF assms(2)] by (simp add: legacy_unpack_int_def)
  qed
  obtain y where y: "legacy_unpack_string A b3 2 zero_txt = Inr (0, y)" "str y = lit ''test''" "wf_txt y"
    using legacy_unpack_wf [OF A b3(2) sz, of 2 zero_txt] t(2) by auto
  have e: "aroop_txt_equals A (aroop_txt_zero_terminate A y) (aroop_txt_zero_terminate A ?t)"
    using y t by (simp add: equals_law [OF A] zero_terminate_laws [OF A])
  have pid: "-1 <s v" using assms(2) by (simp add: word_sless_alt word_sle_eq)
  show ?thesis
    using b0(1) b1(1) b2(1) b3(1) d int [of 0] int [of 1] y(1) e pid
    by (simp add: legacy_test_helper_def legacy_reset_for_pid_def legacy_pack_int_def Let_def)
qed

lemma legacy_self_test_passes_witness:
  "legacy_test_helper ref_aroop 4 32 = Inr False \<and> legacy_test_helper ref_aroop 4 0 = Inr False"
proof -
  have "(0 :: 32 word) \<le>s 32" "(0 :: 32 word) \<le>s 0" by code_simp+
  then show ?thesis using legacy_self_test_passes [of ref_aroop 32 4] legacy_self_test_passes [of ref_aroop 0 4] by simp
qed

end
