(* ===== verification/PartitionedTest.thy ===== *)
theory PartitionedTest
  imports PartitionedLoop
begin

text \<open>
  The self test of \<open>base/src/event_loop_partitioned_openmp_poll.c\<close>. It works on the live tables: 1024 fake descriptors
  from 100 up are registered, some of the first hundred are unregistered at random, the tables are compacted and checked,
  and the rest is unregistered. What \<open>rand\<close> returns is a list, one number for each of the hundred rounds; the flags
  \<open>removed_fake_fds\<close> are the set of the indices for which the flag is set.
\<close>

section \<open>Code\<close>

definition FAKE_FD_COUNT :: nat where "FAKE_FD_COUNT = 1024"

definition fake_fd :: "nat \<Rightarrow> int" where "fake_fd i = int i + 100"

fun part_add_fakes :: "aroop \<Rightarrow> 'c \<Rightarrow> 'd \<Rightarrow> nat list \<Rightarrow> ('c, 'd) part_state \<Rightarrow> ('c, 'd) part_state exec" where
  "part_add_fakes A cb null [] s = Inr s"
| "part_add_fakes A cb null (i # is) s =
     ebind (part_register_fd A (fake_fd i) (Some cb) null NGINZ_POLL_ALL_FLAGS s) (part_add_fakes A cb null is)"

text \<open>The round \<open>i\<close> looks at the flag of a random descriptor, and then removes the descriptor \<open>i\<close>.\<close>

fun part_remove_some ::
    "nat list \<Rightarrow> nat \<Rightarrow> nat set \<Rightarrow> int \<Rightarrow> ('c, 'd) part_state \<Rightarrow> (nat set \<times> int \<times> ('c, 'd) part_state) exec" where
  "part_remove_some [] i removed mycount s = Inr (removed, mycount, s)"
| "part_remove_some (r # rs) i removed mycount s =
     (let intval = r mod FAKE_FD_COUNT
      in if intval \<in> removed then part_remove_some rs (i + 1) removed mycount s
         else ebind (part_unregister_fd (fake_fd i) s) (part_remove_some rs (i + 1) (insert i removed) (mycount - 1)))"

text \<open>True means that the tables agree with the flags.\<close>

fun part_integrity :: "nat list \<Rightarrow> nat set \<Rightarrow> ('c, 'd) part_state \<Rightarrow> bool exec" where
  "part_integrity [] removed s = Inr True"
| "part_integrity (i # is) removed s =
     ebind (part_test_exists_fd (fake_fd i) s) (\<lambda>found.
       if i \<in> removed then (if found then Inr False else part_integrity is removed s)
       else if \<not> found then Inr False
       else part_integrity is removed s)"

fun part_remove_rest :: "nat list \<Rightarrow> nat set \<Rightarrow> ('c, 'd) part_state \<Rightarrow> ('c, 'd) part_state exec" where
  "part_remove_rest [] removed s = Inr s"
| "part_remove_rest (i # is) removed s =
     (if i \<in> removed then part_remove_rest is removed s
      else ebind (part_unregister_fd (fake_fd i) s) (part_remove_rest is removed))"

text \<open>The last comparison of the counts is only logged.\<close>

definition part_test_helper ::
    "aroop \<Rightarrow> 'c \<Rightarrow> 'd \<Rightarrow> nat list \<Rightarrow> ('c, 'd) part_state \<Rightarrow> (int \<times> ('c, 'd) part_state) exec" where
  "part_test_helper A cb null rs s =
     (let mycount = int (part_fd_count s) + int FAKE_FD_COUNT
      in ebind (part_add_fakes A cb null [0..<FAKE_FD_COUNT] s) (\<lambda>s1.
         if int (part_fd_count s1) \<noteq> mycount then Inr (-1, s1)
         else ebind (part_remove_some rs 0 {} mycount s1) (\<lambda>(removed, mycount, s2).
         let s3 = part_compact s2
         in if int (part_fd_count s3) \<noteq> mycount then Inr (-1, s3)
            else ebind (part_integrity [0..<FAKE_FD_COUNT] removed s3) (\<lambda>ok.
                 if \<not> ok then Inr (-1, s3)
                 else ebind (part_remove_rest [0..<FAKE_FD_COUNT] removed s3) (\<lambda>s4. Inr (0, part_compact s4))))))"

text \<open>The command that runs the test, on what the helper returned.\<close>

definition part_test_text :: "aroop \<Rightarrow> int \<Rightarrow> aroop_txt_t" where
  "part_test_text A r =
     (let output0 = aroop_txt_concat_string A (aroop_txt_buffer A 512) (lit ''You should not run this test on loaded server'' @ [10])
      in aroop_txt_concat_string A output0
           (if r \<noteq> 0 then lit ''event_loop.c:FAILED'' @ [10] else lit ''event_loop.c:successful'' @ [10]))"

definition part_test ::
    "aroop \<Rightarrow> 'c \<Rightarrow> 'd \<Rightarrow> nat list \<Rightarrow> ('c, 'd) part_state \<Rightarrow> (int \<times> aroop_txt_t \<times> ('c, 'd) part_state) exec" where
  "part_test A cb null rs s = ebind (part_test_helper A cb null rs s) (\<lambda>(r, s'). Inr (0, part_test_text A r, s'))"

section \<open>The entries of the fake descriptors\<close>

definition fake_entry :: "'c \<Rightarrow> 'd \<Rightarrow> nat \<Rightarrow> ('c, 'd) entry" where
  "fake_entry cb null i = (fake_fd i, Some cb, null, NGINZ_POLL_ALL_FLAGS)"

lemma flags_nonzero: "NGINZ_POLL_ALL_FLAGS \<noteq> 0"
  by code_simp

lemma fake_fd_nonneg [simp]: "0 \<le> fake_fd i"
  by (simp add: fake_fd_def)

lemma fake_fd_eq [simp]: "fake_fd i = fake_fd j \<longleftrightarrow> i = j"
  by (simp add: fake_fd_def)

lemma fst_fake_entry [simp]: "fst (fake_entry cb null i) = fake_fd i"
  by (simp add: fake_entry_def)

text \<open>The tables hold what was registered before and the fakes \<open>is\<close>, none of which was in use.\<close>

definition with_fakes :: "'c \<Rightarrow> 'd \<Rightarrow> ('c, 'd) entry multiset \<Rightarrow> nat set \<Rightarrow> ('c, 'd) part_state \<Rightarrow> bool" where
  "with_fakes cb null L I s \<longleftrightarrow> part_inv s \<and> finite I \<and> I \<subseteq> {..<FAKE_FD_COUNT} \<and>
     part_live s = L + image_mset (fake_entry cb null) (mset_set I)"

definition no_fake :: "('c, 'd) entry multiset \<Rightarrow> bool" where
  "no_fake L \<longleftrightarrow> (\<forall>i < FAKE_FD_COUNT. fake_fd i \<notin> fst ` set_mset L)"

lemma with_fakes_mem:
  assumes "with_fakes cb null L I s" and "no_fake L" and "i < FAKE_FD_COUNT"
  shows "fake_fd i \<in> fst ` set_mset (part_live s) \<longleftrightarrow> i \<in> I"
proof -
  have I: "finite I" "part_live s = L + image_mset (fake_entry cb null) (mset_set I)"
    using assms(1) by (simp_all add: with_fakes_def)
  then have "fst ` set_mset (part_live s) = fst ` set_mset L \<union> fake_fd ` I" by (simp add: image_Un image_image)
  then show ?thesis using assms(2,3) by (auto simp: no_fake_def)
qed

lemma add_fakes_result:
  assumes "part_inv s" and "part_room s (length is)" and "distinct is" and "set is \<inter> I = {}" and "set is \<subseteq> {..<FAKE_FD_COUNT}"
    and "with_fakes cb null L I s"
  shows "\<exists>s'. part_add_fakes A cb null is s = Inr s' \<and> with_fakes cb null L (I \<union> set is) s' \<and>
    grand_nfds s' = grand_nfds s + length is"
  using assms
proof (induction "is" arbitrary: s I)
  case (Cons i "is")
  obtain s1 where s1: "part_register_fd A (fake_fd i) (Some cb) null NGINZ_POLL_ALL_FLAGS s = Inr s1" "part_inv s1"
    "part_room s1 (length is)" "part_live s1 = add_mset (fake_entry cb null i) (part_live s)"
    using part_register_live [OF Cons.prems(1) _ fake_fd_nonneg flags_nonzero, where n = "length is" and A = A] Cons.prems(2)
    unfolding fake_entry_def by force
  have g: "grand_nfds s1 = Suc (grand_nfds s)"
    using s1(1) by (auto simp: part_register_fd_def ebind_Inr_iff Let_def split: if_splits)
  have "with_fakes cb null L (insert i I) s1"
    using Cons.prems s1(2,4) by (auto simp: with_fakes_def)
  then obtain s' where "part_add_fakes A cb null is s1 = Inr s'" "with_fakes cb null L (insert i I \<union> set is) s'"
    "grand_nfds s' = grand_nfds s1 + length is"
    using Cons.IH [OF s1(2,3), of "insert i I"] Cons.prems by auto
  then show ?case using s1(1) g by auto
qed simp

text \<open>Unregistering one fake.\<close>

lemma remove_fake:
  assumes "with_fakes cb null L I s" and "no_fake L" and "i \<in> I"
  shows "\<exists>s'. part_unregister_fd (fake_fd i) s = Inr s' \<and> with_fakes cb null L (I - {i}) s'"
proof -
  have i: "i < FAKE_FD_COUNT" "part_inv s" "finite I" "I \<subseteq> {..<FAKE_FD_COUNT}"
    and l: "part_live s = L + image_mset (fake_entry cb null) (mset_set I)"
    using assms(1,3) by (auto simp: with_fakes_def)
  have "fake_fd i \<in># image_mset fst (part_live s)" using with_fakes_mem [OF assms(1,2) i(1)] assms(3) by simp
  moreover have "part_valid (fake_fd i) (Some cb, null, NGINZ_POLL_ALL_FLAGS)" by (simp add: part_valid_def flags_nonzero)
  ultimately obtain s' e where s': "part_unregister_fd (fake_fd i) s = Inr s'" "part_inv s'"
    "part_live s = add_mset (fake_fd i, e) (part_live s')"
    using part.unregister_present [OF i(2)] by blast
  have "(fake_fd i, e) \<in># part_live s" using s'(3) by simp
  moreover have "(fake_fd i, e) \<notin># L" using assms(2) i(1) by (force simp: no_fake_def)
  ultimately have "(fake_fd i, e) \<in># image_mset (fake_entry cb null) (mset_set I)" using l by simp
  then have e: "(fake_fd i, e) = fake_entry cb null i" using i(3) by (auto simp: fake_entry_def)
  have "mset_set I = add_mset i (mset_set (I - {i}))" using i(3) assms(3) by (simp add: mset_set.remove)
  then have "part_live s' = L + image_mset (fake_entry cb null) (mset_set (I - {i}))" using s'(3) l e by simp
  then show ?thesis using s'(1,2) i(3,4) by (auto simp: with_fakes_def)
qed

lemma remove_some_result:
  assumes "with_fakes cb null L ({..<FAKE_FD_COUNT} - R) s" and "no_fake L" and "R \<subseteq> {..<i}"
    and "i + length rs \<le> FAKE_FD_COUNT"
  shows "\<exists>R' n s'. part_remove_some rs i R mycount s = Inr (R', n, s') \<and> R' \<subseteq> {..<i + length rs} \<and>
    with_fakes cb null L ({..<FAKE_FD_COUNT} - R') s' \<and> n + int (card R') = mycount + int (card R)"
  using assms
proof (induction rs arbitrary: i R mycount s)
  case (Cons r rs)
  have sub: "R \<subseteq> {..<i + 1}" using Cons.prems(3) by auto
  show ?case
  proof (cases "r mod FAKE_FD_COUNT \<in> R")
    case True
    obtain R' n s' where *: "part_remove_some rs (i + 1) R mycount s = Inr (R', n, s')" "R' \<subseteq> {..<i + 1 + length rs}"
      "with_fakes cb null L ({..<FAKE_FD_COUNT} - R') s'" "n + int (card R') = mycount + int (card R)"
      using Cons.IH [OF Cons.prems(1,2) sub, of mycount] Cons.prems(4) by auto
    show ?thesis by (rule exI [of _ R'], rule exI [of _ n], rule exI [of _ s']) (use * True in simp)
  next
    case False
    have i: "i \<in> {..<FAKE_FD_COUNT} - R" "i \<notin> R" using Cons.prems(3,4) by auto
    obtain s1 where s1: "part_unregister_fd (fake_fd i) s = Inr s1" "with_fakes cb null L ({..<FAKE_FD_COUNT} - R - {i}) s1"
      using remove_fake [OF Cons.prems(1,2) i(1)] by blast
    have e: "{..<FAKE_FD_COUNT} - R - {i} = {..<FAKE_FD_COUNT} - insert i R" by auto
    have sub': "insert i R \<subseteq> {..<i + 1}" using sub by simp
    obtain R' n s' where *: "part_remove_some rs (i + 1) (insert i R) (mycount - 1) s1 = Inr (R', n, s')"
      "R' \<subseteq> {..<i + 1 + length rs}" "with_fakes cb null L ({..<FAKE_FD_COUNT} - R') s'"
      "n + int (card R') = mycount - 1 + int (card (insert i R))"
      using Cons.IH [OF s1(2) [unfolded e] Cons.prems(2) sub', of "mycount - 1"] Cons.prems(4) by auto
    have "finite R" using Cons.prems(3) by (rule finite_subset) simp
    then have c: "int (card (insert i R)) = int (card R) + 1" using i(2) by simp
    show ?thesis by (rule exI [of _ R'], rule exI [of _ n], rule exI [of _ s']) (use * False s1(1) c in simp)
  qed
qed simp

lemma compact_fakes:
  assumes "with_fakes cb null L I s"
  shows "with_fakes cb null L I (part_compact s)" and "part_fd_count (part_compact s) = size L + card I"
  using assms part_compact_live [of s] by (simp_all add: with_fakes_def part_fd_count_def)

lemma exists_fd_result:
  assumes "part_inv s" and "0 \<le> f"
  shows "part_test_exists_fd f s = Inr (f \<in> fst ` set_mset (part_live s))"
proof -
  let ?pt = "edata s (nat (f mod 8))"
  have "list_ex (\<lambda>i. events (fds ?pt i) \<noteq> 0 \<and> fd (fds ?pt i) = f) [0..<nfds ?pt] \<longleftrightarrow> f \<in> fst ` set_mset (live_entries ?pt)"
    unfolding mem_live_fd by (auto simp: list_ex_iff)
  then show ?thesis
    using part_fd_home [OF assms] part_of_nonneg [OF assms(2)] by (simp add: part_test_exists_fd_def Let_def)
qed

lemma integrity_result:
  assumes "with_fakes cb null L ({..<FAKE_FD_COUNT} - R) s" and "no_fake L" and "set is \<subseteq> {..<FAKE_FD_COUNT}"
  shows "part_integrity is R s = Inr True"
  using assms(3)
proof (induction "is")
  case (Cons i "is")
  have i: "i < FAKE_FD_COUNT" using Cons.prems by simp
  have "part_inv s" using assms(1) by (simp add: with_fakes_def)
  then have "part_test_exists_fd (fake_fd i) s = Inr (i \<notin> R)"
    using exists_fd_result [of s "fake_fd i"] with_fakes_mem [OF assms(1,2) i] i by simp
  then show ?case using Cons by simp
qed simp

lemma remove_rest_result:
  assumes "with_fakes cb null L (set is - R) s" and "no_fake L" and "distinct is"
  shows "\<exists>s'. part_remove_rest is R s = Inr s' \<and> with_fakes cb null L {} s'"
  using assms(1,3)
proof (induction "is" arbitrary: s)
  case (Cons i "is")
  show ?case
  proof (cases "i \<in> R")
    case True
    then have "set (i # is) - R = set is - R" by auto
    then show ?thesis using Cons True by simp
  next
    case False
    then have i: "i \<in> set (i # is) - R" by simp
    obtain s1 where s1: "part_unregister_fd (fake_fd i) s = Inr s1" "with_fakes cb null L (set (i # is) - R - {i}) s1"
      using remove_fake [OF Cons.prems(1) assms(2) i] by blast
    have e: "set (i # is) - R - {i} = set is - R" using Cons.prems(2) by auto
    show ?thesis using Cons.IH [OF s1(2) [unfolded e]] Cons.prems(2) False s1(1) by simp
  qed
qed simp

text \<open>The test up to its second count.\<close>

lemma test_compacted:
  assumes "part_inv s" and "part_room s 1024" and "no_fake (part_live s)" and "length rs \<le> 1024"
  shows "\<exists>s1 R n s2. part_add_fakes A cb null [0..<FAKE_FD_COUNT] s = Inr s1 \<and> part_fd_count s1 = part_fd_count s + FAKE_FD_COUNT \<and>
    part_remove_some rs 0 {} (int (part_fd_count s) + int FAKE_FD_COUNT) s1 = Inr (R, n, s2) \<and> R \<subseteq> {..<length rs} \<and>
    with_fakes cb null (part_live s) ({..<FAKE_FD_COUNT} - R) (part_compact s2) \<and>
    n = int (part_fd_count s) + int (FAKE_FD_COUNT - card R) \<and>
    part_fd_count (part_compact s2) = size (part_live s) + (FAKE_FD_COUNT - card R)"
proof -
  let ?L = "part_live s" and ?N = "{..<FAKE_FD_COUNT}" and ?is = "[0..<FAKE_FD_COUNT]"
  have w0: "with_fakes cb null ?L {} s" using assms(1) by (simp add: with_fakes_def)
  have u: "set ?is = ?N" by auto
  have r: "part_room s (length ?is)" using assms(2) by (simp add: FAKE_FD_COUNT_def)
  obtain s1 where s1: "part_add_fakes A cb null ?is s = Inr s1" "with_fakes cb null ?L ?N s1"
    "grand_nfds s1 = grand_nfds s + FAKE_FD_COUNT"
    using add_fakes_result [OF assms(1) r distinct_upt _ _ w0, of A] u by auto
  obtain R n s2 where s2: "part_remove_some rs 0 {} (int (part_fd_count s) + int FAKE_FD_COUNT) s1 = Inr (R, n, s2)"
    "R \<subseteq> {..<length rs}" "with_fakes cb null ?L (?N - R) s2"
    "n + int (card R) = int (part_fd_count s) + int FAKE_FD_COUNT"
    using remove_some_result [of cb null ?L "{}" s1 0 rs "int (part_fd_count s) + int FAKE_FD_COUNT"] s1(2) assms(3,4)
    by (auto simp: FAKE_FD_COUNT_def)
  have RN: "R \<subseteq> ?N" using s2(2) assms(4) by (auto simp: FAKE_FD_COUNT_def)
  have fin: "finite R" using RN by (rule finite_subset) simp
  have "card (?N - R) = FAKE_FD_COUNT - card R" "card R \<le> FAKE_FD_COUNT"
    using card_Diff_subset [OF fin RN] card_mono [OF _ RN] by simp_all
  then show ?thesis
    using s1(1,3) s2 compact_fakes [OF s2(3)]
    by (intro exI [of _ s1] exI [of _ R] exI [of _ n] exI [of _ s2]) (simp add: part_fd_count_def)
qed

section \<open>Properties\<close>

text \<open>The self test of the partitioned loop passes and is neutral whatever the random numbers are: on tables
  with room for 1024 more descriptors in every partition, no unregistered entry pending and none of the fake descriptors
  in use, all its checks hold, and it leaves exactly the registrations that were there, with the same count.\<close>

theorem part_self_test_neutral:
  assumes "part_inv s" and "part_room s 1024" and "grand_nfds s = size (part_live s)"
    and "no_fake (part_live s)" and "length rs \<le> 1024"
  shows "\<exists>s'. part_test_helper A cb null rs s = Inr (0, s') \<and> part_inv s' \<and> part_live s' = part_live s \<and>
    part_fd_count s' = part_fd_count s"
proof -
  let ?is = "[0..<FAKE_FD_COUNT]"
  obtain s1 R n s2 where s: "part_add_fakes A cb null ?is s = Inr s1" "part_fd_count s1 = part_fd_count s + FAKE_FD_COUNT"
    "part_remove_some rs 0 {} (int (part_fd_count s) + int FAKE_FD_COUNT) s1 = Inr (R, n, s2)"
    "with_fakes cb null (part_live s) ({..<FAKE_FD_COUNT} - R) (part_compact s2)"
    "n = int (part_fd_count s) + int (FAKE_FD_COUNT - card R)"
    "part_fd_count (part_compact s2) = size (part_live s) + (FAKE_FD_COUNT - card R)"
    using test_compacted [OF assms(1,2,4,5), of A cb null] by blast
  have u: "set ?is = {..<FAKE_FD_COUNT}" by auto
  have ok: "part_integrity ?is R (part_compact s2) = Inr True" using integrity_result [OF s(4) assms(4)] u by simp
  obtain s4 where s4: "part_remove_rest ?is R (part_compact s2) = Inr s4" "with_fakes cb null (part_live s) {} s4"
    using remove_rest_result [of cb null "part_live s" ?is R, OF _ assms(4) distinct_upt] s(4) u by auto
  have "part_test_helper A cb null rs s = Inr (0, part_compact s4)"
    using s ok s4(1) assms(3) by (simp add: part_test_helper_def part_fd_count_def Let_def)
  then show ?thesis using compact_fakes [OF s4(2)] assms(3) by (simp add: with_fakes_def part_fd_count_def)
qed

lemma part_self_test_neutral_witness:
  "\<exists>s'. part_test_helper ref_aroop 0 () (replicate 100 7) part_empty = Inr (0, s') \<and> part_live s' = {#} \<and> part_fd_count s' = 0"
  using part_self_test_neutral [of part_empty "replicate 100 7" ref_aroop 0 "()"] part_empty_simps
  by (auto simp: part_empty_def part_fd_count_def no_fake_def)

text \<open>Where an unregistered entry is still pending when the test starts, its second count fails: the test returns an
  error and leaves its own descriptors registered, at least 924 of the 1024, which the next step of the loop hands to
  \<open>poll\<close>.\<close>

theorem part_self_test_leaks:
  assumes "part_inv s" and "part_room s 1024" and "grand_nfds s \<noteq> size (part_live s)"
    and "no_fake (part_live s)" and "length rs = 100"
  shows "\<exists>s' I. part_test_helper A cb null rs s = Inr (-1, s') \<and> I \<subseteq> {..<FAKE_FD_COUNT} \<and> 924 \<le> card I \<and>
    part_live s' = part_live s + image_mset (fake_entry cb null) (mset_set I)"
proof -
  have "length rs \<le> 1024" using assms(5) by simp
  then obtain s1 R n s2 where s: "part_add_fakes A cb null [0..<FAKE_FD_COUNT] s = Inr s1" "part_fd_count s1 = part_fd_count s + FAKE_FD_COUNT"
    "part_remove_some rs 0 {} (int (part_fd_count s) + int FAKE_FD_COUNT) s1 = Inr (R, n, s2)" "R \<subseteq> {..<length rs}"
    "with_fakes cb null (part_live s) ({..<FAKE_FD_COUNT} - R) (part_compact s2)"
    "n = int (part_fd_count s) + int (FAKE_FD_COUNT - card R)"
    "part_fd_count (part_compact s2) = size (part_live s) + (FAKE_FD_COUNT - card R)"
    using test_compacted [OF assms(1,2,4), of rs A cb null] by blast
  have "{100..<FAKE_FD_COUNT} \<subseteq> {..<FAKE_FD_COUNT} - R" using s(4) assms(5) by auto
  then have "924 \<le> card ({..<FAKE_FD_COUNT} - R)"
    using card_mono [of "{..<FAKE_FD_COUNT} - R" "{100..<FAKE_FD_COUNT}"] by (simp add: FAKE_FD_COUNT_def)
  moreover have "part_test_helper A cb null rs s = Inr (-1, part_compact s2)"
    using s assms(3) by (simp add: part_test_helper_def part_fd_count_def Let_def)
  ultimately show ?thesis using s(5) by (intro exI [of _ "part_compact s2"] exI [of _ "{..<FAKE_FD_COUNT} - R"]) (simp add: with_fakes_def)
qed

text \<open>A table with one entry that was unregistered and not compacted yet.\<close>

definition part_pending :: "(nat, unit) part_state" where
  "part_pending = part_empty\<lparr>grand_nfds := 1, edata := (\<lambda>_. two_fds\<lparr>nfds := 0\<rparr>)(0 :=
     \<lparr>fds = \<lambda>_. \<lparr>fd = 8, events = 0, revents = 0\<rparr>, cbs = \<lambda>_. \<lparr>on_event = Some 0, event_data = ()\<rparr>, nfds = 1\<rparr>)\<rparr>"

lemma part_self_test_leaks_witness:
  "\<exists>s' I. part_test_helper ref_aroop 0 () (replicate 100 7) part_pending = Inr (-1, s') \<and> 924 \<le> card I \<and>
     part_live s' = image_mset (fake_entry 0 ()) (mset_set I)"
proof -
  have l: "live_entries (edata part_pending p) = {#}" for p
    by (simp add: part_pending_def part_empty_def live_entries_def entry_at_def)
  have "part_live part_pending = {#}" "part_inv part_pending" by (simp_all add: part_live_def part_inv_def l)
  moreover have "part_room part_pending 1024" "grand_nfds part_pending = 1"
    by (simp_all add: part_pending_def part_empty_def part_room_def MAX_POLL_FD_def MAX_POLL_FD_PER_PARTITION_def POLL_PARTITION_def)
  ultimately show ?thesis
    using part_self_test_leaks [of part_pending "replicate 100 7" ref_aroop 0 "()"] by (auto simp: no_fake_def)
qed

end
