(* ===== verification/SelfTests.thy ===== *)
theory SelfTests
  imports LegacyTest PartitionedTest Plugin
begin

text \<open>
  The commands of the space \<open>test\<close> that run the self tests of the message coder and of the event loop
  (\<open>base/src/binary_coder_extended.c\<close>, \<open>base/src/event_loop_poll.c\<close>) and what they answer; those of the two files they can be
  exchanged for are in theories \<open>LegacyTest\<close> and \<open>PartitionedTest\<close>.
\<close>

section \<open>Code\<close>

definition binary_coder_test :: "aroop \<Rightarrow> (int \<times> aroop_txt_t) exec" where
  "binary_coder_test A =
     (let output0 = aroop_txt_buffer A 512
      in ebind (binary_coder_test_helper A 32) (\<lambda>failed.
         ebind (if failed then Inr True else binary_coder_test_helper A 0) (\<lambda>failed.
         Inr (0, if failed then aroop_txt_printf A output0 (lit ''Binary coder: FAILED'' @ [10])
                 else aroop_txt_concat_string A output0 (lit ''Binary coder: successful'' @ [10])))))"

definition binary_coder_test_desc :: "aroop \<Rightarrow> bytes \<Rightarrow> aroop_txt_t \<Rightarrow> aroop_txt_t" where
  "binary_coder_test_desc A source_file space = plugin_desc A (lit ''binary_coder_test'') (lit ''test'') space source_file
     (lit ''It is test code for binary coder.'' @ [10])"

definition event_loop_test :: "aroop \<Rightarrow> 'd \<Rightarrow> ('c, 'd) event_loop_data \<Rightarrow> (int \<times> aroop_txt_t \<times> ('c, 'd) event_loop_data) exec" where
  "event_loop_test A null s =
     (let output0 = aroop_txt_buffer A 512
      in ebind (event_loop_test_helper A null 1000 s) (\<lambda>(failed, s').
         Inr (0, if failed then aroop_txt_printf A output0 (lit ''event_loop.c:FAILED'' @ [10])
                 else aroop_txt_concat_string A output0 (lit ''event_loop.c:successful'' @ [10]), s')))"

definition event_loop_test_desc :: "aroop \<Rightarrow> bytes \<Rightarrow> aroop_txt_t \<Rightarrow> aroop_txt_t" where
  "event_loop_test_desc A source_file space = plugin_desc A (lit ''event_loop_test'') (lit ''test'') space source_file
     (lit ''It is test code for event loop.'' @ [10])"

section \<open>What they answer\<close>

lemma answer_string:
  assumes "aroop_ok A" and "length s \<le> 512"
  shows "str (aroop_txt_concat_string A (aroop_txt_buffer A 512) s) = s" and "str (aroop_txt_printf A (aroop_txt_buffer A 512) s) = s"
proof -
  let ?b = "aroop_txt_buffer A 512"
  have b: "wf_txt ?b" "t_len ?b = 0" "512 \<le> t_cap ?b" using assms(1) by (simp_all add: aroop_ok_def create_laws_def)
  have e: "str ?b = []" using b(2) by (simp add: str_def)
  show "str (aroop_txt_concat_string A ?b s) = s" "str (aroop_txt_printf A ?b s) = s"
    using appendsD(2) [OF concat_string_appends [OF assms(1) b(1), of s]] appendsD(2) [OF printf_appends [OF assms(1) b(1,2), of s]]
      b(2,3) assms(2) e by simp_all
qed

text \<open>The test of the coder never reports a failure: it passes, or it stops the process at the assertion of the dump.\<close>

lemma coder_test_answer:
  assumes "aroop_ok A"
  shows "aroop_assert_aborts A \<Longrightarrow> binary_coder_test A = Inl AssertFailed"
    and "\<not> aroop_assert_aborts A \<Longrightarrow> \<exists>out. binary_coder_test A = Inr (0, out) \<and> str out = lit ''Binary coder: successful'' @ [10]"
    and "\<exists>out. legacy_coder_test A 4 = Inr (0, out) \<and> str out = lit ''successful'' @ [10]"
proof -
  have z: "(0 :: 32 word) \<le>s 32" "(0 :: 32 word) \<le>s 0" by code_simp+
  note r = self_test_result [OF assms(1) z(1)] self_test_result [OF assms(1) z(2)]
  show "aroop_assert_aborts A \<Longrightarrow> binary_coder_test A = Inl AssertFailed" using r by (simp add: binary_coder_test_def)
  show "\<not> aroop_assert_aborts A \<Longrightarrow> \<exists>out. binary_coder_test A = Inr (0, out) \<and> str out = lit ''Binary coder: successful'' @ [10]"
    using r answer_string [OF assms(1)] by (simp add: binary_coder_test_def)
  show "\<exists>out. legacy_coder_test A 4 = Inr (0, out) \<and> str out = lit ''successful'' @ [10]"
    using legacy_self_test_passes [OF assms(1) z(1), of 4] legacy_self_test_passes [OF assms(1) z(2), of 4] answer_string [OF assms(1)]
    by (simp add: legacy_coder_test_def)
qed

text \<open>The one of the event loop answers that it failed exactly when an unregistered entry was pending.\<close>

lemma loop_test_answer:
  assumes "aroop_ok A" and "nfds s + 1000 \<le> MAX_POLL_FD" and "{5000..<6000} \<inter> fst ` set_mset (live_entries s) = {}"
  shows "\<exists>out s'. event_loop_test A null s = Inr (0, out, s') \<and> live_entries s' = live_entries s \<and>
    str out = (if nfds s = size (live_entries s) then lit ''event_loop.c:successful'' @ [10] else lit ''event_loop.c:FAILED'' @ [10])"
proof -
  obtain s' where s': "event_loop_test_helper A null 1000 s = Inr (nfds s \<noteq> size (live_entries s), s')" "live_entries s' = live_entries s"
    using self_test_neutral [of s 1000 A null] assms(2,3) by auto
  then show ?thesis using answer_string [OF assms(1)] by (simp add: event_loop_test_def)
qed

text \<open>And so does the one of the partitioned loop.\<close>

lemma partitioned_test_answer:
  assumes "aroop_ok A" and "part_inv s" and "part_room s 1024" and "no_fake (part_live s)" and "length rs = 100"
  shows "\<exists>out s'. part_test A cb null rs s = Inr (0, out, s') \<and>
    str out = lit ''You should not run this test on loaded server'' @ [10] @
      (if grand_nfds s = size (part_live s) then lit ''event_loop.c:successful'' @ [10] else lit ''event_loop.c:FAILED'' @ [10])"
proof -
  let ?w = "lit ''You should not run this test on loaded server'' @ [10]"
  let ?o = "aroop_txt_concat_string A (aroop_txt_buffer A 512) ?w"
  have b: "wf_txt (aroop_txt_buffer A 512)" "t_len (aroop_txt_buffer A 512) = 0" "512 \<le> t_cap (aroop_txt_buffer A 512)"
    using assms(1) by (simp_all add: aroop_ok_def create_laws_def)
  have ap: "appends (aroop_txt_buffer A 512) ?w ?o" using concat_string_appends [OF assms(1) b(1)] b(2,3) by simp
  have o: "wf_txt ?o" "str ?o = ?w" "512 \<le> t_cap ?o" using appendsD [OF ap] b(3) answer_string(1) [OF assms(1), of ?w] by simp_all
  have l: "t_len ?o = 46" using length_str [OF o(1)] by (simp add: o(2))
  have t: "str (part_test_text A r) = ?w @ (if r \<noteq> 0 then lit ''event_loop.c:FAILED'' @ [10] else lit ''event_loop.c:successful'' @ [10])" for r
    using appendsD(2) [OF concat_string_appends [OF assms(1) o(1), of "if r \<noteq> 0 then lit ''event_loop.c:FAILED'' @ [10] else lit ''event_loop.c:successful'' @ [10]"]]
      l o(2,3) by (simp add: part_test_text_def)
  have rs: "length rs \<le> 1024" using assms(5) by simp
  show ?thesis
  proof (cases "grand_nfds s = size (part_live s)")
    case True
    then show ?thesis using part_self_test_neutral [OF assms(2,3) _ assms(4) rs, of A cb null] t by (auto simp: part_test_def)
  next
    case False
    then show ?thesis using part_self_test_leaks [OF assms(2,3) _ assms(4,5), of A cb null] t by (auto simp: part_test_def)
  qed
qed

end
