(* ===== verification/UnitTests.thy ===== *)
theory UnitTests
  imports Scanner BinaryCoder EventLoop
begin

text \<open>
  The unit tests under \<open>base/tests\<close> of the scanner, the message coder and the event loop. Each test is a function
  that tells whether all its checks hold; what is shown is that they hold for every library that satisfies the assumptions
  of theory \<open>Aroop\<close>, and for any number of rounds. The frame around the tests (suites and runners of the library Check) is
  left out.
\<close>

section \<open>Code\<close>

definition test_scanner_trim :: "aroop \<Rightarrow> bool" where
  "test_scanner_trim A \<longleftrightarrow> t_len (snd (scanner_trim A (aroop_txt_static_string A (lit ''NginZ '' @ [10, 10, 9])))) = 5"

text \<open>The loop over the tokens, with fuel; the result is their number.\<close>

fun token_count_loop :: "aroop \<Rightarrow> nat \<Rightarrow> aroop_txt_t \<Rightarrow> aroop_txt_t \<Rightarrow> nat \<Rightarrow> nat option" where
  "token_count_loop A 0 x token token_count = None"
| "token_count_loop A (Suc fuel) x token token_count =
     (case scanner_next_token A x token of
        (x', token') \<Rightarrow> if t_len token' = 0 then Some token_count else token_count_loop A fuel x' token' (Suc token_count))"

definition test_scanner_next_token :: "aroop \<Rightarrow> bool" where
  "test_scanner_next_token A \<longleftrightarrow>
     (let x = aroop_txt_static_string A (lit ''NginZ is a scalable communication server framework.'')
      in token_count_loop A (Suc (t_len x)) x zero_txt 0 = Some 7)"

definition test_binary_coder :: "aroop \<Rightarrow> 32 word \<Rightarrow> bool exec" where
  "test_binary_coder A expval =
     ebind (binary_coder_reset A (aroop_txt_stackbuffer A 255)) (\<lambda>bin0.
     let bin1 = snd (binary_pack_int A bin0 expval);
         bin2 = snd (binary_pack_int A bin1 expval);
         str0 = aroop_txt_static_string A (lit ''test'');
         bin3 = snd (binary_pack_string A bin2 str0)
     in ebind (binary_unpack_int A bin3 0 0) (\<lambda>(_, intval).
        ebind (binary_unpack_int A bin3 1 0) (\<lambda>(_, intval2).
        ebind (binary_unpack_string A bin3 2 zero_txt) (\<lambda>(_, strval).
        let strval' = aroop_txt_zero_terminate A strval;
            str' = aroop_txt_zero_terminate A str0
        in Inr (intval = expval \<and> intval2 = expval \<and> aroop_txt_equals A strval' str')))))"

fun delete_loop :: "int \<Rightarrow> nat \<Rightarrow> bool \<Rightarrow> ('c, 'd) event_loop_data \<Rightarrow> ('c, 'd) event_loop_data" where
  "delete_loop start_fd 0 ev s = s"
| "delete_loop start_fd (Suc cnt) ev s =
     (if ev \<and> odd cnt then delete_loop start_fd cnt ev s
      else if \<not> ev \<and> even cnt then delete_loop start_fd cnt ev s
      else delete_loop start_fd cnt ev (event_loop_unregister_fd (start_fd + int cnt) s))"

definition test_event_loop_delete_helper :: "int \<Rightarrow> nat \<Rightarrow> bool \<Rightarrow> ('c, 'd) event_loop_data \<Rightarrow> ('c, 'd) event_loop_data" where
  "test_event_loop_delete_helper start_fd cnt ev s = event_loop_batch_unregister (delete_loop start_fd cnt ev s)"

definition test_event_loop :: "aroop \<Rightarrow> 'd \<Rightarrow> nat \<Rightarrow> ('c, 'd) event_loop_data \<Rightarrow> (bool \<times> ('c, 'd) event_loop_data) exec" where
  "test_event_loop A null n s =
     (let prev = event_loop_fd_count s
      in ebind (run_registers (\<lambda>f (cb, d, ev). event_loop_register_fd A f cb d ev)
                  (map (\<lambda>k. (5000 + int k, None, null, POLLIN)) (rev [0..<n])) s) (\<lambda>s1.
         let s2 = test_event_loop_delete_helper 5000 n True s1;
             s3 = test_event_loop_delete_helper 5000 n False s2
         in Inr (list_all (\<lambda>i. events (fds s2 i) \<noteq> 0) [0..<nfds s2] \<and>
                 list_all (\<lambda>i. events (fds s3 i) \<noteq> 0 \<and> fd (fds s3 i) < 5000) [0..<nfds s3] \<and>
                 prev = event_loop_fd_count s3, s3)))"

section \<open>Scanner\<close>

fun text_tokens :: "nat \<Rightarrow> bytes \<Rightarrow> nat option" where
  "text_tokens 0 bs = None"
| "text_tokens (Suc n) bs = (if first_token bs = [] then Some 0 else map_option Suc (text_tokens n (after_token bs)))"

lemma token_count:
  assumes "aroop_ok A" and "wf_txt x" and "wf_txt token"
  shows "token_count_loop A n x token c = map_option (\<lambda>k. k + c) (text_tokens n (str x))"
  using assms(2,3)
proof (induction n arbitrary: x token c)
  case (Suc n)
  obtain x' token' where n: "scanner_next_token A x token = (x', token')" by fastforce
  note p = next_token_props [OF assms(1) Suc.prems n]
  have "t_len token' = 0 \<longleftrightarrow> first_token (str x) = []" using length_str [OF p(3)] p(4) by auto
  then show ?case using Suc.IH [OF p(1,3), of "Suc c"] n p(2) by (simp add: option.map_comp comp_def)
qed simp

lemma scanner_tests_pass:
  assumes "aroop_ok A"
  shows "test_scanner_trim A" and "test_scanner_next_token A"
proof -
  note s = static_laws [OF assms]
  let ?t = "aroop_txt_static_string A (lit ''NginZ '' @ [10, 10, 9])"
  have f: "take (t_len ?t) (str ?t) = str ?t" by (simp add: str_def)
  have "rev (dropWhile isspace (rev (lit ''NginZ '' @ [10, 10, 9]))) = lit ''NginZ''" by code_simp
  then show "test_scanner_trim A"
    using trim_loop_spec [OF assms s(1) order_refl, of "lit ''NginZ '' @ [10, 10, 9]"] f
    by (auto simp: test_scanner_trim_def scanner_trim_def Let_def copy_shallow_law [OF assms] s(2) length_str [symmetric] lit_def)
  let ?x = "aroop_txt_static_string A (lit ''NginZ is a scalable communication server framework.'')"
  have "text_tokens 52 (lit ''NginZ is a scalable communication server framework.'') = Some 7" by code_simp
  moreover have "t_len ?x = length (str ?x)" using length_str [OF s(1)] by simp
  then have "Suc (t_len ?x) = 52" by (simp only: s(2)) code_simp
  ultimately show "test_scanner_next_token A"
    using token_count [OF assms s(1), of zero_txt] by (simp add: test_scanner_next_token_def Let_def s(2) del: token_count_loop.simps text_tokens.simps)
qed

section \<open>Message coder\<close>

lemma binary_coder_unit_test_passes:
  assumes "aroop_ok A" and "0 \<le>s v"
  shows "test_binary_coder A v = Inr True"
proof -
  let ?b = "aroop_txt_stackbuffer A 255"
  have b: "wf_txt ?b" "256 \<le> t_cap ?b" using buffer_laws(3) [OF assms(1)] buffer_cap(2) [OF assms(1), of 255] by simp_all
  obtain b0 where b0: "binary_coder_reset A ?b = Inr b0" "packed_msg b0 []" "t_cap b0 = t_cap ?b"
    using reset_packed [OF assms(1) b] by blast
  have "256 \<le> t_cap b0" using b0(3) b(2) by simp
  from test_message_read_back [OF assms b0(2) this] show ?thesis
    by (auto simp: test_binary_coder_def b0(1) Let_def pack_wires_def)
qed

section \<open>Event loop\<close>

lemma delete_loop_filter:
  "run_unregisters (\<lambda>f s. Inr (event_loop_unregister_fd f s)) (map (\<lambda>k. start_fd + int k) (filter (\<lambda>k. even k = ev) (rev [0..<n]))) s =
   Inr (delete_loop start_fd n ev s)"
  by (induction n arbitrary: s) auto

definition fakes :: "'d \<Rightarrow> (nat \<Rightarrow> bool) \<Rightarrow> nat \<Rightarrow> (int \<times> 'c option \<times> 'd \<times> 16 word) list" where
  "fakes null P n = map (\<lambda>k. (5000 + int k, None, null, POLLIN)) (filter P (rev [0..<n]))"

lemma fakes_simps:
  "map fst (fakes null P n) = map (\<lambda>k. 5000 + int k) (filter P (rev [0..<n]))" "distinct (map fst (fakes null P n))"
  "\<forall>(f, e) \<in> set (fakes null P n). snd (snd e) \<noteq> 0" "\<forall>f \<in> set (map fst (fakes null P n)). 5000 \<le> f"
  by (auto simp: fakes_def distinct_map inj_on_def POLLIN_def)

lemma fakes_split: "mset (fakes null (\<lambda>_. True) n) = mset (fakes null even n) + mset (fakes null odd n)"
proof -
  have "mset (rev [0..<n]) = filter_mset even (mset (rev [0..<n])) + filter_mset odd (mset (rev [0..<n]))" by (rule multiset_partition)
  then show ?thesis unfolding fakes_def by (simp only: mset_map mset_filter filter_True filter_mset_True image_mset_union [symmetric])
qed

lemma delete_live:
  assumes "nfds s \<le> MAX_POLL_FD" and "live_entries s = mset (fakes null (\<lambda>k. even k = ev) n) + base"
    and "\<And>k. even k = ev \<Longrightarrow> 5000 + int k \<notin> fst ` set_mset base"
  shows "live_entries (test_event_loop_delete_helper 5000 n ev s) = base" and "nfds (test_event_loop_delete_helper 5000 n ev s) \<le> MAX_POLL_FD"
proof -
  let ?xs = "fakes null (\<lambda>k. even k = ev) n"
  have "set (map fst ?xs) \<inter> set_mset (image_mset fst base) = {}" using assms(3) by (auto simp: fakes_simps(1))
  then obtain s' where s': "Inr (delete_loop 5000 n ev s) = Inr s'" "nfds s' \<le> MAX_POLL_FD" "live_entries s' = base"
    using poll.unregisters_live [OF assms(1,2) _ fakes_simps(2,3), unfolded fakes_simps(1) delete_loop_filter] by (auto simp: fakes_simps(1))
  then show "live_entries (test_event_loop_delete_helper 5000 n ev s) = base" "nfds (test_event_loop_delete_helper 5000 n ev s) \<le> MAX_POLL_FD"
    using batch_unregister_correct(1,3) [of s'] by (simp_all add: test_event_loop_delete_helper_def)
qed

text \<open>Whatever is registered at the start, the test passes when none of it has a number from 5000 on and no unregistered entry
  is pending, and it leaves the registrations as they were.\<close>

lemma event_loop_unit_test_passes:
  fixes s :: "('c, 'd) event_loop_data"
  assumes "nfds s + n \<le> MAX_POLL_FD" and "\<forall>f \<in> fst ` set_mset (live_entries s). f < 5000" and "nfds s = size (live_entries s)"
  shows "\<exists>s'. test_event_loop A null n s = Inr (True, s') \<and> live_entries s' = live_entries s"
proof -
  let ?L = "live_entries s"
  have e: "register_entry A = (\<lambda>f (cb, d, ev). event_loop_register_fd A f cb d ev)" for A
    by (rule ext)+ (simp add: register_entry_def)
  have r: "map (\<lambda>k. (5000 + int k, None, null, POLLIN)) (rev [0..<n]) = fakes null (\<lambda>_. True) n" by (simp add: fakes_def)
  have "nfds s \<le> MAX_POLL_FD" "nfds s + length (fakes null (\<lambda>_. True) n) \<le> MAX_POLL_FD" using assms(1) by (simp_all add: fakes_def)
  from poll.registers_live [OF this(1,2) fakes_simps(3), of A] obtain s1 where
    s1: "run_registers (\<lambda>f (cb, d, ev). event_loop_register_fd A f cb d ev) (fakes null (\<lambda>_. True) n) s = Inr s1" "nfds s1 \<le> MAX_POLL_FD"
      "live_entries s1 = mset (fakes null even n) + (mset (fakes null odd n) + ?L)"
    by (auto simp: e fakes_split add.assoc)
  have low: "5000 + int k \<notin> fst ` set_mset ?L" for k using assms(2) by fastforce
  then have d: "5000 + int k \<notin> fst ` set_mset (mset (fakes null odd n) + ?L)" if "even k" for k
    using that by (auto simp: image_Un fakes_def)
  let ?s2 = "test_event_loop_delete_helper 5000 n True s1"
  have s2: "live_entries ?s2 = mset (fakes null odd n) + ?L" "nfds ?s2 \<le> MAX_POLL_FD"
    using delete_live [of s1 null True n "mset (fakes null odd n) + ?L"] s1(2,3) d by (simp_all del: image_Un set_mset_union)
  let ?s3 = "test_event_loop_delete_helper 5000 n False ?s2"
  have s3: "live_entries ?s3 = ?L" using delete_live(1) [of ?s2 null False n ?L] s2 low by simp
  have ev: "events (fds (test_event_loop_delete_helper 5000 n b t) i) \<noteq> 0" if "i < nfds (test_event_loop_delete_helper 5000 n b t)"
    for b i and t :: "('c, 'd) event_loop_data"
    using that batch_unregister_correct(2) by (simp add: test_event_loop_delete_helper_def)
  have "fd (fds ?s3 i) \<in> fst ` set_mset (live_entries ?s3)" if "i < nfds ?s3" for i
    using that ev [OF that] mem_live_fd by blast
  then have "fd (fds ?s3 i) < 5000" if "i < nfds ?s3" for i using that assms(2) unfolding s3 by blast
  moreover have "nfds ?s3 = size ?L" using batch_unregister_count [of "delete_loop 5000 n False ?s2"] s3
    by (simp add: test_event_loop_delete_helper_def batch_unregister_correct(1))
  ultimately show ?thesis
    using s1(1) s3 ev assms(3) by (simp add: test_event_loop_def r event_loop_fd_count_def list_all_iff)
qed

end
